(* ===== verification/Prelude.thy ===== *)
theory Prelude
  imports Main "HOL-Library.AList" "HOL-Library.Multiset" "HOL-Library.Char_ord"
    "HOL-Library.List_Lexorder" "HOL-Library.Product_Lexorder"
begin

text \<open>
  Shared ground of the development: Go maps as association lists, the part of Go's
  \<open>strings\<close>, \<open>strconv\<close> and \<open>sort\<close> packages that the modelled code calls,
  and the locale of loops over a Go map whose body touches only the entry of its own key.

  Strings are Go byte strings, written as HOL's \<open>string\<close> (a character is a byte).
  \<open>strings.ToLower\<close>, \<open>strings.EqualFold\<close> and \<open>strings.TrimSpace\<close> are modelled on
  ASCII, which is the alphabet of the protocol names, port states, status words and
  addresses that the code normalises with them.
\<close>

named_theorems gomap_simps \<open>lookups after the operations on Go maps\<close>

section \<open>Go maps\<close>

text \<open>
  A Go map is the list of its entries, in the order in which one iteration visits them.
  Go leaves that order open, so a property of the code must not depend on it; the locale
  \<open>keyed_loop\<close> below is how the development shows that it does not.
\<close>

type_synonym ('k, 'v) gomap = "('k \<times> 'v) list"

definition mget :: "('k, 'v) gomap \<Rightarrow> 'k \<Rightarrow> 'v option" where
  "mget m k = map_of m k"

definition mput :: "'k \<Rightarrow> 'v \<Rightarrow> ('k, 'v) gomap \<Rightarrow> ('k, 'v) gomap" where
  "mput k v m = AList.update k v m"

definition mdel :: "'k \<Rightarrow> ('k, 'v) gomap \<Rightarrow> ('k, 'v) gomap" where
  "mdel k m = filter (\<lambda>(k', _). k' \<noteq> k) m"

definition mhas :: "('k, 'v) gomap \<Rightarrow> 'k \<Rightarrow> bool" where
  "mhas m k = (mget m k \<noteq> None)"

definition mkeys :: "('k, 'v) gomap \<Rightarrow> 'k list" where
  "mkeys m = map fst m"

definition mfilter :: "('k \<Rightarrow> bool) \<Rightarrow> ('k, 'v) gomap \<Rightarrow> ('k, 'v) gomap" where
  "mfilter P m = filter (\<lambda>(k, _). P k) m"

text \<open>An association list is a Go map when no key occurs twice.\<close>

abbreviation wf_map :: "('k, 'v) gomap \<Rightarrow> bool" where
  "wf_map m \<equiv> distinct (map fst m)"

lemma mget_Nil [simp, gomap_simps]: "mget [] k = None"
  by (simp add: mget_def)

lemma mget_Cons [simp, gomap_simps]: "mget ((a, v) # m) k = (if k = a then Some v else mget m k)"
  by (simp add: mget_def)

lemma mget_mput [simp, gomap_simps]: "mget (mput k v m) k' = (if k' = k then Some v else mget m k')"
  by (simp add: mget_def mput_def update_conv)

lemma mget_mfilter [simp, gomap_simps]: "mget (mfilter P m) k = (if P k then mget m k else None)"
  by (induction m) (auto simp: mfilter_def mget_def)

lemma mget_mdel [simp, gomap_simps]: "mget (mdel k m) k' = (if k' = k then None else mget m k')"
  by (induction m) (auto simp: mdel_def mget_def)

lemma wf_mput [simp]: "wf_map m \<Longrightarrow> wf_map (mput k v m)"
  by (simp add: mput_def distinct_update)

lemma map_fst_mfilter: "map fst (mfilter P m) = filter P (map fst m)"
  by (induction m) (auto simp: mfilter_def)

lemma wf_mfilter [simp]: "wf_map m \<Longrightarrow> wf_map (mfilter P m)"
  by (simp add: map_fst_mfilter)

lemma mdel_mfilter: "mdel k m = mfilter (\<lambda>k'. k' \<noteq> k) m"
  by (simp add: mdel_def mfilter_def)

lemma wf_mdel [simp]: "wf_map m \<Longrightarrow> wf_map (mdel k m)"
  by (simp add: mdel_mfilter)

lemma mget_eq_Some_mem: "wf_map m \<Longrightarrow> mget m k = Some v \<longleftrightarrow> (k, v) \<in> set m"
  by (simp add: mget_def map_of_eq_Some_iff)

lemma mget_SomeD: "mget m k = Some v \<Longrightarrow> (k, v) \<in> set m"
  by (simp add: mget_def map_of_SomeD)

lemma mget_eq_None: "mget m k = None \<longleftrightarrow> k \<notin> fst ` set m"
  by (simp add: mget_def map_of_eq_None_iff)

lemma mhas_iff: "mhas m k \<longleftrightarrow> k \<in> fst ` set m"
  by (simp add: mhas_def mget_eq_None)

lemma mhas_mem: "mhas m k \<longleftrightarrow> k \<in> set (mkeys m)"
  by (simp add: mhas_iff mkeys_def)

text \<open>Two maps with the same entries in another order read the same.\<close>

lemma mget_perm:
  assumes "mset m = mset m'" "wf_map m"
  shows "mget m k = mget m' k"
proof -
  have s: "set m = set m'" using assms(1) by (rule mset_eq_setD)
  have "wf_map m'" using assms by (metis mset_map mset_eq_imp_distinct_iff)
  then have "mget m k = Some v \<longleftrightarrow> mget m' k = Some v" for v
    using mget_eq_Some_mem [OF assms(2)] mget_eq_Some_mem [of m'] s by metis
  then show ?thesis by (metis not_Some_eq)
qed

text \<open>Sums over the entries of a map, as counters that the code keeps beside it.\<close>

definition msum :: "('k \<Rightarrow> 'v \<Rightarrow> int) \<Rightarrow> ('k, 'v) gomap \<Rightarrow> int" where
  "msum f m = sum_list (map (\<lambda>(k, v). f k v) m)"

lemma msum_Nil [simp]: "msum f [] = 0"
  by (simp add: msum_def)

lemma msum_Cons [simp]: "msum f ((k, v) # m) = f k v + msum f m"
  by (simp add: msum_def)

lemma msum_mput:
  "wf_map m \<Longrightarrow> msum f (mput k v m) = msum f m + f k v - (case mget m k of None \<Rightarrow> 0 | Some v' \<Rightarrow> f k v')"
proof (induction m)
  case (Cons e m)
  obtain a b where e: "e = (a, b)" by (cases e)
  from Cons show ?case by (auto simp: e mput_def)
qed (simp add: mput_def)

lemma msum_mdel:
  "wf_map m \<Longrightarrow> msum f (mdel k m) = msum f m - (case mget m k of None \<Rightarrow> 0 | Some v' \<Rightarrow> f k v')"
proof (induction m)
  case (Cons e m)
  obtain a b where e: "e = (a, b)" by (cases e)
  have "mdel k m = m" if "k \<notin> fst ` set m"
    using that by (force simp: mdel_def filter_id_conv)
  moreover have "mget m a = None" using Cons.prems by (simp add: e mget_eq_None)
  ultimately show ?case using Cons by (auto simp: e mdel_def mget_eq_None)
qed (simp add: mdel_def)

lemma msum_nonneg: "(\<And>k v. 0 \<le> f k v) \<Longrightarrow> 0 \<le> msum f m"
  by (induction m) auto

lemma msum_cong: "(\<And>k v. (k, v) \<in> set m \<Longrightarrow> f k v = g k v) \<Longrightarrow> msum f m = msum g m"
  by (induction m) auto

lemma msum_single:
  assumes "\<And>k v. 0 \<le> f k v" "wf_map m" "mget m k = Some v"
  shows "f k v \<le> msum f m"
proof -
  have "0 \<le> msum f (mdel k m)" using assms(1) by (rule msum_nonneg)
  then show ?thesis using msum_mdel [OF assms(2), of f k] assms(3) by simp
qed

section \<open>Loops over a Go map\<close>

text \<open>
  The body of such a loop reads and writes only what belongs to the key of its entry:
  \<open>get s k\<close> is that part of the state, \<open>upd\<close> what the body does to it, and \<open>emit\<close> what
  the body appends to the loop's output list. The loop then acts on every key on its own,
  and the order of the iteration matters for the order of the output only.
\<close>

locale keyed_loop =
  fixes step :: "'k \<times> 'c \<Rightarrow> 's \<Rightarrow> 's"
    and get :: "'s \<Rightarrow> 'k \<Rightarrow> 'x"
    and out :: "'s \<Rightarrow> 'e list"
    and upd :: "'k \<Rightarrow> 'c \<Rightarrow> 'x \<Rightarrow> 'x"
    and emit :: "'k \<Rightarrow> 'c \<Rightarrow> 'x \<Rightarrow> 'e list"
  assumes get_step: "get (step (k, c) s) k' = (if k' = k then upd k c (get s k) else get s k')"
    and out_step: "out (step (k, c) s) = out s @ emit k c (get s k)"
begin

lemma get_loop:
  "wf_map kvs \<Longrightarrow>
   get (fold step kvs s) k = (case mget kvs k of None \<Rightarrow> get s k | Some c \<Rightarrow> upd k c (get s k))"
proof (induction kvs arbitrary: s)
  case Nil
  then show ?case by simp
next
  case (Cons kc kvs)
  obtain a c where kc: "kc = (a, c)" by (cases kc)
  from Cons.prems kc have "wf_map kvs" and a: "a \<notin> fst ` set kvs" by auto
  then have none: "mget kvs a = None" by (simp add: mget_eq_None)
  from Cons.IH [OF \<open>wf_map kvs\<close>] show ?case
    using none by (auto simp: kc get_step split: option.splits)
qed

lemma out_loop:
  "wf_map kvs \<Longrightarrow> out (fold step kvs s) = out s @ concat (map (\<lambda>(k, c). emit k c (get s k)) kvs)"
proof (induction kvs arbitrary: s)
  case Nil
  then show ?case by simp
next
  case (Cons kc kvs)
  obtain a c where kc: "kc = (a, c)" by (cases kc)
  from Cons.prems kc have wf: "wf_map kvs" and a: "a \<notin> fst ` set kvs" by auto
  have "map (\<lambda>(k, c'). emit k c' (get (step (a, c) s) k)) kvs = map (\<lambda>(k, c'). emit k c' (get s k)) kvs"
    (is "?l = ?r")
    using a by (force simp: get_step intro!: map_cong)
  moreover have "out (fold step (kc # kvs) s) = out s @ emit a c (get s a) @ concat ?l"
    using Cons.IH [OF wf] by (simp only: fold_simps kc out_step comp_apply append_assoc)
  ultimately show ?case by (simp only: kc list.map concat.simps case_prod_conv)
qed

text \<open>Go visits a map in any order: the state and the multiset of outputs stay the same.\<close>

lemma get_loop_order:
  "wf_map kvs \<Longrightarrow> mset kvs = mset kvs' \<Longrightarrow> get (fold step kvs s) k = get (fold step kvs' s) k"
  by (metis get_loop mget_perm mset_map mset_eq_imp_distinct_iff)

lemma out_loop_order:
  assumes "wf_map kvs" "mset kvs = mset kvs'"
  shows "mset (out (fold step kvs s)) = mset (out (fold step kvs' s))"
proof -
  have "wf_map kvs'" using assms by (metis mset_map mset_eq_imp_distinct_iff)
  moreover have "mset (concat (map f kvs)) = mset (concat (map f kvs'))" for f :: "'k \<times> 'c \<Rightarrow> 'e list"
    using assms(2) by (metis mset_concat mset_map map_map sum_mset_sum_list)
  ultimately show ?thesis using assms(1) by (simp add: out_loop)
qed

end

section \<open>Strings\<close>

definition lower_char :: "char \<Rightarrow> char" where
  "lower_char c =
     (case map_of (zip ''ABCDEFGHIJKLMNOPQRSTUVWXYZ'' ''abcdefghijklmnopqrstuvwxyz'') c of
        None \<Rightarrow> c | Some d \<Rightarrow> d)"

definition toLower :: "string \<Rightarrow> string" where
  "toLower s = map lower_char s"

definition is_space :: "char \<Rightarrow> bool" where
  "is_space c = (c \<in> {CHR 0x20, CHR 0x09, CHR 0x0A, CHR 0x0B, CHR 0x0C, CHR 0x0D})"

definition trimSpace :: "string \<Rightarrow> string" where
  "trimSpace s = rev (dropWhile is_space (rev (dropWhile is_space s)))"

definition equalFold :: "string \<Rightarrow> string \<Rightarrow> bool" where
  "equalFold a b = (toLower a = toLower b)"

definition hasPrefix :: "string \<Rightarrow> string \<Rightarrow> bool" where
  "hasPrefix s p = (take (length p) s = p)"

definition trimPrefix :: "string \<Rightarrow> string \<Rightarrow> string" where
  "trimPrefix s p = (if hasPrefix s p then drop (length p) s else s)"

text \<open>\<open>strings.Split\<close> by a one-character separator: it always returns at least one part.\<close>

fun splitOn :: "char \<Rightarrow> string \<Rightarrow> string list" where
  "splitOn sep [] = [[]]"
| "splitOn sep (c # cs) =
     (if c = sep then [] # splitOn sep cs
      else (case splitOn sep cs of [] \<Rightarrow> [[c]] | p # ps \<Rightarrow> (c # p) # ps))"

fun joinWith :: "string \<Rightarrow> string list \<Rightarrow> string" where
  "joinWith sep [] = []"
| "joinWith sep [p] = p"
| "joinWith sep (p # q # ps) = p @ sep @ joinWith sep (q # ps)"

lemma splitOn_not_Nil [simp]: "splitOn sep s \<noteq> []"
  by (induction s) (auto split: list.splits)

lemma splitOn_no_sep: "sep \<notin> set s \<Longrightarrow> splitOn sep s = [s]"
  by (induction s) auto

lemma splitOn_append_sep: "splitOn sep (a @ sep # b) = splitOn sep a @ splitOn sep b"
  by (induction a) (auto split: list.splits)

lemma joinWith_Cons: "ps \<noteq> [] \<Longrightarrow> joinWith sep (p # ps) = p @ sep @ joinWith sep ps"
  by (cases ps) auto

lemma joinWith_splitOn [simp]: "joinWith [sep] (splitOn sep s) = s"
proof (induction s)
  case Nil
  then show ?case by simp
next
  case (Cons c cs)
  obtain p ps where sp: "splitOn sep cs = p # ps"
    by (cases "splitOn sep cs") auto
  with Cons show ?case
    by (cases ps) (auto simp: joinWith_Cons)
qed

lemma splitOn_parts_no_sep: "p \<in> set (splitOn sep s) \<Longrightarrow> sep \<notin> set p"
  by (induction s arbitrary: p) (auto split: list.splits if_splits)

lemma trimSpace_plain: "\<forall>c \<in> set s. \<not> is_space c \<Longrightarrow> trimSpace s = s"
proof -
  assume a: "\<forall>c \<in> set s. \<not> is_space c"
  have "dropWhile is_space t = t" if "\<forall>c \<in> set t. \<not> is_space c" for t
    using that by (cases t) auto
  from this [of s] this [of "rev s"] show ?thesis using a by (simp add: trimSpace_def)
qed

lemma splitOn_joinWith: "ps \<noteq> [] \<Longrightarrow> \<forall>p \<in> set ps. sep \<notin> set p \<Longrightarrow> splitOn sep (joinWith [sep] ps) = ps"
  by (induction "[sep]" ps rule: joinWith.induct) (auto simp: splitOn_no_sep splitOn_append_sep)

lemma set_joinWith: "c \<in> set (joinWith sep ps) \<Longrightarrow> c \<in> set sep \<or> (\<exists>p \<in> set ps. c \<in> set p)"
  by (induction sep ps rule: joinWith.induct) auto

section \<open>Normal forms of words\<close>

text \<open>\<open>strings.ToLower(strings.TrimSpace(s))\<close>\<close>

definition word :: "string \<Rightarrow> string" where
  "word s = toLower (trimSpace s)"

lemma lower_char_idem [simp]: "lower_char (lower_char c) = lower_char c"
  by (auto simp: lower_char_def)

lemma toLower_idem [simp]: "toLower (toLower s) = toLower s"
  by (simp add: toLower_def)

lemma is_space_lower [simp]: "is_space (lower_char c) = is_space c"
  by (auto simp: is_space_def lower_char_def)

lemma dropWhile_lower: "dropWhile is_space (map lower_char s) = map lower_char (dropWhile is_space s)"
  by (induction s) auto

lemma trimSpace_lower: "trimSpace (toLower s) = toLower (trimSpace s)"
  by (simp add: trimSpace_def toLower_def dropWhile_lower rev_map)

lemma dropWhile_space_idem [simp]: "dropWhile is_space (dropWhile is_space s) = dropWhile is_space s"
  by (induction s) auto

lemma dropWhile_rev_hd: "xs \<noteq> [] \<Longrightarrow> \<not> is_space (hd xs) \<Longrightarrow>
    dropWhile is_space (rev (dropWhile is_space (rev xs))) = rev (dropWhile is_space (rev xs))"
proof -
  assume a: "xs \<noteq> []" "\<not> is_space (hd xs)"
  then obtain x ys where xs: "xs = x # ys" "\<not> is_space x" by (cases xs) auto
  have "dropWhile is_space (rev ys @ [x]) = dropWhile is_space (rev ys) @ [x]"
    using xs(2) by (induction "rev ys") (auto simp: dropWhile_append)
  then show ?thesis using xs by simp
qed

lemma trimSpace_idem [simp]: "trimSpace (trimSpace s) = trimSpace s"
proof (cases "dropWhile is_space s = []")
  case True
  then have t: "trimSpace s = []" by (simp only: trimSpace_def rev.simps dropWhile.simps)
  have "trimSpace [] = []" by (simp add: trimSpace_def)
  then show ?thesis by (simp only: t)
next
  case False
  then have "\<not> is_space (hd (dropWhile is_space s))" by (simp add: hd_dropWhile)
  then show ?thesis using dropWhile_rev_hd [OF False] by (simp add: trimSpace_def)
qed

lemma word_idem [simp]: "word (word s) = word s" "word (trimSpace s) = word s" "trimSpace (word s) = word s"
  by (simp_all add: word_def trimSpace_lower)

lemma equalFold_word: "equalFold (trimSpace s) t \<longleftrightarrow> word s = toLower t"
  by (simp add: equalFold_def word_def)

lemma trimSpace_Cons: "is_space c \<Longrightarrow> trimSpace (c # s) = trimSpace s"
  by (simp add: trimSpace_def)

lemma drop_spaces: "\<forall>x \<in> set t. is_space x \<Longrightarrow> dropWhile is_space t = []"
  by (induction t) auto

lemma trimSpace_snoc: "is_space c \<Longrightarrow> trimSpace (s @ [c]) = trimSpace s"
proof (cases "\<forall>x \<in> set s. is_space x")
  case True
  moreover assume "is_space c"
  ultimately have "dropWhile is_space (s @ [c]) = []" "dropWhile is_space s = []"
    by - (rule drop_spaces, simp)+
  then show ?thesis by (simp only: trimSpace_def)
next
  case False
  then have "dropWhile is_space (s @ [c]) = dropWhile is_space s @ [c]" by (auto simp: dropWhile_append)
  moreover assume "is_space c"
  ultimately show ?thesis by (simp add: trimSpace_def)
qed

section \<open>Decimal numbers\<close>

definition digit_char :: "int \<Rightarrow> char" where
  "digit_char d = ''0123456789'' ! nat d"

definition digit_val :: "char \<Rightarrow> int option" where
  "digit_val c = map_of (zip ''0123456789'' [0, 1, 2, 3, 4, 5, 6, 7, 8, 9]) c"

text \<open>The digits of a number that is not negative.\<close>

function int_digits :: "int \<Rightarrow> string" where
  "int_digits n = (if n < 10 then [digit_char n] else int_digits (n div 10) @ [digit_char (n mod 10)])"
  by pat_completeness auto
termination
  by (relation "measure nat") auto

declare int_digits.simps [simp del]

text \<open>\<open>strconv.Itoa\<close> and the verb \<open>%d\<close>.\<close>

definition itoa :: "int \<Rightarrow> string" where
  "itoa i = (if i < 0 then CHR ''-'' # int_digits (- i) else int_digits i)"

fun digits_val :: "int \<Rightarrow> string \<Rightarrow> int option" where
  "digits_val acc [] = Some acc"
| "digits_val acc (c # cs) =
     (case digit_val c of None \<Rightarrow> None | Some d \<Rightarrow> digits_val (10 * acc + d) cs)"

text \<open>
  \<open>strconv.Atoi\<close>: an optional sign, at least one digit, and nothing else; a value that
  does not fit Go's 64-bit \<open>int\<close> is an error.
\<close>

definition atoi :: "string \<Rightarrow> int option" where
  "atoi s =
     (let (neg, ds) = (case s of [] \<Rightarrow> (False, []) | c # cs \<Rightarrow>
                         if c = CHR ''-'' then (True, cs) else if c = CHR ''+'' then (False, cs) else (False, s))
      in if ds = [] then None
         else case digits_val 0 ds of
           None \<Rightarrow> None
         | Some n \<Rightarrow>
             let v = (if neg then - n else n)
             in if - (2 ^ 63) \<le> v \<and> v < 2 ^ 63 then Some v else None)"

lemma digit_cases:
  "0 \<le> d \<Longrightarrow> d < 10 \<Longrightarrow>
   d = 0 \<or> d = 1 \<or> d = 2 \<or> d = 3 \<or> d = 4 \<or> d = 5 \<or> d = 6 \<or> d = 7 \<or> d = 8 \<or> d = (9::int)"
  by arith

lemma digit_val_char [simp]: "0 \<le> d \<Longrightarrow> d < 10 \<Longrightarrow> digit_val (digit_char d) = Some d"
  by (drule digit_cases) (auto simp: digit_val_def digit_char_def)

lemma digit_char_neq [simp]:
  "0 \<le> d \<Longrightarrow> d < 10 \<Longrightarrow> digit_char d \<noteq> CHR ''-''"
  "0 \<le> d \<Longrightarrow> d < 10 \<Longrightarrow> digit_char d \<noteq> CHR ''+''"
  "0 \<le> d \<Longrightarrow> d < 10 \<Longrightarrow> digit_char d \<noteq> CHR ''|''"
  by (drule digit_cases, assumption, auto simp: digit_char_def)+

lemma int_digits_set: "0 \<le> n \<Longrightarrow> c \<in> set (int_digits n) \<Longrightarrow> \<exists>d. 0 \<le> d \<and> d < 10 \<and> c = digit_char d"
proof (induction n rule: int_digits.induct)
  case (1 n)
  show ?case
  proof (cases "n < 10")
    case True
    with "1.prems" show ?thesis by (subst (asm) (1) int_digits.simps) auto
  next
    case False
    with "1.prems" have "c \<in> set (int_digits (n div 10)) \<or> c = digit_char (n mod 10)"
      by (subst (asm) (1) int_digits.simps) auto
    moreover have "0 \<le> n mod 10" "n mod 10 < 10" "0 \<le> n div 10" using "1.prems" by auto
    ultimately show ?thesis using "1.IH" False by blast
  qed
qed

lemma int_digits_not_Nil [simp]: "int_digits n \<noteq> []"
  by (subst int_digits.simps) auto

lemma digits_val_append:
  "digits_val acc (a @ b) = (case digits_val acc a of None \<Rightarrow> None | Some v \<Rightarrow> digits_val v b)"
  by (induction a arbitrary: acc) (auto split: option.splits)

lemma digits_val_int_digits: "0 \<le> n \<Longrightarrow> digits_val 0 (int_digits n) = Some n"
proof (induction n rule: int_digits.induct)
  case (1 n)
  show ?case
  proof (cases "n < 10")
    case True
    with "1.prems" show ?thesis by (subst int_digits.simps) simp
  next
    case False
    with 1 have "digits_val 0 (int_digits (n div 10)) = Some (n div 10)" by simp
    with False show ?thesis by (subst int_digits.simps) (simp add: digits_val_append)
  qed
qed

lemma int_digits_hd: "0 \<le> n \<Longrightarrow> \<exists>d ds. 0 \<le> d \<and> d < 10 \<and> int_digits n = digit_char d # ds"
proof -
  assume n: "0 \<le> n"
  obtain c ds where c: "int_digits n = c # ds" by (cases "int_digits n") auto
  then have "\<exists>d. 0 \<le> d \<and> d < 10 \<and> c = digit_char d" by (intro int_digits_set [OF n, of c]) simp
  then show ?thesis using c by auto
qed

lemma atoi_itoa: "- (2 ^ 63) \<le> i \<Longrightarrow> i < 2 ^ 63 \<Longrightarrow> atoi (itoa i) = Some i"
proof -
  assume b: "- (2 ^ 63) \<le> i" "i < 2 ^ 63"
  show ?thesis
  proof (cases "i < 0")
    case True
    then show ?thesis using b by (simp add: atoi_def itoa_def digits_val_int_digits)
  next
    case False
    then obtain d ds where d: "0 \<le> d" "d < 10" "int_digits i = digit_char d # ds"
      using int_digits_hd [of i] by auto
    have "digits_val 0 (digit_char d # ds) = Some i"
      using d(3) False digits_val_int_digits [of i] by simp
    with False b d show ?thesis
      by (simp add: atoi_def itoa_def del: digits_val.simps)
  qed
qed

lemma itoa_inj: "itoa i = itoa j \<Longrightarrow> i = j"
proof -
  assume eq: "itoa i = itoa j"
  have neg: "\<And>n m. 0 \<le> m \<Longrightarrow> CHR ''-'' # int_digits n \<noteq> int_digits m"
    using int_digits_hd by (metis digit_char_neq(1) list.sel(1))
  show ?thesis
  proof (cases "i < 0"; cases "j < 0")
    assume ij: "i < 0" "j < 0"
    with eq have "digits_val 0 (int_digits (- i)) = digits_val 0 (int_digits (- j))"
      by (simp add: itoa_def)
    with ij show ?thesis by (simp add: digits_val_int_digits)
  next
    assume ij: "\<not> i < 0" "\<not> j < 0"
    with eq have "digits_val 0 (int_digits i) = digits_val 0 (int_digits j)"
      by (simp add: itoa_def)
    with ij show ?thesis by (simp add: digits_val_int_digits)
  next
    assume "i < 0" "\<not> j < 0"
    with eq neg [of j "- i"] show ?thesis by (simp add: itoa_def)
  next
    assume "\<not> i < 0" "j < 0"
    with eq neg [of i "- j"] show ?thesis by (simp add: itoa_def)
  qed
qed

lemma itoa_no_bar: "CHR ''|'' \<notin> set (itoa i)"
proof
  assume "CHR ''|'' \<in> set (itoa i)"
  then have "\<exists>n. 0 \<le> n \<and> CHR ''|'' \<in> set (int_digits n)"
    by (cases "i < 0") (auto simp: itoa_def intro: exI [of _ i] exI [of _ "- i"])
  then obtain d where "0 \<le> d" "d < 10" "CHR ''|'' = digit_char d" using int_digits_set by blast
  then show False using digit_char_neq(3) by metis
qed

section \<open>Sorting\<close>

text \<open>
  \<open>sort.Slice\<close> by a key is \<open>sort_key\<close>. Where the keys are distinct, the result does not
  depend on the order of the input, so neither on the order of a map iteration before it.
\<close>

lemma sort_key_perm:
  assumes "mset xs = mset ys" "inj_on f (set xs)"
  shows "sort_key f xs = sort_key f ys"
proof (rule sort_key_inj_key_eq)
  show "mset xs = mset (sort_key f ys)" using assms(1) by simp
  show "inj_on f (set xs)" by fact
  show "sorted (map f (sort_key f ys))" by simp
qed

end
