(* ===== verification/GoNet.thy ===== *)
theory GoNet
  imports Prelude "HOL-Library.Word"
begin

text \<open>
  The part of Go's \<open>net\<close> and \<open>net/netip\<close> packages that the modelled code calls: addresses
  and their order, \<open>netip.ParseAddr\<close>, \<open>net.ParseIP\<close>, \<open>net.ParseCIDR\<close>, \<open>IP.String\<close>
  and \<open>IPNet.Contains\<close>. None of it is code of the repository, so none of it is mapped.
\<close>

section \<open>netip.Addr\<close>

text \<open>
  The zero \<open>Addr\<close>, an IPv4 address, or an IPv6 address with its zone. An IPv4-mapped IPv6
  address is a \<open>V6\<close>.
\<close>

datatype addr = NoAddr | V4 "32 word" | V6 "128 word" string

fun addr_is_valid :: "addr \<Rightarrow> bool" where
  "addr_is_valid NoAddr = False"
| "addr_is_valid _ = True"

fun addr_bit_len :: "addr \<Rightarrow> nat" where
  "addr_bit_len NoAddr = 0"
| "addr_bit_len (V4 _) = 32"
| "addr_bit_len (V6 _ _) = 128"

fun addr_zone :: "addr \<Rightarrow> string" where
  "addr_zone (V6 _ z) = z"
| "addr_zone _ = []"

fun addr_value :: "addr \<Rightarrow> int" where
  "addr_value NoAddr = 0"
| "addr_value (V4 w) = uint w"
| "addr_value (V6 w _) = uint w"

text \<open>\<open>Addr.Compare\<close>: by bit length, then by value, then by zone.\<close>

definition addr_triple :: "addr \<Rightarrow> nat \<times> int \<times> string" where
  "addr_triple a = (addr_bit_len a, addr_value a, addr_zone a)"

lemma addr_triple_inj: "addr_triple a = addr_triple b \<longleftrightarrow> a = b"
  by (cases a; cases b) (auto simp: addr_triple_def intro: word_uint_eqI)

instantiation addr :: linorder
begin

definition less_eq_addr :: "addr \<Rightarrow> addr \<Rightarrow> bool" where
  "less_eq_addr a b = (addr_triple a \<le> addr_triple b)"

definition less_addr :: "addr \<Rightarrow> addr \<Rightarrow> bool" where
  "less_addr a b = (addr_triple a < addr_triple b)"

instance
  by standard (auto simp: less_eq_addr_def less_addr_def addr_triple_inj dest: antisym)

end

text \<open>\<open>Addr.Next\<close> and \<open>Addr.Prev\<close> leave the family by returning the zero \<open>Addr\<close>.\<close>

fun addr_next :: "addr \<Rightarrow> addr" where
  "addr_next NoAddr = NoAddr"
| "addr_next (V4 w) = (if w = - 1 then NoAddr else V4 (w + 1))"
| "addr_next (V6 w z) = (if w = - 1 then NoAddr else V6 (w + 1) z)"

fun addr_prev :: "addr \<Rightarrow> addr" where
  "addr_prev NoAddr = NoAddr"
| "addr_prev (V4 w) = (if w = 0 then NoAddr else V4 (w - 1))"
| "addr_prev (V6 w z) = (if w = 0 then NoAddr else V6 (w - 1) z)"

definition mapped_base :: int where
  "mapped_base = 0xffff * 2 ^ 32"

definition is_mapped :: "128 word \<Rightarrow> bool" where
  "is_mapped w = (uint w div 2 ^ 32 = 0xffff)"

text \<open>\<open>Addr.Unmap\<close>: an IPv4-mapped address becomes IPv4.\<close>

fun addr_unmap :: "addr \<Rightarrow> addr" where
  "addr_unmap (V6 w z) = (if is_mapped w then V4 (word_of_int (uint w mod 2 ^ 32)) else V6 w z)"
| "addr_unmap a = a"

text \<open>\<open>Addr.As16\<close>, as a number: an IPv4 address is its mapped form.\<close>

fun addr_as16 :: "addr \<Rightarrow> int" where
  "addr_as16 NoAddr = 0"
| "addr_as16 (V4 w) = mapped_base + uint w"
| "addr_as16 (V6 w _) = uint w"

section \<open>Parsing addresses\<close>

text \<open>\<open>parseIPv4Fields\<close>: value and digit count of the current field, fields so far.\<close>

fun parse4 :: "int \<Rightarrow> nat \<Rightarrow> int list \<Rightarrow> string \<Rightarrow> int list option" where
  "parse4 v d fs [] = (if length fs = 3 then Some (fs @ [v]) else None)"
| "parse4 v d fs (c # cs) =
     (case digit_val c of
        Some x \<Rightarrow>
          if d = 1 \<and> v = 0 then None
          else if v * 10 + x > 255 then None
          else parse4 (v * 10 + x) (Suc d) fs cs
      | None \<Rightarrow>
          if c = CHR ''.'' \<and> d \<noteq> 0 \<and> cs \<noteq> [] \<and> length fs \<noteq> 3 then parse4 0 0 (fs @ [v]) cs
          else None)"

definition bytes_val :: "int \<Rightarrow> int list \<Rightarrow> int" where
  "bytes_val b xs = foldl (\<lambda>a x. a * b + x) 0 xs"

definition hex_val :: "char \<Rightarrow> int option" where
  "hex_val c = map_of (zip ''0123456789abcdefABCDEF'' [0, 1, 2, 3, 4, 5, 6, 7, 8, 9, 10, 11, 12, 13, 14, 15, 10, 11, 12, 13, 14, 15]) c"

definition is_hex :: "char \<Rightarrow> bool" where
  "is_hex c = (hex_val c \<noteq> None)"

definition hex_number :: "string \<Rightarrow> int" where
  "hex_number ds = bytes_val 16 (map (\<lambda>c. case hex_val c of Some v \<Rightarrow> v | None \<Rightarrow> 0) ds)"

text \<open>
  The group loop of \<open>parseIPv6\<close>: at most \<open>n\<close> groups are left to read; the result is the
  groups, the position of the ellipsis, and what is left of the string.
\<close>

fun parse6 :: "nat \<Rightarrow> string \<Rightarrow> int list \<Rightarrow> nat option \<Rightarrow> (int list \<times> nat option \<times> string) option" where
  "parse6 0 s gs e = Some (gs, e, s)"
| "parse6 (Suc n) s gs e =
     (let ds = takeWhile is_hex s; rest = dropWhile is_hex s in
      if ds = [] \<or> length ds > 4 then None
      else if rest \<noteq> [] \<and> hd rest = CHR ''.'' then
        (if (e = None \<and> length gs \<noteq> 6) \<or> length gs > 6 then None
         else case parse4 0 0 [] s of
             None \<Rightarrow> None
           | Some fs \<Rightarrow> Some (gs @ [bytes_val 256 (take 2 fs), bytes_val 256 (drop 2 fs)], e, []))
      else
        (let gs' = gs @ [hex_number ds] in
         case rest of
           [] \<Rightarrow> Some (gs', e, [])
         | [c] \<Rightarrow> None
         | c # c2 # s2 \<Rightarrow>
             if c \<noteq> CHR '':'' then None
             else if c2 = CHR '':'' then
               (if e \<noteq> None then None
                else if s2 = [] then Some (gs', Some (length gs'), [])
                else parse6 n s2 gs' (Some (length gs')))
             else parse6 n (c2 # s2) gs' e))"

definition parse_ipv6 :: "string \<Rightarrow> addr option" where
  "parse_ipv6 s0 =
     (let s = takeWhile (\<lambda>c. c \<noteq> CHR ''%'') s0;
          zoned = (CHR ''%'' \<in> set s0);
          zone = tl (dropWhile (\<lambda>c. c \<noteq> CHR ''%'') s0)
      in if zoned \<and> zone = [] then None
         else let lead = (take 2 s = ''::''); s1 = (if lead then drop 2 s else s) in
           if lead \<and> s1 = [] then Some (V6 0 zone)
           else case parse6 8 s1 [] (if lead then Some 0 else None) of
               None \<Rightarrow> None
             | Some (gs, e, rest) \<Rightarrow>
                 if rest \<noteq> [] then None
                 else if length gs < 8 then
                   (case e of
                      None \<Rightarrow> None
                    | Some k \<Rightarrow> Some (V6 (word_of_int (bytes_val 65536
                        (take k gs @ replicate (8 - length gs) 0 @ drop k gs))) zone))
                 else if e \<noteq> None then None
                 else Some (V6 (word_of_int (bytes_val 65536 gs)) zone))"

text \<open>\<open>netip.ParseAddr\<close>: the first of a dot, a colon or a percent sign decides.\<close>

definition parse_addr :: "string \<Rightarrow> addr option" where
  "parse_addr s =
     (case dropWhile (\<lambda>c. c \<notin> {CHR ''.'', CHR '':'', CHR ''%''}) s of
        [] \<Rightarrow> None
      | c # _ \<Rightarrow>
          if c = CHR ''.'' then
            (case parse4 0 0 [] s of None \<Rightarrow> None | Some fs \<Rightarrow> Some (V4 (word_of_int (bytes_val 256 fs))))
          else if c = CHR '':'' then parse_ipv6 s
          else None)"

text \<open>
  \<open>net.ParseIP\<close> refuses a zone and returns 16 bytes, so an IPv4 address in its mapped form;
  the model keeps them as a 128-bit number.
\<close>

definition parseIP :: "string \<Rightarrow> 128 word option" where
  "parseIP s =
     (case parse_addr s of
        None \<Rightarrow> None
      | Some a \<Rightarrow> if addr_zone a = [] then Some (word_of_int (addr_as16 a)) else None)"

abbreviation is_ip :: "string \<Rightarrow> bool" where
  "is_ip s \<equiv> parseIP s \<noteq> None"

section \<open>Printing addresses\<close>

definition byte_at :: "int \<Rightarrow> nat \<Rightarrow> int" where
  "byte_at n i = (n div 256 ^ i) mod 256"

definition dotted :: "int \<Rightarrow> string" where
  "dotted n = joinWith ''.'' (map (\<lambda>i. itoa (byte_at n i)) [3, 2, 1, 0])"

definition hex_digit :: "int \<Rightarrow> char" where
  "hex_digit d = ''0123456789abcdef'' ! nat d"

function to_hex :: "int \<Rightarrow> string" where
  "to_hex n = (if n < 16 then [hex_digit n] else to_hex (n div 16) @ [hex_digit (n mod 16)])"
  by pat_completeness auto
termination
  by (relation "measure nat") auto

declare to_hex.simps [simp del]

definition groups_of :: "int \<Rightarrow> int list" where
  "groups_of n = map (\<lambda>i. (n div 65536 ^ i) mod 65536) [7, 6, 5, 4, 3, 2, 1, 0]"

definition zero_run :: "int list \<Rightarrow> nat" where
  "zero_run gs = length (takeWhile (\<lambda>g. g = 0) gs)"

text \<open>The first longest run of at least two zero groups, as \<open>(start, length)\<close>.\<close>

definition best_run :: "int list \<Rightarrow> nat \<times> nat" where
  "best_run gs =
     foldl (\<lambda>(st, len) i. let l = zero_run (drop i gs) in if l \<ge> 2 \<and> l > len then (i, l) else (st, len))
       (8, 0) [0, 1, 2, 3, 4, 5, 6, 7]"

definition hex_groups :: "int list \<Rightarrow> string" where
  "hex_groups gs = joinWith '':'' (map to_hex gs)"

definition ip6_string :: "int \<Rightarrow> string" where
  "ip6_string n =
     (let gs = groups_of n; (st, len) = best_run gs in
      if len = 0 then hex_groups gs
      else hex_groups (take st gs) @ ''::'' @ hex_groups (drop (st + len) gs))"

text \<open>\<open>IP.String\<close> of a 16-byte address.\<close>

definition ipString :: "128 word \<Rightarrow> string" where
  "ipString w = (if is_mapped w then dotted (uint w mod 2 ^ 32) else ip6_string (uint w))"

section \<open>Networks\<close>

text \<open>
  \<open>net.ParseCIDR\<close> returns a network whose address has 4 bytes for IPv4 text and 16 bytes
  for IPv6 text, with the host bits cleared; \<open>nw_ones\<close> is the mask's length.
\<close>

record ipnet =
  nw_addr :: addr
  nw_ones :: nat

definition clear_low :: "nat \<Rightarrow> int \<Rightarrow> int" where
  "clear_low k n = (n div 2 ^ k) * 2 ^ k"

fun addr_mask :: "addr \<Rightarrow> nat \<Rightarrow> addr" where
  "addr_mask NoAddr _ = NoAddr"
| "addr_mask (V4 w) ones = V4 (word_of_int (clear_low (32 - ones) (uint w)))"
| "addr_mask (V6 w z) ones = V6 (word_of_int (clear_low (128 - ones) (uint w))) z"

definition parse_mask :: "string \<Rightarrow> nat option" where
  "parse_mask m =
     (if m = [] then None
      else case digits_val 0 m of
          None \<Rightarrow> None
        | Some n \<Rightarrow> if n < 0xFFFFFF then Some (nat n) else None)"

definition parseCIDR :: "string \<Rightarrow> ipnet option" where
  "parseCIDR s =
     (if CHR ''/'' \<notin> set s then None
      else
        (case (parse_addr (takeWhile (\<lambda>c. c \<noteq> CHR ''/'') s),
               parse_mask (tl (dropWhile (\<lambda>c. c \<noteq> CHR ''/'') s))) of
           (Some a, Some n) \<Rightarrow>
             if addr_zone a = [] \<and> n \<le> addr_bit_len a
             then Some \<lparr>nw_addr = addr_mask a n, nw_ones = n\<rparr> else None
         | _ \<Rightarrow> None))"

abbreviation is_cidr :: "string \<Rightarrow> bool" where
  "is_cidr s \<equiv> parseCIDR s \<noteq> None"

text \<open>
  \<open>IPNet.Contains\<close>: both addresses are reduced to 4 bytes when they can be; an IPv6 network
  whose address is mapped keeps the last 32 bits of its mask.
\<close>

definition netContains :: "ipnet \<Rightarrow> 128 word \<Rightarrow> bool" where
  "netContains net ip =
     (case nw_addr net of
        NoAddr \<Rightarrow> False
      | V4 w \<Rightarrow> is_mapped ip
          \<and> clear_low (32 - nw_ones net) (uint w) = clear_low (32 - nw_ones net) (uint ip mod 2 ^ 32)
      | V6 w _ \<Rightarrow>
          (if is_mapped w then is_mapped ip
             \<and> (let h = 32 - (nw_ones net - 96)
                in clear_low h (uint w mod 2 ^ 32) = clear_low h (uint ip mod 2 ^ 32))
           else \<not> is_mapped ip
             \<and> clear_low (128 - nw_ones net) (uint w) = clear_low (128 - nw_ones net) (uint ip)))"

section \<open>Values of digit lists\<close>

lemma bytes_val_foldl: "foldl (\<lambda>a x. a * b + x) c xs = c * b ^ length xs + bytes_val b xs"
proof (induction xs arbitrary: c)
  case (Cons x xs)
  have "bytes_val b (x # xs) = foldl (\<lambda>a x. a * b + x) x xs" by (simp add: bytes_val_def)
  then have "bytes_val b (x # xs) = x * b ^ length xs + bytes_val b xs" using Cons.IH [of x] by simp
  then show ?case using Cons.IH [of "c * b + x"] by (simp add: algebra_simps)
qed (simp add: bytes_val_def)

lemma bytes_val_Cons: "bytes_val b (x # xs) = x * b ^ length xs + bytes_val b xs"
  using bytes_val_foldl [of b x xs] by (simp add: bytes_val_def)

text \<open>The digits of a number to a base, the most significant first.\<close>

lemma bytes_val_digits:
  assumes "0 < b"
  shows "bytes_val b (map (\<lambda>i. (n div b ^ i) mod b) (rev [0 ..< m])) = n mod b ^ m"
proof (induction m)
  case (Suc m)
  have "n mod b ^ Suc m = (n div b ^ m mod b) * b ^ m + n mod b ^ m"
    using assms zmod_zmult2_eq [of b n "b ^ m"] by (simp add: mult.commute)
  then show ?case using Suc.IH by (simp add: bytes_val_Cons)
qed (simp add: bytes_val_def)

end
