(* ===== verification/Model.thy ===== *)
theory Model
  imports GoNet
begin

text \<open>
  \<open>internal/model/model.go\<close>: the data that a scan produces and that the engine keeps for a
  job. A Go struct is a record with one field per field of the struct, in its order; a
  pointer that may be nil is an \<open>option\<close>; a \<open>time.Time\<close> is its instant in nanoseconds; a
  \<open>float64\<close> that is only displayed is its 64 bits. \<open>Snapshot.Normalize\<close> and
  \<open>Snapshot.Hash\<close> follow at the end.
\<close>

section \<open>What a scan observes\<close>

record port_state =
  ps_port :: int
  ps_state :: string
  ps_service :: string
  ps_evidence :: "string list"

record unit_obs =
  u_target :: string
  u_protocol :: string
  u_addresses :: "string list"
  u_ports :: "port_state list"

record link_address =
  la_address :: string
  la_type :: string
  la_vendor :: string

record hostname =
  hn_name :: string
  hn_type :: string

record service_observation =
  so_name :: string
  so_product :: string
  so_version :: string
  so_extra_info :: string
  so_method :: string
  so_confidence :: int
  so_tunnel :: string
  so_os_type :: string
  so_device_type :: string
  so_cpes :: "string list"

record port_observation =
  pob_port :: int
  pob_state :: string
  pob_reason :: string
  pob_reason_ttl :: int
  pob_verification :: string
  pob_service :: "service_observation option"

record state_reason =
  sr_reason :: string
  sr_count :: int

record state_summary =
  ss_state :: string
  ss_count :: int
  ss_reasons :: "state_reason list"

record protocol_observation =
  po_protocol :: string
  po_status :: string
  po_status_reason :: string
  po_discovery_state :: string
  po_scan_type :: string
  po_scanned_ports :: string
  po_scanned_port_count :: int
  po_service_detection :: bool
  po_discovery_engine :: string
  po_discovered_ports :: "port_observation list"
  po_unconfirmed_ports :: "port_observation list"
  po_ports :: "port_observation list"
  po_state_summaries :: "state_summary list"
  po_nse_profile :: string
  po_nse_args :: "(string, string) gomap"
  po_nse_output :: "string list"
  po_command_fingerprint :: string

record host_observation =
  ho_address :: string
  ho_source_targets :: "string list"
  ho_dns_names :: "string list"
  ho_address_family :: string
  ho_status :: string
  ho_status_reason :: string
  ho_reason_ttl :: int
  ho_latency_ms :: "64 word"
  ho_link_addresses :: "link_address list"
  ho_hostnames :: "hostname list"
  ho_protocols :: "protocol_observation list"

record scope =
  sc_target :: string
  sc_protocol :: string
  sc_ports :: string
  sc_service_detection :: bool

record host_state =
  hs_address :: string
  hs_state :: string

record target_coverage_failure =
  tf_target :: string
  tf_reason :: string

record snapshot =
  sn_units :: "unit_obs list"
  sn_scopes :: "scope list"
  sn_dns :: "(string, string list) gomap"
  sn_hosts :: "host_observation list"
  sn_host_states :: "host_state list"
  sn_target_failures :: "target_coverage_failure list"

definition empty_snapshot :: snapshot where
  "empty_snapshot = \<lparr>sn_units = [], sn_scopes = [], sn_dns = [], sn_hosts = [],
     sn_host_states = [], sn_target_failures = []\<rparr>"

text \<open>\<open>snapshot.DNS[target]\<close>: a missing entry reads as the empty list.\<close>

definition dns_of :: "snapshot \<Rightarrow> string \<Rightarrow> string list" where
  "dns_of s target = (case mget (sn_dns s) target of None \<Rightarrow> [] | Some as \<Rightarrow> as)"

section \<open>Changes, incidents and the state of a job\<close>

record change =
  c_key :: string
  c_kind :: string
  c_severity :: string
  c_target :: string
  c_protocol :: string
  c_port :: int
  c_address :: string
  c_old :: string
  c_new :: string

definition empty_change :: change where
  "empty_change = \<lparr>c_key = [], c_kind = [], c_severity = [], c_target = [], c_protocol = [],
     c_port = 0, c_address = [], c_old = [], c_new = []\<rparr>"

record pending =
  p_change :: change
  p_count :: int

record value_count =
  vc_value :: string
  vc_count :: int

record incident =
  i_change :: change
  i_scan_id :: string
  i_opened_at :: int
  i_last_seen_at :: int
  i_recovery_count :: int

record job_state =
  js_baseline :: "snapshot option"
  js_baseline_scan_id :: string
  js_baseline_config_hash :: string
  js_baseline_modified :: bool
  js_candidate :: "snapshot option"
  js_candidate_hash :: string
  js_candidate_count :: int
  js_candidate_attempts :: int
  js_incomplete_candidate_attempts :: int
  js_pending :: "(string, pending) gomap"
  js_incidents :: "(string, incident) gomap"
  js_suppressed :: "(string, int) gomap"
  js_suppressed_changes :: "(string, change) gomap"
  js_fingerprint_candidates :: "(string, value_count) gomap"
  js_service_decision_required :: "(string, bool) gomap"
  js_total_loss_candidate_hash :: string
  js_total_loss_candidate_count :: int
  js_consecutive_failures :: int
  js_last_failure_alert :: int
  js_last_incident_reminder_at :: "int option"
  js_budget_skip_alert_key :: string

definition empty_job_state :: job_state where
  "empty_job_state = \<lparr>js_baseline = None, js_baseline_scan_id = [], js_baseline_config_hash = [],
     js_baseline_modified = False, js_candidate = None, js_candidate_hash = [],
     js_candidate_count = 0, js_candidate_attempts = 0, js_incomplete_candidate_attempts = 0,
     js_pending = [], js_incidents = [], js_suppressed = [], js_suppressed_changes = [],
     js_fingerprint_candidates = [], js_service_decision_required = [],
     js_total_loss_candidate_hash = [], js_total_loss_candidate_count = 0,
     js_consecutive_failures = 0, js_last_failure_alert = 0,
     js_last_incident_reminder_at = None, js_budget_skip_alert_key = []\<rparr>"

text \<open>The fields of a scan that the engine reads or writes.\<close>

record scan =
  s_id :: string
  s_job :: string
  s_finished_at :: int
  s_status :: string
  s_error :: string
  s_config_hash :: string
  s_cycle_attempt :: int
  s_cycle_status :: string
  s_resumable :: bool
  s_baseline_scan_id :: string
  s_baseline_config_hash :: string
  s_comparison :: string
  s_changes :: "change list"
  s_snapshot :: snapshot
  s_interrupted :: bool

text \<open>The fields of an event that the engine writes.\<close>

record event =
  e_type :: string
  e_job :: string
  e_scan_id :: string
  e_message :: string
  e_changes :: "change list"
  e_created_at :: int

section \<open>Snapshot.Normalize\<close>

definition normalize_address :: "string \<Rightarrow> string" where
  "normalize_address a =
     (case parseIP (trimSpace a) of Some ip \<Rightarrow> ipString ip | None \<Rightarrow> trimSpace a)"

definition normalize_unit :: "unit_obs \<Rightarrow> unit_obs" where
  "normalize_unit u = u\<lparr>
     u_addresses := sort (u_addresses u),
     u_ports := sort_key ps_port (map (\<lambda>p. p\<lparr>ps_evidence := sort (ps_evidence p)\<rparr>) (u_ports u))\<rparr>"

definition sort_port_observations :: "port_observation list \<Rightarrow> port_observation list" where
  "sort_port_observations = sort_key (\<lambda>p. (pob_port p, pob_state p))"

definition normalize_service :: "port_observation \<Rightarrow> port_observation" where
  "normalize_service p = (case pob_service p of
     None \<Rightarrow> p | Some s \<Rightarrow> p\<lparr>pob_service := Some (s\<lparr>so_cpes := sort (so_cpes s)\<rparr>)\<rparr>)"

definition normalize_protocol :: "protocol_observation \<Rightarrow> protocol_observation" where
  "normalize_protocol p = p\<lparr>
     po_discovery_state := toLower (trimSpace (po_discovery_state p)),
     po_nse_output := sort (po_nse_output p),
     po_discovered_ports := sort_port_observations (po_discovered_ports p),
     po_unconfirmed_ports := sort_port_observations (po_unconfirmed_ports p),
     po_ports := map normalize_service (sort_key pob_port (sort_port_observations (po_ports p))),
     po_state_summaries := sort_key ss_state
       (map (\<lambda>s. s\<lparr>ss_reasons := sort_key sr_reason (ss_reasons s)\<rparr>) (po_state_summaries p))\<rparr>"

definition normalize_host :: "host_observation \<Rightarrow> host_observation" where
  "normalize_host h = h\<lparr>
     ho_address := normalize_address (ho_address h),
     ho_source_targets := sort (ho_source_targets h),
     ho_dns_names := sort (ho_dns_names h),
     ho_link_addresses := sort_key (\<lambda>l. (la_type l, la_address l)) (ho_link_addresses h),
     ho_hostnames := sort_key (\<lambda>n. (hn_name n, hn_type n)) (ho_hostnames h),
     ho_protocols := sort_key po_protocol (map normalize_protocol (ho_protocols h))\<rparr>"

definition normalize_host_state :: "host_state \<Rightarrow> host_state" where
  "normalize_host_state h =
     \<lparr>hs_address = normalize_address (hs_address h), hs_state = toLower (trimSpace (hs_state h))\<rparr>"

definition normalize_failure :: "target_coverage_failure \<Rightarrow> target_coverage_failure" where
  "normalize_failure f =
     \<lparr>tf_target = toLower (trimSpace (tf_target f)), tf_reason = toLower (trimSpace (tf_reason f))\<rparr>"

text \<open>Sorting by \<open>Target + "\\x00" + Protocol\<close>.\<close>

definition target_protocol_key :: "string \<Rightarrow> string \<Rightarrow> string" where
  "target_protocol_key target protocol = target @ CHR 0x00 # protocol"

definition Normalize :: "snapshot \<Rightarrow> snapshot" where
  "Normalize s = \<lparr>
     sn_units = sort_key (\<lambda>u. target_protocol_key (u_target u) (u_protocol u))
       (map normalize_unit (sn_units s)),
     sn_scopes = sort_key (\<lambda>c. target_protocol_key (sc_target c) (sc_protocol c)) (sn_scopes s),
     sn_dns = map (\<lambda>(k, as). (k, sort as)) (sn_dns s),
     sn_hosts = sort_key ho_address (map normalize_host (sn_hosts s)),
     sn_host_states = sort_key (\<lambda>h. (hs_address h, hs_state h))
       (map normalize_host_state (sn_host_states s)),
     sn_target_failures = remdups_adj (sort_key (\<lambda>f. (tf_target f, tf_reason f))
       (map normalize_failure (sn_target_failures s)))\<rparr>"

section \<open>Snapshot.Hash\<close>

text \<open>
  The engine hashes three kinds of payload: it marshals the payload to JSON and takes the
  hexadecimal SHA-256 of it. The whole of that is one function \<open>sha\<close> from payloads to
  strings, a parameter of every definition that hashes.
\<close>

datatype payload =
    SnapshotPayload snapshot
  | TotalLossPayload string string string
  | ExposurePayload string "string list"

type_synonym hasher = "payload \<Rightarrow> string"

text \<open>
  What identifies a baseline: services, the addresses behind a port, host observations and
  resolution failures are left out before the snapshot is normalised and hashed.
\<close>

definition stable_snapshot :: "snapshot \<Rightarrow> snapshot" where
  "stable_snapshot s = Normalize (s\<lparr>
     sn_units := map (\<lambda>u. u\<lparr>u_ports :=
       map (\<lambda>p. p\<lparr>ps_service := [], ps_evidence := []\<rparr>) (u_ports u)\<rparr>) (sn_units s),
     sn_hosts := [],
     sn_target_failures := []\<rparr>)"

text \<open>JSON writes the entries of a map in the order of their keys.\<close>

definition json_order :: "snapshot \<Rightarrow> snapshot" where
  "json_order s = s\<lparr>sn_dns := sort_key fst (sn_dns s)\<rparr>"

definition Snapshot_Hash :: "hasher \<Rightarrow> snapshot \<Rightarrow> string" where
  "Snapshot_Hash sha s = sha (SnapshotPayload (json_order (stable_snapshot s)))"

section \<open>Facts\<close>

text \<open>Normalising twice changes nothing where the address text is already in its final form.\<close>

lemma sort_map_idem: "sort (sort xs) = sort (xs :: 'a::linorder list)"
  by (simp add: sorted_sort_id)

lemma sort_key_idem: "sort_key f (sort_key f xs) = sort_key f xs"
  by (simp add: sort_key_id_if_sorted)

lemma stable_snapshot_hosts [simp]: "sn_hosts (stable_snapshot s) = []"
  by (simp add: stable_snapshot_def Normalize_def)

end
