(* ===== verification/Findings.thy ===== *)
theory Findings
  imports Model
begin

text \<open>
  \<open>internal/engine/observation.go\<close>: how the changes of one scan move the findings that a
  job tracks (\<open>applyObservedChanges\<close>), given which of them the scan observed.

  The detailed definitions follow the loops of the code over the four maps of the state.
  \<open>finding_step\<close> is the abstract specification: one finding, one scan. The refinement
  lemmas say that the code runs \<open>finding_step\<close> on every key independently, so every
  property below is a case analysis of one finding.
\<close>

section \<open>Messages\<close>

definition baselineChangeCount :: "int \<Rightarrow> string" where
  "baselineChangeCount n = itoa n @ '' baseline '' @ (if n = 1 then ''change'' else ''changes'')"

definition baselineChangeMessage :: "int \<Rightarrow> string \<Rightarrow> string" where
  "baselineChangeMessage n action = baselineChangeCount n @ '' '' @ action"

section \<open>What a scan observed\<close>

text \<open>The two sets of keys are lists; a key is in the set when it is in the list.\<close>

record observation =
  ob_retired :: "string list"
  ob_unobserved :: "string list"

definition empty_observation :: observation where
  "empty_observation = \<lparr>ob_retired = [], ob_unobserved = []\<rparr>"

definition retire :: "string list \<Rightarrow> observation \<Rightarrow> observation" where
  "retire keys ob = ob\<lparr>ob_retired := ob_retired ob @ keys\<rparr>"

definition keep :: "string list \<Rightarrow> observation \<Rightarrow> observation" where
  "keep keys ob = ob\<lparr>ob_unobserved := ob_unobserved ob @ keys\<rparr>"

definition retireFrom :: "observation \<Rightarrow> job_state \<Rightarrow> job_state" where
  "retireFrom ob st =
     (let live = (\<lambda>k. k \<notin> set (ob_retired ob))
      in st\<lparr>js_pending := mfilter live (js_pending st),
            js_incidents := mfilter live (js_incidents st),
            js_suppressed := mfilter live (js_suppressed st),
            js_suppressed_changes := mfilter live (js_suppressed_changes st)\<rparr>)"

section \<open>The loops of applyObservedChanges\<close>

text \<open>
  The first loop counts one-scan suppressions down. Its four results are the keys that are
  suppressed in this scan, the suppressions that end now with the change they hid, and the
  two suppression maps after it.
\<close>

definition suppressedNow :: "string list \<Rightarrow> (string, int) gomap \<Rightarrow> string list" where
  "suppressedNow protected sm = [k. (k, r) \<leftarrow> sm, k \<notin> set protected, r > 0]"

definition endsNow :: "string list \<Rightarrow> (string, int) gomap \<Rightarrow> string \<Rightarrow> bool" where
  "endsNow protected sm k =
     (k \<notin> set protected \<and> (case mget sm k of None \<Rightarrow> False | Some r \<Rightarrow> r \<le> 0))"

definition expiredNow ::
  "string list \<Rightarrow> (string, int) gomap \<Rightarrow> (string, change) gomap \<Rightarrow> (string, change) gomap" where
  "expiredNow protected sm hidden = mfilter (endsNow protected sm) hidden"

definition countDown :: "string list \<Rightarrow> (string, int) gomap \<Rightarrow> (string, int) gomap" where
  "countDown protected sm =
     map (\<lambda>(k, r). (k, if k \<in> set protected then r else r - 1))
       (filter (\<lambda>(k, r). k \<in> set protected \<or> r > 0) sm)"

definition dropExpired ::
  "string list \<Rightarrow> (string, int) gomap \<Rightarrow> (string, change) gomap \<Rightarrow> (string, change) gomap" where
  "dropExpired protected sm hidden = mfilter (\<lambda>k. \<not> endsNow protected sm k) hidden"

text \<open>\<open>currentMap[c.Key] = c\<close> for every change: the last change of a key wins.\<close>

definition currentMapOf :: "change list \<Rightarrow> (string, change) gomap" where
  "currentMapOf cs = fold (\<lambda>c m. mput (c_key c) c m) cs []"

type_synonym confirm_state = "(string, incident) gomap \<times> (string, pending) gomap \<times> change list"

definition zero_pending :: pending where
  "zero_pending = \<lparr>p_change = empty_change, p_count = 0\<rparr>"

definition count_pending :: "pending option \<Rightarrow> change \<Rightarrow> pending" where
  "count_pending po c =
     (let p = (case po of None \<Rightarrow> zero_pending | Some p \<Rightarrow> p)
      in if c_new (p_change p) = c_new c \<and> c_old (p_change p) = c_old c
         then p\<lparr>p_count := p_count p + 1\<rparr> else \<lparr>p_change = c, p_count = 1\<rparr>)"

definition new_incident :: "change \<Rightarrow> string \<Rightarrow> int \<Rightarrow> incident" where
  "new_incident c scanID now =
     \<lparr>i_change = c, i_scan_id = scanID, i_opened_at = now, i_last_seen_at = now, i_recovery_count = 0\<rparr>"

definition sees_incident :: "incident option \<Rightarrow> change \<Rightarrow> bool" where
  "sees_incident io c = (case io of None \<Rightarrow> False | Some i \<Rightarrow> c_new (i_change i) = c_new c)"

fun confirm_step :: "int \<Rightarrow> string \<Rightarrow> int \<Rightarrow> string \<times> change \<Rightarrow> confirm_state \<Rightarrow> confirm_state" where
  "confirm_step required scanID now (k, c) (inc, pend, opened) =
     (case mget inc k of
        Some i \<Rightarrow>
          if c_new (i_change i) = c_new c
          then (mput k (i\<lparr>i_last_seen_at := now, i_recovery_count := 0\<rparr>) inc, mdel k pend, opened)
          else (let p = count_pending (mget pend k) c in
                if p_count p \<ge> required
                then (mput k (new_incident c scanID now) inc, mdel k pend, opened @ [c])
                else (inc, mput k p pend, opened))
      | None \<Rightarrow>
          (let p = count_pending (mget pend k) c in
           if p_count p \<ge> required
           then (mput k (new_incident c scanID now) inc, mdel k pend, opened @ [c])
           else (inc, mput k p pend, opened)))"

type_synonym incident_loop = "(string, incident) gomap \<times> change list"

fun reopen_step ::
  "(string, change) gomap \<Rightarrow> string \<Rightarrow> int \<Rightarrow> string \<times> change \<Rightarrow> incident_loop \<Rightarrow> incident_loop" where
  "reopen_step allCurrent scanID now (k, c) (inc, opened) =
     (case mget allCurrent k of
        None \<Rightarrow> (inc, opened)
      | Some cur \<Rightarrow>
          if c_new cur \<noteq> c_new c then (inc, opened)
          else (mput k (new_incident cur scanID now) inc, opened @ [cur]))"

definition swap_change :: "change \<Rightarrow> change" where
  "swap_change c = c\<lparr>c_old := c_new c, c_new := c_old c\<rparr>"

fun recover_step ::
  "string list \<Rightarrow> (string, change) gomap \<Rightarrow> int \<Rightarrow> string \<times> incident \<Rightarrow> incident_loop \<Rightarrow> incident_loop" where
  "recover_step protected allCurrent required (k, i) (inc, recovered) =
     (if k \<in> set protected \<or> mhas allCurrent k then (inc, recovered)
      else (let i' = i\<lparr>i_recovery_count := i_recovery_count i + 1\<rparr> in
            if i_recovery_count i' \<ge> required
            then (mdel k inc, recovered @ [swap_change (i_change i)])
            else (mput k i' inc, recovered)))"

definition change_events :: "string \<Rightarrow> string \<Rightarrow> int \<Rightarrow> change list \<Rightarrow> change list \<Rightarrow> event list" where
  "change_events job scanID now opened recovered =
     (if opened = [] then [] else
        [\<lparr>e_type = ''changes-detected'', e_job = job, e_scan_id = scanID,
          e_message = baselineChangeMessage (int (length opened)) ''confirmed'',
          e_changes = opened, e_created_at = now\<rparr>]) @
     (if recovered = [] then [] else
        [\<lparr>e_type = ''changes-recovered'', e_job = job, e_scan_id = scanID,
          e_message = baselineChangeMessage (int (length recovered)) ''recovered'',
          e_changes = recovered, e_created_at = now\<rparr>])"

text \<open>
  A current change is live when no running suppression hides it and it does not meet the
  change that an ending suppression hid (the re-opening loop takes that one).
\<close>

definition meetsHidden :: "(string, change) gomap \<Rightarrow> (string, change) gomap \<Rightarrow> string \<Rightarrow> bool" where
  "meetsHidden expired allCurrent k =
     (case mget expired k of None \<Rightarrow> False
      | Some c \<Rightarrow> (case mget allCurrent k of None \<Rightarrow> False | Some cur \<Rightarrow> c_new cur = c_new c))"

definition liveNow :: "string list \<Rightarrow> job_state \<Rightarrow> (string, change) gomap \<Rightarrow> string \<Rightarrow> bool" where
  "liveNow protected st allCurrent k =
     (k \<notin> set (suppressedNow protected (js_suppressed st)) \<and>
      \<not> meetsHidden (expiredNow protected (js_suppressed st) (js_suppressed_changes st)) allCurrent k)"

text \<open>The confirmation loop over the live changes, from the state without hidden findings.\<close>

definition confirmLoop ::
  "string list \<Rightarrow> job_state \<Rightarrow> (string, change) gomap \<Rightarrow> string \<Rightarrow> int \<Rightarrow> int \<Rightarrow> confirm_state" where
  "confirmLoop protected st allCurrent scanID required now =
     (let live = liveNow protected st allCurrent
      in fold (confirm_step required scanID now) (mfilter live allCurrent)
           (mfilter live (js_incidents st), mfilter live (js_pending st), []))"

text \<open>Then the suppressions that end re-open their incident when the scan still reports it.\<close>

definition reopenLoop ::
  "string list \<Rightarrow> job_state \<Rightarrow> (string, change) gomap \<Rightarrow> string \<Rightarrow> int \<Rightarrow> int \<Rightarrow> incident_loop" where
  "reopenLoop protected st allCurrent scanID required now =
     (let (inc, pend, opened) = confirmLoop protected st allCurrent scanID required now
      in fold (reopen_step allCurrent scanID now)
           (expiredNow protected (js_suppressed st) (js_suppressed_changes st)) (inc, opened))"

text \<open>Then every incident that the scan observed and does not report counts a recovery.\<close>

definition recoverLoop ::
  "string list \<Rightarrow> job_state \<Rightarrow> (string, change) gomap \<Rightarrow> string \<Rightarrow> int \<Rightarrow> int \<Rightarrow> incident_loop" where
  "recoverLoop protected st allCurrent scanID required now =
     (let (inc, opened) = reopenLoop protected st allCurrent scanID required now
      in fold (recover_step protected allCurrent required) inc (inc, []))"

text \<open>The whole function: the state after the scan, the opened and the recovered changes.\<close>

definition applyObserved ::
  "job_state \<Rightarrow> string \<Rightarrow> change list \<Rightarrow> int \<Rightarrow> int \<Rightarrow> observation \<Rightarrow> job_state \<times> change list \<times> change list" where
  "applyObserved st0 scanID current required now seen =
     (let st = retireFrom seen st0;
          protected = ob_unobserved seen;
          allCurrent = currentMapOf current;
          (inc1, pend1, _) = confirmLoop protected st allCurrent scanID required now;
          (_, opened) = reopenLoop protected st allCurrent scanID required now;
          (inc3, recovered) = recoverLoop protected st allCurrent scanID required now
      in (st\<lparr>js_suppressed := countDown protected (js_suppressed st),
             js_suppressed_changes := dropExpired protected (js_suppressed st) (js_suppressed_changes st),
             js_incidents := inc3,
             js_pending := mfilter (\<lambda>k. k \<in> set protected \<or>
               (mhas allCurrent k \<and> liveNow protected st allCurrent k)) pend1\<rparr>,
          sort_key c_key opened, sort_key c_key recovered))"

definition applyObservedChanges ::
  "job_state \<Rightarrow> string \<Rightarrow> string \<Rightarrow> change list \<Rightarrow> int \<Rightarrow> int \<Rightarrow> observation \<Rightarrow> job_state \<times> event list" where
  "applyObservedChanges st job scanID current required now seen =
     (let (st', opened, recovered) = applyObserved st scanID current required now seen
      in (st', change_events job scanID now opened recovered))"

definition applyChanges ::
  "job_state \<Rightarrow> string \<Rightarrow> string \<Rightarrow> change list \<Rightarrow> int \<Rightarrow> int \<Rightarrow> job_state \<times> event list" where
  "applyChanges st job scanID current required now =
     applyObservedChanges st job scanID current required now empty_observation"

section \<open>The specification: one finding, one scan\<close>

record finding =
  f_pending :: "pending option"
  f_incident :: "incident option"
  f_suppressed :: "int option"
  f_hidden :: "change option"

definition no_finding :: finding where
  "no_finding = \<lparr>f_pending = None, f_incident = None, f_suppressed = None, f_hidden = None\<rparr>"

definition finding_of :: "job_state \<Rightarrow> string \<Rightarrow> finding" where
  "finding_of st k = \<lparr>f_pending = mget (js_pending st) k, f_incident = mget (js_incidents st) k,
     f_suppressed = mget (js_suppressed st) k, f_hidden = mget (js_suppressed_changes st) k\<rparr>"

text \<open>What a reported change does to a finding that is not suppressed.\<close>

definition confirm_finding ::
  "int \<Rightarrow> string \<Rightarrow> int \<Rightarrow> change \<Rightarrow> finding \<Rightarrow> finding \<times> change list" where
  "confirm_finding required scanID now c f =
     (if sees_incident (f_incident f) c
      then (f\<lparr>f_incident := map_option (\<lambda>i. i\<lparr>i_last_seen_at := now, i_recovery_count := 0\<rparr>) (f_incident f),
              f_pending := None\<rparr>, [])
      else let p = count_pending (f_pending f) c in
           if p_count p \<ge> required
           then (f\<lparr>f_incident := Some (new_incident c scanID now), f_pending := None\<rparr>, [c])
           else (f\<lparr>f_pending := Some p\<rparr>, []))"

text \<open>What an observed absence does to it.\<close>

definition recover_finding :: "int \<Rightarrow> finding \<Rightarrow> finding \<times> change list" where
  "recover_finding required f =
     (case f_incident f of
        None \<Rightarrow> (f\<lparr>f_pending := None\<rparr>, [])
      | Some i \<Rightarrow>
          if i_recovery_count i + 1 \<ge> required
          then (f\<lparr>f_pending := None, f_incident := None\<rparr>, [swap_change (i_change i)])
          else (f\<lparr>f_pending := None, f_incident := Some (i\<lparr>i_recovery_count := i_recovery_count i + 1\<rparr>)\<rparr>, []))"

text \<open>
  One scan over one finding: whether the scan retires it, whether it failed to observe it,
  and the change it reports, if any. The results are the finding afterwards, what opens and
  what recovers. The cases are: a suppression that still runs, one that ends and meets the
  change it hid, and the ordinary confirmation or recovery.
\<close>

definition finding_step ::
  "int \<Rightarrow> string \<Rightarrow> int \<Rightarrow> bool \<Rightarrow> bool \<Rightarrow> change option \<Rightarrow> finding \<Rightarrow> finding \<times> change list \<times> change list" where
  "finding_step required scanID now retired unobserved reported f0 =
     (let f = (if retired then no_finding else f0);
          counted = (\<not> unobserved \<and> f_suppressed f \<noteq> None);
          running = (counted \<and> the (f_suppressed f) > 0);
          ends = (counted \<and> the (f_suppressed f) \<le> 0);
          same = (ends \<and> (case (f_hidden f, reported) of
                    (Some c, Some cur) \<Rightarrow> c_new cur = c_new c | _ \<Rightarrow> False));
          f1 = (if running then f\<lparr>f_suppressed := Some (the (f_suppressed f) - 1),
                                  f_pending := None, f_incident := None\<rparr>
                else if ends then f\<lparr>f_suppressed := None, f_hidden := None\<rparr> else f)
      in case reported of
           Some c \<Rightarrow>
             if running then (f1, [], [])
             else if same then
               (f1\<lparr>f_incident := Some (new_incident c scanID now), f_pending := None\<rparr>, [c], [])
             else (let (f2, opened) = confirm_finding required scanID now c f1 in (f2, opened, []))
         | None \<Rightarrow>
             if unobserved then (f1, [], [])
             else (let (f2, recovered) = recover_finding required f1 in (f2, [], recovered)))"

section \<open>The loops act on one finding at a time\<close>

definition confirm_upd ::
  "int \<Rightarrow> string \<Rightarrow> int \<Rightarrow> change \<Rightarrow> incident option \<times> pending option \<Rightarrow> incident option \<times> pending option" where
  "confirm_upd required scanID now c x =
     (if sees_incident (fst x) c
      then (map_option (\<lambda>i. i\<lparr>i_last_seen_at := now, i_recovery_count := 0\<rparr>) (fst x), None)
      else let p = count_pending (snd x) c in
           if p_count p \<ge> required then (Some (new_incident c scanID now), None)
           else (fst x, Some p))"

definition confirm_emit ::
  "int \<Rightarrow> change \<Rightarrow> incident option \<times> pending option \<Rightarrow> change list" where
  "confirm_emit required c x =
     (if \<not> sees_incident (fst x) c \<and> p_count (count_pending (snd x) c) \<ge> required then [c] else [])"

abbreviation tracked :: "confirm_state \<Rightarrow> string \<Rightarrow> incident option \<times> pending option" where
  "tracked s k \<equiv> (mget (fst s) k, mget (fst (snd s)) k)"

interpretation confirm: keyed_loop
  "confirm_step required scanID now" tracked "\<lambda>s. snd (snd s)"
  "\<lambda>_. confirm_upd required scanID now" "\<lambda>_. confirm_emit required"
  for required scanID now
proof (unfold_locales, goal_cases)
  case (1 k c s k')
  then show ?case
    by (cases s) (auto simp: confirm_upd_def sees_incident_def Let_def split: option.splits)
next
  case (2 k c s)
  then show ?case
    by (cases s) (auto simp: confirm_emit_def sees_incident_def Let_def split: option.splits)
qed

definition reopen_match :: "(string, change) gomap \<Rightarrow> string \<Rightarrow> change \<Rightarrow> change option" where
  "reopen_match allCurrent k c =
     (case mget allCurrent k of None \<Rightarrow> None | Some cur \<Rightarrow> if c_new cur = c_new c then Some cur else None)"

interpretation reopen: keyed_loop
  "reopen_step allCurrent scanID now" "\<lambda>s k. mget (fst s) k" snd
  "\<lambda>k c x. case reopen_match allCurrent k c of None \<Rightarrow> x | Some cur \<Rightarrow> Some (new_incident cur scanID now)"
  "\<lambda>k c x. case reopen_match allCurrent k c of None \<Rightarrow> [] | Some cur \<Rightarrow> [cur]"
  for allCurrent scanID now
proof (unfold_locales, goal_cases)
  case (1 k c s k')
  then show ?case by (cases s) (auto simp: reopen_match_def split: option.splits)
next
  case (2 k c s)
  then show ?case by (cases s) (auto simp: reopen_match_def split: option.splits)
qed

definition recover_upd :: "string list \<Rightarrow> (string, change) gomap \<Rightarrow> int \<Rightarrow> string \<Rightarrow> incident \<Rightarrow> incident option \<Rightarrow> incident option" where
  "recover_upd protected allCurrent required k i x =
     (if k \<in> set protected \<or> mhas allCurrent k then x
      else if i_recovery_count i + 1 \<ge> required then None
      else Some (i\<lparr>i_recovery_count := i_recovery_count i + 1\<rparr>))"

definition recover_emit :: "string list \<Rightarrow> (string, change) gomap \<Rightarrow> int \<Rightarrow> string \<Rightarrow> incident \<Rightarrow> incident option \<Rightarrow> change list" where
  "recover_emit protected allCurrent required k i x =
     (if k \<in> set protected \<or> mhas allCurrent k then []
      else if i_recovery_count i + 1 \<ge> required then [swap_change (i_change i)] else [])"

interpretation recover: keyed_loop
  "recover_step protected allCurrent required" "\<lambda>s k. mget (fst s) k" snd
  "recover_upd protected allCurrent required" "recover_emit protected allCurrent required"
  for protected allCurrent required
proof (unfold_locales, goal_cases)
  case (1 k c s k')
  then show ?case by (cases s) (auto simp: recover_upd_def Let_def)
next
  case (2 k c s)
  then show ?case by (cases s) (auto simp: recover_emit_def Let_def)
qed

section \<open>Well-formed state\<close>

definition wf_tracking :: "job_state \<Rightarrow> bool" where
  "wf_tracking st \<longleftrightarrow> wf_map (js_pending st) \<and> wf_map (js_incidents st) \<and>
     wf_map (js_suppressed st) \<and> wf_map (js_suppressed_changes st)"

lemma wf_currentMap: "wf_map (currentMapOf cs)"
proof -
  have "wf_map m \<Longrightarrow> wf_map (fold (\<lambda>c m. mput (c_key c) c m) cs m)" for m
    by (induction cs arbitrary: m) auto
  from this [of "[]"] show ?thesis by (simp add: currentMapOf_def)
qed

lemma currentMap_key: "mget (currentMapOf cs) k = Some c \<Longrightarrow> c_key c = k \<and> c \<in> set cs"
proof -
  have "mget (fold (\<lambda>c m. mput (c_key c) c m) cs m) k = Some c \<Longrightarrow>
        mget m k = Some c \<or> (c_key c = k \<and> c \<in> set cs)" for m
  proof (induction cs arbitrary: m)
    case (Cons a cs)
    then show ?case by (fastforce split: if_splits)
  qed simp
  from this [of "[]"] show "mget (currentMapOf cs) k = Some c \<Longrightarrow> ?thesis"
    by (simp add: currentMapOf_def)
qed

lemma suppressedNow_iff:
  "wf_map sm \<Longrightarrow> k \<in> set (suppressedNow protected sm) \<longleftrightarrow>
     k \<notin> set protected \<and> (case mget sm k of None \<Rightarrow> False | Some r \<Rightarrow> r > 0)"
  by (induction sm) (auto simp: suppressedNow_def mget_eq_None [symmetric] split: option.splits if_splits)

lemma mget_countDown:
  "wf_map sm \<Longrightarrow> mget (countDown protected sm) k =
     (case mget sm k of None \<Rightarrow> None
      | Some r \<Rightarrow> if k \<in> set protected then Some r else if r \<le> 0 then None else Some (r - 1))"
proof (induction sm)
  case (Cons kr sm)
  obtain a r where kr: "kr = (a, r)" by (cases kr)
  from Cons.prems kr have "mget sm a = None" by (simp add: mget_eq_None)
  with Cons show ?case by (auto simp: kr countDown_def)
qed (simp add: countDown_def)

lemma wf_countDown: "wf_map sm \<Longrightarrow> wf_map (countDown protected sm)"
proof (induction sm)
  case (Cons kr sm)
  have "fst ` set (countDown protected sm) \<subseteq> fst ` set sm"
    by (force simp: countDown_def)
  with Cons show ?case by (cases kr) (auto simp: countDown_def)
qed (simp add: countDown_def)

text \<open>The maps that the loops build keep their keys apart.\<close>

lemma confirm_step_wf:
  "wf_map (fst s) \<and> wf_map (fst (snd s)) \<Longrightarrow>
   wf_map (fst (confirm_step required scanID now kc s)) \<and>
   wf_map (fst (snd (confirm_step required scanID now kc s)))"
  by (cases s; cases kc) (auto simp: Let_def split: option.splits)

lemma reopen_step_wf: "wf_map (fst s) \<Longrightarrow> wf_map (fst (reopen_step allCurrent scanID now kc s))"
  by (cases s; cases kc) (auto split: option.splits)

lemma recover_step_wf: "wf_map (fst s) \<Longrightarrow> wf_map (fst (recover_step protected allCurrent required kc s))"
  by (cases s; cases kc) (auto simp: Let_def)

lemma fold_inv: "P s \<Longrightarrow> (\<And>x s. P s \<Longrightarrow> P (f x s)) \<Longrightarrow> P (fold f xs s)"
  by (induction xs arbitrary: s) auto

lemma wf_confirmLoop:
  assumes "wf_tracking st"
  shows "wf_map (fst (confirmLoop protected st ac scanID required now)) \<and>
         wf_map (fst (snd (confirmLoop protected st ac scanID required now)))"
  unfolding confirmLoop_def Let_def
  by (rule fold_inv [where P = "\<lambda>s. wf_map (fst s) \<and> wf_map (fst (snd s))"],
      insert assms, simp add: wf_tracking_def, erule confirm_step_wf)

lemma wf_reopenLoop:
  assumes "wf_tracking st"
  shows "wf_map (fst (reopenLoop protected st ac scanID required now))"
  unfolding reopenLoop_def split_beta Let_def
  by (rule fold_inv [where P = "\<lambda>s. wf_map (fst s)"],
      simp add: wf_confirmLoop [OF assms], erule reopen_step_wf)

lemma wf_recoverLoop:
  assumes "wf_tracking st"
  shows "wf_map (fst (recoverLoop protected st ac scanID required now))"
  unfolding recoverLoop_def split_beta Let_def
  by (rule fold_inv [where P = "\<lambda>s. wf_map (fst s)"],
      simp add: wf_reopenLoop [OF assms], erule recover_step_wf)

section \<open>Refinement\<close>

text \<open>The four loops in a row, seen at one key, are one \<open>finding_step\<close>.\<close>

definition step_at ::
  "job_state \<Rightarrow> string \<Rightarrow> change list \<Rightarrow> int \<Rightarrow> int \<Rightarrow> observation \<Rightarrow> string \<Rightarrow> finding \<times> change list \<times> change list" where
  "step_at st scanID current required now seen k =
     finding_step required scanID now (k \<in> set (ob_retired seen)) (k \<in> set (ob_unobserved seen))
       (mget (currentMapOf current) k) (finding_of st k)"

lemma finding_of_retireFrom:
  "finding_of (retireFrom seen st) k = (if k \<in> set (ob_retired seen) then no_finding else finding_of st k)"
  by (simp add: finding_of_def retireFrom_def no_finding_def Let_def)

lemma wf_retireFrom: "wf_tracking st \<Longrightarrow> wf_tracking (retireFrom seen st)"
  by (simp add: wf_tracking_def retireFrom_def Let_def)

lemma mem_out_loop:
  "wf_map m \<Longrightarrow> c \<in> set (concat (map (\<lambda>(k, v). f k v) m)) \<longleftrightarrow> (\<exists>k v. mget m k = Some v \<and> c \<in> set (f k v))"
  by (auto simp: mget_eq_Some_mem)

text \<open>A suppression that runs or ends at a key, read from the state.\<close>

definition runs_at :: "string list \<Rightarrow> job_state \<Rightarrow> string \<Rightarrow> bool" where
  "runs_at protected st k =
     (k \<notin> set protected \<and> (case mget (js_suppressed st) k of None \<Rightarrow> False | Some r \<Rightarrow> r > 0))"

definition ends_at :: "string list \<Rightarrow> job_state \<Rightarrow> string \<Rightarrow> bool" where
  "ends_at protected st k = endsNow protected (js_suppressed st) k"

definition meets_at :: "string list \<Rightarrow> job_state \<Rightarrow> (string, change) gomap \<Rightarrow> string \<Rightarrow> bool" where
  "meets_at protected st ac k =
     (ends_at protected st k \<and> meetsHidden (js_suppressed_changes st) ac k)"

lemma liveNow_iff:
  "wf_tracking st \<Longrightarrow> liveNow protected st ac k \<longleftrightarrow> \<not> runs_at protected st k \<and> \<not> meets_at protected st ac k"
  by (simp add: liveNow_def suppressedNow_iff wf_tracking_def runs_at_def meets_at_def ends_at_def
      expiredNow_def meetsHidden_def)

lemma live_not_meets: "wf_tracking st \<Longrightarrow> liveNow protected st ac k \<Longrightarrow> \<not> meets_at protected st ac k"
  by (simp add: liveNow_iff)

lemma get_confirmLoop:
  assumes "wf_map ac"
  shows "tracked (confirmLoop protected st ac scanID required now) k =
    (if liveNow protected st ac k
     then (case mget ac k of
             None \<Rightarrow> (mget (js_incidents st) k, mget (js_pending st) k)
           | Some c \<Rightarrow> confirm_upd required scanID now c (mget (js_incidents st) k, mget (js_pending st) k))
     else (None, None))"
  using assms by (simp add: confirmLoop_def Let_def confirm.get_loop split: option.splits)

lemma out_confirmLoop:
  assumes "wf_map ac"
  shows "c \<in> set (snd (snd (confirmLoop protected st ac scanID required now))) \<longleftrightarrow>
    (\<exists>k c0. liveNow protected st ac k \<and> mget ac k = Some c0 \<and>
       c \<in> set (confirm_emit required c0 (mget (js_incidents st) k, mget (js_pending st) k)))"
proof -
  let ?m = "mfilter (liveNow protected st ac) ac"
  have "wf_map ?m" using assms by simp
  then show ?thesis
    unfolding confirmLoop_def Let_def
    by (simp only: confirm.out_loop snd_conv append_Nil mem_out_loop) (auto split: if_splits)
qed

lemma reopen_match_at:
  "mget (expiredNow protected (js_suppressed st) (js_suppressed_changes st)) k = Some c \<Longrightarrow>
   reopen_match ac k c = (if meets_at protected st ac k then mget ac k else None)"
  by (auto simp: reopen_match_def meets_at_def ends_at_def expiredNow_def meetsHidden_def
      split: option.splits if_splits)

lemma meets_at_expired:
  "meets_at protected st ac k \<Longrightarrow>
   (\<exists>c. mget (expiredNow protected (js_suppressed st) (js_suppressed_changes st)) k = Some c) \<and>
   (\<exists>cur. mget ac k = Some cur)"
  by (auto simp: meets_at_def ends_at_def expiredNow_def meetsHidden_def split: option.splits)

lemma get_reopenLoop:
  assumes "wf_tracking st"
  shows "mget (fst (reopenLoop protected st ac scanID required now)) k =
    (if meets_at protected st ac k then map_option (\<lambda>cur. new_incident cur scanID now) (mget ac k)
     else mget (fst (confirmLoop protected st ac scanID required now)) k)"
proof -
  let ?m = "expiredNow protected (js_suppressed st) (js_suppressed_changes st)"
  have "wf_map ?m" using assms by (simp add: expiredNow_def wf_tracking_def)
  then show ?thesis unfolding reopenLoop_def split_beta Let_def reopen.get_loop [OF \<open>wf_map ?m\<close>]
    using reopen_match_at [of protected st k] meets_at_expired [of protected st ac k]
    by (cases "meets_at protected st ac k") (auto split: option.splits)
qed

lemma out_reopenLoop:
  assumes "wf_tracking st"
  shows "c \<in> set (snd (reopenLoop protected st ac scanID required now)) \<longleftrightarrow>
    c \<in> set (snd (snd (confirmLoop protected st ac scanID required now))) \<or>
    (\<exists>k. meets_at protected st ac k \<and> mget ac k = Some c)"
proof -
  let ?m = "expiredNow protected (js_suppressed st) (js_suppressed_changes st)"
  let ?f = "\<lambda>k c. case reopen_match ac k c of None \<Rightarrow> [] | Some cur \<Rightarrow> [cur]"
  have wf: "wf_map ?m" using assms by (simp add: expiredNow_def wf_tracking_def)
  have "(\<exists>k c0. mget ?m k = Some c0 \<and> c \<in> set (?f k c0)) \<longleftrightarrow>
        (\<exists>k. meets_at protected st ac k \<and> mget ac k = Some c)"
    using reopen_match_at [of protected st _ _ ac] meets_at_expired [of protected st ac]
    by (fastforce split: option.splits if_splits)
  then show ?thesis
    unfolding reopenLoop_def split_beta Let_def
    by (simp only: reopen.out_loop [OF wf] snd_conv set_append Un_iff mem_out_loop [OF wf])
qed

lemma get_recoverLoop:
  assumes "wf_tracking st"
  shows "mget (fst (recoverLoop protected st ac scanID required now)) k =
    (case mget (fst (reopenLoop protected st ac scanID required now)) k of
       None \<Rightarrow> None | Some i \<Rightarrow> recover_upd protected ac required k i (Some i))"
  unfolding recoverLoop_def split_beta Let_def recover.get_loop [OF wf_reopenLoop [OF assms]]
  by (auto split: option.splits)

lemma out_recoverLoop:
  assumes "wf_tracking st"
  shows "c \<in> set (snd (recoverLoop protected st ac scanID required now)) \<longleftrightarrow>
    (\<exists>k i. mget (fst (reopenLoop protected st ac scanID required now)) k = Some i \<and>
       c \<in> set (recover_emit protected ac required k i (Some i)))"
proof -
  let ?m = "fst (reopenLoop protected st ac scanID required now)"
  have wf: "wf_map ?m" by (rule wf_reopenLoop [OF assms])
  show ?thesis
    unfolding recoverLoop_def split_beta Let_def
    by (simp only: recover.out_loop [OF wf] snd_conv append_Nil mem_out_loop [OF wf])
      (rule iff_exI, rule iff_exI, auto)
qed

lemmas loop_gets = get_recoverLoop get_reopenLoop get_confirmLoop [OF wf_currentMap]

lemma get_confirm_parts:
  assumes "wf_map ac"
  shows "mget (fst (confirmLoop protected st ac scanID required now)) k =
     (if liveNow protected st ac k
      then (case mget ac k of None \<Rightarrow> mget (js_incidents st) k
            | Some c \<Rightarrow> fst (confirm_upd required scanID now c (mget (js_incidents st) k, mget (js_pending st) k)))
      else None)"
    and "mget (fst (snd (confirmLoop protected st ac scanID required now))) k =
     (if liveNow protected st ac k
      then (case mget ac k of None \<Rightarrow> mget (js_pending st) k
            | Some c \<Rightarrow> snd (confirm_upd required scanID now c (mget (js_incidents st) k, mget (js_pending st) k)))
      else None)"
  using arg_cong [where f = fst, OF get_confirmLoop [OF assms, of protected st scanID required now k]]
    arg_cong [where f = snd, OF get_confirmLoop [OF assms, of protected st scanID required now k]]
  by (auto split: option.splits if_splits)

lemma applyObserved_parts:
  assumes "applyObserved st0 scanID current required now seen = (st', opened, recovered)"
  shows "st' = (retireFrom seen st0)\<lparr>
      js_suppressed := countDown (ob_unobserved seen) (js_suppressed (retireFrom seen st0)),
      js_suppressed_changes := dropExpired (ob_unobserved seen) (js_suppressed (retireFrom seen st0))
        (js_suppressed_changes (retireFrom seen st0)),
      js_incidents := fst (recoverLoop (ob_unobserved seen) (retireFrom seen st0) (currentMapOf current) scanID required now),
      js_pending := mfilter (\<lambda>k. k \<in> set (ob_unobserved seen) \<or> (mhas (currentMapOf current) k \<and>
          liveNow (ob_unobserved seen) (retireFrom seen st0) (currentMapOf current) k))
        (fst (snd (confirmLoop (ob_unobserved seen) (retireFrom seen st0) (currentMapOf current) scanID required now)))\<rparr>"
    and "opened = sort_key c_key (snd (reopenLoop (ob_unobserved seen) (retireFrom seen st0) (currentMapOf current) scanID required now))"
    and "recovered = sort_key c_key (snd (recoverLoop (ob_unobserved seen) (retireFrom seen st0) (currentMapOf current) scanID required now))"
  using assms by (auto simp: applyObserved_def Let_def split_beta)

lemma applyObserved_wf:
  assumes "wf_tracking st0" "applyObserved st0 scanID current required now seen = (st', opened, recovered)"
  shows "wf_tracking st'"
proof -
  have st: "wf_tracking (retireFrom seen st0)" using assms(1) by (rule wf_retireFrom)
  show ?thesis
    using wf_confirmLoop [OF st] wf_recoverLoop [OF st] st
    by (simp add: applyObserved_parts(1) [OF assms(2)] wf_tracking_def wf_countDown dropExpired_def)
qed

text \<open>The finding after the scan, from the finding before it.\<close>

lemma applyObserved_finding:
  assumes wf: "wf_tracking st0"
    and run: "applyObserved st0 scanID current required now seen = (st', opened, recovered)"
  shows "finding_of st' k = fst (step_at st0 scanID current required now seen k)"
proof -
  define st where "st = retireFrom seen st0"
  define pr where "pr = ob_unobserved seen"
  define ac where "ac = currentMapOf current"
  have st: "wf_tracking st" using wf by (simp add: st_def wf_retireFrom)
  then have sm: "wf_map (js_suppressed st)" by (simp add: wf_tracking_def)
  have ac: "wf_map ac" by (simp add: ac_def wf_currentMap)
  have fo: "step_at st0 scanID current required now seen k =
      finding_step required scanID now False (k \<in> set pr) (mget ac k) (finding_of st k)"
    by (simp add: step_at_def st_def pr_def ac_def finding_of_retireFrom finding_step_def)
  note at = liveNow_iff [OF st] runs_at_def meets_at_def ends_at_def endsNow_def meetsHidden_def mhas_def
  have "finding_of st' k = \<lparr>
      f_pending = (if k \<in> set pr \<or> (mhas ac k \<and> liveNow pr st ac k)
                   then mget (fst (snd (confirmLoop pr st ac scanID required now))) k else None),
      f_incident = mget (fst (recoverLoop pr st ac scanID required now)) k,
      f_suppressed = mget (countDown pr (js_suppressed st)) k,
      f_hidden = mget (dropExpired pr (js_suppressed st) (js_suppressed_changes st)) k\<rparr>"
    unfolding applyObserved_parts(1) [OF run, folded st_def pr_def ac_def] by (simp add: finding_of_def)
  also have "\<dots> = fst (finding_step required scanID now False (k \<in> set pr) (mget ac k) (finding_of st k))"
    unfolding get_recoverLoop [OF st] get_reopenLoop [OF st] get_confirm_parts [OF ac]
      mget_countDown [OF sm] dropExpired_def mget_mfilter
    by (cases "mget ac k"; cases "mget (js_suppressed st) k"; cases "mget (js_suppressed_changes st) k";
        cases "mget (js_incidents st) k"; cases "k \<in> set pr")
       (simp_all add: finding_of_def finding_step_def at recover_upd_def confirm_upd_def
         confirm_finding_def recover_finding_def sees_incident_def Let_def)
  finally show ?thesis unfolding fo .
qed

text \<open>The changes that open and recover are those of the findings, one by one.\<close>

lemma applyObserved_opened:
  assumes wf: "wf_tracking st0"
    and run: "applyObserved st0 scanID current required now seen = (st', opened, recovered)"
  shows "c \<in> set opened \<longleftrightarrow> (\<exists>k. c \<in> set (fst (snd (step_at st0 scanID current required now seen k))))"
proof -
  define st where "st = retireFrom seen st0"
  define pr where "pr = ob_unobserved seen"
  define ac where "ac = currentMapOf current"
  have st: "wf_tracking st" using wf by (simp add: st_def wf_retireFrom)
  have ac: "wf_map ac" by (simp add: ac_def wf_currentMap)
  note at = liveNow_iff [OF st] runs_at_def meets_at_def ends_at_def endsNow_def meetsHidden_def
  have fo: "step_at st0 scanID current required now seen k =
      finding_step required scanID now False (k \<in> set pr) (mget ac k) (finding_of st k)" for k
    by (simp add: step_at_def st_def pr_def ac_def finding_of_retireFrom finding_step_def)
  have pt: "c \<in> set (fst (snd (step_at st0 scanID current required now seen k))) \<longleftrightarrow>
      (\<exists>c0. liveNow pr st ac k \<and> mget ac k = Some c0 \<and>
         c \<in> set (confirm_emit required c0 (mget (js_incidents st) k, mget (js_pending st) k))) \<or>
      (meets_at pr st ac k \<and> mget ac k = Some c)" for k
    unfolding fo
    by (cases "mget ac k"; cases "mget (js_suppressed st) k"; cases "mget (js_suppressed_changes st) k";
        cases "mget (js_incidents st) k"; cases "k \<in> set pr")
       (auto simp add: finding_of_def finding_step_def at confirm_emit_def
         confirm_finding_def recover_finding_def sees_incident_def Let_def)
  show ?thesis
    unfolding applyObserved_parts(2) [OF run, folded st_def pr_def ac_def] set_sort
      out_reopenLoop [OF st] out_confirmLoop [OF ac] pt by blast
qed

lemma applyObserved_recovered:
  assumes wf: "wf_tracking st0"
    and run: "applyObserved st0 scanID current required now seen = (st', opened, recovered)"
  shows "c \<in> set recovered \<longleftrightarrow> (\<exists>k. c \<in> set (snd (snd (step_at st0 scanID current required now seen k))))"
proof -
  define st where "st = retireFrom seen st0"
  define pr where "pr = ob_unobserved seen"
  define ac where "ac = currentMapOf current"
  have st: "wf_tracking st" using wf by (simp add: st_def wf_retireFrom)
  have ac: "wf_map ac" by (simp add: ac_def wf_currentMap)
  note at = liveNow_iff [OF st] runs_at_def meets_at_def ends_at_def endsNow_def meetsHidden_def mhas_def
  have fo: "step_at st0 scanID current required now seen k =
      finding_step required scanID now False (k \<in> set pr) (mget ac k) (finding_of st k)" for k
    by (simp add: step_at_def st_def pr_def ac_def finding_of_retireFrom finding_step_def)
  have pt: "c \<in> set (snd (snd (step_at st0 scanID current required now seen k))) \<longleftrightarrow>
      (\<exists>i. mget (fst (reopenLoop pr st ac scanID required now)) k = Some i \<and>
         c \<in> set (recover_emit pr ac required k i (Some i)))" for k
    unfolding fo get_reopenLoop [OF st] get_confirm_parts [OF ac]
    by (cases "mget ac k"; cases "mget (js_suppressed st) k"; cases "mget (js_suppressed_changes st) k";
        cases "mget (js_incidents st) k"; cases "k \<in> set pr")
       (auto simp add: finding_of_def finding_step_def at recover_emit_def
         confirm_finding_def recover_finding_def sees_incident_def Let_def)
  show ?thesis
    unfolding applyObserved_parts(3) [OF run, folded st_def pr_def ac_def] set_sort
      out_recoverLoop [OF st] pt by blast
qed

section \<open>Invariant\<close>

text \<open>
  What every tracked finding satisfies: its change carries the finding's key, a pending
  change has been counted at least once and not yet often enough, and an incident that is
  still open has not yet recovered.
\<close>

definition finding_ok :: "int \<Rightarrow> string \<Rightarrow> finding \<Rightarrow> bool" where
  "finding_ok required k f \<longleftrightarrow>
     (case f_pending f of None \<Rightarrow> True
      | Some p \<Rightarrow> c_key (p_change p) = k \<and> 1 \<le> p_count p \<and> p_count p < required) \<and>
     (case f_incident f of None \<Rightarrow> True
      | Some i \<Rightarrow> c_key (i_change i) = k \<and> 0 \<le> i_recovery_count i \<and> i_recovery_count i < required) \<and>
     (case f_hidden f of None \<Rightarrow> True | Some c \<Rightarrow> c_key c = k)"

definition tracking_ok :: "int \<Rightarrow> job_state \<Rightarrow> bool" where
  "tracking_ok required st \<longleftrightarrow> wf_tracking st \<and> (\<forall>k. finding_ok required k (finding_of st k))"

text \<open>Every change that the comparison produces has an old or a new value.\<close>

definition reportable :: "change \<Rightarrow> bool" where
  "reportable c \<longleftrightarrow> c_new c \<noteq> [] \<or> c_old c \<noteq> []"

lemma finding_ok_none [simp]: "finding_ok required k no_finding"
  by (simp add: finding_ok_def no_finding_def)

lemma confirm_finding_ok:
  assumes "finding_ok required k f" "c_key c = k" "reportable c" "1 \<le> required"
  shows "finding_ok required k (fst (confirm_finding required scanID now c f))"
  using assms
  by (cases "f_pending f"; cases "f_incident f")
     (auto simp: finding_ok_def confirm_finding_def sees_incident_def count_pending_def reportable_def
       zero_pending_def empty_change_def new_incident_def Let_def)

lemma recover_finding_ok:
  "finding_ok required k f \<Longrightarrow> 1 \<le> required \<Longrightarrow> finding_ok required k (fst (recover_finding required f))"
  by (cases "f_incident f") (auto simp: finding_ok_def recover_finding_def)

lemma finding_step_ok:
  assumes "finding_ok required k f" "1 \<le> required"
    "\<And>c. reported = Some c \<Longrightarrow> c_key c = k \<and> reportable c"
  shows "finding_ok required k (fst (finding_step required scanID now retired unobserved reported f))"
proof -
  define g where "g = (if retired then no_finding else f)"
  have g: "finding_ok required k g" using assms(1) by (simp add: g_def)
  have upd: "finding_ok required k (g\<lparr>f_suppressed := x, f_pending := None, f_incident := None\<rparr>)"
    "finding_ok required k (g\<lparr>f_suppressed := x, f_hidden := None\<rparr>)" for x
    using g by (auto simp: finding_ok_def)
  have inc: "finding_ok required k (h\<lparr>f_incident := Some (new_incident c scanID now), f_pending := None\<rparr>)"
    if "finding_ok required k h" "reported = Some c" for h c
    using that assms(2,3) by (auto simp: finding_ok_def new_incident_def)
  show ?thesis
    using assms(2,3) g upd inc confirm_finding_ok recover_finding_ok
    by (cases reported)
       (auto simp: finding_step_def Let_def split_beta split: if_splits simp flip: g_def)
qed

lemma currentMap_reportable:
  "\<forall>c \<in> set cs. reportable c \<Longrightarrow> mget (currentMapOf cs) k = Some c \<Longrightarrow> c_key c = k \<and> reportable c"
  using currentMap_key by blast

lemma applyObserved_ok:
  assumes "tracking_ok required st0" "1 \<le> required" "\<forall>c \<in> set current. reportable c"
    and run: "applyObserved st0 scanID current required now seen = (st', opened, recovered)"
  shows "tracking_ok required st'"
proof -
  have wf: "wf_tracking st0" using assms(1) by (simp add: tracking_ok_def)
  have "finding_ok required k (finding_of st' k)" for k
    unfolding applyObserved_finding [OF wf run] step_at_def
    by (rule finding_step_ok) (use assms currentMap_reportable in \<open>auto simp: tracking_ok_def\<close>)
  then show ?thesis using applyObserved_wf [OF wf run] by (simp add: tracking_ok_def)
qed

section \<open>The order of the maps does not matter\<close>

lemma distinct_keys_concat:
  assumes "wf_map m" "\<And>k v e. (k, v) \<in> set m \<Longrightarrow> e \<in> set (f k v) \<Longrightarrow> g e = k" "\<And>k v. length (f k v) \<le> 1"
  shows "distinct (map g (concat (map (\<lambda>(k, v). f k v) m)))"
  using assms(1,2)
proof (induction m)
  case (Cons kv m)
  obtain k v where kv: "kv = (k, v)" by (cases kv)
  have "distinct (map g (f k v))" using assms(3) [of k v] by (cases "f k v") auto
  moreover have "set (map g (f k v)) \<subseteq> {k}" using Cons.prems(2) kv by auto
  moreover have "k \<notin> g ` set (concat (map (\<lambda>(k, v). f k v) m))"
  proof
    assume "k \<in> g ` set (concat (map (\<lambda>(k, v). f k v) m))"
    then obtain k' v' e where "(k', v') \<in> set m" "e \<in> set (f k' v')" "g e = k" by auto
    then have "k' = k" using Cons.prems(2) [of k' v' e] by simp
    then show False using \<open>(k', v') \<in> set m\<close> Cons.prems(1) kv by force
  qed
  moreover have "distinct (map g (concat (map (\<lambda>(k, v). f k v) m)))"
    by (rule Cons.IH) (use Cons.prems in auto)
  ultimately have "distinct (map g (f k v) @ map g (concat (map (\<lambda>(k, v). f k v) m)))"
    unfolding distinct_append set_map by blast
  then show ?case by (simp only: kv list.map concat.simps map_append case_prod_conv)
qed simp

lemma in_concat_map:
  assumes "e \<in> set (concat (map (\<lambda>(k, v). f k v) m))"
  obtains k v where "(k, v) \<in> set m" "e \<in> set (f k v)"
  using assms by auto

lemma disjoint_images:
  assumes "\<And>e. e \<in> A \<Longrightarrow> P (g e)" "\<And>e. e \<in> B \<Longrightarrow> Q (g e)" "\<And>k. P k \<Longrightarrow> \<not> Q k"
  shows "g ` A \<inter> g ` B = {}"
  using assms by fastforce

lemma distinct_map_append:
  assumes "zs = xs @ ys" "distinct (map g xs)" "distinct (map g ys)" "g ` set xs \<inter> g ` set ys = {}"
  shows "distinct (map g zs)"
  using assms by simp

lemma sorted_key_unique:
  assumes "set xs = set ys" "distinct (map f xs)" "distinct (map f ys)"
    "sorted (map f xs)" "sorted (map f ys)" "inj_on f (set xs)"
  shows "xs = ys"
  using assms map_sorted_distinct_set_unique [of f xs ys] by simp

lemma opened_distinct:
  assumes wf: "wf_tracking st0"
    and run: "applyObserved st0 scanID current required now seen = (st', opened, recovered)"
  shows "distinct (map c_key opened)"
proof -
  define st where "st = retireFrom seen st0"
  define pr where "pr = ob_unobserved seen"
  define ac where "ac = currentMapOf current"
  have st: "wf_tracking st" using wf by (simp add: st_def wf_retireFrom)
  have ac: "wf_map ac" and key: "\<And>k c. mget ac k = Some c \<Longrightarrow> c_key c = k"
    by (auto simp: ac_def wf_currentMap dest: currentMap_key)
  define m1 where "m1 = mfilter (liveNow pr st ac) ac"
  define f1 where "f1 = (\<lambda>k c. confirm_emit required c
    (mget (mfilter (liveNow pr st ac) (js_incidents st)) k, mget (mfilter (liveNow pr st ac) (js_pending st)) k))"
  define m2 where "m2 = expiredNow pr (js_suppressed st) (js_suppressed_changes st)"
  define f2 where "f2 = (\<lambda>k c. case reopen_match ac k c of None \<Rightarrow> [] | Some cur \<Rightarrow> [cur])"
  have wm: "wf_map m1" "wf_map m2" using ac st by (auto simp: m1_def m2_def expiredNow_def wf_tracking_def)
  have in1: "c_key e = k \<and> liveNow pr st ac k" if "(k, c) \<in> set m1" "e \<in> set (f1 k c)" for k c e
    using that mget_eq_Some_mem [OF wm(1), of k c] key [of k c]
    by (auto simp: m1_def f1_def confirm_emit_def split: if_splits)
  have in2: "c_key e = k \<and> meets_at pr st ac k" if "(k, c) \<in> set m2" "e \<in> set (f2 k c)" for k c e
    using that mget_eq_Some_mem [OF wm(2), of k c] reopen_match_at [of pr st k c ac] key [of k e]
    by (auto simp: m2_def f2_def split: if_splits option.splits)
  have "snd (reopenLoop pr st ac scanID required now) =
      concat (map (\<lambda>(k, c). f1 k c) m1) @ concat (map (\<lambda>(k, c). f2 k c) m2)"
    by (simp add: reopenLoop_def confirmLoop_def Let_def split_beta confirm.out_loop [OF wm(1) [unfolded m1_def]]
        reopen.out_loop [OF wm(2) [unfolded m2_def]] m1_def f1_def m2_def f2_def)
  moreover have "distinct (map c_key (concat (map (\<lambda>(k, c). f1 k c) m1)))"
  proof (rule distinct_keys_concat [OF wm(1)])
    show "c_key e = k" if "(k, c) \<in> set m1" "e \<in> set (f1 k c)" for k c e using in1 that by blast
    show "length (f1 k c) \<le> 1" for k c by (simp add: f1_def confirm_emit_def)
  qed
  moreover have "distinct (map c_key (concat (map (\<lambda>(k, c). f2 k c) m2)))"
  proof (rule distinct_keys_concat [OF wm(2)])
    show "c_key e = k" if "(k, c) \<in> set m2" "e \<in> set (f2 k c)" for k c e using in2 that by blast
    show "length (f2 k c) \<le> 1" for k c by (simp add: f2_def split: option.splits)
  qed
  moreover have "c_key ` set (concat (map (\<lambda>(k, c). f1 k c) m1)) \<inter> c_key ` set (concat (map (\<lambda>(k, c). f2 k c) m2)) = {}"
  proof -
    have "liveNow pr st ac (c_key e)" if e: "e \<in> set (concat (map (\<lambda>(k, c). f1 k c) m1))" for e
    proof -
      from e obtain k c where "(k, c) \<in> set m1" "e \<in> set (f1 k c)" by (rule in_concat_map)
      then show ?thesis using in1 by metis
    qed
    moreover have "meets_at pr st ac (c_key e)" if e: "e \<in> set (concat (map (\<lambda>(k, c). f2 k c) m2))" for e
    proof -
      from e obtain k c where "(k, c) \<in> set m2" "e \<in> set (f2 k c)" by (rule in_concat_map)
      then show ?thesis using in2 by metis
    qed
    ultimately show ?thesis using live_not_meets [OF st] by (rule disjoint_images)
  qed
  ultimately have "distinct (map c_key (snd (reopenLoop pr st ac scanID required now)))"
    by (rule distinct_map_append)
  then show ?thesis
    unfolding applyObserved_parts(2) [OF run, folded st_def pr_def ac_def]
    by (metis mset_map mset_sort mset_eq_imp_distinct_iff)
qed

lemma recovered_distinct:
  assumes ok: "tracking_ok required st0"
    and run: "applyObserved st0 scanID current required now seen = (st', opened, recovered)"
  shows "distinct (map c_key recovered)"
proof -
  define st where "st = retireFrom seen st0"
  define pr where "pr = ob_unobserved seen"
  define ac where "ac = currentMapOf current"
  have st: "wf_tracking st" using ok by (simp add: st_def wf_retireFrom tracking_ok_def)
  have "finding_ok required k (finding_of st k)" for k
    using ok by (simp add: st_def finding_of_retireFrom tracking_ok_def)
  then have key: "c_key (i_change i) = k" if "mget (js_incidents st) k = Some i" for k i
    using that \<open>\<And>k. finding_ok required k (finding_of st k)\<close> [of k]
    by (simp add: finding_ok_def finding_of_def)
  define m where "m = fst (reopenLoop pr st ac scanID required now)"
  have wm: "wf_map m" by (simp add: m_def wf_reopenLoop [OF st])
  define f where "f = (\<lambda>k i. recover_emit pr ac required k i (mget m k))"
  have inn: "c_key e = k" if "(k, i) \<in> set m" "e \<in> set (f k i)" for k i e
  proof -
    from that(2) have "mget ac k = None" and e: "e = swap_change (i_change i)"
      by (auto simp: f_def recover_emit_def mhas_def split: if_splits)
    moreover have "mget m k = Some i" using that(1) wm by (simp add: mget_eq_Some_mem)
    ultimately have "mget (js_incidents st) k = Some i"
      by (auto simp: m_def get_reopenLoop [OF st] get_confirm_parts wf_currentMap ac_def split: if_splits)
    then show ?thesis using key e by (simp add: swap_change_def)
  qed
  have "snd (recoverLoop pr st ac scanID required now) = concat (map (\<lambda>(k, i). f k i) m)"
    by (simp add: recoverLoop_def Let_def split_beta recover.out_loop [OF wm [unfolded m_def]] f_def m_def)
  moreover have "distinct (map c_key (concat (map (\<lambda>(k, i). f k i) m)))"
  proof (rule distinct_keys_concat [OF wm])
    show "c_key e = k" if "(k, i) \<in> set m" "e \<in> set (f k i)" for k i e using inn that by blast
    show "length (f k i) \<le> 1" for k i by (simp add: f_def recover_emit_def)
  qed
  ultimately show ?thesis
    unfolding applyObserved_parts(3) [OF run, folded st_def pr_def ac_def]
    by (metis mset_map mset_sort mset_eq_imp_distinct_iff)
qed

definition same_findings :: "job_state \<Rightarrow> job_state \<Rightarrow> bool" where
  "same_findings st1 st2 \<longleftrightarrow> (\<forall>k. finding_of st1 k = finding_of st2 k)"

lemma applyObserved_same:
  assumes ok: "tracking_ok required st1" "tracking_ok required st2"
    and same: "same_findings st1 st2" "\<And>k. mget (currentMapOf cur1) k = mget (currentMapOf cur2) k"
    and seen: "set (ob_retired seen1) = set (ob_retired seen2)" "set (ob_unobserved seen1) = set (ob_unobserved seen2)"
    and run1: "applyObserved st1 scanID cur1 required now seen1 = (st1', opened1, recovered1)"
    and run2: "applyObserved st2 scanID cur2 required now seen2 = (st2', opened2, recovered2)"
  shows "same_findings st1' st2' \<and> opened1 = opened2 \<and> recovered1 = recovered2"
proof -
  have wf: "wf_tracking st1" "wf_tracking st2" using ok by (auto simp: tracking_ok_def)
  have step: "step_at st1 scanID cur1 required now seen1 k = step_at st2 scanID cur2 required now seen2 k" for k
    using same seen by (simp add: step_at_def same_findings_def)
  have srt: "sorted (map c_key opened1)" "sorted (map c_key opened2)"
    "sorted (map c_key recovered1)" "sorted (map c_key recovered2)"
    using applyObserved_parts(2,3) [OF run1] applyObserved_parts(2,3) [OF run2] by simp_all
  note dis = opened_distinct [OF wf(1) run1] opened_distinct [OF wf(2) run2]
    recovered_distinct [OF ok(1) run1] recovered_distinct [OF ok(2) run2]
  have "same_findings st1' st2'"
    by (simp add: same_findings_def applyObserved_finding [OF wf(1) run1] applyObserved_finding [OF wf(2) run2] step)
  moreover have "opened1 = opened2"
    by (rule sorted_key_unique [where f = c_key])
       (use srt dis in \<open>auto simp: applyObserved_opened [OF wf(1) run1] applyObserved_opened [OF wf(2) run2] step distinct_map\<close>)
  moreover have "recovered1 = recovered2"
    by (rule sorted_key_unique [where f = c_key])
       (use srt dis in \<open>auto simp: applyObserved_recovered [OF wf(1) run1] applyObserved_recovered [OF wf(2) run2] step distinct_map\<close>)
  ultimately show ?thesis by blast
qed

section \<open>Properties of applyObservedChanges\<close>

definition changes_of :: "string \<Rightarrow> event list \<Rightarrow> change list" where
  "changes_of ty evs = concat (map e_changes (filter (\<lambda>e. e_type e = ty) evs))"

definition reports :: "string \<Rightarrow> change \<Rightarrow> change list \<Rightarrow> bool" where
  "reports k c current \<longleftrightarrow> mget (currentMapOf current) k = Some c"

definition silent :: "string \<Rightarrow> change list \<Rightarrow> bool" where
  "silent k current \<longleftrightarrow> mget (currentMapOf current) k = None"

lemma changes_of_events [simp]:
  "changes_of ''changes-detected'' (change_events job scanID now opened recovered) = opened"
  "changes_of ''changes-recovered'' (change_events job scanID now opened recovered) = recovered"
  by (auto simp: changes_of_def change_events_def)

lemma applyObservedChangesE:
  assumes "applyObservedChanges st0 job scanID current required now seen = (st', evs)"
  obtains opened recovered where
    "applyObserved st0 scanID current required now seen = (st', opened, recovered)"
    "evs = change_events job scanID now opened recovered"
  using assms by (auto simp: applyObservedChanges_def split: prod.splits)

lemma silent_iff: "silent k current \<longleftrightarrow> k \<notin> c_key ` set current"
proof -
  have "mget (fold (\<lambda>c m. mput (c_key c) c m) cs m) k = None \<longleftrightarrow> mget m k = None \<and> k \<notin> c_key ` set cs"
    for cs :: "change list" and m
    by (induction cs arbitrary: m) auto
  then show ?thesis by (simp add: silent_def currentMapOf_def)
qed

lemma reports_distinct:
  assumes "distinct (map c_key current)"
  shows "mget (currentMapOf current) k = Some c \<longleftrightarrow> c \<in> set current \<and> c_key c = k"
proof
  assume "c \<in> set current \<and> c_key c = k"
  moreover from this obtain c' where c': "mget (currentMapOf current) k = Some c'"
    using silent_iff [of k current] by (cases "mget (currentMapOf current) k") (auto simp: silent_def)
  ultimately show "mget (currentMapOf current) k = Some c"
    using currentMap_key [OF c'] assms by (metis distinct_map inj_onD)
qed (auto dest: currentMap_key)

lemma c_key_swap: "c_key (swap_change c) = c_key c"
  by (simp add: swap_change_def)

lemma step_at_keys:
  assumes "\<And>k. finding_ok required k (finding_of st k)" "\<forall>c \<in> set current. reportable c"
    and "c \<in> set (fst (snd (step_at st scanID current required now seen k))) \<union>
              set (snd (snd (step_at st scanID current required now seen k)))"
  shows "c_key c = k"
  using assms(1) [of k] assms(3) currentMap_key [of current k]
  by (cases "mget (currentMapOf current) k"; cases "f_incident (finding_of st k)")
     (auto simp: step_at_def finding_step_def confirm_finding_def recover_finding_def finding_ok_def
       no_finding_def swap_change_def Let_def split_beta split: if_splits option.splits)

lemma step_recovers:
  assumes "c \<in> set (snd (snd (step_at st scanID current required now seen k)))"
  shows "\<exists>i. f_incident (finding_of st k) = Some i \<and> c = swap_change (i_change i) \<and>
    required \<le> i_recovery_count i + 1 \<and> k \<notin> set (ob_retired seen) \<and>
    k \<notin> set (ob_unobserved seen) \<and> silent k current"
  using assms
  by (cases "mget (currentMapOf current) k"; cases "f_incident (finding_of st k)")
     (auto simp: step_at_def finding_step_def recover_finding_def no_finding_def silent_def Let_def
       split_beta split: if_splits option.splits)

text \<open>
  C1: The refinement. One call of \<open>applyObservedChanges\<close> with its loops over the maps of
  the state acts on every finding exactly as the specification \<open>finding_step\<close> does, and the
  changes in its two events are those that \<open>finding_step\<close> opens and recovers for some key.
\<close>

theorem applyObservedChanges_refines:
  assumes "wf_tracking st0"
    and "applyObservedChanges st0 job scanID current required now seen = (st', evs)"
  shows "wf_tracking st' \<and>
    (\<forall>k. finding_of st' k = fst (step_at st0 scanID current required now seen k)) \<and>
    set (changes_of ''changes-detected'' evs) =
      (\<Union>k. set (fst (snd (step_at st0 scanID current required now seen k)))) \<and>
    set (changes_of ''changes-recovered'' evs) =
      (\<Union>k. set (snd (snd (step_at st0 scanID current required now seen k))))"
  using assms(2)
proof (rule applyObservedChangesE)
  fix opened recovered
  assume run: "applyObserved st0 scanID current required now seen = (st', opened, recovered)"
    and evs: "evs = change_events job scanID now opened recovered"
  show ?thesis
    using applyObserved_wf [OF assms(1) run] applyObserved_finding [OF assms(1) run]
      applyObserved_opened [OF assms(1) run] applyObserved_recovered [OF assms(1) run]
    by (auto simp: evs)
qed

definition example_change :: change where
  "example_change = empty_change\<lparr>c_key := ''port|t|tcp|22'', c_kind := ''port'', c_target := ''t'',
     c_protocol := ''tcp'', c_port := 22, c_old := ''closed'', c_new := ''open''\<rparr>"

lemma empty_wf_tracking: "wf_tracking empty_job_state"
  by (simp add: wf_tracking_def empty_job_state_def)

lemma empty_tracking_ok: "tracking_ok required empty_job_state"
  using empty_wf_tracking by (simp add: tracking_ok_def finding_ok_def finding_of_def empty_job_state_def)

theorem applyObservedChanges_refines_witness:
  "\<forall>k. finding_of (fst (applyObservedChanges empty_job_state ''j'' ''s'' [example_change] 1 7 empty_observation)) k =
     fst (step_at empty_job_state ''s'' [example_change] 1 7 empty_observation k)"
  using applyObservedChanges_refines [OF empty_wf_tracking prod.collapse [symmetric]] by blast

text \<open>
  The invariant of the tracked findings. Every change is filed under its own key, a
  pending change has been counted between once and \<open>required - 1\<close> times, and no open
  incident has already recovered; \<open>applyObservedChanges\<close> keeps this.
\<close>

theorem applyObservedChanges_invariant:
  assumes "tracking_ok required st0" "1 \<le> required" "\<forall>c \<in> set current. reportable c"
    and "applyObservedChanges st0 job scanID current required now seen = (st', evs)"
  shows "tracking_ok required st'"
  using assms(4) by (rule applyObservedChangesE) (use applyObserved_ok [OF assms(1-3)] in blast)

theorem applyObservedChanges_invariant_witness:
  "tracking_ok 2 (fst (applyObservedChanges empty_job_state ''j'' ''s'' [example_change] 2 7 empty_observation))"
  by (rule applyObservedChanges_invariant [OF empty_tracking_ok _ _ prod.collapse [symmetric]])
     (simp_all add: reportable_def example_change_def empty_change_def)

text \<open>
  Go iterates over maps in an unspecified order. Two states that hold the same findings
  in whatever order, given the same set of changes and the same observation, reach states
  that again hold the same findings, and produce the same list of events.
\<close>

theorem applyObservedChanges_order_independent:
  assumes "tracking_ok required st1" "tracking_ok required st2" "same_findings st1 st2"
    and "distinct (map c_key cur1)" "mset cur1 = mset cur2"
    and "set (ob_retired seen1) = set (ob_retired seen2)" "set (ob_unobserved seen1) = set (ob_unobserved seen2)"
    and r1: "applyObservedChanges st1 job scanID cur1 required now seen1 = (st1', evs1)"
    and r2: "applyObservedChanges st2 job scanID cur2 required now seen2 = (st2', evs2)"
  shows "same_findings st1' st2' \<and> evs1 = evs2"
proof -
  have d2: "distinct (map c_key cur2)" using assms(4,5) by (metis mset_map mset_eq_imp_distinct_iff)
  have cur: "mget (currentMapOf cur1) k = mget (currentMapOf cur2) k" for k
  proof -
    have "mget (currentMapOf cur1) k = Some c \<longleftrightarrow> mget (currentMapOf cur2) k = Some c" for c
      using reports_distinct [OF assms(4)] reports_distinct [OF d2] mset_eq_setD [OF assms(5)] by simp
    then show ?thesis by (metis not_Some_eq)
  qed
  obtain o1 v1 where a: "applyObserved st1 scanID cur1 required now seen1 = (st1', o1, v1)"
      "evs1 = change_events job scanID now o1 v1" using r1 by (rule applyObservedChangesE)
  obtain o2 v2 where b: "applyObserved st2 scanID cur2 required now seen2 = (st2', o2, v2)"
      "evs2 = change_events job scanID now o2 v2" using r2 by (rule applyObservedChangesE)
  show ?thesis
    using applyObserved_same [OF assms(1-3) cur assms(6,7) a(1) b(1)] a(2) b(2) by simp
qed

theorem applyObservedChanges_order_independent_witness:
  "snd (applyObservedChanges empty_job_state ''j'' ''s'' [example_change, empty_change] 1 7 empty_observation) =
   snd (applyObservedChanges empty_job_state ''j'' ''s'' [empty_change, example_change] 1 7 empty_observation)"
  using applyObservedChanges_order_independent
    [of 1 empty_job_state empty_job_state "[example_change, empty_change]" "[empty_change, example_change]" empty_observation empty_observation,
     OF empty_tracking_ok empty_tracking_ok _ _ _ _ _ prod.collapse [symmetric] prod.collapse [symmetric]]
  by (simp add: same_findings_def example_change_def empty_change_def)

lemma unobserved_kept:
  assumes "tracking_ok required st0" "1 \<le> required" "\<forall>c \<in> set current. reportable c"
    and "k \<in> set (ob_unobserved seen)" "k \<notin> set (ob_retired seen)" "silent k current"
    and run: "applyObservedChanges st0 job scanID current required now seen = (st', evs)"
  shows "finding_of st' k = finding_of st0 k \<and> (\<forall>e \<in> set evs. \<forall>c \<in> set (e_changes e). c_key c \<noteq> k)"
proof -
  obtain opened recovered where r: "applyObserved st0 scanID current required now seen = (st', opened, recovered)"
    and evs: "evs = change_events job scanID now opened recovered"
    using run by (rule applyObservedChangesE)
  have wf: "wf_tracking st0" and ok: "\<And>k. finding_ok required k (finding_of st0 k)"
    using assms(1) by (auto simp: tracking_ok_def)
  have here: "step_at st0 scanID current required now seen k = (finding_of st0 k, [], [])"
    using assms(4-6) by (simp add: step_at_def finding_step_def silent_def Let_def)
  have keys: "c_key c = k'"
    if "c \<in> set (fst (snd (step_at st0 scanID current required now seen k'))) \<union>
            set (snd (snd (step_at st0 scanID current required now seen k')))" for c k'
    using step_at_keys [OF ok assms(3)] that by blast
  have "c_key c \<noteq> k" if "c \<in> set opened \<union> set recovered" for c
  proof
    assume k: "c_key c = k"
    from that obtain k' where k': "c \<in> set (fst (snd (step_at st0 scanID current required now seen k'))) \<union>
            set (snd (snd (step_at st0 scanID current required now seen k')))"
      using applyObserved_opened [OF wf r] applyObserved_recovered [OF wf r] by blast
    with keys k have "k' = k" by blast
    with k' here show False by simp
  qed
  then show ?thesis
    using applyObserved_finding [OF wf r, of k] here
    by (auto simp: evs change_events_def)
qed

text \<open>
  A scan that did not observe a tracked finding and does not report it leaves the finding
  as it is: no confirmation, no recovery, no suppression used up, and no event about it.
\<close>

theorem unobserved_finding_kept:
  assumes "tracking_ok required st0" "1 \<le> required" "\<forall>c \<in> set current. reportable c"
    and "k \<in> set (ob_unobserved seen)" "k \<notin> set (ob_retired seen)" "silent k current"
    and run: "applyObservedChanges st0 job scanID current required now seen = (st', evs)"
  shows "finding_of st' k = finding_of st0 k \<and> (\<forall>e \<in> set evs. \<forall>c \<in> set (e_changes e). c_key c \<noteq> k)"
  using assms by (rule unobserved_kept)

theorem unobserved_finding_kept_witness:
  "finding_of (fst (applyObservedChanges empty_job_state ''j'' ''s'' [] 1 7 \<lparr>ob_retired = [], ob_unobserved = [''k'']\<rparr>)) ''k''
     = finding_of empty_job_state ''k''"
  using unobserved_finding_kept [where k = "''k''" and seen = "\<lparr>ob_retired = [], ob_unobserved = [''k'']\<rparr>" and current = "[]",
      OF empty_tracking_ok [of 1] _ _ _ _ _ prod.collapse [symmetric]]
  by (simp add: silent_iff)

text \<open>
  C10: Nothing recovers without evidence. A recovered change swaps the old and new value of an
  incident that was open before the scan, and whose key the scan neither retired, nor failed
  to observe, nor reported.
\<close>

theorem recovery_was_observed:
  assumes "tracking_ok required st0"
    and run: "applyObservedChanges st0 job scanID current required now seen = (st', evs)"
    and c: "c \<in> set (changes_of ''changes-recovered'' evs)"
  shows "\<exists>i. mget (js_incidents st0) (c_key c) = Some i \<and> c = swap_change (i_change i) \<and>
    required \<le> i_recovery_count i + 1 \<and> c_key c \<notin> set (ob_retired seen) \<and>
    c_key c \<notin> set (ob_unobserved seen) \<and> silent (c_key c) current"
proof -
  obtain opened recovered where r: "applyObserved st0 scanID current required now seen = (st', opened, recovered)"
    and evs: "evs = change_events job scanID now opened recovered"
    using run by (rule applyObservedChangesE)
  have wf: "wf_tracking st0" and ok: "\<And>k. finding_ok required k (finding_of st0 k)"
    using assms(1) by (auto simp: tracking_ok_def)
  from c obtain k where k: "c \<in> set (snd (snd (step_at st0 scanID current required now seen k)))"
    using applyObserved_recovered [OF wf r] by (auto simp: evs)
  from step_recovers [OF k] obtain i where i: "f_incident (finding_of st0 k) = Some i" "c = swap_change (i_change i)"
      "required \<le> i_recovery_count i + 1" "k \<notin> set (ob_retired seen)" "k \<notin> set (ob_unobserved seen)"
      "silent k current" by blast
  moreover have "c_key c = k" using ok [of k] i(1,2) by (simp add: finding_ok_def swap_change_def)
  ultimately show ?thesis by (simp add: finding_of_def)
qed

definition example_incident_state :: job_state where
  "example_incident_state = empty_job_state\<lparr>js_incidents :=
     [(c_key example_change, new_incident example_change ''s0'' 3)]\<rparr>"

lemma example_incident_ok: "1 \<le> required \<Longrightarrow> tracking_ok required example_incident_state"
  by (auto simp: tracking_ok_def wf_tracking_def example_incident_state_def empty_job_state_def
      finding_ok_def finding_of_def new_incident_def)

theorem recovery_was_observed_witness:
  "swap_change example_change \<in> set (changes_of ''changes-recovered''
     (snd (applyObservedChanges example_incident_state ''j'' ''s1'' [] 1 7 empty_observation))) \<and>
   silent (c_key example_change) []"
proof -
  have c: "swap_change example_change \<in> set (changes_of ''changes-recovered''
     (snd (applyObservedChanges example_incident_state ''j'' ''s1'' [] 1 7 empty_observation)))"
    by (simp add: applyObservedChanges_def applyObserved_def recoverLoop_def reopenLoop_def confirmLoop_def
        example_incident_state_def empty_job_state_def retireFrom_def empty_observation_def currentMapOf_def
        mfilter_def expiredNow_def liveNow_def meetsHidden_def suppressedNow_def mhas_def new_incident_def)
  then show ?thesis
    using recovery_was_observed [OF example_incident_ok [of 1] prod.collapse [symmetric] c]
    by (auto simp: c_key_swap)
qed

section \<open>Sequences of scans\<close>

record scan_input =
  si_scan :: string
  si_now :: int
  si_current :: "change list"
  si_seen :: observation

lemma finding_parts:
  "mget (js_pending st) k = f_pending (finding_of st k)"
  "mget (js_incidents st) k = f_incident (finding_of st k)"
  "mget (js_suppressed st) k = f_suppressed (finding_of st k)"
  "mget (js_suppressed_changes st) k = f_hidden (finding_of st k)"
  by (simp_all add: finding_of_def)

definition run_scans ::
  "int \<Rightarrow> string \<Rightarrow> job_state \<Rightarrow> scan_input list \<Rightarrow> job_state \<times> event list list" where
  "run_scans required job st xs =
     fold (\<lambda>x (st, evss). let (st', evs) = applyObservedChanges st job (si_scan x) (si_current x) required (si_now x) (si_seen x)
                          in (st', evss @ [evs])) xs (st, [])"

lemma run_scans_Nil [simp]: "run_scans required job st [] = (st, [])"
  by (simp add: run_scans_def)

lemma run_scans_snoc:
  "run_scans required job st (xs @ [x]) =
     (let (st1, evss) = run_scans required job st xs;
          (st2, evs) = applyObservedChanges st1 job (si_scan x) (si_current x) required (si_now x) (si_seen x)
      in (st2, evss @ [evs]))"
  by (simp add: run_scans_def split_beta Let_def)

lemma applyObservedChanges_at:
  assumes "wf_tracking st0" "applyObservedChanges st0 job scanID current required now seen = (st', evs)"
  shows "wf_tracking st'"
    "finding_of st' k = fst (step_at st0 scanID current required now seen k)"
    "c \<in> set (changes_of ''changes-detected'' evs) \<longleftrightarrow>
       (\<exists>k. c \<in> set (fst (snd (step_at st0 scanID current required now seen k))))"
    "c \<in> set (changes_of ''changes-recovered'' evs) \<longleftrightarrow>
       (\<exists>k. c \<in> set (snd (snd (step_at st0 scanID current required now seen k))))"
proof -
  obtain opened recovered where r: "applyObserved st0 scanID current required now seen = (st', opened, recovered)"
    and evs: "evs = change_events job scanID now opened recovered"
    using assms(2) by (rule applyObservedChangesE)
  show "wf_tracking st'" "finding_of st' k = fst (step_at st0 scanID current required now seen k)"
    using applyObserved_wf [OF assms(1) r] applyObserved_finding [OF assms(1) r] by auto
  show "c \<in> set (changes_of ''changes-detected'' evs) \<longleftrightarrow>
       (\<exists>k. c \<in> set (fst (snd (step_at st0 scanID current required now seen k))))"
    "c \<in> set (changes_of ''changes-recovered'' evs) \<longleftrightarrow>
       (\<exists>k. c \<in> set (snd (snd (step_at st0 scanID current required now seen k))))"
    using applyObserved_opened [OF assms(1) r, of c] applyObserved_recovered [OF assms(1) r, of c]
    by (simp_all add: evs)
qed

lemma opened_key:
  "c \<in> set (fst (snd (step_at st scanID current required now seen k))) \<Longrightarrow> reports k c current \<and> c_key c = k"
  using currentMap_key [of current k]
  by (cases "mget (currentMapOf current) k")
     (auto simp: step_at_def finding_step_def confirm_finding_def reports_def Let_def split_beta split: if_splits)

lemma opened_at:
  assumes "wf_tracking st0" "applyObservedChanges st0 job scanID current required now seen = (st', evs)"
  shows "c \<in> set (changes_of ''changes-detected'' evs) \<longleftrightarrow>
     c \<in> set (fst (snd (step_at st0 scanID current required now seen (c_key c))))"
  using applyObservedChanges_at(3) [OF assms, of c] opened_key by blast

text \<open>A finding while the same change is reported again and again.\<close>

definition confirming :: "int \<Rightarrow> change \<Rightarrow> scan_input list \<Rightarrow> finding" where
  "confirming required c xs =
     (if xs = [] then no_finding
      else if int (length xs) < required
      then no_finding\<lparr>f_pending := Some \<lparr>p_change = c, p_count = int (length xs)\<rparr>\<rparr>
      else no_finding\<lparr>f_incident := Some ((new_incident c (si_scan (xs ! nat (required - 1))) (si_now (xs ! nat (required - 1))))
             \<lparr>i_last_seen_at := si_now (last xs)\<rparr>)\<rparr>)"

lemma confirming_step:
  assumes "1 \<le> required" "reportable c"
  shows "finding_step required (si_scan x) (si_now x) False un (Some c) (confirming required c xs) =
    (confirming required c (xs @ [x]), (if int (length (xs @ [x])) = required then [c] else []), [])"
proof -
  have new: "count_pending None c = \<lparr>p_change = c, p_count = 1\<rparr>"
    using assms(2) by (auto simp: count_pending_def zero_pending_def empty_change_def reportable_def Let_def)
  consider "xs = []" | "xs \<noteq> []" "int (length xs) < required" | "xs \<noteq> []" "required \<le> int (length xs)" by force
  then show ?thesis
  proof cases
    case 1
    then show ?thesis using assms new
      by (auto simp: confirming_def finding_step_def confirm_finding_def sees_incident_def no_finding_def
          new_incident_def Let_def)
  next
    case 2
    then show ?thesis using assms
      by (auto simp: confirming_def finding_step_def confirm_finding_def sees_incident_def no_finding_def
          count_pending_def new_incident_def Let_def nth_append le_less)
  next
    case 3
    then have "nat (required - 1) < length xs" using assms(1) by linarith
    with 3 show ?thesis using assms
      by (auto simp: confirming_def finding_step_def confirm_finding_def sees_incident_def no_finding_def
          new_incident_def Let_def nth_append)
  qed
qed

lemma run_scans_confirming:
  assumes "1 \<le> required" "reportable c" "c_key c = k" "wf_tracking st0" "finding_of st0 k = no_finding"
    and "\<forall>x \<in> set xs. reports k c (si_current x) \<and> k \<notin> set (ob_retired (si_seen x))"
    and "run_scans required job st0 xs = (st', evss)"
  shows "wf_tracking st' \<and> finding_of st' k = confirming required c xs \<and> length evss = length xs \<and>
    (\<forall>n < length xs. c \<in> set (changes_of ''changes-detected'' (evss ! n)) \<longleftrightarrow> int n + 1 = required)"
  using assms(6,7)
proof (induction xs arbitrary: st' evss rule: rev_induct)
  case Nil
  then show ?case using assms(4,5) by (simp add: confirming_def)
next
  case (snoc x xs)
  obtain st1 evss1 where r1: "run_scans required job st0 xs = (st1, evss1)" by fastforce
  obtain st2 evs where r2: "applyObservedChanges st1 job (si_scan x) (si_current x) required (si_now x) (si_seen x) = (st2, evs)"
    by fastforce
  have out: "st' = st2" "evss = evss1 @ [evs]" using snoc.prems(2) r1 r2 by (auto simp: run_scans_snoc)
  from snoc.IH [OF _ r1] snoc.prems(1)
  have IH: "wf_tracking st1" "finding_of st1 k = confirming required c xs" "length evss1 = length xs"
    "\<forall>n < length xs. c \<in> set (changes_of ''changes-detected'' (evss1 ! n)) \<longleftrightarrow> int n + 1 = required" by auto
  have "step_at st1 (si_scan x) (si_current x) required (si_now x) (si_seen x) k =
      (confirming required c (xs @ [x]), (if int (length (xs @ [x])) = required then [c] else []), [])"
    using snoc.prems(1) IH(2) confirming_step [OF assms(1,2)] by (simp add: step_at_def reports_def)
  then show ?case
    using applyObservedChanges_at(1,2) [OF IH(1) r2] opened_at [OF IH(1) r2, of c] IH(3,4) assms(3)
    by (auto simp: out nth_append less_Suc_eq)
qed

text \<open>
  C8: Confirmation takes exactly \<open>required\<close> reports. When a finding that is not tracked yet is
  reported by every scan of a sequence, with the same change, then the change is announced
  by the \<open>required\<close>-th scan and by no other one; before it the finding is pending with the
  number of reports so far, and afterwards it is an open incident of that scan.
\<close>

theorem confirmed_by_required_reports:
  assumes "1 \<le> required" "reportable c" "c_key c = k" "wf_tracking st0" "finding_of st0 k = no_finding"
    and "\<forall>x \<in> set xs. reports k c (si_current x) \<and> k \<notin> set (ob_retired (si_seen x))"
    and "run_scans required job st0 xs = (st', evss)"
  shows "(\<forall>n < length xs. c \<in> set (changes_of ''changes-detected'' (evss ! n)) \<longleftrightarrow> int n + 1 = required) \<and>
    (xs \<noteq> [] \<and> int (length xs) < required \<longrightarrow>
       mget (js_pending st') k = Some \<lparr>p_change = c, p_count = int (length xs)\<rparr> \<and> mget (js_incidents st') k = None) \<and>
    (required \<le> int (length xs) \<longrightarrow> mget (js_pending st') k = None \<and>
       (\<exists>i. mget (js_incidents st') k = Some i \<and> i_change i = c \<and> i_scan_id i = si_scan (xs ! nat (required - 1))))"
  using run_scans_confirming [OF assms] assms(1)
  by (auto simp: confirming_def finding_parts no_finding_def new_incident_def)

definition example_scan :: "change list \<Rightarrow> scan_input" where
  "example_scan cs = \<lparr>si_scan = ''s'', si_now = 7, si_current = cs, si_seen = empty_observation\<rparr>"

lemma no_finding_empty: "finding_of empty_job_state k = no_finding"
  by (simp add: finding_of_def no_finding_def empty_job_state_def)

theorem confirmed_by_required_reports_witness:
  "example_change \<in> set (changes_of ''changes-detected''
     (snd (run_scans 2 ''j'' empty_job_state [example_scan [example_change], example_scan [example_change]]) ! 1))"
  using confirmed_by_required_reports [of 2 example_change _ empty_job_state
      "[example_scan [example_change], example_scan [example_change]]",
      OF _ _ refl empty_wf_tracking no_finding_empty _ prod.collapse [symmetric]]
  by (simp add: reportable_def reports_def example_scan_def currentMapOf_def empty_observation_def
      example_change_def empty_change_def)

text \<open>A finding whose incident is open while scans observe that its change is gone.\<close>

definition recovering :: "int \<Rightarrow> incident \<Rightarrow> nat \<Rightarrow> finding" where
  "recovering required i n =
     (if i_recovery_count i + int n < required
      then no_finding\<lparr>f_incident := Some (i\<lparr>i_recovery_count := i_recovery_count i + int n\<rparr>)\<rparr>
      else no_finding)"

lemma recovering_step:
  assumes "0 \<le> i_recovery_count i"
  shows "finding_step required scanID now False False None (recovering required i n) =
    (recovering required i (Suc n), [],
     (if i_recovery_count i + int n < required \<and> required \<le> i_recovery_count i + int (Suc n)
      then [swap_change (i_change i)] else []))"
  using assms by (auto simp: recovering_def finding_step_def recover_finding_def no_finding_def Let_def)

lemma recovered_at:
  assumes "tracking_ok required st0" "applyObservedChanges st0 job scanID current required now seen = (st', evs)"
  shows "c \<in> set (changes_of ''changes-recovered'' evs) \<longleftrightarrow>
     c \<in> set (snd (snd (step_at st0 scanID current required now seen (c_key c))))"
proof -
  have wf: "wf_tracking st0" and ok: "finding_ok required k (finding_of st0 k)" for k
    using assms(1) by (auto simp: tracking_ok_def)
  have "c_key c = k" if k: "c \<in> set (snd (snd (step_at st0 scanID current required now seen k)))" for k
    using step_recovers [OF k] ok [of k] by (auto simp: finding_ok_def c_key_swap)
  then show ?thesis using applyObservedChanges_at(4) [OF wf assms(2), of c] by blast
qed

lemma applyObservedChanges_ok:
  assumes "tracking_ok required st0" "1 \<le> required" "\<forall>c \<in> set current. reportable c"
    and "applyObservedChanges st0 job scanID current required now seen = (st', evs)"
  shows "tracking_ok required st'"
  using assms(4) by (rule applyObservedChangesE) (use applyObserved_ok [OF assms(1-3)] in blast)

lemma run_scans_recovering:
  assumes "tracking_ok required st0" "1 \<le> required" "finding_of st0 k = no_finding\<lparr>f_incident := Some i\<rparr>"
    and "\<forall>x \<in> set xs. silent k (si_current x) \<and> k \<notin> set (ob_unobserved (si_seen x)) \<and>
           k \<notin> set (ob_retired (si_seen x)) \<and> (\<forall>c \<in> set (si_current x). reportable c)"
    and "run_scans required job st0 xs = (st', evss)"
  shows "tracking_ok required st' \<and> finding_of st' k = recovering required i (length xs) \<and> length evss = length xs \<and>
    (\<forall>n < length xs. swap_change (i_change i) \<in> set (changes_of ''changes-recovered'' (evss ! n)) \<longleftrightarrow>
       i_recovery_count i + int n + 1 = required)"
  using assms(4,5)
proof (induction xs arbitrary: st' evss rule: rev_induct)
  case Nil
  have "finding_ok required k (finding_of st0 k)" using assms(1) by (simp add: tracking_ok_def)
  then show ?case using Nil assms(1,3) by (simp add: recovering_def finding_ok_def no_finding_def)
next
  case (snoc x xs)
  have "finding_ok required k (finding_of st0 k)" using assms(1) by (simp add: tracking_ok_def)
  then have rc: "0 \<le> i_recovery_count i" and key: "c_key (swap_change (i_change i)) = k"
    using assms(3) by (auto simp: finding_ok_def no_finding_def c_key_swap)
  obtain st1 evss1 where r1: "run_scans required job st0 xs = (st1, evss1)" by fastforce
  obtain st2 evs where r2: "applyObservedChanges st1 job (si_scan x) (si_current x) required (si_now x) (si_seen x) = (st2, evs)"
    by fastforce
  have out: "st' = st2" "evss = evss1 @ [evs]" using snoc.prems(2) r1 r2 by (auto simp: run_scans_snoc)
  from snoc.IH [OF _ r1] snoc.prems(1)
  have IH: "tracking_ok required st1" "finding_of st1 k = recovering required i (length xs)" "length evss1 = length xs"
    "\<forall>n < length xs. swap_change (i_change i) \<in> set (changes_of ''changes-recovered'' (evss1 ! n)) \<longleftrightarrow>
       i_recovery_count i + int n + 1 = required" by auto
  have wf: "wf_tracking st1" using IH(1) by (simp add: tracking_ok_def)
  have step: "step_at st1 (si_scan x) (si_current x) required (si_now x) (si_seen x) k =
      finding_step required (si_scan x) (si_now x) False False None (recovering required i (length xs))"
    using snoc.prems(1) IH(2) by (simp add: step_at_def silent_def)
  have "tracking_ok required st2"
    using applyObservedChanges_ok [OF IH(1) assms(2) _ r2] snoc.prems(1) by simp
  moreover have "finding_of st2 k = recovering required i (length (xs @ [x]))"
    using applyObservedChanges_at(2) [OF wf r2] step recovering_step [OF rc] by simp
  moreover have "swap_change (i_change i) \<in> set (changes_of ''changes-recovered'' evs) \<longleftrightarrow>
      i_recovery_count i + int (length xs) + 1 = required"
    using recovered_at [OF IH(1) r2, of "swap_change (i_change i)"] key step recovering_step [OF rc]
    by auto
  ultimately show ?case using IH(3,4) by (auto simp: out nth_append less_Suc_eq)
qed

text \<open>
  C9: Recovery takes exactly \<open>required\<close> observed absences. An open incident that a sequence of
  scans observes to be gone is announced as recovered, with its old and new value swapped, by
  the scan that completes the count and by no other one; until then the incident stays open.
\<close>

theorem recovered_by_required_absences:
  assumes "tracking_ok required st0" "1 \<le> required" "finding_of st0 k = no_finding\<lparr>f_incident := Some i\<rparr>"
    and "\<forall>x \<in> set xs. silent k (si_current x) \<and> k \<notin> set (ob_unobserved (si_seen x)) \<and>
           k \<notin> set (ob_retired (si_seen x)) \<and> (\<forall>c \<in> set (si_current x). reportable c)"
    and "run_scans required job st0 xs = (st', evss)"
  shows "(\<forall>n < length xs. swap_change (i_change i) \<in> set (changes_of ''changes-recovered'' (evss ! n)) \<longleftrightarrow>
       i_recovery_count i + int n + 1 = required) \<and>
    mget (js_incidents st') k =
      (if i_recovery_count i + int (length xs) < required
       then Some (i\<lparr>i_recovery_count := i_recovery_count i + int (length xs)\<rparr>) else None)"
  using run_scans_recovering [OF assms] by (simp add: finding_parts recovering_def no_finding_def)

theorem recovered_by_required_absences_witness:
  "swap_change example_change \<in> set (changes_of ''changes-recovered''
     (snd (run_scans 2 ''j'' example_incident_state [example_scan [], example_scan []]) ! 1))"
  using recovered_by_required_absences [of 2 example_incident_state "c_key example_change"
      "new_incident example_change ''s0'' 3" "[example_scan [], example_scan []]",
      OF example_incident_ok [of 2] _ _ _ prod.collapse [symmetric]]
  by (simp add: silent_iff example_scan_def empty_observation_def finding_of_def no_finding_def
      example_incident_state_def empty_job_state_def new_incident_def)

text \<open>
  A one-scan suppression. While it runs, the suppressed finding is not announced, even
  though the scan reports its change; the next scan that still reports the value that was
  suppressed announces it at once, without confirming it again.
\<close>

theorem suppression_lasts_one_scan:
  assumes "wf_tracking st0" "c_key c = k"
    and "mget (js_suppressed st0) k = Some 1" "mget (js_suppressed_changes st0) k = Some h" "c_new h = c_new c"
    and "reports k c (si_current x)" "k \<notin> set (ob_retired (si_seen x))" "k \<notin> set (ob_unobserved (si_seen x))"
    and "reports k c (si_current y)" "k \<notin> set (ob_retired (si_seen y))" "k \<notin> set (ob_unobserved (si_seen y))"
    and "run_scans required job st0 [x, y] = (st', evss)"
  shows "c \<notin> set (changes_of ''changes-detected'' (evss ! 0)) \<and>
    c \<in> set (changes_of ''changes-detected'' (evss ! 1)) \<and>
    mget (js_suppressed st') k = None \<and>
    mget (js_incidents st') k = Some (new_incident c (si_scan y) (si_now y))"
proof -
  obtain st1 evs1 where r1: "applyObservedChanges st0 job (si_scan x) (si_current x) required (si_now x) (si_seen x) = (st1, evs1)"
    by fastforce
  obtain st2 evs2 where r2: "applyObservedChanges st1 job (si_scan y) (si_current y) required (si_now y) (si_seen y) = (st2, evs2)"
    by fastforce
  have out: "st' = st2" "evss = [evs1, evs2]"
    using assms(12) run_scans_snoc [of required job st0 "[x]" y] run_scans_snoc [of required job st0 "[]" x] r1 r2
    by auto
  note at1 = applyObservedChanges_at [OF assms(1) r1]
  have "finding_of st0 k = \<lparr>f_pending = mget (js_pending st0) k, f_incident = mget (js_incidents st0) k,
      f_suppressed = Some 1, f_hidden = Some h\<rparr>"
    using assms(3,4) by (simp add: finding_of_def)
  then have s1: "step_at st0 (si_scan x) (si_current x) required (si_now x) (si_seen x) k =
      (\<lparr>f_pending = None, f_incident = None, f_suppressed = Some 0, f_hidden = Some h\<rparr>, [], [])"
    using assms(6-8) by (simp add: step_at_def reports_def finding_step_def Let_def)
  have s2: "step_at st1 (si_scan y) (si_current y) required (si_now y) (si_seen y) k =
      (\<lparr>f_pending = None, f_incident = Some (new_incident c (si_scan y) (si_now y)), f_suppressed = None,
        f_hidden = None\<rparr>, [c], [])"
    using assms(5,9-11) at1(2) [of k] s1 by (simp add: step_at_def reports_def finding_step_def Let_def)
  show ?thesis
    using opened_at [OF assms(1) r1, of c] opened_at [OF at1(1) r2, of c]
      applyObservedChanges_at(2) [OF at1(1) r2, of k] s1 s2 assms(2)
    by (simp add: out finding_parts)
qed

definition example_suppressed_state :: job_state where
  "example_suppressed_state = empty_job_state\<lparr>js_suppressed := [(c_key example_change, 1)],
     js_suppressed_changes := [(c_key example_change, example_change)]\<rparr>"

theorem suppression_lasts_one_scan_witness:
  "mget (js_incidents (fst (run_scans 3 ''j'' example_suppressed_state
     [example_scan [example_change], example_scan [example_change]]))) (c_key example_change) =
   Some (new_incident example_change ''s'' 7)"
  using suppression_lasts_one_scan [of example_suppressed_state example_change "c_key example_change" example_change
      "example_scan [example_change]" "example_scan [example_change]" 3 "''j''",
      OF _ refl _ _ refl _ _ _ _ _ _ prod.collapse [symmetric]]
  by (simp add: reports_def example_scan_def currentMapOf_def empty_observation_def wf_tracking_def
      example_suppressed_state_def empty_job_state_def mput_def)

end
