(* ===== verification/Slots.thy ===== *)
theory Slots
  imports Prelude
begin

text \<open>
  \<open>internal/app/slots.go\<close>: the pool that hands out the deployment's scan slots. The pool is
  a record with one field per field of \<open>slotPool\<close>, plus \<open>pl_calls\<close>, which holds what the
  code keeps in each \<open>slotWaiter\<close> and in the \<open>sync.Once\<close> of its release function. Every
  operation below runs under the pool's lock, so it is one step. A call of \<open>Acquire\<close> is
  named by a number that the caller chooses, as the code names it by a pointer.

  \<open>uint64\<close> counters wrap at \<open>2 ^ 64\<close>. A \<open>nil\<close> dereference is the value \<open>None\<close>.
\<close>

section \<open>State\<close>

record slot_waiter =
  wt_call :: nat
  wt_arrival :: nat

record slot_key =
  sk_in_use :: int
  sk_last_grant :: nat
  sk_waiters :: "slot_waiter list"

datatype waiter_state = SlotWaiting | SlotGranted | SlotFailed string

record call =
  ca_key :: string
  ca_state :: waiter_state
  ca_released :: bool

record slot_pool =
  pl_capacity :: int
  pl_cap_for :: "(string \<Rightarrow> int) option"
  pl_in_use :: int
  pl_queued :: int
  pl_grants :: nat
  pl_arrivals :: nat
  pl_keys :: "(string, slot_key) gomap"
  pl_idle_grants :: "(string, nat) gomap"
  pl_calls :: "(nat, call) gomap"

definition newSlotPool :: "int \<Rightarrow> (string \<Rightarrow> int) option \<Rightarrow> slot_pool" where
  "newSlotPool capacity capFor = \<lparr>pl_capacity = max capacity 0, pl_cap_for = capFor, pl_in_use = 0,
     pl_queued = 0, pl_grants = 0, pl_arrivals = 0, pl_keys = [], pl_idle_grants = [], pl_calls = []\<rparr>"

definition u64_succ :: "nat \<Rightarrow> nat" where
  "u64_succ n = (n + 1) mod 2 ^ 64"

section \<open>Dispatch\<close>

definition slotLimit :: "int \<Rightarrow> int \<Rightarrow> int" where
  "slotLimit capacity keyCap = (if keyCap > 0 \<and> keyCap < capacity then keyCap else capacity)"

definition limitLocked :: "slot_pool \<Rightarrow> string \<Rightarrow> int" where
  "limitLocked p key = (case pl_cap_for p of None \<Rightarrow> pl_capacity p
     | Some capFor \<Rightarrow> slotLimit (pl_capacity p) (capFor key))"

text \<open>The loop over the keys: the best key so far, its last grant and its head's arrival.\<close>

fun pick_step :: "slot_pool \<Rightarrow> string \<times> slot_key \<Rightarrow> (string \<times> nat \<times> nat) option \<Rightarrow> (string \<times> nat \<times> nat) option" where
  "pick_step p (key, k) best =
     (case sk_waiters k of
        [] \<Rightarrow> best
      | head # _ \<Rightarrow>
          if sk_in_use k \<ge> limitLocked p key then best
          else (case best of
              None \<Rightarrow> Some (key, sk_last_grant k, wt_arrival head)
            | Some (_, g, a) \<Rightarrow>
                if sk_last_grant k < g \<or> (sk_last_grant k = g \<and> wt_arrival head < a)
                then Some (key, sk_last_grant k, wt_arrival head) else best))"

definition pick :: "slot_pool \<Rightarrow> (string \<times> nat \<times> nat) option" where
  "pick p = fold (pick_step p) (pl_keys p) None"

definition set_call_state :: "waiter_state \<Rightarrow> nat \<Rightarrow> (nat, call) gomap \<Rightarrow> (nat, call) gomap" where
  "set_call_state s c m = (case mget m c of None \<Rightarrow> m | Some r \<Rightarrow> mput c (r\<lparr>ca_state := s\<rparr>) m)"

text \<open>The rest of one turn of the dispatch loop: the head waiter of the key gets the slot.\<close>

definition grant :: "string \<Rightarrow> slot_pool \<Rightarrow> slot_pool" where
  "grant key p =
     (case mget (pl_keys p) key of
        None \<Rightarrow> p
      | Some k \<Rightarrow>
          (case sk_waiters k of
             [] \<Rightarrow> p
           | w # ws \<Rightarrow>
               let g = u64_succ (pl_grants p)
               in p\<lparr>pl_keys := mput key (k\<lparr>sk_waiters := ws, sk_in_use := sk_in_use k + 1, sk_last_grant := g\<rparr>) (pl_keys p),
                    pl_queued := pl_queued p - 1, pl_in_use := pl_in_use p + 1, pl_grants := g,
                    pl_calls := set_call_state SlotGranted (wt_call w) (pl_calls p)\<rparr>))"

definition oldestActive :: "slot_pool \<Rightarrow> nat" where
  "oldestActive p = fold (\<lambda>(_, k) o'. if sk_last_grant k < o' then sk_last_grant k else o') (pl_keys p) (2 ^ 64 - 1)"

definition pruneIdleGrantsLocked :: "slot_pool \<Rightarrow> slot_pool" where
  "pruneIdleGrantsLocked p =
     (if pl_idle_grants p = [] then p
      else if pl_keys p = [] then p\<lparr>pl_idle_grants := []\<rparr>
      else if oldestActive p = 0 then p
      else p\<lparr>pl_idle_grants := filter (\<lambda>(_, g). \<not> g < oldestActive p) (pl_idle_grants p)\<rparr>)"

lemma grant_in_use: "pl_in_use (grant key p) = pl_in_use p \<or> pl_in_use (grant key p) = pl_in_use p + 1"
  by (auto simp: grant_def Let_def split: option.splits list.splits)

lemma grant_same [simp]:
  "pl_capacity (grant key p) = pl_capacity p" "pl_cap_for (grant key p) = pl_cap_for p"
  "pl_arrivals (grant key p) = pl_arrivals p" "pl_idle_grants (grant key p) = pl_idle_grants p"
  by (auto simp: grant_def Let_def split: option.splits list.splits)

lemma pick_step_key:
  "pick_step p (key, k) best = Some (key', g, a) \<Longrightarrow>
   best = Some (key', g, a) \<or> (key' = key \<and> sk_waiters k \<noteq> [])"
  by (auto split: list.splits if_splits option.splits)

lemma pick_key:
  assumes "pick p = Some (key, g, a)"
  shows "\<exists>k. (key, k) \<in> set (pl_keys p) \<and> sk_waiters k \<noteq> []"
proof -
  have "fold (pick_step p) ks best = Some (key, g, a) \<Longrightarrow>
      best = Some (key, g, a) \<or> (\<exists>k. (key, k) \<in> set ks \<and> sk_waiters k \<noteq> [])" for ks best
  proof (induction ks arbitrary: best)
    case (Cons e ks)
    obtain key1 k1 where e: "e = (key1, k1)" by (cases e)
    from Cons.IH [of "pick_step p e best"] Cons.prems pick_step_key [of p key1 k1 best key g a]
    show ?case by (auto simp: e simp del: pick_step.simps)
  qed simp
  from this [of "pl_keys p" None] assms show ?thesis by (simp add: pick_def)
qed

text \<open>
  The dispatch loop. It ends because every turn takes a slot; the turn that would not take one
  (a key without a waiter, which \<open>pick\<close> never returns) stops it too.
\<close>

function dispatchLoop :: "slot_pool \<Rightarrow> slot_pool" where
  "dispatchLoop p =
     (if pl_in_use p < pl_capacity p then
        (case pick p of
           None \<Rightarrow> p
         | Some (key, _, _) \<Rightarrow> if pl_in_use (grant key p) = pl_in_use p then p else dispatchLoop (grant key p))
      else p)"
  by pat_completeness auto
termination
proof (relation "measure (\<lambda>p. nat (pl_capacity p - pl_in_use p))", goal_cases)
  case (2 p x key r g a)
  then have "pl_in_use (grant key p) = pl_in_use p + 1" using grant_in_use [of key p] by blast
  then show ?case using 2(1) by simp
qed simp

declare dispatchLoop.simps [simp del]

lemma dispatchLoop_full: "\<not> pl_in_use p < pl_capacity p \<Longrightarrow> dispatchLoop p = p"
  by (subst dispatchLoop.simps) simp

lemma dispatchLoop_free:
  "pl_in_use p < pl_capacity p \<Longrightarrow> dispatchLoop p =
     (case pick p of None \<Rightarrow> p
      | Some (key, _, _) \<Rightarrow> if pl_in_use (grant key p) = pl_in_use p then p else dispatchLoop (grant key p))"
  by (subst dispatchLoop.simps) simp

lemma dispatchLoop_once:
  assumes "pick p = Some (key, g, a)" "pl_in_use p < pl_capacity p"
    "pl_in_use (grant key p) \<noteq> pl_in_use p"
    "\<not> pl_in_use (grant key p) < pl_capacity p \<or> pick (grant key p) = None"
  shows "dispatchLoop p = grant key p"
  using assms dispatchLoop_full [of "grant key p"] dispatchLoop_free [of "grant key p"] dispatchLoop_free [of p]
  by auto

lemma dispatchLoop_stop: "\<not> pl_in_use p < pl_capacity p \<or> pick p = None \<Longrightarrow> dispatchLoop p = p"
  using dispatchLoop_full [of p] dispatchLoop_free [of p] by auto

definition dispatchLocked :: "slot_pool \<Rightarrow> slot_pool" where
  "dispatchLocked p = pruneIdleGrantsLocked (dispatchLoop p)"

section \<open>Operations\<close>

definition forgetIdleLocked :: "string \<Rightarrow> slot_key \<Rightarrow> slot_pool \<Rightarrow> slot_pool" where
  "forgetIdleLocked key k p =
     (if sk_in_use k = 0 \<and> sk_waiters k = [] then
        pruneIdleGrantsLocked (p\<lparr>pl_keys := mdel key (pl_keys p),
          pl_idle_grants := (if sk_last_grant k \<noteq> 0 then mput key (sk_last_grant k) (pl_idle_grants p)
                             else pl_idle_grants p)\<rparr>)
      else p)"

definition releaseLocked :: "string \<Rightarrow> slot_pool \<Rightarrow> slot_pool option" where
  "releaseLocked key p =
     (case mget (pl_keys p) key of
        None \<Rightarrow> None
      | Some k0 \<Rightarrow>
          let k = k0\<lparr>sk_in_use := sk_in_use k0 - 1\<rparr>
          in Some (dispatchLocked (forgetIdleLocked key k
               (p\<lparr>pl_keys := mput key k (pl_keys p), pl_in_use := pl_in_use p - 1\<rparr>))))"

definition removeWaiterLocked :: "string \<Rightarrow> nat \<Rightarrow> slot_pool \<Rightarrow> slot_pool option" where
  "removeWaiterLocked key call p =
     (case mget (pl_keys p) key of
        None \<Rightarrow> None
      | Some k0 \<Rightarrow>
          let k = k0\<lparr>sk_waiters := filter (\<lambda>w. wt_call w \<noteq> call) (sk_waiters k0)\<rparr>
          in Some (forgetIdleLocked key k
               (p\<lparr>pl_keys := mput key k (pl_keys p), pl_queued := pl_queued p - 1\<rparr>)))"

text \<open>
  The first part of \<open>AcquireWithQueued\<close>, up to the wait: \<open>cancelled\<close> is whether the context
  has ended already, in which case the pool is not touched.
\<close>

definition enqueue :: "nat \<Rightarrow> string \<Rightarrow> slot_pool \<Rightarrow> slot_pool" where
  "enqueue call key p =
     (let k = (case mget (pl_keys p) key of Some k \<Rightarrow> k
               | None \<Rightarrow> \<lparr>sk_in_use = 0, sk_last_grant = (case mget (pl_idle_grants p) key of None \<Rightarrow> 0 | Some g \<Rightarrow> g),
                          sk_waiters = []\<rparr>);
          idle = (case mget (pl_keys p) key of Some _ \<Rightarrow> pl_idle_grants p | None \<Rightarrow> mdel key (pl_idle_grants p));
          arrival = u64_succ (pl_arrivals p)
      in p\<lparr>pl_keys := mput key (k\<lparr>sk_waiters := sk_waiters k @ [\<lparr>wt_call = call, wt_arrival = arrival\<rparr>]\<rparr>) (pl_keys p),
           pl_idle_grants := idle, pl_arrivals := arrival, pl_queued := pl_queued p + 1,
           pl_calls := mput call \<lparr>ca_key = key, ca_state = SlotWaiting, ca_released = False\<rparr> (pl_calls p)\<rparr>)"

definition acquire :: "bool \<Rightarrow> nat \<Rightarrow> string \<Rightarrow> slot_pool \<Rightarrow> slot_pool" where
  "acquire cancelled call key p = (if cancelled then p else dispatchLocked (enqueue call key p))"

text \<open>\<open>onQueued\<close> runs when the waiter is still queued after that dispatch.\<close>

definition queued_after :: "nat \<Rightarrow> slot_pool \<Rightarrow> bool" where
  "queued_after call p = (case mget (pl_calls p) call of None \<Rightarrow> False | Some c \<Rightarrow> ca_state c = SlotWaiting)"

text \<open>What a call whose \<open>ready\<close> channel closed returns: an error, or a release function.\<close>

definition acquire_result :: "nat \<Rightarrow> slot_pool \<Rightarrow> (string + unit) option" where
  "acquire_result call p =
     (case mget (pl_calls p) call of
        None \<Rightarrow> None
      | Some c \<Rightarrow> (case ca_state c of SlotWaiting \<Rightarrow> None | SlotGranted \<Rightarrow> Some (Inr ()) | SlotFailed e \<Rightarrow> Some (Inl e)))"

text \<open>
  The branch of the wait where the context ended: a waiter leaves the queue, and a slot that
  was granted meanwhile is released at once. The call has returned then, so its entry goes.
\<close>

definition cancel :: "nat \<Rightarrow> slot_pool \<Rightarrow> slot_pool option" where
  "cancel call p =
     (case mget (pl_calls p) call of
        None \<Rightarrow> None
      | Some c \<Rightarrow>
          (case ca_state c of
             SlotWaiting \<Rightarrow> removeWaiterLocked (ca_key c) call (p\<lparr>pl_calls := mdel call (pl_calls p)\<rparr>)
           | SlotGranted \<Rightarrow> releaseLocked (ca_key c) (p\<lparr>pl_calls := mdel call (pl_calls p)\<rparr>)
           | SlotFailed _ \<Rightarrow> Some p))"

text \<open>The release function that a successful call returns, with its \<open>sync.Once\<close>.\<close>

definition release :: "nat \<Rightarrow> slot_pool \<Rightarrow> slot_pool option" where
  "release call p =
     (case mget (pl_calls p) call of
        None \<Rightarrow> None
      | Some c \<Rightarrow>
          if ca_released c then Some p
          else releaseLocked (ca_key c) (p\<lparr>pl_calls := mput call (c\<lparr>ca_released := True\<rparr>) (pl_calls p)\<rparr>))"

definition errSlotWaitFailed :: string where
  "errSlotWaitFailed = ''scan slot wait failed''"

definition FailWaiters :: "string \<Rightarrow> string option \<Rightarrow> slot_pool \<Rightarrow> slot_pool" where
  "FailWaiters key err p =
     (let e = (case err of None \<Rightarrow> errSlotWaitFailed | Some e \<Rightarrow> e)
      in case mget (pl_keys p) key of
           None \<Rightarrow> p
         | Some k0 \<Rightarrow>
             let k = k0\<lparr>sk_waiters := []\<rparr>
             in forgetIdleLocked key k (p\<lparr>pl_keys := mput key k (pl_keys p),
                  pl_queued := pl_queued p - int (length (sk_waiters k0)),
                  pl_calls := fold (\<lambda>w. set_call_state (SlotFailed e) (wt_call w)) (sk_waiters k0) (pl_calls p)\<rparr>))"

definition SetCapacity :: "int \<Rightarrow> (string \<Rightarrow> int) option \<Rightarrow> slot_pool \<Rightarrow> slot_pool" where
  "SetCapacity capacity capFor p = dispatchLocked (p\<lparr>pl_capacity := max capacity 0, pl_cap_for := capFor\<rparr>)"

definition SetCaps :: "(string \<Rightarrow> int) option \<Rightarrow> slot_pool \<Rightarrow> slot_pool" where
  "SetCaps capFor p = dispatchLocked (p\<lparr>pl_cap_for := capFor\<rparr>)"

record slot_usage =
  us_in_use :: int
  us_queued :: int
  us_limit :: int

record slot_snapshot =
  sp_capacity :: int
  sp_in_use :: int
  sp_queued :: int
  sp_keys :: "(string, slot_usage) gomap"

definition CapacitySnapshot :: "slot_pool \<Rightarrow> slot_snapshot" where
  "CapacitySnapshot p = \<lparr>sp_capacity = pl_capacity p, sp_in_use = pl_in_use p, sp_queued = pl_queued p,
     sp_keys = map (\<lambda>(key, k). (key, \<lparr>us_in_use = sk_in_use k, us_queued = int (length (sk_waiters k)),
       us_limit = limitLocked p key\<rparr>)) (pl_keys p)\<rparr>"

text \<open>
  One operation of a client of the pool: a fresh call acquires, a call that waits or holds a
  slot is cancelled, the holder of a slot releases, the waiters of a key fail, or the limits
  change.
\<close>

inductive slot_step :: "slot_pool \<Rightarrow> slot_pool \<Rightarrow> bool" where
  acquire: "mget (pl_calls p) call = None \<Longrightarrow> slot_step p (acquire cancelled call key p)"
| cancel: "mget (pl_calls p) call = Some c \<Longrightarrow> \<not> ca_released c \<Longrightarrow> cancel call p = Some p' \<Longrightarrow> slot_step p p'"
| release: "acquire_result call p = Some (Inr ()) \<Longrightarrow> release call p = Some p' \<Longrightarrow> slot_step p p'"
| fail: "slot_step p (FailWaiters key err p)"
| capacity: "slot_step p (SetCapacity capacity capFor p)"
| caps: "slot_step p (SetCaps capFor p)"

inductive slot_reach :: "slot_pool \<Rightarrow> bool" where
  init: "slot_reach (newSlotPool capacity capFor)"
| step: "slot_reach p \<Longrightarrow> slot_step p p' \<Longrightarrow> slot_reach p'"

inductive_cases slot_stepE: "slot_step p p'"

section \<open>What the dispatch loop chooses\<close>

definition eligible :: "slot_pool \<Rightarrow> string \<Rightarrow> bool" where
  "eligible p key = (case mget (pl_keys p) key of None \<Rightarrow> False
     | Some k \<Rightarrow> sk_waiters k \<noteq> [] \<and> sk_in_use k < limitLocked p key)"

text \<open>What orders the keys: the last grant, then the arrival of the head waiter.\<close>

definition turn :: "slot_key \<Rightarrow> nat \<times> nat" where
  "turn k = (sk_last_grant k, wt_arrival (hd (sk_waiters k)))"

abbreviation can_take :: "slot_pool \<Rightarrow> string \<times> slot_key \<Rightarrow> bool" where
  "can_take p e \<equiv> sk_waiters (snd e) \<noteq> [] \<and> sk_in_use (snd e) < limitLocked p (fst e)"

lemma pick_step_min:
  "case pick_step p e best of
     None \<Rightarrow> best = None \<and> \<not> can_take p e
   | Some (key, t) \<Rightarrow>
       (best = Some (key, t) \<or> (can_take p e \<and> key = fst e \<and> t = turn (snd e))) \<and>
       (\<forall>key' t'. best = Some (key', t') \<longrightarrow> t \<le> t') \<and> (can_take p e \<longrightarrow> t \<le> turn (snd e))"
  by (cases e; cases "sk_waiters (snd e)"; cases best) (auto simp: turn_def)

lemma pick_fold_min:
  "case fold (pick_step p) es best of
     None \<Rightarrow> best = None \<and> (\<forall>e \<in> set es. \<not> can_take p e)
   | Some (key, t) \<Rightarrow>
       (best = Some (key, t) \<or> (\<exists>e \<in> set es. can_take p e \<and> key = fst e \<and> t = turn (snd e))) \<and>
       (\<forall>key' t'. best = Some (key', t') \<longrightarrow> t \<le> t') \<and> (\<forall>e \<in> set es. can_take p e \<longrightarrow> t \<le> turn (snd e))"
proof (induction es arbitrary: best)
  case Nil
  then show ?case by (cases best) auto
next
  case (Cons e es)
  note step = pick_step_min [where p = p and e = e and best = best]
  note IH = Cons.IH [where best = "pick_step p e best"]
  show ?case
  proof (cases "pick_step p e best")
    case None
    with step IH show ?thesis by (auto split: option.splits)
  next
    case (Some kt)
    obtain key t where kt: "kt = (key, t)" by (cases kt)
    obtain kt2 where "fold (pick_step p) es (Some (key, t)) = Some kt2"
      using IH Some kt by (cases "fold (pick_step p) es (Some (key, t))") auto
    moreover obtain key2 t2 where "kt2 = (key2, t2)" by (cases kt2)
    ultimately have f: "fold (pick_step p) es (Some (key, t)) = Some (key2, t2)" by simp
    with IH Some kt have f2: "key2 = key \<and> t2 = t \<or> (\<exists>e' \<in> set es. can_take p e' \<and> key2 = fst e' \<and> t2 = turn (snd e'))"
        "t2 \<le> t" "\<forall>e' \<in> set es. can_take p e' \<longrightarrow> t2 \<le> turn (snd e')"
      by (cases t; auto)+
    from step Some kt have s: "best = Some (key, t) \<or> (can_take p e \<and> key = fst e \<and> t = turn (snd e))"
      "\<forall>key' t'. best = Some (key', t') \<longrightarrow> t \<le> t'" "can_take p e \<longrightarrow> t \<le> turn (snd e)" by auto
    have "best = Some (key2, t2) \<or> (\<exists>e' \<in> set (e # es). can_take p e' \<and> key2 = fst e' \<and> t2 = turn (snd e'))"
      using s(1) f2(1) by auto
    moreover have "\<forall>key' t'. best = Some (key', t') \<longrightarrow> t2 \<le> t'" 
    proof (intro allI impI)
      fix key' t'
      assume "best = Some (key', t')"
      then have "t \<le> t'" using s(2) by (simp del: split_paired_All)
      with f2(2) show "t2 \<le> t'" by (rule order.trans)
    qed
    moreover have "\<forall>e' \<in> set (e # es). can_take p e' \<longrightarrow> t2 \<le> turn (snd e')"
      
      using s(3) f2(3) order.trans [OF f2(2)] by auto
    ultimately show ?thesis using f Some kt by simp
  qed
qed

lemma pick_None:
  assumes "wf_map (pl_keys p)"
  shows "pick p = None \<longleftrightarrow> (\<forall>key. \<not> eligible p key)"
proof -
  have "eligible p key \<longleftrightarrow> (\<exists>k. (key, k) \<in> set (pl_keys p) \<and> can_take p (key, k))" for key
    using mget_eq_Some_mem [OF assms, of key] mget_eq_None [of "pl_keys p" key]
    by (cases "mget (pl_keys p) key") (force simp: eligible_def)+
  then show ?thesis
    using pick_fold_min [where p = p and es = "pl_keys p" and best = None] unfolding pick_def
    by (cases "fold (pick_step p) (pl_keys p) None") (fastforce split: prod.splits)+
qed

lemma pick_Some:
  assumes "wf_map (pl_keys p)" "pick p = Some (key, t)"
  shows "eligible p key \<and> (\<exists>k. mget (pl_keys p) key = Some k \<and> t = turn k) \<and>
    (\<forall>key' k'. mget (pl_keys p) key' = Some k' \<and> eligible p key' \<longrightarrow> t \<le> turn k')"
proof -
  from pick_fold_min [where p = p and es = "pl_keys p" and best = None] assms(2)
  have "\<exists>e \<in> set (pl_keys p). can_take p e \<and> key = fst e \<and> t = turn (snd e)"
    and min: "\<forall>e \<in> set (pl_keys p). can_take p e \<longrightarrow> t \<le> turn (snd e)" by (auto simp: pick_def)
  then obtain k where k: "mget (pl_keys p) key = Some k" "can_take p (key, k)" "t = turn k"
    using mget_eq_Some_mem [OF assms(1), of key] by auto
  have "t \<le> turn k'" if "mget (pl_keys p) key' = Some k'" "eligible p key'" for key' k'
    using that min mget_SomeD [OF that(1)] by (force simp: eligible_def)
  then show ?thesis using k by (auto simp: eligible_def)
qed

text \<open>The loop without its guard against a turn that takes nothing.\<close>

lemma dispatchLoop_step:
  assumes "wf_map (pl_keys p)"
  shows "dispatchLoop p =
    (if pl_in_use p < pl_capacity p then
       (case pick p of None \<Rightarrow> p | Some (key, _, _) \<Rightarrow> dispatchLoop (grant key p)) else p)"
proof -
  have "pl_in_use (grant key p) \<noteq> pl_in_use p" if "pick p = Some (key, t)" for key t
    using pick_Some [OF assms that]
    by (auto simp: eligible_def grant_def Let_def split: option.splits list.splits)
  then show ?thesis by (subst dispatchLoop.simps) (auto split: option.splits)
qed

section \<open>The invariant\<close>

definition queue :: "string \<Rightarrow> slot_pool \<Rightarrow> slot_waiter list" where
  "queue key p = (case mget (pl_keys p) key of None \<Rightarrow> [] | Some k \<Rightarrow> sk_waiters k)"

definition in_use_of :: "string \<Rightarrow> slot_pool \<Rightarrow> int" where
  "in_use_of key p = (case mget (pl_keys p) key of None \<Rightarrow> 0 | Some k \<Rightarrow> sk_in_use k)"

definition holds_slot :: "string \<Rightarrow> call \<Rightarrow> bool" where
  "holds_slot key c \<longleftrightarrow> ca_key c = key \<and> ca_state c = SlotGranted \<and> \<not> ca_released c"

text \<open>The number of calls that hold a slot of the key.\<close>

definition held :: "string \<Rightarrow> slot_pool \<Rightarrow> int" where
  "held key p = msum (\<lambda>_ c. if holds_slot key c then 1 else 0) (pl_calls p)"

definition waits_for :: "string \<Rightarrow> call option \<Rightarrow> bool" where
  "waits_for key co = (case co of None \<Rightarrow> False | Some c \<Rightarrow> ca_key c = key \<and> ca_state c = SlotWaiting)"

definition released_granted :: "(nat, call) gomap \<Rightarrow> bool" where
  "released_granted m \<longleftrightarrow> (\<forall>call c. mget m call = Some c \<and> ca_released c \<longrightarrow> ca_state c = SlotGranted)"

definition slots_core :: "slot_pool \<Rightarrow> bool" where
  "slots_core p \<longleftrightarrow> wf_map (pl_keys p) \<and> wf_map (pl_calls p) \<and> 0 \<le> pl_capacity p \<and>
     pl_in_use p = msum (\<lambda>_. sk_in_use) (pl_keys p) \<and>
     pl_queued p = msum (\<lambda>_ k. int (length (sk_waiters k))) (pl_keys p) \<and>
     (\<forall>key. in_use_of key p = held key p) \<and>
     released_granted (pl_calls p) \<and>
     (\<forall>key. distinct (map wt_call (queue key p))) \<and>
     (\<forall>key call. call \<in> wt_call ` set (queue key p) \<longleftrightarrow> waits_for key (mget (pl_calls p) call))"

definition active_key :: "slot_key \<Rightarrow> bool" where
  "active_key k \<longleftrightarrow> sk_in_use k \<noteq> 0 \<or> sk_waiters k \<noteq> []"

definition keys_active :: "slot_pool \<Rightarrow> bool" where
  "keys_active p \<longleftrightarrow> (\<forall>key k. mget (pl_keys p) key = Some k \<longrightarrow> active_key k)"

text \<open>A free slot and an eligible waiter do not coexist.\<close>

definition work_conserving :: "slot_pool \<Rightarrow> bool" where
  "work_conserving p \<longleftrightarrow> (pl_in_use p < pl_capacity p \<longrightarrow> (\<forall>key. \<not> eligible p key))"

definition slots_ok :: "slot_pool \<Rightarrow> bool" where
  "slots_ok p \<longleftrightarrow> slots_core p \<and> keys_active p \<and> work_conserving p"

lemma limit_idle [simp]: "limitLocked (p\<lparr>pl_idle_grants := i\<rparr>) key = limitLocked p key"
  by (simp add: limitLocked_def split: option.split)

lemma eligible_idle [simp]: "eligible (p\<lparr>pl_idle_grants := i\<rparr>) key = eligible p key"
  by (simp add: eligible_def split: option.split)

lemma idle_irrelevant [simp]:
  "queue key (p\<lparr>pl_idle_grants := i\<rparr>) = queue key p" "in_use_of key (p\<lparr>pl_idle_grants := i\<rparr>) = in_use_of key p"
  "held key (p\<lparr>pl_idle_grants := i\<rparr>) = held key p"
  "slots_core (p\<lparr>pl_idle_grants := i\<rparr>) = slots_core p"
  "keys_active (p\<lparr>pl_idle_grants := i\<rparr>) = keys_active p"
  "work_conserving (p\<lparr>pl_idle_grants := i\<rparr>) = work_conserving p"
  by (simp_all add: queue_def in_use_of_def held_def slots_core_def keys_active_def
      work_conserving_def)

lemma prune_idle: "\<exists>i. pruneIdleGrantsLocked p = p\<lparr>pl_idle_grants := i\<rparr>"
  by (auto simp: pruneIdleGrantsLocked_def intro: exI [of _ "pl_idle_grants p"])

lemma prune_irrelevant [simp]:
  "slots_core (pruneIdleGrantsLocked p) = slots_core p"
  "keys_active (pruneIdleGrantsLocked p) = keys_active p"
  "work_conserving (pruneIdleGrantsLocked p) = work_conserving p"
  "eligible (pruneIdleGrantsLocked p) key = eligible p key"
  "limitLocked (pruneIdleGrantsLocked p) key = limitLocked p key"
  "in_use_of key (pruneIdleGrantsLocked p) = in_use_of key p"
  "pl_keys (pruneIdleGrantsLocked p) = pl_keys p" "pl_calls (pruneIdleGrantsLocked p) = pl_calls p"
  "pl_in_use (pruneIdleGrantsLocked p) = pl_in_use p" "pl_capacity (pruneIdleGrantsLocked p) = pl_capacity p"
  "pl_cap_for (pruneIdleGrantsLocked p) = pl_cap_for p" "pl_grants (pruneIdleGrantsLocked p) = pl_grants p"
  using prune_idle [of p] by auto

subsection \<open>Granting\<close>

text \<open>The fields after a grant, for a key that has a waiter.\<close>

lemma grant_fields:
  assumes "mget (pl_keys p) key = Some k" "sk_waiters k = w # ws"
  shows "pl_keys (grant key p) = mput key (k\<lparr>sk_waiters := ws, sk_in_use := sk_in_use k + 1,
           sk_last_grant := u64_succ (pl_grants p)\<rparr>) (pl_keys p)"
    "pl_calls (grant key p) = set_call_state SlotGranted (wt_call w) (pl_calls p)"
    "pl_in_use (grant key p) = pl_in_use p + 1" "pl_queued (grant key p) = pl_queued p - 1"
    "pl_grants (grant key p) = u64_succ (pl_grants p)"
  using assms by (auto simp: grant_def Let_def)

lemma wf_set_call_state [simp]: "wf_map m \<Longrightarrow> wf_map (set_call_state s c m)"
  by (simp add: set_call_state_def split: option.splits)

lemma mget_set_call_state:
  "mget (set_call_state s c m) c' = (if c' = c then map_option (ca_state_update (\<lambda>_. s)) (mget m c) else mget m c')"
  by (auto simp: set_call_state_def split: option.splits)

lemma msum_set_call_state:
  assumes "wf_map m" "mget m c = Some r"
  shows "msum f (set_call_state s c m) = msum f m + f c (r\<lparr>ca_state := s\<rparr>) - f c r"
  using assms by (simp add: set_call_state_def msum_mput)

lemma not_holding: "ca_state r \<noteq> SlotGranted \<Longrightarrow> \<not> holds_slot key r"
  by (simp add: holds_slot_def)

lemma grant_core:
  assumes ok: "slots_core p" and k: "mget (pl_keys p) key = Some k" "sk_waiters k = w # ws"
  shows "slots_core (grant key p)"
proof -
  have nr: "\<forall>c r. mget (pl_calls p) c = Some r \<and> ca_state r = SlotWaiting \<longrightarrow> \<not> ca_released r"
    using ok by (auto simp: slots_core_def released_granted_def)
  note f = grant_fields [OF k]
  have wf: "wf_map (pl_keys p)" "wf_map (pl_calls p)" using ok by (auto simp: slots_core_def)
  have q: "queue key p = w # ws" using k by (simp add: queue_def)
  have "wt_call w \<in> wt_call ` set (queue key p)" using q by simp
  then obtain r where r: "mget (pl_calls p) (wt_call w) = Some r" "ca_key r = key" "ca_state r = SlotWaiting"
    using ok unfolding slots_core_def waits_for_def by (auto split: option.splits)
  have held: "held key' (grant key p) = held key' p + (if key' = key then 1 else 0)" for key'
    using nr r not_holding [of r key'] by (auto simp: held_def f msum_set_call_state [OF wf(2) r(1)] holds_slot_def)
  have use: "in_use_of key' (grant key p) = in_use_of key' p + (if key' = key then 1 else 0)" for key'
    using k by (simp add: in_use_of_def f)
  have que: "queue key' (grant key p) = (if key' = key then ws else queue key' p)" for key'
    by (simp add: queue_def f)
  have w_out: "wt_call w \<notin> wt_call ` set ws"
    using ok q by (metis (no_types, lifting) distinct.simps(2) list.map(2) list.set_map slots_core_def)
  have "distinct (map wt_call (queue key' (grant key p)))" for key'
    using ok q by (metis (no_types, lifting) distinct.simps(2) list.map(2) que slots_core_def)
  moreover have "call \<in> wt_call ` set (queue key' (grant key p)) \<longleftrightarrow> waits_for key' (mget (pl_calls (grant key p)) call)"
    for key' call
  proof -
    have old: "call \<in> wt_call ` set (queue key' p) \<longleftrightarrow> waits_for key' (mget (pl_calls p) call)"
      using ok by (simp add: slots_core_def)
    have oldw: "wt_call w \<in> wt_call ` set (queue key' p) \<longleftrightarrow> key' = key"
      using ok r by (auto simp: slots_core_def waits_for_def)
    show ?thesis
      using old oldw w_out r q by (auto simp: que f mget_set_call_state waits_for_def)
  qed
  moreover have "pl_in_use (grant key p) = msum (\<lambda>_. sk_in_use) (pl_keys (grant key p))"
    "pl_queued (grant key p) = msum (\<lambda>_ k. int (length (sk_waiters k))) (pl_keys (grant key p))"
    using ok k by (simp_all add: f msum_mput [OF wf(1)] slots_core_def)
  moreover have "released_granted (pl_calls (grant key p))"
    using ok by (auto simp: f mget_set_call_state slots_core_def released_granted_def)
  ultimately show ?thesis
    using ok wf by (simp add: slots_core_def held use f)
qed

text \<open>A property that one grant keeps is kept by the loop.\<close>

lemma dispatchLoop_inv:
  assumes "slots_core p" "P p"
    and "\<And>p key k w ws. \<lbrakk>slots_core p; P p; pl_in_use p < pl_capacity p; eligible p key;
           mget (pl_keys p) key = Some k; sk_waiters k = w # ws;
           \<And>key' k'. mget (pl_keys p) key' = Some k' \<Longrightarrow> eligible p key' \<Longrightarrow> turn k \<le> turn k'\<rbrakk> \<Longrightarrow> P (grant key p)"
  shows "slots_core (dispatchLoop p) \<and> P (dispatchLoop p)"
  using assms(1,2)
proof (induction p rule: dispatchLoop.induct)
  case (1 p)
  then have wf: "wf_map (pl_keys p)" by (simp add: slots_core_def)
  show ?case
  proof (cases "pl_in_use p < pl_capacity p \<and> pick p \<noteq> None")
    case False
    then show ?thesis using "1.prems" by (cases "pick p") (auto simp: dispatchLoop_step [OF wf])
  next
    case True
    then obtain key g a where pk: "pick p = Some (key, g, a)" by auto
    note ps = pick_Some [OF wf pk]
    then obtain k w ws where k: "mget (pl_keys p) key = Some k" "sk_waiters k = w # ws" "(g, a) = turn k"
      by (auto simp: eligible_def neq_Nil_conv)
    have "P (grant key p)"
      using assms(3) [OF "1.prems", of key k w ws] True ps k by auto
    moreover have "slots_core (grant key p)" using grant_core [OF "1.prems"(1) k(1,2)] .
    moreover have "pl_in_use (grant key p) \<noteq> pl_in_use p" using grant_fields(3) [OF k(1,2)] by simp
    ultimately have "slots_core (dispatchLoop (grant key p)) \<and> P (dispatchLoop (grant key p))"
      using "1.IH" [OF _ pk] True by blast
    then show ?thesis using True pk by (simp add: dispatchLoop_step [OF wf])
  qed
qed

lemma dispatchLoop_core: "slots_core p \<Longrightarrow> slots_core (dispatchLoop p)"
  using dispatchLoop_inv [of p "\<lambda>_. True"] by blast

lemma grant_active:
  assumes "keys_active p" "mget (pl_keys p) key = Some k" "sk_waiters k = w # ws" "0 \<le> sk_in_use k"
  shows "keys_active (grant key p)"
  using assms by (auto simp: keys_active_def grant_fields [OF assms(2,3)] active_key_def)

lemma held_nonneg: "0 \<le> held key p"
  by (simp add: held_def msum_nonneg)

lemma in_use_nonneg: "slots_core p \<Longrightarrow> mget (pl_keys p) key = Some k \<Longrightarrow> 0 \<le> sk_in_use k"
  using held_nonneg [of key p] by (auto simp: slots_core_def in_use_of_def dest!: spec [of _ key])

lemma dispatchLoop_active: "slots_core p \<Longrightarrow> keys_active p \<Longrightarrow> keys_active (dispatchLoop p)"
  using dispatchLoop_inv [of p keys_active] grant_active in_use_nonneg by blast

lemma dispatchLoop_conserving: "slots_core p \<Longrightarrow> work_conserving (dispatchLoop p)"
proof (induction p rule: dispatchLoop.induct)
  case (1 p)
  then have wf: "wf_map (pl_keys p)" by (simp add: slots_core_def)
  show ?case
  proof (cases "pl_in_use p < pl_capacity p \<and> pick p \<noteq> None")
    case False
    then show ?thesis using pick_None [OF wf] by (auto simp: dispatchLoop_step [OF wf] work_conserving_def)
  next
    case True
    then obtain key g a where pk: "pick p = Some (key, g, a)" by auto
    then obtain k w ws where k: "mget (pl_keys p) key = Some k" "sk_waiters k = w # ws"
      using pick_Some [OF wf pk] by (auto simp: eligible_def neq_Nil_conv)
    have "work_conserving (dispatchLoop (grant key p))"
      using "1.IH" [OF _ pk refl refl] True grant_core [OF "1.prems" k] grant_fields(3) [OF k] by auto
    then show ?thesis using True pk by (simp add: dispatchLoop_step [OF wf])
  qed
qed

lemma dispatchLocked_ok: "slots_core p \<Longrightarrow> keys_active p \<Longrightarrow> slots_ok (dispatchLocked p)"
  by (simp add: dispatchLocked_def slots_ok_def dispatchLoop_core dispatchLoop_active dispatchLoop_conserving)

lemma dispatchLoop_same [simp]:
  "pl_capacity (dispatchLoop p) = pl_capacity p" "pl_cap_for (dispatchLoop p) = pl_cap_for p"
proof (induction p rule: dispatchLoop.induct)
  case (1 p)
  { case 1 then show ?case using "1.IH"(1) by (subst dispatchLoop.simps) (auto split: option.splits)
  next case 2 then show ?case using "1.IH"(2) by (subst dispatchLoop.simps) (auto split: option.splits) }
qed

subsection \<open>The other operations\<close>

lemma forgetIdle_core:
  assumes "slots_core p" "mget (pl_keys p) key = Some k"
  shows "slots_core (forgetIdleLocked key k p)"
proof -
  have wf: "wf_map (pl_keys p)" using assms by (simp add: slots_core_def)
  have "slots_core (p\<lparr>pl_keys := mdel key (pl_keys p)\<rparr>)" if "sk_in_use k = 0" "sk_waiters k = []"
  proof -
    have "queue key' (p\<lparr>pl_keys := mdel key (pl_keys p)\<rparr>) = queue key' p"
      "in_use_of key' (p\<lparr>pl_keys := mdel key (pl_keys p)\<rparr>) = in_use_of key' p"
      "held key' (p\<lparr>pl_keys := mdel key (pl_keys p)\<rparr>) = held key' p" for key'
      using that assms(2) by (auto simp: queue_def in_use_of_def held_def)
    then show ?thesis
      using assms that by (simp add: slots_core_def msum_mdel [OF wf])
  qed
  then have "sk_in_use k = 0 \<Longrightarrow> sk_waiters k = [] \<Longrightarrow>
      slots_core (p\<lparr>pl_keys := mdel key (pl_keys p), pl_idle_grants := i\<rparr>)" for i
    using idle_irrelevant(4) [where p = "p\<lparr>pl_keys := mdel key (pl_keys p)\<rparr>" and i = i] by simp
  then show ?thesis using assms(1) by (simp add: forgetIdleLocked_def)
qed

definition active_but :: "string \<Rightarrow> slot_pool \<Rightarrow> bool" where
  "active_but key p \<longleftrightarrow> (\<forall>key' k. key' \<noteq> key \<and> mget (pl_keys p) key' = Some k \<longrightarrow> active_key k)"

lemma forgetIdle_active:
  assumes "active_but key p" "mget (pl_keys p) key = Some k"
  shows "keys_active (forgetIdleLocked key k p)"
proof (cases "active_key k")
  case True
  then have "forgetIdleLocked key k p = p" by (auto simp: forgetIdleLocked_def active_key_def)
  moreover have "keys_active p" unfolding keys_active_def
  proof (intro allI impI)
    fix key' k' assume "mget (pl_keys p) key' = Some k'"
    then show "active_key k'" using True assms by (cases "key' = key") (auto simp: active_but_def)
  qed
  ultimately show ?thesis by simp
next
  case False
  then show ?thesis using assms(1)
    by (auto simp: forgetIdleLocked_def keys_active_def active_but_def active_key_def)
qed

lemma forgetIdle_same [simp]:
  "pl_in_use (forgetIdleLocked key k p) = pl_in_use p" "pl_capacity (forgetIdleLocked key k p) = pl_capacity p"
  "pl_cap_for (forgetIdleLocked key k p) = pl_cap_for p" "pl_grants (forgetIdleLocked key k p) = pl_grants p"
  "pl_calls (forgetIdleLocked key k p) = pl_calls p"
  by (simp_all add: forgetIdleLocked_def)

lemma forgetIdle_eligible:
  "eligible (forgetIdleLocked key k p) key' \<Longrightarrow> eligible p key'"
  by (auto simp: forgetIdleLocked_def eligible_def limitLocked_def split: if_splits option.splits)

lemma forgetIdle_conserving: "work_conserving p \<Longrightarrow> work_conserving (forgetIdleLocked key k p)"
  using forgetIdle_eligible by (fastforce simp: work_conserving_def)

text \<open>
  Releasing a slot of a key: the caller has taken its call out of those that hold a slot, by
  removing it or by marking it released, and \<open>releaseLocked\<close> takes the slot back.
\<close>

definition gives_up :: "nat \<Rightarrow> call \<Rightarrow> (nat, call) gomap \<Rightarrow> (nat, call) gomap \<Rightarrow> bool" where
  "gives_up call c m m' \<longleftrightarrow> m' = mdel call m \<or> m' = mput call (c\<lparr>ca_released := True\<rparr>) m"

lemma taken_back_core:
  assumes core: "slots_core p" and c: "mget (pl_calls p) call = Some c" "holds_slot key c"
    and m: "gives_up call c (pl_calls p) m"
    and k0: "mget (pl_keys p) key = Some k0"
  shows "slots_core (p\<lparr>pl_calls := m, pl_keys := mput key (k0\<lparr>sk_in_use := sk_in_use k0 - 1\<rparr>) (pl_keys p),
    pl_in_use := pl_in_use p - 1\<rparr>)"
proof -
  define r where "r = p\<lparr>pl_calls := m, pl_keys := mput key (k0\<lparr>sk_in_use := sk_in_use k0 - 1\<rparr>) (pl_keys p),
    pl_in_use := pl_in_use p - 1\<rparr>"
  have wf: "wf_map (pl_keys p)" "wf_map (pl_calls p)" using core by (simp_all add: slots_core_def)
  have other: "call' \<noteq> call \<Longrightarrow> mget m call' = mget (pl_calls p) call'" for call'
    using m by (auto simp: gives_up_def)
  have here: "mget m call = None \<or> mget m call = Some (c\<lparr>ca_released := True\<rparr>)"
    using m by (auto simp: gives_up_def)
  have que: "queue key' r = queue key' p" for key' using k0 by (simp add: queue_def r_def)
  have held: "held key' r = held key' p - (if key' = key then 1 else 0)" for key'
    using m c by (auto simp: held_def r_def gives_up_def msum_mdel [OF wf(2)] msum_mput [OF wf(2)] holds_slot_def)
  have use: "in_use_of key' r = in_use_of key' p - (if key' = key then 1 else 0)" for key'
    using k0 by (simp add: in_use_of_def r_def)
  have wait: "waits_for key' (mget (pl_calls r) call') \<longleftrightarrow> waits_for key' (mget (pl_calls p) call')" for key' call'
    using other [of call'] here c by (cases "call' = call") (auto simp: r_def waits_for_def holds_slot_def)
  have "ca_state c' = SlotGranted" if "mget (pl_calls r) call' = Some c'" "ca_released c'" for call' c'
    using that other [of call'] here c core
    by (cases "call' = call") (auto simp: r_def slots_core_def holds_slot_def released_granted_def)
  then have rel: "released_granted (pl_calls r)" unfolding released_granted_def by blast
  have "wf_map m" using m wf by (auto simp: gives_up_def)
  then have "slots_core r"
    using core k0 rel
    by (simp add: slots_core_def que held use wait) (simp add: r_def msum_mput [OF wf(1)])
  then show ?thesis by (simp add: r_def)
qed

lemma releaseLocked_ok:
  assumes ok: "slots_ok p" and c: "mget (pl_calls p) call = Some c" "holds_slot key c"
    and m: "gives_up call c (pl_calls p) m"
  shows "\<exists>p'. releaseLocked key (p\<lparr>pl_calls := m\<rparr>) = Some p' \<and> slots_ok p'"
proof -
  have core: "slots_core p" using ok by (simp add: slots_ok_def)
  have "1 \<le> held key p"
    using msum_single [where f = "\<lambda>_ c. if holds_slot key c then 1 else 0" and m = "pl_calls p", OF _ _ c(1)] c(2) core
    by (simp add: held_def slots_core_def)
  moreover have "in_use_of key p = held key p" using core by (simp add: slots_core_def)
  ultimately have "1 \<le> in_use_of key p" by simp
  then obtain k0 where k0: "mget (pl_keys p) key = Some k0"
    by (auto simp: in_use_of_def split: option.splits)
  define k where "k = k0\<lparr>sk_in_use := sk_in_use k0 - 1\<rparr>"
  define r where "r = p\<lparr>pl_calls := m, pl_keys := mput key k (pl_keys p), pl_in_use := pl_in_use p - 1\<rparr>"
  have "slots_core r" unfolding r_def k_def by (rule taken_back_core [OF core c m k0])
  moreover have "mget (pl_keys r) key = Some k" by (simp add: r_def)
  moreover have "active_but key r" using ok by (auto simp: active_but_def r_def slots_ok_def keys_active_def)
  ultimately have "slots_ok (dispatchLocked (forgetIdleLocked key k r))"
    using dispatchLocked_ok forgetIdle_core forgetIdle_active by blast
  then show ?thesis using k0 by (simp add: releaseLocked_def Let_def k_def r_def)
qed

lemma release_ok:
  assumes "slots_ok p" "acquire_result call p = Some (Inr ())"
  shows "\<exists>p'. release call p = Some p' \<and> slots_ok p'"
proof -
  obtain c where c: "mget (pl_calls p) call = Some c" "ca_state c = SlotGranted"
    using assms(2) by (auto simp: acquire_result_def split: option.splits waiter_state.splits)
  show ?thesis
  proof (cases "ca_released c")
    case True
    then show ?thesis using assms(1) c by (simp add: release_def)
  next
    case False
    have "\<exists>p'. releaseLocked (ca_key c) (p\<lparr>pl_calls := mput call (c\<lparr>ca_released := True\<rparr>) (pl_calls p)\<rparr>) = Some p' \<and> slots_ok p'"
      by (rule releaseLocked_ok [OF assms(1) c(1)]) (use False c in \<open>auto simp: holds_slot_def gives_up_def\<close>)
    then show ?thesis using False c by (simp add: release_def)
  qed
qed

lemma removeWaiter_ok:
  assumes ok: "slots_ok p" and c: "mget (pl_calls p) call = Some c" "ca_state c = SlotWaiting"
  shows "\<exists>p'. removeWaiterLocked (ca_key c) call (p\<lparr>pl_calls := mdel call (pl_calls p)\<rparr>) = Some p' \<and> slots_ok p'"
proof -
  have core: "slots_core p" and act: "keys_active p" and cons: "work_conserving p"
    using ok by (simp_all add: slots_ok_def)
  then have wf: "wf_map (pl_keys p)" "wf_map (pl_calls p)" by (simp_all add: slots_core_def)
  have "call \<in> wt_call ` set (queue (ca_key c) p)" using core c by (simp add: slots_core_def waits_for_def)
  then obtain k0 where k0: "mget (pl_keys p) (ca_key c) = Some k0" "call \<in> wt_call ` set (sk_waiters k0)"
    by (cases "mget (pl_keys p) (ca_key c)") (auto simp: queue_def)
  define ws where "ws = filter (\<lambda>w. wt_call w \<noteq> call) (sk_waiters k0)"
  define r where "r = p\<lparr>pl_calls := mdel call (pl_calls p),
    pl_keys := mput (ca_key c) (k0\<lparr>sk_waiters := ws\<rparr>) (pl_keys p), pl_queued := pl_queued p - 1\<rparr>"
  have dist: "distinct (map wt_call (sk_waiters k0))"
    using core k0 by (auto simp: slots_core_def queue_def dest!: spec [of _ "ca_key c"])
  then have len: "length (sk_waiters k0) = Suc (length ws)"
    unfolding ws_def using k0(2)
  proof (induction "sk_waiters k0" arbitrary: k0)
    case (Cons w l)
    then have eq: "sk_waiters k0 = w # l" by simp
    have "filter (\<lambda>w. wt_call w \<noteq> call) l = l" if "call \<notin> wt_call ` set l"
      using that by (auto simp: filter_id_conv)
    moreover have "call \<in> wt_call ` set l \<Longrightarrow> wt_call w \<noteq> call"
      using Cons.prems by (auto simp: eq)
    ultimately show ?case
      using Cons.hyps(1) [of "k0\<lparr>sk_waiters := l\<rparr>"] Cons.prems by (auto simp: eq)
  qed simp
  have que: "queue key' r = (if key' = ca_key c then ws else queue key' p)" for key'
    by (simp add: queue_def r_def)
  have "set ws \<subseteq> set (sk_waiters k0)" by (auto simp: ws_def)
  have wait: "call' \<in> wt_call ` set (queue key' r) \<longleftrightarrow> waits_for key' (mget (pl_calls r) call')" for key' call'
  proof -
    have "call' \<in> wt_call ` set (queue key' p) \<longleftrightarrow> waits_for key' (mget (pl_calls p) call')"
      using core by (simp add: slots_core_def)
    moreover have "waits_for key' (mget (pl_calls p) call) \<longleftrightarrow> key' = ca_key c"
      using c by (auto simp: waits_for_def)
    moreover have "queue (ca_key c) p = sk_waiters k0" using k0 by (simp add: queue_def)
    ultimately show ?thesis unfolding que by (auto simp: r_def ws_def waits_for_def)
  qed
  have held: "held key' r = held key' p" for key'
    using c by (simp add: held_def r_def msum_mdel [OF wf(2)] holds_slot_def)
  have use: "in_use_of key' r = in_use_of key' p" for key'
    using k0 by (simp add: in_use_of_def r_def)
  have d: "distinct (map wt_call (queue key' r))" for key'
    using core dist by (auto simp: que ws_def slots_core_def distinct_map_filter)
  have rel: "released_granted (pl_calls r)"
    using core by (auto simp: r_def released_granted_def slots_core_def)
  have "slots_core r"
    using core wf k0 len
    by (simp add: slots_core_def use held wait d rel) (simp add: r_def msum_mput [OF wf(1)])
  moreover have "active_but (ca_key c) r" using act by (auto simp: active_but_def keys_active_def r_def)
  moreover have "work_conserving r"
  proof -
    have "eligible r key' \<Longrightarrow> eligible p key'" for key'
      using k0(1) by (auto simp: eligible_def r_def limitLocked_def ws_def split: if_splits option.splits)
    moreover have "pl_in_use r = pl_in_use p" "pl_capacity r = pl_capacity p" by (simp_all add: r_def)
    ultimately show ?thesis using cons by (auto simp: work_conserving_def)
  qed
  moreover have "mget (pl_keys r) (ca_key c) = Some (k0\<lparr>sk_waiters := ws\<rparr>)" by (simp add: r_def)
  ultimately have "slots_ok (forgetIdleLocked (ca_key c) (k0\<lparr>sk_waiters := ws\<rparr>) r)"
    by (simp add: slots_ok_def forgetIdle_core forgetIdle_active forgetIdle_conserving)
  then show ?thesis
    using k0 by (simp add: removeWaiterLocked_def Let_def r_def ws_def)
qed

lemma cancel_ok:
  assumes "slots_ok p" "mget (pl_calls p) call = Some c" "\<not> ca_released c"
  shows "\<exists>p'. cancel call p = Some p' \<and> slots_ok p'"
proof (cases "ca_state c")
  case SlotWaiting
  then show ?thesis using removeWaiter_ok [OF assms(1,2)] assms(2) by (simp add: cancel_def)
next
  case SlotGranted
  have "\<exists>p'. releaseLocked (ca_key c) (p\<lparr>pl_calls := mdel call (pl_calls p)\<rparr>) = Some p' \<and> slots_ok p'"
    by (rule releaseLocked_ok [OF assms(1,2)]) (use SlotGranted assms in \<open>auto simp: holds_slot_def gives_up_def\<close>)
  then show ?thesis using SlotGranted assms(2) by (simp add: cancel_def)
qed (use assms in \<open>simp add: cancel_def\<close>)

lemma acquire_ok:
  assumes ok: "slots_ok p" and fresh: "mget (pl_calls p) call = None"
  shows "slots_ok (acquire cancelled call key p)"
proof (cases cancelled)
  case True
  then show ?thesis using ok by (simp add: acquire_def)
next
  case False
  have core: "slots_core p" and act: "keys_active p" using ok by (simp_all add: slots_ok_def)
  then have wf: "wf_map (pl_keys p)" "wf_map (pl_calls p)" by (simp_all add: slots_core_def)
  define k where "k = (case mget (pl_keys p) key of Some k \<Rightarrow> k
     | None \<Rightarrow> \<lparr>sk_in_use = 0, sk_last_grant = (case mget (pl_idle_grants p) key of None \<Rightarrow> 0 | Some g \<Rightarrow> g), sk_waiters = []\<rparr>)"
  define idle where "idle = (case mget (pl_keys p) key of Some _ \<Rightarrow> pl_idle_grants p | None \<Rightarrow> mdel key (pl_idle_grants p))"
  define w where "w = \<lparr>wt_call = call, wt_arrival = u64_succ (pl_arrivals p)\<rparr>"
  define r where "r = p\<lparr>pl_keys := mput key (k\<lparr>sk_waiters := sk_waiters k @ [w]\<rparr>) (pl_keys p),
    pl_idle_grants := idle, pl_arrivals := u64_succ (pl_arrivals p), pl_queued := pl_queued p + 1,
    pl_calls := mput call \<lparr>ca_key = key, ca_state = SlotWaiting, ca_released = False\<rparr> (pl_calls p)\<rparr>"
  have kq: "sk_waiters k = queue key p" and ku: "sk_in_use k = in_use_of key p"
    by (auto simp: k_def queue_def in_use_of_def split: option.splits)
  have que: "queue key' r = (if key' = key then queue key p @ [w] else queue key' p)" for key'
    by (simp add: queue_def r_def) (simp add: kq queue_def)
  have old: "call' \<in> wt_call ` set (queue key' p) \<longleftrightarrow> waits_for key' (mget (pl_calls p) call')" for key' call'
    using core by (simp add: slots_core_def)
  then have new: "call \<notin> wt_call ` set (queue key' p)" for key' using fresh by (simp add: waits_for_def)
  have wait: "call' \<in> wt_call ` set (queue key' r) \<longleftrightarrow> waits_for key' (mget (pl_calls r) call')" for key' call'
  proof (cases "call' = call")
    case True
    then have "waits_for key' (mget (pl_calls r) call') \<longleftrightarrow> key' = key" by (auto simp: r_def waits_for_def)
    moreover have "call \<in> wt_call ` set (queue key' r) \<longleftrightarrow> key' = key"
      unfolding que using new [of key'] by (simp add: w_def)
    ultimately show ?thesis using True by simp
  next
    case False
    then have "mget (pl_calls r) call' = mget (pl_calls p) call'" by (simp add: r_def)
    moreover have "call' \<in> wt_call ` set (queue key' r) \<longleftrightarrow> call' \<in> wt_call ` set (queue key' p)"
      unfolding que using False by (simp add: w_def)
    ultimately show ?thesis using old by simp
  qed
  have d: "distinct (map wt_call (queue key' r))" for key'
    using core new [of key] by (auto simp: que slots_core_def w_def)
  have held: "held key' r = held key' p" for key'
    using fresh by (simp add: held_def r_def msum_mput [OF wf(2)] holds_slot_def)
  have use: "in_use_of key' r = in_use_of key' p" for key'
    by (simp add: in_use_of_def r_def) (simp add: ku in_use_of_def)
  have rel: "released_granted (pl_calls r)"
    using core by (auto simp: r_def released_granted_def slots_core_def)
  have sums: "pl_in_use r = msum (\<lambda>_. sk_in_use) (pl_keys r)"
    "pl_queued r = msum (\<lambda>_ k. int (length (sk_waiters k))) (pl_keys r)"
    using core by (auto simp: r_def msum_mput [OF wf(1)] slots_core_def k_def split: option.splits)
  have "slots_core r"
    using core wf by (simp add: slots_core_def use held wait d rel sums [symmetric]) (simp add: r_def)
  moreover have "keys_active r" using act by (auto simp: keys_active_def r_def active_key_def)
  ultimately have "slots_ok (dispatchLocked r)" by (rule dispatchLocked_ok)
  then show ?thesis using False by (simp add: acquire_def enqueue_def r_def k_def idle_def w_def Let_def)
qed

lemma mget_fail_fold:
  "mget (fold (\<lambda>w. set_call_state (SlotFailed e) (wt_call w)) ws m) c =
    (if c \<in> wt_call ` set ws then map_option (ca_state_update (\<lambda>_. SlotFailed e)) (mget m c) else mget m c)"
proof (induction ws arbitrary: m)
  case (Cons w ws)
  then show ?case by (auto simp: mget_set_call_state option.map_comp comp_def intro: option.map_cong)
qed simp

lemma msum_fail_fold:
  assumes "wf_map m" "\<forall>w \<in> set ws. \<forall>r. mget m (wt_call w) = Some r \<longrightarrow> ca_state r \<noteq> SlotGranted"
  shows "wf_map (fold (\<lambda>w. set_call_state (SlotFailed e) (wt_call w)) ws m) \<and>
    msum (\<lambda>_ c. if holds_slot key c then 1 else 0) (fold (\<lambda>w. set_call_state (SlotFailed e) (wt_call w)) ws m) =
    msum (\<lambda>_ c. if holds_slot key c then 1 else 0) m"
  using assms
proof (induction ws arbitrary: m)
  case (Cons w ws)
  have "msum (\<lambda>_ c. if holds_slot key c then 1 else 0) (set_call_state (SlotFailed e) (wt_call w) m) =
      msum (\<lambda>_ c. if holds_slot key c then 1 else 0) m"
    using Cons.prems by (cases "mget m (wt_call w)")
      (auto simp: msum_set_call_state holds_slot_def, auto simp: set_call_state_def)
  moreover have "\<forall>w' \<in> set ws. \<forall>r. mget (set_call_state (SlotFailed e) (wt_call w) m) (wt_call w') = Some r \<longrightarrow>
      ca_state r \<noteq> SlotGranted"
    using Cons.prems by (auto simp: mget_set_call_state split: if_splits)
  ultimately show ?case using Cons.IH [of "set_call_state (SlotFailed e) (wt_call w) m"] Cons.prems(1) by simp
qed simp

lemma fail_ok:
  assumes ok: "slots_ok p"
  shows "slots_ok (FailWaiters key err p)"
proof (cases "mget (pl_keys p) key")
  case None
  then show ?thesis using ok by (simp add: FailWaiters_def Let_def)
next
  case (Some k0)
  have core: "slots_core p" and act: "keys_active p" and cons: "work_conserving p"
    using ok by (simp_all add: slots_ok_def)
  then have wf: "wf_map (pl_keys p)" "wf_map (pl_calls p)" by (simp_all add: slots_core_def)
  define e where "e = (case err of None \<Rightarrow> errSlotWaitFailed | Some e \<Rightarrow> e)"
  define m where "m = fold (\<lambda>w. set_call_state (SlotFailed e) (wt_call w)) (sk_waiters k0) (pl_calls p)"
  define r where "r = p\<lparr>pl_keys := mput key (k0\<lparr>sk_waiters := []\<rparr>) (pl_keys p),
    pl_queued := pl_queued p - int (length (sk_waiters k0)), pl_calls := m\<rparr>"
  have q0: "queue key p = sk_waiters k0" using Some by (simp add: queue_def)
  have old: "call' \<in> wt_call ` set (queue key' p) \<longleftrightarrow> waits_for key' (mget (pl_calls p) call')" for key' call'
    using core by (simp add: slots_core_def)
  have "\<forall>w \<in> set (sk_waiters k0). \<forall>r. mget (pl_calls p) (wt_call w) = Some r \<longrightarrow> ca_state r \<noteq> SlotGranted"
  proof (intro ballI allI impI)
    fix w r assume "w \<in> set (sk_waiters k0)" "mget (pl_calls p) (wt_call w) = Some r"
    then show "ca_state r \<noteq> SlotGranted" using old [of "wt_call w" key] q0 by (auto simp: waits_for_def)
  qed
  note sum = msum_fail_fold [OF wf(2) this, where e = e, folded m_def]
  have que: "queue key' r = (if key' = key then [] else queue key' p)" for key' by (simp add: queue_def r_def)
  have mg: "mget (pl_calls r) c = (if c \<in> wt_call ` set (sk_waiters k0)
      then map_option (ca_state_update (\<lambda>_. SlotFailed e)) (mget (pl_calls p) c) else mget (pl_calls p) c)" for c
    by (simp add: r_def m_def mget_fail_fold)
  have wait: "call' \<in> wt_call ` set (queue key' r) \<longleftrightarrow> waits_for key' (mget (pl_calls r) call')" for key' call'
  proof (cases "call' \<in> wt_call ` set (sk_waiters k0)")
    case True
    then have "waits_for key (mget (pl_calls p) call')" using old [of call' key] q0 by simp
    then have "\<not> waits_for key' (mget (pl_calls p) call')" if "key' \<noteq> key"
      using that by (auto simp: waits_for_def split: option.splits)
    then show ?thesis using True old [of call' key'] by (auto simp: que mg waits_for_def split: option.splits)
  next
    case False
    then show ?thesis using old [of call' key'] q0 by (auto simp: que mg)
  qed
  have held: "held key' r = held key' p" for key'
    using sum by (simp add: held_def r_def)
  have use: "in_use_of key' r = in_use_of key' p" for key' using Some by (simp add: in_use_of_def r_def)
  have d: "distinct (map wt_call (queue key' r))" for key' using core by (simp add: que slots_core_def)
  have rel: "released_granted (pl_calls r)"
    using core old [of _ key] q0
    by (auto simp: mg released_granted_def slots_core_def waits_for_def split: if_splits option.splits)
  have "slots_core r"
    using core wf Some sum
    by (simp add: slots_core_def use held wait d rel) (simp add: r_def msum_mput [OF wf(1)])
  moreover have "active_but key r" using act by (auto simp: active_but_def keys_active_def r_def)
  moreover have "work_conserving r"
  proof -
    have "eligible r key' \<Longrightarrow> eligible p key'" for key'
      by (auto simp: eligible_def r_def limitLocked_def split: if_splits option.splits)
    moreover have "pl_in_use r = pl_in_use p" "pl_capacity r = pl_capacity p" by (simp_all add: r_def)
    ultimately show ?thesis using cons by (auto simp: work_conserving_def)
  qed
  moreover have "mget (pl_keys r) key = Some (k0\<lparr>sk_waiters := []\<rparr>)" by (simp add: r_def)
  ultimately have "slots_ok (forgetIdleLocked key (k0\<lparr>sk_waiters := []\<rparr>) r)"
    by (simp add: slots_ok_def forgetIdle_core forgetIdle_active forgetIdle_conserving)
  then show ?thesis using Some by (simp add: FailWaiters_def Let_def r_def m_def e_def)
qed

lemma limits_core: "slots_core (p\<lparr>pl_capacity := max c 0, pl_cap_for := f\<rparr>) = slots_core (p\<lparr>pl_capacity := 0\<rparr>)"
  by (simp add: slots_core_def queue_def in_use_of_def held_def)

lemma capacity_ok:
  assumes "slots_ok p"
  shows "slots_ok (SetCapacity c f p)" "slots_ok (SetCaps f p)"
proof -
  have "slots_core (p\<lparr>pl_capacity := max c 0, pl_cap_for := f\<rparr>)" "slots_core (p\<lparr>pl_cap_for := f\<rparr>)"
    "keys_active (p\<lparr>pl_capacity := max c 0, pl_cap_for := f\<rparr>)" "keys_active (p\<lparr>pl_cap_for := f\<rparr>)"
    using assms by (simp_all add: slots_ok_def slots_core_def queue_def in_use_of_def held_def keys_active_def)
  then show "slots_ok (SetCapacity c f p)" "slots_ok (SetCaps f p)"
    by (simp_all add: SetCapacity_def SetCaps_def dispatchLocked_ok)
qed

lemma new_ok: "slots_ok (newSlotPool capacity capFor)"
  by (simp add: slots_ok_def slots_core_def newSlotPool_def queue_def in_use_of_def held_def waits_for_def
      keys_active_def work_conserving_def eligible_def released_granted_def)

lemma step_ok: "slot_step p p' \<Longrightarrow> slots_ok p \<Longrightarrow> slots_ok p'"
  by (erule slot_stepE) (use acquire_ok cancel_ok release_ok fail_ok capacity_ok in fastforce)+

lemma reach_ok: "slot_reach p \<Longrightarrow> slots_ok p"
  by (induction rule: slot_reach.induct) (auto simp: new_ok intro: step_ok)

section \<open>Properties\<close>

text \<open>
  C11: The counters of the pool are exact in every reachable state: the pool's totals are the
  sums over its keys, a key uses as many slots as calls hold one for it, its queue holds its
  waiting calls once each, and a key without slots and waiters is not kept.
\<close>

theorem counters_exact:
  assumes "slot_reach p"
  shows "pl_in_use p = msum (\<lambda>_. sk_in_use) (pl_keys p) \<and>
    pl_queued p = msum (\<lambda>_ k. int (length (sk_waiters k))) (pl_keys p) \<and>
    in_use_of key p = held key p \<and> distinct (map wt_call (queue key p)) \<and>
    (call \<in> wt_call ` set (queue key p) \<longleftrightarrow> waits_for key (mget (pl_calls p) call)) \<and>
    (mget (pl_keys p) key = Some k \<longrightarrow> sk_in_use k > 0 \<or> sk_waiters k \<noteq> [])"
proof -
  have ok: "slots_core p" "keys_active p" using reach_ok [OF assms] by (simp_all add: slots_ok_def)
  have "mget (pl_keys p) key = Some k \<Longrightarrow> sk_in_use k > 0 \<or> sk_waiters k \<noteq> []"
    using ok(2) in_use_nonneg [OF ok(1), of key k] by (fastforce simp: keys_active_def active_key_def)
  then show ?thesis using ok(1) by (simp add: slots_core_def)
qed

definition example_pool :: slot_pool where
  "example_pool = acquire False 1 ''b'' (acquire False 0 ''a'' (newSlotPool 1 None))"

lemma example_pool_calls [simp]: "mget (pl_calls (newSlotPool 1 None)) c = None"
  by (simp add: newSlotPool_def)

lemma u64_succ_eval: "u64_succ 0 = 1" "u64_succ 1 = 2" "u64_succ (Suc 0) = 2"
  by (simp_all add: u64_succ_def)

lemmas pool_eval = enqueue_def newSlotPool_def u64_succ_eval mput_def mdel_def pruneIdleGrantsLocked_def
  pick_def limitLocked_def slotLimit_def grant_def set_call_state_def

definition pool_a :: "int \<Rightarrow> (string \<Rightarrow> int) option \<Rightarrow> slot_pool" where
  "pool_a capacity caps =
    \<lparr>pl_capacity = capacity, pl_cap_for = caps, pl_in_use = 1, pl_queued = 0, pl_grants = 1, pl_arrivals = 1,
     pl_keys = [(''a'', \<lparr>sk_in_use = 1, sk_last_grant = 1, sk_waiters = []\<rparr>)], pl_idle_grants = [],
     pl_calls = [(0, \<lparr>ca_key = ''a'', ca_state = SlotGranted, ca_released = False\<rparr>)]\<rparr>"

lemma acquire_first:
  assumes "caps = None \<or> caps = Some (\<lambda>_. 1)" "1 \<le> capacity"
  shows "acquire False 0 ''a'' (newSlotPool capacity caps) = pool_a capacity caps"
proof -
  define q where "q = enqueue 0 ''a'' (newSlotPool capacity caps)"
  have q: "q = \<lparr>pl_capacity = capacity, pl_cap_for = caps, pl_in_use = 0, pl_queued = 1, pl_grants = 0, pl_arrivals = 1,
     pl_keys = [(''a'', \<lparr>sk_in_use = 0, sk_last_grant = 0, sk_waiters = [\<lparr>wt_call = 0, wt_arrival = 1\<rparr>]\<rparr>)],
     pl_idle_grants = [], pl_calls = [(0, \<lparr>ca_key = ''a'', ca_state = SlotWaiting, ca_released = False\<rparr>)]\<rparr>"
    using assms(2) by (simp add: q_def pool_eval)
  have g: "grant ''a'' q = pool_a capacity caps" by (simp add: q pool_eval pool_a_def)
  have "pick q = Some (''a'', 0, 1)" using assms by (auto simp: q pool_eval split: if_splits)
  moreover have "pick (grant ''a'' q) = None" unfolding g by (simp add: pool_a_def pool_eval)
  ultimately have "dispatchLoop q = grant ''a'' q"
    using assms(2) by (intro dispatchLoop_once) (simp_all add: g, simp_all add: q pool_a_def)
  then have "dispatchLocked q = pruneIdleGrantsLocked (pool_a capacity caps)"
    by (simp add: dispatchLocked_def g)
  then show ?thesis
    by (simp add: acquire_def q_def [symmetric] pruneIdleGrantsLocked_def pool_a_def)
qed

lemma example_pool2:
  "example_pool =
    \<lparr>pl_capacity = 1, pl_cap_for = None, pl_in_use = 1, pl_queued = 1, pl_grants = 1, pl_arrivals = 2,
     pl_keys = [(''a'', \<lparr>sk_in_use = 1, sk_last_grant = 1, sk_waiters = []\<rparr>),
       (''b'', \<lparr>sk_in_use = 0, sk_last_grant = 0, sk_waiters = [\<lparr>wt_call = 1, wt_arrival = 2\<rparr>]\<rparr>)],
     pl_idle_grants = [],
     pl_calls = [(0, \<lparr>ca_key = ''a'', ca_state = SlotGranted, ca_released = False\<rparr>),
       (1, \<lparr>ca_key = ''b'', ca_state = SlotWaiting, ca_released = False\<rparr>)]\<rparr>"
  by (simp add: example_pool_def acquire_first)
     (simp add: acquire_def pool_a_def pool_eval dispatchLocked_def dispatchLoop_full)

lemma example_reach: "slot_reach example_pool"
proof -
  have "slot_reach (acquire False 0 ''a'' (newSlotPool 1 None))"
    by (rule slot_reach.step [OF slot_reach.init slot_step.acquire]) simp
  then show ?thesis unfolding example_pool_def
    by (rule slot_reach.step [OF _ slot_step.acquire]) (simp add: acquire_first pool_a_def)
qed

theorem counters_exact_witness:
  "held ''a'' example_pool = 1 \<and> waits_for ''b'' (mget (pl_calls example_pool) 1)"
  using counters_exact [OF example_reach, of "''a''"] counters_exact [OF example_reach, of "''b''" 1]
  by (simp add: in_use_of_def queue_def example_pool2)

text \<open>
  C12: Work conservation. In no reachable state does a free slot coexist with a key that has a
  waiter and uses fewer slots than its limit.
\<close>

theorem no_idle_slot_with_eligible_waiter:
  assumes "slot_reach p" "pl_in_use p < pl_capacity p" "queue key p \<noteq> []"
  shows "in_use_of key p \<ge> limitLocked p key"
proof -
  have "\<not> eligible p key" using reach_ok [OF assms(1)] assms(2) by (simp add: slots_ok_def work_conserving_def)
  then show ?thesis
    using assms(3) by (cases "mget (pl_keys p) key") (auto simp: eligible_def queue_def in_use_of_def)
qed

definition capped_pool :: slot_pool where
  "capped_pool = acquire False 1 ''a'' (acquire False 0 ''a'' (newSlotPool 2 (Some (\<lambda>_. 1))))"

lemma capped_pool2:
  "capped_pool =
    \<lparr>pl_capacity = 2, pl_cap_for = Some (\<lambda>_. 1), pl_in_use = 1, pl_queued = 1, pl_grants = 1, pl_arrivals = 2,
     pl_keys = [(''a'', \<lparr>sk_in_use = 1, sk_last_grant = 1, sk_waiters = [\<lparr>wt_call = 1, wt_arrival = 2\<rparr>]\<rparr>)],
     pl_idle_grants = [],
     pl_calls = [(0, \<lparr>ca_key = ''a'', ca_state = SlotGranted, ca_released = False\<rparr>),
       (1, \<lparr>ca_key = ''a'', ca_state = SlotWaiting, ca_released = False\<rparr>)]\<rparr>"
proof -
  define q where "q = enqueue 1 ''a'' (pool_a 2 (Some (\<lambda>_. 1)))"
  have "pick q = None" by (simp add: q_def pool_a_def pool_eval)
  then have "dispatchLocked q = pruneIdleGrantsLocked q"
    by (simp add: dispatchLocked_def dispatchLoop_stop)
  moreover have "capped_pool = dispatchLocked q"
    unfolding q_def capped_pool_def by (subst acquire_first) (simp_all add: acquire_def)
  ultimately show ?thesis by (simp add: q_def pool_a_def pool_eval)
qed

lemma capped_reach: "slot_reach capped_pool"
proof -
  have "slot_reach (acquire False 0 ''a'' (newSlotPool 2 (Some (\<lambda>_. 1))))"
    by (rule slot_reach.step [OF slot_reach.init slot_step.acquire]) (simp add: newSlotPool_def)
  then show ?thesis unfolding capped_pool_def
    by (rule slot_reach.step [OF _ slot_step.acquire]) (simp add: acquire_first pool_a_def)
qed

theorem no_idle_slot_with_eligible_waiter_witness:
  "pl_in_use capped_pool < pl_capacity capped_pool \<and> in_use_of ''a'' capped_pool \<ge> limitLocked capped_pool ''a''"
  using no_idle_slot_with_eligible_waiter [OF capped_reach, of "''a''"]
  by (simp add: capped_pool2 queue_def)

text \<open>A call that does not wait is not touched by the dispatch loop.\<close>

lemma dispatchLoop_settled:
  assumes "slots_core p" "mget (pl_calls p) call = Some c" "ca_state c \<noteq> SlotWaiting"
  shows "mget (pl_calls (dispatchLoop p)) call = Some c"
proof -
  have "mget (pl_calls (grant key q)) call = Some c"
    if "slots_core q" "mget (pl_calls q) call = Some c" "mget (pl_keys q) key = Some k" "sk_waiters k = w # ws" for q key k w ws
  proof -
    have "waits_for key (mget (pl_calls q) (wt_call w))"
      using that(1,3,4) by (auto simp: slots_core_def queue_def dest!: spec [of _ key] spec [of _ "wt_call w"])
    then have "wt_call w \<noteq> call" using that(2) assms(3) by (auto simp: waits_for_def)
    then show ?thesis using that(2) by (simp add: grant_fields [OF that(3,4)] mget_set_call_state)
  qed
  then show ?thesis
    using dispatchLoop_inv [of p "\<lambda>q. mget (pl_calls q) call = Some c"] assms by blast
qed

text \<open>
  Releasing never fails. In a reachable state, the release function of every call that was
  granted a slot runs without dereferencing a missing key, and running it once more changes
  nothing.
\<close>

theorem release_never_panics_and_is_idempotent:
  assumes "slot_reach p" "acquire_result call p = Some (Inr ())"
  shows "\<exists>p'. release call p = Some p' \<and> release call p' = Some p' \<and> slot_reach p'"
proof -
  note ok = reach_ok [OF assms(1)]
  obtain p' where p': "release call p = Some p'" using release_ok [OF ok assms(2)] by blast
  have reach: "slot_reach p'" using slot_reach.step [OF assms(1) slot_step.release [OF assms(2) p']] .
  obtain c where c: "mget (pl_calls p) call = Some c" "ca_state c = SlotGranted"
    using assms(2) by (auto simp: acquire_result_def split: option.splits waiter_state.splits)
  have "release call p' = Some p'"
  proof (cases "ca_released c")
    case True
    then show ?thesis using p' c by (simp add: release_def)
  next
    case False
    define c' where "c' = c\<lparr>ca_released := True\<rparr>"
    define q where "q = p\<lparr>pl_calls := mput call c' (pl_calls p)\<rparr>"
    have rel: "releaseLocked (ca_key c) q = Some p'"
      using p' c False by (simp add: release_def q_def c'_def)
    then obtain k where k: "mget (pl_keys q) (ca_key c) = Some k"
      by (auto simp: releaseLocked_def split: option.splits)
    define r where "r = forgetIdleLocked (ca_key c) (k\<lparr>sk_in_use := sk_in_use k - 1\<rparr>)
      (q\<lparr>pl_keys := mput (ca_key c) (k\<lparr>sk_in_use := sk_in_use k - 1\<rparr>) (pl_keys q), pl_in_use := pl_in_use q - 1\<rparr>)"
    have r: "p' = dispatchLocked r" using rel k by (simp add: releaseLocked_def Let_def r_def)
    have "gives_up call c (pl_calls p) (mput call c' (pl_calls p))" by (simp add: gives_up_def c'_def)
    moreover have "slots_core p" using ok by (simp add: slots_ok_def)
    moreover have "holds_slot (ca_key c) c" using c False by (simp add: holds_slot_def)
    ultimately have "slots_core (q\<lparr>pl_keys := mput (ca_key c) (k\<lparr>sk_in_use := sk_in_use k - 1\<rparr>) (pl_keys q),
        pl_in_use := pl_in_use q - 1\<rparr>)"
      using taken_back_core [of p call c "ca_key c" _ k] c(1) k by (simp add: q_def)
    then have core: "slots_core r" unfolding r_def by (rule forgetIdle_core) simp
    have "mget (pl_calls r) call = Some c'" by (simp add: r_def q_def)
    then have "mget (pl_calls p') call = Some c'"
      using dispatchLoop_settled [OF core, of call c'] c by (simp add: r dispatchLocked_def c'_def)
    then show ?thesis by (simp add: release_def c'_def)
  qed
  then show ?thesis using p' reach by blast
qed

theorem release_never_panics_and_is_idempotent_witness:
  "\<exists>p'. release 0 example_pool = Some p' \<and> release 0 p' = Some p'"
  using release_never_panics_and_is_idempotent [OF example_reach, of 0]
  by (auto simp: acquire_result_def example_pool2)

subsection \<open>Limits\<close>

definition within :: "slot_pool \<Rightarrow> slot_pool \<Rightarrow> bool" where
  "within p q \<longleftrightarrow> pl_in_use q \<le> max (pl_in_use p) (pl_capacity q) \<and>
     (\<forall>key. in_use_of key q \<le> max (in_use_of key p) (limitLocked q key))"

lemma limit_dispatch [simp]: "limitLocked (dispatchLoop p) key = limitLocked p key"
  by (simp add: limitLocked_def split: option.split)

lemma limit_grant [simp]: "limitLocked (grant key' p) key = limitLocked p key"
  by (simp add: limitLocked_def split: option.split)

lemma dispatchLoop_within: "wf_map (pl_keys p) \<Longrightarrow> within p (dispatchLoop p)"
proof (induction p rule: dispatchLoop.induct)
  case (1 p)
  show ?case
  proof (cases "pl_in_use p < pl_capacity p \<and> pick p \<noteq> None")
    case False
    then have "dispatchLoop p = p" by (cases "pick p") (auto simp: dispatchLoop_step [OF "1.prems"])
    then show ?thesis by (simp add: within_def)
  next
    case True
    then obtain key g a where pk: "pick p = Some (key, g, a)" by auto
    then have el: "eligible p key" using pick_Some [OF "1.prems" pk] by simp
    then obtain k w ws where k: "mget (pl_keys p) key = Some k" "sk_waiters k = w # ws" "sk_in_use k < limitLocked p key"
      by (cases "mget (pl_keys p) key") (auto simp: eligible_def neq_Nil_conv)
    have wf: "wf_map (pl_keys (grant key p))" using "1.prems" by (simp add: grant_fields [OF k(1,2)])
    have "within (grant key p) (dispatchLoop (grant key p))"
      using "1.IH" [OF _ pk refl refl _ wf] True grant_fields(3) [OF k(1,2)] by auto
    moreover have "in_use_of key' (grant key p) \<le> max (in_use_of key' p) (limitLocked p key')" for key'
      using k by (auto simp: in_use_of_def grant_fields [OF k(1,2)])
    moreover have "pl_in_use (grant key p) \<le> pl_capacity p" using True grant_fields(3) [OF k(1,2)] by simp
    ultimately have "within p (dispatchLoop (grant key p))"
      unfolding within_def by (fastforce simp: max_def split: if_splits)
    then show ?thesis using True pk by (simp add: dispatchLoop_step [OF "1.prems"])
  qed
qed

lemma dispatchLocked_within: "wf_map (pl_keys p) \<Longrightarrow> within p (dispatchLocked p)"
  using dispatchLoop_within [of p] by (simp add: within_def dispatchLocked_def)

lemma within_less:
  assumes "within r q" "pl_in_use r \<le> pl_in_use p" "\<And>key. in_use_of key r \<le> in_use_of key p"
  shows "within p q"
  using assms unfolding within_def by (meson max.mono order.refl order.trans)

lemma forgetIdle_use: "mget (pl_keys p) key = Some k \<Longrightarrow> in_use_of key' (forgetIdleLocked key k p) = in_use_of key' p"
  by (auto simp: forgetIdleLocked_def in_use_of_def)

lemma forgetIdle_wf: "wf_map (pl_keys p) \<Longrightarrow> wf_map (pl_keys (forgetIdleLocked key k p))"
  by (simp add: forgetIdleLocked_def)

lemma releaseLocked_within:
  assumes "wf_map (pl_keys p)" "releaseLocked key (p\<lparr>pl_calls := m\<rparr>) = Some p'"
  shows "within p p'"
proof -
  obtain k0 where k0: "mget (pl_keys p) key = Some k0" using assms(2) by (auto simp: releaseLocked_def split: option.splits)
  define k where "k = k0\<lparr>sk_in_use := sk_in_use k0 - 1\<rparr>"
  define q where "q = p\<lparr>pl_calls := m, pl_keys := mput key k (pl_keys p), pl_in_use := pl_in_use p - 1\<rparr>"
  have p': "p' = dispatchLocked (forgetIdleLocked key k q)"
    using assms(2) k0 by (simp add: releaseLocked_def Let_def k_def q_def)
  have "mget (pl_keys q) key = Some k" by (simp add: q_def)
  then have "in_use_of key' (forgetIdleLocked key k q) \<le> in_use_of key' p" for key'
    using k0 by (simp add: forgetIdle_use) (simp add: in_use_of_def q_def k_def)
  moreover have "wf_map (pl_keys (forgetIdleLocked key k q))" by (rule forgetIdle_wf) (simp add: q_def assms(1))
  moreover have "pl_in_use (forgetIdleLocked key k q) \<le> pl_in_use p" by (simp add: q_def)
  ultimately show ?thesis unfolding p' using dispatchLocked_within within_less by blast
qed

lemma removeWaiter_within:
  assumes "removeWaiterLocked key call (p\<lparr>pl_calls := m\<rparr>) = Some p'"
  shows "within p p'"
proof -
  obtain k0 where k0: "mget (pl_keys p) key = Some k0" using assms by (auto simp: removeWaiterLocked_def split: option.splits)
  define k where "k = k0\<lparr>sk_waiters := filter (\<lambda>w. wt_call w \<noteq> call) (sk_waiters k0)\<rparr>"
  define q where "q = p\<lparr>pl_calls := m, pl_keys := mput key k (pl_keys p), pl_queued := pl_queued p - 1\<rparr>"
  have p': "p' = forgetIdleLocked key k q" using assms k0 by (simp add: removeWaiterLocked_def Let_def k_def q_def)
  have "in_use_of key' p' = in_use_of key' p" for key'
    unfolding p' using k0 by (subst forgetIdle_use) (simp_all add: q_def in_use_of_def k_def)
  moreover have "pl_in_use p' = pl_in_use p" by (simp add: p' q_def)
  ultimately show ?thesis by (simp add: within_def)
qed

lemma fail_within: "within p (FailWaiters key err p)"
proof (cases "mget (pl_keys p) key")
  case (Some k0)
  define e where "e = (case err of None \<Rightarrow> errSlotWaitFailed | Some e \<Rightarrow> e)"
  define k where "k = k0\<lparr>sk_waiters := []\<rparr>"
  define q where "q = p\<lparr>pl_keys := mput key k (pl_keys p), pl_queued := pl_queued p - int (length (sk_waiters k0)),
    pl_calls := fold (\<lambda>w. set_call_state (SlotFailed e) (wt_call w)) (sk_waiters k0) (pl_calls p)\<rparr>"
  have f: "FailWaiters key err p = forgetIdleLocked key k q"
    using Some by (simp add: FailWaiters_def Let_def k_def q_def e_def)
  have "in_use_of key' (forgetIdleLocked key k q) = in_use_of key' p" for key'
    using Some by (subst forgetIdle_use) (simp_all add: q_def in_use_of_def k_def)
  then show ?thesis by (simp add: f within_def) (simp add: q_def)
qed (simp add: FailWaiters_def within_def)

lemma enqueue_use: "in_use_of key' (enqueue call key p) = in_use_of key' p"
  by (simp add: enqueue_def Let_def in_use_of_def split: option.split)

lemma acquire_within: "wf_map (pl_keys p) \<Longrightarrow> within p (acquire cancelled call key p)"
proof -
  assume wf: "wf_map (pl_keys p)"
  have "within (enqueue call key p) (dispatchLocked (enqueue call key p))"
    by (rule dispatchLocked_within) (simp add: wf enqueue_def Let_def)
  then have "within p (dispatchLocked (enqueue call key p))"
    by (rule within_less) (simp_all add: enqueue_use, simp add: enqueue_def Let_def)
  then show ?thesis by (simp add: acquire_def within_def)
qed

lemma step_within:
  assumes "slot_step p p'" "wf_map (pl_keys p)"
  shows "within p p'"
  using assms(1)
proof (cases rule: slot_step.cases)
  case (cancel call c)
  then show ?thesis using assms(2) removeWaiter_within releaseLocked_within
    by (auto simp: cancel_def within_def split: waiter_state.splits)
next
  case (release call)
  then show ?thesis using assms(2) releaseLocked_within
    by (auto simp: release_def within_def split: option.splits if_splits)
next
  case (capacity c f)
  have "within (p\<lparr>pl_capacity := max c 0, pl_cap_for := f\<rparr>) p'"
    unfolding capacity SetCapacity_def by (rule dispatchLocked_within) (simp add: assms(2))
  then show ?thesis by (rule within_less) (simp_all add: in_use_of_def)
next
  case (caps f)
  have "within (p\<lparr>pl_cap_for := f\<rparr>) p'"
    unfolding caps SetCaps_def by (rule dispatchLocked_within) (simp add: assms(2))
  then show ?thesis by (rule within_less) (simp_all add: in_use_of_def)
qed (simp_all add: assms(2) acquire_within fail_within)

text \<open>
  Limits. No operation grants a slot beyond the pool's capacity or beyond the limit of a
  key: afterwards either is exceeded only as far as it was exceeded before, which a lowered
  limit may cause, because running scans are not stopped.
\<close>

theorem operations_respect_limits:
  assumes "slot_reach p" "slot_step p p'"
  shows "pl_in_use p' \<le> max (pl_in_use p) (pl_capacity p') \<and>
    in_use_of key p' \<le> max (in_use_of key p) (limitLocked p' key)"
  using step_within [OF assms(2)] reach_ok [OF assms(1)] by (simp add: slots_ok_def slots_core_def within_def)

theorem operations_respect_limits_witness:
  "in_use_of ''a'' (SetCaps None capped_pool) \<le> max 1 (limitLocked (SetCaps None capped_pool) ''a'')"
  using operations_respect_limits [OF capped_reach slot_step.caps [where capFor = None], of "''a''"]
  by (simp add: in_use_of_def capped_pool2)

subsection \<open>Turns\<close>

definition unwrapped :: "slot_pool \<Rightarrow> bool" where
  "unwrapped p \<longleftrightarrow> int (pl_grants p) + pl_queued p < 2 ^ 64"

definition turns_so_far :: "slot_pool \<Rightarrow> string \<Rightarrow> slot_key \<Rightarrow> string \<Rightarrow> slot_key \<Rightarrow> slot_pool \<Rightarrow> bool" where
  "turns_so_far p K k J j q \<longleftrightarrow>
     unwrapped q \<and> pl_grants p \<le> pl_grants q \<and> (\<forall>key. limitLocked q key = limitLocked p key) \<and>
     length (queue K q) \<le> length (queue K p) \<and>
     (length (queue K q) = length (queue K p) \<longrightarrow> mget (pl_keys q) K = Some k \<and>
        (mget (pl_keys q) J = Some j \<or>
         (\<exists>j'. mget (pl_keys q) J = Some j' \<and> sk_in_use j' = sk_in_use j + 1 \<and> turn j \<le> turn k \<and>
               sk_last_grant k < sk_last_grant j')))"

lemma grant_turns:
  assumes st: "turns_so_far p K k J j q" and core: "slots_core q"
    and h: "mget (pl_keys q) key = Some h" "sk_waiters h = w # ws"
    and least: "\<And>key' k'. mget (pl_keys q) key' = Some k' \<Longrightarrow> eligible q key' \<Longrightarrow> turn h \<le> turn k'"
    and K: "eligible p K" "mget (pl_keys p) K = Some k" "sk_last_grant k \<le> pl_grants p" "J \<noteq> K"
  shows "turns_so_far p K k J j (grant key q)"
proof -
  note f = grant_fields [OF h]
  have "int (length (sk_waiters h)) \<le> pl_queued q"
    using msum_single [where f = "\<lambda>_ k. int (length (sk_waiters k))" and m = "pl_keys q", OF _ _ h(1)] core
    by (simp add: slots_core_def)
  then have "1 \<le> pl_queued q" using h(2) by simp
  then have g: "pl_grants (grant key q) = pl_grants q + 1"
    using st by (simp add: f u64_succ_def turns_so_far_def unwrapped_def)
  have un: "unwrapped (grant key q)" using st by (simp add: unwrapped_def g f turns_so_far_def)
  have len: "length (queue K (grant key q)) = length (queue K q) - (if K = key then 1 else 0)"
    using h by (simp add: queue_def f)
  show ?thesis
  proof (cases "key = K")
    case True
    then have "length (queue K (grant key q)) < length (queue K p)"
      using h len st by (auto simp: turns_so_far_def queue_def)
    then show ?thesis using st un g by (simp add: turns_so_far_def)
  next
    case False
    show ?thesis
    proof (cases "length (queue K q) = length (queue K p) \<and> key = J")
      case False
      then show ?thesis using st un g len \<open>key \<noteq> K\<close> by (auto simp: turns_so_far_def f)
    next
      case True
      then have qK: "mget (pl_keys q) K = Some k" using st by (simp add: turns_so_far_def)
      then have "eligible q K" using K st by (simp add: eligible_def turns_so_far_def)
      then have t: "turn h \<le> turn k" using least qK by blast
      then have "sk_last_grant h \<le> sk_last_grant k" by (auto simp: turn_def)
      then have "mget (pl_keys q) J = Some j" "h = j" using st True h(1) by (auto simp: turns_so_far_def)
      moreover have "key = J" using True by simp
      note fJ = f [unfolded this] and unJ = un [unfolded this] and gJ = g [unfolded this] and lenJ = len [unfolded this]
      have "u64_succ (pl_grants q) = pl_grants q + 1" using g f(5) by simp
      ultimately show ?thesis
        using st unJ gJ lenJ K t qK unfolding \<open>key = J\<close> by (auto simp: turns_so_far_def fJ)
    qed
  qed
qed

text \<open>
  C13: Turns. While a key can take a slot and gets none, a dispatch gives every other key at most
  one slot, and only if that key was granted a slot less recently, or as recently (never) with
  an older waiter; afterwards that key's last grant is the more recent one, so the next turn is
  not its own. The counters must not wrap.
\<close>

theorem dispatch_takes_turns:
  assumes "slots_core p" "unwrapped p"
    and "eligible p K" "mget (pl_keys p) K = Some k" "sk_last_grant k \<le> pl_grants p"
    and "J \<noteq> K" "mget (pl_keys p) J = Some j"
    and "queue K (dispatchLocked p) = queue K p"
  shows "in_use_of J (dispatchLocked p) = in_use_of J p \<or>
    (in_use_of J (dispatchLocked p) = in_use_of J p + 1 \<and> turn j \<le> turn k \<and>
     (\<exists>j'. mget (pl_keys (dispatchLocked p)) J = Some j' \<and> sk_last_grant k < sk_last_grant j'))"
proof -
  have "turns_so_far p K k J j p" using assms by (simp add: turns_so_far_def)
  then have "turns_so_far p K k J j (dispatchLoop p)"
    using dispatchLoop_inv [of p "turns_so_far p K k J j"] grant_turns assms by blast
  then show ?thesis
    using assms(7,8) by (auto simp: turns_so_far_def dispatchLocked_def queue_def in_use_of_def)
qed

definition two_waiting :: slot_pool where
  "two_waiting = \<lparr>pl_capacity = 1, pl_cap_for = None, pl_in_use = 0, pl_queued = 2, pl_grants = 5, pl_arrivals = 7,
     pl_keys = [(''a'', \<lparr>sk_in_use = 0, sk_last_grant = 5, sk_waiters = [\<lparr>wt_call = 0, wt_arrival = 6\<rparr>]\<rparr>),
       (''b'', \<lparr>sk_in_use = 0, sk_last_grant = 3, sk_waiters = [\<lparr>wt_call = 1, wt_arrival = 7\<rparr>]\<rparr>)],
     pl_idle_grants = [],
     pl_calls = [(0, \<lparr>ca_key = ''a'', ca_state = SlotWaiting, ca_released = False\<rparr>),
       (1, \<lparr>ca_key = ''b'', ca_state = SlotWaiting, ca_released = False\<rparr>)]\<rparr>"

lemma two_waiting_core: "slots_core two_waiting"
  by (auto simp: slots_core_def two_waiting_def in_use_of_def held_def holds_slot_def queue_def
      waits_for_def released_granted_def split: if_splits)

lemma two_waiting_dispatch:
  "dispatchLocked two_waiting = grant ''b'' two_waiting"
proof -
  have "pick two_waiting = Some (''b'', 3, 7)"
    by (simp add: two_waiting_def pick_def limitLocked_def)
  then have "dispatchLoop two_waiting = grant ''b'' two_waiting"
    by (rule dispatchLoop_once) (simp_all add: two_waiting_def grant_def Let_def)
  then show ?thesis
    by (simp add: dispatchLocked_def pruneIdleGrantsLocked_def) (simp add: two_waiting_def grant_def Let_def)
qed

theorem dispatch_takes_turns_witness:
  "in_use_of ''b'' (dispatchLocked two_waiting) = 0 + 1 \<and> queue ''a'' (dispatchLocked two_waiting) = queue ''a'' two_waiting"
  using dispatch_takes_turns [OF two_waiting_core, of "''a''" _ "''b''"]
  unfolding two_waiting_dispatch
  by (simp add: two_waiting_def unwrapped_def eligible_def limitLocked_def queue_def in_use_of_def grant_def
      Let_def mput_def u64_succ_def)

lemma oldestActive_le: "(key, k) \<in> set (pl_keys p) \<Longrightarrow> oldestActive p \<le> sk_last_grant k"
proof -
  have "fold (\<lambda>(_, k) o'. if sk_last_grant k < o' then sk_last_grant k else o') ks o1 \<le> o1 \<and>
      (\<forall>(key, k) \<in> set ks. fold (\<lambda>(_, k) o'. if sk_last_grant k < o' then sk_last_grant k else o') ks o1 \<le> sk_last_grant k)"
    for ks :: "(string \<times> slot_key) list" and o1
  proof (induction ks arbitrary: o1)
    case (Cons e ks)
    obtain a b where e: "e = (a, b)" by (cases e)
    show ?case using Cons [of "if sk_last_grant b < o1 then sk_last_grant b else o1"] by (auto simp: e split: if_splits)
  qed simp
  then show "(key, k) \<in> set (pl_keys p) \<Longrightarrow> ?thesis" unfolding oldestActive_def by blast
qed

lemma mget_filter_val:
  "wf_map m \<Longrightarrow> mget (filter (\<lambda>(_, v). P v) m) k =
     (case mget m k of None \<Rightarrow> None | Some v \<Rightarrow> if P v then Some v else None)"
proof (induction m)
  case (Cons e m)
  obtain a b where e: "e = (a, b)" by (cases e)
  have "mget m a = None" using Cons.prems by (simp add: e mget_eq_None)
  then show ?case using Cons by (auto simp: e split: option.splits)
qed simp

text \<open>
  Forgetting the age of an idle key is harmless. Pruning keeps the last grant of every idle
  key unless all active keys were granted a slot more recently, so that the key comes before
  all of them with or without its age; and a key that queues again resumes the age that is
  kept for it.
\<close>

theorem pruning_keeps_the_order:
  assumes "wf_map (pl_idle_grants p)" "mget (pl_idle_grants p) J = Some g"
  shows "(mget (pl_idle_grants (pruneIdleGrantsLocked p)) J = Some g \<or>
     (mget (pl_idle_grants (pruneIdleGrantsLocked p)) J = None \<and>
      (\<forall>K k. mget (pl_keys p) K = Some k \<longrightarrow> g < sk_last_grant k))) \<and>
    (mget (pl_keys p) J = None \<longrightarrow>
     (\<exists>j. mget (pl_keys (enqueue call J p)) J = Some j \<and> sk_last_grant j = g \<and>
          mget (pl_idle_grants (enqueue call J p)) J = None))"
proof -
  have f: "mget (filter (\<lambda>(_, g). \<not> g < a) (pl_idle_grants p)) J = (if g < a then None else Some g)" for a
    using mget_filter_val [OF assms(1), of "\<lambda>g. \<not> g < a" J] assms(2) by simp
  have "g < oldestActive p \<Longrightarrow> mget (pl_keys p) K = Some k \<Longrightarrow> g < sk_last_grant k" for K k
    using oldestActive_le [OF mget_SomeD, of p K k] by linarith
  then show ?thesis
    using assms f by (auto simp: pruneIdleGrantsLocked_def enqueue_def Let_def)
qed

theorem pruning_keeps_the_order_witness:
  "mget (pl_idle_grants (pruneIdleGrantsLocked (two_waiting\<lparr>pl_idle_grants := [(''c'', 4)]\<rparr>))) ''c'' = Some 4"
proof -
  have "mget (pl_keys (two_waiting\<lparr>pl_idle_grants := [(''c'', 4)]\<rparr>)) ''b'' =
      Some \<lparr>sk_in_use = 0, sk_last_grant = 3, sk_waiters = [\<lparr>wt_call = 1, wt_arrival = 7\<rparr>]\<rparr>"
    by (simp add: two_waiting_def)
  then show ?thesis
    using pruning_keeps_the_order [of "two_waiting\<lparr>pl_idle_grants := [(''c'', 4)]\<rparr>" "''c''" 4] by fastforce
qed

end
