(* ===== verification/Permissions.thy ===== *)
theory Permissions
  imports Prelude
begin

text \<open>
  \<open>internal/auth/permissions.go\<close>: the table of what each role may do, the list of
  permissions that the API returns, and the check that every request passes. The role
  names are the constants of \<open>internal/store/users.go\<close> and \<open>tenancy.go\<close>.
\<close>

section \<open>Roles and permissions\<close>

definition RoleAdministrator :: string where "RoleAdministrator = ''administrator''"
definition RoleOperator :: string where "RoleOperator = ''operator''"
definition RoleViewer :: string where "RoleViewer = ''viewer''"
definition RolePlatformAdmin :: string where "RolePlatformAdmin = ''platform_admin''"

lemmas role_defs = RoleAdministrator_def RoleOperator_def RoleViewer_def RolePlatformAdmin_def

definition PermissionDenied :: string where "PermissionDenied = ''__edgewatch_permission_denied__''"
definition PermissionNotificationsRead :: string where "PermissionNotificationsRead = ''notifications.read''"
definition PermissionAccountSelf :: string where "PermissionAccountSelf = ''account.self''"

text \<open>Every other constant appears once per role below, by its text.\<close>

definition administrator_permissions :: "(string, bool) gomap" where
  "administrator_permissions =
    [(''overview.read'', True), (''jobs.read'', True), (''jobs.write'', True),
     (''jobs.run'', True), (''jobs.delete'', True), (''hosts.read'', True), (''scans.read'', True),
     (''baselines.read'', True), (''baselines.manage'', True),
     (''incidents.read'', True), (''incidents.manage'', True),
     (''notification_options.read'', True),
     (''notifications.manage'', True), (''users.manage'', True),
     (''public_dashboard.manage'', True), (''stream.read'', True),
     (''scanner_profiles.read'', True), (''scanner_profiles.manage'', True),
     (''perimeter.read'', True), (''perimeter.manage'', True),
     (''audit.read'', True),
     (PermissionAccountSelf, True)]"

definition operator_permissions :: "(string, bool) gomap" where
  "operator_permissions =
    [(''overview.read'', True), (''jobs.read'', True), (''jobs.write'', True),
     (''jobs.run'', True), (''hosts.read'', True), (''scans.read'', True),
     (''baselines.read'', True), (''baselines.manage'', True),
     (''incidents.read'', True), (''incidents.manage'', True),
     (''notification_options.read'', True), (''stream.read'', True),
     (''scanner_profiles.read'', True), (''perimeter.read'', True),
     (PermissionAccountSelf, True)]"

definition viewer_permissions :: "(string, bool) gomap" where
  "viewer_permissions =
    [(''jobs.read'', True), (''baselines.read'', True), (PermissionAccountSelf, True)]"

definition platform_permissions :: "(string, bool) gomap" where
  "platform_permissions =
    [(''units.manage'', True), (''unit_accounts.manage'', True),
     (''platform_audit.read'', True), (''platform_notifications.manage'', True),
     (''platform_status.read'', True),
     (PermissionAccountSelf, True)]"

definition rolePermissions :: "(string, (string, bool) gomap) gomap" where
  "rolePermissions =
    [(RoleAdministrator, administrator_permissions), (RoleOperator, operator_permissions),
     (RoleViewer, viewer_permissions), (RolePlatformAdmin, platform_permissions)]"

text \<open>\<open>rolePermissions[role]\<close> of an unknown role is the nil map.\<close>

definition permissions_of :: "string \<Rightarrow> (string, bool) gomap" where
  "permissions_of role = (case mget rolePermissions role of None \<Rightarrow> [] | Some m \<Rightarrow> m)"

definition granted :: "string \<Rightarrow> string \<Rightarrow> bool" where
  "granted role permission = (case mget (permissions_of role) permission of None \<Rightarrow> False | Some b \<Rightarrow> b)"

text \<open>The two fields of \<open>store.Session\<close> that the checks read.\<close>

record session =
  se_role :: string
  se_totp_enrollment_required :: bool

definition PermissionsForRole :: "string \<Rightarrow> string list" where
  "PermissionsForRole role = sort (mkeys (permissions_of role))"

definition PermissionsForSession :: "session \<Rightarrow> string list" where
  "PermissionsForSession s =
     (if se_totp_enrollment_required s
      then (if granted (se_role s) PermissionAccountSelf then [PermissionAccountSelf] else [])
      else PermissionsForRole (se_role s))"

definition HasPermission :: "session \<Rightarrow> string \<Rightarrow> bool" where
  "HasPermission s permission =
     (if se_totp_enrollment_required s \<and> permission \<noteq> PermissionAccountSelf then False
      else granted (se_role s) permission)"

section \<open>Facts\<close>

lemmas row_defs = administrator_permissions_def operator_permissions_def
  viewer_permissions_def platform_permissions_def PermissionAccountSelf_def

lemma roles_distinct [simp]:
  "RoleAdministrator \<noteq> RoleOperator" "RoleAdministrator \<noteq> RoleViewer" "RoleAdministrator \<noteq> RolePlatformAdmin"
  "RoleOperator \<noteq> RoleViewer" "RoleOperator \<noteq> RolePlatformAdmin" "RoleViewer \<noteq> RolePlatformAdmin"
  by (simp_all add: role_defs)

lemma permissions_of_role [simp]:
  "permissions_of RoleAdministrator = administrator_permissions"
  "permissions_of RoleOperator = operator_permissions"
  "permissions_of RoleViewer = viewer_permissions"
  "permissions_of RolePlatformAdmin = platform_permissions"
  by (simp_all add: permissions_of_def rolePermissions_def roles_distinct [symmetric])

lemma permissions_of_cases:
  "permissions_of role \<in> {administrator_permissions, operator_permissions, viewer_permissions,
     platform_permissions, []}"
  by (simp add: permissions_of_def rolePermissions_def)

lemma permissions_of_known:
  "role = RoleAdministrator \<and> permissions_of role = administrator_permissions \<or>
   role = RoleOperator \<and> permissions_of role = operator_permissions \<or>
   role = RoleViewer \<and> permissions_of role = viewer_permissions \<or>
   role = RolePlatformAdmin \<and> permissions_of role = platform_permissions \<or>
   role \<notin> {RoleAdministrator, RoleOperator, RoleViewer, RolePlatformAdmin} \<and> permissions_of role = []"
  by (simp add: permissions_of_def rolePermissions_def)

lemma wf_permissions: "wf_map (permissions_of role)"
  using permissions_of_cases [of role] by (auto simp: row_defs)

lemma all_true: "(p, b) \<in> set (permissions_of role) \<Longrightarrow> b"
  using permissions_of_cases [of role] by (auto simp: row_defs)

lemma granted_iff: "granted role p \<longleftrightarrow> p \<in> set (mkeys (permissions_of role))"
proof -
  have "granted role p \<longleftrightarrow> (p, True) \<in> set (permissions_of role)"
    using mget_eq_Some_mem [OF wf_permissions, of role p] all_true [of p _ role]
    by (auto simp: granted_def split: option.splits)
  also have "\<dots> \<longleftrightarrow> p \<in> set (mkeys (permissions_of role))"
    using all_true [of p _ role] by (force simp: mkeys_def)
  finally show ?thesis .
qed

text \<open>A subset of keys is a subset of rights.\<close>

lemma granted_mono:
  "set (mkeys (permissions_of r1)) \<subseteq> set (mkeys (permissions_of r2)) \<Longrightarrow> granted r1 p \<Longrightarrow> granted r2 p"
  by (auto simp: granted_iff)

section \<open>Properties\<close>

text \<open>
  The list that the API returns for a session and the check that it enforces agree: a
  session has a permission exactly when the permission is in its list, whether or not the
  session must still enrol its second factor, and the list is sorted and has no duplicate.
\<close>

theorem listed_permissions_are_enforced:
  "(HasPermission s p \<longleftrightarrow> p \<in> set (PermissionsForSession s)) \<and>
   sorted (PermissionsForSession s) \<and> distinct (PermissionsForSession s)"
  using wf_permissions [of "se_role s"]
  by (auto simp: HasPermission_def PermissionsForSession_def PermissionsForRole_def granted_iff mkeys_def)

text \<open>
  The roles of a unit are ordered: a viewer may do nothing that an operator may not, and an
  operator nothing that an administrator may not, whether the session must enrol or not. The
  platform administrator shares only the self-service of its own account with any of them.
\<close>

theorem roles_are_ordered:
  "(HasPermission \<lparr>se_role = RoleViewer, se_totp_enrollment_required = e\<rparr> p \<longrightarrow>
      HasPermission \<lparr>se_role = RoleOperator, se_totp_enrollment_required = e\<rparr> p) \<and>
   (HasPermission \<lparr>se_role = RoleOperator, se_totp_enrollment_required = e\<rparr> p \<longrightarrow>
      HasPermission \<lparr>se_role = RoleAdministrator, se_totp_enrollment_required = e\<rparr> p) \<and>
   (HasPermission \<lparr>se_role = RolePlatformAdmin, se_totp_enrollment_required = e\<rparr> p \<and>
    HasPermission \<lparr>se_role = RoleAdministrator, se_totp_enrollment_required = e\<rparr> p \<longrightarrow>
      p = PermissionAccountSelf)"
proof -
  have "granted RoleViewer p \<Longrightarrow> granted RoleOperator p"
    by (erule granted_mono [rotated]) (simp add: row_defs mkeys_def)
  moreover have "granted RoleOperator p \<Longrightarrow> granted RoleAdministrator p"
    by (erule granted_mono [rotated]) (simp add: row_defs mkeys_def)
  moreover have "granted RolePlatformAdmin p \<Longrightarrow> granted RoleAdministrator p \<Longrightarrow> p = PermissionAccountSelf"
    unfolding granted_iff by (auto simp: row_defs mkeys_def)
  ultimately show ?thesis by (auto simp: HasPermission_def)
qed

theorem roles_are_ordered_witness:
  "HasPermission \<lparr>se_role = RoleOperator, se_totp_enrollment_required = False\<rparr> ''jobs.read''"
  using roles_are_ordered [of False "''jobs.read''"]
  by (simp add: HasPermission_def granted_def viewer_permissions_def PermissionAccountSelf_def)

text \<open>
  C14: Nothing is granted by accident. No session holds the permission that the gate asks of a
  request without a route, an unknown role holds nothing, a session that must enrol holds
  nothing but its own account's self-service, and only an administrator manages accounts.
\<close>

theorem nothing_granted_by_accident:
  "\<not> HasPermission s PermissionDenied \<and>
   (se_role s \<notin> {RoleAdministrator, RoleOperator, RoleViewer, RolePlatformAdmin} \<longrightarrow> \<not> HasPermission s p) \<and>
   (se_totp_enrollment_required s \<and> HasPermission s p \<longrightarrow> p = PermissionAccountSelf) \<and>
   (HasPermission s ''users.manage'' \<longrightarrow> se_role s = RoleAdministrator \<and> \<not> se_totp_enrollment_required s)"
proof -
  have "\<not> granted (se_role s) PermissionDenied"
    using permissions_of_cases [of "se_role s"] by (auto simp: granted_iff mkeys_def row_defs PermissionDenied_def)
  moreover have "granted (se_role s) ''users.manage'' \<Longrightarrow> se_role s = RoleAdministrator"
    using permissions_of_known [of "se_role s"]
    by (auto simp: granted_iff mkeys_def operator_permissions_def viewer_permissions_def
        platform_permissions_def PermissionAccountSelf_def)
  moreover have "se_role s \<notin> {RoleAdministrator, RoleOperator, RoleViewer, RolePlatformAdmin} \<Longrightarrow> \<not> granted (se_role s) p"
    using permissions_of_known [of "se_role s"] by (auto simp: granted_iff mkeys_def)
  ultimately show ?thesis by (auto simp: HasPermission_def PermissionAccountSelf_def)
qed

theorem nothing_granted_by_accident_witness:
  "HasPermission \<lparr>se_role = RoleAdministrator, se_totp_enrollment_required = False\<rparr> ''users.manage'' \<and>
   \<not> HasPermission \<lparr>se_role = ''guest'', se_totp_enrollment_required = False\<rparr> ''jobs.read''"
proof -
  have "HasPermission \<lparr>se_role = RoleAdministrator, se_totp_enrollment_required = False\<rparr> ''users.manage''"
    by (simp add: HasPermission_def granted_def administrator_permissions_def)
  moreover have "''guest'' \<notin> {RoleAdministrator, RoleOperator, RoleViewer, RolePlatformAdmin}"
    by (simp add: role_defs)
  ultimately show ?thesis
    using nothing_granted_by_accident [of "\<lparr>se_role = ''guest'', se_totp_enrollment_required = False\<rparr>" "''jobs.read''"]
    by simp
qed

end
