(* ===== verification/AddrSpace.thy ===== *)
theory AddrSpace
  imports GoNet
begin

unbundle bit_operations_syntax

text \<open>
  \<open>internal/addrspace/addrspace.go\<close>: arithmetic on inclusive ranges of IP addresses. The
  definitions follow the functions of the file; loops over indices are recursions over the
  lists that the indices walk. The abstract specification of a list of ranges is the set of
  its addresses, \<open>ranges_set\<close>, and a list in canonical form is determined by that set.
\<close>

section \<open>netip.Prefix and math/bits\<close>

text \<open>The parts of the standard library that only this component uses.\<close>

record ip_prefix =
  px_addr :: addr
  px_bits :: int

fun without_zone :: "addr \<Rightarrow> addr" where
  "without_zone (V6 w _) = V6 w []"
| "without_zone a = a"

definition prefixFrom :: "addr \<Rightarrow> int \<Rightarrow> ip_prefix" where
  "prefixFrom a bits = \<lparr>px_addr = without_zone a,
     px_bits = (if addr_is_valid a \<and> 0 \<le> bits \<and> bits \<le> int (addr_bit_len a) then bits else - 1)\<rparr>"

definition prefix_is_valid :: "ip_prefix \<Rightarrow> bool" where
  "prefix_is_valid p = (0 \<le> px_bits p)"

definition prefix_masked :: "ip_prefix \<Rightarrow> ip_prefix" where
  "prefix_masked p = (if px_bits p < 0 then \<lparr>px_addr = NoAddr, px_bits = - 1\<rparr>
     else p\<lparr>px_addr := addr_mask (px_addr p) (nat (px_bits p))\<rparr>)"

text \<open>The big-endian bytes of a number, and back.\<close>

definition to_bytes :: "nat \<Rightarrow> int \<Rightarrow> int list" where
  "to_bytes n v = map (\<lambda>i. byte_at v (n - 1 - i)) [0..<n]"

text \<open>\<open>bits.TrailingZeros\<close> of a number of the given width: the width itself for zero.\<close>

fun trailingZeros :: "nat \<Rightarrow> int \<Rightarrow> nat" where
  "trailingZeros 0 v = 0"
| "trailingZeros (Suc w) v = (if odd v then 0 else Suc (trailingZeros w (v div 2)))"

text \<open>\<open>bits.Add64\<close> and \<open>bits.Sub64\<close>: the result and the carry or borrow.\<close>

definition add64 :: "int \<Rightarrow> int \<Rightarrow> int \<Rightarrow> int \<times> int" where
  "add64 x y c = ((x + y + c) mod 2 ^ 64, if x + y + c \<ge> 2 ^ 64 then 1 else 0)"

definition sub64 :: "int \<Rightarrow> int \<Rightarrow> int \<Rightarrow> int \<times> int" where
  "sub64 x y b = ((x - y - b) mod 2 ^ 64, if x < y + b then 1 else 0)"

section \<open>Ranges\<close>

record ip_range =
  r_from :: addr
  r_to :: addr

definition zero_range :: ip_range where
  "zero_range = \<lparr>r_from = NoAddr, r_to = NoAddr\<rparr>"

definition Valid :: "ip_range \<Rightarrow> bool" where
  "Valid r = (addr_is_valid (r_from r) \<and> addr_is_valid (r_to r) \<and>
     addr_bit_len (r_from r) = addr_bit_len (r_to r) \<and>
     addr_zone (r_from r) = [] \<and> addr_zone (r_to r) = [] \<and> r_from r \<le> r_to r)"

fun setHostBits :: "int list \<Rightarrow> int \<Rightarrow> int list" where
  "setHostBits [] networkBits = []"
| "setHostBits (b # bs) networkBits =
     (if networkBits \<ge> 8 then b # setHostBits bs (networkBits - 8)
      else if networkBits > 0 then (b OR (0xff div 2 ^ nat networkBits)) # setHostBits bs 0
      else 0xff # setHostBits bs networkBits)"

fun lastAddr :: "ip_prefix \<Rightarrow> addr" where
  "lastAddr p =
     (case px_addr p of
        V4 w \<Rightarrow> V4 (word_of_int (bytes_val 256 (setHostBits (to_bytes 4 (uint w)) (px_bits p))))
      | a \<Rightarrow> V6 (word_of_int (bytes_val 256 (setHostBits (to_bytes 16 (addr_as16 a)) (px_bits p)))) [])"

declare lastAddr.simps [simp del]

definition FromPrefix :: "ip_prefix \<Rightarrow> ip_range" where
  "FromPrefix p =
     (if \<not> prefix_is_valid p then zero_range
      else let q = prefix_masked p in \<lparr>r_from = px_addr q, r_to = lastAddr q\<rparr>)"

section \<open>Merge, Subtract, Intersect\<close>

definition range_key :: "ip_range \<Rightarrow> addr \<times> addr" where
  "range_key r = (r_from r, r_to r)"

text \<open>One turn of the joining loop; the output is kept with its last range first.\<close>

fun merge_step :: "ip_range \<Rightarrow> ip_range list \<Rightarrow> ip_range list" where
  "merge_step item [] = [item]"
| "merge_step item (lst # out) =
     (if addr_bit_len (r_from item) = addr_bit_len (r_to lst) \<and>
         (r_from item \<le> r_to lst \<or> r_from item = addr_next (r_to lst))
      then (if r_to item > r_to lst then lst\<lparr>r_to := r_to item\<rparr> else lst) # out
      else item # lst # out)"

definition Merge :: "ip_range list \<Rightarrow> ip_range list" where
  "Merge rs = rev (fold merge_step (sort_key range_key (filter Valid rs)) [])"

text \<open>
  The loop over the ranges of \<open>b\<close> that start in \<open>r\<close>: the pieces of \<open>r\<close> before them, and
  where the rest of \<open>r\<close> begins, unless a range of \<open>b\<close> closes \<open>r\<close>.
\<close>

fun subtract_loop :: "addr \<Rightarrow> ip_range \<Rightarrow> ip_range list \<Rightarrow> ip_range list \<times> addr option" where
  "subtract_loop start r [] = ([], Some start)"
| "subtract_loop start r (b # bs) =
     (if r_from b \<le> r_to r then
        (let piece = (if start < r_from b then [\<lparr>r_from = start, r_to = addr_prev (r_from b)\<rparr>] else [])
         in if r_to b < r_to r
            then (let (pieces, open') = subtract_loop (addr_next (r_to b)) r bs in (piece @ pieces, open'))
            else (piece, None))
      else ([], Some start))"

definition subtract_one :: "ip_range \<Rightarrow> ip_range list \<Rightarrow> ip_range list" where
  "subtract_one r bs =
     (case subtract_loop (r_from r) r bs of
        (pieces, None) \<Rightarrow> pieces
      | (pieces, Some start) \<Rightarrow> pieces @ [\<lparr>r_from = start, r_to = r_to r\<rparr>])"

text \<open>\<open>next\<close> only advances: what it has passed is dropped.\<close>

fun subtract_all :: "ip_range list \<Rightarrow> ip_range list \<Rightarrow> ip_range list" where
  "subtract_all [] bs = []"
| "subtract_all (r # as) bs =
     (let bs' = dropWhile (\<lambda>b. r_to b < r_from r) bs in subtract_one r bs' @ subtract_all as bs')"

definition Subtract :: "ip_range list \<Rightarrow> ip_range list \<Rightarrow> ip_range list" where
  "Subtract a b = subtract_all (Merge a) (Merge b)"

fun intersect_all :: "ip_range list \<Rightarrow> ip_range list \<Rightarrow> ip_range list" where
  "intersect_all (a # as) (b # bs) =
     (let from' = (if r_from a < r_from b then r_from b else r_from a);
          to' = (if r_to b < r_to a then r_to b else r_to a);
          piece = (if from' \<le> to' then [\<lparr>r_from = from', r_to = to'\<rparr>] else [])
      in if r_to a < r_to b then piece @ intersect_all as (b # bs) else piece @ intersect_all (a # as) bs)"
| "intersect_all _ _ = []"

definition Intersect :: "ip_range list \<Rightarrow> ip_range list \<Rightarrow> ip_range list" where
  "Intersect a b = intersect_all (Merge a) (Merge b)"

section \<open>CountCapped\<close>

definition span :: "ip_range \<Rightarrow> int \<times> int" where
  "span r =
     (let f = addr_as16 (r_from r); t = addr_as16 (r_to r);
          (lo, borrow) = sub64 (t mod 2 ^ 64) (f mod 2 ^ 64) 0;
          (hi, _) = sub64 (t div 2 ^ 64) (f div 2 ^ 64) borrow
      in (hi, lo))"

fun count_loop :: "int \<Rightarrow> int \<Rightarrow> ip_range list \<Rightarrow> int \<times> bool" where
  "count_loop limit n [] = (n, False)"
| "count_loop limit n (item # rs) =
     (if \<not> Valid item then count_loop limit n rs
      else let (hi, lo) = span item in
        if hi \<noteq> 0 \<or> lo = 2 ^ 64 - 1 then (limit, True)
        else let (s, carry) = add64 n ((lo + 1) mod 2 ^ 64) 0 in
          if carry \<noteq> 0 \<or> s > limit then (limit, True) else count_loop limit s rs)"

definition CountCapped :: "ip_range list \<Rightarrow> int \<Rightarrow> int \<times> bool" where
  "CountCapped rs limit = count_loop limit 0 rs"

section \<open>Cover\<close>

definition alignment :: "addr \<Rightarrow> nat" where
  "alignment a =
     (case a of
        V4 w \<Rightarrow> trailingZeros 32 (uint w)
      | _ \<Rightarrow> let lo = addr_as16 a mod 2 ^ 64; hi = addr_as16 a div 2 ^ 64
             in if lo \<noteq> 0 then trailingZeros 64 lo else 64 + trailingZeros 64 hi)"

text \<open>
  The loop of \<open>largestPrefix\<close>, which ends at the latest at the full length of an address; the
  guard makes it end for every argument.
\<close>

function largest_loop :: "addr \<Rightarrow> addr \<Rightarrow> nat \<Rightarrow> ip_prefix" where
  "largest_loop start to' len =
     (let p = prefixFrom start (int len) in
      if lastAddr p \<le> to' \<or> len \<ge> addr_bit_len start then p else largest_loop start to' (Suc len))"
  by pat_completeness auto
termination
  by (relation "measure (\<lambda>(start, _, len). addr_bit_len start - len)") auto

declare largest_loop.simps [simp del]

definition largestPrefix :: "addr \<Rightarrow> addr \<Rightarrow> ip_prefix" where
  "largestPrefix start to' = largest_loop start to' (addr_bit_len start - alignment start)"

text \<open>How far an address is from another one of its family.\<close>

definition addr_distance :: "addr \<Rightarrow> addr \<Rightarrow> nat" where
  "addr_distance a b = nat (addr_value b - addr_value a)"

text \<open>
  The loop of \<open>Cover\<close>. It ends because every turn moves the start closer to the end; a turn
  that would not, which no valid range has, ends it too.
\<close>

function cover_loop :: "addr \<Rightarrow> addr \<Rightarrow> ip_prefix list" where
  "cover_loop start to' =
     (let p = largestPrefix start to'; l = lastAddr p in
      if l = to' \<or> \<not> addr_distance (addr_next l) to' < addr_distance start to' then [p]
      else p # cover_loop (addr_next l) to')"
  by pat_completeness auto
termination
  by (relation "measure (\<lambda>(start, to'). addr_distance start to')") auto

declare cover_loop.simps [simp del]

definition Cover :: "ip_range \<Rightarrow> ip_prefix list" where
  "Cover r = (if \<not> Valid r then [] else cover_loop (r_from r) (r_to r))"

section \<open>Targets\<close>

definition TargetRange :: "string \<Rightarrow> ip_range option" where
  "TargetRange target0 =
     (let target = trimSpace target0 in
      case parseIP target of
        Some ip \<Rightarrow> (let a = addr_unmap (V6 ip []) in Some \<lparr>r_from = a, r_to = a\<rparr>)
      | None \<Rightarrow>
          (case parseCIDR target of
             None \<Rightarrow> None
           | Some network \<Rightarrow>
               (let a = nw_addr network; ones = int (nw_ones network);
                    mapped = (case a of V6 w _ \<Rightarrow> is_mapped w | _ \<Rightarrow> False)
                in if mapped \<and> ones \<ge> 96 then Some (FromPrefix (prefixFrom (addr_unmap a) (ones - 96)))
                   else Some (FromPrefix (prefixFrom a ones)))))"

definition TargetRanges :: "string list \<Rightarrow> ip_range list \<times> nat" where
  "TargetRanges targets =
     (List.map_filter TargetRange targets, length (filter (\<lambda>t. TargetRange t = None) targets))"

section \<open>Addresses as integers\<close>

text \<open>
  The position of an address: the IPv6 addresses follow the IPv4 addresses after a gap, so
  that no IPv4 address has an IPv6 address as its neighbour.
\<close>

fun ikey :: "addr \<Rightarrow> int" where
  "ikey NoAddr = - 2"
| "ikey (V4 w) = uint w"
| "ikey (V6 w _) = 2 ^ 33 + uint w"

definition plain :: "addr \<Rightarrow> bool" where
  "plain a \<longleftrightarrow> addr_is_valid a \<and> addr_zone a = []"

lemma B4: "0 \<le> uint (w :: 32 word)" "uint w < 4294967296"
  using uint_lt2p [of w] by simp_all

lemma B6: "0 \<le> uint (w :: 128 word)" "uint w < 340282366920938463463374607431768211456"
  using uint_lt2p [of w] by simp_all

lemma plain_cases:
  assumes "plain a"
  obtains (v4) w where "a = V4 w" | (v6) w where "a = V6 w []"
  using assms by (cases a) (auto simp: plain_def)

lemma plain_simps [simp]: "plain (V4 w)" "plain (V6 v z) \<longleftrightarrow> z = []" "\<not> plain NoAddr"
  by (auto simp: plain_def)

lemma ikey_le:
  assumes "plain a" "plain b"
  shows "a \<le> b \<longleftrightarrow> ikey a \<le> ikey b"
  using assms(1)
proof (cases rule: plain_cases)
  case (v4 w)
  from assms(2) show ?thesis
  proof (cases rule: plain_cases)
    case (v6 v)
    have "uint w < 8589934592 + uint v" using B4 [of w] B6 [of v] by linarith
    then show ?thesis using v4 v6 by (simp add: less_eq_addr_def addr_triple_def)
  qed (use v4 in \<open>auto simp: less_eq_addr_def addr_triple_def\<close>)
next
  case (v6 v)
  from assms(2) show ?thesis
  proof (cases rule: plain_cases)
    case (v4 w)
    have "uint w < 8589934592 + uint v" using B4 [of w] B6 [of v] by linarith
    then show ?thesis using v4 v6 by (simp add: less_eq_addr_def addr_triple_def)
  qed (use v6 in \<open>auto simp: less_eq_addr_def addr_triple_def\<close>)
qed

lemma ikey_inj: "plain a \<Longrightarrow> plain b \<Longrightarrow> a = b \<longleftrightarrow> ikey a = ikey b"
  using ikey_le [of a b] ikey_le [of b a] by auto

lemma ikey_less: "plain a \<Longrightarrow> plain b \<Longrightarrow> a < b \<longleftrightarrow> ikey a < ikey b"
  using ikey_le [of b a] by (simp add: not_le [symmetric])

definition family_top :: "addr \<Rightarrow> int" where
  "family_top a = (case a of V4 _ \<Rightarrow> 2 ^ 32 - 1 | _ \<Rightarrow> 2 ^ 33 + 2 ^ 128 - 1)"

definition same_family :: "addr \<Rightarrow> addr \<Rightarrow> bool" where
  "same_family a b \<longleftrightarrow> addr_bit_len a = addr_bit_len b"

lemma ikey_bounds4: "0 \<le> ikey (V4 w) \<and> ikey (V4 w) < 2 ^ 32"
  using uint_lt2p [of w] by simp

lemma ikey_bounds6: "2 ^ 33 \<le> ikey (V6 w z) \<and> ikey (V6 w z) < 2 ^ 33 + 2 ^ 128"
  using uint_lt2p [of w] by simp

lemma family4: "plain a \<Longrightarrow> ikey a < 2 ^ 33 \<longleftrightarrow> addr_bit_len a = 32"
proof (elim plain_cases)
  fix w assume "a = V4 w"
  then show ?thesis using B4 [of w] by simp
next
  fix w assume "a = V6 w []"
  then show ?thesis using B6 [of w] by simp
qed

lemma family_len: "plain a \<Longrightarrow> addr_bit_len a = 32 \<or> addr_bit_len a = 128"
  by (elim plain_cases) auto

lemma same_family_iff: "plain a \<Longrightarrow> plain b \<Longrightarrow> same_family a b \<longleftrightarrow> (ikey a < 2 ^ 33 \<longleftrightarrow> ikey b < 2 ^ 33)"
  using family4 family_len by (metis same_family_def)

lemma uint_of_int: "0 \<le> n \<Longrightarrow> n < 2 ^ LENGTH('a) \<Longrightarrow> uint (word_of_int n :: 'a::len word) = n"
  by (simp only: uint_word_of_int mod_pos_pos_trivial)

text \<open>Every position between two addresses of one family is an address of that family.\<close>

lemma ikey_onto:
  assumes "plain a" "plain b" "same_family a b" "ikey a \<le> n" "n \<le> ikey b"
  obtains c where "plain c" "ikey c = n" "same_family c a"
proof (cases a)
  case NoAddr
  then show ?thesis using assms(1) by simp
next
  case (V4 w)
  then obtain v where v: "b = V4 v" using assms(2,3) by (cases b) (auto simp: same_family_def)
  have "0 \<le> n" "n < 4294967296" using assms(4,5) B4 [of w] B4 [of v] unfolding V4 v ikey.simps by linarith+
  then have "ikey (V4 (word_of_int n)) = n" by (simp add: uint_word_of_int)
  then show ?thesis using that [of "V4 (word_of_int n)"] V4 by (simp add: same_family_def)
next
  case (V6 w z)
  then obtain v where v: "b = V6 v []" using assms(2,3) by (cases b) (auto simp: same_family_def)
  have "0 \<le> n - 8589934592" "n - 8589934592 < 340282366920938463463374607431768211456"
  proof -
    have "8589934592 + uint w \<le> n" "n \<le> 8589934592 + uint v" using assms(4,5) by (simp_all add: V6 v)
    then show "0 \<le> n - 8589934592" "n - 8589934592 < 340282366920938463463374607431768211456"
      using B6 [of w] B6 [of v] by linarith+
  qed
  then have "uint (word_of_int (n - 8589934592) :: 128 word) = n - 8589934592" by (intro uint_of_int) simp_all
  then have "ikey (V6 (word_of_int (n - 2 ^ 33)) []) = n"
    by (simp del: of_int_diff of_int_numeral)
  then show ?thesis using that [of "V6 (word_of_int (n - 2 ^ 33)) []"] V6 by (simp add: same_family_def)
qed

lemma uint_top: "w = - 1 \<longleftrightarrow> uint w = 2 ^ LENGTH('a) - 1" for w :: "'a::len word"
  by (simp add: word_uint_eq_iff unsigned_minus_1_eq_mask mask_eq_exp_minus_1)

lemma uint_inc: "w \<noteq> - 1 \<Longrightarrow> uint (w + 1) = uint w + 1" for w :: "'a::len word"
proof -
  assume "w \<noteq> - 1"
  then have "uint w + 1 < 2 ^ LENGTH('a)" using uint_lt2p [of w] uint_top [of w] by linarith
  then show ?thesis by (simp add: uint_plus_if')
qed

lemma uint_dec: "w \<noteq> 0 \<Longrightarrow> uint (w - 1) = uint w - 1" for w :: "'a::len word"
proof -
  assume "w \<noteq> 0"
  then have "uint w \<noteq> 0" by (simp add: word_uint_eq_iff)
  then have "1 \<le> uint w" using uint_ge_0 [of w] by linarith
  then show ?thesis by (simp add: uint_sub_if')
qed

lemma word_succ_iff: "w \<noteq> - 1 \<and> v = w + 1 \<longleftrightarrow> uint v = uint w + 1" for w v :: "'a::len word"
proof
  assume v: "uint v = uint w + 1"
  then have "w \<noteq> - 1" using uint_lt2p [of v] uint_top [of w] by linarith
  then show "w \<noteq> - 1 \<and> v = w + 1" using v uint_inc [of w] by (metis word_uint_eqI)
qed (use uint_inc in auto)

lemma word_pred_iff: "w \<noteq> 0 \<and> v = w - 1 \<longleftrightarrow> uint v = uint w - 1" for w v :: "'a::len word"
proof
  assume v: "uint v = uint w - 1"
  then have "w \<noteq> 0" using uint_ge_0 [of v] by (intro notI) simp
  then show "w \<noteq> 0 \<and> v = w - 1" using v uint_dec [of w] by (metis word_uint_eqI)
qed (use uint_dec in auto)

lemma next_iff: "plain a \<Longrightarrow> plain b \<Longrightarrow> b = addr_next a \<longleftrightarrow> same_family a b \<and> ikey b = ikey a + 1"
proof (elim plain_cases)
  fix w v assume "a = V4 w" "b = V4 v"
  then show ?thesis using word_succ_iff [of w v] by (auto simp: same_family_def)
next
  fix w v assume ab: "a = V6 w []" "b = V6 v []"
  have "b = addr_next a \<longleftrightarrow> w \<noteq> - 1 \<and> v = w + 1" by (simp add: ab)
  also have "\<dots> \<longleftrightarrow> uint v = uint w + 1" by (rule word_succ_iff)
  also have "\<dots> \<longleftrightarrow> ikey b = ikey a + 1" unfolding ab ikey.simps by linarith
  finally show ?thesis by (simp add: ab same_family_def)
qed (auto simp: same_family_def)

lemma prev_iff: "plain a \<Longrightarrow> plain b \<Longrightarrow> b = addr_prev a \<longleftrightarrow> same_family a b \<and> ikey b = ikey a - 1"
proof (elim plain_cases)
  fix w v assume "a = V4 w" "b = V4 v"
  then show ?thesis using word_pred_iff [of w v] by (auto simp: same_family_def)
next
  fix w v assume ab: "a = V6 w []" "b = V6 v []"
  have "b = addr_prev a \<longleftrightarrow> w \<noteq> 0 \<and> v = w - 1" by (simp add: ab)
  also have "\<dots> \<longleftrightarrow> uint v = uint w - 1" by (rule word_pred_iff)
  also have "\<dots> \<longleftrightarrow> ikey b = ikey a - 1" unfolding ab ikey.simps by linarith
  finally show ?thesis by (simp add: ab same_family_def)
qed (auto simp: same_family_def)

section \<open>Ranges as sets\<close>

abbreviation lo :: "ip_range \<Rightarrow> int" where "lo r \<equiv> ikey (r_from r)"
abbreviation hi :: "ip_range \<Rightarrow> int" where "hi r \<equiv> ikey (r_to r)"

definition range_set :: "ip_range \<Rightarrow> addr set" where
  "range_set r = (if Valid r then {a. plain a \<and> r_from r \<le> a \<and> a \<le> r_to r} else {})"

definition ranges_set :: "ip_range list \<Rightarrow> addr set" where
  "ranges_set rs = \<Union> (set (map range_set rs))"

text \<open>The positions of the addresses of valid ranges.\<close>

definition iset :: "ip_range list \<Rightarrow> int set" where
  "iset rs = (\<Union>r \<in> set rs. {lo r..hi r})"

lemma iset_simps [simp]:
  "iset [] = {}" "iset (r # rs) = {lo r..hi r} \<union> iset rs" "iset (rs @ ss) = iset rs \<union> iset ss" "iset (rev rs) = iset rs"
  by (auto simp: iset_def)

lemma Valid_iff:
  "Valid r \<longleftrightarrow> plain (r_from r) \<and> plain (r_to r) \<and> same_family (r_from r) (r_to r) \<and> lo r \<le> hi r"
  using ikey_le [of "r_from r" "r_to r"] by (auto simp: Valid_def plain_def same_family_def)

lemma range_set_iff: "Valid r \<Longrightarrow> a \<in> range_set r \<longleftrightarrow> plain a \<and> lo r \<le> ikey a \<and> ikey a \<le> hi r"
  by (auto simp: range_set_def Valid_iff ikey_le)

lemma ikey_range_set: "Valid r \<Longrightarrow> ikey ` range_set r = {lo r..hi r}"
proof (intro set_eqI iffI)
  fix n assume v: "Valid r" and "n \<in> {lo r..hi r}"
  then obtain c where "plain c" "ikey c = n"
    using ikey_onto [of "r_from r" "r_to r" n] by (auto simp: Valid_iff)
  then show "n \<in> ikey ` range_set r" using v \<open>n \<in> {lo r..hi r}\<close> range_set_iff [OF v] by force
qed (auto simp: range_set_iff)

lemma ranges_set_iff: "\<forall>r \<in> set rs. Valid r \<Longrightarrow> a \<in> ranges_set rs \<longleftrightarrow> plain a \<and> ikey a \<in> iset rs"
  by (auto simp: ranges_set_def iset_def range_set_iff)

lemma ikey_ranges_set: "\<forall>r \<in> set rs. Valid r \<Longrightarrow> ikey ` ranges_set rs = iset rs"
  by (simp add: ranges_set_def iset_def image_UN ikey_range_set)

text \<open>Overlapping valid ranges are of one family.\<close>

lemma overlap_family:
  assumes "Valid r" "Valid s" "lo r \<le> hi s + 1" "lo s \<le> hi r"
  shows "same_family (r_from r) (r_from s) \<and> same_family (r_from r) (r_to s) \<and> same_family (r_to r) (r_from s)"
proof -
  have f: "lo r < 2 ^ 33 \<longleftrightarrow> hi r < 2 ^ 33" "lo s < 2 ^ 33 \<longleftrightarrow> hi s < 2 ^ 33"
    using assms(1,2) by (auto simp: Valid_iff same_family_iff)
  have "hi s + 1 < 2 ^ 33" if "hi s < 2 ^ 33"
  proof -
    have "plain (r_to s)" using assms(2) by (simp add: Valid_iff)
    then show ?thesis using that
    proof (cases rule: plain_cases)
      case (v4 w)
      then show ?thesis using B4 [of w] by simp
    next
      case (v6 w)
      then show ?thesis using that B6 [of w] by simp
    qed
  qed
  then have "lo r < 2 ^ 33 \<longleftrightarrow> hi s < 2 ^ 33" using f assms(3,4) by linarith
  then show ?thesis using f assms(1,2) by (auto simp: Valid_iff same_family_iff)
qed

section \<open>Canonical form\<close>

definition canonical :: "ip_range list \<Rightarrow> bool" where
  "canonical rs \<longleftrightarrow> (\<forall>r \<in> set rs. Valid r) \<and> sorted_wrt (\<lambda>a b. hi a + 1 < lo b) rs"

lemma canonical_Nil [simp]: "canonical []"
  by (simp add: canonical_def)

lemma canonical_Cons:
  "canonical (r # rs) \<longleftrightarrow> Valid r \<and> (\<forall>s \<in> set rs. hi r + 1 < lo s) \<and> canonical rs"
  by (auto simp: canonical_def)

lemma canonical_append:
  "canonical (rs @ ss) \<longleftrightarrow> canonical rs \<and> canonical ss \<and> (\<forall>r \<in> set rs. \<forall>s \<in> set ss. hi r + 1 < lo s)"
  by (auto simp: canonical_def sorted_wrt_append)

lemma canonical_Valid: "canonical rs \<Longrightarrow> \<forall>r \<in> set rs. Valid r"
  by (simp add: canonical_def)

lemma Valid_le: "Valid r \<Longrightarrow> lo r \<le> hi r"
  by (simp add: Valid_iff)

lemma range_eq: "Valid r \<Longrightarrow> Valid s \<Longrightarrow> lo r = lo s \<Longrightarrow> hi r = hi s \<Longrightarrow> r = (s :: ip_range)"
  by (auto simp: Valid_iff ikey_inj intro: ip_range.equality)

text \<open>The canonical form of a set of addresses is unique.\<close>

lemma canonical_unique: "canonical rs \<Longrightarrow> canonical ss \<Longrightarrow> iset rs = iset ss \<Longrightarrow> rs = ss"
proof (induction rs arbitrary: ss)
  case Nil
  then show ?case by (cases ss) (auto simp: canonical_Cons dest!: Valid_le)
next
  case (Cons r rs)
  then obtain s ss' where ss: "ss = s # ss'"
    by (cases ss) (auto simp: canonical_Cons dest!: Valid_le)
  have r: "Valid r" "\<forall>x \<in> set rs. hi r + 1 < lo x" "canonical rs"
    and s: "Valid s" "\<forall>x \<in> set ss'. hi s + 1 < lo x" "canonical ss'"
    using Cons.prems by (auto simp: canonical_Cons ss)
  have inr: "n \<in> iset rs \<Longrightarrow> hi r + 1 < n" and ins: "n \<in> iset ss' \<Longrightarrow> hi s + 1 < n" for n
    using r(2) s(2) by (fastforce simp: iset_def)+
  have eq: "{lo r..hi r} \<union> iset rs = {lo s..hi s} \<union> iset ss'" using Cons.prems(3) by (simp add: ss)
  note le = Valid_le [OF r(1)] Valid_le [OF s(1)]
  have "lo s \<le> lo r" using eq ins [of "lo r"] le by (metis UnI1 UnE atLeastAtMost_iff le_less_linear order.refl less_trans zless_add1_eq order.trans less_le_not_le)
  moreover have "lo r \<le> lo s" using eq inr [of "lo s"] le by (metis UnI1 UnE atLeastAtMost_iff le_less_linear order.refl less_trans zless_add1_eq order.trans less_le_not_le)
  ultimately have lo: "lo r = lo s" by simp
  have "hi r = hi s"
  proof (rule ccontr)
    assume "hi r \<noteq> hi s"
    then consider "hi r < hi s" | "hi s < hi r" by linarith
    then show False
    proof cases
      case 1
      then have "hi r + 1 \<in> {lo s..hi s}" using le lo by simp
      then have "hi r + 1 \<in> {lo r..hi r} \<union> iset rs" using eq by blast
      then show False using inr [of "hi r + 1"] by auto
    next
      case 2
      then have "hi s + 1 \<in> {lo r..hi r}" using le lo by simp
      then have "hi s + 1 \<in> {lo s..hi s} \<union> iset ss'" using eq by blast
      then show False using ins [of "hi s + 1"] by auto
    qed
  qed
  then have rs: "r = s" using range_eq r(1) s(1) lo by blast
  have "iset rs = iset ss'"
  proof (intro set_eqI iffI)
    fix n assume "n \<in> iset rs"
    then have "hi r + 1 < n" "n \<in> {lo s..hi s} \<union> iset ss'" using inr eq by blast+
    then show "n \<in> iset ss'" using rs by auto
  next
    fix n assume "n \<in> iset ss'"
    then have "hi s + 1 < n" "n \<in> {lo r..hi r} \<union> iset rs" using ins eq by blast+
    then show "n \<in> iset rs" using rs by auto
  qed
  then show ?case using Cons.IH r(3) s(3) rs ss by blast
qed

section \<open>Merge\<close>

lemma join_iff:
  assumes "Valid item" "Valid lst" "lo lst \<le> lo item"
  shows "addr_bit_len (r_from item) = addr_bit_len (r_to lst) \<and>
      (r_from item \<le> r_to lst \<or> r_from item = addr_next (r_to lst)) \<longleftrightarrow> lo item \<le> hi lst + 1"
proof -
  have p: "plain (r_from item)" "plain (r_to lst)" using assms by (auto simp: Valid_iff)
  show ?thesis
  proof
    assume "lo item \<le> hi lst + 1"
    moreover from this have "same_family (r_from item) (r_to lst)"
      using overlap_family [OF assms(1,2)] assms(3) Valid_le [OF assms(1)] by linarith
    ultimately show "addr_bit_len (r_from item) = addr_bit_len (r_to lst) \<and>
      (r_from item \<le> r_to lst \<or> r_from item = addr_next (r_to lst))"
      using next_iff [OF p(2,1)] ikey_le [OF p] by (auto simp: same_family_def)
  next
    assume "addr_bit_len (r_from item) = addr_bit_len (r_to lst) \<and>
      (r_from item \<le> r_to lst \<or> r_from item = addr_next (r_to lst))"
    then show "lo item \<le> hi lst + 1" using next_iff [OF p(2,1)] ikey_le [OF p] by auto
  qed
qed

lemma merge_step_ok:
  assumes "canonical (rev out)" "Valid item" "\<forall>r \<in> set out. lo r \<le> lo item"
  shows "canonical (rev (merge_step item out)) \<and> iset (merge_step item out) = {lo item..hi item} \<union> iset out \<and>
    (\<forall>r \<in> set (merge_step item out). lo r \<le> lo item)"
proof (cases out)
  case Nil
  then show ?thesis using assms by (simp add: canonical_Cons)
next
  case (Cons lst rest)
  have lst: "Valid lst" "lo lst \<le> lo item" using assms by (auto simp: Cons canonical_append canonical_Cons)
  have gt: "r_to item > r_to lst \<longleftrightarrow> hi item > hi lst"
    using assms(2) lst(1) by (simp add: ikey_less Valid_iff)
  show ?thesis
  proof (cases "lo item \<le> hi lst + 1")
    case False
    then have "merge_step item out = item # out"
      using join_iff [OF assms(2) lst] by (simp add: Cons)
    moreover have "\<forall>r \<in> set rest. hi r + 1 < lo item"
      using assms(1) lst by (fastforce simp: Cons canonical_append canonical_Cons)
    ultimately show ?thesis
      using assms False by (auto simp: Cons canonical_append canonical_Cons)
  next
    case True
    define l where "l = (if r_to item > r_to lst then lst\<lparr>r_to := r_to item\<rparr> else lst)"
    have m: "merge_step item out = l # rest"
      using join_iff [OF assms(2) lst] True by (simp add: Cons l_def)
    have h: "lo l = lo lst" "hi l = max (hi lst) (hi item)" using gt by (auto simp: l_def)
    have "same_family (r_from item) (r_from lst)" "same_family (r_from item) (r_to item)"
      using overlap_family [OF assms(2) lst(1)] True lst(2) Valid_le [OF assms(2)] assms(2)
      by (auto simp: Valid_iff)
    then have "Valid l" using lst(1) assms(2) h Valid_le [OF lst(1)]
      by (auto simp: l_def Valid_iff same_family_def)
    moreover have "{lo l..hi l} = {lo item..hi item} \<union> {lo lst..hi lst}"
      using True lst(2) Valid_le [OF lst(1)] Valid_le [OF assms(2)] by (auto simp: h)
    ultimately show ?thesis
      unfolding m using assms(1,3) lst(2) by (auto simp: h Cons canonical_append canonical_Cons)
  qed
qed

lemma merge_fold_ok:
  assumes "canonical (rev out)" "\<forall>r \<in> set rs. Valid r" "sorted (map lo rs)" "\<forall>r \<in> set out. \<forall>s \<in> set rs. lo r \<le> lo s"
  shows "canonical (rev (fold merge_step rs out)) \<and> iset (fold merge_step rs out) = iset rs \<union> iset out"
  using assms
proof (induction rs arbitrary: out)
  case (Cons r rs)
  note st = merge_step_ok [of out r]
  have "\<forall>x \<in> set (merge_step r out). \<forall>s \<in> set rs. lo x \<le> lo s" using st Cons.prems by fastforce
  then show ?case using Cons.IH [of "merge_step r out"] st Cons.prems by auto
qed simp

lemma sorted_range_key: "\<forall>r \<in> set rs. Valid r \<Longrightarrow> sorted (map range_key rs) \<Longrightarrow> sorted (map lo rs)"
  unfolding sorted_map
  by (erule sorted_wrt_mono_rel [rotated]) (auto simp: range_key_def Valid_iff ikey_le less_imp_le ikey_less)

lemma Merge_iset: "canonical (Merge rs) \<and> iset (Merge rs) = iset (filter Valid rs)"
proof -
  define ss where "ss = sort_key range_key (filter Valid rs)"
  have v: "\<forall>r \<in> set ss. Valid r" by (simp add: ss_def)
  moreover have "sorted (map lo ss)" by (rule sorted_range_key [OF v]) (simp add: ss_def)
  ultimately have "canonical (rev (fold merge_step ss [])) \<and> iset (fold merge_step ss []) = iset ss"
    using merge_fold_ok [of "[]" ss] by simp
  then show ?thesis by (simp add: Merge_def ss_def iset_def)
qed

lemma ranges_set_filter: "ranges_set (filter Valid rs) = ranges_set rs"
  by (auto simp: ranges_set_def range_set_def)

lemma ranges_set_Valid: "a \<in> ranges_set rs \<longleftrightarrow> plain a \<and> ikey a \<in> iset (filter Valid rs)"
  using ranges_set_iff [of "filter Valid rs"] by (simp add: ranges_set_filter)

section \<open>Subtract\<close>

definition rest_of :: "ip_range \<Rightarrow> ip_range list \<times> addr option \<Rightarrow> ip_range list" where
  "rest_of r x = (case x of (pieces, None) \<Rightarrow> pieces | (pieces, Some start) \<Rightarrow> pieces @ [\<lparr>r_from = start, r_to = r_to r\<rparr>])"

lemma subtract_one_rest: "subtract_one r bs = rest_of r (subtract_loop (r_from r) r bs)"
  by (simp add: subtract_one_def rest_of_def)

lemma rest_of_append: "rest_of r (p @ ps, o') = p @ rest_of r (ps, o')"
  by (auto simp: rest_of_def split: option.splits)

lemma prev_plain:
  assumes "plain a" "plain b" "same_family a b" "a < b"
  shows "plain (addr_prev b) \<and> ikey (addr_prev b) = ikey b - 1 \<and> same_family (addr_prev b) b"
proof -
  have "ikey a < ikey b" using assms ikey_less by blast
  then obtain c where c: "plain c" "ikey c = ikey b - 1" "same_family c a"
    using ikey_onto [OF assms(1-3), of "ikey b - 1"] by auto
  then have "c = addr_prev b" using prev_iff [OF assms(2) c(1)] assms(3) by (simp add: same_family_def)
  then show ?thesis using c assms(3) by (simp add: same_family_def)
qed

lemma next_plain:
  assumes "plain a" "plain b" "same_family a b" "a < b"
  shows "plain (addr_next a) \<and> ikey (addr_next a) = ikey a + 1 \<and> same_family (addr_next a) a"
proof -
  have "ikey a < ikey b" using assms ikey_less by blast
  then obtain c where c: "plain c" "ikey c = ikey a + 1" "same_family c a"
    using ikey_onto [OF assms(1-3), of "ikey a + 1"] by auto
  then have "c = addr_next a" using next_iff [OF assms(1) c(1)] by (simp add: same_family_def)
  then show ?thesis using c by simp
qed

lemma subtract_loop_ok:
  assumes "Valid r" "plain start" "same_family start (r_to r)" "ikey start \<le> hi r"
    and "canonical bs" "\<forall>b \<in> set bs. ikey start \<le> hi b"
  shows "canonical (rest_of r (subtract_loop start r bs)) \<and>
    iset (rest_of r (subtract_loop start r bs)) = {ikey start..hi r} - iset bs \<and>
    (\<forall>x \<in> set (rest_of r (subtract_loop start r bs)). ikey start \<le> lo x \<and> hi x \<le> hi r)"
  using assms(2-6)
proof (induction bs arbitrary: start)
  case Nil
  then show ?case using assms(1) by (simp add: rest_of_def canonical_Cons Valid_iff)
next
  case (Cons b bs)
  have r: "plain (r_to r)" using assms(1) by (simp add: Valid_iff)
  have b: "Valid b" "\<forall>x \<in> set bs. hi b + 1 < lo x" "canonical bs" "ikey start \<le> hi b"
    using Cons.prems by (auto simp: canonical_Cons)
  have pb: "plain (r_from b)" "plain (r_to b)" "same_family (r_from b) (r_to b)" using b(1) by (auto simp: Valid_iff)
  have above: "n \<in> iset bs \<Longrightarrow> hi b + 1 < n" for n using b(2) by (fastforce simp: iset_def)
  show ?case
  proof (cases "r_from b \<le> r_to r")
    case False
    then have "hi r < lo b" using ikey_le pb r by simp
    moreover have "iset bs \<inter> {ikey start..hi r} = {}" using above calculation Valid_le [OF b(1)] by fastforce
    ultimately have "{ikey start..hi r} - iset (b # bs) = {ikey start..hi r}" by auto
    then show ?thesis using False Cons.prems(1-3) r by (simp add: rest_of_def canonical_Cons Valid_iff)
  next
    case True
    define s where "s = \<lparr>r_from = start, r_to = r_to r\<rparr>"
    have s: "Valid s" using Cons.prems(1-3) r by (simp add: s_def Valid_iff)
    have "lo b \<le> hi r" using True ikey_le pb r by simp
    then have fam: "same_family start (r_from b)"
      using overlap_family [OF s b(1)] b(4) by (simp add: s_def)
    define piece where "piece = (if start < r_from b then [\<lparr>r_from = start, r_to = addr_prev (r_from b)\<rparr>] else [])"
    have piece: "canonical piece" "iset piece = {ikey start..lo b - 1}" "\<forall>x \<in> set piece. ikey start \<le> lo x \<and> hi x = lo b - 1"
      using prev_plain [OF Cons.prems(1) pb(1) fam] ikey_less [OF Cons.prems(1) pb(1)] fam Cons.prems(1)
      by (auto simp: piece_def canonical_Cons Valid_iff same_family_def)
    show ?thesis
    proof (cases "r_to b < r_to r")
      case False
      then have "hi r \<le> hi b" using ikey_less pb r by (simp add: not_less)
      moreover have "{ikey start..hi r} - iset (b # bs) = {ikey start..lo b - 1}"
        using calculation \<open>lo b \<le> hi r\<close> above by fastforce
      ultimately show ?thesis
        using True False piece \<open>lo b \<le> hi r\<close> by (auto simp: rest_of_def piece_def [symmetric])
    next
      case inner: True
      have "same_family (r_to b) (r_to r)" using fam pb Cons.prems(2) by (simp add: same_family_def)
      note nx = next_plain [OF pb(2) r this inner]
      have lt: "hi b < hi r" using inner ikey_less pb r by simp
      have "same_family (addr_next (r_to b)) (r_to r)"
        using nx \<open>same_family (r_to b) (r_to r)\<close> by (simp add: same_family_def)
      moreover have "\<forall>x \<in> set bs. ikey (addr_next (r_to b)) \<le> hi x"
        using b(2,3) nx Valid_le canonical_Valid by fastforce
      ultimately have IH: "canonical (rest_of r (subtract_loop (addr_next (r_to b)) r bs))"
        "iset (rest_of r (subtract_loop (addr_next (r_to b)) r bs)) = {hi b + 1..hi r} - iset bs"
        "\<forall>x \<in> set (rest_of r (subtract_loop (addr_next (r_to b)) r bs)). hi b + 1 \<le> lo x \<and> hi x \<le> hi r"
        using Cons.IH [of "addr_next (r_to b)"] nx lt b(3) by auto
      have e: "rest_of r (subtract_loop start r (b # bs)) = piece @ rest_of r (subtract_loop (addr_next (r_to b)) r bs)"
        using True inner rest_of_append
        by (cases "subtract_loop (addr_next (r_to b)) r bs") (simp add: piece_def [symmetric] Let_def)
      have "canonical (piece @ rest_of r (subtract_loop (addr_next (r_to b)) r bs))"
        unfolding canonical_append using piece IH Valid_le [OF b(1)] by fastforce
      moreover have "{ikey start..lo b - 1} \<union> ({hi b + 1..hi r} - iset bs) = {ikey start..hi r} - iset (b # bs)"
        using b(4) Valid_le [OF b(1)] lt above by fastforce
      moreover have "\<forall>x \<in> set (piece @ rest_of r (subtract_loop (addr_next (r_to b)) r bs)). ikey start \<le> lo x \<and> hi x \<le> hi r"
        using piece IH b(4) lt Valid_le [OF b(1)] by fastforce
      ultimately show ?thesis unfolding e using piece IH by simp
    qed
  qed
qed

lemma dropWhile_canonical:
  assumes "canonical bs" "Valid r"
  shows "canonical (dropWhile (\<lambda>b. r_to b < r_from r) bs) \<and>
    (\<forall>b \<in> set (dropWhile (\<lambda>b. r_to b < r_from r) bs). lo r \<le> hi b) \<and>
    (\<forall>n \<ge> lo r. n \<in> iset (dropWhile (\<lambda>b. r_to b < r_from r) bs) \<longleftrightarrow> n \<in> iset bs)"
  using assms(1)
proof (induction bs)
  case (Cons b bs)
  have p: "plain (r_to b)" "plain (r_from r)" using Cons.prems assms(2) by (auto simp: canonical_Cons Valid_iff)
  show ?case
  proof (cases "r_to b < r_from r")
    case True
    then have "hi b < lo r" using ikey_less p by blast
    then show ?thesis using True Cons by (auto simp: canonical_Cons)
  next
    case False
    then have "lo r \<le> hi b" using ikey_less p by (simp add: not_less)
    moreover have "\<forall>x \<in> set bs. lo r \<le> hi x"
      using Cons.prems calculation Valid_le canonical_Valid by (fastforce simp: canonical_Cons)
    ultimately show ?thesis using False Cons.prems by simp
  qed
qed simp

lemma subtract_all_ok:
  assumes "canonical as" "canonical bs"
  shows "canonical (subtract_all as bs) \<and> iset (subtract_all as bs) = iset as - iset bs \<and>
    (\<forall>x \<in> set (subtract_all as bs). \<exists>a \<in> set as. lo a \<le> lo x)"
  using assms
proof (induction as arbitrary: bs)
  case (Cons r as)
  have r: "Valid r" "\<forall>x \<in> set as. hi r + 1 < lo x" "canonical as" using Cons.prems by (auto simp: canonical_Cons)
  have rr: "plain (r_from r)" "same_family (r_from r) (r_to r)" using r(1) by (auto simp: Valid_iff)
  define bs' where "bs' = dropWhile (\<lambda>b. r_to b < r_from r) bs"
  note d = dropWhile_canonical [OF Cons.prems(2) r(1), folded bs'_def]
  have one: "canonical (subtract_one r bs')" "iset (subtract_one r bs') = {lo r..hi r} - iset bs'"
    "\<forall>x \<in> set (subtract_one r bs'). lo r \<le> lo x \<and> hi x \<le> hi r"
    using subtract_loop_ok [OF r(1) rr Valid_le [OF r(1)], of bs'] d by (auto simp: subtract_one_rest)
  have IH: "canonical (subtract_all as bs')" "iset (subtract_all as bs') = iset as - iset bs'"
    "\<forall>x \<in> set (subtract_all as bs'). \<exists>a \<in> set as. lo a \<le> lo x"
    using Cons.IH [OF r(3), of bs'] d by auto
  have "n \<in> iset as \<Longrightarrow> hi r + 1 < n" for n using r(2) by (fastforce simp: iset_def)
  then have "{lo r..hi r} - iset bs' \<union> (iset as - iset bs') = iset (r # as) - iset bs"
    using d Valid_le [OF r(1)] by fastforce
  moreover have "canonical (subtract_one r bs' @ subtract_all as bs')"
    unfolding canonical_append using one IH r(2) by fastforce
  moreover have "\<forall>x \<in> set (subtract_one r bs' @ subtract_all as bs'). \<exists>a \<in> set (r # as). lo a \<le> lo x"
    using one(3) IH(3) by auto
  ultimately show ?case using one IH by (simp add: Let_def bs'_def [symmetric])
qed simp

section \<open>Intersect\<close>

lemma intersect_all_ok:
  assumes "canonical as" "canonical bs"
  shows "canonical (intersect_all as bs) \<and> iset (intersect_all as bs) = iset as \<inter> iset bs \<and>
    (\<forall>x \<in> set (intersect_all as bs). (\<exists>a \<in> set as. lo a \<le> lo x) \<and> (\<exists>b \<in> set bs. lo b \<le> lo x))"
  using assms
proof (induction as bs rule: intersect_all.induct)
  case (1 a as b bs)
  have a: "Valid a" "\<forall>x \<in> set as. hi a + 1 < lo x" "canonical as"
    and b: "Valid b" "\<forall>x \<in> set bs. hi b + 1 < lo x" "canonical bs"
    using "1.prems" by (auto simp: canonical_Cons)
  have pa: "plain (r_from a)" "plain (r_to a)" and pb: "plain (r_from b)" "plain (r_to b)"
    using a(1) b(1) by (auto simp: Valid_iff)
  define f where "f = (if r_from a < r_from b then r_from b else r_from a)"
  define t where "t = (if r_to b < r_to a then r_to b else r_to a)"
  define piece where "piece = (if f \<le> t then [\<lparr>r_from = f, r_to = t\<rparr>] else [])"
  have ft: "plain f" "plain t" "ikey f = max (lo a) (lo b)" "ikey t = min (hi a) (hi b)"
    using pa pb by (auto simp: f_def t_def ikey_less)
  have v: "Valid \<lparr>r_from = f, r_to = t\<rparr>" if "ikey f \<le> ikey t"
  proof -
    have "lo a \<le> hi b" "lo b \<le> hi a" using that ft by auto
    then have "same_family (r_from a) (r_from b) \<and> same_family (r_from a) (r_to b) \<and> same_family (r_to a) (r_from b)"
      using overlap_family [OF a(1) b(1)] by simp
    then have "same_family f t" using a(1) b(1) by (auto simp: f_def t_def Valid_iff same_family_def)
    then show ?thesis using ft that by (simp add: Valid_iff)
  qed
  have piece: "canonical piece" "iset piece = {lo a..hi a} \<inter> {lo b..hi b}"
    "\<forall>x \<in> set piece. lo x = max (lo a) (lo b) \<and> hi x = min (hi a) (hi b)"
    using v ft ikey_le [OF ft(1,2)] by (auto simp: piece_def canonical_Cons)
  have ia: "n \<in> iset as \<Longrightarrow> hi a + 1 < n" and ib: "n \<in> iset bs \<Longrightarrow> hi b + 1 < n" for n
    using a(2) b(2) by (fastforce simp: iset_def)+
  show ?case
  proof (cases "r_to a < r_to b")
    case True
    then have lt: "hi a < hi b" using ikey_less pa pb by blast
    have IH: "canonical (intersect_all as (b # bs))" "iset (intersect_all as (b # bs)) = iset as \<inter> iset (b # bs)"
      "\<forall>x \<in> set (intersect_all as (b # bs)). (\<exists>a \<in> set as. lo a \<le> lo x) \<and> (\<exists>b \<in> set (b # bs). lo b \<le> lo x)"
      using "1.IH"(1) [OF f_def t_def piece_def True] a(3) "1.prems"(2) by (auto simp: f_def t_def)
    have "canonical (piece @ intersect_all as (b # bs))"
      unfolding canonical_append using piece IH a(2) by fastforce
    moreover have "iset (piece @ intersect_all as (b # bs)) = iset (a # as) \<inter> iset (b # bs)"
      using piece(2) IH(2) ib lt by fastforce
    moreover have "\<forall>x \<in> set (piece @ intersect_all as (b # bs)).
        (\<exists>a \<in> set (a # as). lo a \<le> lo x) \<and> (\<exists>b \<in> set (b # bs). lo b \<le> lo x)"
      using piece(3) IH(3) by auto
    ultimately show ?thesis using True by (simp add: Let_def f_def [symmetric] t_def [symmetric] piece_def [symmetric])
  next
    case False
    then have le: "hi b \<le> hi a" using ikey_less pa pb by (simp add: not_less)
    have IH: "canonical (intersect_all (a # as) bs)" "iset (intersect_all (a # as) bs) = iset (a # as) \<inter> iset bs"
      "\<forall>x \<in> set (intersect_all (a # as) bs). (\<exists>a \<in> set (a # as). lo a \<le> lo x) \<and> (\<exists>b \<in> set bs. lo b \<le> lo x)"
      using "1.IH"(2) [OF f_def t_def piece_def False] b(3) "1.prems"(1) by (auto simp: f_def t_def)
    have "canonical (piece @ intersect_all (a # as) bs)"
      unfolding canonical_append using piece IH b(2) by fastforce
    moreover have "iset (piece @ intersect_all (a # as) bs) = iset (a # as) \<inter> iset (b # bs)"
      using piece(2) IH(2) ia le by fastforce
    moreover have "\<forall>x \<in> set (piece @ intersect_all (a # as) bs).
        (\<exists>a \<in> set (a # as). lo a \<le> lo x) \<and> (\<exists>b \<in> set (b # bs). lo b \<le> lo x)"
      using piece(3) IH(3) by auto
    ultimately show ?thesis using False by (simp add: Let_def f_def [symmetric] t_def [symmetric] piece_def [symmetric])
  qed
qed simp_all

section \<open>CountCapped\<close>

definition range_size :: "ip_range \<Rightarrow> int" where
  "range_size r = (if Valid r then hi r - lo r + 1 else 0)"

definition total_size :: "ip_range list \<Rightarrow> int" where
  "total_size rs = sum_list (map range_size rs)"

lemma range_size_card: "range_size r = int (card (range_set r))"
proof (cases "Valid r")
  case True
  have "inj_on ikey (range_set r)" by (rule inj_onI) (use True ikey_inj in \<open>auto simp: range_set_iff\<close>)
  then have "card (range_set r) = card {lo r..hi r}" by (metis card_image ikey_range_set [OF True])
  then show ?thesis using True Valid_le [OF True] by (simp add: range_size_def)
qed (simp add: range_size_def range_set_def)

lemma range_size_nonneg: "0 \<le> range_size r"
  by (simp add: range_size_card)

lemma total_size_nonneg: "0 \<le> total_size rs"
  by (induction rs) (simp_all add: total_size_def range_size_nonneg)

lemma div_mod_unique:
  "n = q * m + r \<Longrightarrow> 0 \<le> r \<Longrightarrow> r < m \<Longrightarrow> n div m = q \<and> n mod m = r" for n m q r :: int
  by (auto simp: div_pos_pos_trivial mod_pos_pos_trivial)

lemma sub64_pair:
  fixes f t :: int
  assumes "0 \<le> f" "f \<le> t" "t < 2 ^ 128"
  shows "(let (l, b) = sub64 (t mod 2 ^ 64) (f mod 2 ^ 64) 0; (h, _) = sub64 (t div 2 ^ 64) (f div 2 ^ 64) b
          in (h, l)) = ((t - f) div 2 ^ 64, (t - f) mod 2 ^ 64)"
proof -
  let ?M = "18446744073709551616 :: int"
  define t1 t0 f1 f0 where d: "t1 = t div ?M" "t0 = t mod ?M" "f1 = f div ?M" "f0 = f mod ?M"
  have e: "t = t1 * ?M + t0" "f = f1 * ?M + f0" by (simp_all add: d)
  have b: "0 \<le> t0" "t0 < ?M" "0 \<le> f0" "f0 < ?M" by (simp_all add: d)
  have t: "t < 340282366920938463463374607431768211456" using assms(3) by simp
  have "t1 < ?M" "0 \<le> f1" using e b t assms(1) by linarith+
  show ?thesis
  proof (cases "t0 < f0")
    case False
    have "f1 \<le> t1" using assms(2) e b by linarith
    then have r: "t1 - f1 < ?M" "0 \<le> t1 - f1" using \<open>t1 < ?M\<close> \<open>0 \<le> f1\<close> by linarith+
    have q: "(t - f) div ?M = t1 - f1" "(t - f) mod ?M = t0 - f0"
    proof -
      have "t - f = (t1 - f1) * ?M + (t0 - f0)" by (subst e(1), subst e(2)) (simp add: algebra_simps)
      moreover have "0 \<le> t0 - f0" "t0 - f0 < ?M" using b False by linarith+
      ultimately show "(t - f) div ?M = t1 - f1" "(t - f) mod ?M = t0 - f0" using div_mod_unique by blast+
    qed
    have "sub64 t0 f0 0 = (t0 - f0, 0)" using False b by (simp add: sub64_def mod_pos_pos_trivial)
    moreover have "sub64 t1 f1 0 = (t1 - f1, 0)" using r by (simp add: sub64_def mod_pos_pos_trivial)
    ultimately show ?thesis by (simp add: d [symmetric]) (simp add: q)
  next
    case True
    have "f1 < t1" using assms(2) e b True by linarith
    then have r: "t1 - f1 - 1 < ?M" "0 \<le> t1 - f1 - 1" using \<open>t1 < ?M\<close> \<open>0 \<le> f1\<close> by linarith+
    have q: "(t - f) div ?M = t1 - f1 - 1" "(t - f) mod ?M = t0 - f0 + ?M"
    proof -
      have "t - f = (t1 - f1 - 1) * ?M + (t0 - f0 + ?M)" by (subst e(1), subst e(2)) (simp add: algebra_simps)
      moreover have "0 \<le> t0 - f0 + ?M" "t0 - f0 + ?M < ?M" using b True by linarith+
      ultimately show "(t - f) div ?M = t1 - f1 - 1" "(t - f) mod ?M = t0 - f0 + ?M" using div_mod_unique by blast+
    qed
    have "(t0 - f0) mod ?M = t0 - f0 + ?M"
    proof -
      have "t0 - f0 = - 1 * ?M + (t0 - f0 + ?M)" by simp
      moreover have "0 \<le> t0 - f0 + ?M" "t0 - f0 + ?M < ?M" using b True by linarith+
      ultimately show ?thesis using div_mod_unique by blast
    qed
    then have "sub64 t0 f0 0 = (t0 - f0 + ?M, 1)" using True by (simp add: sub64_def)
    moreover have "sub64 t1 f1 1 = (t1 - f1 - 1, 0)" using r by (simp add: sub64_def mod_pos_pos_trivial)
    ultimately show ?thesis by (simp add: d [symmetric]) (simp add: q)
  qed
qed

lemma plain_as16:
  assumes "plain a" "plain b" "same_family a b" "ikey a \<le> ikey b"
  shows "0 \<le> addr_as16 a \<and> addr_as16 a \<le> addr_as16 b \<and> addr_as16 b < 2 ^ 128 \<and>
    addr_as16 b - addr_as16 a = ikey b - ikey a"
  using assms(1)
proof (cases rule: plain_cases)
  case (v4 w)
  then obtain v where v: "b = V4 v" using assms(2,3) by (cases b) (auto simp: same_family_def)
  show ?thesis using assms(4) B4 [of w] B4 [of v] by (simp add: v4 v mapped_base_def)
next
  case (v6 w)
  then obtain v where v: "b = V6 v []" using assms(2,3) by (cases b) (auto simp: same_family_def)
  show ?thesis using assms(4) B6 [of w] B6 [of v] by (simp add: v6 v)
qed

lemma span_eq: "Valid r \<Longrightarrow> span r = ((hi r - lo r) div 2 ^ 64, (hi r - lo r) mod 2 ^ 64)"
  using plain_as16 [of "r_from r" "r_to r"] sub64_pair [of "addr_as16 (r_from r)" "addr_as16 (r_to r)"]
  by (simp add: Valid_iff span_def Let_def)

lemma total_size_Cons: "total_size (r # rs) = range_size r + total_size rs"
  by (simp add: total_size_def)

lemma count_loop_ok:
  assumes "0 \<le> n" "n \<le> limit" "limit < 2 ^ 64"
  shows "count_loop limit n rs = (if n + total_size rs \<le> limit then (n + total_size rs, False) else (limit, True))"
  using assms(1,2)
proof (induction rs arbitrary: n)
  case Nil
  then show ?case by (simp add: total_size_def)
next
  case (Cons r rs)
  show ?case
  proof (cases "Valid r")
    case False
    then show ?thesis using Cons by (simp add: total_size_Cons range_size_def)
  next
    case v: True
    define d where "d = hi r - lo r"
    have d: "0 \<le> d" "range_size r = d + 1" using v Valid_le [OF v] by (simp_all add: d_def range_size_def)
    have sp: "span r = (d div 2 ^ 64, d mod 2 ^ 64)" using span_eq [OF v] by (simp add: d_def)
    show ?thesis
    proof (cases "d < 2 ^ 64 - 1")
      case False
      then have "d div 2 ^ 64 \<noteq> 0 \<or> d mod 2 ^ 64 = 2 ^ 64 - 1"
        using d(1) by (cases "d < 2 ^ 64") (auto simp: div_pos_pos_trivial mod_pos_pos_trivial zdiv_eq_0_iff)
      then have "count_loop limit n (r # rs) = (limit, True)" using v sp by (auto simp: Let_def)
      then show ?thesis using False d Cons.prems assms(3) total_size_nonneg [of rs] by (simp add: total_size_Cons)
    next
      case True
      then have q: "d div 2 ^ 64 = 0" "d mod 2 ^ 64 = d" "(d + 1) mod 2 ^ 64 = d + 1"
        using d(1) by (simp_all add: div_pos_pos_trivial mod_pos_pos_trivial)
      show ?thesis
      proof (cases "n + (d + 1) \<le> limit")
        case False
        have "(n + (d + 1)) mod 2 ^ 64 > limit \<or> n + (d + 1) \<ge> 2 ^ 64"
          using False Cons.prems d(1) by (cases "n + (d + 1) < 2 ^ 64") (simp_all add: mod_pos_pos_trivial)
        then have "count_loop limit n (r # rs) = (limit, True)"
          using v sp q True by (auto simp: Let_def add64_def)
        then show ?thesis using False d total_size_nonneg [of rs] by (simp add: total_size_Cons)
      next
        case in_limit: True
        have "(n + (d + 1)) mod 2 ^ 64 = n + (d + 1)"
          using in_limit Cons.prems d(1) assms(3) by (simp add: mod_pos_pos_trivial)
        then have "count_loop limit n (r # rs) = count_loop limit (n + (d + 1)) rs"
          using v sp q True in_limit assms(3) by (auto simp: Let_def add64_def)
        then show ?thesis
          using Cons.IH [of "n + (d + 1)"] in_limit Cons.prems d by (simp add: total_size_Cons add.assoc)
      qed
    qed
  qed
qed

section \<open>Cover\<close>

subsection \<open>Bytes\<close>

lemma bytes_val_bound:
  "\<forall>x \<in> set xs. 0 \<le> x \<and> x < 256 \<Longrightarrow> 0 \<le> bytes_val 256 xs \<and> bytes_val 256 xs < 256 ^ length xs"
proof (induction xs)
  case (Cons x xs)
  then have "0 \<le> x" "x \<le> 255" by auto
  then have "x * 256 ^ length xs \<le> 255 * 256 ^ length xs" "0 \<le> x * 256 ^ length xs"
    by (intro mult_right_mono mult_nonneg_nonneg; simp)+
  moreover have "0 \<le> bytes_val 256 xs" "bytes_val 256 xs < 256 ^ length xs" using Cons by auto
  moreover have "256 ^ length (x # xs) = 256 * (256::int) ^ length xs" by simp
  ultimately show ?case unfolding bytes_val_Cons by linarith
qed (simp add: bytes_val_def)

lemma bytes_val_ff: "bytes_val 256 (replicate n 255) = 256 ^ n - 1"
  by (induction n) (simp_all add: bytes_val_Cons, simp add: bytes_val_def)

lemma setHostBits_ff: "setHostBits bs 0 = replicate (length bs) 255"
  by (induction bs) auto

lemma setHostBits_length [simp]: "length (setHostBits bs n) = length bs"
  by (induction bs arbitrary: n) auto

lemma or_low_mask:
  fixes b :: int
  shows "b OR (2 ^ m - 1) = clear_low m b + (2 ^ m - 1)"
proof -
  have b: "b = push_bit m (drop_bit m b) OR take_bit m b"
    by (simp add: bit_eq_iff bit_simps) auto
  have "b OR mask m = push_bit m (drop_bit m b) OR mask m"
    by (rule bit_eqI) (auto simp: bit_simps)
  also have "\<dots> = push_bit m (drop_bit m b) + mask m"
    by (rule disjunctive_add [symmetric]) (auto simp: bit_simps)
  finally show ?thesis by (simp add: mask_eq_exp_minus_1 clear_low_def push_bit_eq_mult drop_bit_eq_div)
qed

text \<open>Setting host bits byte by byte sets the low bits of the number.\<close>

lemma setHostBits_val:
  assumes "\<forall>x \<in> set bs. 0 \<le> x \<and> x < 256" "0 \<le> n" "n \<le> 8 * int (length bs)"
  shows "bytes_val 256 (setHostBits bs n) =
    clear_low (8 * length bs - nat n) (bytes_val 256 bs) + 2 ^ (8 * length bs - nat n) - 1"
  using assms
proof (induction bs arbitrary: n)
  case Nil
  then show ?case by (simp add: clear_low_def bytes_val_def)
next
  case (Cons b bs)
  have V: "0 \<le> bytes_val 256 bs" "bytes_val 256 bs < 256 ^ length bs"
    using bytes_val_bound [of bs] Cons.prems(1) by auto
  have p: "(256::int) ^ length bs = 2 ^ (8 * length bs)" by (simp add: power_mult)
  show ?case
  proof (cases "n \<ge> 8")
    case True
    define k where "k = 8 * length bs - nat (n - 8)"
    have k: "8 * length (b # bs) - nat n = k" using True by (simp add: k_def nat_diff_distrib')
    have kle: "k \<le> 8 * length bs" by (simp add: k_def)
    have "(2::int) ^ (8 * length bs) = 2 ^ (8 * length bs - k) * 2 ^ k"
      using kle by (simp flip: power_add)
    then have "b * 256 ^ length bs + bytes_val 256 bs = bytes_val 256 bs + (b * 2 ^ (8 * length bs - k)) * 2 ^ k"
      by (simp add: p)
    then have "(b * 256 ^ length bs + bytes_val 256 bs) div 2 ^ k = b * 2 ^ (8 * length bs - k) + bytes_val 256 bs div 2 ^ k"
      by (simp only: div_mult_self1) simp
    then have "clear_low k (b * 256 ^ length bs + bytes_val 256 bs) =
        b * (2 ^ (8 * length bs - k) * 2 ^ k) + clear_low k (bytes_val 256 bs)"
      unfolding clear_low_def by (simp only: distrib_right mult.assoc)
    then have "clear_low k (b * 256 ^ length bs + bytes_val 256 bs) =
        b * 256 ^ length bs + clear_low k (bytes_val 256 bs)"
      using \<open>2 ^ (8 * length bs) = 2 ^ (8 * length bs - k) * 2 ^ k\<close> by (simp only: p)
    moreover have "n - 8 \<le> 8 * int (length bs)" "0 \<le> n - 8" using Cons.prems True by auto
    ultimately show ?thesis
      using True Cons.IH [of "n - 8"] Cons.prems(1) unfolding k by (simp add: bytes_val_Cons k_def [symmetric])
  next
    case False
    define m where "m = 8 - nat n"
    have m: "8 * length (b # bs) - nat n = m + 8 * length bs" using False Cons.prems by (simp add: m_def)
    have ff: "b OR (0xff div 2 ^ nat n) = clear_low m b + 2 ^ m - 1"
    proof -
      have "n \<in> {0, 1, 2, 3, 4, 5, 6, 7}" using False Cons.prems by auto
      then have "(0xff::int) div 2 ^ nat n = 2 ^ m - 1" by (auto simp: m_def)
      then show ?thesis using or_low_mask [of b m] by simp
    qed
    have "clear_low (m + 8 * length bs) (b * 256 ^ length bs + bytes_val 256 bs) = clear_low m b * 256 ^ length bs"
    proof -
      have "(b * 256 ^ length bs + bytes_val 256 bs) div 2 ^ (8 * length bs) = b"
        using V by (simp add: p div_add1_eq div_pos_pos_trivial)
      then have "(b * 256 ^ length bs + bytes_val 256 bs) div 2 ^ (m + 8 * length bs) = b div 2 ^ m"
        by (simp add: power_add mult.commute [of "2 ^ m"] zdiv_zmult2_eq)
      then show ?thesis by (simp add: clear_low_def p power_add algebra_simps)
    qed
    moreover have "bytes_val 256 (setHostBits (b # bs) n) = (clear_low m b + 2 ^ m - 1) * 256 ^ length bs + 256 ^ length bs - 1"
    proof (cases "n = 0")
      case True
      have "b div 256 = 0" using Cons.prems(1) by (simp add: div_pos_pos_trivial)
      then show ?thesis using True
        by (simp add: m_def clear_low_def bytes_val_Cons setHostBits_ff bytes_val_ff)
    next
      case nz: False
      then show ?thesis using False Cons.prems ff
        by (simp add: bytes_val_Cons setHostBits_ff bytes_val_ff)
    qed
    ultimately show ?thesis unfolding m by (simp add: bytes_val_Cons power_add p algebra_simps)
  qed
qed

lemma to_bytes_Suc: "to_bytes (Suc n) v = byte_at v n # to_bytes n v"
proof -
  have "[0..<Suc n] = 0 # map Suc [0..<n]" by (simp only: upt_conv_Cons map_Suc_upt zero_less_Suc)
  then show ?thesis by (simp add: to_bytes_def)
qed

lemma to_bytes_val: "0 \<le> v \<Longrightarrow> bytes_val 256 (to_bytes n v) = v mod 256 ^ n"
proof (induction n)
  case 0
  then show ?case by (simp add: to_bytes_def bytes_val_def)
next
  case (Suc n)
  have "length (to_bytes n v) = n" by (simp add: to_bytes_def)
  moreover have "v mod (256 ^ n * 256) = 256 ^ n * (v div 256 ^ n mod 256) + v mod 256 ^ n"
    by (rule zmod_zmult2_eq) simp
  ultimately show ?case using Suc by (simp add: to_bytes_Suc bytes_val_Cons byte_at_def mult.commute)
qed

lemma to_bytes_range: "\<forall>x \<in> set (to_bytes n v). 0 \<le> x \<and> x < 256"
  by (auto simp: to_bytes_def byte_at_def)

lemma length_to_bytes [simp]: "length (to_bytes n v) = n"
  by (simp add: to_bytes_def)

lemma clear_low_bounds:
  assumes "0 \<le> v" "v < 2 ^ w" "k \<le> w"
  shows "0 \<le> clear_low k v" "clear_low k v + 2 ^ k \<le> 2 ^ w" "clear_low k v \<le> v" "v < clear_low k v + 2 ^ k"
proof -
  have d: "v = (v div 2 ^ k) * 2 ^ k + v mod 2 ^ k" "0 \<le> v mod 2 ^ k" "v mod 2 ^ k < 2 ^ k"
    by (simp_all only: div_mult_mod_eq) simp_all
  have "0 \<le> v div 2 ^ k" using assms(1) by (simp add: pos_imp_zdiv_nonneg_iff)
  then show "0 \<le> clear_low k v" by (simp add: clear_low_def)
  show "clear_low k v \<le> v" "v < clear_low k v + 2 ^ k" using d unfolding clear_low_def by linarith+
  have p: "(2::int) ^ w = 2 ^ (w - k) * 2 ^ k" using assms(3) by (simp flip: power_add)
  have "v div 2 ^ k < 2 ^ (w - k)"
  proof (rule ccontr)
    assume "\<not> v div 2 ^ k < 2 ^ (w - k)"
    then have "2 ^ (w - k) * 2 ^ k \<le> (v div 2 ^ k) * 2 ^ k" by (intro mult_right_mono) auto
    then show False using assms(2) d p by linarith
  qed
  then have "(v div 2 ^ k + 1) * 2 ^ k \<le> 2 ^ (w - k) * 2 ^ k" by (intro mult_right_mono) auto
  then show "clear_low k v + 2 ^ k \<le> 2 ^ w" by (simp add: clear_low_def p algebra_simps)
qed

lemma host_bits_val:
  assumes "0 \<le> v" "v < 2 ^ (8 * n)" "0 \<le> bits" "bits \<le> int (8 * n)" "k = 8 * n - nat bits"
  shows "bytes_val 256 (setHostBits (to_bytes n v) bits) = clear_low k v + 2 ^ k - 1"
proof -
  have "(256::int) ^ n = 2 ^ (8 * n)" by (simp add: power_mult)
  then have "bytes_val 256 (to_bytes n v) = v" using to_bytes_val [OF assms(1), of n] assms(1,2) by simp
  then show ?thesis
    using setHostBits_val [OF to_bytes_range, of bits n v] assms(3,4,5) by simp
qed

text \<open>What \<open>prefixFrom\<close>, \<open>lastAddr\<close> and \<open>FromPrefix\<close> do to an address without a zone.\<close>

definition host_len :: "addr \<Rightarrow> int \<Rightarrow> nat" where
  "host_len a bits = addr_bit_len a - nat bits"

definition block_start :: "addr \<Rightarrow> nat \<Rightarrow> int" where
  "block_start a k = ikey a - addr_value a + clear_low k (addr_value a)"

lemma prefixFrom_plain:
  "plain a \<Longrightarrow> 0 \<le> bits \<Longrightarrow> bits \<le> int (addr_bit_len a) \<Longrightarrow> prefixFrom a bits = \<lparr>px_addr = a, px_bits = bits\<rparr>"
  by (elim plain_cases) (auto simp: prefixFrom_def)

lemma value_bounds: "plain a \<Longrightarrow> 0 \<le> addr_value a \<and> addr_value a < 2 ^ addr_bit_len a"
proof (elim plain_cases)
  fix w assume "a = V4 w"
  then show ?thesis using B4 [of w] by simp
next
  fix w assume "a = V6 w []"
  then show ?thesis using B6 [of w] by simp
qed

lemma lastAddr_plain:
  assumes "plain a" "0 \<le> bits" "bits \<le> int (addr_bit_len a)" "k = host_len a bits"
  shows "plain (lastAddr (prefixFrom a bits)) \<and> same_family (lastAddr (prefixFrom a bits)) a \<and>
    ikey (lastAddr (prefixFrom a bits)) = block_start a k + 2 ^ k - 1"
proof -
  have p: "prefixFrom a bits = \<lparr>px_addr = a, px_bits = bits\<rparr>" using prefixFrom_plain assms by simp
  have v: "0 \<le> addr_value a" "addr_value a < 2 ^ addr_bit_len a" using value_bounds [OF assms(1)] by auto
  note cb = clear_low_bounds [OF v, of k]
  have kle: "k \<le> addr_bit_len a" by (simp add: assms(4) host_len_def)
  from assms(1) show ?thesis
  proof (cases rule: plain_cases)
    case (v4 w)
    have b: "0 \<le> clear_low k (uint w) + 2 ^ k - 1" "clear_low k (uint w) + 2 ^ k - 1 < 2 ^ LENGTH(32)"
      using cb kle v4 one_le_power [of "2::int" k] by simp_all
    have "bytes_val 256 (setHostBits (to_bytes 4 (uint w)) bits) = clear_low k (uint w) + 2 ^ k - 1"
      by (rule host_bits_val) (use v v4 assms in \<open>auto simp: host_len_def\<close>)
    then have "lastAddr (prefixFrom a bits) = V4 (word_of_int (clear_low k (uint w) + 2 ^ k - 1))"
      unfolding p by (simp add: v4 lastAddr.simps)
    then show ?thesis
      unfolding \<open>lastAddr (prefixFrom a bits) = _\<close> using uint_of_int [OF b] v4
      by (simp add: same_family_def block_start_def del: of_int_diff of_int_add)
  next
    case (v6 w)
    have b: "0 \<le> clear_low k (uint w) + 2 ^ k - 1" "clear_low k (uint w) + 2 ^ k - 1 < 2 ^ LENGTH(128)"
      using cb kle v6 one_le_power [of "2::int" k] by simp_all
    have "bytes_val 256 (setHostBits (to_bytes 16 (uint w)) bits) = clear_low k (uint w) + 2 ^ k - 1"
      by (rule host_bits_val) (use v v6 assms in \<open>auto simp: host_len_def\<close>)
    then have "lastAddr (prefixFrom a bits) = V6 (word_of_int (clear_low k (uint w) + 2 ^ k - 1)) []"
      unfolding p by (simp add: v6 lastAddr.simps)
    then show ?thesis
      unfolding \<open>lastAddr (prefixFrom a bits) = _\<close> using uint_of_int [OF b] v6
      by (simp add: same_family_def block_start_def del: of_int_diff of_int_add)
  qed
qed

subsection \<open>Alignment\<close>

lemma trailingZeros_le: "trailingZeros w v \<le> w"
  by (induction w v rule: trailingZeros.induct) auto

lemma trailingZeros_dvd: "2 ^ trailingZeros w v dvd v"
proof (induction w v rule: trailingZeros.induct)
  case (2 w v)
  show ?case
  proof (cases "odd v")
    case False
    then obtain u where u: "v = 2 * u" by blast
    then have "2 ^ trailingZeros w u dvd u" using 2 False by simp
    then show ?thesis using u by simp
  qed simp
qed simp

lemma trailingZeros_max: "trailingZeros w v < w \<Longrightarrow> \<not> 2 ^ Suc (trailingZeros w v) dvd v"
proof (induction w v rule: trailingZeros.induct)
  case (2 w v)
  show ?case
  proof (cases "odd v")
    case False
    then obtain u where u: "v = 2 * u" by blast
    then have "\<not> 2 ^ Suc (trailingZeros w u) dvd u" using 2 False by simp
    moreover have "2 ^ Suc (Suc n) dvd 2 * u \<longleftrightarrow> 2 ^ Suc n dvd u" for n
      using dvd_mult_cancel_left [of 2 "2 ^ Suc n" u] by (simp only: power_Suc) simp
    ultimately show ?thesis using u by (simp del: power_Suc)
  qed simp
qed simp

lemma alignment_ok:
  assumes "plain a"
  shows "alignment a \<le> addr_bit_len a \<and> 2 ^ alignment a dvd addr_value a \<and>
    (alignment a < addr_bit_len a \<longrightarrow> \<not> 2 ^ Suc (alignment a) dvd addr_value a)"
  using assms
proof (cases rule: plain_cases)
  case (v4 w)
  then show ?thesis using trailingZeros_le [of 32] trailingZeros_dvd [of 32] trailingZeros_max [of 32 "uint w"]
    by (simp add: alignment_def)
next
  case (v6 w)
  define l h where "l = uint w mod 2 ^ 64" and "h = uint w div 2 ^ 64"
  have e: "uint w = h * 2 ^ 64 + l" by (simp add: h_def l_def)
  show ?thesis
  proof (cases "l = 0")
    case False
    define t where "t = trailingZeros 64 l"
    have t: "alignment a = t" using False v6 by (simp add: alignment_def t_def l_def Let_def)
    have dvd: "2 ^ t dvd l" and "t \<le> 64" by (simp_all add: t_def trailingZeros_dvd trailingZeros_le)
    have "t \<noteq> 64"
    proof
      assume "t = 64"
      then have "2 ^ 64 dvd l" using dvd by simp
      moreover have "0 \<le> l" "l < 2 ^ 64" by (simp_all add: l_def)
      ultimately show False using False zdvd_not_zless [of l "2 ^ 64"] by (simp add: zdvd_not_zless less_le)
    qed
    then have t64: "t < 64" using \<open>t \<le> 64\<close> by simp
    then have up: "(2::int) ^ t dvd h * 2 ^ 64" "(2::int) ^ Suc t dvd h * 2 ^ 64"
      by (intro dvd_mult le_imp_power_dvd; simp)+
    have "\<not> 2 ^ Suc t dvd l" using trailingZeros_max [of 64 l] t64 by (simp add: t_def)
    then have "2 ^ t dvd uint w" "\<not> 2 ^ Suc t dvd uint w"
      using dvd up unfolding e by (simp_all add: dvd_add_right_iff del: power_Suc)
    then show ?thesis using t t64 v6 by (simp del: power_Suc)
  next
    case True
    define t where "t = trailingZeros 64 h"
    have t: "alignment a = 64 + t" using True v6 by (simp add: alignment_def t_def h_def l_def Let_def)
    have "2 ^ t dvd h" "t \<le> 64" by (simp_all add: t_def trailingZeros_dvd trailingZeros_le)
    moreover have w: "uint w = h * 2 ^ 64" using e True by simp
    moreover have "t < 64 \<Longrightarrow> \<not> 2 ^ Suc t dvd h" using trailingZeros_max [of 64 h] by (simp add: t_def)
    moreover have d: "2 ^ (64 + n) dvd uint w \<longleftrightarrow> 2 ^ n dvd h" for n
      unfolding w power_add using dvd_mult_cancel_right [of "2 ^ n" "2 ^ 64" h] by (simp add: mult.commute)
    ultimately have "2 ^ (64 + t) dvd uint w" "t < 64 \<longrightarrow> \<not> 2 ^ (64 + Suc t) dvd uint w" by blast+
    then show ?thesis using t v6 \<open>t \<le> 64\<close> unfolding add_Suc_right by (simp del: power_Suc)
  qed
qed

subsection \<open>Blocks\<close>

definition fbase :: "addr \<Rightarrow> int" where
  "fbase a = ikey a - addr_value a"

lemma ikey_fbase: "ikey a = fbase a + addr_value a"
  by (simp add: fbase_def)

lemma fbase_same: "plain a \<Longrightarrow> plain b \<Longrightarrow> same_family a b \<Longrightarrow> fbase a = fbase b"
  by (elim plain_cases) (auto simp: fbase_def same_family_def)

lemma mask_plain:
  assumes "plain a" "0 \<le> bits" "bits \<le> int (addr_bit_len a)" "k = host_len a bits"
  shows "plain (addr_mask a (nat bits)) \<and> same_family (addr_mask a (nat bits)) a \<and>
    addr_value (addr_mask a (nat bits)) = clear_low k (addr_value a)"
proof -
  have v: "0 \<le> addr_value a" "addr_value a < 2 ^ addr_bit_len a" using value_bounds [OF assms(1)] by auto
  have kle: "k \<le> addr_bit_len a" by (simp add: assms(4) host_len_def)
  note cb = clear_low_bounds [OF v kle]
  have "0 < (2::int) ^ k" by simp
  then have c: "clear_low k (addr_value a) < 2 ^ addr_bit_len a" using cb(2) by linarith
  from assms(1) show ?thesis
  proof (cases rule: plain_cases)
    case (v4 w)
    have "clear_low k (uint w) < 2 ^ LENGTH(32)" using c v4 by simp
    then show ?thesis using cb(1) v4 assms(4) uint_of_int [of "clear_low k (uint w)", where 'a = 32]
      by (simp add: same_family_def host_len_def)
  next
    case (v6 w)
    have "clear_low k (uint w) < 2 ^ LENGTH(128)" using c v6 by simp
    then show ?thesis using cb(1) v6 assms(4) uint_of_int [of "clear_low k (uint w)", where 'a = 128]
      by (simp add: same_family_def host_len_def)
  qed
qed

lemma FromPrefix_block:
  assumes "plain a" "0 \<le> bits" "bits \<le> int (addr_bit_len a)" "k = host_len a bits"
  shows "Valid (FromPrefix (prefixFrom a bits)) \<and> same_family (r_from (FromPrefix (prefixFrom a bits))) a \<and>
    lo (FromPrefix (prefixFrom a bits)) = fbase a + clear_low k (addr_value a) \<and>
    hi (FromPrefix (prefixFrom a bits)) = fbase a + clear_low k (addr_value a) + 2 ^ k - 1"
proof -
  note m = mask_plain [OF assms]
  define b where "b = addr_mask a (nat bits)"
  have len: "addr_bit_len b = addr_bit_len a" using m by (simp add: b_def same_family_def)
  have p: "prefixFrom b bits = \<lparr>px_addr = b, px_bits = bits\<rparr>"
    by (rule prefixFrom_plain) (use m assms len in \<open>auto simp: b_def\<close>)
  have f: "FromPrefix (prefixFrom a bits) = \<lparr>r_from = b, r_to = lastAddr (prefixFrom b bits)\<rparr>"
    using assms unfolding p by (simp add: FromPrefix_def prefixFrom_plain prefix_is_valid_def prefix_masked_def b_def Let_def)
  have l: "plain (lastAddr (prefixFrom b bits)) \<and> same_family (lastAddr (prefixFrom b bits)) b \<and>
    ikey (lastAddr (prefixFrom b bits)) = block_start b k + 2 ^ k - 1"
    by (rule lastAddr_plain) (use m assms len in \<open>auto simp: b_def host_len_def\<close>)
  have "clear_low k (clear_low k (addr_value a)) = clear_low k (addr_value a)"
    by (simp add: clear_low_def)
  then have bs: "block_start b k = fbase a + clear_low k (addr_value a)" "ikey b = fbase a + clear_low k (addr_value a)"
    using m fbase_same [of b a] assms(1) by (auto simp: block_start_def fbase_def b_def)
  show ?thesis
    using l m bs one_le_power [of "2::int" k] by (auto simp: f Valid_iff b_def same_family_def)
qed

text \<open>An aligned block starts at its address.\<close>

lemma clear_low_aligned: "2 ^ k dvd v \<Longrightarrow> clear_low k v = v" for v :: int
  by (simp add: clear_low_def)

definition aligned_at :: "addr \<Rightarrow> nat \<Rightarrow> bool" where
  "aligned_at a k \<longleftrightarrow> plain a \<and> k \<le> addr_bit_len a \<and> 2 ^ k dvd addr_value a"

definition block :: "addr \<Rightarrow> nat \<Rightarrow> ip_prefix" where
  "block a k = prefixFrom a (int (addr_bit_len a - k))"

lemma block_range:
  assumes "aligned_at a k"
  shows "Valid (FromPrefix (block a k)) \<and> r_from (FromPrefix (block a k)) = a \<and>
    lo (FromPrefix (block a k)) = ikey a \<and> hi (FromPrefix (block a k)) = ikey a + 2 ^ k - 1 \<and>
    r_to (FromPrefix (block a k)) = lastAddr (block a k)"
proof -
  have k: "host_len a (int (addr_bit_len a - k)) = k" "plain a" "2 ^ k dvd addr_value a"
    using assms by (auto simp: host_len_def aligned_at_def)
  note b = FromPrefix_block [OF k(2), of "int (addr_bit_len a - k)" k]
  have v: "Valid (FromPrefix (block a k))" "lo (FromPrefix (block a k)) = ikey a"
    "hi (FromPrefix (block a k)) = ikey a + 2 ^ k - 1"
    using b k clear_low_aligned [OF k(3)] by (auto simp: block_def ikey_fbase)
  then have fr: "r_from (FromPrefix (block a k)) = a" using ikey_inj k(2) by (auto simp: Valid_iff)
  moreover have "r_to (FromPrefix (block a k)) = lastAddr (block a k)"
  proof -
    have "plain (lastAddr (block a k))" "ikey (lastAddr (block a k)) = ikey a + 2 ^ k - 1"
      using lastAddr_plain [OF k(2), of "int (addr_bit_len a - k)" k] k clear_low_aligned [OF k(3)]
      by (auto simp: block_def block_start_def)
    then show ?thesis using v ikey_inj by (auto simp: Valid_iff)
  qed
  ultimately show ?thesis using v by simp
qed

lemma block_ends:
  assumes "aligned_at a k"
  shows "lo (FromPrefix (block a k)) = ikey a" "hi (FromPrefix (block a k)) = ikey a + 2 ^ k - 1"
    "Valid (FromPrefix (block a k))"
  using block_range [OF assms] by blast+

lemma largest_loop_ok:
  assumes "plain start" "plain to'" "same_family start to'" "ikey start \<le> ikey to'"
    and "len \<le> addr_bit_len start" "addr_bit_len start - alignment start \<le> len"
  shows "\<exists>k. largest_loop start to' len = block start k \<and> k \<le> addr_bit_len start - len \<and>
    ikey start + 2 ^ k - 1 \<le> ikey to' \<and>
    (k < addr_bit_len start - len \<longrightarrow> ikey to' < ikey start + 2 ^ Suc k - 1)"
  using assms(5,6)
proof (induction "addr_bit_len start - len" arbitrary: len)
  case 0
  have "largest_loop start to' len = prefixFrom start (int len)"
    using 0 by (subst largest_loop.simps) (simp add: Let_def)
  moreover have "addr_bit_len start = len" using 0 by simp
  ultimately show ?case using assms(4) by (intro exI [of _ 0]) (simp add: block_def)
next
  case (Suc n)
  define k where "k = addr_bit_len start - len"
  have len: "len = addr_bit_len start - k" "k \<le> addr_bit_len start" using Suc.prems by (simp_all add: k_def)
  have al: "aligned_at start k"
  proof -
    have "k \<le> alignment start" using Suc.prems(2) by (simp add: k_def)
    then have "2 ^ k dvd addr_value start" using alignment_ok [OF assms(1)] power_le_dvd by blast
    then show ?thesis using assms(1) len by (simp add: aligned_at_def)
  qed
  have p: "prefixFrom start (int len) = block start k" by (simp add: block_def len)
  note br = block_range [OF al]
  then have h: "ikey (lastAddr (block start k)) = ikey start + 2 ^ k - 1" by metis
  have "plain (lastAddr (block start k))" using br by (auto simp: Valid_iff)
  then have le: "lastAddr (block start k) \<le> to' \<longleftrightarrow> ikey start + 2 ^ k - 1 \<le> ikey to'"
    using ikey_le assms(2) h by simp
  show ?case
  proof (cases "ikey start + 2 ^ k - 1 \<le> ikey to'")
    case True
    then have "largest_loop start to' len = block start k"
      using le by (subst largest_loop.simps) (simp add: p Let_def)
    then show ?thesis using True by (intro exI [of _ k]) (simp add: k_def)
  next
    case False
    have lt: "\<not> len \<ge> addr_bit_len start" using Suc.hyps(2) by simp
    then have step: "largest_loop start to' len = largest_loop start to' (Suc len)"
      using False le by (subst largest_loop.simps) (simp add: p Let_def)
    obtain k' where k': "largest_loop start to' (Suc len) = block start k'" "k' \<le> addr_bit_len start - Suc len"
      "ikey start + 2 ^ k' - 1 \<le> ikey to'" "k' < addr_bit_len start - Suc len \<longrightarrow> ikey to' < ikey start + 2 ^ Suc k' - 1"
    proof -
      have "n = addr_bit_len start - Suc len" "Suc len \<le> addr_bit_len start" using Suc.hyps(2) lt by simp_all
      then show ?thesis using Suc.hyps(1) [of "Suc len"] Suc.prems(2) that by auto
    qed
    have "ikey to' < ikey start + 2 ^ Suc k' - 1"
    proof (cases "k' = addr_bit_len start - Suc len")
      case True
      then have "Suc k' = k" using lt by (simp add: k_def)
      then show ?thesis using False by (simp del: power_Suc)
    qed (use k' in auto)
    then show ?thesis using k' step by (intro exI [of _ k']) auto
  qed
qed

text \<open>The largest block that starts at the address and fits.\<close>

definition greedy :: "addr \<Rightarrow> addr \<Rightarrow> nat \<Rightarrow> bool" where
  "greedy start to' k \<longleftrightarrow> aligned_at start k \<and> ikey start + 2 ^ k - 1 \<le> ikey to' \<and>
     (\<forall>j. aligned_at start j \<and> ikey start + 2 ^ j - 1 \<le> ikey to' \<longrightarrow> j \<le> k)"

lemma largestPrefix_ok:
  assumes "plain start" "plain to'" "same_family start to'" "ikey start \<le> ikey to'"
  shows "\<exists>k. largestPrefix start to' = block start k \<and> greedy start to' k"
proof -
  note al = alignment_ok [OF assms(1)]
  obtain k where k: "largestPrefix start to' = block start k" "k \<le> alignment start" "ikey start + 2 ^ k - 1 \<le> ikey to'"
    "k < alignment start \<longrightarrow> ikey to' < ikey start + 2 ^ Suc k - 1"
    using largest_loop_ok [OF assms, of "addr_bit_len start - alignment start"] al
    by (auto simp: largestPrefix_def)
  have "aligned_at start k" using assms(1) al k(2) power_le_dvd by (auto simp: aligned_at_def)
  moreover have "j \<le> k" if "aligned_at start j" "ikey start + 2 ^ j - 1 \<le> ikey to'" for j
  proof (rule ccontr)
    assume "\<not> j \<le> k"
    then have "Suc k \<le> j" by simp
    have "j \<le> alignment start"
    proof (rule ccontr)
      assume "\<not> j \<le> alignment start"
      then have "2 ^ Suc (alignment start) dvd addr_value start" "alignment start < addr_bit_len start"
        using that(1) power_le_dvd [of 2 j "addr_value start" "Suc (alignment start)"] by (auto simp: aligned_at_def)
      then show False using al by blast
    qed
    then have "ikey to' < ikey start + 2 ^ Suc k - 1" using k(4) \<open>Suc k \<le> j\<close> by simp
    moreover have "(2::int) ^ Suc k \<le> 2 ^ j" using \<open>Suc k \<le> j\<close> by (intro power_increasing) auto
    ultimately show False using that(2) by linarith
  qed
  ultimately show ?thesis using k by (auto simp: greedy_def)
qed

text \<open>
  A block that reaches past a greedy block and starts no later also starts with it, so it
  would be a larger choice. \<open>anchored\<close> says that no block of the range crosses an address.
\<close>

definition anchored :: "addr \<Rightarrow> addr \<Rightarrow> addr \<Rightarrow> bool" where
  "anchored from0 start to' \<longleftrightarrow>
     (\<forall>a j. aligned_at a j \<and> ikey from0 \<le> ikey a \<and> ikey a + 2 ^ j - 1 \<le> ikey to' \<and>
        ikey a \<le> ikey start \<and> ikey start \<le> ikey a + 2 ^ j - 1 \<longrightarrow> a = start)"

lemma dvd_gap:
  fixes s t :: int
  assumes "2 ^ j dvd s" "2 ^ j dvd t" "s < t"
  shows "s + 2 ^ j \<le> t"
proof -
  have "2 ^ j dvd t - s" using assms by simp
  then show ?thesis using assms(3) zdvd_imp_le [of "2 ^ j" "t - s"] by simp
qed

lemma anchored_next:
  assumes an: "anchored from0 start to'" and gr: "greedy start to' k"
    and nx: "plain nxt" "same_family nxt start" "ikey nxt = ikey start + 2 ^ k"
    and fam: "plain from0" "same_family from0 start" "plain to'" "same_family to' start"
  shows "anchored from0 nxt to'"
  unfolding anchored_def
proof (intro allI impI, elim conjE)
  fix a j
  assume a: "aligned_at a j" "ikey from0 \<le> ikey a" "ikey a + 2 ^ j - 1 \<le> ikey to'" "ikey a \<le> ikey nxt"
    "ikey nxt \<le> ikey a + 2 ^ j - 1"
  have st: "aligned_at start k" using gr by (simp add: greedy_def)
  have pl: "plain a" "plain start" using a st by (auto simp: aligned_at_def)
  have "same_family a start"
  proof -
    have "ikey from0 < 2 ^ 33 \<longleftrightarrow> ikey start < 2 ^ 33" "ikey nxt < 2 ^ 33 \<longleftrightarrow> ikey start < 2 ^ 33"
      using same_family_iff [OF fam(1) pl(2)] same_family_iff [OF nx(1) pl(2)] fam(2) nx(2) by blast+
    then have "ikey a < 2 ^ 33 \<longleftrightarrow> ikey start < 2 ^ 33" using a(2,4) by (meson le_less_trans order.strict_trans1)
    then show ?thesis using same_family_iff [OF pl] by blast
  qed
  then have fb: "fbase a = fbase start" using fbase_same pl by blast
  show "a = nxt"
  proof (rule ccontr)
    assume "a \<noteq> nxt"
    then have lt: "ikey a < ikey start + 2 ^ k" using a(4) nx ikey_inj pl(1) by fastforce
    have va: "2 ^ j dvd addr_value a" "2 ^ k dvd addr_value start" using a(1) st by (auto simp: aligned_at_def)
    have vlt: "addr_value a < addr_value start + 2 ^ k" using lt fb by (simp add: ikey_fbase)
    have "k < j"
    proof (rule ccontr)
      assume "\<not> k < j"
      then have jk: "2 ^ j dvd (2::int) ^ k" by (intro le_imp_power_dvd) simp
      then have "2 ^ j dvd addr_value start" using va(2) by (rule dvd_trans)
      then have "2 ^ j dvd addr_value start + 2 ^ k" using jk by (rule dvd_add)
      then have "addr_value a + 2 ^ j \<le> addr_value start + 2 ^ k" using dvd_gap [OF va(1)] vlt by blast
      then show False using a(5) nx(3) fb by (simp add: ikey_fbase)
    qed
    then have "2 ^ k dvd addr_value a" using power_le_dvd [OF va(1), of k] by simp
    moreover have "2 ^ k dvd addr_value start + 2 ^ k" using va(2) by simp
    ultimately have "addr_value a \<le> addr_value start" using dvd_gap [of k "addr_value a" "addr_value start + 2 ^ k"] vlt by linarith
    moreover have "0 \<le> (2::int) ^ k" by simp
    ultimately have "ikey a \<le> ikey start" "ikey start \<le> ikey a + 2 ^ j - 1"
      using a(5) nx(3) fb unfolding ikey_fbase by linarith+
    then have "a = start" using an a by (auto simp: anchored_def)
    then have "j \<le> k" using gr a by (auto simp: greedy_def)
    then show False using \<open>k < j\<close> by simp
  qed
qed

text \<open>
  What \<open>Cover\<close> returns from some address on: greedy blocks, one after the other, that fill the
  range, each starting where every block of the range that meets its start must start.
\<close>

definition covers :: "addr \<Rightarrow> addr \<Rightarrow> addr \<Rightarrow> ip_prefix list \<Rightarrow> bool" where
  "covers from0 start to' ps \<longleftrightarrow>
     (\<forall>p \<in> set ps. \<exists>a k. p = block a k \<and> greedy a to' k \<and> anchored from0 a to' \<and> ikey start \<le> ikey a) \<and>
     iset (map FromPrefix ps) = {ikey start..ikey to'} \<and>
     sorted_wrt (\<lambda>p q. hi (FromPrefix p) < lo (FromPrefix q)) ps"

lemma cover_loop_ok:
  assumes "plain start" "plain to'" "same_family start to'" "ikey start \<le> ikey to'"
    and "anchored from0 start to'" "plain from0" "same_family from0 start"
  shows "covers from0 start to' (cover_loop start to')"
  using assms
proof (induction start to' rule: cover_loop.induct)
  case (1 start to')
  obtain k where k: "largestPrefix start to' = block start k" "greedy start to' k"
    using largestPrefix_ok "1.prems" by blast
  then have al: "aligned_at start k" and fit: "ikey start + 2 ^ k - 1 \<le> ikey to'" by (auto simp: greedy_def)
  note br = block_range [OF al]
  have l: "ikey (lastAddr (block start k)) = ikey start + 2 ^ k - 1" "plain (lastAddr (block start k))"
    "same_family (lastAddr (block start k)) start"
    using br by (metis, auto simp: Valid_iff same_family_def)
  have p1: "(1::int) \<le> 2 ^ k" by simp
  show ?case
  proof (cases "lastAddr (block start k) = to'")
    case True
    then have "cover_loop start to' = [block start k]" by (subst cover_loop.simps) (simp add: k Let_def)
    moreover have "ikey start + 2 ^ k - 1 = ikey to'" using True l(1) by simp
    ultimately show ?thesis using k(2) "1.prems"(5) block_ends [OF al] by (auto simp: covers_def)
  next
    case False
    then have lt: "lastAddr (block start k) < to'" using ikey_less ikey_inj l fit "1.prems"(2) by fastforce
    have fm: "same_family (lastAddr (block start k)) to'" using l(3) "1.prems"(3) by (simp add: same_family_def)
    define nxt where "nxt = addr_next (lastAddr (block start k))"
    have nx: "plain nxt" "ikey nxt = ikey start + 2 ^ k" "same_family nxt start"
      using next_plain [OF l(2) "1.prems"(2) fm lt] l by (auto simp: nxt_def same_family_def)
    have nt: "same_family nxt to'" "ikey nxt \<le> ikey to'"
      using nx "1.prems"(3) lt ikey_less [OF l(2) "1.prems"(2)] l(1) by (auto simp: same_family_def)
    have "fbase nxt = fbase to'" "fbase start = fbase to'"
      using fbase_same nx nt "1.prems" by blast+
    then have "addr_value start < addr_value nxt" "addr_value nxt \<le> addr_value to'"
      using nx(2) nt(2) p1 unfolding ikey_fbase by linarith+
    then have dist: "addr_distance nxt to' < addr_distance start to'" by (simp add: addr_distance_def)
    have step: "cover_loop start to' = block start k # cover_loop nxt to'"
      using False dist by (subst cover_loop.simps) (simp add: k Let_def nxt_def)
    have an: "anchored from0 nxt to'"
      by (rule anchored_next [OF "1.prems"(5) k(2) nx(1,3,2) "1.prems"(6,7,2)])
         (use "1.prems"(3) in \<open>simp add: same_family_def\<close>)
    have IH: "covers from0 nxt to' (cover_loop nxt to')"
    proof (rule "1.IH" [OF refl refl, unfolded k(1), folded nxt_def])
      show "\<not> (lastAddr (block start k) = to' \<or> \<not> addr_distance nxt to' < addr_distance start to')"
        using False dist by blast
      show "plain nxt" "plain to'" "same_family nxt to'" "ikey nxt \<le> ikey to'" "anchored from0 nxt to'" "plain from0"
        using nx nt an "1.prems" by blast+
      show "same_family from0 nxt" using nx(3) "1.prems"(7) by (simp add: same_family_def)
    qed
    have "\<forall>q \<in> set (cover_loop nxt to'). hi (FromPrefix (block start k)) < lo (FromPrefix q)"
    proof
      fix q assume "q \<in> set (cover_loop nxt to')"
      then obtain a j where q: "q = block a j" "greedy a to' j" "ikey nxt \<le> ikey a" using IH by (auto simp: covers_def)
      then have "lo (FromPrefix q) = ikey a" using block_range by (auto simp: greedy_def)
      then show "hi (FromPrefix (block start k)) < lo (FromPrefix q)"
        using block_ends(2) [OF al] nx(2) q(3) by linarith
    qed
    moreover have "{ikey start..ikey start + 2 ^ k - 1} \<union> {ikey nxt..ikey to'} = {ikey start..ikey to'}"
    proof -
      have "{u..u + m - 1} \<union> {u + m..v} = {u..v}" if "1 \<le> m" "u + m \<le> v" for u v m :: int
        using that by auto
      from this [OF p1] show ?thesis using nx(2) nt(2) by simp
    qed
    moreover have "ikey start \<le> ikey nxt" using nx(2) p1 by linarith
    then have "\<forall>p \<in> set (cover_loop nxt to'). \<exists>a k. p = block a k \<and> greedy a to' k \<and> anchored from0 a to' \<and> ikey start \<le> ikey a"
      using IH unfolding covers_def by (meson order.trans)
    ultimately show ?thesis
      using IH block_ends [OF al] k(2) "1.prems"(5) unfolding step covers_def by auto
  qed
qed

lemma anchored_first: "plain start \<Longrightarrow> anchored start start to'"
  by (auto simp: anchored_def aligned_at_def ikey_inj)

lemma Cover_ok: "Valid r \<Longrightarrow> covers (r_from r) (r_from r) (r_to r) (Cover r)"
  using cover_loop_ok [of "r_from r" "r_to r" "r_from r"] anchored_first
  by (auto simp: Cover_def Valid_iff same_family_def)

section \<open>Properties\<close>

text \<open>
  \<open>Merge\<close> returns the canonical form of an address set: valid ranges, in order, with a gap
  before each next one, that hold exactly the addresses of the valid input ranges.
\<close>

theorem Merge_canonical:
  "canonical (Merge rs) \<and> ranges_set (Merge rs) = ranges_set rs"
proof -
  have c: "canonical (Merge rs)" and i: "iset (Merge rs) = iset (filter Valid rs)" using Merge_iset by auto
  have "a \<in> ranges_set (Merge rs) \<longleftrightarrow> a \<in> ranges_set rs" for a
    using ranges_set_iff [OF canonical_Valid [OF c]] ranges_set_Valid i by simp
  then show ?thesis using c by blast
qed

text \<open>
  That form is unique: two lists of ranges merge to the same list exactly when they hold
  the same addresses, whatever their order, overlaps and invalid entries.
\<close>

theorem Merge_decides_equality:
  "Merge rs = Merge ss \<longleftrightarrow> ranges_set rs = ranges_set ss"
proof
  assume eq: "ranges_set rs = ranges_set ss"
  have "iset (Merge xs) = ikey ` ranges_set xs" for xs
    using Merge_iset [of xs] ikey_ranges_set [of "filter Valid xs"] by (simp add: ranges_set_filter)
  then have "iset (Merge rs) = iset (Merge ss)" using eq by simp
  then show "Merge rs = Merge ss" using canonical_unique Merge_iset by blast
next
  have "ranges_set (Merge xs) = ranges_set xs" for xs
  proof -
    have "a \<in> ranges_set (Merge xs) \<longleftrightarrow> a \<in> ranges_set xs" for a
      using ranges_set_iff [OF canonical_Valid] Merge_iset [of xs] ranges_set_Valid by simp
    then show ?thesis by blast
  qed
  then show "Merge rs = Merge ss \<Longrightarrow> ranges_set rs = ranges_set ss" by metis
qed

lemma Merge_set: "a \<in> ranges_set rs \<longleftrightarrow> plain a \<and> ikey a \<in> iset (Merge rs)"
  using ranges_set_Valid Merge_iset by simp

text \<open>
  C15: \<open>Subtract\<close> and \<open>Intersect\<close> compute the difference and the intersection of the address
  sets, for any input, and return the canonical form.
\<close>

theorem Subtract_Intersect_sets:
  "canonical (Subtract a b) \<and> ranges_set (Subtract a b) = ranges_set a - ranges_set b \<and>
   canonical (Intersect a b) \<and> ranges_set (Intersect a b) = ranges_set a \<inter> ranges_set b"
proof -
  have c: "canonical (Merge a)" "canonical (Merge b)" using Merge_iset by auto
  note s = subtract_all_ok [OF c, folded Subtract_def] and i = intersect_all_ok [OF c, folded Intersect_def]
  have "x \<in> ranges_set (Subtract a b) \<longleftrightarrow> x \<in> ranges_set a - ranges_set b" for x
    using ranges_set_iff [OF canonical_Valid, of "Subtract a b" x] s Merge_set [of x] by auto
  moreover have "x \<in> ranges_set (Intersect a b) \<longleftrightarrow> x \<in> ranges_set a \<inter> ranges_set b" for x
    using ranges_set_iff [OF canonical_Valid, of "Intersect a b" x] i Merge_set [of x] by auto
  ultimately show ?thesis using s i by blast
qed

text \<open>
  \<open>CountCapped\<close> is exact and cannot overflow: below or at the limit it returns the number
  of addresses, each range counted on its own, and otherwise the limit with the saturation
  mark, for IPv6 ranges of any size and every limit of 64 bits.
\<close>

theorem CountCapped_exact:
  assumes "0 \<le> limit" "limit < 2 ^ 64"
  shows "CountCapped rs limit =
    (let n = (\<Sum>r\<leftarrow>rs. int (card (range_set r))) in if n \<le> limit then (n, False) else (limit, True))"
proof -
  have "total_size rs = (\<Sum>r\<leftarrow>rs. int (card (range_set r)))"
    unfolding total_size_def by (rule arg_cong [where f = sum_list], rule map_cong) (simp_all only: range_size_card)
  then show ?thesis
    using count_loop_ok [of 0 limit rs] assms by (simp add: CountCapped_def Let_def)
qed

theorem CountCapped_exact_witness:
  "CountCapped [\<lparr>r_from = V6 0 [], r_to = V6 (- 1) []\<rparr>] 7 = (7, True)"
proof -
  define r where "r = \<lparr>r_from = V6 0 [], r_to = V6 (- 1) []\<rparr>"
  have "uint (- 1 :: 128 word) = 2 ^ 128 - 1" using uint_top [of "- 1 :: 128 word"] by simp
  then have "int (card (range_set r)) = 2 ^ 128"
    unfolding range_size_card [symmetric] by (simp add: range_size_def r_def Valid_iff same_family_def)
  then show ?thesis using CountCapped_exact [of 7 "[r]"] by (simp add: r_def)
qed

text \<open>
  \<open>Cover\<close> is a partition: it returns CIDRs, each aligned on its own size, in address order
  and without overlap, that together hold exactly the addresses of the range.
\<close>

theorem Cover_partition:
  assumes "Valid r"
  shows "ranges_set (map FromPrefix (Cover r)) = range_set r \<and>
    sorted_wrt (\<lambda>p q. ikey (r_to (FromPrefix p)) < ikey (r_from (FromPrefix q))) (Cover r) \<and>
    (\<forall>p \<in> set (Cover r). \<exists>a k. aligned_at a k \<and> p = prefixFrom a (int (addr_bit_len a - k)))"
proof -
  note c = Cover_ok [OF assms, unfolded covers_def]
  have v: "\<forall>x \<in> set (map FromPrefix (Cover r)). Valid x"
    using c block_ends(3) by (auto simp: greedy_def)
  have "a \<in> ranges_set (map FromPrefix (Cover r)) \<longleftrightarrow> a \<in> range_set r" for a
    using ranges_set_iff [OF v, of a] c range_set_iff [OF assms] by simp
  moreover have "\<forall>p \<in> set (Cover r). \<exists>a k. aligned_at a k \<and> p = prefixFrom a (int (addr_bit_len a - k))"
    using c unfolding greedy_def block_def by meson
  ultimately show ?thesis using c by blast
qed

definition example_range :: ip_range where
  "example_range = \<lparr>r_from = V4 1, r_to = V4 6\<rparr>"

lemma example_range_valid: "Valid example_range"
  by (simp add: example_range_def Valid_iff same_family_def)

theorem Cover_partition_witness:
  "ranges_set (map FromPrefix (Cover example_range)) = range_set example_range"
  using Cover_partition [OF example_range_valid] by blast

lemma count_starts:
  assumes "sorted_wrt (\<lambda>p q. hi (FromPrefix p) < lo (FromPrefix q)) ps" "\<forall>p \<in> set ps. Valid (FromPrefix p)"
    and "\<forall>p \<in> set ps. \<exists>q \<in> set qs. lo (FromPrefix q) = lo (FromPrefix p)"
  shows "length ps \<le> length qs"
proof -
  have "distinct (map (\<lambda>p. lo (FromPrefix p)) ps)"
    using assms(1,2)
  proof (induction ps)
    case (Cons p ps)
    then have "lo (FromPrefix p) \<le> hi (FromPrefix p)" using Valid_le by simp
    with Cons show ?case by fastforce
  qed simp
  then have "length ps = card ((\<lambda>p. lo (FromPrefix p)) ` set ps)"
    by (metis distinct_card length_map set_map)
  also have "\<dots> \<le> card ((\<lambda>p. lo (FromPrefix p)) ` set qs)"
  proof (rule card_mono)
    show "(\<lambda>p. lo (FromPrefix p)) ` set ps \<subseteq> (\<lambda>p. lo (FromPrefix p)) ` set qs"
      using assms(3) by (metis image_eqI image_subsetI)
  qed simp
  also have "\<dots> \<le> length qs" using card_image_le card_length order.trans by (metis List.finite_set)
  finally show ?thesis .
qed

text \<open>
  C16: \<open>Cover\<close> is minimal: no list of CIDRs that holds exactly the addresses of the range is
  shorter.
\<close>

theorem Cover_fewest:
  assumes "Valid r"
    and "\<forall>q \<in> set qs. \<exists>a bits. plain a \<and> 0 \<le> bits \<and> bits \<le> int (addr_bit_len a) \<and> q = prefixFrom a bits"
    and "ranges_set (map FromPrefix qs) = range_set r"
  shows "length (Cover r) \<le> length qs"
proof (rule count_starts)
  note c = Cover_ok [OF assms(1), unfolded covers_def]
  show "sorted_wrt (\<lambda>p q. hi (FromPrefix p) < lo (FromPrefix q)) (Cover r)" using c by blast
  show "\<forall>p \<in> set (Cover r). Valid (FromPrefix p)" using c block_ends(3) by (auto simp: greedy_def)
  have vq: "\<forall>x \<in> set (map FromPrefix qs). Valid x" using assms(2) FromPrefix_block by fastforce
  have iq: "iset (map FromPrefix qs) = {lo r..hi r}"
    using ikey_ranges_set [OF vq] assms(3) ikey_range_set [OF assms(1)] by simp
  show "\<forall>p \<in> set (Cover r). \<exists>q \<in> set qs. lo (FromPrefix q) = lo (FromPrefix p)"
  proof
    fix p assume "p \<in> set (Cover r)"
    then obtain a k where p: "p = block a k" "greedy a (r_to r) k" "anchored (r_from r) a (r_to r)" "lo r \<le> ikey a"
      using c by blast
    have al: "aligned_at a k" and le: "ikey a + 2 ^ k - 1 \<le> hi r" using p(2) by (auto simp: greedy_def)
    have "(0::int) < 2 ^ k" by simp
    then have "ikey a \<le> hi r" using le by linarith
    then have "ikey a \<in> {lo r..hi r}" using p(4) by simp
    then have "ikey a \<in> iset (map FromPrefix qs)" by (simp only: iq)
    then obtain q where q: "q \<in> set qs" "lo (FromPrefix q) \<le> ikey a" "ikey a \<le> hi (FromPrefix q)"
      by (auto simp: iset_def)
    obtain b bits where b: "plain b" "0 \<le> bits" "bits \<le> int (addr_bit_len b)" "q = prefixFrom b bits"
      using assms(2) q(1) by blast
    define j where "j = host_len b bits"
    note fb = FromPrefix_block [OF b(1-3) j_def, folded b(4)]
    define s where "s = r_from (FromPrefix q)"
    have s: "plain s" "same_family s b" "ikey s = fbase b + clear_low j (addr_value b)"
      using fb by (auto simp: s_def Valid_iff)
    have "addr_value s = clear_low j (addr_value b)"
      using s fbase_same [OF s(1) b(1) s(2)] by (simp add: ikey_fbase)
    then have als: "aligned_at s j"
      using s by (simp add: aligned_at_def clear_low_def same_family_def j_def host_len_def)
    have "{ikey s..ikey s + 2 ^ j - 1} \<subseteq> {lo r..hi r}"
    proof -
      have "{lo (FromPrefix q)..hi (FromPrefix q)} \<subseteq> iset (map FromPrefix qs)" using q(1) unfolding iset_def by auto
      then show ?thesis using fb s(3) unfolding iq by (simp add: s_def)
    qed
    moreover have "(0::int) < 2 ^ j" by simp
    then have "ikey s \<le> ikey s + 2 ^ j - 1" by linarith
    ultimately have "lo r \<le> ikey s" "ikey s + 2 ^ j - 1 \<le> hi r"
      by (meson atLeastatMost_subset_iff)+
    moreover have "ikey s \<le> ikey a" "ikey a \<le> ikey s + 2 ^ j - 1" using q(2,3) fb s(3) by (simp_all add: s_def)
    ultimately have "s = a" using p(3) als unfolding anchored_def by blast
    then show "\<exists>q \<in> set qs. lo (FromPrefix q) = lo (FromPrefix p)"
      using q(1) block_ends(1) [OF al] p(1) by (auto simp: s_def)
  qed
qed

theorem Cover_fewest_witness:
  "length (Cover \<lparr>r_from = V4 8, r_to = V4 8\<rparr>) \<le> 1"
proof -
  have v: "Valid \<lparr>r_from = V4 8, r_to = V4 8\<rparr>" by (simp add: Valid_iff same_family_def)
  have p: "plain (V4 8)" "0 \<le> (32::int)" "32 \<le> int (addr_bit_len (V4 8))" by simp_all
  have f: "FromPrefix (prefixFrom (V4 8) 32) = \<lparr>r_from = V4 8, r_to = V4 8\<rparr>"
    using FromPrefix_block [OF p, of 0] v
    by (intro range_eq) (auto simp: host_len_def clear_low_def fbase_def)
  then show ?thesis
    using Cover_fewest [OF v, of "[prefixFrom (V4 8) 32]"] p
    by (fastforce simp: ranges_set_def)
qed

end
