(* ===== verification/Coverage.thy ===== *)
theory Coverage
  imports Model
begin

text \<open>
  \<open>internal/engine/engine.go\<close>, the reading of one snapshot: which ports are positive, which
  address and protocol pairs a scan covered completely, which targets an incomplete scan
  protects, and the monitored up or down state of each host.

  A Go map from strings to sets of strings is the list of its pairs; the code never keeps an
  empty inner set, so the list is empty exactly when the map is.
\<close>

section \<open>Positive ports\<close>

definition isPositivePortState :: "string \<Rightarrow> bool" where
  "isPositivePortState state = (let s = word state in s = ''open'' \<or> s = ''open|filtered'')"

definition nul :: char where
  "nul = CHR 0x00"

text \<open>The distinct keys \<open>target\<close>, \<open>protocol\<close> and port of the positive ports.\<close>

definition positivePortCount :: "snapshot \<Rightarrow> int" where
  "positivePortCount s = int (length (remdups
     [u_target u @ nul # u_protocol u @ nul # itoa (ps_port p).
        u \<leftarrow> sn_units s, p \<leftarrow> u_ports u, isPositivePortState (ps_state p)]))"

section \<open>Coverage of addresses and protocols\<close>

definition scanCompleteCoverageReason :: string where
  "scanCompleteCoverageReason = ''scan-complete''"

definition isIncompleteCoverageStatus :: "string \<Rightarrow> bool" where
  "isIncompleteCoverageStatus status =
     (word status \<in> {''unreachable'', ''down'', ''timedout'', ''timed-out'', ''timeout'', ''unknown''})"

definition isIncompleteCoverageObservation :: "string \<Rightarrow> string \<Rightarrow> bool" where
  "isIncompleteCoverageObservation status reason =
     (if equalFold (trimSpace status) ''unknown'' \<and> equalFold (trimSpace reason) scanCompleteCoverageReason
      then False else isIncompleteCoverageStatus status)"

definition isCompletedHostDiscoveryDown :: "string \<Rightarrow> string \<Rightarrow> string \<Rightarrow> bool" where
  "isCompletedHostDiscoveryDown status reason discoveryState =
     (if word discoveryState \<noteq> ''down'' then False
      else if word status \<noteq> ''down'' \<and> word status \<noteq> ''unreachable'' then False
      else word reason \<in> {''nmap-host-down'', ''host-down'', ''down'', ''no-response'', ''host-unreach'',
             ''net-unreach'', ''admin-prohibited''})"

definition isCompletedProtocolHostDiscoveryDown :: "protocol_observation \<Rightarrow> bool" where
  "isCompletedProtocolHostDiscoveryDown p =
     (if equalFold (trimSpace (po_discovery_engine p)) ''naabu'' then False
      else isCompletedHostDiscoveryDown (po_status p) (po_status_reason p) (po_discovery_state p))"

type_synonym pairs = "(string \<times> string) list"

definition mark :: "string \<Rightarrow> string \<Rightarrow> pairs" where
  "mark address protocol =
     (if trimSpace address = [] then []
      else [(trimSpace address, if word protocol = [] then ''*'' else word protocol)])"

definition expect :: "string \<Rightarrow> string \<Rightarrow> pairs" where
  "expect address protocol =
     (if trimSpace address = [] \<or> word protocol = [] then [] else [(trimSpace address, word protocol)])"

definition addressesFor :: "snapshot \<Rightarrow> string \<Rightarrow> string list \<Rightarrow> string list" where
  "addressesFor s target addresses =
     (if addresses \<noteq> [] then addresses
      else if dns_of s target \<noteq> [] then dns_of s target else [target])"

text \<open>The pairs that the scopes and the units of the snapshot let expect.\<close>

definition expectedCoverage :: "snapshot \<Rightarrow> pairs" where
  "expectedCoverage s =
     [e. c \<leftarrow> sn_scopes s, a \<leftarrow> addressesFor s (sc_target c) [], e \<leftarrow> expect a (sc_protocol c)] @
     [e. u \<leftarrow> sn_units s, a \<leftarrow> addressesFor s (u_target u) (u_addresses u), e \<leftarrow> expect a (u_protocol u)]"

record coverage_status =
  cs_status :: string
  cs_reason :: string
  cs_discovery_state :: string
  cs_discovery_engine :: string

definition incomplete_protocol :: "protocol_observation \<Rightarrow> bool" where
  "incomplete_protocol p =
     (isIncompleteCoverageObservation (word (po_status p)) (trimSpace (po_status_reason p)) \<and>
      \<not> isCompletedProtocolHostDiscoveryDown p)"

text \<open>
  One protocol observation of a host: its status replaces an earlier one when it is
  incomplete, when there is none, or when an explicit up follows a completed unknown.
\<close>

definition status_step ::
  "protocol_observation \<Rightarrow> (string, coverage_status) gomap \<Rightarrow> (string, coverage_status) gomap" where
  "status_step p statuses =
     (let name = word (po_protocol p);
          observed = \<lparr>cs_status = word (po_status p), cs_reason = trimSpace (po_status_reason p),
            cs_discovery_state = word (po_discovery_state p), cs_discovery_engine = word (po_discovery_engine p)\<rparr>;
          existing = (case mget statuses name of None \<Rightarrow>
            \<lparr>cs_status = [], cs_reason = [], cs_discovery_state = [], cs_discovery_engine = []\<rparr> | Some e \<Rightarrow> e)
      in if name = [] then statuses
         else if incomplete_protocol p \<or> cs_status existing = [] \<or>
           (cs_status existing = ''unknown'' \<and> equalFold (cs_reason existing) scanCompleteCoverageReason \<and>
            cs_status observed = ''up'')
         then mput name observed statuses else statuses)"

definition statusesOf :: "host_observation \<Rightarrow> (string, coverage_status) gomap" where
  "statusesOf h = fold status_step (ho_protocols h) []"

definition completeDown :: "coverage_status \<Rightarrow> bool" where
  "completeDown st = (cs_discovery_engine st \<noteq> ''naabu'' \<and>
     isCompletedHostDiscoveryDown (cs_status st) (cs_reason st) (cs_discovery_state st))"

text \<open>What one host observation marks as incomplete.\<close>

definition hostCoverage :: "pairs \<Rightarrow> host_observation \<Rightarrow> pairs" where
  "hostCoverage expected h =
     (let statuses = statusesOf h;
          marked = [e. p \<leftarrow> ho_protocols h, word (po_protocol p) \<noteq> [], incomplete_protocol p,
                       e \<leftarrow> mark (ho_address h) (word (po_protocol p))]
      in if \<not> isIncompleteCoverageObservation (ho_status h) (ho_status_reason h) then marked
         else (let protocols = [p. (a, p) \<leftarrow> expected, a = ho_address h] @ mkeys statuses
               in if protocols = [] then marked @ mark (ho_address h) ''*''
                  else marked @ [e. p \<leftarrow> protocols,
                    (case mget statuses p of None \<Rightarrow> True | Some st \<Rightarrow> cs_status st \<noteq> ''up'' \<and> \<not> completeDown st),
                    e \<leftarrow> mark (ho_address h) p]))"

definition incompleteProtocolCoverage :: "snapshot \<Rightarrow> pairs" where
  "incompleteProtocolCoverage s = concat (map (hostCoverage (expectedCoverage s)) (sn_hosts s))"

definition incompleteCoverageHas :: "pairs \<Rightarrow> string \<Rightarrow> string \<Rightarrow> bool" where
  "incompleteCoverageHas coverage address protocol =
     ((trimSpace address, ''*'') \<in> set coverage \<or> (trimSpace address, word protocol) \<in> set coverage)"

definition incompleteHostAddresses :: "snapshot \<Rightarrow> string list" where
  "incompleteHostAddresses s = sort (remdups (map fst (incompleteProtocolCoverage s)))"

definition snapshotHasUnreachableHost :: "snapshot \<Rightarrow> bool" where
  "snapshotHasUnreachableHost s = (sn_target_failures s \<noteq> [] \<or> incompleteHostAddresses s \<noteq> [])"

definition sortedUniqueStrings :: "string list \<Rightarrow> string list" where
  "sortedUniqueStrings values = remdups_adj (sort values)"

definition incompleteScanError :: "snapshot \<Rightarrow> string" where
  "incompleteScanError s =
     (let addresses = sortedUniqueStrings (incompleteHostAddresses s @
            filter (\<lambda>t. t \<noteq> []) (map (\<lambda>f. trimSpace (tf_target f)) (sn_target_failures s)))
      in if addresses = [] then ''Scan incomplete: scan coverage did not complete''
         else if length addresses > 8
         then ''Scan incomplete: scan coverage did not complete for '' @ joinWith '', '' (take 8 addresses) @
           '' (+'' @ itoa (int (length addresses) - 8) @ '' more)''
         else ''Scan incomplete: scan coverage did not complete for '' @ joinWith '', '' addresses)"

section \<open>Host states\<close>

text \<open>The discovery results of all hosts by address and protocol; contradicting ones conflict.\<close>

type_synonym discovery = "(string \<times> string, string) gomap"

definition discovers :: "protocol_observation \<Rightarrow> bool" where
  "discovers p =
     (let name = word (po_protocol p); state = word (po_discovery_state p) in
      \<not> (name = [] \<or> (state \<noteq> ''up'' \<and> state \<noteq> ''down'') \<or> po_discovery_engine p = ''naabu'') \<and>
      \<not> (state = ''down'' \<and> \<not> isCompletedProtocolHostDiscoveryDown p) \<and>
      \<not> (state = ''up'' \<and> word (po_status p) \<noteq> ''up''))"

fun discovery_step :: "string \<times> protocol_observation \<Rightarrow> discovery \<times> pairs \<Rightarrow> discovery \<times> pairs" where
  "discovery_step (host, p) (disc, expected) =
     (let name = word (po_protocol p); state = word (po_discovery_state p); address = trimSpace host;
          previous = (case mget disc (address, name) of None \<Rightarrow> [] | Some d \<Rightarrow> d)
      in if \<not> discovers p then (disc, expected)
         else if previous = ''conflict'' then (disc, expected)
         else if previous \<noteq> [] \<and> previous \<noteq> state then (mput (address, name) ''conflict'' disc, expected)
         else (mput (address, name) state disc, expected @ expect address name))"

definition scopeExpectation :: "snapshot \<Rightarrow> pairs" where
  "scopeExpectation s =
     [e. c \<leftarrow> sn_scopes s, a \<leftarrow> (if dns_of s (sc_target c) = [] then [sc_target c] else dns_of s (sc_target c)),
         e \<leftarrow> expect a (sc_protocol c)]"

definition discoveryOf :: "snapshot \<Rightarrow> discovery \<times> pairs" where
  "discoveryOf s = fold discovery_step [(ho_address h, p). h \<leftarrow> sn_hosts s, p \<leftarrow> ho_protocols h]
     ([], scopeExpectation s)"

definition host_state_step :: "host_state \<Rightarrow> (string, string) gomap \<Rightarrow> (string, string) gomap" where
  "host_state_step h states =
     (let address = trimSpace (hs_address h); state = word (hs_state h)
      in if address \<noteq> [] \<and> (state = ''up'' \<or> state = ''down'') then mput address state states else states)"

definition recordedStates :: "snapshot \<Rightarrow> (string, string) gomap" where
  "recordedStates s = fold host_state_step (sn_host_states s) []"

text \<open>The state that the discovery of all expected protocols of an address gives.\<close>

definition discoveredState :: "discovery \<Rightarrow> pairs \<Rightarrow> string \<Rightarrow> string option" where
  "discoveredState disc expected address =
     (let protocols = [p. (a, p) \<leftarrow> expected, a = address]
      in if protocols = [] \<or> address \<notin> fst ` set (mkeys disc) then None
         else if \<exists>p \<in> set protocols. mget disc (address, p) = Some ''up'' then Some ''up''
         else if \<forall>p \<in> set protocols. mget disc (address, p) = Some ''down'' then Some ''down''
         else None)"

definition discovered_step ::
  "discovery \<Rightarrow> pairs \<Rightarrow> string \<Rightarrow> (string, string) gomap \<Rightarrow> (string, string) gomap" where
  "discovered_step disc expected address states =
     (case discoveredState disc expected address of None \<Rightarrow> states | Some st \<Rightarrow> mput address st states)"

definition discoveredStates :: "snapshot \<Rightarrow> (string, string) gomap" where
  "discoveredStates s =
     (let (disc, expected) = discoveryOf s
      in fold (discovered_step disc expected) (remdups (map fst expected)) (recordedStates s))"

definition completeHostDiscoveryStates :: "snapshot \<Rightarrow> snapshot" where
  "completeHostDiscoveryStates s = Normalize (s\<lparr>sn_host_states :=
     map (\<lambda>(a, st). \<lparr>hs_address = a, hs_state = st\<rparr>) (discoveredStates s)\<rparr>)"

definition MarkIncompleteScan :: "scan \<Rightarrow> scan \<times> bool" where
  "MarkIncompleteScan scan =
     (if s_status scan \<noteq> ''success'' then (scan, False)
      else let s = completeHostDiscoveryStates (s_snapshot scan); scan' = scan\<lparr>s_snapshot := s\<rparr> in
        if \<not> snapshotHasUnreachableHost s then (scan', False)
        else (scan'\<lparr>s_status := ''incomplete'', s_error := incompleteScanError s\<rparr>, True))"

text \<open>The recorded states, and up for an address that alone exposes a positive port.\<close>

definition port_addresses :: "unit_obs \<Rightarrow> port_state \<Rightarrow> string list" where
  "port_addresses u p =
     (if ps_evidence p \<noteq> [] then ps_evidence p
      else if u_addresses u \<noteq> [] then u_addresses u
      else if is_ip (trimSpace (u_target u)) then [u_target u] else [])"

fun effective_step :: "unit_obs \<times> port_state \<Rightarrow> (string, string) gomap \<Rightarrow> (string, string) gomap" where
  "effective_step (u, p) states =
     (if \<not> isPositivePortState (ps_state p) then states
      else case port_addresses u p of
        [a] \<Rightarrow> if mhas states a then states else mput a ''up'' states
      | _ \<Rightarrow> states)"

definition effectiveHostStates :: "snapshot \<Rightarrow> (string, string) gomap" where
  "effectiveHostStates s =
     fold effective_step [(u, p). u \<leftarrow> sn_units s, p \<leftarrow> u_ports u] (recordedStates s)"

definition hostInScope :: "snapshot \<Rightarrow> string \<Rightarrow> bool" where
  "hostInScope s address =
     (\<exists>c \<in> set (sn_scopes s).
        let target = trimSpace (sc_target c) in
        target = address \<or>
        (case (parseCIDR target, parseIP (trimSpace address)) of
           (Some network, Some ip) \<Rightarrow> netContains network ip | _ \<Rightarrow> False) \<or>
        (\<exists>resolved \<in> set (dns_of s target). trimSpace resolved = trimSpace address))"

section \<open>Targets that an incomplete scan protects\<close>

record protection =
  pr_protocols :: "string list"
  pr_targets :: "string list"

definition protocol_key :: "string \<Rightarrow> string \<Rightarrow> string" where
  "protocol_key target protocol = target @ nul # word protocol"

text \<open>The targets and protocols of one snapshot with an address that is not covered.\<close>

definition incompletePairs :: "pairs \<Rightarrow> snapshot \<Rightarrow> pairs" where
  "incompletePairs coverage s =
     [(sc_target c, sc_protocol c). c \<leftarrow> sn_scopes s,
        \<exists>a \<in> set (if dns_of s (sc_target c) = [] then [sc_target c] else dns_of s (sc_target c)).
          incompleteCoverageHas coverage a (sc_protocol c)] @
     [(u_target u, u_protocol u). u \<leftarrow> sn_units s,
        \<exists>a \<in> set (if u_addresses u = [] then [u_target u] else u_addresses u).
          incompleteCoverageHas coverage a (u_protocol u)]"

definition failedTargets :: "snapshot \<Rightarrow> string list" where
  "failedTargets s = [tf_target f. f \<leftarrow> sn_target_failures s, trimSpace (tf_target f) \<noteq> []]"

definition failedPairs :: "snapshot \<Rightarrow> pairs" where
  "failedPairs s = concat (map (\<lambda>t.
     [(sc_target c, sc_protocol c). c \<leftarrow> sn_scopes s, sc_target c = t] @
     [(u_target u, u_protocol u). u \<leftarrow> sn_units s, u_target u = t]) (failedTargets s))"

definition incompleteTargets :: "snapshot option \<Rightarrow> snapshot \<Rightarrow> pairs \<Rightarrow> protection" where
  "incompleteTargets baseline current coverage =
     (let snapshots = (case baseline of None \<Rightarrow> [current] | Some b \<Rightarrow> [b, current]);
          ps = concat (map (\<lambda>s. incompletePairs coverage s @ failedPairs s) snapshots)
      in \<lparr>pr_protocols = map (\<lambda>(t, p). protocol_key t p) ps,
          pr_targets = map fst ps @ concat (map failedTargets snapshots) @ map fst coverage\<rparr>)"

definition incompleteChange :: "change \<Rightarrow> protection \<Rightarrow> bool" where
  "incompleteChange c pr =
     (if trimSpace (c_protocol c) = [] then c_target c \<in> set (pr_targets pr)
      else protocol_key (c_target c) (c_protocol c) \<in> set (pr_protocols pr))"

text \<open>A new positive port counts when only completely covered addresses show it.\<close>

definition incompletePositiveAddition :: "change \<Rightarrow> snapshot \<Rightarrow> pairs \<Rightarrow> bool" where
  "incompletePositiveAddition c s coverage =
     (if c_kind c = ''port-address''
      then isPositivePortState (c_new c) \<and> \<not> incompleteCoverageHas coverage (c_address c) (c_protocol c)
      else if c_kind c \<noteq> ''port'' \<or> \<not> isPositivePortState (c_new c) then False
      else case [p. u \<leftarrow> sn_units s, u_target u = c_target c \<and> equalFold (u_protocol u) (c_protocol c),
                  p \<leftarrow> u_ports u, ps_port p = c_port c \<and> equalFold (ps_state p) (c_new c) \<and> ps_evidence p \<noteq> []] of
        [] \<Rightarrow> False
      | p # _ \<Rightarrow> \<not> (\<exists>a \<in> set (ps_evidence p). incompleteCoverageHas coverage a (c_protocol c)))"

section \<open>What the coverage says\<close>

lemma lower_words [simp]: "toLower ''unknown'' = ''unknown''" "toLower ''naabu'' = ''naabu''"
  "toLower scanCompleteCoverageReason = scanCompleteCoverageReason"
  by code_simp+

lemma isIncomplete_word:
  "isIncompleteCoverageObservation (word status) (trimSpace reason) = isIncompleteCoverageObservation status reason"
  by (simp add: isIncompleteCoverageObservation_def isIncompleteCoverageStatus_def equalFold_word)
    (simp add: equalFold_def word_def trimSpace_lower)

lemma incomplete_protocol_status:
  assumes "incomplete_protocol p"
  shows "word (po_status p) \<noteq> []" "word (po_status p) \<noteq> ''up''"
    "\<not> (word (po_status p) = ''unknown'' \<and> equalFold (trimSpace (po_status_reason p)) scanCompleteCoverageReason)"
  using assms by (auto simp: incomplete_protocol_def isIncompleteCoverageObservation_def isIncompleteCoverageStatus_def
      equalFold_def word_def trimSpace_lower split: if_splits)

text \<open>The status of a protocol is one of its observations; a failure among them stays.\<close>

definition status_of :: "protocol_observation \<Rightarrow> coverage_status" where
  "status_of p = \<lparr>cs_status = word (po_status p), cs_reason = trimSpace (po_status_reason p),
     cs_discovery_state = word (po_discovery_state p), cs_discovery_engine = word (po_discovery_engine p)\<rparr>"

lemma statuses_from:
  "mget (fold status_step ps m) n = Some st \<Longrightarrow>
   mget m n = Some st \<or> (\<exists>p \<in> set ps. word (po_protocol p) = n \<and> n \<noteq> [] \<and> st = status_of p)"
proof (induction ps arbitrary: m)
  case (Cons p ps)
  from Cons.IH [of "status_step p m"] Cons.prems
  have "mget (status_step p m) n = Some st \<or> (\<exists>p \<in> set ps. word (po_protocol p) = n \<and> n \<noteq> [] \<and> st = status_of p)"
    by simp
  moreover have "mget (status_step p m) n = mget m n \<or>
      (word (po_protocol p) = n \<and> n \<noteq> [] \<and> mget (status_step p m) n = Some (status_of p))"
    by (auto simp: status_step_def status_of_def Let_def)
  ultimately show ?case by auto
qed simp

lemma completeDown_status: "completeDown (status_of p) = isCompletedProtocolHostDiscoveryDown p"
  by (simp add: completeDown_def status_of_def isCompletedProtocolHostDiscoveryDown_def equalFold_word
      isCompletedHostDiscoveryDown_def)

lemma mark_mem: "e \<in> set (mark address protocol) \<longleftrightarrow>
    trimSpace address \<noteq> [] \<and> e = (trimSpace address, if word protocol = [] then ''*'' else word protocol)"
  by (auto simp: mark_def)

lemma hostCoverage_mem:
  "e \<in> set (hostCoverage expected h) \<longleftrightarrow> trimSpace (ho_address h) \<noteq> [] \<and> fst e = trimSpace (ho_address h) \<and>
    ((\<exists>p \<in> set (ho_protocols h). word (po_protocol p) \<noteq> [] \<and> incomplete_protocol p \<and> snd e = word (po_protocol p)) \<or>
     (isIncompleteCoverageObservation (ho_status h) (ho_status_reason h) \<and>
      (let ps = {p. (ho_address h, p) \<in> set expected} \<union> set (mkeys (statusesOf h)) in
       (ps = {} \<and> snd e = ''*'') \<or>
       (\<exists>p \<in> ps. (case mget (statusesOf h) p of None \<Rightarrow> True | Some st \<Rightarrow> cs_status st \<noteq> ''up'' \<and> \<not> completeDown st) \<and>
          snd e = (if word p = [] then ''*'' else word p)))))"
proof -
  have w: "word ''*'' = ''*''" by code_simp
  have ps: "{p. (ho_address h, p) \<in> set expected} \<union> set (mkeys (statusesOf h)) =
      set ([p. (a, p) \<leftarrow> expected, a = ho_address h] @ mkeys (statusesOf h))" by force
  show ?thesis
    unfolding ps Let_def by (cases e) (auto simp: hostCoverage_def Let_def mark_mem w)
qed

text \<open>
  C18: Coverage is conservative: incomplete evidence about an address and a protocol, or an
  incomplete host whose expected protocol shows neither up nor a completed discovery, always
  marks the pair, however many other fragments call it healthy, and the scan counts as
  incomplete; and only an incomplete observation of that address marks it.
\<close>

theorem coverage_is_conservative:
  assumes "h \<in> set (sn_hosts s)" "trimSpace (ho_address h) \<noteq> []" "word protocol \<noteq> []"
    and "(\<exists>p \<in> set (ho_protocols h). word (po_protocol p) = word protocol \<and> incomplete_protocol p) \<or>
      (isIncompleteCoverageObservation (ho_status h) (ho_status_reason h) \<and>
       (ho_address h, word protocol) \<in> set (expectedCoverage s) \<and>
       (\<forall>p \<in> set (ho_protocols h). word (po_protocol p) = word protocol \<longrightarrow>
          word (po_status p) \<noteq> ''up'' \<and> \<not> isCompletedProtocolHostDiscoveryDown p))"
  shows "incompleteCoverageHas (incompleteProtocolCoverage s) (ho_address h) protocol \<and> snapshotHasUnreachableHost s \<and>
    (\<forall>a p. (a, p) \<in> set (incompleteProtocolCoverage s) \<longrightarrow> (\<exists>g \<in> set (sn_hosts s). trimSpace (ho_address g) = a \<and>
      (isIncompleteCoverageObservation (ho_status g) (ho_status_reason g) \<or> (\<exists>q \<in> set (ho_protocols g). incomplete_protocol q))))"
proof -
  have "(trimSpace (ho_address h), word protocol) \<in> set (hostCoverage (expectedCoverage s) h)"
    using assms(4)
  proof
    assume a: "isIncompleteCoverageObservation (ho_status h) (ho_status_reason h) \<and>
       (ho_address h, word protocol) \<in> set (expectedCoverage s) \<and>
       (\<forall>p \<in> set (ho_protocols h). word (po_protocol p) = word protocol \<longrightarrow>
          word (po_status p) \<noteq> ''up'' \<and> \<not> isCompletedProtocolHostDiscoveryDown p)"
    have "cs_status st \<noteq> ''up'' \<and> \<not> completeDown st" if "mget (statusesOf h) (word protocol) = Some st" for st
    proof -
      from statuses_from [of "ho_protocols h" "[]" "word protocol" st] that
      obtain q where "q \<in> set (ho_protocols h)" "word (po_protocol q) = word protocol" "st = status_of q"
        by (auto simp: statusesOf_def)
      then show ?thesis using a completeDown_status [of q] by (simp add: status_of_def)
    qed
    then have st: "case mget (statusesOf h) (word protocol) of None \<Rightarrow> True
        | Some st \<Rightarrow> cs_status st \<noteq> ''up'' \<and> \<not> completeDown st" by (simp split: option.split)
    have "word protocol \<in> {p. (ho_address h, p) \<in> set (expectedCoverage s)} \<union> set (mkeys (statusesOf h))" using a by simp
    then show ?thesis
      unfolding hostCoverage_mem Let_def using a st assms(2,3)
      by (intro conjI disjI2 bexI [of _ "word protocol"]) auto
  next
    assume "\<exists>p \<in> set (ho_protocols h). word (po_protocol p) = word protocol \<and> incomplete_protocol p"
    then obtain p where "p \<in> set (ho_protocols h)" "word (po_protocol p) = word protocol" "incomplete_protocol p" by blast
    then show ?thesis
      unfolding hostCoverage_mem using assms(2,3) by (intro conjI disjI1 bexI [of _ p]) auto
  qed
  then have m: "(trimSpace (ho_address h), word protocol) \<in> set (incompleteProtocolCoverage s)"
    using assms(1) by (auto simp: incompleteProtocolCoverage_def)
  then have "trimSpace (ho_address h) \<in> set (incompleteHostAddresses s)" by (force simp: incompleteHostAddresses_def)
  then have "incompleteHostAddresses s \<noteq> []" by auto
  moreover have "\<exists>g \<in> set (sn_hosts s). trimSpace (ho_address g) = a \<and>
      (isIncompleteCoverageObservation (ho_status g) (ho_status_reason g) \<or> (\<exists>q \<in> set (ho_protocols g). incomplete_protocol q))"
    if "(a, p) \<in> set (incompleteProtocolCoverage s)" for a p
    using that by (auto simp: incompleteProtocolCoverage_def hostCoverage_mem)
  ultimately show ?thesis
    using m by (auto simp: incompleteCoverageHas_def snapshotHasUnreachableHost_def)
qed

definition a_protocol :: "string \<Rightarrow> string \<Rightarrow> string \<Rightarrow> protocol_observation" where
  "a_protocol protocol status discovery = \<lparr>po_protocol = protocol, po_status = status, po_status_reason = ''no-response'',
     po_discovery_state = discovery, po_scan_type = [], po_scanned_ports = [], po_scanned_port_count = 0,
     po_service_detection = False, po_discovery_engine = ''nmap'', po_discovered_ports = [],
     po_unconfirmed_ports = [], po_ports = [], po_state_summaries = [], po_nse_profile = [],
     po_nse_args = [], po_nse_output = [], po_command_fingerprint = []\<rparr>"

definition a_host :: "string \<Rightarrow> protocol_observation list \<Rightarrow> host_observation" where
  "a_host address protocols = \<lparr>ho_address = address, ho_source_targets = [], ho_dns_names = [],
     ho_address_family = [], ho_status = ''up'', ho_status_reason = [], ho_reason_ttl = 0,
     ho_latency_ms = 0, ho_link_addresses = [], ho_hostnames = [], ho_protocols = protocols\<rparr>"

theorem coverage_is_conservative_witness:
  "incompleteCoverageHas (incompleteProtocolCoverage (empty_snapshot\<lparr>sn_hosts :=
     [a_host ''h'' [a_protocol ''tcp'' ''timeout'' [], a_protocol ''tcp'' ''up'' []]]\<rparr>)) ''h'' ''TCP''"
proof -
  have c: "word ''TCP'' = ''tcp''" "word ''tcp'' = ''tcp''" "trimSpace ''h'' = ''h''"
    "incomplete_protocol (a_protocol ''tcp'' ''timeout'' [])" by code_simp+
  show ?thesis
    using coverage_is_conservative [of "a_host ''h'' [a_protocol ''tcp'' ''timeout'' [], a_protocol ''tcp'' ''up'' []]"
        "empty_snapshot\<lparr>sn_hosts := [a_host ''h'' [a_protocol ''tcp'' ''timeout'' [], a_protocol ''tcp'' ''up'' []]]\<rparr>" "''TCP''"] c
    by (simp add: a_host_def) (simp add: a_protocol_def)
qed

section \<open>Where a host state comes from\<close>

text \<open>The discovering observations of an address and protocol, in the order of the scan.\<close>

definition observations :: "(string \<times> protocol_observation) list \<Rightarrow> string \<times> string \<Rightarrow> string list" where
  "observations obs an =
     [word (po_discovery_state p). (host, p) \<leftarrow> obs, discovers p \<and> (trimSpace host, word (po_protocol p)) = an]"

text \<open>What several observations say together.\<close>

definition agreed :: "string list \<Rightarrow> string option" where
  "agreed states =
     (if states = [] then None else if \<forall>st \<in> set states. st = hd states then Some (hd states) else Some ''conflict'')"

lemma agreed_snoc: "agreed (states @ [st]) =
    (case agreed states of None \<Rightarrow> Some st | Some d \<Rightarrow> if d = st \<or> d = ''conflict'' then Some d else Some ''conflict'')"
  if "st \<noteq> ''conflict''" "\<forall>d \<in> set states. d \<noteq> ''conflict''"
  using that by (cases states) (auto simp: agreed_def)

lemma discovers_state: "discovers p \<Longrightarrow> word (po_discovery_state p) = ''up'' \<or> word (po_discovery_state p) = ''down''"
  by (auto simp: discovers_def Let_def)

lemma observations_states: "st \<in> set (observations obs an) \<Longrightarrow> st = ''up'' \<or> st = ''down''"
  by (auto simp: observations_def dest: discovers_state)

lemma agreed_not_Nil: "\<forall>st \<in> set states. st \<noteq> [] \<Longrightarrow> agreed states \<noteq> Some []"
  by (cases states) (auto simp: agreed_def)

lemma discovery_fold:
  "mget (fst (fold discovery_step obs ([], expected))) an = agreed (observations obs an)"
proof (induction obs rule: rev_induct)
  case Nil
  then show ?case by (simp add: observations_def agreed_def)
next
  case (snoc e obs)
  obtain host p where e: "e = (host, p)" by (cases e)
  obtain disc ex where f: "fold discovery_step obs ([], expected) = (disc, ex)" by (cases "fold discovery_step obs ([], expected)")
  have IH: "mget disc an = agreed (observations obs an)" using snoc.IH by (simp add: f)
  have ob: "observations (obs @ [e]) an = observations obs an @
      (if discovers p \<and> (trimSpace host, word (po_protocol p)) = an then [word (po_discovery_state p)] else [])"
    by (simp add: observations_def e)
  show ?case
  proof (cases "discovers p \<and> (trimSpace host, word (po_protocol p)) = an")
    case False
    then have "mget (fst (discovery_step e (disc, ex))) an = mget disc an" by (auto simp: e Let_def)
    moreover have "observations (obs @ [e]) an = observations obs an" using False ob by auto
    ultimately show ?thesis by (simp add: f IH del: discovery_step.simps)
  next
    case True
    let ?st = "word (po_discovery_state p)"
    have st: "?st = ''up'' \<or> ?st = ''down''" using True discovers_state by blast
    then have "agreed (observations obs an @ [?st]) =
      (case agreed (observations obs an) of None \<Rightarrow> Some ?st
       | Some d \<Rightarrow> if d = ?st \<or> d = ''conflict'' then Some d else Some ''conflict'')"
      using observations_states by (intro agreed_snoc) fastforce+
    moreover have "mget disc an \<noteq> Some []"
      unfolding IH by (rule agreed_not_Nil) (use observations_states in fastforce)
    moreover have "observations (obs @ [e]) an = observations obs an @ [?st]" using True ob by auto
    ultimately show ?thesis
      using True st by (auto simp: f e IH [symmetric] Let_def split: option.splits)
  qed
qed

text \<open>The expected protocols are those of the scopes and those that were discovered.\<close>

lemma discovery_expected:
  assumes "(a, n) \<in> set (snd (fold discovery_step obs (disc, expected)))"
  shows "(a, n) \<in> set expected \<or> (\<exists>host p. (host, p) \<in> set obs \<and> discovers p \<and> trimSpace host = a \<and> word (po_protocol p) = n)"
  using assms
proof (induction obs arbitrary: disc expected)
  case (Cons e obs)
  obtain host p where e: "e = (host, p)" by (cases e)
  obtain disc' ex' where f: "discovery_step e (disc, expected) = (disc', ex')" by (cases "discovery_step e (disc, expected)")
  have "set ex' \<subseteq> set expected \<union> {(a, n). discovers p \<and> trimSpace host = a \<and> word (po_protocol p) = n}"
    using f by (auto simp: e Let_def expect_def split: if_splits)
  moreover have "(a, n) \<in> set ex' \<or> (\<exists>host p. (host, p) \<in> set obs \<and> discovers p \<and> trimSpace host = a \<and> word (po_protocol p) = n)"
    using Cons.IH [of disc' ex'] Cons.prems by (simp add: f del: discovery_step.simps)
  ultimately show ?case by (auto simp: e)
qed simp

definition host_protocols :: "snapshot \<Rightarrow> (string \<times> protocol_observation) list" where
  "host_protocols s = [(ho_address h, p). h \<leftarrow> sn_hosts s, p \<leftarrow> ho_protocols h]"

lemma discovered_fold:
  assumes "distinct as"
  shows "mget (fold (discovered_step disc expected) as states) a =
    (if a \<in> set as \<and> discoveredState disc expected a \<noteq> None then discoveredState disc expected a else mget states a)"
  using assms by (induction as arbitrary: states) (auto simp: discovered_step_def split: option.splits)

lemma discoveredState_down:
  assumes "discoveredState disc expected a = Some ''down''" "(a, n) \<in> set expected"
  shows "mget disc (a, n) = Some ''down''"
  using assms by (force simp: discoveredState_def Let_def split: if_splits)

lemma discoveredState_up:
  assumes "discoveredState disc expected a = Some ''up''"
  shows "\<exists>n. (a, n) \<in> set expected \<and> mget disc (a, n) = Some ''up''"
  using assms by (force simp: discoveredState_def Let_def split: if_splits)

lemma agreed_all: "agreed xs = Some x \<Longrightarrow> x \<noteq> ''conflict'' \<Longrightarrow> xs \<noteq> [] \<and> (\<forall>y \<in> set xs. y = x)"
  by (auto simp: agreed_def split: if_splits)

definition discovery_results :: "snapshot \<Rightarrow> string \<Rightarrow> string \<Rightarrow> string list" where
  "discovery_results s a n = observations (host_protocols s) (a, n)"

text \<open>
  No host state without evidence: an address is recorded as down only when it was, or when
  every protocol expected of it has explicit discovery results that all say down; it is recorded as up
  only when it was, or when the results of one expected protocol all say up. Results that
  contradict each other never decide.
\<close>

theorem host_state_has_evidence:
  assumes "mget (discoveredStates s) a = Some st" "mget (recordedStates s) a \<noteq> Some st"
  shows "(st = ''down'' \<and> (\<forall>n. (a, n) \<in> set (snd (discoveryOf s)) \<longrightarrow> discovery_results s a n \<noteq> [] \<and> set (discovery_results s a n) = {''down''})) \<or>
    (st = ''up'' \<and> (\<exists>n. (a, n) \<in> set (snd (discoveryOf s)) \<and> discovery_results s a n \<noteq> [] \<and> set (discovery_results s a n) = {''up''}))"
proof -
  obtain disc expected where d: "discoveryOf s = (disc, expected)" by (cases "discoveryOf s")
  have "discoveredState disc expected a = Some st"
    using assms(1,2) discovered_fold [of "remdups (map fst expected)" disc expected "recordedStates s" a]
    by (auto simp: discoveredStates_def d split: if_splits)
  moreover have m: "mget disc (a, n) = agreed (discovery_results s a n)" for n
    using discovery_fold [of "host_protocols s" "scopeExpectation s" "(a, n)"] d
    by (simp add: discoveryOf_def discovery_results_def host_protocols_def)
  moreover have "st = ''up'' \<or> st = ''down''"
    using calculation(1) by (auto simp: discoveredState_def Let_def split: if_splits)
  ultimately consider "st = ''down''" "\<forall>n. (a, n) \<in> set expected \<longrightarrow> agreed (discovery_results s a n) = Some ''down''"
    | n where "st = ''up''" "(a, n) \<in> set expected" "agreed (discovery_results s a n) = Some ''up''"
    using discoveredState_down [of disc expected a] discoveredState_up [of disc expected a] by (metis m)
  then show ?thesis
  proof cases
    case 1
    have "discovery_results s a n \<noteq> [] \<and> set (discovery_results s a n) = {''down''}" if "(a, n) \<in> set expected" for n
      using agreed_all [of "discovery_results s a n" "''down''"] 1(2) that by (cases "discovery_results s a n") auto
    then show ?thesis using 1(1) d by simp
  next
    case 2
    have "discovery_results s a n \<noteq> [] \<and> set (discovery_results s a n) = {''up''}"
      using agreed_all [OF 2(3)] by (cases "discovery_results s a n") auto
    then show ?thesis using 2(1,2) d by auto
  qed
qed

definition a_down_snapshot :: snapshot where
  "a_down_snapshot = empty_snapshot\<lparr>sn_hosts := [a_host ''10.0.0.1'' [a_protocol ''tcp'' ''down'' ''down'']],
     sn_scopes := [\<lparr>sc_target = ''10.0.0.1'', sc_protocol = ''tcp'', sc_ports = ''80'', sc_service_detection = False\<rparr>]\<rparr>"

theorem host_state_has_evidence_witness:
  "discovery_results a_down_snapshot ''10.0.0.1'' ''tcp'' \<noteq> []"
proof -
  have e: "mget (discoveredStates a_down_snapshot) ''10.0.0.1'' = Some ''down''"
    "mget (recordedStates a_down_snapshot) ''10.0.0.1'' \<noteq> Some ''down''"
    "(''10.0.0.1'', ''tcp'') \<in> set (snd (discoveryOf a_down_snapshot))" by code_simp+
  show ?thesis using host_state_has_evidence [OF e(1,2)] e(3) by auto
qed

end
