(* ===== verification/Ports.thy ===== *)
theory Ports
  imports Prelude
begin

text \<open>
  Port expressions in \<open>internal/config/config.go\<close>: \<open>ParsePorts\<close>, which expands one for a scan,
  \<open>CanonicalPortExpression\<close>, which rewrites a stored one, and \<open>PortContains\<close>, the
  membership test of every comparison. The theorems show that the three agree.
\<close>

section \<open>Parsing\<close>

datatype port_error =
    PortsRequired
  | InvalidExpression string
  | InvalidPort string
  | OutOfRange string

type_synonym port_range = "int \<times> int"

text \<open>One item of the comma-separated list, in both functions that parse the whole text.\<close>

definition parse_item :: "string \<Rightarrow> port_error + port_range" where
  "parse_item item0 =
     (let item = trimSpace item0; parts = splitOn CHR ''-'' item in
      if length parts > 2 then Inl (InvalidExpression item)
      else case atoi (parts ! 0) of
        None \<Rightarrow> Inl (InvalidPort (parts ! 0))
      | Some start \<Rightarrow>
          (case (if length parts = 2 then atoi (parts ! 1) else Some start) of
             None \<Rightarrow> Inl (InvalidPort (parts ! 1))
           | Some end' \<Rightarrow>
               if start < 1 \<or> end' > 65535 \<or> end' < start then Inl (OutOfRange item)
               else Inr (start, end')))"

fun parse_items :: "string list \<Rightarrow> port_error + port_range list" where
  "parse_items [] = Inr []"
| "parse_items (item # items) =
     (case parse_item item of
        Inl e \<Rightarrow> Inl e
      | Inr r \<Rightarrow> (case parse_items items of Inl e \<Rightarrow> Inl e | Inr rs \<Rightarrow> Inr (r # rs)))"

text \<open>The set of ports is expanded and sorted.\<close>

definition expand :: "port_range list \<Rightarrow> int list" where
  "expand rs = sort (remdups (concat (map (\<lambda>(a, b). [a..b]) rs)))"

definition ParsePorts :: "string \<Rightarrow> port_error + int list" where
  "ParsePorts raw =
     (if trimSpace raw = [] then Inl PortsRequired
      else case parse_items (splitOn CHR '','' raw) of
        Inl e \<Rightarrow> Inl e
      | Inr rs \<Rightarrow> Inr (expand rs))"

section \<open>CanonicalPortExpression\<close>

text \<open>One turn of the merging loop; the output is kept with its last range first.\<close>

fun merge_port_step :: "port_range \<Rightarrow> port_range list \<Rightarrow> port_range list" where
  "merge_port_step current [] = [current]"
| "merge_port_step current (lst # merged) =
     (if fst current > snd lst + 1 then current # lst # merged
      else if snd current > snd lst then (fst lst, snd current) # merged
      else lst # merged)"

definition merge_ports :: "port_range list \<Rightarrow> port_range list" where
  "merge_ports ranges = rev (fold merge_port_step (sort ranges) [])"

definition show_range :: "port_range \<Rightarrow> string" where
  "show_range r = (if fst r = snd r then itoa (fst r) else itoa (fst r) @ ''-'' @ itoa (snd r))"

definition CanonicalPortExpression :: "string \<Rightarrow> string" where
  "CanonicalPortExpression raw0 =
     (let raw = trimSpace raw0 in
      if raw = [] then raw
      else case parse_items (splitOn CHR '','' raw) of
        Inl _ \<Rightarrow> raw
      | Inr ranges \<Rightarrow> joinWith '','' (map show_range (merge_ports ranges)))"

section \<open>PortContains\<close>

text \<open>The index into the text is the text that is left.\<close>

definition is_blank :: "char \<Rightarrow> bool" where
  "is_blank c = (c \<in> {CHR '' '', CHR 0x09, CHR 0x0D, CHR 0x0A})"

definition skip :: "string \<Rightarrow> string" where
  "skip s = dropWhile is_blank s"

fun scan_digits :: "int \<Rightarrow> nat \<Rightarrow> string \<Rightarrow> (int \<times> nat \<times> string) option" where
  "scan_digits v n [] = Some (v, n, [])"
| "scan_digits v n (c # cs) =
     (case digit_val c of
        None \<Rightarrow> Some (v, n, c # cs)
      | Some d \<Rightarrow> if v * 10 + d > 65535 then None else scan_digits (v * 10 + d) (Suc n) cs)"

definition scan_number :: "string \<Rightarrow> (int \<times> string) option" where
  "scan_number s =
     (case scan_digits 0 0 (skip s) of
        None \<Rightarrow> None
      | Some (v, n, rest) \<Rightarrow> if n > 0 then Some (v, rest) else None)"

text \<open>The bounds of one range and the text after it.\<close>

definition scan_range :: "string \<Rightarrow> (int \<times> int \<times> string) option" where
  "scan_range s0 =
     (let s = skip s0 in
      if s = [] \<or> hd s = CHR '','' then None
      else case scan_number s of
        None \<Rightarrow> None
      | Some (start, s1) \<Rightarrow>
          (let s2 = skip s1 in
           case (if s2 \<noteq> [] \<and> hd s2 = CHR ''-'' then scan_number (tl s2) else Some (start, s2)) of
             None \<Rightarrow> None
           | Some (end', s3) \<Rightarrow>
               if start < 1 \<or> end' < start then None else Some (start, end', skip s3)))"

lemma length_skip: "length (skip s) \<le> length s"
  by (simp add: skip_def length_dropWhile_le)

lemma scan_digits_length: "scan_digits v n s = Some (v', n', rest) \<Longrightarrow> length rest \<le> length s"
  by (induction v n s rule: scan_digits.induct) (auto split: option.splits if_splits)

lemma scan_number_length: "scan_number s = Some (v, rest) \<Longrightarrow> length rest \<le> length s"
  using scan_digits_length [of 0 0 "skip s"] length_skip [of s]
  by (fastforce simp: scan_number_def split: option.splits if_splits)

lemma scan_range_length:
  assumes "scan_range s = Some (a, b, rest)"
  shows "length rest \<le> length s"
proof -
  obtain s1 where 1: "scan_number (skip s) = Some (a, s1)"
    using assms by (auto simp: scan_range_def Let_def split: option.splits if_splits)
  obtain s3 where 3: "rest = skip s3" "scan_number (tl (skip s1)) = Some (b, s3) \<or> s3 = skip s1"
    using assms 1 by (auto simp: scan_range_def Let_def split: option.splits if_splits)
  have "length s1 \<le> length s" using scan_number_length [OF 1] length_skip [of s] by simp
  moreover have "length s3 \<le> length s1"
    using 3(2) scan_number_length [of "tl (skip s1)" b s3] length_skip [of s1] by auto
  ultimately show ?thesis using 3(1) length_skip [of s3] by simp
qed

function port_loop :: "int \<Rightarrow> bool \<Rightarrow> string \<Rightarrow> bool" where
  "port_loop port matched s =
     (case scan_range s of
        None \<Rightarrow> False
      | Some (start, end', rest) \<Rightarrow>
          (let matched' = (matched \<or> (port \<ge> start \<and> port \<le> end')) in
           case rest of
             [] \<Rightarrow> matched'
           | c # cs \<Rightarrow> if c \<noteq> CHR '','' then False else port_loop port matched' cs))"
  by pat_completeness auto
termination
  by (relation "measure (\<lambda>(_, _, s). length s)") (auto dest: scan_range_length)

declare port_loop.simps [simp del]

definition PortContains :: "string \<Rightarrow> int \<Rightarrow> bool" where
  "PortContains raw0 port =
     (let raw = trimSpace raw0 in
      if raw = [] then False
      else if port < 1 \<or> port > 65535 then False
      else port_loop port False raw)"

section \<open>Sets of ports as separated ranges\<close>

definition rset :: "port_range list \<Rightarrow> int set" where
  "rset rs = (\<Union>(a, b) \<in> set rs. {a..b})"

definition in_bounds :: "port_range list \<Rightarrow> bool" where
  "in_bounds rs = (\<forall>(a, b) \<in> set rs. 1 \<le> a \<and> a \<le> b \<and> b \<le> 65535)"

text \<open>Ordered, with a gap between any two ranges.\<close>

definition separated :: "port_range list \<Rightarrow> bool" where
  "separated rs = (in_bounds rs \<and> sorted_wrt (\<lambda>r s. snd r + 1 < fst s) rs)"

lemma rset_simps [simp]: "rset [] = {}" "rset ((a, b) # rs) = {a..b} \<union> rset rs"
  "rset (rs @ ss) = rset rs \<union> rset ss" "rset (rev rs) = rset rs"
  by (auto simp: rset_def)

lemma in_bounds_simps [simp]: "in_bounds []"
  "in_bounds ((a, b) # rs) \<longleftrightarrow> 1 \<le> a \<and> a \<le> b \<and> b \<le> 65535 \<and> in_bounds rs"
  "in_bounds (rs @ ss) \<longleftrightarrow> in_bounds rs \<and> in_bounds ss" "in_bounds (rev rs) = in_bounds rs"
  by (auto simp: in_bounds_def)

lemma separated_Nil [simp]: "separated []"
  by (simp add: separated_def)

lemma separated_Cons: "separated ((a, b) # rs) \<longleftrightarrow>
    1 \<le> a \<and> a \<le> b \<and> b \<le> 65535 \<and> separated rs \<and> (\<forall>s \<in> set rs. b + 1 < fst s)"
  by (auto simp: separated_def)

lemma rset_above: "separated rs \<Longrightarrow> \<forall>s \<in> set rs. b < fst s \<Longrightarrow> x \<in> rset rs \<Longrightarrow> b < x"
  by (fastforce simp: rset_def)

lemma separated_unique: "separated rs \<Longrightarrow> separated ss \<Longrightarrow> rset rs = rset ss \<Longrightarrow> rs = ss"
proof (induction rs arbitrary: ss)
  case Nil
  then show ?case by (cases ss) (auto simp: separated_Cons)
next
  case (Cons r rs)
  obtain a b where r: "r = (a, b)" by (cases r)
  note sr = Cons.prems(1) [unfolded r separated_Cons]
  have "a \<in> rset ss" using Cons.prems(3) sr by (auto simp: r)
  then obtain s ss' where ss: "ss = s # ss'" by (cases ss) auto
  obtain c d where s: "s = (c, d)" by (cases s)
  note sd = Cons.prems(2) [unfolded ss s separated_Cons]
  have eq: "{a..b} \<union> rset rs = {c..d} \<union> rset ss'" using Cons.prems(3) by (simp add: r ss s)
  have above: "x \<in> rset rs \<Longrightarrow> b + 1 < x" "x \<in> rset ss' \<Longrightarrow> d + 1 < x" for x
    using rset_above [of rs "b + 1" x] rset_above [of ss' "d + 1" x] sr sd by auto
  have "a \<in> {c..d} \<union> rset ss'" "c \<in> {a..b} \<union> rset rs" using eq sr sd by auto
  then have "a = c" using above sr sd by fastforce
  have bd: "b = d"
  proof (rule ccontr)
    assume "b \<noteq> d"
    then consider "b < d" | "d < b" by linarith
    then show False
    proof cases
      case 1
      then have "b + 1 \<in> {a..b} \<union> rset rs" using eq sr \<open>a = c\<close> by auto
      then show False using above(1) [of "b + 1"] by auto
    next
      case 2
      then have "d + 1 \<in> {a..b} \<union> rset rs" using sd \<open>a = c\<close> by auto
      then have "d + 1 \<in> {c..d} \<union> rset ss'" by (simp only: eq)
      then show False using above(2) [of "d + 1"] by auto
    qed
  qed
  have "rset rs = {a..b} \<union> rset rs - {a..b}" "rset ss' = {c..d} \<union> rset ss' - {c..d}"
    using above by fastforce+
  then have "rset rs = rset ss'" using eq bd \<open>a = c\<close> by metis
  then show ?case using Cons.IH [of ss'] sr sd bd \<open>a = c\<close> by (simp add: r ss s)
qed

text \<open>The merging loop over sorted ranges.\<close>

lemma merge_fold:
  assumes "sorted rs" "in_bounds rs" "separated (rev out)" "\<forall>r \<in> set rs. \<forall>s \<in> set out. fst s \<le> fst r"
  shows "separated (rev (fold merge_port_step rs out)) \<and> rset (fold merge_port_step rs out) = rset out \<union> rset rs"
  using assms
proof (induction rs arbitrary: out)
  case (Cons r rs)
  obtain a b where r: "r = (a, b)" by (cases r)
  have ab: "1 \<le> a" "a \<le> b" "b \<le> 65535" "in_bounds rs" "sorted rs" using Cons.prems by (auto simp: r)
  have ge: "a \<le> fst r'" if "r' \<in> set rs" for r'
    using Cons.prems(1) that by (cases r') (auto simp: r less_eq_prod_def)
  let ?out = "merge_port_step (a, b) out"
  have step: "separated (rev ?out) \<and> rset ?out = rset out \<union> {a..b} \<and> (\<forall>s \<in> set ?out. fst s \<le> a)"
  proof (cases out)
    case Nil
    then show ?thesis using ab by (simp add: separated_Cons)
  next
    case (Cons l ls)
    obtain c d where l: "l = (c, d)" by (cases l)
    have sep: "separated (rev ls)" "1 \<le> c" "c \<le> d" "d \<le> 65535" "\<forall>s \<in> set ls. snd s + 1 < c" "c \<le> a" "\<forall>s \<in> set ls. fst s \<le> a"
      using Cons.prems(3,4) Cons by (auto simp: l r separated_def sorted_wrt_append)
    consider "a > d + 1" | "a \<le> d + 1" "b > d" | "a \<le> d + 1" "b \<le> d" by linarith
    then show ?thesis
    proof cases
      case 1
      then show ?thesis using sep ab Cons l
        by (fastforce simp: separated_def sorted_wrt_append in_bounds_def)
    next
      case 2
      then have "{c..b} = {c..d} \<union> {a..b}" using sep ab by auto
      then show ?thesis using 2 sep ab Cons l
        by (auto simp: separated_def sorted_wrt_append)
    next
      case 3
      then have "{c..d} = {c..d} \<union> {a..b}" using sep ab by auto
      then show ?thesis using 3 sep ab Cons l
        by (auto simp: separated_def sorted_wrt_append)
    qed
  qed
  have "\<forall>r' \<in> set rs. \<forall>s \<in> set ?out. fst s \<le> fst r'" using step ge by fastforce
  then show ?case
    using Cons.IH [of ?out] step ab by (auto simp: r)
qed simp

lemma in_bounds_set: "set rs = set ss \<Longrightarrow> in_bounds rs = in_bounds ss" "set rs = set ss \<Longrightarrow> rset rs = rset ss"
  by (auto simp: in_bounds_def rset_def)

lemma merge_ports_ok:
  assumes "in_bounds rs"
  shows "separated (merge_ports rs) \<and> rset (merge_ports rs) = rset rs"
  using merge_fold [of "sort rs" "[]"] assms in_bounds_set [of "sort rs" rs] by (simp add: merge_ports_def)

lemma merge_ports_separated:
  assumes "separated rs"
  shows "merge_ports rs = rs"
  using merge_ports_ok [of rs] assms separated_unique by (metis separated_def)

lemma set_expand: "set (expand rs) = rset rs"
  by (auto simp: expand_def rset_def)

lemma expand_eq: "rset rs = rset ss \<Longrightarrow> expand rs = expand ss"
proof -
  assume "rset rs = rset ss"
  moreover have "sorted (expand rs)" "distinct (expand rs)" for rs by (simp_all add: expand_def)
  ultimately show ?thesis using set_expand by (metis sorted_distinct_set_unique)
qed

lemma parse_item_bounds: "parse_item s = Inr (a, b) \<Longrightarrow> 1 \<le> a \<and> a \<le> b \<and> b \<le> 65535"
  by (auto simp: parse_item_def Let_def split: if_splits option.splits)

lemma parse_items_bounds: "parse_items ss = Inr rs \<Longrightarrow> in_bounds rs"
  by (induction ss arbitrary: rs) (auto split: sum.splits dest: parse_item_bounds)

lemma parse_items_Nil: "parse_items ss = Inr rs \<Longrightarrow> rs = [] \<longleftrightarrow> ss = []"
  by (cases ss) (auto split: sum.splits)

section \<open>Reading a written list back\<close>

lemma itoa_chars: "0 \<le> i \<Longrightarrow> c \<in> set (itoa i) \<Longrightarrow> \<exists>d. 0 \<le> d \<and> d < 10 \<and> c = digit_char d"
  using int_digits_set by (simp add: itoa_def)

lemma digit_char_plain: "0 \<le> d \<Longrightarrow> d < 10 \<Longrightarrow>
    digit_char d \<noteq> CHR ''-'' \<and> digit_char d \<noteq> CHR '','' \<and> \<not> is_space (digit_char d) \<and> \<not> is_blank (digit_char d)"
  by (drule digit_cases, assumption) (auto simp: digit_char_def is_space_def is_blank_def)

lemma itoa_plain:
  assumes "0 \<le> i"
  shows "CHR ''-'' \<notin> set (itoa i)" "CHR '','' \<notin> set (itoa i)" "\<forall>c \<in> set (itoa i). \<not> is_space c \<and> \<not> is_blank c"
    "itoa i \<noteq> []"
proof -
  have c: "\<exists>d. 0 \<le> d \<and> d < 10 \<and> c = digit_char d" if "c \<in> set (itoa i)" for c using itoa_chars [OF assms that] .
  show "CHR ''-'' \<notin> set (itoa i)" "CHR '','' \<notin> set (itoa i)" "\<forall>c \<in> set (itoa i). \<not> is_space c \<and> \<not> is_blank c"
    using c digit_char_plain by metis+
  show "itoa i \<noteq> []" using assms by (simp add: itoa_def)
qed

definition port_bounds :: "port_range \<Rightarrow> bool" where
  "port_bounds r = (1 \<le> fst r \<and> fst r \<le> snd r \<and> snd r \<le> 65535)"

lemma in_bounds_iff: "in_bounds rs \<longleftrightarrow> (\<forall>r \<in> set rs. port_bounds r)"
  by (auto simp: in_bounds_def port_bounds_def)

lemma show_range_plain:
  assumes "port_bounds r"
  shows "CHR '','' \<notin> set (show_range r)" "\<forall>c \<in> set (show_range r). \<not> is_space c \<and> \<not> is_blank c"
    "show_range r \<noteq> []"
proof -
  have "0 \<le> fst r" "0 \<le> snd r" using assms by (auto simp: port_bounds_def)
  moreover have "\<not> is_space CHR ''-''" "\<not> is_blank CHR ''-''" by (auto simp: is_space_def is_blank_def)
  ultimately show "CHR '','' \<notin> set (show_range r)" "\<forall>c \<in> set (show_range r). \<not> is_space c \<and> \<not> is_blank c"
      "show_range r \<noteq> []"
    using itoa_plain [of "fst r"] itoa_plain [of "snd r"] by (auto simp: show_range_def)
qed

lemma parse_show_range:
  assumes "port_bounds r"
  shows "parse_item (show_range r) = Inr r"
proof -
  obtain a b where r: "r = (a, b)" by (cases r)
  have ab: "1 \<le> a" "a \<le> b" "b \<le> 65535" using assms by (auto simp: r port_bounds_def)
  have t: "trimSpace (show_range r) = show_range r" using show_range_plain(2) [OF assms] trimSpace_plain by blast
  have n: "atoi (itoa a) = Some a" "atoi (itoa b) = Some b" using ab by (auto intro!: atoi_itoa)
  show ?thesis
  proof (cases "a = b")
    case True
    then have "splitOn CHR ''-'' (show_range r) = [itoa a]"
      using itoa_plain(1) [of a] ab by (simp add: show_range_def r splitOn_no_sep)
    then show ?thesis using t n ab True by (simp add: parse_item_def r)
  next
    case False
    then have "splitOn CHR ''-'' (show_range r) = [itoa a, itoa b]"
      using itoa_plain(1) [of a] itoa_plain(1) [of b] ab
      by (simp add: show_range_def r splitOn_no_sep splitOn_append_sep)
    then show ?thesis using t n ab by (simp add: parse_item_def r)
  qed
qed

definition show_ranges :: "port_range list \<Rightarrow> string" where
  "show_ranges rs = joinWith '','' (map show_range rs)"

lemma show_ranges_Cons: "rs \<noteq> [] \<Longrightarrow> show_ranges (r # rs) = show_range r @ CHR '','' # show_ranges rs"
  by (simp add: show_ranges_def joinWith_Cons)

lemma show_ranges_single [simp]: "show_ranges [r] = show_range r"
  by (simp add: show_ranges_def)

lemma show_ranges_plain:
  assumes "in_bounds rs"
  shows "\<forall>c \<in> set (show_ranges rs). \<not> is_space c" "trimSpace (show_ranges rs) = show_ranges rs"
proof -
  have "\<not> is_space CHR '',''" by (simp add: is_space_def)
  then show 1: "\<forall>c \<in> set (show_ranges rs). \<not> is_space c"
    using set_joinWith [of _ "'',''" "map show_range rs"] show_range_plain(2) assms
    by (fastforce simp: show_ranges_def in_bounds_iff)
  then show "trimSpace (show_ranges rs) = show_ranges rs" by (rule trimSpace_plain)
qed

lemma show_ranges_not_Nil: "in_bounds rs \<Longrightarrow> rs \<noteq> [] \<Longrightarrow> show_ranges rs \<noteq> []"
  by (cases rs; cases "tl rs") (auto simp: in_bounds_iff show_ranges_Cons show_range_plain(3))

lemma parse_show_ranges:
  assumes "in_bounds rs" "rs \<noteq> []"
  shows "parse_items (splitOn CHR '','' (show_ranges rs)) = Inr rs"
proof -
  have "splitOn CHR '','' (show_ranges rs) = map show_range rs"
    unfolding show_ranges_def using assms show_range_plain(1) by (intro splitOn_joinWith) (auto simp: in_bounds_iff)
  moreover have "parse_items (map show_range rs) = Inr rs"
    using assms(1) by (induction rs) (auto simp: in_bounds_iff parse_show_range)
  ultimately show ?thesis by simp
qed

text \<open>The scanner of \<open>PortContains\<close> reads the same ranges.\<close>

lemma digits_val_mono: "digits_val v ds = Some n \<Longrightarrow> 0 \<le> v \<Longrightarrow> v \<le> n"
proof (induction ds arbitrary: v)
  case (Cons c ds)
  then obtain d where d: "digit_val c = Some d" "digits_val (10 * v + d) ds = Some n" by (auto split: option.splits)
  have "0 \<le> d" using d(1) by (auto simp: digit_val_def split: if_splits)
  then show ?case using Cons.IH [OF d(2)] Cons.prems by simp
qed simp

lemma scan_digits_ok:
  assumes "digits_val v ds = Some n" "0 \<le> v" "n \<le> 65535" "rest = [] \<or> digit_val (hd rest) = None"
  shows "scan_digits v k (ds @ rest) = Some (n, k + length ds, rest)"
  using assms
proof (induction ds arbitrary: v k)
  case Nil
  then show ?case by (cases rest) auto
next
  case (Cons c ds)
  then obtain d where d: "digit_val c = Some d" "digits_val (10 * v + d) ds = Some n" by (auto split: option.splits)
  have "0 \<le> d" using d(1) by (auto simp: digit_val_def split: if_splits)
  then have "0 \<le> 10 * v + d" "10 * v + d \<le> n" using digits_val_mono [OF d(2)] Cons.prems(2) by auto
  then show ?case using Cons.IH [OF d(2)] Cons.prems(3,4) d(1) by (simp add: mult.commute)
qed

lemma scan_number_ok:
  assumes "0 \<le> n" "n \<le> 65535" "rest = [] \<or> digit_val (hd rest) = None"
  shows "scan_number (itoa n @ rest) = Some (n, rest)"
proof -
  have "skip (itoa n @ rest) = itoa n @ rest"
    using itoa_plain(3,4) [OF assms(1)] by (cases "itoa n") (auto simp: skip_def)
  moreover have "digits_val 0 (itoa n) = Some n" using assms(1) by (simp add: itoa_def digits_val_int_digits)
  ultimately show ?thesis
    using scan_digits_ok [of 0 "itoa n" n rest 0] assms itoa_plain(4) [OF assms(1)] by (simp add: scan_number_def)
qed

lemma scan_range_ok:
  assumes "port_bounds r" "rest = [] \<or> hd rest = CHR '',''"
  shows "scan_range (show_range r @ rest) = Some (fst r, snd r, rest)"
proof -
  obtain a b where r: "r = (a, b)" by (cases r)
  have ab: "1 \<le> a" "a \<le> b" "b \<le> 65535" using assms by (auto simp: r port_bounds_def)
  obtain c cs where c: "show_range r = c # cs" using show_range_plain(3) [OF assms(1)] by (cases "show_range r") auto
  then have cp: "\<not> is_blank c" "c \<noteq> CHR '',''" using show_range_plain [OF assms(1)] by auto
  have sr: "skip (show_range r @ rest) = show_range r @ rest" using cp by (simp add: c skip_def)
  have kr: "skip rest = rest" using assms(2) by (cases rest) (auto simp: skip_def is_blank_def)
  have dash: "skip (CHR ''-'' # s) = CHR ''-'' # s" for s by (simp add: skip_def is_blank_def)
  have dr: "rest = [] \<or> digit_val (hd rest) = None" using assms(2) by (auto simp: digit_val_def)
  define s where "s = show_range r @ rest"
  have s: "skip s = s" "s \<noteq> []" "hd s \<noteq> CHR '',''" using sr cp by (simp_all add: s_def c)
  have "scan_range s = Some (a, b, rest)"
  proof (cases "a = b")
    case True
    have "scan_number s = Some (a, rest)"
      using ab dr True by (auto simp: s_def show_range_def r intro!: scan_number_ok)
    then show ?thesis using s kr ab True assms(2) by (auto simp: scan_range_def)
  next
    case False
    have "scan_number s = Some (a, CHR ''-'' # itoa b @ rest)"
      using ab False by (auto simp: s_def show_range_def r digit_val_def intro!: scan_number_ok)
    moreover have "scan_number (itoa b @ rest) = Some (b, rest)" using ab dr by (intro scan_number_ok) auto
    ultimately show ?thesis using s kr ab dash by (auto simp: scan_range_def)
  qed
  then show ?thesis by (simp add: s_def r)
qed

lemma port_loop_ok:
  assumes "in_bounds rs" "rs \<noteq> []"
  shows "port_loop p m (show_ranges rs) \<longleftrightarrow> m \<or> p \<in> rset rs"
  using assms
proof (induction rs arbitrary: m)
  case (Cons r rs)
  have b: "port_bounds r" "in_bounds rs" using Cons.prems by (auto simp: in_bounds_iff)
  obtain x y where r: "r = (x, y)" by (cases r)
  show ?case
  proof (cases "rs = []")
    case True
    then show ?thesis using scan_range_ok [OF b(1), of "[]"]
      by (subst port_loop.simps) (auto simp: r)
  next
    case False
    then show ?thesis
      using scan_range_ok [OF b(1), of "CHR '','' # show_ranges rs"] Cons.IH [OF b(2) False]
      by (subst port_loop.simps) (auto simp: show_ranges_Cons r)
  qed
qed simp

lemma rset_bounds: "in_bounds rs \<Longrightarrow> p \<in> rset rs \<Longrightarrow> 1 \<le> p \<and> p \<le> 65535"
  by (fastforce simp: in_bounds_def rset_def)

lemma PortContains_show:
  assumes "in_bounds rs" "rs \<noteq> []"
  shows "PortContains (show_ranges rs) p \<longleftrightarrow> p \<in> rset rs"
  using port_loop_ok [OF assms, of p False] show_ranges_plain [OF assms(1)] show_ranges_not_Nil [OF assms]
    rset_bounds [OF assms(1), of p] by (auto simp: PortContains_def)

section \<open>The canonical spelling\<close>

text \<open>Trimming the whole expression first does not change its items.\<close>

lemma splitOn_trim_left:
  assumes "is_space c" "c \<noteq> sep"
  shows "map trimSpace (splitOn sep (c # s)) = map trimSpace (splitOn sep s)"
  using assms by (cases "splitOn sep s") (auto simp: trimSpace_Cons)

lemma splitOn_snoc: "c \<noteq> sep \<Longrightarrow>
    splitOn sep (s @ [c]) = butlast (splitOn sep s) @ [last (splitOn sep s) @ [c]]"
  by (induction s) (auto split: list.splits)

lemma splitOn_trim_right:
  assumes "is_space c" "c \<noteq> sep"
  shows "map trimSpace (splitOn sep (s @ [c])) = map trimSpace (splitOn sep s)"
proof -
  obtain qs q where q: "splitOn sep s = qs @ [q]" by (metis rev_exhaust splitOn_not_Nil)
  then show ?thesis using splitOn_snoc [OF assms(2), of s] by (simp add: trimSpace_snoc assms)
qed

lemma splitOn_trimSpace:
  assumes "\<not> is_space sep"
  shows "map trimSpace (splitOn sep (trimSpace s)) = map trimSpace (splitOn sep s)"
proof -
  have l: "map trimSpace (splitOn sep (dropWhile is_space t)) = map trimSpace (splitOn sep t)" for t
  proof (induction t)
    case (Cons c t)
    then show ?case using splitOn_trim_left [of c sep t] assms by (cases "is_space c") auto
  qed simp
  have r: "map trimSpace (splitOn sep (rev (dropWhile is_space t))) = map trimSpace (splitOn sep (rev t))" for t
  proof (induction t)
    case (Cons c t)
    show ?case
    proof (cases "is_space c")
      case True
      then have "c \<noteq> sep" using assms by auto
      then show ?thesis using Cons splitOn_trim_right [OF True, of sep "rev t"] True by simp
    qed simp
  qed simp
  show ?thesis using r [of "rev (dropWhile is_space s)"] l [of s] by (simp add: trimSpace_def)
qed

lemma parse_item_trim: "trimSpace s = trimSpace t \<Longrightarrow> parse_item s = parse_item t"
  by (simp add: parse_item_def)

lemma parse_items_trim: "map trimSpace ss = map trimSpace ts \<Longrightarrow> parse_items ss = parse_items ts"
proof (induction ss arbitrary: ts)
  case (Cons s ss)
  then obtain t ts' where t: "ts = t # ts'" "trimSpace s = trimSpace t" "map trimSpace ss = map trimSpace ts'"
    by (cases ts) auto
  show ?case using Cons.IH [OF t(3)] parse_item_trim [OF t(2)] by (simp add: t(1) split: sum.split)
qed simp

lemma parse_items_trimSpace: "parse_items (splitOn CHR '','' (trimSpace s)) = parse_items (splitOn CHR '','' s)"
  by (intro parse_items_trim splitOn_trimSpace) (simp add: is_space_def)

lemma canonical_show:
  assumes "ParsePorts raw = Inr ps"
  shows "\<exists>rs. separated rs \<and> rs \<noteq> [] \<and> ps = expand rs \<and> CanonicalPortExpression raw = show_ranges rs"
proof -
  obtain rs where rs: "parse_items (splitOn CHR '','' raw) = Inr rs" "ps = expand rs" "trimSpace raw \<noteq> []"
    using assms by (auto simp: ParsePorts_def split: if_splits sum.splits)
  have b: "in_bounds rs" "rs \<noteq> []" using parse_items_bounds [OF rs(1)] parse_items_Nil [OF rs(1)] by auto
  note m = merge_ports_ok [OF b(1)]
  obtain r rs' where "rs = r # rs'" using b(2) by (cases rs) auto
  then have "rset rs \<noteq> {}" using b(1) by (cases r) auto
  then have "merge_ports rs \<noteq> []" using m by auto
  moreover have "CanonicalPortExpression raw = show_ranges (merge_ports rs)"
    using rs parse_items_trimSpace [of raw] by (simp add: CanonicalPortExpression_def show_ranges_def)
  moreover have "ps = expand (merge_ports rs)" using rs(2) m expand_eq by metis
  ultimately show ?thesis using m by blast
qed

lemma ParsePorts_show:
  assumes "separated rs" "rs \<noteq> []"
  shows "ParsePorts (show_ranges rs) = Inr (expand rs) \<and> CanonicalPortExpression (show_ranges rs) = show_ranges rs"
proof -
  have b: "in_bounds rs" using assms(1) by (simp add: separated_def)
  show ?thesis
    using show_ranges_plain [OF b] show_ranges_not_Nil [OF b assms(2)] parse_show_ranges [OF b assms(2)]
      merge_ports_separated [OF assms(1)]
    by (simp add: ParsePorts_def CanonicalPortExpression_def) (simp add: show_ranges_def)
qed

lemma canonical_ports_agree_raw:
  assumes "ParsePorts raw = Inr ports"
  shows "ParsePorts (CanonicalPortExpression raw) = Inr ports"
  using canonical_show [OF assms] ParsePorts_show by metis

text \<open>
  C17: Rewriting a valid port expression keeps its ports, the membership test of the
  comparison answers exactly for them, and rewriting again changes nothing.
\<close>

theorem canonical_ports_agree:
  assumes "ParsePorts raw = Inr ports"
  shows "ParsePorts (CanonicalPortExpression raw) = Inr ports \<and>
    PortContains (CanonicalPortExpression raw) p = (p \<in> set ports) \<and>
    CanonicalPortExpression (CanonicalPortExpression raw) = CanonicalPortExpression raw"
proof -
  obtain rs where rs: "separated rs" "rs \<noteq> []" "ports = expand rs" "CanonicalPortExpression raw = show_ranges rs"
    using canonical_show [OF assms] by blast
  then have "in_bounds rs" by (simp add: separated_def)
  then show ?thesis using ParsePorts_show PortContains_show rs by (simp add: set_expand)
qed

theorem canonical_ports_agree_witness:
  "PortContains (CanonicalPortExpression ''8'') 8"
proof -
  have "ParsePorts ''8'' = Inr [8]" by code_simp
  from canonical_ports_agree [OF this, of 8] show ?thesis by simp
qed

text \<open>
  The spelling is canonical: two valid expressions for the same set of ports have the
  same text, so a change of spelling never looks like a change of scope.
\<close>

theorem canonical_ports_unique:
  assumes "ParsePorts raw = Inr ports" "ParsePorts raw' = Inr ports'"
  shows "CanonicalPortExpression raw = CanonicalPortExpression raw' \<longleftrightarrow> set ports = set ports'"
proof -
  obtain rs rs' where
    rs: "separated rs" "ports = expand rs" "CanonicalPortExpression raw = show_ranges rs" and
    rs': "separated rs'" "ports' = expand rs'" "CanonicalPortExpression raw' = show_ranges rs'"
    using canonical_show [OF assms(1)] canonical_show [OF assms(2)] by metis
  show ?thesis
  proof
    assume "CanonicalPortExpression raw = CanonicalPortExpression raw'"
    then show "set ports = set ports'"
      using canonical_ports_agree_raw [OF assms(1)] canonical_ports_agree_raw [OF assms(2)] by simp
  next
    assume "set ports = set ports'"
    then have "rset rs = rset rs'" using rs rs' by (simp add: set_expand)
    then show "CanonicalPortExpression raw = CanonicalPortExpression raw'"
      using separated_unique rs rs' by metis
  qed
qed

theorem canonical_ports_unique_witness:
  "CanonicalPortExpression ''7-9,8'' = CanonicalPortExpression ''9,8,7''"
proof -
  have p: "ParsePorts ''7-9,8'' = Inr [7, 8, 9]" "ParsePorts ''9,8,7'' = Inr [7, 8, 9]" by code_simp+
  show ?thesis using canonical_ports_unique [OF p] by simp
qed

text \<open>
  A range with blanks around its dash is no valid expression for \<open>ParsePorts\<close>, and still
  \<open>PortContains\<close> matches ports in it; a sign is the opposite case.
\<close>

lemma spellings_differ:
  "ParsePorts ''80 - 90'' = Inl (InvalidPort ''80 '') \<and> PortContains ''80 - 90'' 85 \<and>
   ParsePorts ''+80'' = Inr [80] \<and> \<not> PortContains ''+80'' 80"
  by code_simp

end
