(* ===== verification/Diff.thy ===== *)
theory Diff
  imports Coverage Ports
begin

text \<open>
  \<open>internal/engine/engine.go\<close>, the comparison of two snapshots: \<open>items\<close>, the scopes and their
  index, the addresses that completed discovery found down, the per-address comparison of DNS
  targets, and \<open>Diff\<close> itself with the filter of the aggregate DNS mode.
\<close>

section \<open>The job\<close>

definition DNSComparisonAddressSensitive :: string where
  "DNSComparisonAddressSensitive = ''address_sensitive''"

definition DNSComparisonAggregate :: string where
  "DNSComparisonAggregate = ''aggregate''"

text \<open>The fields of \<open>config.Job\<close> that the engine reads, and its two hashes.\<close>

record job =
  jb_name :: string
  jb_dns_mode :: string
  jb_samples :: int
  jb_confirmations :: int
  jb_security_hash :: string
  jb_legacy_security_hash :: string

definition zero_job :: job where
  "zero_job = \<lparr>jb_name = [], jb_dns_mode = [], jb_samples = 0, jb_confirmations = 0,
     jb_security_hash = [], jb_legacy_security_hash = []\<rparr>"

definition aggregates :: "job \<Rightarrow> bool" where
  "aggregates job = (jb_dns_mode job = DNSComparisonAggregate)"

section \<open>Keys\<close>

definition bar :: char where
  "bar = CHR ''|''"

definition portChangeKey :: "string \<Rightarrow> string \<Rightarrow> int \<Rightarrow> string" where
  "portChangeKey target protocol port = ''port|'' @ target @ bar # protocol @ bar # itoa port"

definition fingerprintKey :: "string \<Rightarrow> string \<Rightarrow> int \<Rightarrow> string" where
  "fingerprintKey target protocol port = ''service|'' @ target @ bar # protocol @ bar # itoa port"

definition portAddressKey :: "string \<Rightarrow> string \<Rightarrow> int \<Rightarrow> string \<Rightarrow> string" where
  "portAddressKey target protocol port address =
     ''port-address|'' @ target @ bar # protocol @ bar # itoa port @ bar # address"

definition dnsKey :: "string \<Rightarrow> string \<Rightarrow> string" where
  "dnsKey target address = ''dns|'' @ target @ bar # address"

definition hostKey :: "string \<Rightarrow> string" where
  "hostKey address = ''host|'' @ address"

section \<open>Items\<close>

record item =
  it_kind :: string
  it_target :: string
  it_protocol :: string
  it_port :: int
  it_value :: string
  it_severity :: string

definition port_item :: "unit_obs \<Rightarrow> port_state \<Rightarrow> string \<times> item" where
  "port_item u p = (portChangeKey (u_target u) (u_protocol u) (ps_port p),
     \<lparr>it_kind = ''port'', it_target = u_target u, it_protocol = u_protocol u, it_port = ps_port p,
      it_value = ps_state p, it_severity = (if ps_state p = ''open|filtered'' then ''warning'' else ''critical'')\<rparr>)"

definition service_item :: "unit_obs \<Rightarrow> port_state \<Rightarrow> string \<times> item" where
  "service_item u p = (fingerprintKey (u_target u) (u_protocol u) (ps_port p),
     \<lparr>it_kind = ''service'', it_target = u_target u, it_protocol = u_protocol u, it_port = ps_port p,
      it_value = ps_service p, it_severity = ''warning''\<rparr>)"

definition dns_item :: "string \<Rightarrow> string \<Rightarrow> string \<times> item" where
  "dns_item target address = (dnsKey target address,
     \<lparr>it_kind = ''dns'', it_target = target, it_protocol = [], it_port = 0, it_value = address,
      it_severity = ''warning''\<rparr>)"

text \<open>The writes of \<open>items\<close> to its map, in order.\<close>

definition item_writes :: "snapshot \<Rightarrow> (string \<times> item) list" where
  "item_writes s =
     [w. u \<leftarrow> sn_units s, p \<leftarrow> u_ports u,
         w \<leftarrow> port_item u p # (if ps_service p \<noteq> [] then [service_item u p] else [])] @
     [dns_item target address. (target, addresses) \<leftarrow> sn_dns s, address \<leftarrow> addresses]"

definition items :: "snapshot \<Rightarrow> (string, item) gomap" where
  "items s = fold (\<lambda>(k, v). mput k v) (item_writes s) []"

text \<open>The port of a snapshot, and whether it is there: the first match wins.\<close>

definition zero_port_state :: port_state where
  "zero_port_state = \<lparr>ps_port = 0, ps_state = [], ps_service = [], ps_evidence = []\<rparr>"

definition baselinePort :: "snapshot \<Rightarrow> string \<Rightarrow> string \<Rightarrow> int \<Rightarrow> port_state \<times> bool" where
  "baselinePort s target protocol port =
     (case [v. u \<leftarrow> sn_units s, u_target u = target \<and> u_protocol u = protocol, v \<leftarrow> u_ports u, ps_port v = port] of
        [] \<Rightarrow> (zero_port_state, False)
      | v # _ \<Rightarrow> (v, True))"

section \<open>Scopes\<close>

definition hasTarget :: "snapshot \<Rightarrow> string \<Rightarrow> bool" where
  "hasTarget s target = (\<exists>c \<in> set (sn_scopes s). sc_target c = target)"

definition scopeAllows :: "snapshot \<Rightarrow> string \<Rightarrow> string \<Rightarrow> int \<Rightarrow> bool \<Rightarrow> bool" where
  "scopeAllows s target protocol port service =
     (\<exists>c \<in> set (sn_scopes s). sc_target c = target \<and> sc_protocol c = protocol \<and>
        PortContains (sc_ports c) port \<and> (\<not> service \<or> sc_service_detection c))"

text \<open>The index groups the scopes of one target and protocol; the first is stored on its own.\<close>

record scope_group =
  sg_first :: scope
  sg_rest :: "scope list"

type_synonym scope_index = "(string \<times> string, scope_group) gomap"

definition scope_index_step :: "scope \<Rightarrow> scope_index \<Rightarrow> scope_index" where
  "scope_index_step c index =
     (let key = (sc_target c, sc_protocol c) in
      case mget index key of
        None \<Rightarrow> mput key \<lparr>sg_first = c, sg_rest = []\<rparr> index
      | Some grp \<Rightarrow> mput key (grp\<lparr>sg_rest := sg_rest grp @ [c]\<rparr>) index)"

definition newScopeIndex :: "snapshot \<Rightarrow> scope_index" where
  "newScopeIndex s = fold scope_index_step (sn_scopes s) []"

definition allows :: "scope_index \<Rightarrow> string \<Rightarrow> string \<Rightarrow> int \<Rightarrow> bool \<Rightarrow> bool" where
  "allows index target protocol port service =
     (case mget index (target, protocol) of
        None \<Rightarrow> False
      | Some grp \<Rightarrow>
          if PortContains (sc_ports (sg_first grp)) port \<and> (\<not> service \<or> sc_service_detection (sg_first grp))
          then True
          else \<exists>c \<in> set (sg_rest grp). PortContains (sc_ports c) port \<and> (\<not> service \<or> sc_service_detection c))"

record scope_lookups =
  lk_old :: scope_index
  lk_current :: scope_index

definition newScopeLookups :: "snapshot \<Rightarrow> snapshot \<Rightarrow> scope_lookups" where
  "newScopeLookups old current = \<lparr>lk_old = newScopeIndex old, lk_current = newScopeIndex current\<rparr>"

definition inBothScopes :: "snapshot \<Rightarrow> snapshot \<Rightarrow> item \<Rightarrow> bool" where
  "inBothScopes a b v =
     (if it_kind v = ''dns'' then hasTarget a (it_target v) \<and> hasTarget b (it_target v)
      else if it_kind v = ''host'' then hostInScope a (it_target v) \<and> hostInScope b (it_target v)
      else scopeAllows a (it_target v) (it_protocol v) (it_port v) (it_kind v = ''service'') \<and>
           scopeAllows b (it_target v) (it_protocol v) (it_port v) (it_kind v = ''service''))"

definition inBothScopesWithScopeIndexes :: "snapshot \<Rightarrow> snapshot \<Rightarrow> item \<Rightarrow> scope_lookups option \<Rightarrow> bool" where
  "inBothScopesWithScopeIndexes a b v indexes =
     (case indexes of
        None \<Rightarrow> inBothScopes a b v
      | Some ix \<Rightarrow>
          if it_kind v = ''dns'' then hasTarget a (it_target v) \<and> hasTarget b (it_target v)
          else if it_kind v = ''host'' then hostInScope a (it_target v) \<and> hostInScope b (it_target v)
          else allows (lk_old ix) (it_target v) (it_protocol v) (it_port v) (it_kind v = ''service'') \<and>
               allows (lk_current ix) (it_target v) (it_protocol v) (it_port v) (it_kind v = ''service''))"

section \<open>Addresses and DNS targets\<close>

definition canonicalAddress :: "string \<Rightarrow> string" where
  "canonicalAddress address =
     (case parseIP (trimSpace address) of Some ip \<Rightarrow> ipString ip | None \<Rightarrow> trimSpace address)"

definition canonicalAddressSet :: "string list \<Rightarrow> string list" where
  "canonicalAddressSet addresses = remdups (filter (\<lambda>a. a \<noteq> []) (map canonicalAddress addresses))"

definition isDNSComparisonTarget :: "string \<Rightarrow> bool" where
  "isDNSComparisonTarget target0 =
     (let target = trimSpace target0 in \<not> (target = [] \<or> is_ip target) \<and> \<not> is_cidr target)"

definition dnsTargetsInSnapshot :: "snapshot \<Rightarrow> string list" where
  "dnsTargetsInSnapshot s =
     [trimSpace (sc_target c). c \<leftarrow> sn_scopes s, isDNSComparisonTarget (sc_target c)] @
     map trimSpace (mkeys (sn_dns s))"

definition dnsAddressesInSnapshot :: "snapshot \<Rightarrow> string list" where
  "dnsAddressesInSnapshot s =
     [canonicalAddress a. (_, resolved) \<leftarrow> sn_dns s, a \<leftarrow> resolved, canonicalAddress a \<noteq> []]"

text \<open>\<open>targetIP.Equal(ip)\<close> compares the 16-byte forms.\<close>

definition snapshotHasNonDNSAddressScope :: "snapshot \<Rightarrow> string \<Rightarrow> bool" where
  "snapshotHasNonDNSAddressScope s address =
     (case parseIP (trimSpace address) of
        None \<Rightarrow> False
      | Some ip \<Rightarrow>
          \<exists>c \<in> set (sn_scopes s).
            let target = trimSpace (sc_target c) in
            \<not> isDNSComparisonTarget target \<and>
            (parseIP target = Some ip \<or>
             (case parseCIDR target of Some network \<Rightarrow> netContains network ip | None \<Rightarrow> False)))"

definition dnsOnlyAddressInSnapshot :: "string \<Rightarrow> string list \<Rightarrow> snapshot \<Rightarrow> bool" where
  "dnsOnlyAddressInSnapshot address dnsAddresses s =
     (if canonicalAddress address \<notin> set dnsAddresses then False
      else \<not> snapshotHasNonDNSAddressScope s (canonicalAddress address))"

section \<open>Addresses that are down\<close>

definition down_pair :: "string \<Rightarrow> string \<Rightarrow> pairs" where
  "down_pair protocol address =
     (if word protocol = [] \<or> trimSpace address = [] then [] else [(word protocol, trimSpace address)])"

definition completedDownAddressesByProtocolForJob :: "snapshot \<Rightarrow> snapshot \<Rightarrow> job \<Rightarrow> pairs" where
  "completedDownAddressesByProtocolForJob old s job =
     (let down = [e. h \<leftarrow> sn_host_states s, equalFold (trimSpace (hs_state h)) ''down'', e \<leftarrow> down_pair ''*'' (hs_address h)] @
            [e. h \<leftarrow> sn_hosts s, p \<leftarrow> ho_protocols h, isCompletedProtocolHostDiscoveryDown p,
                e \<leftarrow> down_pair (po_protocol p) (ho_address h)]
      in if aggregates job
         then (let dnsAddresses = dnsAddressesInSnapshot old @ dnsAddressesInSnapshot s
               in filter (\<lambda>(_, a). \<not> (dnsOnlyAddressInSnapshot a dnsAddresses old \<and>
                                       dnsOnlyAddressInSnapshot a dnsAddresses s)) down)
         else down)"

definition completedDownAddressesByProtocol :: "snapshot \<Rightarrow> pairs" where
  "completedDownAddressesByProtocol s = completedDownAddressesByProtocolForJob empty_snapshot s zero_job"

definition explicitlyDownForProtocol :: "pairs \<Rightarrow> string \<Rightarrow> string \<Rightarrow> bool" where
  "explicitlyDownForProtocol down protocol address =
     ((''*'', trimSpace address) \<in> set down \<or> (word protocol, trimSpace address) \<in> set down)"

text \<open>
  The addresses behind a positive port, and whether the port is there at all. \<open>None\<close> in the
  loop is the early return for a port whose addresses are unknown.
\<close>

definition portAddressesOf :: "snapshot \<Rightarrow> unit_obs \<Rightarrow> port_state \<Rightarrow> string list" where
  "portAddressesOf s u p =
     (if ps_evidence p \<noteq> [] then ps_evidence p
      else if u_addresses u \<noteq> [] then u_addresses u
      else if dns_of s (u_target u) \<noteq> [] then dns_of s (u_target u)
      else if is_ip (trimSpace (u_target u)) then [u_target u] else [])"

definition positiveMatches :: "snapshot \<Rightarrow> string \<Rightarrow> string \<Rightarrow> int \<Rightarrow> (unit_obs \<times> port_state) list" where
  "positiveMatches s target protocol port =
     [(u, p). u \<leftarrow> sn_units s, u_target u = target \<and> equalFold (u_protocol u) protocol,
              p \<leftarrow> u_ports u, ps_port p = port \<and> isPositivePortState (ps_state p)]"

definition positivePortAddresses :: "snapshot \<Rightarrow> string \<Rightarrow> string \<Rightarrow> int \<Rightarrow> string list \<times> bool" where
  "positivePortAddresses s target protocol port =
     (let matches = positiveMatches s target protocol port in
      if \<exists>(u, p) \<in> set matches. portAddressesOf s u p = [] then ([], True)
      else (map trimSpace (concat (map (\<lambda>(u, p). portAddressesOf s u p) matches)), matches \<noteq> []))"

definition targetAddresses :: "snapshot \<Rightarrow> string \<Rightarrow> string \<Rightarrow> string list" where
  "targetAddresses s target protocol =
     (case [u_addresses u. u \<leftarrow> sn_units s, u_target u = target \<and> equalFold (u_protocol u) protocol \<and> u_addresses u \<noteq> []] of
        as # _ \<Rightarrow> as
      | [] \<Rightarrow> if dns_of s target \<noteq> [] then dns_of s target
              else if is_ip (trimSpace target) then [target] else [])"

definition missingPositivePortExplainedByDown :: "snapshot \<Rightarrow> item \<Rightarrow> pairs \<Rightarrow> bool" where
  "missingPositivePortExplainedByDown old v down =
     (if down = [] then False
      else let (addresses, found) = positivePortAddresses old (it_target v) (it_protocol v) (it_port v) in
        if \<not> found \<or> addresses = [] then False
        else \<forall>a \<in> set addresses. explicitlyDownForProtocol down (it_protocol v) a)"

section \<open>Ports of one address\<close>

text \<open>\<open>unitMap\<close>: the last unit of a target and protocol wins.\<close>

definition unitMap :: "snapshot \<Rightarrow> (string, unit_obs) gomap" where
  "unitMap s = fold (\<lambda>u. mput (target_protocol_key (u_target u) (u_protocol u)) u) (sn_units s) []"

definition portMap :: "port_state list \<Rightarrow> (int, port_state) gomap" where
  "portMap ps = fold (\<lambda>p. mput (ps_port p) p) ps []"

definition port_scope_item :: "unit_obs \<Rightarrow> port_state \<Rightarrow> item" where
  "port_scope_item u p = \<lparr>it_kind = ''port'', it_target = u_target u, it_protocol = u_protocol u,
     it_port = ps_port p, it_value = [], it_severity = []\<rparr>"

text \<open>The comparison of one port on one address: nothing, or its key with the change if any.\<close>

definition compareAddress ::
  "pairs \<Rightarrow> unit_obs \<Rightarrow> port_state \<Rightarrow> port_state \<Rightarrow> string \<Rightarrow> (string \<times> change option) option" where
  "compareAddress down u oldPort port address =
     (let wasExposed = (address \<in> set (canonicalAddressSet (ps_evidence oldPort)));
          isExposed = (address \<in> set (canonicalAddressSet (ps_evidence port)));
          key = portAddressKey (u_target u) (u_protocol u) (ps_port port) address;
          change = empty_change\<lparr>c_key := key, c_kind := ''port-address'', c_target := u_target u,
            c_protocol := u_protocol u, c_port := ps_port port, c_address := address\<rparr>
      in if \<not> isExposed \<and> explicitlyDownForProtocol down (u_protocol u) address then None
         else if wasExposed = isExposed then Some (key, None)
         else if isExposed
         then Some (key, Some (change\<lparr>c_old := ''not-open'', c_new := ps_state port,
           c_severity := (if ps_state port = ''open|filtered'' then ''warning'' else ''critical'')\<rparr>))
         else Some (key, Some (change\<lparr>c_old := ps_state oldPort, c_new := ''not-open'', c_severity := ''info''\<rparr>)))"

text \<open>The addresses of a unit that both DNS answers hold.\<close>

definition sharedAddresses :: "snapshot \<Rightarrow> snapshot \<Rightarrow> string \<Rightarrow> string list" where
  "sharedAddresses old current target =
     sort (filter (\<lambda>a. a \<in> set (canonicalAddressSet (dns_of old target)) \<and> is_ip a)
       (canonicalAddressSet (dns_of current target)))"

definition comparePorts ::
  "snapshot \<Rightarrow> snapshot \<Rightarrow> bool \<Rightarrow> pairs \<Rightarrow> scope_lookups option \<Rightarrow> unit_obs \<Rightarrow> unit_obs \<Rightarrow>
   (string \<times> change option) list" where
  "comparePorts old current intersectionOnly down indexes oldUnit u =
     (let addresses = sharedAddresses old current (u_target u) in
      [r. port \<leftarrow> u_ports u,
          oldPort \<leftarrow> (case mget (portMap (u_ports oldUnit)) (ps_port port) of None \<Rightarrow> [] | Some p \<Rightarrow> [p]),
          isPositivePortState (ps_state oldPort) \<and> isPositivePortState (ps_state port) \<and>
            ps_evidence oldPort \<noteq> [] \<and> ps_evidence port \<noteq> [],
          \<not> (intersectionOnly \<and> \<not> inBothScopesWithScopeIndexes old current (port_scope_item u port) indexes),
          address \<leftarrow> addresses,
          r \<leftarrow> (case compareAddress down u oldPort port address of None \<Rightarrow> [] | Some r \<Rightarrow> [r])])"

definition compareUnits ::
  "snapshot \<Rightarrow> snapshot \<Rightarrow> bool \<Rightarrow> pairs \<Rightarrow> scope_lookups option \<Rightarrow> (string \<times> change option) list" where
  "compareUnits old current intersectionOnly down indexes =
     [r. u \<leftarrow> sn_units current, isDNSComparisonTarget (u_target u),
         oldUnit \<leftarrow> (case mget (unitMap old) (target_protocol_key (u_target u) (u_protocol u)) of None \<Rightarrow> [] | Some o' \<Rightarrow> [o']),
         r \<leftarrow> comparePorts old current intersectionOnly down indexes oldUnit u]"

definition comparePortAddressesWithScopeIndexes ::
  "snapshot \<Rightarrow> snapshot \<Rightarrow> bool \<Rightarrow> pairs \<Rightarrow> scope_lookups option \<Rightarrow> string list \<times> change list" where
  "comparePortAddressesWithScopeIndexes old current intersectionOnly down indexes =
     (let rs = compareUnits old current intersectionOnly down indexes
      in (map fst rs, List.map_filter snd rs))"

definition comparePortAddresses :: "snapshot \<Rightarrow> snapshot \<Rightarrow> bool \<Rightarrow> pairs \<Rightarrow> string list \<times> change list" where
  "comparePortAddresses old current intersectionOnly down =
     comparePortAddressesWithScopeIndexes old current intersectionOnly down
       (if intersectionOnly then Some (newScopeLookups old current) else None)"

section \<open>Host states\<close>

definition host_change :: "string \<Rightarrow> string \<Rightarrow> string \<Rightarrow> change" where
  "host_change address old new = empty_change\<lparr>c_key := hostKey address, c_kind := ''host'', c_target := address,
     c_old := old, c_new := new, c_severity := (if new = ''up'' then ''info'' else ''warning'')\<rparr>"

definition hostStateChanges :: "snapshot \<Rightarrow> snapshot \<Rightarrow> bool \<Rightarrow> change list" where
  "hostStateChanges old current intersectionOnly =
     (let oldStates = effectiveHostStates old; newStates = effectiveHostStates current
      in sort_key c_key
        [host_change a o' n. a \<leftarrow> remdups (mkeys oldStates @ mkeys newStates),
           o' \<leftarrow> (case mget oldStates a of None \<Rightarrow> [] | Some v \<Rightarrow> [v]),
           n \<leftarrow> (case mget newStates a of None \<Rightarrow> [] | Some v \<Rightarrow> [v]),
           o' \<noteq> n,
           \<not> (intersectionOnly \<and> (\<not> hostInScope old a \<or> \<not> hostInScope current a))])"

section \<open>Diff\<close>

text \<open>The change of one key, given the item of either snapshot.\<close>

definition item_change :: "string \<Rightarrow> item option \<Rightarrow> item option \<Rightarrow> change" where
  "item_change key x y =
     (let probe = (case y of Some v \<Rightarrow> v | None \<Rightarrow> the x);
          c = empty_change\<lparr>c_key := key, c_kind := it_kind probe, c_severity := it_severity probe,
            c_target := it_target probe, c_protocol := it_protocol probe, c_port := it_port probe\<rparr>
      in if it_kind probe = ''dns''
         then (case x of
             None \<Rightarrow> c\<lparr>c_kind := ''dns-added'', c_new := it_value probe\<rparr>
           | Some v \<Rightarrow> c\<lparr>c_kind := ''dns-removed'', c_old := it_value v\<rparr>)
         else (let new = (case y of Some v \<Rightarrow> it_value v | None \<Rightarrow> ''not-open'')
               in c\<lparr>c_old := (case x of Some v \<Rightarrow> it_value v | None \<Rightarrow> ''not-open''), c_new := new,
                    c_severity := (if new = ''not-open'' then ''info'' else it_severity probe)\<rparr>))"

definition positivePortKeys :: "snapshot \<Rightarrow> string list" where
  "positivePortKeys s = [portChangeKey (u_target u) (u_protocol u) (ps_port p).
     u \<leftarrow> sn_units s, p \<leftarrow> u_ports u, isPositivePortState (ps_state p)]"

text \<open>One turn of the loop over the keys of both item maps.\<close>

definition diff_reports ::
  "snapshot \<Rightarrow> snapshot \<Rightarrow> bool \<Rightarrow> pairs \<Rightarrow> scope_lookups option \<Rightarrow> item option \<Rightarrow> item option \<Rightarrow> bool" where
  "diff_reports old new intersectionOnly down indexes x y =
     (let probe = (case y of Some v \<Rightarrow> v | None \<Rightarrow> the x) in
      \<not> (intersectionOnly \<and> \<not> inBothScopesWithScopeIndexes old new probe indexes) \<and>
      \<not> (it_kind probe = ''service'' \<and>
          portChangeKey (it_target probe) (it_protocol probe) (it_port probe) \<notin> set (positivePortKeys new)) \<and>
      \<not> (x \<noteq> None \<and> y \<noteq> None \<and> it_value (the x) = it_value (the y)) \<and>
      \<not> (y = None \<and> x \<noteq> None \<and> (it_kind probe = ''port'' \<or> it_kind probe = ''service'') \<and>
          missingPositivePortExplainedByDown old probe down))"

definition itemChanges :: "snapshot \<Rightarrow> snapshot \<Rightarrow> bool \<Rightarrow> pairs \<Rightarrow> scope_lookups option \<Rightarrow> change list" where
  "itemChanges old new intersectionOnly down indexes =
     (let a = items old; b = items new
      in [item_change key (mget a key) (mget b key). key \<leftarrow> remdups (mkeys a @ mkeys b),
            diff_reports old new intersectionOnly down indexes (mget a key) (mget b key)])"

definition diffWithDownAddressesAndScopes ::
  "snapshot \<Rightarrow> snapshot \<Rightarrow> bool \<Rightarrow> pairs \<Rightarrow> scope_lookups option \<Rightarrow> change list" where
  "diffWithDownAddressesAndScopes old new intersectionOnly down indexes =
     sort_key c_key
       (itemChanges old new intersectionOnly down indexes @
        snd (comparePortAddressesWithScopeIndexes old new intersectionOnly down indexes) @
        hostStateChanges old new intersectionOnly)"

definition scopeLookupsFor :: "snapshot \<Rightarrow> snapshot \<Rightarrow> bool \<Rightarrow> scope_lookups option" where
  "scopeLookupsFor old new intersectionOnly = (if intersectionOnly then Some (newScopeLookups old new) else None)"

definition diffWithDownAddresses :: "snapshot \<Rightarrow> snapshot \<Rightarrow> bool \<Rightarrow> pairs \<Rightarrow> change list" where
  "diffWithDownAddresses old new intersectionOnly down =
     diffWithDownAddressesAndScopes old new intersectionOnly down (scopeLookupsFor old new intersectionOnly)"

definition Diff :: "snapshot \<Rightarrow> snapshot \<Rightarrow> bool \<Rightarrow> change list" where
  "Diff old new intersectionOnly = diffWithDownAddresses old new intersectionOnly (completedDownAddressesByProtocol new)"

text \<open>Aggregate mode drops changes that only concern which addresses a name has.\<close>

definition filterDNSAggregateChanges :: "snapshot \<Rightarrow> snapshot \<Rightarrow> change list \<Rightarrow> job \<Rightarrow> change list" where
  "filterDNSAggregateChanges old current changes job =
     (if \<not> aggregates job \<or> changes = [] then changes
      else let dnsTargets = dnsTargetsInSnapshot old @ dnsTargetsInSnapshot current;
               dnsAddresses = dnsAddressesInSnapshot old @ dnsAddressesInSnapshot current
        in filter (\<lambda>c.
          if c_kind c = ''dns-added'' \<or> c_kind c = ''dns-removed'' then c_target c \<notin> set dnsTargets
          else if c_kind c = ''port-address'' then False
          else if c_kind c = ''host''
          then \<not> (dnsOnlyAddressInSnapshot (c_target c) dnsAddresses old \<and>
                   \<not> snapshotHasNonDNSAddressScope current (c_target c))
          else True) changes)"

definition diffForJobWithScopeLookups ::
  "snapshot \<Rightarrow> snapshot \<Rightarrow> bool \<Rightarrow> job \<Rightarrow> scope_lookups option \<Rightarrow> change list" where
  "diffForJobWithScopeLookups old current intersectionOnly job indexes =
     filterDNSAggregateChanges old current
       (diffWithDownAddressesAndScopes old current intersectionOnly
          (completedDownAddressesByProtocolForJob old current job) indexes) job"

definition diffForJob :: "snapshot \<Rightarrow> snapshot \<Rightarrow> bool \<Rightarrow> job \<Rightarrow> change list" where
  "diffForJob old current intersectionOnly job =
     diffForJobWithScopeLookups old current intersectionOnly job (scopeLookupsFor old current intersectionOnly)"

end
