(* ===== verification/DiffFacts.thy ===== *)
theory DiffFacts
  imports Diff Findings "HOL-Library.Sublist"
begin

text \<open>
  What \<open>Diff\<close> guarantees: the scope index agrees with the scan over the scopes, a snapshot
  has no changes against itself, every finding has one change and the changes are ordered by
  key, and the port changes are exactly the differences that the scopes and the completed
  host discovery allow to report.
\<close>

section \<open>The scope index\<close>

definition index_scopes :: "scope_index \<Rightarrow> string \<times> string \<Rightarrow> scope list" where
  "index_scopes index key = (case mget index key of None \<Rightarrow> [] | Some g \<Rightarrow> sg_first g # sg_rest g)"

lemma index_scopes_step:
  "index_scopes (scope_index_step c index) key =
   index_scopes index key @ (if (sc_target c, sc_protocol c) = key then [c] else [])"
  by (auto simp: index_scopes_def scope_index_step_def Let_def split: option.splits)

lemma index_scopes_fold:
  "index_scopes (fold scope_index_step cs index) key =
   index_scopes index key @ filter (\<lambda>c. (sc_target c, sc_protocol c) = key) cs"
  by (induction cs arbitrary: index) (auto simp: index_scopes_step)

lemma allows_index:
  "allows index target protocol port service =
   (\<exists>c \<in> set (index_scopes index (target, protocol)). PortContains (sc_ports c) port \<and> (\<not> service \<or> sc_service_detection c))"
  by (auto simp: allows_def index_scopes_def split: option.splits)

lemma allows_scopeAllows:
  "allows (newScopeIndex s) target protocol port service = scopeAllows s target protocol port service"
  by (auto simp: allows_index newScopeIndex_def index_scopes_fold index_scopes_def [of "[]"] scopeAllows_def)

lemma inBothScopes_index:
  "inBothScopesWithScopeIndexes a b v (scopeLookupsFor a b ix) = inBothScopes a b v"
  by (auto simp: inBothScopesWithScopeIndexes_def scopeLookupsFor_def newScopeLookups_def inBothScopes_def
      allows_scopeAllows)

text \<open>
  The index that comparisons of large scopes use answers like the scan over the scopes,
  for overlapping and repeated scopes too, so a comparison with it reports the same changes.
\<close>

theorem scope_index_equivalent:
  "allows (newScopeIndex s) target protocol port service = scopeAllows s target protocol port service \<and>
   diffWithDownAddressesAndScopes old new b down (Some (newScopeLookups old new)) =
   diffWithDownAddressesAndScopes old new b down None"
proof -
  define lk where "lk = newScopeLookups old new"
  have eq: "inBothScopesWithScopeIndexes old new v (Some lk) = inBothScopesWithScopeIndexes old new v None" for v
    using inBothScopes_index [of old new v True] inBothScopes_index [of old new v False]
    by (simp add: scopeLookupsFor_def lk_def)
  have r: "diff_reports old new b down (Some lk) = diff_reports old new b down None"
    by (intro ext) (simp add: diff_reports_def eq)
  have i: "itemChanges old new b down (Some lk) = itemChanges old new b down None"
    unfolding itemChanges_def r ..
  have p: "comparePorts old new b down (Some lk) = comparePorts old new b down None"
    by (intro ext) (simp only: comparePorts_def eq)
  have u: "compareUnits old new b down (Some lk) = compareUnits old new b down None"
    unfolding compareUnits_def p ..
  show ?thesis
    unfolding allows_scopeAllows diffWithDownAddressesAndScopes_def comparePortAddressesWithScopeIndexes_def
      lk_def [symmetric] i u by simp
qed

section \<open>Injective keys\<close>

lemma append_sep_right:
  assumes "a @ sep # b = a' @ sep # b'" "sep \<notin> set b" "sep \<notin> set b'"
  shows "a = a' \<and> b = b'"
proof -
  have "rev b @ sep # rev a = rev b' @ sep # rev a'" using arg_cong [OF assms(1), of rev] by simp
  moreover have "takeWhile (\<lambda>c. c \<noteq> sep) (rev xs @ sep # ys) = rev xs" if "sep \<notin> set xs" for xs ys
    using that by (subst takeWhile_append2) auto
  ultimately have "rev b = rev b'" using assms(2,3) by metis
  then have "b = b'" by simp
  then show ?thesis using assms(1) by simp
qed

lemma itoa_no_bar' [simp]: "bar \<notin> set (itoa i)"
  using itoa_no_bar by (simp add: bar_def)

lemma port_key_inj:
  assumes "t @ bar # p @ bar # itoa n = t' @ bar # p' @ bar # itoa n'" "bar \<notin> set p" "bar \<notin> set p'"
  shows "t = t' \<and> p = p' \<and> n = n'"
proof -
  have "(t @ bar # p) @ bar # itoa n = (t' @ bar # p') @ bar # itoa n'" using assms(1) by simp
  from append_sep_right [OF this] have 1: "t @ bar # p = t' @ bar # p'" "itoa n = itoa n'" by simp_all
  from append_sep_right [OF 1(1)] show ?thesis using assms itoa_inj [OF 1(2)] by simp
qed

lemma key_kinds [simp]:
  "portChangeKey t p n \<noteq> fingerprintKey t' p' n'" "fingerprintKey t' p' n' \<noteq> portChangeKey t p n"
  "portChangeKey t p n \<noteq> dnsKey d a" "dnsKey d a \<noteq> portChangeKey t p n"
  "fingerprintKey t p n \<noteq> dnsKey d a" "dnsKey d a \<noteq> fingerprintKey t p n"
  "portChangeKey t p n \<noteq> portAddressKey t' p' n' a" "portAddressKey t' p' n' a \<noteq> portChangeKey t p n"
  "fingerprintKey t p n \<noteq> portAddressKey t' p' n' a" "portAddressKey t' p' n' a \<noteq> fingerprintKey t p n"
  "dnsKey d x \<noteq> portAddressKey t' p' n' a" "portAddressKey t' p' n' a \<noteq> dnsKey d x"
  "hostKey a \<noteq> portChangeKey t p n" "portChangeKey t p n \<noteq> hostKey a"
  "hostKey a \<noteq> fingerprintKey t p n" "fingerprintKey t p n \<noteq> hostKey a"
  "hostKey a \<noteq> dnsKey d x" "dnsKey d x \<noteq> hostKey a"
  "hostKey a \<noteq> portAddressKey t' p' n' x" "portAddressKey t' p' n' x \<noteq> hostKey a"
  by (simp_all add: portChangeKey_def fingerprintKey_def dnsKey_def portAddressKey_def hostKey_def)

lemma portChangeKey_inj:
  "bar \<notin> set p \<Longrightarrow> bar \<notin> set p' \<Longrightarrow> portChangeKey t p n = portChangeKey t' p' n' \<longleftrightarrow> t = t' \<and> p = p' \<and> n = n'"
  using port_key_inj [of t p n t' p' n'] by (auto simp: portChangeKey_def)

lemma fingerprintKey_inj:
  "bar \<notin> set p \<Longrightarrow> bar \<notin> set p' \<Longrightarrow> fingerprintKey t p n = fingerprintKey t' p' n' \<longleftrightarrow> t = t' \<and> p = p' \<and> n = n'"
  using port_key_inj [of t p n t' p' n'] by (auto simp: fingerprintKey_def)

lemma dnsKey_inj: "bar \<notin> set a \<Longrightarrow> bar \<notin> set a' \<Longrightarrow> dnsKey t a = dnsKey t' a' \<longleftrightarrow> t = t' \<and> a = a'"
  using append_sep_right [of t bar a t' a'] by (auto simp: dnsKey_def)

lemma hostKey_inj [simp]: "hostKey a = hostKey b \<longleftrightarrow> a = b"
  by (simp add: hostKey_def)

lemma portAddressKey_inj:
  assumes "bar \<notin> set p" "bar \<notin> set p'" "bar \<notin> set a" "bar \<notin> set a'"
  shows "portAddressKey t p n a = portAddressKey t' p' n' a' \<longleftrightarrow> t = t' \<and> p = p' \<and> n = n' \<and> a = a'"
proof
  assume "portAddressKey t p n a = portAddressKey t' p' n' a'"
  then have "(t @ bar # p @ bar # itoa n) @ bar # a = (t' @ bar # p' @ bar # itoa n') @ bar # a'"
    by (simp add: portAddressKey_def)
  from append_sep_right [OF this assms(3,4)] have "t @ bar # p @ bar # itoa n = t' @ bar # p' @ bar # itoa n'" "a = a'" by simp_all
  then show "t = t' \<and> p = p' \<and> n = n' \<and> a = a'" using port_key_inj assms(1,2) by blast
qed simp

section \<open>Well-formed snapshots\<close>

text \<open>
  What the scanner and \<open>Normalize\<close> give: one unit for a target and protocol, one entry for a
  port of a unit, distinct DNS answers, and protocols and addresses without separators.
\<close>

definition wf_snapshot :: "snapshot \<Rightarrow> bool" where
  "wf_snapshot s =
     (distinct (map (\<lambda>u. (u_target u, u_protocol u)) (sn_units s)) \<and>
      (\<forall>u \<in> set (sn_units s). distinct (map ps_port (u_ports u)) \<and> bar \<notin> set (u_protocol u) \<and> nul \<notin> set (u_protocol u)) \<and>
      wf_map (sn_dns s) \<and> (\<forall>(t, as) \<in> set (sn_dns s). distinct as \<and> (\<forall>a \<in> set as. bar \<notin> set a)))"

lemma mget_append: "mget (xs @ ys) k = (case mget xs k of Some v \<Rightarrow> Some v | None \<Rightarrow> mget ys k)"
  by (simp add: mget_def map_add_def split: option.splits)

lemma fold_mput_mget:
  "mget (fold (\<lambda>(k, v). mput k v) ws m) k = (case mget (rev ws) k of Some v \<Rightarrow> Some v | None \<Rightarrow> mget m k)"
proof (induction ws arbitrary: m)
  case (Cons e ws)
  obtain a v where e: "e = (a, v)" by (cases e)
  then show ?case by (auto simp: Cons.IH mget_append split: option.splits)
qed simp

lemma fold_mput_distinct:
  assumes "distinct (map fst ws)"
  shows "mget (fold (\<lambda>(k, v). mput k v) ws []) k = mget ws k"
proof -
  have "mget (rev ws) k = mget ws k"
  proof (rule mget_perm)
    show "wf_map (rev ws)" by (metis assms distinct_rev rev_map)
  qed simp
  then show ?thesis by (simp add: fold_mput_mget split: option.splits)
qed

lemma mkeys_iff: "k \<in> set (mkeys m) \<longleftrightarrow> (\<exists>v. mget m k = Some v)"
  unfolding mhas_mem [symmetric] mhas_def by auto

lemma set_case_option [simp]: "set (case m of None \<Rightarrow> [] | Some v \<Rightarrow> [v]) = set_option m"
  by (cases m) auto

lemma wf_fold_mput: "wf_map m \<Longrightarrow> wf_map (fold (\<lambda>(k, v). mput k v) ws m)"
  by (induction ws arbitrary: m) auto

lemma mkeys_fold_mput: "set (mkeys (fold (\<lambda>(k, v). mput k v) ws m)) = set (mkeys m) \<union> fst ` set ws"
proof (induction ws arbitrary: m)
  case (Cons e ws)
  obtain a v where e: "e = (a, v)" by (cases e)
  have "set (mkeys (mput a v m)) = insert a (set (mkeys m))"
  proof -
    have "k \<in> set (mkeys (mput a v m)) \<longleftrightarrow> k \<in> insert a (set (mkeys m))" for k
      by (auto simp: mkeys_iff)
    then show ?thesis by blast
  qed
  then show ?case by (simp add: Cons.IH e)
qed simp

section \<open>No change against itself\<close>

lemma unitMap_self:
  assumes "wf_snapshot s" "u \<in> set (sn_units s)"
  shows "mget (unitMap s) (target_protocol_key (u_target u) (u_protocol u)) = Some u"
proof -
  let ?k = "\<lambda>u. target_protocol_key (u_target u) (u_protocol u)"
  have f: "unitMap s = fold (\<lambda>(k, v). mput k v) (map (\<lambda>u. (?k u, u)) (sn_units s)) []"
    by (simp add: unitMap_def fold_map comp_def)
  have "inj_on (\<lambda>u. (u_target u, u_protocol u)) (set (sn_units s))"
    using assms(1) by (auto simp: wf_snapshot_def distinct_map)
  moreover have "u_target u = u_target v \<and> u_protocol u = u_protocol v"
    if "?k u = ?k v" "u \<in> set (sn_units s)" "v \<in> set (sn_units s)" for u v
    using append_sep_right [of "u_target u" nul "u_protocol u" "u_target v" "u_protocol v"] that assms(1)
    by (auto simp: target_protocol_key_def nul_def wf_snapshot_def)
  ultimately have "inj_on ?k (set (sn_units s))" unfolding inj_on_def by blast
  then have "distinct (map fst (map (\<lambda>u. (?k u, u)) (sn_units s)))"
    using assms(1) by (auto simp: wf_snapshot_def distinct_map comp_def)
  then show ?thesis
    unfolding f using assms(2) by (subst fold_mput_distinct) (auto simp: mget_eq_Some_mem simp del: map_map)
qed

lemma portMap_mget:
  assumes "distinct (map ps_port ps)"
  shows "mget (portMap ps) n = Some p \<longleftrightarrow> p \<in> set ps \<and> ps_port p = n"
proof -
  have f: "portMap ps = fold (\<lambda>(k, v). mput k v) (map (\<lambda>p. (ps_port p, p)) ps) []"
    by (simp add: portMap_def fold_map comp_def)
  have d: "distinct (map fst (map (\<lambda>p. (ps_port p, p)) ps))" using assms by (simp add: comp_def)
  show ?thesis
    unfolding f fold_mput_distinct [OF d] mget_eq_Some_mem [OF d] by auto
qed

lemma itemChanges_self: "itemChanges s s b down ix = []"
proof -
  have "\<not> diff_reports s s b down ix x x" if "x \<noteq> None" for x using that by (auto simp: diff_reports_def Let_def)
  moreover have "mget (items s) k \<noteq> None" if "k \<in> set (mkeys (items s))" for k
    using that by (simp add: mkeys_iff)
  ultimately show ?thesis by (auto simp: itemChanges_def Let_def)
qed

lemma sort_key_Nil_iff [simp]: "sort_key f xs = [] \<longleftrightarrow> xs = []"
  by (metis set_sort set_empty)

lemma hostStateChanges_self: "hostStateChanges s s b = []"
  by (auto simp: hostStateChanges_def Let_def concat_eq_Nil_conv split: option.splits)

lemma compareAddress_self: "compareAddress down u p p a = Some (k, c) \<Longrightarrow> c = None"
  by (auto simp: compareAddress_def Let_def split: if_splits)

lemma compareUnits_self:
  assumes "wf_snapshot s" "(k, c) \<in> set (compareUnits s s b down ix)"
  shows "c = None"
proof -
  obtain u oldUnit where u: "u \<in> set (sn_units s)" "(k, c) \<in> set (comparePorts s s b down ix oldUnit u)"
    and "mget (unitMap s) (target_protocol_key (u_target u) (u_protocol u)) = Some oldUnit"
    using assms(2) by (auto simp: compareUnits_def split: if_splits)
  then have ou: "oldUnit = u" using unitMap_self [OF assms(1) u(1)] by simp
  have d: "distinct (map ps_port (u_ports u))" using assms(1) u(1) by (auto simp: wf_snapshot_def)
  obtain port oldPort a where p: "port \<in> set (u_ports u)" "mget (portMap (u_ports u)) (ps_port port) = Some oldPort"
      "compareAddress down u oldPort port a = Some (k, c)"
    using u(2) by (auto simp: comparePorts_def ou Let_def split: if_splits)
  then have "oldPort = port" using portMap_mget [OF d] inj_onD [of ps_port "set (u_ports u)"] d
    by (auto simp: distinct_map)
  then show ?thesis using compareAddress_self p(3) by blast
qed

lemma map_filter_None: "(\<And>x. x \<in> set xs \<Longrightarrow> f x = None) \<Longrightarrow> List.map_filter f xs = []"
  by (induction xs) (auto simp: List.map_filter_def)

lemma diff_self:
  assumes "wf_snapshot s"
  shows "diffWithDownAddressesAndScopes s s b down ix = []"
proof -
  have "List.map_filter snd (compareUnits s s b down ix) = []"
    by (rule map_filter_None) (use compareUnits_self [OF assms] in fastforce)
  then show ?thesis
    by (simp add: diffWithDownAddressesAndScopes_def itemChanges_self hostStateChanges_self
        comparePortAddressesWithScopeIndexes_def Let_def)
qed

text \<open>
  A scan that observes the baseline again reports nothing, in both DNS modes, with and
  without a changed scope, whatever the host discovery found.
\<close>

theorem no_change_against_itself:
  assumes "wf_snapshot s"
  shows "Diff s s b = [] \<and> diffForJob s s b job = []"
  using diff_self [OF assms]
  by (simp add: Diff_def diffWithDownAddresses_def diffForJob_def diffForJobWithScopeLookups_def
      filterDNSAggregateChanges_def)

definition example_snapshot :: snapshot where
  "example_snapshot = empty_snapshot\<lparr>
     sn_units := [\<lparr>u_target = ''a.example'', u_protocol = ''tcp'', u_addresses = [],
       u_ports = [\<lparr>ps_port = 80, ps_state = ''open'', ps_service = ''http'', ps_evidence = [''192.0.2.1'']\<rparr>]\<rparr>],
     sn_scopes := [\<lparr>sc_target = ''a.example'', sc_protocol = ''tcp'', sc_ports = ''80'', sc_service_detection = True\<rparr>],
     sn_dns := [(''a.example'', [''192.0.2.1''])]\<rparr>"

lemma wf_example_snapshot: "wf_snapshot example_snapshot"
  by code_simp

theorem no_change_against_itself_witness: "Diff example_snapshot example_snapshot True = []"
  using no_change_against_itself [OF wf_example_snapshot] by blast

section \<open>One change for a finding\<close>

lemma distinct_concat_map:
  assumes "distinct xs" "\<And>x. x \<in> set xs \<Longrightarrow> distinct (f x)"
    and "\<And>x y. x \<in> set xs \<Longrightarrow> y \<in> set xs \<Longrightarrow> x \<noteq> y \<Longrightarrow> set (f x) \<inter> set (f y) = {}"
  shows "distinct (concat (map f xs))"
  using assms
proof (induction xs)
  case (Cons x xs)
  have "set (f x) \<inter> set (f y) = {}" if "y \<in> set xs" for y
    using Cons.prems(1) Cons.prems(3) [of x y] that by auto
  then have "set (f x) \<inter> set (concat (map f xs)) = {}" by auto
  then show ?case using Cons by simp
qed simp

text \<open>Canonical IP addresses hold no separator.\<close>

lemma set_joinWith_no: "c \<notin> set sep \<Longrightarrow> \<forall>p \<in> set ps. c \<notin> set p \<Longrightarrow> c \<notin> set (joinWith sep ps)"
  using set_joinWith [of c sep ps] by blast

lemma hex_no_bar: "0 \<le> d \<Longrightarrow> d < 16 \<Longrightarrow> hex_digit d \<noteq> bar"
proof -
  assume "0 \<le> d" "d < 16"
  then have "nat d < length ''0123456789abcdef''" by simp
  then have "hex_digit d \<in> set ''0123456789abcdef''" unfolding hex_digit_def by (rule nth_mem)
  then show ?thesis by (auto simp: bar_def)
qed

lemma to_hex_no_bar: "0 \<le> n \<Longrightarrow> bar \<notin> set (to_hex n)"
proof (induction n rule: to_hex.induct)
  case (1 n)
  show ?case
  proof (cases "n < 16")
    case True
    then show ?thesis using "1.prems" hex_no_bar [of n] by (subst to_hex.simps) auto
  next
    case False
    then have "bar \<notin> set (to_hex (n div 16))" using 1 by simp
    moreover have "hex_digit (n mod 16) \<noteq> bar" by (rule hex_no_bar) simp_all
    ultimately show ?thesis using False by (subst to_hex.simps) auto
  qed
qed

lemma hex_groups_no_bar: "\<forall>g \<in> set gs. 0 \<le> g \<Longrightarrow> bar \<notin> set (hex_groups gs)"
  unfolding hex_groups_def by (rule set_joinWith_no) (auto simp: bar_def dest: to_hex_no_bar [unfolded bar_def])

lemma ipString_no_bar: "bar \<notin> set (ipString w)"
proof -
  have g: "\<forall>g \<in> set (groups_of n). 0 \<le> g" for n by (auto simp: groups_of_def)
  then have t: "bar \<notin> set (hex_groups (take k (groups_of n)))" "bar \<notin> set (hex_groups (drop k (groups_of n)))" for k n
    by (auto intro!: hex_groups_no_bar dest: in_set_takeD in_set_dropD)
  have "bar \<notin> set (ip6_string n)" for n
    using t [of _ n] hex_groups_no_bar [OF g [of n]] by (auto simp: ip6_string_def Let_def bar_def split: prod.split)
  moreover have "bar \<notin> set (dotted n)" for n
    unfolding dotted_def by (rule set_joinWith_no) (auto simp: bar_def itoa_no_bar)
  ultimately show ?thesis by (simp add: ipString_def)
qed

lemma sharedAddresses_ok:
  "distinct (sharedAddresses old current t)" "a \<in> set (sharedAddresses old current t) \<Longrightarrow> bar \<notin> set a"
proof -
  show "distinct (sharedAddresses old current t)" by (simp add: sharedAddresses_def canonicalAddressSet_def)
  assume "a \<in> set (sharedAddresses old current t)"
  then obtain b where "a = canonicalAddress b" "is_ip a" by (auto simp: sharedAddresses_def canonicalAddressSet_def)
  then show "bar \<notin> set a" using ipString_no_bar by (auto simp: canonicalAddress_def split: option.splits)
qed

lemma compareAddress_key:
  "compareAddress down u oldPort port a = Some (k, c) \<Longrightarrow> k = portAddressKey (u_target u) (u_protocol u) (ps_port port) a \<and>
     (\<forall>ch. c = Some ch \<longrightarrow> c_key ch = k \<and> c_kind ch = ''port-address'')"
  by (auto simp: compareAddress_def Let_def split: if_splits)

definition address_keys :: "snapshot \<Rightarrow> snapshot \<Rightarrow> unit_obs \<Rightarrow> string list" where
  "address_keys old current u = [portAddressKey (u_target u) (u_protocol u) (ps_port p) a.
     p \<leftarrow> u_ports u, a \<leftarrow> sharedAddresses old current (u_target u)]"

lemma address_keys_distinct:
  assumes "wf_snapshot current"
  shows "distinct [k. u \<leftarrow> sn_units current, k \<leftarrow> address_keys old current u]"
proof -
  have p: "bar \<notin> set (u_protocol u)" "distinct (map ps_port (u_ports u))" if "u \<in> set (sn_units current)" for u
    using assms that by (auto simp: wf_snapshot_def)
  have k: "portAddressKey (u_target u) (u_protocol u) n a = portAddressKey (u_target v) (u_protocol v) m b \<longleftrightarrow>
      u_target u = u_target v \<and> u_protocol u = u_protocol v \<and> n = m \<and> a = b"
    if "u \<in> set (sn_units current)" "v \<in> set (sn_units current)"
      "a \<in> set (sharedAddresses old current (u_target u))" "b \<in> set (sharedAddresses old current (u_target v))" for u v n m a b
    using that p sharedAddresses_ok(2) by (intro portAddressKey_inj) blast+
  have du: "distinct (address_keys old current u)" if u: "u \<in> set (sn_units current)" for u
    unfolding address_keys_def
  proof (rule distinct_concat_map)
    show "distinct (u_ports u)" using p(2) [OF u] by (simp add: distinct_map)
    show "distinct (map (portAddressKey (u_target u) (u_protocol u) (ps_port x)) (sharedAddresses old current (u_target u)))" for x
      using k [OF u u] sharedAddresses_ok(1) by (auto simp: distinct_map inj_on_def)
    show "set (map (portAddressKey (u_target u) (u_protocol u) (ps_port x)) (sharedAddresses old current (u_target u))) \<inter>
        set (map (portAddressKey (u_target u) (u_protocol u) (ps_port y)) (sharedAddresses old current (u_target u))) = {}"
      if "x \<in> set (u_ports u)" "y \<in> set (u_ports u)" "x \<noteq> y" for x y
    proof -
      have "ps_port x \<noteq> ps_port y" using p(2) [OF u] that by (auto simp: distinct_map inj_on_def)
      then show ?thesis using k [OF u u] by auto
    qed
  qed
  have "distinct (concat (map (address_keys old current) (sn_units current)))"
  proof (rule distinct_concat_map [OF _ du])
    show "distinct (sn_units current)" using assms by (simp add: wf_snapshot_def distinct_map)
    show "set (address_keys old current u) \<inter> set (address_keys old current v) = {}"
      if "u \<in> set (sn_units current)" "v \<in> set (sn_units current)" "u \<noteq> v" for u v
    proof -
      have "(u_target u, u_protocol u) \<noteq> (u_target v, u_protocol v)"
        using assms that by (auto simp: wf_snapshot_def distinct_map inj_on_def)
      then show ?thesis using k [OF that(1,2)] by (auto simp: address_keys_def)
    qed
  qed
  then show ?thesis by simp
qed

lemma subseq_concat_map:
  assumes "\<And>x. x \<in> set xs \<Longrightarrow> subseq (g x) (f x)"
  shows "subseq (concat (map g xs)) (concat (map f xs))"
  using assms by (induction xs) (auto intro: list_emb_append_mono)

lemma subseq_distinct: "subseq xs ys \<Longrightarrow> distinct ys \<Longrightarrow> distinct xs"
  by (induction rule: list_emb.induct) (auto dest: list_emb_set)

lemma comparePorts_subseq:
  "subseq (map fst (comparePorts old current b down ix oldUnit u)) (address_keys old current u)"
  unfolding comparePorts_def address_keys_def Let_def map_concat map_map
proof (rule subseq_concat_map)
  fix port assume "port \<in> set (u_ports u)"
  let ?key = "portAddressKey (u_target u) (u_protocol u) (ps_port port)"
  have piece: "subseq (map fst (concat (map (\<lambda>a. case compareAddress down u oldPort port a of None \<Rightarrow> [] | Some r \<Rightarrow> [r]) as)))
      (map ?key as)" for oldPort as
  proof (induction as)
    case (Cons a as)
    then show ?case using compareAddress_key [of down u oldPort port a]
      by (cases "compareAddress down u oldPort port a") auto
  qed simp
  then show "subseq ((map fst \<circ> (\<lambda>port. concat (map (\<lambda>oldPort.
        if isPositivePortState (ps_state oldPort) \<and> isPositivePortState (ps_state port) \<and>
           ps_evidence oldPort \<noteq> [] \<and> ps_evidence port \<noteq> []
        then if \<not> (b \<and> \<not> inBothScopesWithScopeIndexes old current (port_scope_item u port) ix)
             then concat (map (\<lambda>address. map (\<lambda>r. r) (case compareAddress down u oldPort port address of None \<Rightarrow> [] | Some r \<Rightarrow> [r]))
               (sharedAddresses old current (u_target u)))
             else [] else [])
        (case mget (portMap (u_ports oldUnit)) (ps_port port) of None \<Rightarrow> [] | Some p \<Rightarrow> [p])))) port)
      (map ?key (sharedAddresses old current (u_target u)))"
    by (auto split: option.split)
qed

lemma compareUnits_distinct:
  assumes "wf_snapshot current"
  shows "distinct (map fst (compareUnits old current b down ix))"
proof (rule subseq_distinct [OF _ address_keys_distinct [OF assms, of old]])
  have "subseq (map fst (concat (map (\<lambda>oldUnit. map (\<lambda>r. r) (comparePorts old current b down ix oldUnit u))
      (case m of None \<Rightarrow> [] | Some o' \<Rightarrow> [o'])))) (address_keys old current u)" for u m
    using comparePorts_subseq by (cases m) auto
  then have "subseq (map fst (if isDNSComparisonTarget (u_target u)
      then concat (map (\<lambda>oldUnit. map (\<lambda>r. r) (comparePorts old current b down ix oldUnit u))
        (case mget (unitMap old) (target_protocol_key (u_target u) (u_protocol u)) of None \<Rightarrow> [] | Some o' \<Rightarrow> [o'])) else []))
      (map (\<lambda>k. k) (address_keys old current u))" for u by simp
  then show "subseq (map fst (compareUnits old current b down ix)) [k. u \<leftarrow> sn_units current, k \<leftarrow> address_keys old current u]"
    unfolding compareUnits_def map_concat map_map by (intro subseq_concat_map) (simp add: comp_def)
qed

lemma map_filter_snd [simp]:
  "List.map_filter snd [] = []" "List.map_filter snd ((k, None) # rs) = List.map_filter snd rs"
  "List.map_filter snd ((k, Some c) # rs) = c # List.map_filter snd rs"
  by (simp_all add: List.map_filter_def)

lemma map_filter_snd_keys:
  assumes "distinct (map fst rs)" "\<forall>(k, c) \<in> set rs. \<forall>ch. c = Some ch \<longrightarrow> c_key ch = k"
  shows "distinct (map c_key (List.map_filter snd rs)) \<and> set (map c_key (List.map_filter snd rs)) \<subseteq> fst ` set rs"
  using assms
proof (induction rs)
  case (Cons r rs)
  obtain k c where r: "r = (k, c)" by (cases r)
  have IH: "distinct (map c_key (List.map_filter snd rs))" "set (map c_key (List.map_filter snd rs)) \<subseteq> fst ` set rs"
    using Cons by auto
  show ?case
  proof (cases c)
    case None
    then show ?thesis using IH by (auto simp: r)
  next
    case (Some ch)
    then have "c_key ch = k" "k \<notin> fst ` set rs" using Cons.prems by (auto simp: r)
    then show ?thesis using IH Some by (auto simp: r)
  qed
qed simp

lemma compareUnits_mem:
  assumes "(k, c) \<in> set (compareUnits old current b down ix)"
  shows "\<exists>u port oldPort a. u \<in> set (sn_units current) \<and> port \<in> set (u_ports u) \<and>
    compareAddress down u oldPort port a = Some (k, c)"
proof -
  obtain u oldUnit where u: "u \<in> set (sn_units current)" "(k, c) \<in> set (comparePorts old current b down ix oldUnit u)"
    using assms by (auto simp: compareUnits_def split: if_splits)
  then show ?thesis by (auto simp: comparePorts_def Let_def split: if_splits)
qed

lemma address_changes:
  assumes "wf_snapshot current"
    and cs_def: "cs = snd (comparePortAddressesWithScopeIndexes old current b down ix)"
  shows "distinct (map c_key cs)" "c \<in> set cs \<Longrightarrow> c_kind c = ''port-address'' \<and> (\<exists>t p n a. c_key c = portAddressKey t p n a)"
proof -
  have k: "c_key ch = k \<and> c_kind ch = ''port-address'' \<and> (\<exists>t p n a. k = portAddressKey t p n a)"
    if "(k, Some ch) \<in> set (compareUnits old current b down ix)" for k ch
    using compareUnits_mem [OF that] compareAddress_key by (metis (no_types))
  then show "distinct (map c_key cs)"
    using map_filter_snd_keys [OF compareUnits_distinct [OF assms(1)]]
    by (fastforce simp: cs_def comparePortAddressesWithScopeIndexes_def Let_def)
  show "c \<in> set cs \<Longrightarrow> c_kind c = ''port-address'' \<and> (\<exists>t p n a. c_key c = portAddressKey t p n a)"
    using k by (fastforce simp: cs_def comparePortAddressesWithScopeIndexes_def Let_def List.map_filter_def)
qed

lemma items_Some: "mget (items s) k = Some v \<Longrightarrow> (k, v) \<in> set (item_writes s)"
  by (auto simp: items_def fold_mput_mget split: option.splits dest: mget_SomeD)

lemma items_None: "mget (items s) k = None \<longleftrightarrow> k \<notin> fst ` set (item_writes s)"
proof -
  have "mget (items s) k = None \<longleftrightarrow> mget (rev (item_writes s)) k = None"
    by (auto simp: items_def fold_mput_mget split: option.splits)
  then show ?thesis by (simp add: mget_eq_None)
qed

lemma items_mkeys: "set (mkeys (items s)) = fst ` set (item_writes s)"
proof -
  have "k \<in> set (mkeys (items s)) \<longleftrightarrow> \<not> (mget (items s) k = None)" for k by (simp add: mkeys_iff)
  then show ?thesis using items_None [of s] by blast
qed

lemma item_writes_mem:
  "(k, v) \<in> set (item_writes s) \<longleftrightarrow>
     (\<exists>u \<in> set (sn_units s). \<exists>q \<in> set (u_ports u). (k, v) = port_item u q \<or> (ps_service q \<noteq> [] \<and> (k, v) = service_item u q)) \<or>
     (\<exists>(t, as) \<in> set (sn_dns s). \<exists>a \<in> set as. (k, v) = dns_item t a)"
  unfolding item_writes_def by (auto 0 3)

lemma item_writes_key:
  assumes "(k, v) \<in> set (item_writes s)"
  shows "(\<exists>t p n. k = portChangeKey t p n) \<or> (\<exists>t p n. k = fingerprintKey t p n) \<or> (\<exists>t a. k = dnsKey t a)"
proof -
  from assms consider u q where "(k, v) = port_item u q" | u q where "(k, v) = service_item u q"
    | t a where "(k, v) = dns_item t a" unfolding item_writes_mem by blast
  then show ?thesis
  proof cases
    case 1
    then have "k = portChangeKey (u_target u) (u_protocol u) (ps_port q)" by (simp add: port_item_def)
    then show ?thesis by blast
  next
    case 2
    then have "k = fingerprintKey (u_target u) (u_protocol u) (ps_port q)" by (simp add: service_item_def)
    then show ?thesis by blast
  next
    case 3
    then have "k = dnsKey t a" by (simp add: dns_item_def)
    then show ?thesis by blast
  qed
qed

lemma itemChanges_keys:
  "map c_key (itemChanges old new b down ix) =
     filter (\<lambda>k. diff_reports old new b down ix (mget (items old) k) (mget (items new) k))
       (remdups (mkeys (items old) @ mkeys (items new)))"
proof -
  have "map c_key (concat (map (\<lambda>k. if P k then [item_change k (x k) (y k)] else []) ks)) = filter P ks" for P x y ks
    by (induction ks) (auto simp: item_change_def Let_def split: option.splits)
  then show ?thesis by (simp add: itemChanges_def Let_def)
qed

lemma distinct_sort_map: "distinct (map f xs) \<Longrightarrow> distinct (map f (sort_key g xs))"
  by (simp add: distinct_map distinct_sort)

lemma hostStateChanges_keys:
  "distinct (map c_key (hostStateChanges old current b))"
  "c \<in> set (hostStateChanges old current b) \<Longrightarrow> c_kind c = ''host'' \<and> (\<exists>a. c_key c = hostKey a)"
proof -
  let ?f = "\<lambda>a. concat (map (\<lambda>o'. concat (map (\<lambda>n. if o' \<noteq> n then if \<not> (b \<and> (\<not> hostInScope old a \<or> \<not> hostInScope current a))
      then [host_change a o' n] else [] else [])
      (case mget (effectiveHostStates current) a of None \<Rightarrow> [] | Some v \<Rightarrow> [v])))
      (case mget (effectiveHostStates old) a of None \<Rightarrow> [] | Some v \<Rightarrow> [v]))"
  have f: "subseq (map c_key (?f a)) [hostKey a]" for a
    by (auto simp: host_change_def split: option.split)
  have "subseq (concat (map (\<lambda>a. map c_key (?f a)) as)) (concat (map (\<lambda>a. [hostKey a]) as))" for as
    by (intro subseq_concat_map f)
  moreover have "concat (map (\<lambda>a. [hostKey a]) as) = map hostKey as" for as by (induction as) auto
  ultimately have sub: "subseq (map c_key (concat (map ?f as))) (map hostKey as)" for as
    by (simp add: map_concat comp_def)
  have "distinct (map c_key (concat (map ?f (remdups as))))" for as
    by (rule subseq_distinct [OF sub]) (simp add: distinct_map inj_on_def)
  then show "distinct (map c_key (hostStateChanges old current b))"
    unfolding hostStateChanges_def Let_def by (metis (no_types, lifting) distinct_sort_map)
  show "c \<in> set (hostStateChanges old current b) \<Longrightarrow> c_kind c = ''host'' \<and> (\<exists>a. c_key c = hostKey a)"
    by (auto simp: hostStateChanges_def Let_def host_change_def empty_change_def split: if_splits)
qed

lemma diff_keys:
  assumes "wf_snapshot new"
  shows "distinct (map c_key (diffWithDownAddressesAndScopes old new b down ix))"
    "sorted (map c_key (diffWithDownAddressesAndScopes old new b down ix))"
proof -
  let ?A = "itemChanges old new b down ix" and ?C = "hostStateChanges old new b"
  let ?B = "snd (comparePortAddressesWithScopeIndexes old new b down ix)"
  have dA: "distinct (map c_key ?A)" unfolding itemChanges_keys by simp
  have kA: "(\<exists>t p n. k = portChangeKey t p n) \<or> (\<exists>t p n. k = fingerprintKey t p n) \<or> (\<exists>t a. k = dnsKey t a)"
    if "k \<in> c_key ` set ?A" for k
  proof -
    have "k \<in> set (map c_key ?A)" using that by simp
    then have "k \<in> fst ` set (item_writes old) \<union> fst ` set (item_writes new)"
      unfolding itemChanges_keys by (auto simp: items_mkeys)
    then show ?thesis using item_writes_key by fastforce
  qed
  have kB: "\<exists>t p n a. k = portAddressKey t p n a" if "k \<in> c_key ` set ?B" for k
    using that address_changes(2) [OF assms refl] by auto
  have kC: "\<exists>a. k = hostKey a" if "k \<in> c_key ` set ?C" for k
    using that hostStateChanges_keys(2) by auto
  have "c_key ` set ?A \<inter> c_key ` set ?B = {}"
  proof -
    have False if "k \<in> c_key ` set ?A" "k \<in> c_key ` set ?B" for k using kA [OF that(1)] kB [OF that(2)] by auto
    then show ?thesis by blast
  qed
  moreover have "(c_key ` set ?A \<union> c_key ` set ?B) \<inter> c_key ` set ?C = {}"
  proof -
    have False if "k \<in> c_key ` set ?A \<or> k \<in> c_key ` set ?B" "k \<in> c_key ` set ?C" for k
      using kA [of k] kB [of k] kC [OF that(2)] that(1) by (elim disjE) auto
    then show ?thesis by blast
  qed
  ultimately have "distinct (map c_key (?A @ ?B @ ?C))"
    using dA address_changes(1) [OF assms refl] hostStateChanges_keys(1) by auto
  then show "distinct (map c_key (diffWithDownAddressesAndScopes old new b down ix))"
    unfolding diffWithDownAddressesAndScopes_def by (rule distinct_sort_map)
  show "sorted (map c_key (diffWithDownAddressesAndScopes old new b down ix))"
    by (simp add: diffWithDownAddressesAndScopes_def)
qed

lemma filter_keys:
  "distinct (map f xs) \<Longrightarrow> distinct (map f (filter P xs))" "sorted (map f xs) \<Longrightarrow> sorted (map f (filter P xs))"
  by (auto simp: distinct_map inj_on_def sorted_filter)

lemma filterDNSAggregateChanges_filter: "\<exists>P. filterDNSAggregateChanges old current cs job = filter P cs"
  unfolding filterDNSAggregateChanges_def Let_def by (metis filter_True)

text \<open>
  A comparison reports each finding once, ordered by key, so the map of the scan's
  changes that the finding tracker builds loses none of them.
\<close>

theorem one_change_per_finding:
  assumes "wf_snapshot current"
  shows "distinct (map c_key (diffForJob old current b job)) \<and> sorted (map c_key (diffForJob old current b job)) \<and>
    (\<forall>c \<in> set (diffForJob old current b job). mget (currentMapOf (diffForJob old current b job)) (c_key c) = Some c)"
proof -
  obtain P where P: "diffForJob old current b job = filter P (diffWithDownAddressesAndScopes old current b
      (completedDownAddressesByProtocolForJob old current job) (scopeLookupsFor old current b))"
    using filterDNSAggregateChanges_filter unfolding diffForJob_def diffForJobWithScopeLookups_def by metis
  have d: "distinct (map c_key (diffForJob old current b job))" "sorted (map c_key (diffForJob old current b job))"
    unfolding P using diff_keys [OF assms] filter_keys by blast+
  moreover have "mget (currentMapOf cs) (c_key c) = Some c" if "distinct (map c_key cs)" "c \<in> set cs" for cs c
  proof -
    have f: "currentMapOf cs = fold (\<lambda>(k, v). mput k v) (map (\<lambda>c. (c_key c, c)) cs) []"
      by (simp add: currentMapOf_def fold_map comp_def)
    have d: "distinct (map fst (map (\<lambda>c. (c_key c, c)) cs))" using that(1) by (simp add: comp_def)
    show ?thesis unfolding f fold_mput_distinct [OF d] mget_eq_Some_mem [OF d] using that(2) by auto
  qed
  ultimately show ?thesis by blast
qed

theorem one_change_per_finding_witness:
  "distinct (map c_key (diffForJob empty_snapshot example_snapshot False zero_job))"
  using one_change_per_finding [OF wf_example_snapshot] by blast

section \<open>The port changes\<close>

text \<open>The state of a port in a snapshot; a port that is not listed is not open.\<close>

definition port_value :: "snapshot \<Rightarrow> string \<Rightarrow> string \<Rightarrow> int \<Rightarrow> string option" where
  "port_value s t p n = (case baselinePort s t p n of (v, True) \<Rightarrow> Some (ps_state v) | (_, False) \<Rightarrow> None)"

definition listed_state :: "string option \<Rightarrow> string" where
  "listed_state v = (case v of None \<Rightarrow> ''not-open'' | Some st \<Rightarrow> st)"

definition port_probe :: "string \<Rightarrow> string \<Rightarrow> int \<Rightarrow> item" where
  "port_probe t p n = \<lparr>it_kind = ''port'', it_target = t, it_protocol = p, it_port = n, it_value = [], it_severity = []\<rparr>"

definition port_matches :: "snapshot \<Rightarrow> string \<Rightarrow> string \<Rightarrow> int \<Rightarrow> port_state list" where
  "port_matches s t p n = [v. u \<leftarrow> sn_units s, u_target u = t \<and> u_protocol u = p, v \<leftarrow> u_ports u, ps_port v = n]"

lemma port_matches_mem: "v \<in> set (port_matches s t p n) \<longleftrightarrow>
    (\<exists>u \<in> set (sn_units s). u_target u = t \<and> u_protocol u = p \<and> v \<in> set (u_ports u) \<and> ps_port v = n)"
  by (auto simp: port_matches_def)

lemma baselinePort_matches: "baselinePort s t p n = (case port_matches s t p n of [] \<Rightarrow> (zero_port_state, False) | v # _ \<Rightarrow> (v, True))"
  by (simp add: baselinePort_def port_matches_def)

lemma port_matches_unique:
  assumes "wf_snapshot s" "v \<in> set (port_matches s t p n)" "w \<in> set (port_matches s t p n)"
  shows "v = w"
proof -
  from assms(2) obtain u where u: "u \<in> set (sn_units s)" "u_target u = t" "u_protocol u = p" "v \<in> set (u_ports u)" "ps_port v = n"
    by (auto simp: port_matches_def split: if_splits)
  from assms(3) obtain u' where u': "u' \<in> set (sn_units s)" "u_target u' = t" "u_protocol u' = p" "w \<in> set (u_ports u')" "ps_port w = n"
    by (auto simp: port_matches_def split: if_splits)
  have "u = u'" using assms(1) u u' by (auto simp: wf_snapshot_def distinct_map inj_on_def)
  moreover have "inj_on ps_port (set (u_ports u))" using assms(1) u(1) by (auto simp: wf_snapshot_def distinct_map)
  ultimately show ?thesis using u u' by (auto dest: inj_onD)
qed

definition listed_item :: "string \<Rightarrow> string \<Rightarrow> int \<Rightarrow> port_state \<Rightarrow> item" where
  "listed_item t p n v = \<lparr>it_kind = ''port'', it_target = t, it_protocol = p, it_port = n, it_value = ps_state v,
     it_severity = (if ps_state v = ''open|filtered'' then ''warning'' else ''critical'')\<rparr>"

lemma port_item_listed:
  "port_item u q = (portChangeKey (u_target u) (u_protocol u) (ps_port q), listed_item (u_target u) (u_protocol u) (ps_port q) q)"
  by (simp add: port_item_def listed_item_def)

lemma items_port:
  assumes "wf_snapshot s" "bar \<notin> set p"
  shows "mget (items s) (portChangeKey t p n) = (case port_matches s t p n of [] \<Rightarrow> None
     | v # _ \<Rightarrow> Some (listed_item t p n v))"
proof -
  have w: "(portChangeKey t p n, i) \<in> set (item_writes s) \<longleftrightarrow> (\<exists>v \<in> set (port_matches s t p n).
      i = listed_item t p n v)" for i
  proof -
    have e: "(portChangeKey t p n, i) = port_item u q \<longleftrightarrow>
        u_target u = t \<and> u_protocol u = p \<and> ps_port q = n \<and> i = snd (port_item u q)" if "u \<in> set (sn_units s)" for u q
      using assms that portChangeKey_inj [of p "u_protocol u" t n "u_target u" "ps_port q"]
      by (auto simp: port_item_listed wf_snapshot_def)
    have "(portChangeKey t p n, i) \<in> set (item_writes s) \<longleftrightarrow>
        (\<exists>u \<in> set (sn_units s). \<exists>q \<in> set (u_ports u). (portChangeKey t p n, i) = port_item u q)"
      unfolding item_writes_mem by (auto simp: service_item_def dns_item_def)
    also have "\<dots> \<longleftrightarrow> (\<exists>u \<in> set (sn_units s). \<exists>q \<in> set (u_ports u). u_target u = t \<and> u_protocol u = p \<and> ps_port q = n \<and> i = snd (port_item u q))"
      using e by blast
    also have "\<dots> \<longleftrightarrow> (\<exists>v \<in> set (port_matches s t p n).
        i = listed_item t p n v)"
      unfolding port_item_listed snd_conv by (auto simp: Bex_def port_matches_mem)
    finally show ?thesis .
  qed
  show ?thesis
  proof (cases "port_matches s t p n")
    case Nil
    then have "portChangeKey t p n \<notin> fst ` set (item_writes s)" using w by force
    then show ?thesis using Nil items_None [of s "portChangeKey t p n"] by simp
  next
    case (Cons v vs)
    then obtain i where i: "mget (items s) (portChangeKey t p n) = Some i"
      using w items_None [of s "portChangeKey t p n"] by force
    then obtain v' where "v' \<in> set (port_matches s t p n)"
      "i = listed_item t p n v'"
      using items_Some w by blast
    moreover have "v' = v" using port_matches_unique [OF assms(1) calculation(1)] Cons by simp
    ultimately show ?thesis using i Cons by simp
  qed
qed

lemma itemChanges_mem:
  "c \<in> set (itemChanges old new b down ix) \<longleftrightarrow> (\<exists>k. c = item_change k (mget (items old) k) (mget (items new) k) \<and>
     (mget (items old) k \<noteq> None \<or> mget (items new) k \<noteq> None) \<and>
     diff_reports old new b down ix (mget (items old) k) (mget (items new) k))"
  by (auto simp: itemChanges_def Let_def mkeys_iff)

lemma item_change_key [simp]: "c_key (item_change k x y) = k"
  by (auto simp: item_change_def Let_def split: option.splits)

lemma diff_port_mem:
  assumes "wf_snapshot new"
  shows "(\<exists>c \<in> set (diffWithDownAddressesAndScopes old new b down ix). c_key c = portChangeKey t p n \<and> P c) \<longleftrightarrow>
    (let k = portChangeKey t p n; x = mget (items old) k; y = mget (items new) k in
      (x \<noteq> None \<or> y \<noteq> None) \<and> diff_reports old new b down ix x y \<and> P (item_change k x y))"
proof -
  have "c \<in> set (itemChanges old new b down ix)"
    if c: "c \<in> set (diffWithDownAddressesAndScopes old new b down ix)" "c_key c = portChangeKey t p n" for c
  proof -
    have "c \<notin> set (hostStateChanges old new b)" using c(2) hostStateChanges_keys(2) by fastforce
    moreover have "c \<notin> set (snd (comparePortAddressesWithScopeIndexes old new b down ix))"
      using c(2) address_changes(2) [OF assms refl] by fastforce
    ultimately show ?thesis using c(1) by (auto simp: diffWithDownAddressesAndScopes_def)
  qed
  moreover have "c \<in> set (diffWithDownAddressesAndScopes old new b down ix)" if "c \<in> set (itemChanges old new b down ix)" for c
    using that by (auto simp: diffWithDownAddressesAndScopes_def)
  ultimately have "(\<exists>c \<in> set (diffWithDownAddressesAndScopes old new b down ix). c_key c = portChangeKey t p n \<and> P c) \<longleftrightarrow>
      (\<exists>c \<in> set (itemChanges old new b down ix). c_key c = portChangeKey t p n \<and> P c)" by blast
  also have "\<dots> \<longleftrightarrow> (let k = portChangeKey t p n; x = mget (items old) k; y = mget (items new) k in
      (x \<noteq> None \<or> y \<noteq> None) \<and> diff_reports old new b down ix x y \<and> P (item_change k x y))"
    unfolding Bex_def itemChanges_mem Let_def by (metis item_change_key)
  finally show ?thesis .
qed

text \<open>
  C19: The port changes are exact. \<open>Diff\<close> reports a change of a port precisely when its state
  differs, a missing port counting as not open, when the scopes that must cover it do, and
  when completed host discovery does not explain the missing port; and the change carries
  the two states.
\<close>

theorem port_changes_exact:
  assumes "wf_snapshot old" "wf_snapshot new" "bar \<notin> set p"
  shows "(\<exists>c \<in> set (Diff old new b). c_key c = portChangeKey t p n \<and> c_kind c = ''port'' \<and> c_old c = before \<and> c_new c = after) \<longleftrightarrow>
    port_value old t p n \<noteq> port_value new t p n \<and>
    (b \<longrightarrow> scopeAllows old t p n False \<and> scopeAllows new t p n False) \<and>
    \<not> (port_value new t p n = None \<and> missingPositivePortExplainedByDown old (port_probe t p n) (completedDownAddressesByProtocol new)) \<and>
    before = listed_state (port_value old t p n) \<and> after = listed_state (port_value new t p n)"
proof -
  let ?down = "completedDownAddressesByProtocol new"
  have m: "missingPositivePortExplainedByDown old v ?down = missingPositivePortExplainedByDown old (port_probe t p n) ?down"
    if "it_target v = t" "it_protocol v = p" "it_port v = n" for v
    using that by (simp add: missingPositivePortExplainedByDown_def port_probe_def)
  have v: "port_value s t p n = map_option it_value (mget (items s) (portChangeKey t p n))" if "wf_snapshot s" for s
    using items_port [OF that assms(3)] by (simp add: port_value_def baselinePort_matches listed_item_def split: list.split)
  show ?thesis
    unfolding Diff_def diffWithDownAddresses_def diff_port_mem [OF assms(2)] Let_def v [OF assms(1)] v [OF assms(2)]
    using items_port [OF assms(1,3), of t n] items_port [OF assms(2,3), of t n]
    by (cases "port_matches old t p n"; cases "port_matches new t p n")
      (auto simp: diff_reports_def item_change_def listed_state_def listed_item_def Let_def inBothScopes_index inBothScopes_def m)
qed

theorem port_changes_exact_witness:
  "\<exists>c \<in> set (Diff empty_snapshot example_snapshot False). c_key c = portChangeKey ''a.example'' ''tcp'' 80 \<and>
     c_kind c = ''port'' \<and> c_old c = ''not-open'' \<and> c_new c = ''open''"
proof -
  have w: "wf_snapshot empty_snapshot" "bar \<notin> set ''tcp''" by code_simp+
  have v: "port_value empty_snapshot ''a.example'' ''tcp'' 80 = None" "port_value example_snapshot ''a.example'' ''tcp'' 80 = Some ''open''"
    by code_simp+
  show ?thesis using port_changes_exact [OF w(1) wf_example_snapshot w(2), of False "''a.example''" 80] v
    by (simp add: listed_state_def)
qed

end
