(* ===== verification/Observe.thy ===== *)
theory Observe
  imports Diff Findings
begin

text \<open>
  \<open>internal/engine/observation.go\<close>: which of the findings that a job tracks one scan
  observed (\<open>observe\<close>), before \<open>applyObservedChanges\<close> of \<open>Findings\<close> moves them. A set of keys
  is the list of its members. The functions that read \<open>*state.Baseline\<close> take the baseline as
  an argument; \<open>observe\<close>, their caller, has returned before them when there is none.
\<close>

section \<open>What the state tracks\<close>

text \<open>\<open>eachTrackedChange\<close> and \<open>eachKeyOnlySuppression\<close>: what they call their function with.\<close>

definition eachTrackedChange :: "job_state \<Rightarrow> (string \<times> change) list" where
  "eachTrackedChange st =
     map (\<lambda>(k, p). (k, p_change p)) (js_pending st) @ map (\<lambda>(k, i). (k, i_change i)) (js_incidents st) @
     js_suppressed_changes st"

definition eachKeyOnlySuppression :: "job_state \<Rightarrow> string list" where
  "eachKeyOnlySuppression st = filter (\<lambda>k. \<not> mhas (js_suppressed_changes st) k) (mkeys (js_suppressed st))"

section \<open>Keys of ports\<close>

definition keyed_change :: "string \<Rightarrow> string \<Rightarrow> string \<Rightarrow> string \<Rightarrow> int \<Rightarrow> change" where
  "keyed_change key kind target protocol port = empty_change\<lparr>c_key := key, c_kind := kind, c_target := target,
     c_protocol := protocol, c_port := port\<rparr>"

definition portChangeFromKey :: "string \<Rightarrow> change option" where
  "portChangeFromKey key =
     (let parts = splitOn bar key in
      if length parts < 4 \<or> (parts ! 0 \<noteq> ''port'' \<and> parts ! 0 \<noteq> ''service'') then None
      else case atoi (last parts) of
        None \<Rightarrow> None
      | Some port \<Rightarrow> Some (keyed_change key (parts ! 0)
          (joinWith [bar] (take (length parts - 3) (drop 1 parts))) (parts ! (length parts - 2)) port))"

section \<open>What a scan cannot observe\<close>

definition changeWithinScopeWithDNSAddresses :: "snapshot \<Rightarrow> change \<Rightarrow> job \<Rightarrow> string list \<Rightarrow> bool" where
  "changeWithinScopeWithDNSAddresses s c job dnsAddresses =
     (if c_kind c = ''port'' then scopeAllows s (c_target c) (c_protocol c) (c_port c) False
      else if c_kind c = ''port-address''
      then (if aggregates job then False else scopeAllows s (c_target c) (c_protocol c) (c_port c) False)
      else if c_kind c = ''service'' then scopeAllows s (c_target c) (c_protocol c) (c_port c) True
      else if c_kind c = ''host''
      then (if aggregates job \<and> dnsOnlyAddressInSnapshot (c_target c) dnsAddresses s then False
            else hostInScope s (c_target c))
      else if c_kind c = ''dns'' \<or> c_kind c = ''dns-added'' \<or> c_kind c = ''dns-removed''
      then (if aggregates job then False else hasTarget s (c_target c))
      else False)"

definition outOfScopeChangeKeys :: "job_state \<Rightarrow> snapshot \<Rightarrow> job \<Rightarrow> string list" where
  "outOfScopeChangeKeys st s job =
     [k. (k, c) \<leftarrow> eachTrackedChange st,
         \<not> changeWithinScopeWithDNSAddresses s c job (dnsAddressesInSnapshot s)]"

definition protectedNonHostChangeKeys :: "job_state \<Rightarrow> string list" where
  "protectedNonHostChangeKeys st =
     filter (\<lambda>k. \<not> hasPrefix k ''host|'')
       (mkeys (js_pending st) @ mkeys (js_incidents st) @ mkeys (js_suppressed st) @ mkeys (js_suppressed_changes st))"

definition protectedItemKeys :: "snapshot \<Rightarrow> protection \<Rightarrow> string list" where
  "protectedItemKeys s pr =
     [k. (k, v) \<leftarrow> items s, incompleteChange (empty_change\<lparr>c_target := it_target v, c_protocol := it_protocol v\<rparr>) pr]"

definition protectedChangeKeys :: "job_state \<Rightarrow> snapshot \<Rightarrow> snapshot \<Rightarrow> protection \<Rightarrow> string list" where
  "protectedChangeKeys st baseline current pr =
     protectedItemKeys baseline pr @ protectedItemKeys current pr @
     [k. (k, c) \<leftarrow> eachTrackedChange st, incompleteChange c pr]"

definition uncomparedPortAddressKeys :: "job_state \<Rightarrow> snapshot \<Rightarrow> snapshot \<Rightarrow> bool \<Rightarrow> job \<Rightarrow> string list" where
  "uncomparedPortAddressKeys st baseline current intersectionOnly job =
     (let compared = (if aggregates job then []
            else fst (comparePortAddresses baseline current intersectionOnly
              (completedDownAddressesByProtocolForJob baseline current job)))
      in [k. (k, c) \<leftarrow> eachTrackedChange st, c_kind c = ''port-address'' \<and> k \<notin> set compared])"

definition closedPortServiceKeys :: "job_state \<Rightarrow> snapshot \<Rightarrow> string list" where
  "closedPortServiceKeys st s =
     [k. (k, c) \<leftarrow> eachTrackedChange st,
         c_kind c = ''service'' \<and> portChangeKey (c_target c) (c_protocol c) (c_port c) \<notin> set (positivePortKeys s)] @
     [k. k \<leftarrow> eachKeyOnlySuppression st,
         hasPrefix k ''service|'' \<and> ''port|'' @ trimPrefix k ''service|'' \<notin> set (positivePortKeys s)]"

definition retireClosedPortServiceChanges :: "job_state \<Rightarrow> snapshot \<Rightarrow> job_state" where
  "retireClosedPortServiceChanges st s = retireFrom (retire (closedPortServiceKeys st s) empty_observation) st"

definition portHiddenByDownHost :: "snapshot \<Rightarrow> snapshot \<Rightarrow> string \<Rightarrow> string \<Rightarrow> int \<Rightarrow> pairs \<Rightarrow> bool" where
  "portHiddenByDownHost baseline current target protocol port down =
     (let (addresses, expected) = positivePortAddresses baseline target protocol port in
      if expected then addresses \<noteq> [] \<and> (\<forall>a \<in> set addresses. explicitlyDownForProtocol down protocol a)
      else (\<exists>a \<in> set (targetAddresses current target protocol). explicitlyDownForProtocol down protocol a))"

text \<open>The body of \<open>mark\<close> in \<open>downHostChangeKeys\<close>: whether a finding is hidden.\<close>

definition hidden :: "snapshot \<Rightarrow> snapshot \<Rightarrow> pairs \<Rightarrow> change \<Rightarrow> bool" where
  "hidden baseline current down c =
     ((c_kind c = ''port'' \<or> c_kind c = ''service'') \<and>
      portChangeKey (c_target c) (c_protocol c) (c_port c) \<notin> set (positivePortKeys current) \<and>
      portHiddenByDownHost baseline current (c_target c) (c_protocol c) (c_port c) down)"

definition downHostChangeKeys :: "job_state \<Rightarrow> snapshot \<Rightarrow> snapshot \<Rightarrow> job \<Rightarrow> string list" where
  "downHostChangeKeys st baseline current job =
     (let down = completedDownAddressesByProtocolForJob baseline current job in
      if down = [] then []
      else [k. (k, c) \<leftarrow> eachTrackedChange st, hidden baseline current down c] @
           [k. k \<leftarrow> eachKeyOnlySuppression st,
               case portChangeFromKey k of None \<Rightarrow> False | Some c \<Rightarrow> hidden baseline current down c])"

text \<open>The host findings without a state in the scan: those still in its scope, and the others.\<close>

definition missingHostFindings :: "job_state \<Rightarrow> snapshot \<Rightarrow> (string \<times> string) list" where
  "missingHostFindings st current =
     (let states = effectiveHostStates current
      in filter (\<lambda>(k, address). \<not> mhas states (trimSpace address))
        ([(k, c_target c). (k, c) \<leftarrow> eachTrackedChange st, c_kind c = ''host''] @
         [(k, trimPrefix k ''host|''). k \<leftarrow> eachKeyOnlySuppression st, hasPrefix k ''host|'']))"

definition unobservedHostChangeKeys :: "job_state \<Rightarrow> snapshot \<Rightarrow> string list \<times> string list" where
  "unobservedHostChangeKeys st current =
     (let missing = missingHostFindings st current
      in ([k. (k, address) \<leftarrow> missing, hostInScope current address],
          [k. (k, address) \<leftarrow> missing, \<not> hostInScope current address]))"

section \<open>observe\<close>

record scan_view =
  sv_snapshot :: snapshot
  sv_changes :: "change list"
  sv_scope_changed :: bool
  sv_hosts_only :: bool
  sv_incomplete :: "protection option"
  sv_deferred :: "string list"

definition observe :: "job_state \<Rightarrow> job \<Rightarrow> scan_view \<Rightarrow> observation" where
  "observe st job view =
     (case js_baseline st of
        None \<Rightarrow> empty_observation
      | Some baseline \<Rightarrow>
          (let current = sv_snapshot view;
               seen0 = (if sv_scope_changed view \<and> sv_incomplete view = None
                        then retire (outOfScopeChangeKeys st current job) empty_observation else empty_observation);
               (hostsKept, hostsGone) = unobservedHostChangeKeys st current;
               seen1 = keep hostsKept seen0;
               seen2 = (if sv_hosts_only view then keep hostsGone (keep (protectedNonHostChangeKeys st) seen1)
                 else case sv_incomplete view of
                   Some pr \<Rightarrow>
                     keep hostsGone
                       (keep (downHostChangeKeys st baseline current job)
                         (keep (uncomparedPortAddressKeys st baseline current (sv_scope_changed view) job)
                           (keep (sv_deferred view)
                             (keep (closedPortServiceKeys st current)
                               (keep (protectedChangeKeys st baseline current pr) seen1)))))
                 | None \<Rightarrow>
                     (let down = downHostChangeKeys st baseline current job in
                      retire hostsGone
                        (retire (uncomparedPortAddressKeys st baseline current (sv_scope_changed view) job)
                          (retire (filter (\<lambda>k. k \<notin> set down) (closedPortServiceKeys st current))
                            (keep down seen1)))))
           in seen2\<lparr>ob_unobserved := filter (\<lambda>k. k \<notin> set (map c_key (sv_changes view))) (ob_unobserved seen2)\<rparr>))"

section \<open>Reading a key back\<close>

lemma splitOn_key:
  assumes "bar \<notin> set kind" "bar \<notin> set p" "bar \<notin> set d"
  shows "splitOn bar (kind @ bar # t @ bar # p @ bar # d) = kind # splitOn bar t @ [p, d]"
  using assms by (simp add: splitOn_append_sep splitOn_no_sep)

lemma portChangeFromKey_key:
  assumes "kind = ''port'' \<or> kind = ''service''" "bar \<notin> set p" "- (2 ^ 63) \<le> n" "n < 2 ^ 63"
    and "key = kind @ bar # t @ bar # p @ bar # itoa n"
  shows "portChangeFromKey key = Some (keyed_change key kind t p n)"
proof -
  have "bar \<notin> set kind" using assms(1) by (auto simp: bar_def)
  moreover have "bar \<notin> set (itoa n)" using itoa_no_bar by (simp add: bar_def)
  ultimately have sp: "splitOn bar key = kind # splitOn bar t @ [p, itoa n]"
    using splitOn_key assms(2,5) by simp
  define k where "k = length (splitOn bar t)"
  have k: "1 \<le> k" by (cases "splitOn bar t") (auto simp: k_def)
  have l: "length (splitOn bar key) = k + 3" by (simp add: sp k_def)
  have parts: "splitOn bar key ! 0 = kind" "last (splitOn bar key) = itoa n"
      "splitOn bar key ! Suc k = p" "take k (drop (Suc 0) (splitOn bar key)) = splitOn bar t"
    by (simp_all add: sp nth_append k_def)
  show ?thesis
    using assms(1) k by (auto simp: portChangeFromKey_def Let_def l parts atoi_itoa [OF assms(3,4)])
qed

text \<open>
  The key of a port or service finding can be read back: kind, target, protocol and port
  are recovered from the text, for targets with any characters, IPv6 and separators included.
\<close>

theorem finding_key_roundtrip:
  assumes "bar \<notin> set p" "- (2 ^ 63) \<le> n" "n < 2 ^ 63"
  shows "portChangeFromKey (portChangeKey t p n) = Some (keyed_change (portChangeKey t p n) ''port'' t p n) \<and>
    portChangeFromKey (fingerprintKey t p n) = Some (keyed_change (fingerprintKey t p n) ''service'' t p n)"
  using portChangeFromKey_key [OF _ assms, of "''port''" "portChangeKey t p n" t]
    portChangeFromKey_key [OF _ assms, of "''service''" "fingerprintKey t p n" t]
  by (simp add: portChangeKey_def fingerprintKey_def bar_def)

theorem finding_key_roundtrip_witness:
  "portChangeFromKey (portChangeKey ''a|b'' ''tcp'' 443) = Some (keyed_change (portChangeKey ''a|b'' ''tcp'' 443) ''port'' ''a|b'' ''tcp'' 443)"
  using finding_key_roundtrip [of "''tcp''" 443 "''a|b''"] by (simp add: bar_def)

section \<open>What observe retires and keeps\<close>

lemma retire_simps [simp]: "ob_retired (retire ks ob) = ob_retired ob @ ks" "ob_unobserved (retire ks ob) = ob_unobserved ob"
  by (simp_all add: retire_def)

lemma keep_simps [simp]: "ob_retired (keep ks ob) = ob_retired ob" "ob_unobserved (keep ks ob) = ob_unobserved ob @ ks"
  by (simp_all add: keep_def)

lemma empty_observation_simps [simp]: "ob_retired empty_observation = []" "ob_unobserved empty_observation = []"
  by (simp_all add: empty_observation_def)

definition scope_retired :: "job_state \<Rightarrow> job \<Rightarrow> scan_view \<Rightarrow> string list" where
  "scope_retired st job view = (if sv_scope_changed view \<and> sv_incomplete view = None
     then outOfScopeChangeKeys st (sv_snapshot view) job else [])"

lemma observe_retired:
  assumes "js_baseline st = Some baseline"
  shows "set (ob_retired (observe st job view)) = set (scope_retired st job view) \<union>
    (if sv_hosts_only view \<or> sv_incomplete view \<noteq> None then {}
     else set (snd (unobservedHostChangeKeys st (sv_snapshot view))) \<union>
       set (uncomparedPortAddressKeys st baseline (sv_snapshot view) (sv_scope_changed view) job) \<union>
       (set (closedPortServiceKeys st (sv_snapshot view)) -
        set (downHostChangeKeys st baseline (sv_snapshot view) job)))"
  by (auto simp: observe_def assms Let_def scope_retired_def split_beta split: option.splits)

lemma observe_down_kept:
  assumes "js_baseline st = Some baseline" "\<not> sv_hosts_only view"
    and "k \<in> set (downHostChangeKeys st baseline (sv_snapshot view) job)" "k \<notin> c_key ` set (sv_changes view)"
  shows "k \<in> set (ob_unobserved (observe st job view))"
  using assms by (auto simp: observe_def Let_def split_beta split: option.splits)

section \<open>A host that is down hides its ports\<close>

lemma portKey_prefix: "\<not> hasPrefix (portChangeKey t p n) ''host|''" "\<not> hasPrefix (portChangeKey t p n) ''service|''"
  by (simp_all add: hasPrefix_def portChangeKey_def)

lemma port_not_retired:
  assumes "js_baseline st = Some baseline" "\<not> sv_scope_changed view"
    and "\<forall>(k', c') \<in> set (eachTrackedChange st). k' = portChangeKey t p n \<longrightarrow> c_kind c' = ''port''"
  shows "portChangeKey t p n \<notin> set (ob_retired (observe st job view))"
  using assms(2,3) portKey_prefix unfolding observe_retired [OF assms(1)]
  by (auto simp: scope_retired_def unobservedHostChangeKeys_def missingHostFindings_def
      uncomparedPortAddressKeys_def closedPortServiceKeys_def Let_def split: if_splits)

text \<open>
  A closed port on a host that is down is no recovery. A complete scan that found every
  address of an expected port down, and does not report the port, leaves the port's finding
  as it is, with no event about it: a host that is down shows no ports.
\<close>

theorem down_host_keeps_port_finding:
  assumes ok: "tracking_ok required st" "1 \<le> required" "\<forall>c \<in> set (sv_changes view). reportable c"
    and view: "js_baseline st = Some baseline" "\<not> sv_scope_changed view" "\<not> sv_hosts_only view"
    and tracked: "(portChangeKey t p n, c) \<in> set (eachTrackedChange st)"
      "\<forall>(k', c') \<in> set (eachTrackedChange st). k' = portChangeKey t p n \<longrightarrow>
         c_kind c' = ''port'' \<and> c_target c' = t \<and> c_protocol c' = p \<and> c_port c' = n"
    and closed: "portChangeKey t p n \<notin> set (positivePortKeys (sv_snapshot view))" "silent (portChangeKey t p n) (sv_changes view)"
    and down: "completedDownAddressesByProtocolForJob baseline (sv_snapshot view) job = down" "down \<noteq> []"
      "positivePortAddresses baseline t p n = (addresses, True)" "addresses \<noteq> []"
      "\<forall>a \<in> set addresses. explicitlyDownForProtocol down p a"
    and run: "applyObservedChanges st name scanID (sv_changes view) required now (observe st job view) = (st', evs)"
  shows "finding_of st' (portChangeKey t p n) = finding_of st (portChangeKey t p n) \<and>
    (\<forall>e \<in> set evs. \<forall>c \<in> set (e_changes e). c_key c \<noteq> portChangeKey t p n)"
proof (rule unobserved_kept [OF ok _ _ closed(2) run])
  have "c_kind c = ''port'' \<and> c_target c = t \<and> c_protocol c = p \<and> c_port c = n" using tracked by blast
  then have "hidden baseline (sv_snapshot view) down c"
    using closed(1) down(3-5) by (simp add: hidden_def portHiddenByDownHost_def)
  then have "portChangeKey t p n \<in> set (downHostChangeKeys st baseline (sv_snapshot view) job)"
    using tracked(1) down(1,2) by (force simp: downHostChangeKeys_def Let_def)
  then show "portChangeKey t p n \<in> set (ob_unobserved (observe st job view))"
    using observe_down_kept [OF view(1,3)] closed(2) by (simp add: silent_iff)
  show "portChangeKey t p n \<notin> set (ob_retired (observe st job view))"
    using port_not_retired [OF view(1,2)] tracked(2) by fastforce
qed

definition down_baseline :: snapshot where
  "down_baseline = empty_snapshot\<lparr>sn_units := [\<lparr>u_target = ''10.0.0.1'', u_protocol = ''tcp'', u_addresses = [],
     u_ports = [\<lparr>ps_port = 80, ps_state = ''open'', ps_service = [], ps_evidence = [''10.0.0.1'']\<rparr>]\<rparr>]\<rparr>"

definition down_scan :: scan_view where
  "down_scan = \<lparr>sv_snapshot = empty_snapshot\<lparr>sn_host_states := [\<lparr>hs_address = ''10.0.0.1'', hs_state = ''down''\<rparr>]\<rparr>,
     sv_changes = [], sv_scope_changed = False, sv_hosts_only = False, sv_incomplete = None, sv_deferred = []\<rparr>"

definition down_state :: job_state where
  "down_state = empty_job_state\<lparr>js_baseline := Some down_baseline, js_incidents :=
     [(portChangeKey ''10.0.0.1'' ''tcp'' 80,
       new_incident (keyed_change (portChangeKey ''10.0.0.1'' ''tcp'' 80) ''port'' ''10.0.0.1'' ''tcp'' 80) ''s0'' 0)]\<rparr>"

lemma down_state_ok: "1 \<le> required \<Longrightarrow> tracking_ok required down_state"
  by (auto simp: tracking_ok_def wf_tracking_def down_state_def empty_job_state_def finding_ok_def finding_of_def
      new_incident_def keyed_change_def split: if_splits)

theorem down_host_keeps_port_finding_witness:
  "finding_of (fst (applyObservedChanges down_state ''j'' ''s'' [] 2 7 (observe down_state zero_job down_scan)))
     (portChangeKey ''10.0.0.1'' ''tcp'' 80) = finding_of down_state (portChangeKey ''10.0.0.1'' ''tcp'' 80)"
proof -
  have e: "eachTrackedChange down_state = [(portChangeKey ''10.0.0.1'' ''tcp'' 80,
      keyed_change (portChangeKey ''10.0.0.1'' ''tcp'' 80) ''port'' ''10.0.0.1'' ''tcp'' 80)]"
    "sv_changes down_scan = []" "\<not> sv_scope_changed down_scan" "\<not> sv_hosts_only down_scan"
    "js_baseline down_state = Some down_baseline" "positivePortKeys (sv_snapshot down_scan) = []"
    "completedDownAddressesByProtocolForJob down_baseline (sv_snapshot down_scan) zero_job = [(''*'', ''10.0.0.1'')]"
    "positivePortAddresses down_baseline ''10.0.0.1'' ''tcp'' 80 = ([''10.0.0.1''], True)"
    "explicitlyDownForProtocol [(''*'', ''10.0.0.1'')] ''tcp'' ''10.0.0.1''"
    by code_simp+
  show ?thesis
    using down_host_keeps_port_finding [where view = down_scan and job = zero_job, OF down_state_ok [of 2] _ _ e(5,3,4) _ _ _ _ e(7) _ e(8) _ _ prod.collapse [symmetric]]
    by (simp add: e silent_iff keyed_change_def)
qed

section \<open>A port that a scan does not report\<close>











end
