(* ===== verification/Baseline.thy ===== *)
theory Baseline
  imports Diff
begin

text \<open>
  \<open>internal/engine/engine.go\<close>, how a baseline comes about and changes: the index over its
  ports, the learning of service fingerprints and of port evidence, the hash by which samples
  converge, the candidate that becomes a baseline, and the merge after a change of scope.

  \<open>cloneSnapshot\<close> copies a snapshot through JSON, so that the copy shares no memory; on values
  it is the identity.
\<close>

section \<open>The index over the ports of a baseline\<close>

record port_location =
  pl_unit :: nat
  pl_port :: nat

record baseline_index =
  bi_scopes :: scope_index
  bi_ports :: "(string \<times> string \<times> int, port_location) gomap"

text \<open>Every port of every unit with its position.\<close>

definition port_locations :: "snapshot \<Rightarrow> ((string \<times> string \<times> int) \<times> port_location) list" where
  "port_locations s =
     concat (map (\<lambda>(i, u). map (\<lambda>(j, p). ((u_target u, u_protocol u, ps_port p), \<lparr>pl_unit = i, pl_port = j\<rparr>))
       (enumerate 0 (u_ports u))) (enumerate 0 (sn_units s)))"

definition index_port :: "(string \<times> string \<times> int) \<times> port_location \<Rightarrow>
    (string \<times> string \<times> int, port_location) gomap \<Rightarrow> (string \<times> string \<times> int, port_location) gomap" where
  "index_port kl m = (if mhas m (fst kl) then m else mput (fst kl) (snd kl) m)"

definition newBaselineIndex :: "snapshot \<Rightarrow> baseline_index" where
  "newBaselineIndex s = \<lparr>bi_scopes = newScopeIndex s, bi_ports = fold index_port (port_locations s) []\<rparr>"

text \<open>The position of a port, when the index has one that the snapshot has too.\<close>

definition locate :: "baseline_index \<Rightarrow> snapshot \<Rightarrow> string \<Rightarrow> string \<Rightarrow> int \<Rightarrow> port_location option" where
  "locate index s target protocol port =
     (case mget (bi_ports index) (target, protocol, port) of
        None \<Rightarrow> None
      | Some l \<Rightarrow> if pl_unit l \<ge> length (sn_units s) \<or> pl_port l \<ge> length (u_ports (sn_units s ! pl_unit l))
                  then None else Some l)"

definition index_baselinePort :: "baseline_index \<Rightarrow> snapshot \<Rightarrow> string \<Rightarrow> string \<Rightarrow> int \<Rightarrow> port_state \<times> bool" where
  "index_baselinePort index s target protocol port =
     (case locate index s target protocol port of
        None \<Rightarrow> (zero_port_state, False)
      | Some l \<Rightarrow> (u_ports (sn_units s ! pl_unit l) ! pl_port l, True))"

definition update_port :: "nat \<Rightarrow> nat \<Rightarrow> (port_state \<Rightarrow> port_state) \<Rightarrow> snapshot \<Rightarrow> snapshot" where
  "update_port i j f s = s\<lparr>sn_units := (sn_units s)[i := (sn_units s ! i)\<lparr>u_ports :=
     (u_ports (sn_units s ! i))[j := f (u_ports (sn_units s ! i) ! j)]\<rparr>]\<rparr>"

definition index_setBaselineService ::
  "baseline_index \<Rightarrow> snapshot \<Rightarrow> string \<Rightarrow> string \<Rightarrow> int \<Rightarrow> string \<Rightarrow> snapshot \<times> bool" where
  "index_setBaselineService index s target protocol port service =
     (case locate index s target protocol port of
        None \<Rightarrow> (s, False)
      | Some l \<Rightarrow>
          if ps_service (u_ports (sn_units s ! pl_unit l) ! pl_port l) = service then (s, False)
          else (update_port (pl_unit l) (pl_port l) (\<lambda>p. p\<lparr>ps_service := service\<rparr>) s, True))"

text \<open>The linear lookup that the index replaces: the first unit and port that match.\<close>

fun set_service_ports :: "int \<Rightarrow> string \<Rightarrow> port_state list \<Rightarrow> port_state list option" where
  "set_service_ports port service [] = None"
| "set_service_ports port service (p # ps) =
     (if ps_port p = port then Some (p\<lparr>ps_service := service\<rparr> # ps)
      else map_option ((#) p) (set_service_ports port service ps))"

fun set_service_units :: "string \<Rightarrow> string \<Rightarrow> int \<Rightarrow> string \<Rightarrow> unit_obs list \<Rightarrow> unit_obs list" where
  "set_service_units target protocol port service [] = []"
| "set_service_units target protocol port service (u # us) =
     (if u_target u \<noteq> target \<or> u_protocol u \<noteq> protocol then u # set_service_units target protocol port service us
      else case set_service_ports port service (u_ports u) of
        Some ps \<Rightarrow> u\<lparr>u_ports := ps\<rparr> # us
      | None \<Rightarrow> u # set_service_units target protocol port service us)"

definition setBaselineService :: "snapshot \<Rightarrow> string \<Rightarrow> string \<Rightarrow> int \<Rightarrow> string \<Rightarrow> snapshot \<times> bool" where
  "setBaselineService s target protocol port service =
     (case baselinePort s target protocol port of
        (_, False) \<Rightarrow> (s, False)
      | (p, True) \<Rightarrow>
          if ps_service p = service then (s, False)
          else (s\<lparr>sn_units := set_service_units target protocol port service (sn_units s)\<rparr>, True))"

definition baselineService :: "snapshot \<Rightarrow> string \<Rightarrow> string \<Rightarrow> int \<Rightarrow> string" where
  "baselineService s target protocol port = ps_service (fst (baselinePort s target protocol port))"

section \<open>Fingerprints\<close>

type_synonym fingerprints = "(string, value_count) gomap"

definition zero_count :: value_count where
  "zero_count = \<lparr>vc_value = [], vc_count = 0\<rparr>"

definition count_of :: "fingerprints \<Rightarrow> string \<Rightarrow> value_count" where
  "count_of m k = (case mget m k of None \<Rightarrow> zero_count | Some c \<Rightarrow> c)"

definition count_fingerprint :: "value_count \<Rightarrow> string \<Rightarrow> value_count" where
  "count_fingerprint candidate service =
     (if vc_value candidate = service then candidate\<lparr>vc_count := vc_count candidate + 1\<rparr>
      else \<lparr>vc_value = service, vc_count = 1\<rparr>)"

definition unit_ports :: "snapshot \<Rightarrow> (unit_obs \<times> port_state) list" where
  "unit_ports s = [(u, p). u \<leftarrow> sn_units s, p \<leftarrow> u_ports u]"

definition fingerprint_key_of :: "unit_obs \<times> port_state \<Rightarrow> string" where
  "fingerprint_key_of up = fingerprintKey (u_target (fst up)) (u_protocol (fst up)) (ps_port (snd up))"

definition candidate_step :: "unit_obs \<times> port_state \<Rightarrow> fingerprints \<Rightarrow> fingerprints" where
  "candidate_step up m =
     (if ps_service (snd up) = [] then m
      else mput (fingerprint_key_of up) (count_fingerprint (count_of m (fingerprint_key_of up)) (ps_service (snd up))) m)"

definition updateFingerprintCandidates :: "job_state \<Rightarrow> snapshot \<Rightarrow> job_state" where
  "updateFingerprintCandidates st s =
     (let seen = [fingerprint_key_of up. up \<leftarrow> unit_ports s, ps_service (snd up) \<noteq> []];
          counted = fold candidate_step (unit_ports s) (js_fingerprint_candidates st)
      in st\<lparr>js_fingerprint_candidates := mfilter (\<lambda>k. k \<in> set seen) counted\<rparr>)"

definition withStableFingerprints :: "snapshot \<Rightarrow> fingerprints \<Rightarrow> int \<Rightarrow> snapshot" where
  "withStableFingerprints s candidates required =
     s\<lparr>sn_units := map (\<lambda>u. u\<lparr>u_ports := map (\<lambda>p.
        let candidate = count_of candidates (fingerprintKey (u_target u) (u_protocol u) (ps_port p)) in
        if vc_count candidate < required \<or> vc_value candidate \<noteq> ps_service p then p\<lparr>ps_service := []\<rparr> else p)
        (u_ports u)\<rparr>) (sn_units s)\<rparr>"

definition fingerprintLearnableWithIndex :: "job_state \<Rightarrow> string \<Rightarrow> string \<Rightarrow> int \<Rightarrow> baseline_index \<Rightarrow> bool" where
  "fingerprintLearnableWithIndex st target protocol port index =
     (case js_baseline st of
        None \<Rightarrow> False
      | Some baseline \<Rightarrow>
          if \<not> allows (bi_scopes index) target protocol port True then False
          else (let (expected, ok) = index_baselinePort index baseline target protocol port;
                    key = fingerprintKey target protocol port
                in if \<not> ok \<or> ps_service expected \<noteq> [] then False
                   else \<not> mhas (js_incidents st) key \<and> \<not> mhas (js_suppressed st) key \<and>
                        (case mget (js_service_decision_required st) key of None \<Rightarrow> True | Some b \<Rightarrow> \<not> b)))"

definition fingerprintLearnable :: "job_state \<Rightarrow> string \<Rightarrow> string \<Rightarrow> int \<Rightarrow> bool" where
  "fingerprintLearnable st target protocol port =
     (case js_baseline st of None \<Rightarrow> False
      | Some baseline \<Rightarrow> fingerprintLearnableWithIndex st target protocol port (newBaselineIndex baseline))"

record learning =
  ln_state :: job_state
  ln_learning :: "string list"
  ln_seen :: "string list"

definition learn_step :: "int \<Rightarrow> baseline_index \<Rightarrow> unit_obs \<times> port_state \<Rightarrow> learning \<Rightarrow> learning" where
  "learn_step required index up l =
     (let st = ln_state l; u = fst up; port = snd up; key = fingerprint_key_of up in
      if ps_service port = [] \<or> \<not> fingerprintLearnableWithIndex st (u_target u) (u_protocol u) (ps_port port) index
      then l
      else let candidate = count_fingerprint (count_of (js_fingerprint_candidates st) key) (ps_service port) in
        if vc_count candidate \<ge> required
        then (let (baseline, changed) = (case js_baseline st of
                    None \<Rightarrow> (empty_snapshot, False)
                  | Some b \<Rightarrow> index_setBaselineService index b (u_target u) (u_protocol u) (ps_port port) (vc_value candidate))
              in l\<lparr>ln_state := st\<lparr>
                     js_baseline := (case js_baseline st of None \<Rightarrow> None | Some _ \<Rightarrow> Some baseline),
                     js_baseline_modified := (js_baseline_modified st \<or> changed),
                     js_fingerprint_candidates := mdel key (js_fingerprint_candidates st)\<rparr>,
                   ln_seen := ln_seen l @ [key]\<rparr>)
        else l\<lparr>ln_state := st\<lparr>js_fingerprint_candidates := mput key candidate (js_fingerprint_candidates st)\<rparr>,
               ln_learning := ln_learning l @ [key], ln_seen := ln_seen l @ [key]\<rparr>)"

definition learnMissingFingerprintsWithIndex ::
  "job_state \<Rightarrow> snapshot \<Rightarrow> int \<Rightarrow> baseline_index \<Rightarrow> job_state \<times> string list" where
  "learnMissingFingerprintsWithIndex st current required index =
     (case js_baseline st of
        None \<Rightarrow> (st, [])
      | Some _ \<Rightarrow>
          (let l = fold (learn_step required index) (unit_ports current) \<lparr>ln_state = st, ln_learning = [], ln_seen = []\<rparr>;
               st' = ln_state l
           in (st'\<lparr>js_fingerprint_candidates := mfilter (\<lambda>k. \<not> (hasPrefix k ''service|'' \<and> k \<notin> set (ln_seen l)))
                 (js_fingerprint_candidates st')\<rparr>, ln_learning l)))"

definition learnMissingFingerprints :: "job_state \<Rightarrow> snapshot \<Rightarrow> int \<Rightarrow> job_state \<times> string list" where
  "learnMissingFingerprints st current required =
     (case js_baseline st of None \<Rightarrow> (st, [])
      | Some b \<Rightarrow> learnMissingFingerprintsWithIndex st current required (newBaselineIndex b))"

section \<open>Port evidence\<close>

definition learned_evidence :: "string list \<Rightarrow> string list \<Rightarrow> unit_obs \<Rightarrow> port_state \<Rightarrow> port_state" where
  "learned_evidence baselineAnswer currentAnswer currentUnit port =
     (case mget (portMap (u_ports currentUnit)) (ps_port port) of
        None \<Rightarrow> port
      | Some observed \<Rightarrow>
          if ps_evidence port \<noteq> [] \<or> \<not> isPositivePortState (ps_state port) \<or> \<not> isPositivePortState (ps_state observed)
          then port
          else (let evidence = filter (\<lambda>a. a \<in> set baselineAnswer \<and> a \<in> set currentAnswer)
                      (canonicalAddressSet (ps_evidence observed))
                in if evidence = [] then port else port\<lparr>ps_evidence := sort evidence\<rparr>))"

definition learn_unit_evidence :: "snapshot \<Rightarrow> snapshot \<Rightarrow> pairs \<Rightarrow> unit_obs \<Rightarrow> unit_obs" where
  "learn_unit_evidence baseline current down u =
     (if \<not> isDNSComparisonTarget (u_target u) then u
      else case mget (unitMap current) (target_protocol_key (u_target u) (u_protocol u)) of
        None \<Rightarrow> u
      | Some currentUnit \<Rightarrow>
          (let baselineAnswer = canonicalAddressSet (dns_of baseline (u_target u));
               currentAnswer = canonicalAddressSet (dns_of current (u_target u))
           in if \<exists>a \<in> set currentAnswer. explicitlyDownForProtocol down (u_protocol u) a then u
              else u\<lparr>u_ports := map (learned_evidence baselineAnswer currentAnswer currentUnit) (u_ports u)\<rparr>))"

definition learnMissingPortEvidence :: "snapshot \<Rightarrow> snapshot \<Rightarrow> pairs \<Rightarrow> snapshot" where
  "learnMissingPortEvidence baseline current down =
     baseline\<lparr>sn_units := map (learn_unit_evidence baseline current down) (sn_units baseline)\<rparr>"

section \<open>The hash of a sample\<close>

definition exposure :: "unit_obs \<Rightarrow> port_state \<Rightarrow> string" where
  "exposure u p = u_target u @ nul # u_protocol u @ nul # itoa (ps_port p) @
     nul # joinWith '','' (sort (canonicalAddressSet (ps_evidence p)))"

definition addressSensitiveSnapshotHash :: "hasher \<Rightarrow> snapshot \<Rightarrow> string" where
  "addressSensitiveSnapshotHash sha s =
     (let hash = Snapshot_Hash sha s;
          exposures = [exposure u p. u \<leftarrow> sn_units s, isDNSComparisonTarget (u_target u), p \<leftarrow> u_ports u,
             isPositivePortState (ps_state p) \<and> ps_evidence p \<noteq> []]
      in if exposures = [] then hash else sha (ExposurePayload hash (sort exposures)))"

text \<open>The snapshot that aggregate mode hashes: nothing that depends on the answers of DNS names.\<close>

definition aggregate_snapshot :: "snapshot \<Rightarrow> snapshot" where
  "aggregate_snapshot s =
     (let dnsTargets = dnsTargetsInSnapshot s; dnsAddresses = dnsAddressesInSnapshot s in
      if dnsTargets = [] then s
      else (let stable = s\<lparr>sn_dns := map (\<lambda>t. (t, [])) (remdups dnsTargets),
              sn_units := map (\<lambda>u. if u_target u \<notin> set dnsTargets then u
                 else u\<lparr>u_addresses := [], u_ports := map (\<lambda>p. p\<lparr>ps_evidence := []\<rparr>) (u_ports u)\<rparr>) (sn_units s)\<rparr>
            in stable\<lparr>sn_host_states := filter (\<lambda>h. \<not> (hs_address h \<in> set dnsAddresses \<and>
                 \<not> snapshotHasNonDNSAddressScope stable (hs_address h))) (sn_host_states s)\<rparr>))"

definition snapshotHashForDNSMode :: "hasher \<Rightarrow> snapshot \<Rightarrow> string \<Rightarrow> string" where
  "snapshotHashForDNSMode sha s dnsMode =
     (if dnsMode \<noteq> DNSComparisonAggregate then addressSensitiveSnapshotHash sha s
      else Snapshot_Hash sha (Normalize (aggregate_snapshot s)))"

section \<open>The merge after a change of scope\<close>

text \<open>A port as the new scope sees it: not at all, without its service, or as it is.\<close>

definition scoped_port :: "scope_index \<Rightarrow> string \<Rightarrow> string \<Rightarrow> port_state \<Rightarrow> port_state option" where
  "scoped_port scopes target protocol p =
     (if \<not> allows scopes target protocol (ps_port p) False then None
      else if \<not> allows scopes target protocol (ps_port p) True then Some (p\<lparr>ps_service := []\<rparr>) else Some p)"

definition put_scoped :: "scope_index \<Rightarrow> string \<Rightarrow> string \<Rightarrow> port_state \<Rightarrow> (int, port_state) gomap \<Rightarrow> (int, port_state) gomap" where
  "put_scoped scopes target protocol p ports =
     (case scoped_port scopes target protocol p of None \<Rightarrow> ports | Some q \<Rightarrow> mput (ps_port q) q ports)"

definition put_old :: "scope_index \<Rightarrow> string \<Rightarrow> string \<Rightarrow> port_state \<Rightarrow> (int, port_state) gomap \<Rightarrow> (int, port_state) gomap" where
  "put_old scopes target protocol p0 ports =
     (case scoped_port scopes target protocol p0 of
        None \<Rightarrow> ports
      | Some p \<Rightarrow>
          (case mget ports (ps_port p) of
             None \<Rightarrow> mput (ps_port p) p ports
           | Some current \<Rightarrow>
               if ps_service current = [] \<and> ps_service p \<noteq> [] \<and> allows scopes target protocol (ps_port p) True
               then mput (ps_port p) (current\<lparr>ps_service := ps_service p\<rparr>) ports else ports))"

text \<open>The target and the protocol are the first two parts of the unit's key.\<close>

definition key_target :: "string \<Rightarrow> string" where
  "key_target key = splitOn nul key ! 0"

definition key_protocol :: "string \<Rightarrow> string" where
  "key_protocol key = splitOn nul key ! 1"

definition merge_unit :: "scope_index \<Rightarrow> unit_obs option \<Rightarrow> string \<Rightarrow> unit_obs \<Rightarrow> unit_obs" where
  "merge_unit scopes oldUnit key cu =
     (let target = key_target key; protocol = key_protocol key;
          fresh = fold (put_scoped scopes target protocol) (u_ports cu) [];
          ports = (case oldUnit of None \<Rightarrow> fresh | Some ou \<Rightarrow> fold (put_old scopes target protocol) (u_ports ou) fresh)
      in cu\<lparr>u_ports := map snd ports\<rparr>)"

text \<open>A unit that the candidate omits although its target and protocol are in the new scope.\<close>

definition keep_old_unit :: "snapshot \<Rightarrow> scope_index \<Rightarrow> string \<Rightarrow> unit_obs \<Rightarrow> unit_obs option" where
  "keep_old_unit candidate scopes key ou =
     (let target = key_target key; protocol = key_protocol key in
      if \<not> (\<exists>c \<in> set (sn_scopes candidate). sc_target c = target) \<or>
         \<not> (\<exists>c \<in> set (sn_scopes candidate). sc_target c = target \<and> toLower (sc_protocol c) = toLower protocol)
      then None
      else Some (ou\<lparr>u_ports := List.map_filter (scoped_port scopes target protocol) (u_ports ou),
        u_addresses := (if dns_of candidate target \<noteq> [] then dns_of candidate target else u_addresses ou)\<rparr>))"

definition mergeForScopeChange :: "snapshot \<Rightarrow> snapshot \<Rightarrow> snapshot" where
  "mergeForScopeChange old candidate =
     (let oldUnits = unitMap old; candidateUnits = unitMap candidate; scopes = newScopeIndex candidate;
          merged = map (\<lambda>(key, cu). merge_unit scopes (mget oldUnits key) key cu) candidateUnits;
          kept = List.map_filter (\<lambda>(key, ou). if mhas candidateUnits key then None else keep_old_unit candidate scopes key ou) oldUnits
      in Normalize (candidate\<lparr>sn_units := merged @ kept\<rparr>))"

section \<open>Candidates\<close>

definition BaselineStallThreshold :: int where
  "BaselineStallThreshold = 3"

definition scan_event :: "scan \<Rightarrow> string \<Rightarrow> string \<Rightarrow> event" where
  "scan_event scan ty message = \<lparr>e_type = ty, e_job = s_job scan, e_scan_id = s_id scan, e_message = message,
     e_changes = [], e_created_at = s_finished_at scan\<rparr>"

text \<open>The state after the candidate counted this sample.\<close>

definition count_candidate :: "hasher \<Rightarrow> job_state \<Rightarrow> scan \<Rightarrow> string \<Rightarrow> job_state" where
  "count_candidate sha st0 scan dnsMode =
     (let st = updateFingerprintCandidates st0 (s_snapshot scan);
          hash = snapshotHashForDNSMode sha (s_snapshot scan) dnsMode
      in st\<lparr>js_candidate := Some (s_snapshot scan), js_candidate_hash := hash,
            js_candidate_count := (if js_candidate_hash st = hash then js_candidate_count st + 1 else 1),
            js_candidate_attempts := js_candidate_attempts st + 1\<rparr>)"

definition accept_candidate :: "job_state \<Rightarrow> scan \<Rightarrow> int \<Rightarrow> bool \<Rightarrow> job_state" where
  "accept_candidate st scan required merge =
     (let stable = withStableFingerprints (s_snapshot scan) (js_fingerprint_candidates st) required
      in st\<lparr>js_baseline := Some (case js_baseline st of
              Some b \<Rightarrow> if merge then mergeForScopeChange b stable else stable | None \<Rightarrow> stable),
            js_baseline_scan_id := s_id scan, js_baseline_config_hash := s_config_hash scan,
            js_baseline_modified := False, js_candidate := None, js_candidate_hash := [],
            js_candidate_count := 0, js_candidate_attempts := 0, js_incomplete_candidate_attempts := 0,
            js_service_decision_required := []\<rparr>)"

definition advanceCandidateWithDNSMode ::
  "hasher \<Rightarrow> job_state \<Rightarrow> scan \<Rightarrow> int \<Rightarrow> bool \<Rightarrow> string \<Rightarrow> job_state \<times> event list" where
  "advanceCandidateWithDNSMode sha st0 scan required merge dnsMode =
     (let st = count_candidate sha st0 scan dnsMode in
      if js_candidate_count st \<ge> required
      then (accept_candidate st scan required merge,
            [if merge then scan_event scan ''baseline-updated'' ''Baseline updated for changed scan scope''
             else scan_event scan ''baseline-complete'' ''Baseline established''])
      else (st, if js_candidate_attempts st = max (required * 3) BaselineStallThreshold
                then [scan_event scan ''baseline-stalled''
                  (''Baseline has not converged after '' @ itoa (js_candidate_attempts st) @ '' scans'')]
                else []))"

end
