(* ===== verification/Engine.thy ===== *)
theory Engine
  imports Baseline Observe
begin

text \<open>
  \<open>internal/engine/engine.go\<close>: what one scan does to the state of its job. A successful scan
  goes through \<open>processSuccess\<close>, which learns, compares or advances the baseline; a scan with
  missing coverage through \<open>processIncompleteSuccess\<close>; any other through \<open>processFailure\<close>.
  \<open>finalizeManagedScan\<close> is the function that the engine runs inside the store's transaction.
  The Go code updates \<open>*state\<close> in place and never returns an error here, so a definition
  returns the new state, the events and the changes.

  Two parameters stand for code that is not modelled: \<open>sha\<close> hashes a payload, and \<open>san\<close> is
  \<open>sanitizeNotificationText\<close>, which replaces characters for chat providers.
\<close>

section \<open>Reminders\<close>

definition EveryScan :: string where "EveryScan = ''every_scan''"
definition Hourly :: string where "Hourly = ''hourly''"
definition SixHours :: string where "SixHours = ''every_6_hours''"
definition Daily :: string where "Daily = ''daily''"

record reminder_settings =
  rs_enabled :: bool
  rs_cadence :: string

definition hour :: int where
  "hour = 3600 * 10 ^ 9"

definition incidentReminderDue :: "int option \<Rightarrow> string \<Rightarrow> int \<Rightarrow> bool" where
  "incidentReminderDue lst cadence now =
     (case lst of
        None \<Rightarrow> True
      | Some l \<Rightarrow>
          if cadence = EveryScan then True
          else if cadence = Hourly then \<not> now < l + hour
          else if cadence = SixHours then \<not> now < l + 6 * hour
          else if cadence = Daily then \<not> now < l + 24 * hour
          else True)"

definition persistentIncidentReminderMessage :: "int \<Rightarrow> string" where
  "persistentIncidentReminderMessage n =
     ''Reminder: '' @ baselineChangeCount n @ '' '' @ (if n = 1 then ''remains'' else ''remain'') @ '' open''"

section \<open>Total loss\<close>

definition totalLossConfirmationScans :: int where
  "totalLossConfirmationScans = 2"

definition clearTotalLossCandidate :: "job_state \<Rightarrow> job_state" where
  "clearTotalLossCandidate st = st\<lparr>js_total_loss_candidate_hash := [], js_total_loss_candidate_count := 0\<rparr>"

definition clearUnconfirmedTotalLoss :: "job_state \<Rightarrow> job_state" where
  "clearUnconfirmedTotalLoss st =
     (if js_total_loss_candidate_count st < totalLossConfirmationScans then clearTotalLossCandidate st else st)"

definition clearPendingTotalLoss :: "job_state \<Rightarrow> job_state" where
  "clearPendingTotalLoss st = st\<lparr>js_pending := filter (\<lambda>(_, p). c_new (p_change p) \<noteq> ''not-open'') (js_pending st)\<rparr>"

definition totalLossIdentity :: "hasher \<Rightarrow> job_state \<Rightarrow> scan \<Rightarrow> string" where
  "totalLossIdentity sha st scan =
     sha (TotalLossPayload (js_baseline_scan_id st) (s_config_hash scan)
       (Snapshot_Hash sha (empty_snapshot\<lparr>sn_scopes := sn_scopes (s_snapshot scan)\<rparr>)))"

definition guardTotalLoss :: "hasher \<Rightarrow> job_state \<Rightarrow> snapshot \<Rightarrow> scan \<Rightarrow> job_state \<times> bool \<times> event list" where
  "guardTotalLoss sha st baseline scan =
     (let baselinePositive = positivePortCount baseline; currentPositive = positivePortCount (s_snapshot scan) in
      if baselinePositive = 0 \<or> currentPositive \<noteq> 0 \<or>
         (js_baseline_config_hash st \<noteq> [] \<and> s_config_hash scan \<noteq> [] \<and> js_baseline_config_hash st \<noteq> s_config_hash scan)
      then (clearTotalLossCandidate st, False, [])
      else let identity = totalLossIdentity sha st scan;
               st' = (if js_total_loss_candidate_hash st \<noteq> identity
                      then st\<lparr>js_total_loss_candidate_hash := identity, js_total_loss_candidate_count := 1\<rparr>
                      else if js_total_loss_candidate_count st < totalLossConfirmationScans
                      then st\<lparr>js_total_loss_candidate_count := js_total_loss_candidate_count st + 1\<rparr> else st)
        in if js_total_loss_candidate_count st' < totalLossConfirmationScans
           then (st', True, [scan_event scan ''scan-anomaly''
             (''Scan returned zero positive ports while the baseline contains '' @ itoa baselinePositive @
              ''; awaiting confirmation'')])
           else (st', False, []))"

text \<open>The addresses behind one positive port of the baseline are all known and all down.\<close>

definition port_explained_down :: "snapshot \<Rightarrow> pairs \<Rightarrow> unit_obs \<times> port_state \<Rightarrow> bool" where
  "port_explained_down baseline down up =
     (let addresses = portAddressesOf baseline (fst up) (snd up) in
      addresses \<noteq> [] \<and> (\<forall>a \<in> set addresses. explicitlyDownForProtocol down (u_protocol (fst up)) (trimSpace a)))"

definition baselineSurfaceIsExplicitlyDownForJob :: "snapshot \<Rightarrow> snapshot \<Rightarrow> job \<Rightarrow> bool" where
  "baselineSurfaceIsExplicitlyDownForJob baseline current job =
     (let down = completedDownAddressesByProtocolForJob baseline current job in
      if down = [] then False
      else let positive = [up. up \<leftarrow> unit_ports baseline, isPositivePortState (ps_state (snd up))] in
        (\<forall>up \<in> set positive. port_explained_down baseline down up) \<and> positive \<noteq> [])"

section \<open>Incomplete scans\<close>

definition incomplete_event :: "scan \<Rightarrow> event" where
  "incomplete_event scan = scan_event scan ''scan-incomplete'' (incompleteScanError (s_snapshot scan))"

text \<open>Which changes an incomplete scan may report, and which service changes it defers.\<close>

definition deferred_change :: "job_state \<Rightarrow> baseline_index \<Rightarrow> change \<Rightarrow> bool" where
  "deferred_change st index c =
     (c_kind c = ''service'' \<and> fingerprintLearnableWithIndex st (c_target c) (c_protocol c) (c_port c) index)"

definition comparable_change :: "snapshot \<Rightarrow> pairs \<Rightarrow> protection \<Rightarrow> change \<Rightarrow> bool" where
  "comparable_change current coverage pr c =
     (if incompleteChange c pr then incompletePositiveAddition c current coverage else True)"

definition compareIncomplete ::
  "job_state \<Rightarrow> snapshot \<Rightarrow> job \<Rightarrow> scan \<Rightarrow> pairs \<Rightarrow> protection \<Rightarrow> job_state \<times> event list \<times> change list" where
  "compareIncomplete st0 baseline job scan coverage pr =
     (let current = s_snapshot scan;
          st = clearTotalLossCandidate st0;
          index = newBaselineIndex baseline;
          scopeChanged = (js_baseline_config_hash st \<noteq> s_config_hash scan);
          indexes = (if scopeChanged then Some \<lparr>lk_old = bi_scopes index, lk_current = newScopeIndex current\<rparr> else None);
          all = diffForJobWithScopeLookups baseline current scopeChanged job indexes;
          changes = filter (\<lambda>c. \<not> deferred_change st index c \<and> comparable_change current coverage pr c) all;
          deferred = map c_key (filter (deferred_change st index) all);
          seen = observe st job \<lparr>sv_snapshot = current, sv_changes = changes, sv_scope_changed = scopeChanged,
            sv_hosts_only = False, sv_incomplete = Some pr, sv_deferred = deferred\<rparr>;
          (st', events) = applyObservedChanges st (jb_name job) (s_id scan) changes (jb_confirmations job) (s_finished_at scan) seen
      in (st', events, changes))"

definition processIncompleteSuccess :: "job_state \<Rightarrow> job \<Rightarrow> scan \<Rightarrow> job_state \<times> event list \<times> change list" where
  "processIncompleteSuccess st0 job scan =
     (let coverage = incompleteProtocolCoverage (s_snapshot scan);
          pr = incompleteTargets (js_baseline st0) (s_snapshot scan) coverage
      in case js_baseline st0 of
           None \<Rightarrow>
             (let attempts = js_incomplete_candidate_attempts st0 + 1 in
              (st0\<lparr>js_incomplete_candidate_attempts := attempts\<rparr>,
               incomplete_event scan #
                 (if attempts = BaselineStallThreshold
                  then [scan_event scan ''baseline-stalled''
                    (''Baseline learning is stalled after '' @ itoa attempts @ '' incomplete scans'')] else []),
               []))
         | Some baseline \<Rightarrow>
             if positivePortCount (s_snapshot scan) = 0 \<and> sn_host_states (s_snapshot scan) = []
             then (clearPendingTotalLoss (clearUnconfirmedTotalLoss st0), [incomplete_event scan], [])
             else (let (st', events, changes) = compareIncomplete st0 baseline job scan coverage pr
                   in (st', events @ [incomplete_event scan], changes)))"

section \<open>Complete scans\<close>

text \<open>The guard waits for confirmation: only transitions of host states are compared.\<close>

definition compareHostsOnly ::
  "job_state \<Rightarrow> snapshot \<Rightarrow> job \<Rightarrow> scan \<Rightarrow> bool \<Rightarrow> event list \<Rightarrow> job_state \<times> event list \<times> change list" where
  "compareHostsOnly st baseline job scan scopeChanged anomaly =
     (let current = s_snapshot scan;
          hostChanges = filterDNSAggregateChanges baseline current (hostStateChanges baseline current scopeChanged) job;
          seen = observe st job \<lparr>sv_snapshot = current, sv_changes = hostChanges, sv_scope_changed = scopeChanged,
            sv_hosts_only = True, sv_incomplete = None, sv_deferred = []\<rparr>
      in if hostChanges \<noteq> []
         then (let (st', events) = applyObservedChanges st (jb_name job) (s_id scan) hostChanges (jb_confirmations job)
                     (s_finished_at scan) seen
               in (st', anomaly @ events, hostChanges))
         else (retireFrom seen st, anomaly, []))"

text \<open>The open incidents that this scan reports again, for a reminder.\<close>

definition reminded :: "(string, incident) gomap \<Rightarrow> job_state \<Rightarrow> int \<Rightarrow> change list \<Rightarrow> change list" where
  "reminded previous st now changes =
     sort_key c_key [i_change cur. c \<leftarrow> changes,
       old \<leftarrow> (case mget previous (c_key c) of None \<Rightarrow> [] | Some i \<Rightarrow> [i]),
       cur \<leftarrow> (case mget (js_incidents st) (c_key c) of None \<Rightarrow> [] | Some i \<Rightarrow> [i]),
       c_new (i_change old) = c_new c \<and> c_new (i_change cur) = c_new c \<and> i_last_seen_at cur = now]"

definition remind :: "job_state \<Rightarrow> (string, incident) gomap \<Rightarrow> job \<Rightarrow> scan \<Rightarrow> change list \<Rightarrow> job_state \<times> event list" where
  "remind st previous job scan changes =
     (let now = s_finished_at scan; rs = reminded previous st now changes in
      if rs = [] then (st, [])
      else (st\<lparr>js_last_incident_reminder_at := Some now\<rparr>,
            [\<lparr>e_type = ''changes-reminder'', e_job = jb_name job, e_scan_id = s_id scan,
              e_message = persistentIncidentReminderMessage (int (length rs)), e_changes = rs, e_created_at = now\<rparr>]))"

text \<open>Learning before the comparison, and the changes without those that are being learned.\<close>

definition learnAndCompare ::
  "job_state \<Rightarrow> snapshot \<Rightarrow> job \<Rightarrow> scan \<Rightarrow> bool \<Rightarrow> job_state \<times> change list" where
  "learnAndCompare st0 baseline job scan scopeChanged =
     (let current = s_snapshot scan;
          index = newBaselineIndex baseline;
          indexes = (if scopeChanged then Some \<lparr>lk_old = bi_scopes index, lk_current = newScopeIndex current\<rparr> else None);
          (st, learning0) = (if scopeChanged then (st0, [])
             else learnMissingFingerprintsWithIndex st0 current (jb_samples job) index);
          b = (case js_baseline st of None \<Rightarrow> baseline | Some b \<Rightarrow> b);
          all = diffForJobWithScopeLookups b current scopeChanged job indexes;
          learning = (if scopeChanged then map c_key (filter (deferred_change st index) all) else learning0)
      in (st, filter (\<lambda>c. \<not> (c_kind c = ''service'' \<and> c_key c \<in> set learning)) all))"

definition compareComplete ::
  "hasher \<Rightarrow> job_state \<Rightarrow> snapshot \<Rightarrow> job \<Rightarrow> scan \<Rightarrow> bool \<Rightarrow> bool \<Rightarrow> string \<Rightarrow> job_state \<times> event list \<times> change list" where
  "compareComplete sha st0 baseline job scan scopeChanged remindersEnabled cadence =
     (let current = s_snapshot scan; now = s_finished_at scan;
          (st1, changes) = learnAndCompare st0 baseline job scan scopeChanged;
          b = (case js_baseline st1 of None \<Rightarrow> baseline | Some b \<Rightarrow> b);
          seen = observe st1 job \<lparr>sv_snapshot = current, sv_changes = changes, sv_scope_changed = scopeChanged,
            sv_hosts_only = False, sv_incomplete = None, sv_deferred = []\<rparr>;
          st2 = (if \<not> scopeChanged \<and> \<not> aggregates job
                 then st1\<lparr>js_baseline := Some (learnMissingPortEvidence b current (completedDownAddressesByProtocolForJob b current job))\<rparr>
                 else st1);
          due = (remindersEnabled \<and> incidentReminderDue (js_last_incident_reminder_at st2) cadence now);
          (st3, events) = applyObservedChanges st2 (jb_name job) (s_id scan) changes (jb_confirmations job) now seen;
          (st4, reminder) = (if due then remind st3 (js_incidents st2) job scan changes else (st3, []));
          (st5, candidateEvents) = (if scopeChanged
             then advanceCandidateWithDNSMode sha st4 scan (jb_samples job) True (jb_dns_mode job) else (st4, []))
      in (st5, events @ reminder @ candidateEvents, changes))"

text \<open>A stored baseline of an older spelling of the same ports takes the canonical hash.\<close>

definition migrate_hash :: "job_state \<Rightarrow> job \<Rightarrow> scan \<Rightarrow> job_state" where
  "migrate_hash st job scan =
     (if js_baseline st \<noteq> None \<and> js_baseline_config_hash st \<noteq> [] \<and> jb_legacy_security_hash job \<noteq> [] \<and>
         js_baseline_config_hash st = jb_legacy_security_hash job \<and> s_config_hash scan = jb_security_hash job
      then st\<lparr>js_baseline_config_hash := s_config_hash scan\<rparr> else st)"

definition processComplete ::
  "hasher \<Rightarrow> job_state \<Rightarrow> job \<Rightarrow> scan \<Rightarrow> bool \<Rightarrow> string \<Rightarrow> job_state \<times> event list \<times> change list" where
  "processComplete sha st0 job scan remindersEnabled cadence =
     (let st1 = st0\<lparr>js_incomplete_candidate_attempts := 0, js_consecutive_failures := 0, js_last_failure_alert := 0\<rparr> in
      case js_baseline st1 of
        None \<Rightarrow>
          (let (st', events) = advanceCandidateWithDNSMode sha (clearTotalLossCandidate st1) scan (jb_samples job) False (jb_dns_mode job)
           in (st', events, []))
      | Some baseline \<Rightarrow>
          (let scopeChanged = (js_baseline_config_hash st1 \<noteq> s_config_hash scan);
               (st2, waiting, anomaly) =
                 (if baselineSurfaceIsExplicitlyDownForJob baseline (s_snapshot scan) job
                  then (clearTotalLossCandidate st1, False, []) else guardTotalLoss sha st1 baseline scan)
           in if waiting then compareHostsOnly st2 baseline job scan scopeChanged anomaly
              else compareComplete sha st2 baseline job scan scopeChanged remindersEnabled cadence))"

definition processSuccessWithReminderSettings ::
  "hasher \<Rightarrow> job_state \<Rightarrow> job \<Rightarrow> scan \<Rightarrow> reminder_settings \<Rightarrow> job_state \<times> event list \<times> change list" where
  "processSuccessWithReminderSettings sha st0 job scan0 settings =
     (let scan = scan0\<lparr>s_snapshot := completeHostDiscoveryStates (s_snapshot scan0)\<rparr>;
          remindersEnabled = (rs_enabled settings \<and> s_status scan = ''success'');
          st = migrate_hash st0 job scan
      in if snapshotHasUnreachableHost (s_snapshot scan) then processIncompleteSuccess st job scan
         else processComplete sha st job scan remindersEnabled (rs_cadence settings))"

definition processSuccess :: "hasher \<Rightarrow> job_state \<Rightarrow> job \<Rightarrow> scan \<Rightarrow> job_state \<times> event list" where
  "processSuccess sha st job scan =
     (let (st', events, _) = processSuccessWithReminderSettings sha st job scan \<lparr>rs_enabled = False, rs_cadence = EveryScan\<rparr>
      in (st', events))"

section \<open>Failures\<close>

definition replace_underscores :: "string \<Rightarrow> string" where
  "replace_underscores s = map (\<lambda>c. if c = CHR ''_'' then CHR '' '' else c) s"

definition scanOutcomeMessage :: "(string \<Rightarrow> string) \<Rightarrow> scan \<Rightarrow> string" where
  "scanOutcomeMessage san scan =
     (let label = trimSpace (s_status scan);
          label' = (if label = [] then ''failed''
            else if label = ''canceled'' then ''canceled''
            else if label = ''timed_out'' \<or> label = ''timeout'' \<or> label = ''timed-out'' then ''timed out''
            else replace_underscores label);
          reason = trimSpace (s_error scan)
      in ''Scan '' @ label' @ (if reason \<noteq> [] then '': '' @ san reason else []))"

text \<open>
  \<open>strings.ToUpper\<close> of the first byte: an ASCII letter; a byte of a longer character on its
  own is invalid UTF-8, for which Go writes the replacement character.
\<close>

definition upper_byte :: "char \<Rightarrow> string" where
  "upper_byte c = (let n = of_char c :: nat in
     if n \<ge> 128 then [CHR 0xEF, CHR 0xBF, CHR 0xBD]
     else if 97 \<le> n \<and> n \<le> 122 then [char_of (n - 32)] else [c])"

definition interrupted_message :: "(string \<Rightarrow> string) \<Rightarrow> scan \<Rightarrow> string" where
  "interrupted_message san scan =
     (case trimSpace (s_error scan) of
        [] \<Rightarrow> ''Scan interrupted''
      | c # cs \<Rightarrow> san (upper_byte c @ cs))"

definition failure_event :: "string \<Rightarrow> scan \<Rightarrow> string \<Rightarrow> string \<Rightarrow> event" where
  "failure_event job scan ty message = \<lparr>e_type = ty, e_job = job, e_scan_id = s_id scan, e_message = message,
     e_changes = [], e_created_at = s_finished_at scan\<rparr>"

definition processFailure :: "(string \<Rightarrow> string) \<Rightarrow> job_state \<Rightarrow> string \<Rightarrow> scan \<Rightarrow> job_state \<times> event list" where
  "processFailure san st0 job scan =
     (let st = clearUnconfirmedTotalLoss st0 in
      if s_interrupted scan then (st, [failure_event job scan ''scan-interrupted'' (interrupted_message san scan)])
      else if s_resumable scan \<and> s_cycle_status scan = ''paused''
      then (if s_status scan = ''canceled'' then (st, [failure_event job scan ''scan-canceled'' (scanOutcomeMessage san scan)])
            else (st, [failure_event job scan ''scan-paused'' (scanOutcomeMessage san scan)]))
      else if s_status scan = ''canceled'' then (st, [failure_event job scan ''scan-canceled'' (scanOutcomeMessage san scan)])
      else (st\<lparr>js_consecutive_failures := js_consecutive_failures st + 1,
               js_last_failure_alert := js_consecutive_failures st + 1\<rparr>,
            [failure_event job scan ''scan-failure'' (scanOutcomeMessage san scan)]))"

section \<open>The transaction of a managed scan\<close>

definition comparisonOutcome :: "bool \<Rightarrow> job_state \<Rightarrow> scan \<Rightarrow> string" where
  "comparisonOutcome hadBaseline st scan =
     (if hadBaseline then ''compared''
      else if s_status scan = ''success'' \<and> js_baseline st \<noteq> None \<and> js_baseline_scan_id st = s_id scan
      then ''baseline_established'' else ''baseline_sample'')"

text \<open>The branch of a successful or incomplete scan.\<close>

definition finalizeCompared ::
  "hasher \<Rightarrow> job_state \<Rightarrow> job \<Rightarrow> scan \<Rightarrow> reminder_settings \<Rightarrow> job_state \<times> scan \<times> event list" where
  "finalizeCompared sha st job scan settings =
     (let hadBaseline = (js_baseline st \<noteq> None);
          scan1 = (if hadBaseline then scan\<lparr>s_baseline_scan_id := js_baseline_scan_id st,
                     s_baseline_config_hash := js_baseline_config_hash st\<rparr> else scan);
          (st', events, changes) = processSuccessWithReminderSettings sha st job scan1 settings;
          scan2 = scan1\<lparr>s_changes := changes\<rparr>;
          scan3 = (if s_status scan2 = ''success'' \<and> s_baseline_scan_id scan2 = [] \<and> js_baseline_scan_id st' = s_id scan2
                   then scan2\<lparr>s_baseline_scan_id := js_baseline_scan_id st', s_baseline_config_hash := js_baseline_config_hash st'\<rparr>
                   else scan2);
          scan4 = scan3\<lparr>s_comparison := comparisonOutcome hadBaseline st' scan3\<rparr>
      in (st', scan4, events @
            (if s_resumable scan4 \<and> s_cycle_attempt scan4 > 1
             then [scan_event scan ''scan-recovered'' ''Resumable scan cycle completed after earlier paused attempts'']
             else [])))"

definition finalizeManagedScan ::
  "hasher \<Rightarrow> (string \<Rightarrow> string) \<Rightarrow> job_state \<Rightarrow> job \<Rightarrow> scan \<Rightarrow> reminder_settings \<Rightarrow> job_state \<times> scan \<times> event list" where
  "finalizeManagedScan sha san st0 job scan0 settings =
     (let st = st0\<lparr>js_budget_skip_alert_key := []\<rparr>;
          scan = (if s_status scan0 = ''success'' then fst (MarkIncompleteScan scan0) else scan0)
      in if s_status scan = ''success'' \<or> s_status scan = ''incomplete'' then finalizeCompared sha st job scan settings
         else (let (st', events) = processFailure san st (jb_name job) scan
               in (st', scan\<lparr>s_comparison := ''not_compared''\<rparr>, events)))"

end
