(* ===== verification/EngineFacts.thy ===== *)
theory EngineFacts
  imports Engine BaselineFacts
begin

text \<open>
  Facts about the transitions of \<open>Engine\<close>: which part of the job's state each of them may
  touch, the invariant of the state over every sequence of scans, how samples become a
  baseline, and when an empty scan is believed.
\<close>

section \<open>The frame of the finding tracker\<close>

text \<open>Two states that differ in the tracked findings only.\<close>

definition same_besides_findings :: "job_state \<Rightarrow> job_state \<Rightarrow> bool" where
  "same_besides_findings st st' \<longleftrightarrow> st' = st\<lparr>js_pending := js_pending st', js_incidents := js_incidents st',
     js_suppressed := js_suppressed st', js_suppressed_changes := js_suppressed_changes st'\<rparr>"

lemma surjective_pairing3: "x = (fst x, fst (snd x), snd (snd x))"
  by simp

lemma same_besides_findings_refl [simp]: "same_besides_findings st st"
  by (simp add: same_besides_findings_def)

lemma same_besides_fields:
  assumes "same_besides_findings st st'"
  shows "js_baseline st' = js_baseline st" "js_baseline_scan_id st' = js_baseline_scan_id st"
    "js_baseline_config_hash st' = js_baseline_config_hash st" "js_baseline_modified st' = js_baseline_modified st"
    "js_candidate st' = js_candidate st" "js_candidate_hash st' = js_candidate_hash st"
    "js_candidate_count st' = js_candidate_count st" "js_candidate_attempts st' = js_candidate_attempts st"
    "js_incomplete_candidate_attempts st' = js_incomplete_candidate_attempts st"
    "js_fingerprint_candidates st' = js_fingerprint_candidates st"
    "js_service_decision_required st' = js_service_decision_required st"
    "js_total_loss_candidate_hash st' = js_total_loss_candidate_hash st"
    "js_total_loss_candidate_count st' = js_total_loss_candidate_count st"
    "js_consecutive_failures st' = js_consecutive_failures st" "js_last_failure_alert st' = js_last_failure_alert st"
    "js_last_incident_reminder_at st' = js_last_incident_reminder_at st"
    "js_budget_skip_alert_key st' = js_budget_skip_alert_key st"
  by (subst assms [unfolded same_besides_findings_def], simp)+

lemma retireFrom_frame: "same_besides_findings st (retireFrom seen st)"
  by (simp add: same_besides_findings_def retireFrom_def Let_def)

lemma applyObservedChanges_frame:
  assumes "applyObservedChanges st job scanID current required now seen = (st', evs)"
  shows "same_besides_findings st st'"
  using assms retireFrom_frame [of st seen]
  by (auto simp: same_besides_findings_def applyObservedChanges_def applyObserved_def retireFrom_def Let_def split_beta)

lemmas apply_fields = same_besides_fields [OF applyObservedChanges_frame]
lemmas retire_fields = same_besides_fields [OF retireFrom_frame]

text \<open>What the engine learns: everything that later comparisons expect.\<close>

definition expectations :: "job_state \<Rightarrow> snapshot option \<times> string \<times> bool \<times> snapshot option \<times> string \<times> int \<times> int \<times>
    fingerprints \<times> (string, bool) gomap" where
  "expectations st = (js_baseline st, js_baseline_scan_id st, js_baseline_modified st, js_candidate st,
     js_candidate_hash st, js_candidate_count st, js_candidate_attempts st, js_fingerprint_candidates st,
     js_service_decision_required st)"

lemma expectations_frame: "same_besides_findings st st' \<Longrightarrow> expectations st' = expectations st"
  by (simp add: expectations_def same_besides_fields)

lemma clear_total_loss_fields [simp]:
  "expectations (clearTotalLossCandidate st) = expectations st"
  "expectations (clearUnconfirmedTotalLoss st) = expectations st"
  "expectations (clearPendingTotalLoss st) = expectations st"
  "finding_of (clearTotalLossCandidate st) = finding_of st"
  "finding_of (clearUnconfirmedTotalLoss st) = finding_of st"
  "js_baseline (clearTotalLossCandidate st) = js_baseline st"
  "js_baseline (clearUnconfirmedTotalLoss st) = js_baseline st"
  "js_consecutive_failures (clearTotalLossCandidate st) = js_consecutive_failures st"
  "js_consecutive_failures (clearUnconfirmedTotalLoss st) = js_consecutive_failures st"
  "js_consecutive_failures (clearPendingTotalLoss st) = js_consecutive_failures st"
  "js_baseline_config_hash (clearTotalLossCandidate st) = js_baseline_config_hash st"
  "js_baseline_config_hash (clearUnconfirmedTotalLoss st) = js_baseline_config_hash st"
  "js_baseline_config_hash (clearPendingTotalLoss st) = js_baseline_config_hash st"
  by (auto simp: clearUnconfirmedTotalLoss_def clearPendingTotalLoss_def clearTotalLossCandidate_def expectations_def
      finding_of_def fun_eq_iff)

section \<open>Failed scans\<close>

definition real_failure :: "scan \<Rightarrow> bool" where
  "real_failure scan \<longleftrightarrow> \<not> s_interrupted scan \<and> \<not> (s_resumable scan \<and> s_cycle_status scan = ''paused'') \<and>
     s_status scan \<noteq> ''canceled''"

lemma expectations_fields [simp]:
  "expectations (st\<lparr>js_consecutive_failures := n\<rparr>) = expectations st"
  "expectations (st\<lparr>js_last_failure_alert := n\<rparr>) = expectations st"
  "expectations (st\<lparr>js_budget_skip_alert_key := s\<rparr>) = expectations st"
  "expectations (st\<lparr>js_incomplete_candidate_attempts := n\<rparr>) = expectations st"
  "expectations (st\<lparr>js_baseline_config_hash := s\<rparr>) = expectations st"
  by (simp_all add: expectations_def)

lemma finding_of_fields [simp]:
  "finding_of (st\<lparr>js_consecutive_failures := n\<rparr>) = finding_of st"
  "finding_of (st\<lparr>js_last_failure_alert := n\<rparr>) = finding_of st"
  "finding_of (st\<lparr>js_budget_skip_alert_key := s\<rparr>) = finding_of st"
  "finding_of (st\<lparr>js_incomplete_candidate_attempts := n\<rparr>) = finding_of st"
  "finding_of (st\<lparr>js_baseline_config_hash := s\<rparr>) = finding_of st"
  by (simp_all add: finding_of_def fun_eq_iff)

lemma processFailure_cases:
  assumes "processFailure san st job scan = (st', evs)"
  shows "expectations st' = expectations st" "finding_of st' = finding_of st"
    "js_consecutive_failures st' = js_consecutive_failures st + (if real_failure scan then 1 else 0)"
    "js_baseline_config_hash st' = js_baseline_config_hash st"
    "\<exists>e. evs = [e] \<and> e_changes e = [] \<and> e_scan_id e = s_id scan \<and>
       (e_type e = ''scan-failure'' \<longleftrightarrow> real_failure scan)"
  using assms
  by (auto simp: processFailure_def real_failure_def failure_event_def Let_def split: if_splits)

text \<open>
  C7: A scan that ended neither with success nor as incomplete changes no finding and nothing
  that the job expects; it is recorded as not compared and gives one event. The counter of
  failures counts it exactly when it was a failure, not a pause, a cancellation or an
  interruption by a restart.
\<close>

theorem failed_scan_changes_no_expectation:
  assumes "s_status scan \<noteq> ''success''" "s_status scan \<noteq> ''incomplete''"
    and run: "finalizeManagedScan sha san st job scan settings = (st', scan', evs)"
  shows "expectations st' = expectations st \<and> finding_of st' = finding_of st \<and>
    js_baseline_config_hash st' = js_baseline_config_hash st \<and>
    js_consecutive_failures st' = js_consecutive_failures st + (if real_failure scan then 1 else 0) \<and>
    scan' = scan\<lparr>s_comparison := ''not_compared''\<rparr> \<and>
    (\<exists>e. evs = [e] \<and> e_changes e = [] \<and> (e_type e = ''scan-failure'' \<longleftrightarrow> real_failure scan))"
proof -
  obtain st2 e2 where f: "processFailure san (st\<lparr>js_budget_skip_alert_key := []\<rparr>) (jb_name job) scan = (st2, e2)"
    by (cases "processFailure san (st\<lparr>js_budget_skip_alert_key := []\<rparr>) (jb_name job) scan")
  then have "st' = st2" "evs = e2" "scan' = scan\<lparr>s_comparison := ''not_compared''\<rparr>"
    using assms by (simp_all add: finalizeManagedScan_def Let_def)
  then show ?thesis using processFailure_cases [OF f] by auto
qed


text \<open>Scans for the examples below.\<close>

definition example_managed_scan :: "string \<Rightarrow> snapshot \<Rightarrow> scan" where
  "example_managed_scan status s = \<lparr>s_id = ''s1'', s_job = ''j'', s_finished_at = 7, s_status = status, s_error = [],
     s_config_hash = [], s_cycle_attempt = 0, s_cycle_status = [], s_resumable = False, s_baseline_scan_id = [],
     s_baseline_config_hash = [], s_comparison = [], s_changes = [], s_snapshot = s, s_interrupted = False\<rparr>"

definition no_reminders :: reminder_settings where
  "no_reminders = \<lparr>rs_enabled = False, rs_cadence = EveryScan\<rparr>"

definition example_job :: "int \<Rightarrow> int \<Rightarrow> job" where
  "example_job confirmations samples = zero_job\<lparr>jb_confirmations := confirmations, jb_samples := samples\<rparr>"

theorem failed_scan_changes_no_expectation_witness:
  "js_consecutive_failures (fst (finalizeManagedScan (\<lambda>_. []) id empty_job_state zero_job
     (example_managed_scan ''timed_out'' empty_snapshot) no_reminders)) = 1"
  using failed_scan_changes_no_expectation [where scan = "example_managed_scan ''timed_out'' empty_snapshot" and
      st = empty_job_state and sha = "\<lambda>_. []" and san = id and job = zero_job and settings = no_reminders, OF _ _ surjective_pairing3]
  by (simp add: example_managed_scan_def real_failure_def) (simp add: empty_job_state_def)

section \<open>Every compared change is reportable\<close>

text \<open>No DNS answer holds an empty address.\<close>

definition dns_filled :: "snapshot \<Rightarrow> bool" where
  "dns_filled s \<longleftrightarrow> (\<forall>(t, as) \<in> set (sn_dns s). [] \<notin> set as)"

lemma dns_item_value:
  assumes "dns_filled s" "(k, v) \<in> set (item_writes s)" "hasPrefix k ''dns|''"
  shows "it_value v \<noteq> []"
  using assms unfolding item_writes_mem
  by (auto simp: port_item_def service_item_def dns_item_def dns_filled_def hasPrefix_def portChangeKey_def fingerprintKey_def)

lemma dns_kind_key:
  assumes "(k, v) \<in> set (item_writes s)" "it_kind v = ''dns''"
  shows "hasPrefix k ''dns|''"
  using assms unfolding item_writes_mem
  by (auto simp: port_item_def service_item_def dns_item_def dnsKey_def hasPrefix_def)

lemma item_change_reportable:
  assumes "dns_filled old" "dns_filled new" "k \<in> set (mkeys (items old) @ mkeys (items new))"
    and "diff_reports old new b down ix (mget (items old) k) (mget (items new) k)"
  shows "reportable (item_change k (mget (items old) k) (mget (items new) k))"
proof -
  have val: "it_value v \<noteq> []" if "mget (items s) k = Some v" "dns_filled s" "hasPrefix k ''dns|''" for s v
    using dns_item_value [OF that(2) items_Some [OF that(1)] that(3)] .
  have kind: "hasPrefix k ''dns|''" if "mget (items s) k = Some v" "it_kind v = ''dns''" for s v
    using dns_kind_key [OF items_Some [OF that(1)] that(2)] .
  show ?thesis
    using assms val [of old] val [of new] kind [of old] kind [of new]
    by (cases "mget (items old) k"; cases "mget (items new) k")
       (auto simp: item_change_def reportable_def diff_reports_def Let_def mkeys_iff)
qed

lemma host_change_reportable: "c \<in> set (hostStateChanges old new b) \<Longrightarrow> reportable c"
  by (auto simp: hostStateChanges_def Let_def host_change_def reportable_def split: if_splits)

lemma compareAddress_reportable: "compareAddress down u o' p a = Some (k, Some c) \<Longrightarrow> reportable c"
  by (auto simp: compareAddress_def reportable_def Let_def split: if_splits)

lemma address_change_reportable:
  "c \<in> set (snd (comparePortAddressesWithScopeIndexes old new b down ix)) \<Longrightarrow> reportable c"
  by (auto simp: comparePortAddressesWithScopeIndexes_def compareUnits_def comparePorts_def Let_def
      List.map_filter_def dest: compareAddress_reportable split: if_splits)

lemma filterDNS_subset: "set (filterDNSAggregateChanges old current cs job) \<subseteq> set cs"
  using filterDNSAggregateChanges_filter [of old current cs job] by auto

lemma diff_reportable:
  assumes "dns_filled old" "dns_filled new" "c \<in> set (diffForJobWithScopeLookups old new b job ix)"
  shows "reportable c"
proof -
  let ?down = "completedDownAddressesByProtocolForJob old new job"
  have "c \<in> set (diffWithDownAddressesAndScopes old new b ?down ix)"
    using assms(3) filterDNS_subset unfolding diffForJobWithScopeLookups_def by blast
  then consider "c \<in> set (itemChanges old new b ?down ix)"
    | "c \<in> set (snd (comparePortAddressesWithScopeIndexes old new b ?down ix))" | "c \<in> set (hostStateChanges old new b)"
    by (auto simp: diffWithDownAddressesAndScopes_def)
  then show ?thesis
  proof cases
    case 1
    then show ?thesis
      using item_change_reportable [OF assms(1,2)] by (auto simp: itemChanges_def Let_def split: if_splits)
  qed (use host_change_reportable address_change_reportable in blast)+
qed

lemma host_filter_reportable:
  "c \<in> set (filterDNSAggregateChanges old new (hostStateChanges old new b) job) \<Longrightarrow> reportable c"
  using filterDNS_subset host_change_reportable by blast


section \<open>Incomplete scans\<close>

lemma dns_filled_Normalize [simp]: "dns_filled (Normalize s) = dns_filled s"
  by (auto simp: dns_filled_def Normalize_def)

lemma dns_filled_complete [simp]: "dns_filled (completeHostDiscoveryStates s) = dns_filled s"
  by (simp add: completeHostDiscoveryStates_def) (simp add: dns_filled_def)

lemma migrate_hash_fields [simp]:
  "expectations (migrate_hash st job scan) = expectations st" "finding_of (migrate_hash st job scan) = finding_of st"
  "js_consecutive_failures (migrate_hash st job scan) = js_consecutive_failures st"
  "js_baseline (migrate_hash st job scan) = js_baseline st"
  by (simp_all add: migrate_hash_def)

lemma tracking_ok_cong:
  "js_pending st' = js_pending st \<Longrightarrow> js_incidents st' = js_incidents st \<Longrightarrow> js_suppressed st' = js_suppressed st \<Longrightarrow>
   js_suppressed_changes st' = js_suppressed_changes st \<Longrightarrow> tracking_ok n st' = tracking_ok n st"
  by (simp add: tracking_ok_def wf_tracking_def finding_of_def)

lemma tracking_ok_migrate [simp]: "tracking_ok n (migrate_hash st job scan) = tracking_ok n st"
  by (rule tracking_ok_cong) (simp_all add: migrate_hash_def)

lemma tracking_ok_clear [simp]:
  "tracking_ok n (clearTotalLossCandidate st) = tracking_ok n st" "tracking_ok n (clearUnconfirmedTotalLoss st) = tracking_ok n st"
  by (simp_all add: tracking_ok_def wf_tracking_def finding_of_def clearTotalLossCandidate_def clearUnconfirmedTotalLoss_def)

text \<open>The addresses without complete coverage in a scan, as the engine protects them.\<close>

definition unprobed :: "job_state \<Rightarrow> scan \<Rightarrow> protection" where
  "unprobed st scan = (let s = completeHostDiscoveryStates (s_snapshot scan)
     in incompleteTargets (js_baseline st) s (incompleteProtocolCoverage s))"

lemma observe_protects:
  assumes "js_baseline st = Some b" "sv_incomplete view = Some pr" "\<not> sv_hosts_only view"
    and "mget (js_incidents st) k = Some i" "incompleteChange (i_change i) pr" "k \<notin> c_key ` set (sv_changes view)"
  shows "k \<in> set (ob_unobserved (observe st job view))"
proof -
  have "(k, i) \<in> set (js_incidents st)" using assms(4) by (rule mget_SomeD)
  then have "k \<in> set (protectedChangeKeys st b (sv_snapshot view) pr)"
    using assms(5) by (force simp: protectedChangeKeys_def eachTrackedChange_def)
  then show ?thesis using assms by (auto simp: observe_def Let_def split_beta)
qed

lemma silent_keys: "k \<notin> c_key ` set cs \<Longrightarrow> silent k cs"
  by (rule silent_iff [THEN iffD2])

text \<open>The parts of the comparison of an incomplete scan.\<close>

lemma compareIncompleteE:
  assumes "compareIncomplete st baseline job scan coverage pr = (st', evs, changes)"
  obtains ix sc deferred where
    "\<forall>c \<in> set changes. c \<in> set (diffForJobWithScopeLookups baseline (s_snapshot scan) sc job ix) \<and>
       comparable_change (s_snapshot scan) coverage pr c"
    "applyObservedChanges (clearTotalLossCandidate st) (jb_name job) (s_id scan) changes (jb_confirmations job)
       (s_finished_at scan) (observe (clearTotalLossCandidate st) job \<lparr>sv_snapshot = s_snapshot scan, sv_changes = changes,
         sv_scope_changed = sc, sv_hosts_only = False, sv_incomplete = Some pr, sv_deferred = deferred\<rparr>) = (st', evs)"
proof -
  let ?st = "clearTotalLossCandidate st"
  let ?index = "newBaselineIndex baseline"
  let ?sc = "js_baseline_config_hash ?st \<noteq> s_config_hash scan"
  let ?ix = "if ?sc then Some \<lparr>lk_old = bi_scopes ?index, lk_current = newScopeIndex (s_snapshot scan)\<rparr> else None"
  let ?all = "diffForJobWithScopeLookups baseline (s_snapshot scan) ?sc job ?ix"
  have ch: "changes = filter (\<lambda>c. \<not> deferred_change ?st ?index c \<and> comparable_change (s_snapshot scan) coverage pr c) ?all"
    and ap: "applyObservedChanges ?st (jb_name job) (s_id scan) changes (jb_confirmations job) (s_finished_at scan)
      (observe ?st job \<lparr>sv_snapshot = s_snapshot scan, sv_changes = changes, sv_scope_changed = ?sc,
        sv_hosts_only = False, sv_incomplete = Some pr, sv_deferred = map c_key (filter (deferred_change ?st ?index) ?all)\<rparr>) = (st', evs)"
    using assms by (auto simp only: compareIncomplete_def Let_def split_beta prod.inject prod_eq_iff fst_conv snd_conv)
  have "\<forall>c \<in> set changes. c \<in> set ?all \<and> comparable_change (s_snapshot scan) coverage pr c"
    unfolding ch by simp
  then show thesis by (rule that [OF _ ap])
qed

lemma clear_total_loss_incidents [simp]: "js_incidents (clearTotalLossCandidate st) = js_incidents st"
  "js_incidents (clearUnconfirmedTotalLoss st) = js_incidents st" "js_incidents (clearPendingTotalLoss st) = js_incidents st"
  by (simp_all add: clearTotalLossCandidate_def clearUnconfirmedTotalLoss_def clearPendingTotalLoss_def)

lemma compareIncomplete_keeps:
  assumes "js_baseline st = Some baseline" "tracking_ok (jb_confirmations job) st" "1 \<le> jb_confirmations job"
    and "dns_filled baseline" "dns_filled (s_snapshot scan)"
    and run: "compareIncomplete st baseline job scan coverage pr = (st', evs, changes)"
    and i: "mget (js_incidents st) k = Some i" "incompleteChange (i_change i) pr" "k \<notin> c_key ` set changes"
  shows "mget (js_incidents st') k = Some i"
  using run
proof (rule compareIncompleteE)
  fix ix sc deferred
  let ?st = "clearTotalLossCandidate st"
  let ?seen = "observe ?st job \<lparr>sv_snapshot = s_snapshot scan, sv_changes = changes, sv_scope_changed = sc,
            sv_hosts_only = False, sv_incomplete = Some pr, sv_deferred = deferred\<rparr>"
  assume ch: "\<forall>c \<in> set changes. c \<in> set (diffForJobWithScopeLookups baseline (s_snapshot scan) sc job ix) \<and>
       comparable_change (s_snapshot scan) coverage pr c"
    and ap: "applyObservedChanges ?st (jb_name job) (s_id scan) changes (jb_confirmations job) (s_finished_at scan) ?seen = (st', evs)"
  have "finding_of st' k = finding_of ?st k"
  proof (rule unobserved_kept [THEN conjunct1, OF _ _ _ _ _ _ ap])
    show "tracking_ok (jb_confirmations job) ?st" using assms(2) by simp
    show "1 \<le> jb_confirmations job" by fact
    show "\<forall>c\<in>set changes. reportable c" using ch diff_reportable [OF assms(4,5)] by blast
    show "k \<in> set (ob_unobserved ?seen)"
      by (rule observe_protects [where i = i and b = baseline and pr = pr]) (use assms(1) i in auto)
    show "k \<notin> set (ob_retired ?seen)" using observe_retired [of ?st baseline job] assms(1) by (simp add: scope_retired_def)
    show "silent k changes" using i(3) by (rule silent_keys)
  qed
  then have "f_incident (finding_of st' k) = f_incident (finding_of ?st k)" by (rule arg_cong)
  then have "mget (js_incidents st') k = mget (js_incidents st) k" by (simp only: finding_of_def finding.simps clear_total_loss_incidents)
  then show ?thesis using i(1) by simp
qed

lemma compareIncomplete_frame:
  assumes "compareIncomplete st baseline job scan coverage pr = (st', evs, changes)"
  shows "expectations st' = expectations st" "js_consecutive_failures st' = js_consecutive_failures st"
    "\<forall>c \<in> set changes. comparable_change (s_snapshot scan) coverage pr c"
  by (rule compareIncompleteE [OF assms], simp add: expectations_frame [OF applyObservedChanges_frame] apply_fields(14))+

lemma incompletePositiveAddition_kind:
  "incompletePositiveAddition c s coverage \<Longrightarrow>
     isPositivePortState (c_new c) \<and> (c_kind c = ''port'' \<or> c_kind c = ''port-address'')"
  by (auto simp: incompletePositiveAddition_def split: if_splits)

text \<open>Without a baseline an incomplete scan is only counted; an empty one is only recorded.\<close>

lemma processIncomplete_cases:
  assumes "processIncompleteSuccess st job scan = (st', evs, changes)"
  obtains "js_baseline st = None" "changes = []"
      "st' = st\<lparr>js_incomplete_candidate_attempts := js_incomplete_candidate_attempts st + 1\<rparr>"
  | baseline where "js_baseline st = Some baseline" "changes = []" "st' = clearPendingTotalLoss (clearUnconfirmedTotalLoss st)"
  | baseline evs' where "js_baseline st = Some baseline"
      "compareIncomplete st baseline job scan (incompleteProtocolCoverage (s_snapshot scan))
        (incompleteTargets (js_baseline st) (s_snapshot scan) (incompleteProtocolCoverage (s_snapshot scan))) = (st', evs', changes)"
proof (cases "js_baseline st")
  case None
  then show thesis using assms that(1) by (simp add: processIncompleteSuccess_def Let_def)
next
  case (Some b)
  obtain x where x: "compareIncomplete st b job scan (incompleteProtocolCoverage (s_snapshot scan))
        (incompleteTargets (js_baseline st) (s_snapshot scan) (incompleteProtocolCoverage (s_snapshot scan))) = x" by blast
  show thesis
  proof (cases "positivePortCount (s_snapshot scan) = 0 \<and> sn_host_states (s_snapshot scan) = []")
    case True
    then show thesis using assms Some that(2) by (simp add: processIncompleteSuccess_def Let_def)
  next
    case False
    then show thesis using assms Some that(3) [OF Some, of "fst (snd x)"] x
      by (cases x) (auto simp: processIncompleteSuccess_def Let_def)
  qed
qed

text \<open>
  C5: A scan with missing coverage learns nothing: baseline, candidate, fingerprints, service
  decisions and the failure counter stay as they are. Where coverage is missing it reports
  nothing but newly open ports, and an open incident there stays as it is unless such a port
  reports it.
\<close>

theorem incomplete_scan_learns_nothing:
  assumes "snapshotHasUnreachableHost (completeHostDiscoveryStates (s_snapshot scan))"
    and "tracking_ok (jb_confirmations job) st" "1 \<le> jb_confirmations job"
    and "dns_filled (s_snapshot scan)" "\<forall>b. js_baseline st = Some b \<longrightarrow> dns_filled b"
    and run: "processSuccessWithReminderSettings sha st job scan settings = (st', evs, changes)"
  shows "expectations st' = expectations st \<and> js_consecutive_failures st' = js_consecutive_failures st \<and>
    (\<forall>c \<in> set changes. incompleteChange c (unprobed st scan) \<longrightarrow>
       isPositivePortState (c_new c) \<and> (c_kind c = ''port'' \<or> c_kind c = ''port-address'')) \<and>
    (\<forall>k i. mget (js_incidents st) k = Some i \<longrightarrow> incompleteChange (i_change i) (unprobed st scan) \<longrightarrow>
       k \<notin> c_key ` set changes \<longrightarrow> mget (js_incidents st') k = Some i)"
proof -
  let ?scan = "scan\<lparr>s_snapshot := completeHostDiscoveryStates (s_snapshot scan)\<rparr>"
  let ?st = "migrate_hash st job ?scan"
  have inc: "js_incidents ?st = js_incidents st" by (simp add: migrate_hash_def)
  have "processIncompleteSuccess ?st job ?scan = (st', evs, changes)"
    using run assms(1) by (simp add: processSuccessWithReminderSettings_def Let_def)
  then show ?thesis
  proof (cases rule: processIncomplete_cases)
    case 1
    then show ?thesis by (simp add: inc)
  next
    case (2 baseline)
    then show ?thesis by (simp add: inc)
  next
    case (3 baseline evs')
    let ?pr = "incompleteTargets (js_baseline ?st) (s_snapshot ?scan) (incompleteProtocolCoverage (s_snapshot ?scan))"
    have pr: "unprobed st scan = ?pr" by (simp add: unprobed_def Let_def)
    have keep: "mget (js_incidents st') k = Some i"
      if "mget (js_incidents st) k = Some i" "incompleteChange (i_change i) ?pr" "k \<notin> c_key ` set changes" for k i
      by (rule compareIncomplete_keeps [OF 3(1) _ assms(3) _ _ 3(2)]) (use that assms(2,4,5) 3(1) inc in simp_all)
    have "isPositivePortState (c_new c) \<and> (c_kind c = ''port'' \<or> c_kind c = ''port-address'')"
      if "c \<in> set changes" "incompleteChange c ?pr" for c
      using compareIncomplete_frame(3) [OF 3(2)] that incompletePositiveAddition_kind [of c]
      by (auto simp: comparable_change_def)
    then show ?thesis
      unfolding pr using compareIncomplete_frame(1,2) [OF 3(2)] keep by simp
  qed
qed


definition unresolved :: snapshot where
  "unresolved = empty_snapshot\<lparr>sn_target_failures := [\<lparr>tf_target = ''a.example'', tf_reason = ''dns''\<rparr>]\<rparr>"

lemma unresolved_incomplete: "snapshotHasUnreachableHost (completeHostDiscoveryStates unresolved)"
  by code_simp

theorem incomplete_scan_learns_nothing_witness:
  "expectations (fst (processSuccessWithReminderSettings (\<lambda>_. []) empty_job_state (example_job 1 1)
     (example_managed_scan ''success'' unresolved) no_reminders)) = expectations empty_job_state"
proof (rule incomplete_scan_learns_nothing [THEN conjunct1, OF _ _ _ _ _ surjective_pairing3])
  show "snapshotHasUnreachableHost (completeHostDiscoveryStates (s_snapshot (example_managed_scan ''success'' unresolved)))"
    by (simp add: example_managed_scan_def unresolved_incomplete)
  show "tracking_ok (jb_confirmations (example_job 1 1)) empty_job_state" by (rule empty_tracking_ok)
  show "1 \<le> jb_confirmations (example_job 1 1)" by (simp add: example_job_def)
  show "dns_filled (s_snapshot (example_managed_scan ''success'' unresolved))"
    by (simp add: example_managed_scan_def unresolved_def empty_snapshot_def dns_filled_def)
  show "\<forall>b. js_baseline empty_job_state = Some b \<longrightarrow> dns_filled b" by (simp add: empty_job_state_def)
qed

section \<open>The invariant of the state of a job\<close>

definition fingerprints_ok :: "fingerprints \<Rightarrow> bool" where
  "fingerprints_ok m \<longleftrightarrow> wf_map m \<and> (\<forall>k c. mget m k = Some c \<longrightarrow> 1 \<le> vc_count c)"

text \<open>A job without a baseline tracks nothing and has accepted nothing.\<close>

definition untouched :: "job_state \<Rightarrow> bool" where
  "untouched st \<longleftrightarrow> js_pending st = [] \<and> js_incidents st = [] \<and> js_suppressed st = [] \<and> js_suppressed_changes st = [] \<and>
     js_baseline_scan_id st = [] \<and> js_service_decision_required st = [] \<and> js_last_incident_reminder_at st = None \<and>
     js_total_loss_candidate_count st = 0"

definition job_ok :: "int \<Rightarrow> int \<Rightarrow> job_state \<Rightarrow> bool" where
  "job_ok required samples st \<longleftrightarrow>
     tracking_ok required st \<and> fingerprints_ok (js_fingerprint_candidates st) \<and>
     (js_candidate st = None \<longleftrightarrow> js_candidate_count st = 0) \<and>
     0 \<le> js_candidate_count st \<and> js_candidate_count st < samples \<and> js_candidate_count st \<le> js_candidate_attempts st \<and>
     0 \<le> js_total_loss_candidate_count st \<and> js_total_loss_candidate_count st \<le> totalLossConfirmationScans \<and>
     (js_total_loss_candidate_count st = 0 \<longrightarrow> js_total_loss_candidate_hash st = []) \<and>
     0 \<le> js_consecutive_failures st \<and> js_last_failure_alert st = js_consecutive_failures st \<and>
     0 \<le> js_incomplete_candidate_attempts st \<and>
     (case js_baseline st of None \<Rightarrow> untouched st
      | Some b \<Rightarrow> dns_filled b \<and> js_incomplete_candidate_attempts st = 0)"

lemma job_ok_empty: "1 \<le> samples \<Longrightarrow> job_ok required samples empty_job_state"
  by (simp add: job_ok_def empty_tracking_ok)
     (simp add: empty_job_state_def fingerprints_ok_def untouched_def totalLossConfirmationScans_def)

lemma fingerprints_ok_mput: "fingerprints_ok m \<Longrightarrow> 1 \<le> vc_count c \<Longrightarrow> fingerprints_ok (mput k c m)"
  by (simp add: fingerprints_ok_def)

lemma fingerprints_ok_mfilter: "fingerprints_ok m \<Longrightarrow> fingerprints_ok (mfilter P m)"
  by (simp add: fingerprints_ok_def)

lemma fingerprints_ok_mdel: "fingerprints_ok m \<Longrightarrow> fingerprints_ok (mdel k m)"
  by (simp add: fingerprints_ok_def)

lemma count_fingerprint_pos: "fingerprints_ok m \<Longrightarrow> 1 \<le> vc_count (count_fingerprint (count_of m k) service)"
proof -
  assume "fingerprints_ok m"
  then have "0 \<le> vc_count (count_of m k)"
    unfolding count_of_def fingerprints_ok_def zero_count_def by (auto split: option.splits) force
  then show ?thesis by (simp add: count_fingerprint_def)
qed

lemma fingerprints_ok_candidates: "fingerprints_ok m \<Longrightarrow> fingerprints_ok (fold candidate_step ups m)"
  by (rule fold_inv) (simp_all add: candidate_step_def fingerprints_ok_mput count_fingerprint_pos)

text \<open>What the learner may change: service names in the baseline, its mark, and the counts.\<close>

definition learned_from :: "job_state \<Rightarrow> job_state \<Rightarrow> bool" where
  "learned_from st st' \<longleftrightarrow> st' = st\<lparr>js_baseline := js_baseline st', js_baseline_modified := js_baseline_modified st',
       js_fingerprint_candidates := js_fingerprint_candidates st'\<rparr> \<and>
     (fingerprints_ok (js_fingerprint_candidates st) \<longrightarrow> fingerprints_ok (js_fingerprint_candidates st')) \<and>
     map_option sn_dns (js_baseline st') = map_option sn_dns (js_baseline st)"

lemma learned_from_refl: "learned_from st st"
  by (simp add: learned_from_def)

lemma learned_from_trans: "learned_from a b \<Longrightarrow> learned_from b c \<Longrightarrow> learned_from a c"
  unfolding learned_from_def by (cases a; cases b; cases c) simp

lemma index_setBaselineService_dns: "sn_dns (fst (index_setBaselineService index s t p n v)) = sn_dns s"
  by (simp add: index_setBaselineService_def update_port_def split: option.split)

lemma learned_fromI:
  assumes "st' = st\<lparr>js_baseline := b, js_baseline_modified := m, js_fingerprint_candidates := f\<rparr>"
    "fingerprints_ok (js_fingerprint_candidates st) \<Longrightarrow> fingerprints_ok f" "map_option sn_dns b = map_option sn_dns (js_baseline st)"
  shows "learned_from st st'"
  using assms unfolding learned_from_def by simp

lemma learn_step_frame: "learned_from (ln_state l) (ln_state (learn_step required index up l))"
proof -
  let ?st = "ln_state l" and ?k = "fingerprint_key_of up"
  let ?c = "count_fingerprint (count_of (js_fingerprint_candidates ?st) ?k) (ps_service (snd up))"
  let ?r = "case js_baseline ?st of None \<Rightarrow> (empty_snapshot, False)
    | Some b \<Rightarrow> index_setBaselineService index b (u_target (fst up)) (u_protocol (fst up)) (ps_port (snd up)) (vc_value ?c)"
  let ?b = "case js_baseline ?st of None \<Rightarrow> None | Some _ \<Rightarrow> Some (fst ?r)"
  show ?thesis
  proof (cases "ps_service (snd up) = [] \<or>
      \<not> fingerprintLearnableWithIndex ?st (u_target (fst up)) (u_protocol (fst up)) (ps_port (snd up)) index")
    case True
    then have "learn_step required index up l = l" by (simp only: learn_step_def Let_def if_True)
    then show ?thesis by (simp add: learned_from_refl)
  next
    case False
    show ?thesis
    proof (cases "required \<le> vc_count ?c")
      case True
      then have "ln_state (learn_step required index up l) = ?st\<lparr>js_baseline := ?b,
          js_baseline_modified := (js_baseline_modified ?st \<or> snd ?r), js_fingerprint_candidates := mdel ?k (js_fingerprint_candidates ?st)\<rparr>"
        using False by (simp add: learn_step_def Let_def split_beta)
      then show ?thesis
        by (rule learned_fromI) (auto simp: fingerprints_ok_mdel index_setBaselineService_dns split: option.splits)
    next
      case c: False
      then have "ln_state (learn_step required index up l) = ?st\<lparr>js_baseline := js_baseline ?st,
          js_baseline_modified := js_baseline_modified ?st, js_fingerprint_candidates := mput ?k ?c (js_fingerprint_candidates ?st)\<rparr>"
        using False by (simp add: learn_step_def Let_def)
      then show ?thesis by (rule learned_fromI) (auto simp: fingerprints_ok_mput count_fingerprint_pos)
    qed
  qed
qed

lemma learn_fold_frame: "learned_from (ln_state l) (ln_state (fold (learn_step required index) ups l))"
proof (induction ups arbitrary: l)
  case (Cons up ups)
  then show ?case using learned_from_trans [OF learn_step_frame Cons.IH] by simp
qed (simp add: learned_from_refl)

lemma learnMissingFingerprints_frame: "learned_from st (fst (learnMissingFingerprintsWithIndex st current required index))"
proof (cases "js_baseline st")
  case None
  then show ?thesis by (simp add: learnMissingFingerprintsWithIndex_def learned_from_refl)
next
  case (Some b)
  let ?l = "fold (learn_step required index) (unit_ports current) \<lparr>ln_state = st, ln_learning = [], ln_seen = []\<rparr>"
  have "learned_from (ln_state \<lparr>ln_state = st, ln_learning = [], ln_seen = []\<rparr>) (ln_state ?l)" by (rule learn_fold_frame)
  then have l: "learned_from st (ln_state ?l)" by simp
  have "learned_from (ln_state ?l) (ln_state ?l\<lparr>js_fingerprint_candidates := mfilter P (js_fingerprint_candidates (ln_state ?l))\<rparr>)" for P
    by (rule learned_fromI [where b = "js_baseline (ln_state ?l)" and m = "js_baseline_modified (ln_state ?l)" and
          f = "mfilter P (js_fingerprint_candidates (ln_state ?l))"])
       (simp_all add: fingerprints_ok_mfilter)
  from learned_from_trans [OF l this] show ?thesis
    by (simp add: learnMissingFingerprintsWithIndex_def Some Let_def)
qed

lemma job_ok_learned:
  assumes "job_ok required samples st" "learned_from st st'" "js_baseline st = Some b"
  shows "job_ok required samples st'" "\<exists>b'. js_baseline st' = Some b' \<and> sn_dns b' = sn_dns b"
proof -
  obtain bo m f where st': "st' = st\<lparr>js_baseline := bo, js_baseline_modified := m, js_fingerprint_candidates := f\<rparr>"
    and f: "fingerprints_ok (js_fingerprint_candidates st) \<longrightarrow> fingerprints_ok f"
    and d: "map_option sn_dns bo = map_option sn_dns (js_baseline st)"
    using assms(2) unfolding learned_from_def by metis
  obtain b' where b': "bo = Some b'" "sn_dns b' = sn_dns b" using d assms(3) by (cases bo) auto
  have t: "tracking_ok required st' = tracking_ok required st" unfolding st' by (rule tracking_ok_cong) simp_all
  have "dns_filled b' = dns_filled b" using b'(2) by (simp add: dns_filled_def)
  then show "job_ok required samples st'"
    using assms(1,3) f b'(1) t unfolding st' by (simp add: job_ok_def)
  show "\<exists>b'. js_baseline st' = Some b' \<and> sn_dns b' = sn_dns b" using b' st' by simp
qed


lemma job_ok_applied:
  assumes "job_ok required samples st" "js_baseline st = Some b" "1 \<le> required" "\<forall>c \<in> set current. reportable c"
    and run: "applyObservedChanges st job scanID current required now seen = (st', evs)"
  shows "job_ok required samples st'" "js_baseline st' = Some b"
proof -
  have "tracking_ok required st'"
    using assms(1) by (intro applyObservedChanges_ok [OF _ assms(3,4) run]) (simp add: job_ok_def)
  then show "job_ok required samples st'" using assms(1,2) by (simp add: job_ok_def apply_fields [OF run])
  show "js_baseline st' = Some b" using assms(2) by (simp add: apply_fields [OF run])
qed

lemma tracking_ok_retire: "tracking_ok required st \<Longrightarrow> tracking_ok required (retireFrom seen st)"
  unfolding tracking_ok_def using wf_retireFrom
  by (auto simp: retireFrom_def finding_of_def finding_ok_def Let_def split: option.splits)

lemma job_ok_retired: "job_ok required samples st \<Longrightarrow> js_baseline st = Some b \<Longrightarrow> job_ok required samples (retireFrom seen st)"
  by (simp add: job_ok_def retire_fields tracking_ok_retire)

lemma job_ok_cleared:
  assumes "job_ok required samples st"
  shows "job_ok required samples (clearTotalLossCandidate st)" "job_ok required samples (clearUnconfirmedTotalLoss st)"
proof -
  show c: "job_ok required samples (clearTotalLossCandidate st)"
    using assms unfolding job_ok_def tracking_ok_clear
    by (simp add: clearTotalLossCandidate_def untouched_def totalLossConfirmationScans_def split: option.splits)
  show "job_ok required samples (clearUnconfirmedTotalLoss st)"
    using assms c by (simp add: clearUnconfirmedTotalLoss_def)
qed

lemma mget_filter: "wf_map m \<Longrightarrow> mget (filter P m) k = None \<or> mget (filter P m) k = mget m k"
  by (cases "mget (filter P m) k") (auto dest!: mget_SomeD simp: mget_eq_Some_mem [symmetric])

lemma wf_filter: "wf_map m \<Longrightarrow> wf_map (filter P m)"
  by (auto simp: distinct_map inj_on_def)

lemma tracking_ok_pending_cleared:
  assumes "tracking_ok required st"
  shows "tracking_ok required (clearPendingTotalLoss st)"
proof -
  have wf: "wf_tracking st" and ok: "finding_ok required k (finding_of st k)" for k
    using assms by (simp_all add: tracking_ok_def)
  have drop: "finding_ok required k (f\<lparr>f_pending := None\<rparr>)" if "finding_ok required k f" for f k
    using that by (simp add: finding_ok_def)
  have "finding_of (clearPendingTotalLoss st) k = finding_of st k \<or>
      finding_of (clearPendingTotalLoss st) k = (finding_of st k)\<lparr>f_pending := None\<rparr>" for k
    using mget_filter [of "js_pending st" "\<lambda>(_, p). c_new (p_change p) \<noteq> ''not-open''" k] wf
    by (simp add: wf_tracking_def clearPendingTotalLoss_def finding_of_def) metis
  then have "finding_ok required k (finding_of (clearPendingTotalLoss st) k)" for k
    using ok drop by metis
  moreover have "wf_tracking (clearPendingTotalLoss st)"
    using wf wf_filter [of "js_pending st"] by (simp add: wf_tracking_def clearPendingTotalLoss_def)
  ultimately show ?thesis by (simp add: tracking_ok_def)
qed

lemma job_ok_pending_cleared:
  assumes "job_ok required samples st"
  shows "job_ok required samples (clearPendingTotalLoss st)"
proof -
  have "tracking_ok required (clearPendingTotalLoss st)"
    using assms by (simp add: job_ok_def tracking_ok_pending_cleared)
  moreover have "untouched st \<Longrightarrow> untouched (clearPendingTotalLoss st)"
    by (simp add: untouched_def clearPendingTotalLoss_def)
  moreover have "clearPendingTotalLoss st = st\<lparr>js_pending := js_pending (clearPendingTotalLoss st)\<rparr>"
    by (simp add: clearPendingTotalLoss_def)
  moreover have "job_ok required samples (st\<lparr>js_pending := p\<rparr>)"
    if "tracking_ok required (st\<lparr>js_pending := p\<rparr>)" "untouched st \<Longrightarrow> untouched (st\<lparr>js_pending := p\<rparr>)" for p
    using assms that by (cases "js_baseline st") (simp_all add: job_ok_def)
  ultimately show ?thesis by metis
qed

lemma job_ok_total_loss:
  assumes "job_ok required samples st" "js_baseline st = Some b" "1 \<le> n" "n \<le> totalLossConfirmationScans"
  shows "job_ok required samples (st\<lparr>js_total_loss_candidate_hash := h, js_total_loss_candidate_count := n\<rparr>)"
proof -
  have "tracking_ok required (st\<lparr>js_total_loss_candidate_hash := h, js_total_loss_candidate_count := n\<rparr>) = tracking_ok required st"
    by (rule tracking_ok_cong) simp_all
  then show ?thesis using assms by (simp add: job_ok_def)
qed

text \<open>What the guard does to the state: forget, start, count or keep the candidate.\<close>

lemma guardTotalLoss_cases:
  assumes "guardTotalLoss sha st baseline scan = (st', waiting, evs)"
  obtains "st' = clearTotalLossCandidate st"
  | "st' = st\<lparr>js_total_loss_candidate_hash := totalLossIdentity sha st scan, js_total_loss_candidate_count := 1\<rparr>"
  | "js_total_loss_candidate_count st < totalLossConfirmationScans"
    "st' = st\<lparr>js_total_loss_candidate_hash := js_total_loss_candidate_hash st,
       js_total_loss_candidate_count := js_total_loss_candidate_count st + 1\<rparr>"
  | "st' = st"
proof -
  let ?id = "totalLossIdentity sha st scan" and ?n = "js_total_loss_candidate_count st"
  let ?off = "positivePortCount baseline = 0 \<or> positivePortCount (s_snapshot scan) \<noteq> 0 \<or>
         (js_baseline_config_hash st \<noteq> [] \<and> s_config_hash scan \<noteq> [] \<and> js_baseline_config_hash st \<noteq> s_config_hash scan)"
  let ?st = "if js_total_loss_candidate_hash st \<noteq> ?id
    then st\<lparr>js_total_loss_candidate_hash := ?id, js_total_loss_candidate_count := 1\<rparr>
    else if ?n < totalLossConfirmationScans then st\<lparr>js_total_loss_candidate_count := ?n + 1\<rparr> else st"
  have fst: "st' = (if ?off then clearTotalLossCandidate st else ?st)"
    using arg_cong [OF assms, of fst] by (simp only: guardTotalLoss_def Let_def if_distrib [of fst] fst_conv if_cancel)
  show thesis
  proof (cases ?off)
    case True
    then show thesis using fst that(1) by (simp only: if_True)
  next
    case off: False
    then have "st' = ?st" using fst by (simp only: if_False)
    then consider "st' = st\<lparr>js_total_loss_candidate_hash := ?id, js_total_loss_candidate_count := 1\<rparr>"
      | "?n < totalLossConfirmationScans" "st' = st\<lparr>js_total_loss_candidate_count := ?n + 1\<rparr>" | "st' = st"
      by (metis (full_types))
    then show thesis by cases (rule that(2), assumption, rule that(3), assumption, simp, rule that(4))
  qed
qed

lemma job_ok_guard:
  assumes "job_ok required samples st" "js_baseline st = Some b" "guardTotalLoss sha st baseline scan = (st', waiting, evs)"
  shows "job_ok required samples st'" "js_baseline st' = Some b" "finding_of st' = finding_of st"
    "js_baseline_config_hash st' = js_baseline_config_hash st"
proof -
  show "job_ok required samples st'"
    using assms(3)
  proof (cases rule: guardTotalLoss_cases)
    case 1
    then show ?thesis using job_ok_cleared(1) [OF assms(1)] by simp
  next
    case 2
    then show ?thesis using job_ok_total_loss [OF assms(1,2)] by (simp add: totalLossConfirmationScans_def)
  next
    case 3
    have "0 \<le> js_total_loss_candidate_count st" using assms(1) by (simp add: job_ok_def)
    then show ?thesis unfolding 3(2) by (intro job_ok_total_loss [OF assms(1,2)]) (use 3(1) in simp_all)
  next
    case 4
    then show ?thesis using assms(1) by simp
  qed
  show "js_baseline st' = Some b" "finding_of st' = finding_of st" "js_baseline_config_hash st' = js_baseline_config_hash st"
    using assms(3) by (cases rule: guardTotalLoss_cases; simp add: assms(2) finding_of_def fun_eq_iff)+
qed

lemma sn_dns_stable [simp]: "sn_dns (withStableFingerprints s m n) = sn_dns s"
  by (simp add: withStableFingerprints_def)

lemma dns_filled_merge: "dns_filled (mergeForScopeChange old s) = dns_filled s"
  by (simp add: mergeForScopeChange_def Let_def) (simp add: dns_filled_def)

lemma dns_filled_stable [simp]: "dns_filled (withStableFingerprints s m n) = dns_filled s"
  by (simp add: dns_filled_def)

lemma job_ok_advanced:
  assumes "job_ok required samples st" "dns_filled (s_snapshot scan)" "1 \<le> samples"
    and "advanceCandidateWithDNSMode sha st scan samples merge mode = (st', evs)"
  shows "job_ok required samples st'"
proof -
  let ?c = "count_candidate sha st scan mode"
  have fp: "fingerprints_ok (js_fingerprint_candidates ?c)"
    using assms(1) by (simp add: count_candidate_def updateFingerprintCandidates_def Let_def job_ok_def
        fingerprints_ok_mfilter fingerprints_ok_candidates)
  have t: "tracking_ok required ?c = tracking_ok required st"
    by (rule tracking_ok_cong) (simp_all add: count_candidate_def updateFingerprintCandidates_def Let_def)
  have t': "tracking_ok required (accept_candidate ?c scan samples merge) = tracking_ok required ?c"
    by (rule tracking_ok_cong) (simp_all add: accept_candidate_def Let_def)
  have cand: "js_candidate ?c = Some (s_snapshot scan)" "1 \<le> js_candidate_count ?c" "js_candidate_count ?c \<le> js_candidate_attempts ?c"
    using assms(1) by (auto simp: count_candidate_def updateFingerprintCandidates_def Let_def job_ok_def)
  have rest: "js_total_loss_candidate_count ?c = js_total_loss_candidate_count st" "js_total_loss_candidate_hash ?c = js_total_loss_candidate_hash st"
    "js_consecutive_failures ?c = js_consecutive_failures st" "js_last_failure_alert ?c = js_last_failure_alert st"
    "js_incomplete_candidate_attempts ?c = js_incomplete_candidate_attempts st" "js_baseline ?c = js_baseline st"
    "untouched ?c = untouched st"
    by (simp_all add: count_candidate_def updateFingerprintCandidates_def Let_def untouched_def)
  show ?thesis
  proof (cases "js_candidate_count ?c \<ge> samples")
    case True
    then have st': "st' = accept_candidate ?c scan samples merge" using assms(4) by (simp add: advanceCandidateWithDNSMode_def Let_def)
    have "tracking_ok required st'" using t t' assms(1) by (simp add: st' job_ok_def)
    then show ?thesis
      using assms fp rest unfolding st'
      by (auto simp: job_ok_def accept_candidate_def Let_def dns_filled_merge split: option.split)
  next
    case False
    then have st': "st' = ?c" using assms(4) by (simp add: advanceCandidateWithDNSMode_def Let_def)
    show ?thesis using assms(1) fp t cand rest False unfolding st' by (cases "js_baseline st") (simp_all add: job_ok_def)
  qed
qed


section \<open>Every transition keeps the invariant\<close>

lemma job_ok_reminded:
  assumes "job_ok required samples st" "js_baseline st = Some b" "remind st previous job scan changes = (st', evs)"
  shows "job_ok required samples st'" "js_baseline st' = Some b"
proof -
  have t: "tracking_ok required (st\<lparr>js_last_incident_reminder_at := r\<rparr>) = tracking_ok required st" for r
    by (rule tracking_ok_cong) simp_all
  consider "st' = st" | "st' = st\<lparr>js_last_incident_reminder_at := Some (s_finished_at scan)\<rparr>"
    using assms(3) unfolding remind_def Let_def by (metis prod.inject)
  then have "job_ok required samples st' \<and> js_baseline st' = Some b"
    by cases (use assms(1,2) t in \<open>simp_all add: job_ok_def\<close>)
  then show "job_ok required samples st'" "js_baseline st' = Some b" by simp_all
qed

lemma job_ok_hosts_only:
  assumes "job_ok required samples st" "js_baseline st = Some b" "1 \<le> required" "jb_confirmations job = required"
    and run: "compareHostsOnly st baseline job scan sc anomaly = (st', evs, changes)"
  shows "job_ok required samples st'"
proof -
  let ?hc = "filterDNSAggregateChanges baseline (s_snapshot scan) (hostStateChanges baseline (s_snapshot scan) sc) job"
  let ?seen = "observe st job \<lparr>sv_snapshot = s_snapshot scan, sv_changes = ?hc, sv_scope_changed = sc,
            sv_hosts_only = True, sv_incomplete = None, sv_deferred = []\<rparr>"
  obtain st2 e2 where a: "applyObservedChanges st (jb_name job) (s_id scan) ?hc (jb_confirmations job) (s_finished_at scan) ?seen = (st2, e2)"
    by (cases "applyObservedChanges st (jb_name job) (s_id scan) ?hc (jb_confirmations job) (s_finished_at scan) ?seen")
  have "st' = st2 \<or> st' = retireFrom ?seen st"
    using run unfolding compareHostsOnly_def Let_def a prod.case by (metis prod.inject)
  moreover have "job_ok required samples st2"
    using a assms(3,4) by (intro job_ok_applied(1) [OF assms(1,2) _ _ a [unfolded assms(4)]])
      (auto intro: host_filter_reportable)
  ultimately show ?thesis using job_ok_retired [OF assms(1,2)] by metis
qed

lemma learnAndCompare_keeps:
  assumes "job_ok required samples st" "js_baseline st = Some baseline" "dns_filled (s_snapshot scan)"
    and run: "learnAndCompare st baseline job scan sc = (st', changes)"
  shows "job_ok required samples st'" "\<exists>b. js_baseline st' = Some b \<and> sn_dns b = sn_dns baseline"
    "\<forall>c \<in> set changes. reportable c"
proof -
  let ?index = "newBaselineIndex baseline"
  let ?ix = "if sc then Some \<lparr>lk_old = bi_scopes ?index, lk_current = newScopeIndex (s_snapshot scan)\<rparr> else None"
  let ?l = "if sc then (st, []) else learnMissingFingerprintsWithIndex st (s_snapshot scan) (jb_samples job) ?index"
  let ?b = "case js_baseline (fst ?l) of None \<Rightarrow> baseline | Some b \<Rightarrow> b"
  let ?all = "diffForJobWithScopeLookups ?b (s_snapshot scan) sc job ?ix"
  have st': "st' = fst ?l" using arg_cong [OF run, of fst] by (simp add: learnAndCompare_def Let_def split_beta)
  have ch: "set changes \<subseteq> set ?all" using arg_cong [OF run, of snd] by (auto simp: learnAndCompare_def Let_def split_beta)
  have l: "learned_from st st'" unfolding st' using learnMissingFingerprints_frame learned_from_refl by (cases sc) simp_all
  note ok = job_ok_learned [OF assms(1) l assms(2)]
  show "job_ok required samples st'" by (rule ok(1))
  obtain b where b: "js_baseline st' = Some b" "sn_dns b = sn_dns baseline" using ok(2) by blast
  then show "\<exists>b. js_baseline st' = Some b \<and> sn_dns b = sn_dns baseline" by blast
  have "?b = b" using b st' by simp
  then have "dns_filled ?b" using b assms(1,2) by (simp add: job_ok_def dns_filled_def)
  then show "\<forall>c \<in> set changes. reportable c" using ch diff_reportable [OF _ assms(3)] by blast
qed

lemma sn_dns_learned_evidence [simp]: "sn_dns (learnMissingPortEvidence b s down) = sn_dns b"
  by (simp add: learnMissingPortEvidence_def)

lemma job_ok_baseline:
  assumes "job_ok required samples st" "js_baseline st = Some b" "sn_dns b' = sn_dns b"
  shows "job_ok required samples (st\<lparr>js_baseline := Some b'\<rparr>)"
proof -
  have "tracking_ok required (st\<lparr>js_baseline := Some b'\<rparr>) = tracking_ok required st" by (rule tracking_ok_cong) simp_all
  then show ?thesis using assms by (simp add: job_ok_def dns_filled_def)
qed

text \<open>The parts of the comparison of a complete scan.\<close>

lemma compareCompleteE:
  assumes run: "compareComplete sha st0 baseline job scan sc remindersEnabled cadence = (st5, evs, changes)"
  obtains st1 st2 st3 st4 events reminder candidateEvents b seen due where
    "learnAndCompare st0 baseline job scan sc = (st1, changes)"
    "b = (case js_baseline st1 of None \<Rightarrow> baseline | Some b \<Rightarrow> b)"
    "st2 = (if \<not> sc \<and> \<not> aggregates job
       then st1\<lparr>js_baseline := Some (learnMissingPortEvidence b (s_snapshot scan) (completedDownAddressesByProtocolForJob b (s_snapshot scan) job))\<rparr>
       else st1)"
    "seen = observe st1 job \<lparr>sv_snapshot = s_snapshot scan, sv_changes = changes, sv_scope_changed = sc,
            sv_hosts_only = False, sv_incomplete = None, sv_deferred = []\<rparr>"
    "applyObservedChanges st2 (jb_name job) (s_id scan) changes (jb_confirmations job) (s_finished_at scan) seen = (st3, events)"
    "(if due then remind st3 (js_incidents st2) job scan changes else (st3, [])) = (st4, reminder)"
    "(if sc then advanceCandidateWithDNSMode sha st4 scan (jb_samples job) True (jb_dns_mode job) else (st4, [])) = (st5, candidateEvents)"
    "evs = events @ reminder @ candidateEvents"
    "due = (remindersEnabled \<and> incidentReminderDue (js_last_incident_reminder_at st2) cadence (s_finished_at scan))"
proof -
  obtain st1 ch where 1: "learnAndCompare st0 baseline job scan sc = (st1, ch)" by (cases "learnAndCompare st0 baseline job scan sc")
  let ?b = "case js_baseline st1 of None \<Rightarrow> baseline | Some b \<Rightarrow> b"
  let ?st2 = "if \<not> sc \<and> \<not> aggregates job
       then st1\<lparr>js_baseline := Some (learnMissingPortEvidence ?b (s_snapshot scan) (completedDownAddressesByProtocolForJob ?b (s_snapshot scan) job))\<rparr>
       else st1"
  let ?seen = "observe st1 job \<lparr>sv_snapshot = s_snapshot scan, sv_changes = ch, sv_scope_changed = sc,
            sv_hosts_only = False, sv_incomplete = None, sv_deferred = []\<rparr>"
  let ?due = "remindersEnabled \<and> incidentReminderDue (js_last_incident_reminder_at ?st2) cadence (s_finished_at scan)"
  obtain st3 events where 3: "applyObservedChanges ?st2 (jb_name job) (s_id scan) ch (jb_confirmations job) (s_finished_at scan) ?seen = (st3, events)"
    by (rule prod.exhaust)
  obtain st4 reminder where 4: "(if ?due then remind st3 (js_incidents ?st2) job scan ch else (st3, [])) = (st4, reminder)" by (rule prod.exhaust)
  obtain st6 ce where 5: "(if sc then advanceCandidateWithDNSMode sha st4 scan (jb_samples job) True (jb_dns_mode job) else (st4, [])) = (st6, ce)"
    by (rule prod.exhaust)
  have "st5 = st6" "changes = ch" "evs = events @ reminder @ ce"
    using run by (simp_all only: compareComplete_def Let_def 1 3 4 5 prod.case prod.inject)
  then show thesis using that [OF 1 [folded \<open>changes = ch\<close>] refl refl refl] 3 4 5 by blast
qed

lemma job_ok_compared:
  assumes "job_ok required samples st" "js_baseline st = Some baseline" "1 \<le> required" "1 \<le> samples"
    and "jb_confirmations job = required" "jb_samples job = samples" "dns_filled (s_snapshot scan)"
    and run: "compareComplete sha st baseline job scan sc remindersEnabled cadence = (st', evs, changes)"
  shows "job_ok required samples st'"
  using run
proof (rule compareCompleteE)
  fix st1 st2 st3 st4 events reminder candidateEvents b seen due
  assume 1: "learnAndCompare st baseline job scan sc = (st1, changes)"
    and b: "b = (case js_baseline st1 of None \<Rightarrow> baseline | Some b \<Rightarrow> b)"
    and 2: "st2 = (if \<not> sc \<and> \<not> aggregates job
       then st1\<lparr>js_baseline := Some (learnMissingPortEvidence b (s_snapshot scan) (completedDownAddressesByProtocolForJob b (s_snapshot scan) job))\<rparr>
       else st1)"
    and 3: "applyObservedChanges st2 (jb_name job) (s_id scan) changes (jb_confirmations job) (s_finished_at scan) seen = (st3, events)"
    and 4: "(if due then remind st3 (js_incidents st2) job scan changes else (st3, [])) = (st4, reminder)"
    and 5: "(if sc then advanceCandidateWithDNSMode sha st4 scan (jb_samples job) True (jb_dns_mode job) else (st4, [])) = (st', candidateEvents)"
  note l = learnAndCompare_keeps [OF assms(1,2,7) 1]
  obtain b1 where b1: "js_baseline st1 = Some b1" using l(2) by blast
  have ok2: "job_ok required samples st2" unfolding 2 using job_ok_baseline [OF l(1) b1] b b1 l(1) by simp
  have "\<exists>b2. js_baseline st2 = Some b2" unfolding 2 using b1 by simp
  then obtain b2 where b2: "js_baseline st2 = Some b2" by blast
  note a = job_ok_applied [OF ok2 b2 assms(3) l(3) 3 [unfolded assms(5)]]
  have ok4: "job_ok required samples st4"
    using 4 job_ok_reminded(1) [OF a] a(1) by (cases due) auto
  show "job_ok required samples st'"
    using 5 job_ok_advanced [OF ok4 assms(7,4)] ok4 assms(6) by (cases sc) auto
qed


lemma compareIncomplete_ok:
  assumes "job_ok required samples st" "js_baseline st = Some baseline" "1 \<le> required"
    and "jb_confirmations job = required" "dns_filled (s_snapshot scan)"
    and run: "compareIncomplete st baseline job scan coverage pr = (st', evs, changes)"
  shows "job_ok required samples st'"
  using run
proof (rule compareIncompleteE)
  fix ix sc deferred
  let ?st = "clearTotalLossCandidate st"
  assume ch: "\<forall>c \<in> set changes. c \<in> set (diffForJobWithScopeLookups baseline (s_snapshot scan) sc job ix) \<and>
       comparable_change (s_snapshot scan) coverage pr c"
    and ap: "applyObservedChanges ?st (jb_name job) (s_id scan) changes (jb_confirmations job) (s_finished_at scan)
      (observe ?st job \<lparr>sv_snapshot = s_snapshot scan, sv_changes = changes,
        sv_scope_changed = sc, sv_hosts_only = False, sv_incomplete = Some pr, sv_deferred = deferred\<rparr>) = (st', evs)"
  have "dns_filled baseline" using assms(1,2) by (simp add: job_ok_def)
  then have "\<forall>c \<in> set changes. reportable c" using ch diff_reportable [OF _ assms(5)] by blast
  then show ?thesis
    by (intro job_ok_applied(1) [OF job_ok_cleared(1) [OF assms(1)] _ assms(3) _ ap [unfolded assms(4)]]) (simp_all add: assms(2))
qed

lemma job_ok_incomplete:
  assumes "job_ok required samples st" "1 \<le> required" "jb_confirmations job = required" "dns_filled (s_snapshot scan)"
    and run: "processIncompleteSuccess st job scan = (st', evs, changes)"
  shows "job_ok required samples st'"
  using run
proof (cases rule: processIncomplete_cases)
  case 1
  have "tracking_ok required (st\<lparr>js_incomplete_candidate_attempts := n\<rparr>) = tracking_ok required st" for n
    by (rule tracking_ok_cong) simp_all
  then show ?thesis using assms(1) 1(1) unfolding 1(3) by (simp add: job_ok_def untouched_def)
next
  case (2 baseline)
  then show ?thesis using job_ok_pending_cleared [OF job_ok_cleared(2) [OF assms(1)]] by simp
next
  case (3 baseline evs')
  then show ?thesis using compareIncomplete_ok [OF assms(1) 3(1) assms(2-4) 3(2)] by simp
qed

lemma job_ok_complete:
  assumes "job_ok required samples st" "1 \<le> required" "1 \<le> samples"
    and "jb_confirmations job = required" "jb_samples job = samples" "dns_filled (s_snapshot scan)"
    and run: "processComplete sha st job scan remindersEnabled cadence = (st', evs, changes)"
  shows "job_ok required samples st'"
proof -
  let ?st = "st\<lparr>js_incomplete_candidate_attempts := 0, js_consecutive_failures := 0, js_last_failure_alert := 0\<rparr>"
  have "tracking_ok required ?st = tracking_ok required st" by (rule tracking_ok_cong) simp_all
  then have ok: "job_ok required samples ?st" using assms(1) by (cases "js_baseline st") (simp_all add: job_ok_def untouched_def)
  show ?thesis
  proof (cases "js_baseline ?st")
    case None
    obtain st2 e2 where a: "advanceCandidateWithDNSMode sha (clearTotalLossCandidate ?st) scan (jb_samples job) False (jb_dns_mode job) = (st2, e2)"
      by (rule prod.exhaust)
    then have "st' = st2" using run None by (simp add: processComplete_def Let_def)
    then show ?thesis using job_ok_advanced [OF job_ok_cleared(1) [OF ok] assms(6,3) a [unfolded assms(5)]] by simp
  next
    case (Some baseline)
    let ?sc = "js_baseline_config_hash ?st \<noteq> s_config_hash scan"
    obtain st2 waiting anomaly where g: "(if baselineSurfaceIsExplicitlyDownForJob baseline (s_snapshot scan) job
        then (clearTotalLossCandidate ?st, False, []) else guardTotalLoss sha ?st baseline scan) = (st2, waiting, anomaly)"
      by (rule prod_cases3)
    have ok2: "job_ok required samples st2 \<and> js_baseline st2 = Some baseline"
      using g job_ok_guard(1,2) [OF ok Some] job_ok_cleared(1) [OF ok] Some
      by (cases "baselineSurfaceIsExplicitlyDownForJob baseline (s_snapshot scan) job") auto
    have "(if waiting then compareHostsOnly st2 baseline job scan ?sc anomaly
        else compareComplete sha st2 baseline job scan ?sc remindersEnabled cadence) = (st', evs, changes)"
      using run Some unfolding processComplete_def Let_def by (simp only: g option.case prod.case)
    then show ?thesis
      using job_ok_hosts_only [OF conjunct1 [OF ok2] conjunct2 [OF ok2] assms(2,4)]
        job_ok_compared [OF conjunct1 [OF ok2] conjunct2 [OF ok2] assms(2-6)] by (cases waiting) auto
  qed
qed

lemma job_ok_migrated: "job_ok required samples (migrate_hash st job scan) = job_ok required samples st"
proof -
  have "tracking_ok required (st\<lparr>js_baseline_config_hash := h\<rparr>) = tracking_ok required st" for h
    by (rule tracking_ok_cong) simp_all
  then have "job_ok required samples (st\<lparr>js_baseline_config_hash := h\<rparr>) = job_ok required samples st" for h
    by (cases "js_baseline st") (simp_all add: job_ok_def untouched_def)
  then show ?thesis by (simp add: migrate_hash_def)
qed

lemma job_ok_processed:
  assumes "job_ok required samples st" "1 \<le> required" "1 \<le> samples"
    and "jb_confirmations job = required" "jb_samples job = samples" "dns_filled (s_snapshot scan)"
    and run: "processSuccessWithReminderSettings sha st job scan settings = (st', evs, changes)"
  shows "job_ok required samples st'"
proof -
  let ?scan = "scan\<lparr>s_snapshot := completeHostDiscoveryStates (s_snapshot scan)\<rparr>"
  have ok: "job_ok required samples (migrate_hash st job ?scan)" using assms(1) by (simp add: job_ok_migrated)
  have d: "dns_filled (s_snapshot ?scan)" using assms(6) by simp
  consider "processIncompleteSuccess (migrate_hash st job ?scan) job ?scan = (st', evs, changes)"
    | r where "processComplete sha (migrate_hash st job ?scan) job ?scan r (rs_cadence settings) = (st', evs, changes)"
    using run unfolding processSuccessWithReminderSettings_def Let_def by metis
  then show ?thesis
    by cases (use job_ok_incomplete [OF ok assms(2,4) d] job_ok_complete [OF ok assms(2-5) d] in blast)+
qed

lemma job_ok_failed:
  assumes "job_ok required samples st" "processFailure san st job scan = (st', evs)"
  shows "job_ok required samples st'"
proof -
  let ?st = "clearUnconfirmedTotalLoss st"
  have t: "tracking_ok required (s\<lparr>js_consecutive_failures := n, js_last_failure_alert := m\<rparr>) = tracking_ok required s" for s n m
    by (rule tracking_ok_cong) simp_all
  note ok = job_ok_cleared(2) [OF assms(1)]
  have "job_ok required samples (s\<lparr>js_consecutive_failures := js_consecutive_failures s + 1,
      js_last_failure_alert := js_consecutive_failures s + 1\<rparr>)" if "job_ok required samples s" for s
    using that t [where s = s] by (cases "js_baseline s") (simp_all add: job_ok_def untouched_def)
  moreover have "st' = ?st \<or> st' = ?st\<lparr>js_consecutive_failures := js_consecutive_failures ?st + 1,
      js_last_failure_alert := js_consecutive_failures ?st + 1\<rparr>"
    using assms(2) unfolding processFailure_def Let_def by (metis prod.inject)
  ultimately show ?thesis using ok by metis
qed

lemma job_ok_alert_key: "job_ok required samples (st\<lparr>js_budget_skip_alert_key := s\<rparr>) = job_ok required samples st"
proof -
  have "tracking_ok required (st\<lparr>js_budget_skip_alert_key := s\<rparr>) = tracking_ok required st" by (rule tracking_ok_cong) simp_all
  then show ?thesis by (cases "js_baseline st") (simp_all add: job_ok_def untouched_def)
qed

lemma job_ok_finalized:
  assumes "job_ok required samples st" "1 \<le> required" "1 \<le> samples"
    and "jb_confirmations job = required" "jb_samples job = samples" "dns_filled (s_snapshot scan)"
    and run: "finalizeManagedScan sha san st job scan settings = (st', scan', evs)"
  shows "job_ok required samples st'"
proof -
  let ?st = "st\<lparr>js_budget_skip_alert_key := []\<rparr>"
  let ?scan = "if s_status scan = ''success'' then fst (MarkIncompleteScan scan) else scan"
  have ok: "job_ok required samples ?st" using assms(1) by (simp add: job_ok_alert_key)
  have d: "dns_filled (s_snapshot ?scan)" using assms(6) by (simp add: MarkIncompleteScan_def Let_def)
  show ?thesis
  proof (cases "s_status ?scan = ''success'' \<or> s_status ?scan = ''incomplete''")
    case True
    let ?scan1 = "if js_baseline ?st \<noteq> None then ?scan\<lparr>s_baseline_scan_id := js_baseline_scan_id ?st,
        s_baseline_config_hash := js_baseline_config_hash ?st\<rparr> else ?scan"
    obtain st2 e2 ch where p: "processSuccessWithReminderSettings sha ?st job ?scan1 settings = (st2, e2, ch)"
      by (rule prod_cases3)
    have "fst (finalizeManagedScan sha san st job scan settings) = fst (finalizeCompared sha ?st job ?scan settings)"
      using True unfolding finalizeManagedScan_def Let_def by (simp only: if_True)
    also have "\<dots> = st2" unfolding finalizeCompared_def Let_def p prod.case fst_conv ..
    finally have "st' = st2" using run by simp
    moreover have "dns_filled (s_snapshot ?scan1)" using d by (cases "js_baseline st") simp_all
    ultimately show ?thesis using job_ok_processed [OF ok assms(2-5) _ p] by simp
  next
    case False
    obtain st2 e2 where f: "processFailure san ?st (jb_name job) ?scan = (st2, e2)" by (rule prod.exhaust)
    have "st' = st2" using False run unfolding finalizeManagedScan_def Let_def by (simp only: if_False f prod.case prod.inject)
    then show ?thesis using job_ok_failed [OF ok f] by simp
  qed
qed

text \<open>The states of a job that scans of any kind can reach, in any order.\<close>

inductive job_reachable :: "hasher \<Rightarrow> (string \<Rightarrow> string) \<Rightarrow> int \<Rightarrow> int \<Rightarrow> job_state \<Rightarrow> bool"
  for sha san required samples where
  start: "job_reachable sha san required samples empty_job_state"
| scanned: "job_reachable sha san required samples st \<Longrightarrow> jb_confirmations job = required \<Longrightarrow> jb_samples job = samples \<Longrightarrow>
    dns_filled (s_snapshot scan) \<Longrightarrow> finalizeManagedScan sha san st job scan settings = (st', scan', evs) \<Longrightarrow>
    job_reachable sha san required samples st'"

text \<open>
  C3: The invariant of a job's state after any sequence of successful, incomplete, failed and
  cancelled scans: the findings are well-formed; a candidate exists exactly while its count is
  positive, and the count stays below the required samples and the attempts; a total loss is
  counted at most twice; every fingerprint was counted; and a job without a baseline tracks no
  finding, has used no reminder and waits for no decision.
\<close>

theorem reachable_job_ok:
  assumes "job_reachable sha san required samples st" "1 \<le> required" "1 \<le> samples"
  shows "job_ok required samples st"
  using assms
proof (induction rule: job_reachable.induct)
  case start
  then show ?case by (intro job_ok_empty)
next
  case (scanned st job scan settings st' scan' evs)
  then show ?case using job_ok_finalized by blast
qed


theorem reachable_job_ok_witness:
  "job_ok 2 3 (fst (finalizeManagedScan (\<lambda>_. ''h'') id empty_job_state (example_job 2 3)
     (example_managed_scan ''success'' empty_snapshot) no_reminders))"
proof (rule reachable_job_ok [where sha = "\<lambda>_. ''h''" and san = id])
  show "job_reachable (\<lambda>_. ''h'') id 2 3 (fst (finalizeManagedScan (\<lambda>_. ''h'') id empty_job_state (example_job 2 3)
     (example_managed_scan ''success'' empty_snapshot) no_reminders))"
    by (rule job_reachable.scanned [OF job_reachable.start _ _ _ surjective_pairing3])
       (simp_all add: example_job_def example_managed_scan_def empty_snapshot_def dns_filled_def)
qed simp_all

end
