(* ===== verification/Samples.thy ===== *)
theory Samples
  imports EngineFacts
begin

text \<open>
  How samples become a baseline: a job without a baseline that scans complete targets. The
  candidate counts equal samples, and a service name enters the baseline only when every one
  of these samples reported it.
\<close>

section \<open>One sample\<close>

definition sample_of :: "scan \<Rightarrow> snapshot" where
  "sample_of scan = completeHostDiscoveryStates (s_snapshot scan)"

definition complete_scan :: "scan \<Rightarrow> bool" where
  "complete_scan scan \<longleftrightarrow> \<not> snapshotHasUnreachableHost (sample_of scan)"

definition sample_hash :: "hasher \<Rightarrow> job \<Rightarrow> scan \<Rightarrow> string" where
  "sample_hash sha job scan = snapshotHashForDNSMode sha (sample_of scan) (jb_dns_mode job)"

definition run_samples :: "hasher \<Rightarrow> job \<Rightarrow> job_state \<Rightarrow> scan list \<Rightarrow> job_state" where
  "run_samples sha job st scans = fold (\<lambda>scan st. fst (processSuccess sha st job scan)) scans st"

lemma run_samples_snoc: "run_samples sha job st (scans @ [x]) = fst (processSuccess sha (run_samples sha job st scans) job x)"
  by (simp add: run_samples_def)

definition counted :: "hasher \<Rightarrow> job \<Rightarrow> job_state \<Rightarrow> scan \<Rightarrow> int" where
  "counted sha job st scan = (if js_candidate_hash st = sample_hash sha job scan then js_candidate_count st + 1 else 1)"

lemma sample_step:
  assumes "js_baseline st = None" "complete_scan scan" "st' = fst (processSuccess sha st job scan)"
  shows "js_fingerprint_candidates st' = mfilter (\<lambda>k. k \<in> fingerprint_key_of ` {up \<in> set (unit_ports (sample_of scan)). ps_service (snd up) \<noteq> []})
      (fold candidate_step (unit_ports (sample_of scan)) (js_fingerprint_candidates st))"
    and "counted sha job st scan < jb_samples job \<Longrightarrow> js_baseline st' = None \<and> js_candidate_hash st' = sample_hash sha job scan \<and>
      js_candidate_count st' = counted sha job st scan"
    and "jb_samples job \<le> counted sha job st scan \<Longrightarrow>
      js_baseline st' = Some (withStableFingerprints (sample_of scan) (js_fingerprint_candidates st') (jb_samples job)) \<and>
      js_baseline_scan_id st' = s_id scan"
proof -
  let ?scan = "scan\<lparr>s_snapshot := sample_of scan\<rparr>"
  let ?st = "clearTotalLossCandidate ((migrate_hash st job ?scan)\<lparr>js_incomplete_candidate_attempts := 0,
    js_consecutive_failures := 0, js_last_failure_alert := 0\<rparr>)"
  have m: "migrate_hash st job ?scan = st" using assms(1) by (simp add: migrate_hash_def)
  have st': "st' = fst (advanceCandidateWithDNSMode sha ?st ?scan (jb_samples job) False (jb_dns_mode job))"
    using assms(1,2) unfolding assms(3) complete_scan_def sample_of_def
    by (simp add: processSuccess_def processSuccessWithReminderSettings_def Let_def processComplete_def split_beta m [unfolded sample_of_def])
  have fields: "js_fingerprint_candidates ?st = js_fingerprint_candidates st" "js_candidate_hash ?st = js_candidate_hash st"
    "js_candidate_count ?st = js_candidate_count st" "js_baseline ?st = None"
    using assms(1) unfolding m by (simp_all add: clearTotalLossCandidate_def)
  let ?c = "count_candidate sha ?st ?scan (jb_dns_mode job)"
  have c: "js_candidate_count ?c = counted sha job st scan" "js_candidate_hash ?c = sample_hash sha job scan" "js_baseline ?c = None"
    by (simp_all add: count_candidate_def updateFingerprintCandidates_def Let_def fields counted_def sample_hash_def assms(1))
  have c4: "js_fingerprint_candidates ?c = mfilter (\<lambda>k. k \<in> fingerprint_key_of ` {up \<in> set (unit_ports (sample_of scan)). ps_service (snd up) \<noteq> []})
      (fold candidate_step (unit_ports (sample_of scan)) (js_fingerprint_candidates st))"
    by (simp add: count_candidate_def updateFingerprintCandidates_def Let_def fields)
       (rule arg_cong [where f = "\<lambda>P. mfilter P _"], rule ext, blast)
  show "js_fingerprint_candidates st' = mfilter (\<lambda>k. k \<in> fingerprint_key_of ` {up \<in> set (unit_ports (sample_of scan)). ps_service (snd up) \<noteq> []})
      (fold candidate_step (unit_ports (sample_of scan)) (js_fingerprint_candidates st))"
    unfolding c4 [symmetric] st' by (simp add: advanceCandidateWithDNSMode_def Let_def accept_candidate_def)
  show "js_baseline st' = None \<and> js_candidate_hash st' = sample_hash sha job scan \<and> js_candidate_count st' = counted sha job st scan"
    if "counted sha job st scan < jb_samples job"
    using that unfolding st' by (simp add: advanceCandidateWithDNSMode_def Let_def c)
  show "js_baseline st' = Some (withStableFingerprints (sample_of scan) (js_fingerprint_candidates st') (jb_samples job)) \<and>
      js_baseline_scan_id st' = s_id scan" if "jb_samples job \<le> counted sha job st scan"
    using that unfolding st' by (simp add: advanceCandidateWithDNSMode_def Let_def c accept_candidate_def)
qed

section \<open>Fingerprints of a run of samples\<close>

text \<open>A snapshot whose ports have keys of their own.\<close>

definition distinct_ports :: "snapshot \<Rightarrow> bool" where
  "distinct_ports s \<longleftrightarrow> distinct (map fingerprint_key_of (unit_ports s))"

definition service_reported :: "snapshot \<Rightarrow> string \<Rightarrow> string \<Rightarrow> bool" where
  "service_reported s k v \<longleftrightarrow> (\<exists>up \<in> set (unit_ports s). fingerprint_key_of up = k \<and> ps_service (snd up) = v)"

text \<open>A count of a fingerprint stands for as many latest samples that report it.\<close>

definition counts_reports :: "fingerprints \<Rightarrow> snapshot list \<Rightarrow> bool" where
  "counts_reports m ss \<longleftrightarrow> (\<forall>k. 0 \<le> vc_count (count_of m k) \<and> nat (vc_count (count_of m k)) \<le> length ss \<and>
     (\<forall>s \<in> set (take (nat (vc_count (count_of m k))) (rev ss)). service_reported s k (vc_value (count_of m k))))"

lemma count_of_mput [simp]: "count_of (mput k c m) k' = (if k' = k then c else count_of m k')"
  by (simp add: count_of_def)

lemma count_of_step: "count_of (candidate_step up m) k =
    (if ps_service (snd up) \<noteq> [] \<and> fingerprint_key_of up = k then count_fingerprint (count_of m k) (ps_service (snd up)) else count_of m k)"
  by (auto simp: candidate_step_def)

lemma count_of_fold:
  assumes "distinct (map fingerprint_key_of ups)"
  shows "count_of (fold candidate_step ups m) k =
    (case find (\<lambda>up. ps_service (snd up) \<noteq> [] \<and> fingerprint_key_of up = k) ups of
       None \<Rightarrow> count_of m k | Some up \<Rightarrow> count_fingerprint (count_of m k) (ps_service (snd up)))"
  using assms
proof (induction ups arbitrary: m)
  case (Cons up ups)
  have none: "find (\<lambda>u. ps_service (snd u) \<noteq> [] \<and> fingerprint_key_of u = k) ups = None" if "fingerprint_key_of up = k"
    using Cons.prems that unfolding find_None_iff by (metis list.map(2) distinct.simps(2) set_map image_eqI)
  have d: "distinct (map fingerprint_key_of ups)" using Cons.prems by simp
  show ?case
    using none
    by (cases "find (\<lambda>up. ps_service (snd up) \<noteq> [] \<and> fingerprint_key_of up = k) ups")
       (auto simp: Cons.IH [OF d] count_of_step)
qed simp

lemma counts_reports_step:
  assumes "counts_reports m ss" "distinct_ports s"
  shows "counts_reports (mfilter (\<lambda>k. k \<in> fingerprint_key_of ` {up \<in> set (unit_ports s). ps_service (snd up) \<noteq> []})
      (fold candidate_step (unit_ports s) m)) (ss @ [s])"
    (is "counts_reports (mfilter ?P ?m) _")
  unfolding counts_reports_def
proof
  fix k
  let ?c = "count_of m k"
  have old: "0 \<le> vc_count ?c" "nat (vc_count ?c) \<le> length ss" "\<forall>s \<in> set (take (nat (vc_count ?c)) (rev ss)). service_reported s k (vc_value ?c)"
    using assms(1) by (auto simp: counts_reports_def)
  show "0 \<le> vc_count (count_of (mfilter ?P ?m) k) \<and> nat (vc_count (count_of (mfilter ?P ?m) k)) \<le> length (ss @ [s]) \<and>
     (\<forall>s \<in> set (take (nat (vc_count (count_of (mfilter ?P ?m) k))) (rev (ss @ [s]))). service_reported s k (vc_value (count_of (mfilter ?P ?m) k)))"
  proof (cases "find (\<lambda>up. ps_service (snd up) \<noteq> [] \<and> fingerprint_key_of up = k) (unit_ports s)")
    case None
    then have "\<not> ?P k" unfolding find_None_iff by blast
    then have "count_of (mfilter ?P ?m) k = zero_count" by (simp add: count_of_def)
    then show ?thesis by (simp add: zero_count_def)
  next
    case (Some up)
    then have up: "up \<in> set (unit_ports s)" "fingerprint_key_of up = k" "ps_service (snd up) \<noteq> []"
      by (auto simp: find_Some_iff)
    then have "?P k" by blast
    then have c: "count_of (mfilter ?P ?m) k = count_fingerprint ?c (ps_service (snd up))"
      using count_of_fold [OF assms(2) [unfolded distinct_ports_def], of m k] Some by (simp add: count_of_def)
    have s: "service_reported s k (ps_service (snd up))" using up by (auto simp: service_reported_def)
    show ?thesis
      using old s unfolding c by (auto simp: count_fingerprint_def nat_add_distrib)
  qed
qed


section \<open>A run of equal samples\<close>

definition without_services :: "snapshot \<Rightarrow> snapshot" where
  "without_services s = s\<lparr>sn_units := map (\<lambda>u. u\<lparr>u_ports := map (\<lambda>p. p\<lparr>ps_service := []\<rparr>) (u_ports u)\<rparr>) (sn_units s)\<rparr>"

lemma without_services_stable: "without_services (withStableFingerprints s m n) = without_services s"
  by (simp add: without_services_def withStableFingerprints_def Let_def comp_def)

lemma stable_service:
  assumes "up \<in> set (unit_ports (withStableFingerprints s m n))" "ps_service (snd up) \<noteq> []"
  shows "n \<le> vc_count (count_of m (fingerprint_key_of up)) \<and> vc_value (count_of m (fingerprint_key_of up)) = ps_service (snd up)"
  using assms
  by (auto simp: unit_ports_def withStableFingerprints_def Let_def fingerprint_key_of_def split: if_splits)

text \<open>Fewer equal samples than required: the count goes on, and the fingerprints with it.\<close>

lemma run_samples_prefix:
  assumes "js_baseline st = None" "js_candidate_hash st \<noteq> h" "js_fingerprint_candidates st = []"
    and "\<forall>x \<in> set scans. complete_scan x \<and> sample_hash sha job x = h \<and> distinct_ports (sample_of x)"
    and "int (length scans) < jb_samples job"
  shows "js_baseline (run_samples sha job st scans) = None \<and>
    (\<forall>x. sample_hash sha job x = h \<longrightarrow> counted sha job (run_samples sha job st scans) x = int (length scans) + 1) \<and>
    counts_reports (js_fingerprint_candidates (run_samples sha job st scans)) (map sample_of scans)"
  using assms(4,5)
proof (induction scans rule: rev_induct)
  case Nil
  show ?case
    using assms(1-3) by (simp add: run_samples_def counted_def counts_reports_def count_of_def zero_count_def)
next
  case (snoc x xs)
  let ?st = "run_samples sha job st xs"
  have x: "complete_scan x" "sample_hash sha job x = h" "distinct_ports (sample_of x)"
    and xs: "\<forall>x \<in> set xs. complete_scan x \<and> sample_hash sha job x = h \<and> distinct_ports (sample_of x)" "int (length xs) < jb_samples job"
    using snoc.prems by auto
  have ih: "js_baseline ?st = None" "counted sha job ?st x = int (length xs) + 1"
    "counts_reports (js_fingerprint_candidates ?st) (map sample_of xs)"
    using snoc.IH [OF xs] x(2) by auto
  note step = sample_step [where scan = x and sha = sha and job = job, OF ih(1) x(1) run_samples_snoc]
  have "js_baseline (run_samples sha job st (xs @ [x])) = None \<and>
    (\<forall>y. sample_hash sha job y = h \<longrightarrow> counted sha job (run_samples sha job st (xs @ [x])) y = int (length (xs @ [x])) + 1)"
    using step(2) ih(2) snoc.prems(2) x(2) by (simp add: counted_def [of _ _ "run_samples sha job st (xs @ [x])"])
  moreover have "counts_reports (js_fingerprint_candidates (run_samples sha job st (xs @ [x]))) (map sample_of (xs @ [x]))"
    unfolding step(1) using counts_reports_step [OF ih(3) x(3)] by simp
  ultimately show ?case by blast
qed

text \<open>
  C4: A job without a baseline establishes it by exactly the required number of equal
  complete samples in a row, and not earlier. The baseline is the last of these samples but
  for the names of services; a name is in it only when every one of the samples reported it
  for that port.
\<close>

theorem baseline_needs_equal_samples:
  assumes "js_baseline st = None" "js_candidate_hash st \<noteq> h" "js_fingerprint_candidates st = []" "scans \<noteq> []"
    and "\<forall>x \<in> set scans. complete_scan x \<and> sample_hash sha job x = h \<and> distinct_ports (sample_of x)"
    and "int (length scans) \<le> jb_samples job"
  shows "(js_baseline (run_samples sha job st scans) \<noteq> None \<longleftrightarrow> int (length scans) = jb_samples job) \<and>
    (\<forall>b. js_baseline (run_samples sha job st scans) = Some b \<longrightarrow>
       js_baseline_scan_id (run_samples sha job st scans) = s_id (last scans) \<and>
       without_services b = without_services (sample_of (last scans)) \<and>
       (\<forall>up \<in> set (unit_ports b). ps_service (snd up) \<noteq> [] \<longrightarrow>
          (\<forall>x \<in> set scans. service_reported (sample_of x) (fingerprint_key_of up) (ps_service (snd up)))))"
proof (cases "int (length scans) < jb_samples job")
  case True
  then show ?thesis using run_samples_prefix [OF assms(1-3,5)] by simp
next
  case False
  then have len: "int (length scans) = jb_samples job" using assms(6) by simp
  obtain xs x where xs: "scans = xs @ [x]" using assms(4) by (cases scans rule: rev_cases) auto
  let ?st = "run_samples sha job st xs" and ?st' = "run_samples sha job st scans"
  have x: "complete_scan x" "sample_hash sha job x = h" "distinct_ports (sample_of x)"
    and prefix: "\<forall>x \<in> set xs. complete_scan x \<and> sample_hash sha job x = h \<and> distinct_ports (sample_of x)" "int (length xs) < jb_samples job"
    using assms(5) len xs by auto
  have pre: "js_baseline ?st = None" "counted sha job ?st x = int (length xs) + 1"
    "counts_reports (js_fingerprint_candidates ?st) (map sample_of xs)"
    using run_samples_prefix [OF assms(1-3) prefix] x(2) by auto
  have "?st' = fst (processSuccess sha ?st job x)" by (simp add: xs run_samples_snoc)
  note step = sample_step [OF pre(1) x(1) this]
  have m: "counts_reports (js_fingerprint_candidates ?st') (map sample_of scans)"
    unfolding step(1) using counts_reports_step [OF pre(3) x(3)] by (simp add: xs)
  have b: "js_baseline ?st' = Some (withStableFingerprints (sample_of x) (js_fingerprint_candidates ?st') (jb_samples job))"
    "js_baseline_scan_id ?st' = s_id x" using step(3) pre(2) len xs by simp_all
  have "\<forall>y \<in> set scans. service_reported (sample_of y) (fingerprint_key_of up) (ps_service (snd up))"
    if up: "up \<in> set (unit_ports (withStableFingerprints (sample_of x) (js_fingerprint_candidates ?st') (jb_samples job)))"
      "ps_service (snd up) \<noteq> []" for up
  proof -
    let ?c = "count_of (js_fingerprint_candidates ?st') (fingerprint_key_of up)"
    have c: "jb_samples job \<le> vc_count ?c" "vc_value ?c = ps_service (snd up)" using stable_service [OF up] by auto
    then have "length scans \<le> nat (vc_count ?c)" using len by linarith
    then have "take (nat (vc_count ?c)) (rev (map sample_of scans)) = rev (map sample_of scans)" by simp
    then show ?thesis
      using m c(2) unfolding counts_reports_def by (metis (no_types, lifting) image_eqI list.set_map set_rev)
  qed
  then show ?thesis using b len xs by (simp add: without_services_stable)
qed


lemma constant_hash [simp]: "sample_hash (\<lambda>_. h) job scan = h"
  by (simp add: sample_hash_def snapshotHashForDNSMode_def addressSensitiveSnapshotHash_def Snapshot_Hash_def)

lemma example_sample_complete: "complete_scan (example_managed_scan ''success'' example_snapshot)"
  "distinct_ports (sample_of (example_managed_scan ''success'' example_snapshot))"
  by code_simp+

lemma example_samples:
  assumes "scans \<noteq> []" "set scans \<subseteq> {example_managed_scan ''success'' example_snapshot}" "int (length scans) \<le> 2"
  shows "js_baseline empty_job_state = None" "js_candidate_hash empty_job_state \<noteq> ''h''" "js_fingerprint_candidates empty_job_state = []"
    "scans \<noteq> []" "\<forall>x \<in> set scans. complete_scan x \<and> sample_hash (\<lambda>_. ''h'') (example_job 1 2) x = ''h'' \<and> distinct_ports (sample_of x)"
    "int (length scans) \<le> jb_samples (example_job 1 2)"
  using assms example_sample_complete by (auto simp: empty_job_state_def example_job_def)

theorem baseline_needs_equal_samples_witness:
  "js_baseline (run_samples (\<lambda>_. ''h'') (example_job 1 2) empty_job_state [example_managed_scan ''success'' example_snapshot]) = None \<and>
   js_baseline (run_samples (\<lambda>_. ''h'') (example_job 1 2) empty_job_state
     [example_managed_scan ''success'' example_snapshot, example_managed_scan ''success'' example_snapshot]) \<noteq> None"
  (is "js_baseline ?one = None \<and> js_baseline ?two \<noteq> None")
proof -
  have s: "jb_samples (example_job 1 2) = 2" by (simp add: example_job_def)
  let ?x = "example_managed_scan ''success'' example_snapshot"
  have "js_baseline ?one \<noteq> None \<longleftrightarrow> int (length [example_managed_scan ''success'' example_snapshot]) = jb_samples (example_job 1 2)"
    by (rule baseline_needs_equal_samples [THEN conjunct1, OF example_samples [where scans = "[?x]"]]) simp_all
  moreover have "js_baseline ?two \<noteq> None \<longleftrightarrow>
      int (length [example_managed_scan ''success'' example_snapshot, example_managed_scan ''success'' example_snapshot]) = jb_samples (example_job 1 2)"
    by (rule baseline_needs_equal_samples [THEN conjunct1, OF example_samples [where scans = "[?x, ?x]"]]) simp_all
  ultimately show ?thesis using s by simp
qed

end
