(* ===== verification/TotalLoss.thy ===== *)
theory TotalLoss
  imports Samples
begin

text \<open>
  When an empty scan is believed: a complete scan without one positive port, against a baseline
  that has some, is only believed when a second one confirms it.
\<close>

lemma silent_untracked:
  assumes "wf_tracking st" "applyObservedChanges st job scanID current required now seen = (st', evs)"
    and "finding_of st k = no_finding" "silent k current"
  shows "finding_of st' k = no_finding"
  using assms(3,4) unfolding applyObservedChanges_at(2) [OF assms(1,2)]
  by (simp add: step_at_def finding_step_def silent_def recover_finding_def no_finding_def Let_def)

lemma untracked_finding:
  assumes "k \<notin> set (mkeys (js_pending st) @ mkeys (js_incidents st) @ mkeys (js_suppressed st) @ mkeys (js_suppressed_changes st))"
  shows "finding_of st k = no_finding"
  using assms mkeys_iff [of k "js_pending st"] mkeys_iff [of k "js_incidents st"] mkeys_iff [of k "js_suppressed st"]
    mkeys_iff [of k "js_suppressed_changes st"]
  by (auto simp: finding_of_def no_finding_def)

lemma host_filter_kind:
  assumes "c \<in> set (filterDNSAggregateChanges old new (hostStateChanges old new b) job)"
  shows "c_kind c = ''host'' \<and> hasPrefix (c_key c) ''host|''"
proof -
  have "c \<in> set (hostStateChanges old new b)" using assms filterDNS_subset by blast
  then show ?thesis using hostStateChanges_keys(2) by (fastforce simp: hostKey_def hasPrefix_def)
qed

text \<open>While the guard waits, findings of other kinds than hosts stay as they are.\<close>

lemma hosts_only_keeps:
  assumes "tracking_ok (jb_confirmations job) st" "js_baseline st = Some b" "1 \<le> jb_confirmations job"
    and run: "compareHostsOnly st b job scan False anomaly = (st', evs, changes)"
  shows "\<forall>c \<in> set changes. c_kind c = ''host''" "\<not> hasPrefix k ''host|'' \<Longrightarrow> finding_of st' k = finding_of st k"
    "same_besides_findings st st'" "set anomaly \<subseteq> set evs"
proof -
  let ?hc = "filterDNSAggregateChanges b (s_snapshot scan) (hostStateChanges b (s_snapshot scan) False) job"
  let ?view = "\<lparr>sv_snapshot = s_snapshot scan, sv_changes = ?hc, sv_scope_changed = False,
            sv_hosts_only = True, sv_incomplete = None, sv_deferred = []\<rparr>"
  let ?seen = "observe st job ?view"
  obtain st2 e2 where a: "applyObservedChanges st (jb_name job) (s_id scan) ?hc (jb_confirmations job) (s_finished_at scan) ?seen = (st2, e2)"
    by (rule prod.exhaust)
  have run': "(st', evs, changes) = (if ?hc \<noteq> [] then (st2, anomaly @ e2, ?hc) else (retireFrom ?seen st, anomaly, []))"
    using run unfolding compareHostsOnly_def Let_def a prod.case ..
  have ret: "set (ob_retired ?seen) = {}" using observe_retired [OF assms(2), of job ?view] by (simp add: scope_retired_def)
  have host: "c_kind c = ''host'' \<and> hasPrefix (c_key c) ''host|''" if "c \<in> set ?hc" for c
    using host_filter_kind that by blast
  have cases: "(st' = st2 \<and> evs = anomaly @ e2 \<and> changes = ?hc) \<or> (st' = retireFrom ?seen st \<and> evs = anomaly \<and> changes = [])"
    using run' by (metis prod.inject)
  then show "\<forall>c \<in> set changes. c_kind c = ''host''" using host by auto
  show "same_besides_findings st st'" using cases applyObservedChanges_frame [OF a] retireFrom_frame by blast
  show "set anomaly \<subseteq> set evs" using cases by auto
  show "finding_of st' k = finding_of st k" if k: "\<not> hasPrefix k ''host|''"
  proof -
    have quiet: "k \<notin> c_key ` set ?hc" using host k by blast
    have rep: "\<forall>c \<in> set ?hc. reportable c" using host_filter_reportable by blast
    have "finding_of st2 k = finding_of st k"
    proof (cases "k \<in> set (protectedNonHostChangeKeys st)")
      case True
      then have "k \<in> set (ob_unobserved ?seen)" using assms(2) quiet by (simp add: observe_def Let_def split_beta)
      then show ?thesis using unobserved_kept [OF assms(1,3) rep _ _ silent_keys [OF quiet] a] ret by simp
    next
      case False
      then have "finding_of st k = no_finding" using k by (intro untracked_finding) (simp add: protectedNonHostChangeKeys_def)
      then show ?thesis using silent_untracked [OF _ a _ silent_keys [OF quiet]] assms(1) by (simp add: tracking_ok_def)
    qed
    moreover have "finding_of (retireFrom ?seen st) k = finding_of st k" using ret by (simp add: finding_of_retireFrom)
    ultimately show ?thesis using cases by metis
  qed
qed

text \<open>A complete scan, in the unchanged scope, that lost every positive port of the baseline.\<close>

definition lost_everything :: "job_state \<Rightarrow> snapshot \<Rightarrow> job \<Rightarrow> scan \<Rightarrow> bool" where
  "lost_everything st b job scan \<longleftrightarrow> js_baseline st = Some b \<and> complete_scan scan \<and>
     positivePortCount b \<noteq> 0 \<and> positivePortCount (sample_of scan) = 0 \<and>
     js_baseline_config_hash st = s_config_hash scan \<and> \<not> baselineSurfaceIsExplicitlyDownForJob b (sample_of scan) job"

definition loss_identity :: "hasher \<Rightarrow> job_state \<Rightarrow> scan \<Rightarrow> string" where
  "loss_identity sha st scan = totalLossIdentity sha st (scan\<lparr>s_snapshot := sample_of scan\<rparr>)"

text \<open>The counters that every complete scan resets.\<close>

definition scan_completed :: "job_state \<Rightarrow> job_state" where
  "scan_completed st = st\<lparr>js_incomplete_candidate_attempts := 0, js_consecutive_failures := 0, js_last_failure_alert := 0\<rparr>"

lemma migrate_same: "js_baseline_config_hash st = s_config_hash scan \<Longrightarrow> migrate_hash st job scan = st"
  by (simp add: migrate_hash_def)

lemma lost_everything_run:
  assumes "lost_everything st b job scan"
    and "processSuccessWithReminderSettings sha st job scan settings = (st', evs, changes)"
    and "guardTotalLoss sha (scan_completed st) b (scan\<lparr>s_snapshot := sample_of scan\<rparr>) = (st2, waiting, anomaly)"
  shows "(if waiting then compareHostsOnly st2 b job (scan\<lparr>s_snapshot := sample_of scan\<rparr>) False anomaly
    else compareComplete sha st2 b job (scan\<lparr>s_snapshot := sample_of scan\<rparr>) False
      (rs_enabled settings \<and> s_status scan = ''success'') (rs_cadence settings)) = (st', evs, changes)"
proof -
  let ?scan = "scan\<lparr>s_snapshot := completeHostDiscoveryStates (s_snapshot scan)\<rparr>"
  have s: "?scan = scan\<lparr>s_snapshot := sample_of scan\<rparr>" by (simp add: sample_of_def)
  have m: "migrate_hash st job ?scan = st" using assms(1) by (intro migrate_same) (simp add: lost_everything_def)
  have c: "\<not> snapshotHasUnreachableHost (s_snapshot ?scan)" and down: "\<not> baselineSurfaceIsExplicitlyDownForJob b (s_snapshot ?scan) job"
    and b: "js_baseline st = Some b" and h: "js_baseline_config_hash st = s_config_hash scan"
    using assms(1) by (simp_all add: lost_everything_def complete_scan_def sample_of_def)
  have "processComplete sha st job ?scan (rs_enabled settings \<and> s_status scan = ''success'') (rs_cadence settings) = (st', evs, changes)"
    using assms(2) c by (simp add: processSuccessWithReminderSettings_def Let_def m)
  moreover have "js_baseline (scan_completed st) = Some b" "(js_baseline_config_hash (scan_completed st) \<noteq> s_config_hash ?scan) = False"
    "baselineSurfaceIsExplicitlyDownForJob b (s_snapshot ?scan) job = False"
    using b h down by (simp_all add: scan_completed_def)
  ultimately show ?thesis
    unfolding processComplete_def Let_def scan_completed_def [symmetric]
    by (simp only: option.case if_False prod.case assms(3) s)
qed

lemma guard_lost:
  assumes "lost_everything st b job scan"
  shows "guardTotalLoss sha (scan_completed st) b (scan\<lparr>s_snapshot := sample_of scan\<rparr>) =
    (let n = (if js_total_loss_candidate_hash st \<noteq> loss_identity sha st scan then 1
        else if js_total_loss_candidate_count st < 2 then js_total_loss_candidate_count st + 1 else js_total_loss_candidate_count st);
      st2 = (scan_completed st)\<lparr>js_total_loss_candidate_hash := loss_identity sha st scan, js_total_loss_candidate_count := n\<rparr>
     in (st2, n < 2, if n < 2 then [scan_event scan ''scan-anomaly'' (''Scan returned zero positive ports while the baseline contains '' @
        itoa (positivePortCount b) @ ''; awaiting confirmation'')] else []))"
proof -
  have f: "totalLossIdentity sha (scan_completed st) (scan\<lparr>s_snapshot := sample_of scan\<rparr>) = loss_identity sha st scan"
    by (simp add: loss_identity_def totalLossIdentity_def scan_completed_def)
  have on: "positivePortCount b \<noteq> 0" "positivePortCount (sample_of scan) = 0"
    "js_baseline_config_hash (scan_completed st) = s_config_hash scan"
    using assms by (simp_all add: lost_everything_def scan_completed_def)
  have ev: "scan_event (scan\<lparr>s_snapshot := s\<rparr>) t m = scan_event scan t m" for s t m by (simp add: scan_event_def)
  have h: "js_total_loss_candidate_hash (scan_completed st) = js_total_loss_candidate_hash st"
    "js_total_loss_candidate_count (scan_completed st) = js_total_loss_candidate_count st" by (simp_all add: scan_completed_def)
  have same: "x\<lparr>js_total_loss_candidate_hash := h, js_total_loss_candidate_count := n\<rparr> = x\<lparr>js_total_loss_candidate_count := n\<rparr>"
    "x\<lparr>js_total_loss_candidate_hash := h, js_total_loss_candidate_count := js_total_loss_candidate_count x\<rparr> = x"
    if "js_total_loss_candidate_hash x = h" for x :: job_state and h n
    using that by (cases x; simp)+
  show ?thesis
  proof (cases "js_total_loss_candidate_hash st = loss_identity sha st scan")
    case True
    note same' = same [of "scan_completed st", OF h(1) [THEN trans, OF True]]
    show ?thesis
      using on same' True unfolding guardTotalLoss_def Let_def f
      by (cases "js_total_loss_candidate_count st < 2") (simp_all add: totalLossConfirmationScans_def h ev)
  next
    case False
    then show ?thesis
      using on unfolding guardTotalLoss_def Let_def f by (simp add: totalLossConfirmationScans_def h ev)
  qed
qed

text \<open>
  C2: The first complete scan that finds every expected port gone closes none of them: it
  raises an anomaly, reports changes of hosts only, and every other finding stays as it is.
  The next such scan of the same targets finds the loss confirmed and is compared like any
  other, as are those that follow.
\<close>

theorem total_loss_needs_confirmation:
  assumes "lost_everything st b job scan" "job_ok (jb_confirmations job) (jb_samples job) st" "1 \<le> jb_confirmations job"
    and run: "processSuccessWithReminderSettings sha st job scan settings = (st', evs, changes)"
  shows
    "if js_total_loss_candidate_hash st = loss_identity sha st scan \<and> 1 \<le> js_total_loss_candidate_count st
     then (st', evs, changes) = compareComplete sha ((scan_completed st)\<lparr>js_total_loss_candidate_count := 2\<rparr>) b job
        (scan\<lparr>s_snapshot := sample_of scan\<rparr>) False (rs_enabled settings \<and> s_status scan = ''success'') (rs_cadence settings)
     else (\<forall>c \<in> set changes. c_kind c = ''host'') \<and> (\<exists>e \<in> set evs. e_type e = ''scan-anomaly'') \<and>
       (\<forall>k. \<not> hasPrefix k ''host|'' \<longrightarrow> finding_of st' k = finding_of st k) \<and> expectations st' = expectations st \<and>
       js_total_loss_candidate_count st' = 1 \<and>
       (\<forall>nx. s_config_hash nx = s_config_hash scan \<and> sn_scopes (sample_of nx) = sn_scopes (sample_of scan) \<longrightarrow>
          js_total_loss_candidate_hash st' = loss_identity sha st' nx)"
proof -
  let ?id = "loss_identity sha st scan" and ?scan = "scan\<lparr>s_snapshot := sample_of scan\<rparr>"
  have b: "js_baseline st = Some b" using assms(1) by (simp add: lost_everything_def)
  have cnt: "0 \<le> js_total_loss_candidate_count st" "js_total_loss_candidate_count st \<le> 2"
    using assms(2) by (simp_all add: job_ok_def totalLossConfirmationScans_def)
  note run' = lost_everything_run [OF assms(1) run guard_lost [OF assms(1), unfolded Let_def]]
  show ?thesis
  proof (cases "js_total_loss_candidate_hash st = ?id \<and> 1 \<le> js_total_loss_candidate_count st")
    case True
    have same: "(scan_completed st)\<lparr>js_total_loss_candidate_hash := ?id, js_total_loss_candidate_count := 2\<rparr> =
        (scan_completed st)\<lparr>js_total_loss_candidate_count := 2\<rparr>"
      using True by (cases st) (simp add: scan_completed_def)
    have n: "js_total_loss_candidate_count st = 1 \<or> js_total_loss_candidate_count st = 2" using True cnt by linarith
    then have "compareComplete sha ((scan_completed st)\<lparr>js_total_loss_candidate_hash := ?id, js_total_loss_candidate_count := 2\<rparr>) b job ?scan False
        (rs_enabled settings \<and> s_status scan = ''success'') (rs_cadence settings) = (st', evs, changes)"
      using run' conjunct1 [OF True] by (elim disjE) simp_all
    then have "(st', evs, changes) = compareComplete sha ((scan_completed st)\<lparr>js_total_loss_candidate_count := 2\<rparr>) b job ?scan False
        (rs_enabled settings \<and> s_status scan = ''success'') (rs_cadence settings)"
      unfolding same by (rule sym)
    then show ?thesis unfolding if_P [OF True] .
  next
    case False
    let ?st2 = "(scan_completed st)\<lparr>js_total_loss_candidate_hash := ?id, js_total_loss_candidate_count := 1\<rparr>"
    let ?anomaly = "[scan_event scan ''scan-anomaly'' (''Scan returned zero positive ports while the baseline contains '' @
        itoa (positivePortCount b) @ ''; awaiting confirmation'')]"
    have n: "js_total_loss_candidate_hash st = ?id \<Longrightarrow> js_total_loss_candidate_count st = 0" using False cnt by linarith
    have r: "compareHostsOnly ?st2 b job ?scan False ?anomaly = (st', evs, changes)"
      using run' n by (cases "js_total_loss_candidate_hash st = ?id") simp_all
    have t: "tracking_ok (jb_confirmations job) ?st2"
    proof -
      have "tracking_ok (jb_confirmations job) ?st2 = tracking_ok (jb_confirmations job) st"
        by (rule tracking_ok_cong) (simp_all add: scan_completed_def)
      then show ?thesis using assms(2) by (simp add: job_ok_def)
    qed
    have b2: "js_baseline ?st2 = Some b" using b by (simp add: scan_completed_def)
    note h = hosts_only_keeps [OF t b2 assms(3) r]
    have fin: "finding_of ?st2 = finding_of st" by (simp add: finding_of_def scan_completed_def fun_eq_iff)
    have ex: "expectations st' = expectations st"
      unfolding expectations_frame [OF h(3)] by (simp add: expectations_def scan_completed_def)
    have tl: "js_total_loss_candidate_count st' = 1" "js_total_loss_candidate_hash st' = ?id"
      "js_baseline_scan_id st' = js_baseline_scan_id st"
      using same_besides_fields(2,12,13) [OF h(3)] by (simp_all add: scan_completed_def)
    have nxt: "js_total_loss_candidate_hash st' = loss_identity sha st' nx"
      if "s_config_hash nx = s_config_hash scan" "sn_scopes (sample_of nx) = sn_scopes (sample_of scan)" for nx
      using that tl by (simp add: loss_identity_def totalLossIdentity_def)
    have an: "\<exists>e \<in> set evs. e_type e = ''scan-anomaly''" using h(4) by (intro bexI [where x = "hd ?anomaly"]) (simp_all add: scan_event_def)
    have keep: "\<forall>k. \<not> hasPrefix k ''host|'' \<longrightarrow> finding_of st' k = finding_of st k" using h(2) fin by metis
    show ?thesis unfolding if_not_P [OF False] using h(1) an keep ex tl(1) nxt by (intro conjI) blast+
  qed
qed


definition example_based_state :: job_state where
  "example_based_state = empty_job_state\<lparr>js_baseline := Some example_snapshot\<rparr>"

lemma example_lost: "lost_everything example_based_state example_snapshot (example_job 1 1) (example_managed_scan ''success'' empty_snapshot)"
  by code_simp

lemma example_based_ok: "job_ok 1 1 example_based_state"
proof -
  have "tracking_ok 1 example_based_state = tracking_ok 1 empty_job_state"
    by (rule tracking_ok_cong) (simp_all add: example_based_state_def)
  moreover have "dns_filled example_snapshot" by (simp add: dns_filled_def example_snapshot_def)
  ultimately show ?thesis
    by (simp add: job_ok_def empty_tracking_ok) (simp add: example_based_state_def empty_job_state_def fingerprints_ok_def totalLossConfirmationScans_def)
qed

theorem total_loss_needs_confirmation_witness:
  "\<exists>e \<in> set (fst (snd (processSuccessWithReminderSettings (\<lambda>_. ''h'') example_based_state (example_job 1 1)
     (example_managed_scan ''success'' empty_snapshot) no_reminders))). e_type e = ''scan-anomaly''"
proof -
  have ok: "job_ok (jb_confirmations (example_job 1 1)) (jb_samples (example_job 1 1)) example_based_state" "1 \<le> jb_confirmations (example_job 1 1)"
    using example_based_ok by (simp_all add: example_job_def)
  have "\<not> (js_total_loss_candidate_hash example_based_state = loss_identity (\<lambda>_. ''h'') example_based_state (example_managed_scan ''success'' empty_snapshot) \<and>
      1 \<le> js_total_loss_candidate_count example_based_state)"
    by (simp add: example_based_state_def empty_job_state_def)
  from total_loss_needs_confirmation [OF example_lost ok surjective_pairing3, of "\<lambda>_. ''h''" no_reminders, unfolded if_not_P [OF this]]
  show ?thesis by (elim conjE)
qed

end
