(* ===== verification/ScopeMerge.thy ===== *)
theory ScopeMerge
  imports EngineFacts
begin

text \<open>
  What a baseline expects after its scan scope changed: port by port, the result of
  \<open>mergeForScopeChange\<close> from the old baseline and the accepted candidate.
\<close>

section \<open>The specification\<close>

definition expected_port :: "snapshot \<Rightarrow> string \<Rightarrow> string \<Rightarrow> int \<Rightarrow> port_state option" where
  "expected_port s t p n = (case baselinePort s t p n of (v, True) \<Rightarrow> Some v | (_, False) \<Rightarrow> None)"

text \<open>State and service of a port that the new baseline expects.\<close>

definition merged_expectation :: "snapshot \<Rightarrow> snapshot \<Rightarrow> string \<Rightarrow> string \<Rightarrow> int \<Rightarrow> (string \<times> string) option" where
  "merged_expectation old candidate t p n =
     (if \<not> scopeAllows candidate t p n False then None
      else let service = (\<lambda>v. if scopeAllows candidate t p n True then ps_service v else []) in
        case (expected_port candidate t p n, expected_port old t p n) of
          (Some c, Some previous) \<Rightarrow> Some (ps_state c, if service c = [] then service previous else service c)
        | (Some c, None) \<Rightarrow> Some (ps_state c, service c)
        | (None, Some previous) \<Rightarrow> Some (ps_state previous, service previous)
        | (None, None) \<Rightarrow> None)"

text \<open>Keys of units separate target and protocol by a zero byte.\<close>

definition keyed_units :: "snapshot \<Rightarrow> bool" where
  "keyed_units s \<longleftrightarrow> wf_snapshot s \<and> (\<forall>u \<in> set (sn_units s). nul \<notin> set (u_target u))"

section \<open>Looking ports up\<close>

lemma expected_port_matches: "expected_port s t p n = (case port_matches s t p n of [] \<Rightarrow> None | v # _ \<Rightarrow> Some v)"
  by (simp add: expected_port_def baselinePort_matches split: list.split)

lemma expected_port_unique:
  assumes "wf_snapshot s"
  shows "expected_port s t p n = Some v \<longleftrightarrow> v \<in> set (port_matches s t p n)"
proof (cases "port_matches s t p n")
  case (Cons w ws)
  then have "v \<in> set (port_matches s t p n) \<Longrightarrow> v = w" using port_matches_unique [OF assms, of v t p n w] by simp
  then show ?thesis using Cons by (auto simp: expected_port_matches)
qed (simp add: expected_port_matches)

lemma expected_port_None: "expected_port s t p n = None \<longleftrightarrow> port_matches s t p n = []"
  by (simp add: expected_port_matches split: list.split)

lemma unitMap_entries:
  assumes "wf_snapshot s"
  shows "(k, u) \<in> set (unitMap s) \<longleftrightarrow> u \<in> set (sn_units s) \<and> k = target_protocol_key (u_target u) (u_protocol u)"
proof -
  let ?ws = "map (\<lambda>u. (target_protocol_key (u_target u) (u_protocol u), u)) (sn_units s)"
  have f: "unitMap s = fold (\<lambda>(k, v). mput k v) ?ws []" by (simp add: unitMap_def fold_map comp_def)
  have "wf_map (unitMap s)" unfolding f by (rule wf_fold_mput) simp
  then have iff: "(k, u) \<in> set (unitMap s) \<longleftrightarrow> mget (unitMap s) k = Some u" by (simp add: mget_eq_Some_mem)
  have "mget (unitMap s) k = Some u \<Longrightarrow> (k, u) \<in> set ?ws"
    unfolding f fold_mput_mget by (auto split: option.splits dest: mget_SomeD)
  then show ?thesis unfolding iff using unitMap_self [OF assms, of u] by auto
qed

lemma unitMap_set:
  assumes "wf_snapshot s"
  shows "set (unitMap s) = (\<lambda>u. (target_protocol_key (u_target u) (u_protocol u), u)) ` set (sn_units s)"
proof (rule set_eqI)
  fix x
  show "x \<in> set (unitMap s) \<longleftrightarrow> x \<in> (\<lambda>u. (target_protocol_key (u_target u) (u_protocol u), u)) ` set (sn_units s)"
    by (cases x) (auto simp: unitMap_entries [OF assms])
qed

lemma if_None_Some: "(if \<not> P then None else Some x) = Some y \<longleftrightarrow> P \<and> y = x"
  by auto

lemma set_map_filter_iff: "y \<in> set (List.map_filter f xs) \<longleftrightarrow> (\<exists>x \<in> set xs. f x = Some y)"
  by (force simp: List.map_filter_def)

lemma key_parts:
  assumes "nul \<notin> set t" "nul \<notin> set p"
  shows "key_target (target_protocol_key t p) = t" "key_protocol (target_protocol_key t p) = p"
proof -
  have "splitOn nul (target_protocol_key t p) = splitOn nul t @ splitOn nul p"
    using splitOn_append_sep [of nul t p] by (simp add: target_protocol_key_def nul_def)
  then have "splitOn nul (target_protocol_key t p) = [t, p]" using assms by (simp add: splitOn_no_sep)
  then show "key_target (target_protocol_key t p) = t" "key_protocol (target_protocol_key t p) = p"
    by (simp_all add: key_target_def key_protocol_def)
qed

section \<open>The ports of one unit\<close>

lemma scoped_port_cases: "scoped_port (newScopeIndex s) t p q =
    (if \<not> scopeAllows s t p (ps_port q) False then None
     else Some (q\<lparr>ps_service := (if scopeAllows s t p (ps_port q) True then ps_service q else [])\<rparr>))"
  by (simp add: scoped_port_def allows_scopeAllows)

text \<open>Every entry is filed under the number of its port.\<close>

definition filed :: "(int, port_state) gomap \<Rightarrow> bool" where
  "filed m \<longleftrightarrow> wf_map m \<and> (\<forall>(k, v) \<in> set m. ps_port v = k)"

lemma filed_mput:
  assumes "filed m" "ps_port v = k"
  shows "filed (mput k v m)"
proof -
  have wf: "wf_map (mput k v m)" using assms(1) by (simp add: filed_def)
  have "ps_port w = j" if "(j, w) \<in> set (mput k v m)" for j w
  proof -
    have "mget (mput k v m) j = Some w" using that by (simp only: mget_eq_Some_mem [OF wf])
    then show ?thesis
      using assms by (auto simp: filed_def split: if_splits dest!: mget_SomeD)
  qed
  then show ?thesis using wf by (auto simp: filed_def)
qed

lemma filed_put_scoped: "filed m \<Longrightarrow> filed (put_scoped (newScopeIndex s) t p q m)"
  by (simp add: put_scoped_def scoped_port_cases filed_mput)

lemma filed_put_old:
  assumes "filed m"
  shows "filed (put_old (newScopeIndex s) t p q m)"
proof -
  have "ps_port c = ps_port q" if "mget m (ps_port q) = Some c" for c
    using assms mget_SomeD [OF that] by (auto simp: filed_def)
  then show ?thesis using assms
    by (cases "mget m (ps_port q)") (simp_all add: put_old_def scoped_port_cases filed_mput)
qed

definition port_in :: "port_state list \<Rightarrow> int \<Rightarrow> port_state option" where
  "port_in ps n = find (\<lambda>q. ps_port q = n) ps"

lemma port_in_Cons: "port_in (q # ps) n = (if ps_port q = n then Some q else port_in ps n)"
  by (simp add: port_in_def)

lemma port_in_None: "port_in ps n = None \<longleftrightarrow> n \<notin> ps_port ` set ps"
  unfolding port_in_def find_None_iff by blast

lemma port_in_Some:
  assumes "distinct (map ps_port ps)"
  shows "port_in ps n = Some q \<longleftrightarrow> q \<in> set ps \<and> ps_port q = n"
  using assms
proof (induction ps)
  case (Cons x ps)
  then show ?case by (cases "ps_port x = n") (auto simp: port_in_Cons image_iff)
qed (simp add: port_in_def)

definition visible :: "snapshot \<Rightarrow> string \<Rightarrow> string \<Rightarrow> port_state \<Rightarrow> port_state" where
  "visible s t p q = q\<lparr>ps_service := (if scopeAllows s t p (ps_port q) True then ps_service q else [])\<rparr>"

lemma put_scoped_ports:
  assumes "distinct (map ps_port ps)"
  shows "mget (fold (put_scoped (newScopeIndex s) t p) ps m) n =
    (case port_in ps n of None \<Rightarrow> mget m n
     | Some q \<Rightarrow> if scopeAllows s t p n False then Some (visible s t p q) else mget m n)"
  using assms
proof (induction ps arbitrary: m)
  case (Cons q ps)
  have none: "ps_port q = n \<Longrightarrow> port_in ps n = None" using Cons.prems by (auto simp: port_in_None)
  have d: "distinct (map ps_port ps)" using Cons.prems by simp
  have step: "mget (put_scoped (newScopeIndex s) t p q m) n =
     (if ps_port q = n \<and> scopeAllows s t p n False then Some (visible s t p q) else mget m n)"
    by (auto simp: put_scoped_def scoped_port_cases visible_def)
  show ?case
    using none by (cases "port_in ps n") (auto simp: Cons.IH [OF d] port_in_Cons step)
qed (simp add: port_in_def)

definition with_old :: "port_state option \<Rightarrow> port_state \<Rightarrow> port_state" where
  "with_old current q = (case current of None \<Rightarrow> q
     | Some c \<Rightarrow> if ps_service c = [] \<and> ps_service q \<noteq> [] then c\<lparr>ps_service := ps_service q\<rparr> else c)"

lemma put_old_ports:
  assumes "distinct (map ps_port ps)"
  shows "mget (fold (put_old (newScopeIndex s) t p) ps m) n =
    (case port_in ps n of None \<Rightarrow> mget m n
     | Some q \<Rightarrow> if scopeAllows s t p n False then Some (with_old (mget m n) (visible s t p q)) else mget m n)"
  using assms
proof (induction ps arbitrary: m)
  case (Cons q ps)
  have none: "ps_port q = n \<Longrightarrow> port_in ps n = None" using Cons.prems by (auto simp: port_in_None)
  have d: "distinct (map ps_port ps)" using Cons.prems by simp
  have step: "mget (put_old (newScopeIndex s) t p q m) n =
     (if ps_port q = n \<and> scopeAllows s t p n False then Some (with_old (mget m n) (visible s t p q)) else mget m n)"
    by (cases "mget m n") (auto simp: put_old_def scoped_port_cases with_old_def visible_def allows_scopeAllows split: option.split)
  show ?case
    using none by (cases "port_in ps n") (auto simp: Cons.IH [OF d] port_in_Cons step)
qed (simp add: port_in_def)


section \<open>The ports of the merged snapshot\<close>

lemma Normalize_matches_mem:
  "v \<in> set (port_matches (Normalize s) t p n) \<longleftrightarrow>
     (\<exists>w \<in> set (port_matches s t p n). v = w\<lparr>ps_evidence := sort (ps_evidence w)\<rparr>)"
proof
  assume "v \<in> set (port_matches (Normalize s) t p n)"
  then obtain u where u: "u \<in> set (sn_units s)" "u_target (normalize_unit u) = t" "u_protocol (normalize_unit u) = p"
    "v \<in> set (u_ports (normalize_unit u))" "ps_port v = n" unfolding port_matches_mem by (auto simp: Normalize_def)
  then obtain w where "w \<in> set (u_ports u)" "v = w\<lparr>ps_evidence := sort (ps_evidence w)\<rparr>" by (auto simp: normalize_unit_def)
  then show "\<exists>w \<in> set (port_matches s t p n). v = w\<lparr>ps_evidence := sort (ps_evidence w)\<rparr>"
    using u by (intro bexI [of _ w]) (auto simp: port_matches_mem normalize_unit_def)
next
  assume "\<exists>w \<in> set (port_matches s t p n). v = w\<lparr>ps_evidence := sort (ps_evidence w)\<rparr>"
  then obtain u w where u: "u \<in> set (sn_units s)" "u_target u = t" "u_protocol u = p" "w \<in> set (u_ports u)" "ps_port w = n"
    and v: "v = w\<lparr>ps_evidence := sort (ps_evidence w)\<rparr>" by (auto simp: port_matches_mem)
  have "normalize_unit u \<in> set (sn_units (Normalize s))" using u(1) by (simp add: Normalize_def)
  moreover have "u_target (normalize_unit u) = t" "u_protocol (normalize_unit u) = p" "v \<in> set (u_ports (normalize_unit u))" "ps_port v = n"
    using u v by (simp_all add: normalize_unit_def)
  ultimately show "v \<in> set (port_matches (Normalize s) t p n)" unfolding port_matches_mem by blast
qed

text \<open>A unit of the candidate, after the merge.\<close>

definition merged_ports :: "snapshot \<Rightarrow> unit_obs option \<Rightarrow> string \<Rightarrow> string \<Rightarrow> unit_obs \<Rightarrow> (int, port_state) gomap" where
  "merged_ports s oldUnit t p cu =
     (let fresh = fold (put_scoped (newScopeIndex s) t p) (u_ports cu) []
      in case oldUnit of None \<Rightarrow> fresh | Some ou \<Rightarrow> fold (put_old (newScopeIndex s) t p) (u_ports ou) fresh)"

lemma merge_unit_ports:
  assumes "nul \<notin> set (u_target cu)" "nul \<notin> set (u_protocol cu)"
  shows "merge_unit (newScopeIndex s) oldUnit (target_protocol_key (u_target cu) (u_protocol cu)) cu =
    cu\<lparr>u_ports := map snd (merged_ports s oldUnit (u_target cu) (u_protocol cu) cu)\<rparr>"
  by (simp add: merge_unit_def merged_ports_def key_parts [OF assms] Let_def)

lemma filed_merged: "filed (merged_ports s oldUnit t p cu)"
proof -
  have "filed (fold (put_scoped (newScopeIndex s) t p) qs [])" for qs
    by (rule fold_inv [where P = filed]) (simp_all add: filed_put_scoped, simp add: filed_def)
  moreover have "filed m \<Longrightarrow> filed (fold (put_old (newScopeIndex s) t p) qs m)" for qs m
    by (rule fold_inv [where P = filed]) (simp_all add: filed_put_old)
  ultimately show ?thesis by (cases oldUnit) (simp_all add: merged_ports_def Let_def)
qed

lemma filed_snd:
  assumes "filed m"
  shows "v \<in> set (map snd m) \<and> ps_port v = n \<longleftrightarrow> mget m n = Some v"
proof -
  have wf: "wf_map m" and f: "\<And>k w. (k, w) \<in> set m \<Longrightarrow> ps_port w = k" using assms by (auto simp: filed_def)
  show ?thesis using f by (force simp: mget_eq_Some_mem [OF wf])
qed

lemma merged_ports_get:
  assumes "distinct (map ps_port (u_ports cu))" "\<forall>ou. oldUnit = Some ou \<longrightarrow> distinct (map ps_port (u_ports ou))"
  shows "mget (merged_ports s oldUnit t p cu) n =
    (if \<not> scopeAllows s t p n False then None
     else case (port_in (u_ports cu) n, Option.bind oldUnit (\<lambda>ou. port_in (u_ports ou) n)) of
       (None, None) \<Rightarrow> None
     | (Some c, None) \<Rightarrow> Some (visible s t p c)
     | (c, Some q) \<Rightarrow> Some (with_old (map_option (visible s t p) c) (visible s t p q)))"
proof (cases oldUnit)
  case None
  then show ?thesis
    by (cases "port_in (u_ports cu) n") (simp_all add: merged_ports_def put_scoped_ports [OF assms(1)])
next
  case (Some ou)
  then have d: "distinct (map ps_port (u_ports ou))" using assms(2) by blast
  show ?thesis
    by (cases "port_in (u_ports cu) n"; cases "port_in (u_ports ou) n")
       (simp_all add: Some merged_ports_def Let_def put_old_ports [OF d] put_scoped_ports [OF assms(1)])
qed


lemma port_in_matches:
  assumes "wf_snapshot s" "u \<in> set (sn_units s)"
  shows "port_in (u_ports u) n = expected_port s (u_target u) (u_protocol u) n"
proof -
  have d: "distinct (map ps_port (u_ports u))" using assms by (simp add: wf_snapshot_def)
  have same: "u' = u" if "u' \<in> set (sn_units s)" "u_target u' = u_target u" "u_protocol u' = u_protocol u" for u'
    using assms that by (auto simp: wf_snapshot_def distinct_map inj_on_def)
  have "port_in (u_ports u) n = Some q \<longleftrightarrow> expected_port s (u_target u) (u_protocol u) n = Some q" for q
    using port_in_Some [OF d] same assms(2)
    by (auto simp: expected_port_unique [OF assms(1)] port_matches_mem)
  then show ?thesis by (metis not_Some_eq)
qed

lemma no_unit_no_port: "\<not> (\<exists>u \<in> set (sn_units s). u_target u = t \<and> u_protocol u = p) \<Longrightarrow> expected_port s t p n = None"
  by (auto simp: expected_port_None port_matches_def)

lemma unitMap_get:
  assumes "keyed_units s" "nul \<notin> set t" "nul \<notin> set p"
  shows "Option.bind (mget (unitMap s) (target_protocol_key t p)) (\<lambda>u. port_in (u_ports u) n) = expected_port s t p n"
proof (cases "\<exists>u \<in> set (sn_units s). u_target u = t \<and> u_protocol u = p")
  case True
  then obtain u where u: "u \<in> set (sn_units s)" "u_target u = t" "u_protocol u = p" by blast
  have wf: "wf_snapshot s" using assms(1) by (simp add: keyed_units_def)
  show ?thesis using unitMap_self [OF wf u(1)] port_in_matches [OF wf u(1), of n] u by simp
next
  case False
  have wf: "wf_snapshot s" using assms(1) by (simp add: keyed_units_def)
  have "mget (unitMap s) (target_protocol_key t p) = None"
  proof (rule ccontr)
    assume "\<not> ?thesis"
    then obtain u where "(target_protocol_key t p, u) \<in> set (unitMap s)" by (auto dest: mget_SomeD)
    then have u: "u \<in> set (sn_units s)" "target_protocol_key t p = target_protocol_key (u_target u) (u_protocol u)"
      using unitMap_entries [OF wf] by auto
    have "nul \<notin> set (u_target u)" "nul \<notin> set (u_protocol u)" using assms(1) u(1) by (auto simp: keyed_units_def wf_snapshot_def)
    then have "u_target u = t" "u_protocol u = p"
      using key_parts [of "u_target u" "u_protocol u"] key_parts [OF assms(2,3)] u(2) by simp_all
    then show False using False u(1) by blast
  qed
  then show ?thesis using no_unit_no_port [OF False] by simp
qed

text \<open>State and service that the ports of one merged unit give.\<close>

lemma merged_ports_expectation:
  assumes "keyed_units old" "keyed_units s" "cu \<in> set (sn_units s)"
  shows "map_option (\<lambda>v. (ps_state v, ps_service v)) (mget (merged_ports s
       (mget (unitMap old) (target_protocol_key (u_target cu) (u_protocol cu))) (u_target cu) (u_protocol cu) cu) n) =
    merged_expectation old s (u_target cu) (u_protocol cu) n"
proof -
  let ?t = "u_target cu" and ?p = "u_protocol cu"
  have wf: "wf_snapshot s" "wf_snapshot old" and nul: "nul \<notin> set ?t" "nul \<notin> set ?p"
    using assms by (auto simp: keyed_units_def wf_snapshot_def)
  have d: "distinct (map ps_port (u_ports cu))" using wf(1) assms(3) by (simp add: wf_snapshot_def)
  have d': "\<forall>ou. mget (unitMap old) (target_protocol_key ?t ?p) = Some ou \<longrightarrow> distinct (map ps_port (u_ports ou))"
    using wf(2) unitMap_entries [OF wf(2)] by (auto simp: wf_snapshot_def dest!: mget_SomeD)
  have num: "ps_port v = n" if "expected_port x ?t ?p n = Some v" "wf_snapshot x" for x v
    using that by (auto simp: expected_port_unique port_matches_mem)
  have get: "mget (merged_ports s (mget (unitMap old) (target_protocol_key ?t ?p)) ?t ?p cu) n =
    (if \<not> scopeAllows s ?t ?p n False then None
     else case (expected_port s ?t ?p n, expected_port old ?t ?p n) of
       (None, None) \<Rightarrow> None
     | (Some c, None) \<Rightarrow> Some (visible s ?t ?p c)
     | (c, Some q) \<Rightarrow> Some (with_old (map_option (visible s ?t ?p) c) (visible s ?t ?p q)))"
    unfolding merged_ports_get [OF d d'] unitMap_get [OF assms(1) nul] port_in_matches [OF wf(1) assms(3)] ..
  show ?thesis
  proof (cases "scopeAllows s ?t ?p n False")
    case True
    show ?thesis
    proof (cases "expected_port s ?t ?p n")
      case None
      then show ?thesis unfolding get merged_expectation_def using True num [OF _ wf(2)]
        by (cases "expected_port old ?t ?p n") (simp_all add: visible_def with_old_def)
    next
      case (Some c)
      note c = num [OF Some wf(1)]
      show ?thesis
      proof (cases "expected_port old ?t ?p n")
        case None
        then show ?thesis unfolding get merged_expectation_def using True Some c by (simp add: visible_def)
      next
        case o': (Some q)
        have "ps_port q = n" using num [OF o' wf(2)] .
        then show ?thesis unfolding get merged_expectation_def using True Some c o'
          by (simp add: visible_def with_old_def)
      qed
    qed
  qed (simp add: get merged_expectation_def)
qed


section \<open>The merge\<close>

definition merged_units :: "snapshot \<Rightarrow> snapshot \<Rightarrow> unit_obs list" where
  "merged_units old s = map (\<lambda>(key, cu). merge_unit (newScopeIndex s) (mget (unitMap old) key) key cu) (unitMap s) @
     List.map_filter (\<lambda>(key, ou). if mhas (unitMap s) key then None else keep_old_unit s (newScopeIndex s) key ou) (unitMap old)"

lemma merge_is_normalized: "mergeForScopeChange old s = Normalize (s\<lparr>sn_units := merged_units old s\<rparr>)"
  by (simp add: mergeForScopeChange_def merged_units_def Let_def)

lemma keyed_nul:
  assumes "keyed_units s" "u \<in> set (sn_units s)"
  shows "nul \<notin> set (u_target u)" "nul \<notin> set (u_protocol u)"
  using assms by (auto simp: keyed_units_def wf_snapshot_def)

text \<open>The two kinds of merged units: those of the candidate, and old ones that it omits.\<close>

lemma merged_units_mem:
  assumes "keyed_units old" "keyed_units s"
  shows "u \<in> set (merged_units old s) \<longleftrightarrow>
    (\<exists>cu \<in> set (sn_units s). u = cu\<lparr>u_ports := map snd (merged_ports s
        (mget (unitMap old) (target_protocol_key (u_target cu) (u_protocol cu))) (u_target cu) (u_protocol cu) cu)\<rparr>) \<or>
    (\<exists>ou \<in> set (sn_units old). \<not> mhas (unitMap s) (target_protocol_key (u_target ou) (u_protocol ou)) \<and>
        keep_old_unit s (newScopeIndex s) (target_protocol_key (u_target ou) (u_protocol ou)) ou = Some u)"
    (is "_ \<longleftrightarrow> ?cand \<or> ?old")
proof -
  have wf: "wf_snapshot s" "wf_snapshot old" using assms by (simp_all add: keyed_units_def)
  have c: "u \<in> set (map (\<lambda>(key, cu). merge_unit (newScopeIndex s) (mget (unitMap old) key) key cu) (unitMap s)) \<longleftrightarrow> ?cand"
    unfolding set_map unitMap_set [OF wf(1)] image_image prod.case image_iff
    by (rule bex_cong [OF refl], subst merge_unit_ports) (use keyed_nul [OF assms(2)] in auto)
  have "u \<in> set (List.map_filter (\<lambda>(key, ou). if mhas (unitMap s) key then None else keep_old_unit s (newScopeIndex s) key ou) (unitMap old)) \<longleftrightarrow> ?old"
    unfolding set_map_filter_iff unitMap_set [OF wf(2)] by (simp cong: conj_cong)
  then show ?thesis using c unfolding merged_units_def set_append Un_iff by blast
qed

lemma mhas_unitMap:
  assumes "keyed_units s" "nul \<notin> set t" "nul \<notin> set p"
  shows "mhas (unitMap s) (target_protocol_key t p) \<longleftrightarrow> (\<exists>u \<in> set (sn_units s). u_target u = t \<and> u_protocol u = p)"
proof -
  have wf: "wf_snapshot s" using assms(1) by (simp add: keyed_units_def)
  have "t' = t \<and> p' = p" if "target_protocol_key t' p' = target_protocol_key t p" "nul \<notin> set t'" "nul \<notin> set p'" for t' p'
    using key_parts [OF that(2,3)] key_parts [OF assms(2,3)] that(1) by simp
  then show ?thesis
    unfolding mhas_iff unitMap_set [OF wf] image_image fst_conv image_iff using keyed_nul [OF assms(1)] by metis
qed

text \<open>An old unit that is kept, port by port.\<close>

lemma keep_old_unit_parts:
  assumes "nul \<notin> set (u_target ou)" "nul \<notin> set (u_protocol ou)"
    and "keep_old_unit s (newScopeIndex s) (target_protocol_key (u_target ou) (u_protocol ou)) ou = Some u"
  shows "u_target u = u_target ou" "u_protocol u = u_protocol ou"
    "v \<in> set (u_ports u) \<longleftrightarrow> (\<exists>q \<in> set (u_ports ou). scopeAllows s (u_target ou) (u_protocol ou) (ps_port q) False \<and>
       v = visible s (u_target ou) (u_protocol ou) q)"
proof -
  have "ou\<lparr>u_ports := List.map_filter (scoped_port (newScopeIndex s) (u_target ou) (u_protocol ou)) (u_ports ou),
      u_addresses := (if dns_of s (u_target ou) \<noteq> [] then dns_of s (u_target ou) else u_addresses ou)\<rparr> = u"
    using assms(3) unfolding keep_old_unit_def key_parts [OF assms(1,2)] Let_def
    by (metis (no_types, lifting) option.distinct(1) option.inject)
  then have parts: "u_target u = u_target ou \<and> u_protocol u = u_protocol ou \<and>
      u_ports u = List.map_filter (scoped_port (newScopeIndex s) (u_target ou) (u_protocol ou)) (u_ports ou)"
    by (elim subst) simp
  then show "u_target u = u_target ou" "u_protocol u = u_protocol ou" by simp_all
  have "v \<in> set (u_ports u) \<longleftrightarrow> (\<exists>q \<in> set (u_ports ou). scoped_port (newScopeIndex s) (u_target ou) (u_protocol ou) q = Some v)"
    using parts by (simp add: set_map_filter_iff)
  then show "v \<in> set (u_ports u) \<longleftrightarrow> (\<exists>q \<in> set (u_ports ou). scopeAllows s (u_target ou) (u_protocol ou) (ps_port q) False \<and>
       v = visible s (u_target ou) (u_protocol ou) q)"
    unfolding scoped_port_cases visible_def [symmetric] if_None_Some .
qed

lemma keep_old_unit_some:
  assumes "nul \<notin> set (u_target ou)" "nul \<notin> set (u_protocol ou)" "scopeAllows s (u_target ou) (u_protocol ou) n False"
  obtains u where "keep_old_unit s (newScopeIndex s) (target_protocol_key (u_target ou) (u_protocol ou)) ou = Some u"
proof -
  have "\<exists>c \<in> set (sn_scopes s). sc_target c = u_target ou"
    "\<exists>c \<in> set (sn_scopes s). sc_target c = u_target ou \<and> toLower (sc_protocol c) = toLower (u_protocol ou)"
    using assms(3) unfolding scopeAllows_def by metis+
  then show thesis
    by (intro that) (simp only: keep_old_unit_def key_parts [OF assms(1,2)] Let_def if_False not_True_eq_False disj_not1 simp_thms)
qed

text \<open>
  C6: The baseline after a change of scope, for every target, protocol and port. A port
  outside the new scope is not expected. A port of the accepted candidate is expected as the
  candidate has it, with the old service while the candidate has no stable one. An old port
  that the candidate omits stays expected. Services are kept only where the new scope
  detects them.
\<close>

theorem scope_merge_exact:
  assumes "keyed_units old" "keyed_units candidate"
  shows "map_option (\<lambda>v. (ps_state v, ps_service v)) (expected_port (mergeForScopeChange old candidate) t p n) =
    merged_expectation old candidate t p n"
proof -
  let ?val = "\<lambda>v. (ps_state v, ps_service v)" and ?L = "candidate\<lparr>sn_units := merged_units old candidate\<rparr>"
  have wf: "wf_snapshot candidate" "wf_snapshot old" using assms by (simp_all add: keyed_units_def)
  note mem = merged_units_mem [OF assms]
  have one: "merged_expectation old candidate t p n = Some (?val v)" if "v \<in> set (port_matches ?L t p n)" for v
  proof -
    from that obtain u where u: "u \<in> set (merged_units old candidate)" "u_target u = t" "u_protocol u = p" "v \<in> set (u_ports u)" "ps_port v = n"
      by (auto simp: port_matches_mem)
    from u(1)[unfolded mem] show ?thesis
    proof (elim disjE bexE conjE)
      fix cu
      let ?m = "merged_ports candidate (mget (unitMap old) (target_protocol_key (u_target cu) (u_protocol cu))) (u_target cu) (u_protocol cu) cu"
      assume cu: "cu \<in> set (sn_units candidate)" "u = cu\<lparr>u_ports := map snd ?m\<rparr>"
      then have "v \<in> set (map snd ?m) \<and> ps_port v = n" using u(4,5) by simp
      then have "mget ?m n = Some v" by (rule filed_snd [OF filed_merged, THEN iffD1])
      then show ?thesis using merged_ports_expectation [OF assms cu(1), of n] cu(2) u(2,3) by simp
    next
      fix ou
      assume ou: "ou \<in> set (sn_units old)" "\<not> mhas (unitMap candidate) (target_protocol_key (u_target ou) (u_protocol ou))"
        "keep_old_unit candidate (newScopeIndex candidate) (target_protocol_key (u_target ou) (u_protocol ou)) ou = Some u"
      note nul = keyed_nul [OF assms(1) ou(1)]
      note parts = keep_old_unit_parts [OF nul ou(3)]
      obtain q where q: "q \<in> set (u_ports ou)" "scopeAllows candidate t p (ps_port q) False" "v = visible candidate t p q"
        using u(2-4) parts by auto
      have none: "expected_port candidate t p n = None"
        using ou(2) mhas_unitMap [OF assms(2) nul] parts u(2,3) by (intro no_unit_no_port) simp
      have n: "ps_port q = n" using q(3) u(5) by (simp add: visible_def)
      then have "expected_port old t p n = Some q"
        using q(1) ou(1) parts u(2,3) by (auto simp: expected_port_unique [OF wf(2)] port_matches_mem)
      then show ?thesis using none q n by (simp add: merged_expectation_def visible_def)
    qed
  qed
  have some: "port_matches ?L t p n \<noteq> []" if spec: "merged_expectation old candidate t p n = Some x" for x
  proof -
    have allow: "scopeAllows candidate t p n False" using spec by (simp add: merged_expectation_def split: if_splits)
    show ?thesis
    proof (cases "\<exists>cu \<in> set (sn_units candidate). u_target cu = t \<and> u_protocol cu = p")
      case True
      then obtain cu where cu: "cu \<in> set (sn_units candidate)" "u_target cu = t" "u_protocol cu = p" by blast
      let ?m = "merged_ports candidate (mget (unitMap old) (target_protocol_key (u_target cu) (u_protocol cu))) (u_target cu) (u_protocol cu) cu"
      obtain v where v: "mget ?m n = Some v" using merged_ports_expectation [OF assms cu(1), of n] spec cu(2,3) by auto
      have "cu\<lparr>u_ports := map snd ?m\<rparr> \<in> set (merged_units old candidate)" using cu(1) unfolding mem by blast
      moreover have "v \<in> set (map snd ?m)" "ps_port v = n" using filed_snd [OF filed_merged, THEN iffD2, OF v] by blast+
      ultimately have "v \<in> set (port_matches ?L t p n)"
        using cu(2,3) unfolding port_matches_mem by (intro bexI [of _ "cu\<lparr>u_ports := map snd ?m\<rparr>"]) simp_all
      then show ?thesis by auto
    next
      case False
      then have "expected_port candidate t p n = None" by (rule no_unit_no_port)
      then obtain q where "expected_port old t p n = Some q"
        using spec allow by (auto simp: merged_expectation_def split: option.splits)
      then obtain ou where ou: "ou \<in> set (sn_units old)" "u_target ou = t" "u_protocol ou = p" "q \<in> set (u_ports ou)" "ps_port q = n"
        by (auto simp: expected_port_unique [OF wf(2)] port_matches_mem)
      note nul = keyed_nul [OF assms(1) ou(1)]
      obtain u where u: "keep_old_unit candidate (newScopeIndex candidate) (target_protocol_key (u_target ou) (u_protocol ou)) ou = Some u"
        using keep_old_unit_some [OF nul] allow ou(2,3) by metis
      note parts = keep_old_unit_parts [OF nul u]
      have "\<not> mhas (unitMap candidate) (target_protocol_key (u_target ou) (u_protocol ou))"
        using mhas_unitMap [OF assms(2) nul] False ou(2,3) by simp
      then have "u \<in> set (merged_units old candidate)" using ou(1) u unfolding mem by blast
      moreover have "visible candidate t p q \<in> set (u_ports u)" unfolding parts(3) using ou allow by auto
      ultimately have "visible candidate t p q \<in> set (port_matches ?L t p n)"
        using parts(1,2) ou unfolding port_matches_mem by (intro bexI [of _ u]) (auto simp: visible_def)
      then show ?thesis by auto
    qed
  qed
  show ?thesis
  proof (cases "expected_port (Normalize ?L) t p n")
    case None
    then have "port_matches ?L t p n = []"
      using Normalize_matches_mem [of _ ?L t p n] unfolding expected_port_None by (metis list.set_intros(1) neq_Nil_conv empty_iff list.set(1))
    then have "merged_expectation old candidate t p n = None" using some by (metis not_Some_eq)
    then show ?thesis using None by (simp add: merge_is_normalized)
  next
    case (Some v)
    then have "v \<in> set (port_matches (Normalize ?L) t p n)"
      by (auto simp: expected_port_matches split: list.splits)
    then obtain w where "w \<in> set (port_matches ?L t p n)" "v = w\<lparr>ps_evidence := sort (ps_evidence w)\<rparr>"
      unfolding Normalize_matches_mem by blast
    then show ?thesis using one [of w] Some by (simp add: merge_is_normalized)
  qed
qed


theorem scope_merge_exact_witness:
  "map_option (\<lambda>v. (ps_state v, ps_service v))
     (expected_port (mergeForScopeChange example_snapshot (example_snapshot\<lparr>sn_units := []\<rparr>)) ''a.example'' ''tcp'' 80) =
   Some (''open'', ''http'')"
proof -
  have k: "keyed_units example_snapshot" "keyed_units (example_snapshot\<lparr>sn_units := []\<rparr>)"
    using wf_example_snapshot by (auto simp: keyed_units_def wf_snapshot_def example_snapshot_def nul_def)
  have "merged_expectation example_snapshot (example_snapshot\<lparr>sn_units := []\<rparr>) ''a.example'' ''tcp'' 80 = Some (''open'', ''http'')"
    by code_simp
  then show ?thesis using scope_merge_exact [OF k] by simp
qed

end
