(* ===== verification/Budget.thy ===== *)
theory Budget
  imports Ports Model
begin

text \<open>
  How much work a job is: \<open>EstimateJobWork\<close> of \<open>internal/config/config.go\<close> with its saturating
  arithmetic, the totals of a resolved plan, and the probe budgets of
  \<open>internal/app/app.go\<close> and \<open>internal/app/tenant_capacity.go\<close> that a run has to pass.

  An \<open>int64\<close> is an \<open>int\<close> whose sums and products wrap as \<open>wrap64\<close> says. Of a job the model has
  the fields that the estimate, the budgets and the plan of a scan read. The number of targets, counted one by one,
  is below \<open>2 ^ 63\<close>.
\<close>

section \<open>Saturating arithmetic\<close>

definition max_int64 :: int where
  "max_int64 = 2 ^ 63 - 1"

definition wrap64 :: "int \<Rightarrow> int" where
  "wrap64 x = (x + 2 ^ 63) mod 2 ^ 64 - 2 ^ 63"

definition saturatingAdd :: "int \<Rightarrow> int \<Rightarrow> int" where
  "saturatingAdd a b = (if b > 0 \<and> a > wrap64 (max_int64 - b) then max_int64 else wrap64 (a + b))"

definition saturatingMul :: "int \<Rightarrow> int \<Rightarrow> int" where
  "saturatingMul a b =
     (if a \<le> 0 \<or> b \<le> 0 then 0 else if a > max_int64 div b then max_int64 else wrap64 (a * b))"

definition ceilDiv :: "int \<Rightarrow> int \<Rightarrow> int" where
  "ceilDiv a b = (if a \<le> 0 then 0 else let result = a div b in if a mod b \<noteq> 0 then wrap64 (result + 1) else result)"

definition minInt64 :: "int \<Rightarrow> int \<Rightarrow> int" where
  "minInt64 a b = (if a < b then a else b)"

definition maxNonNegative :: "int \<Rightarrow> int" where
  "maxNonNegative value = (if value < 0 then 0 else value)"

definition saturatingProbeAdd :: "int \<Rightarrow> int \<Rightarrow> int" where
  "saturatingProbeAdd a b =
     (if b \<le> 0 \<or> a \<ge> wrap64 (max_int64 - b) then (if b > 0 then max_int64 else a) else wrap64 (a + b))"

section \<open>Targets\<close>

definition network_bits :: "ipnet \<Rightarrow> nat" where
  "network_bits net = (case nw_addr net of V4 _ \<Rightarrow> 32 | _ \<Rightarrow> 128)"

definition network_ip :: "ipnet \<Rightarrow> 128 word" where
  "network_ip net = word_of_int (addr_as16 (nw_addr net))"

text \<open>\<open>IPNet.String\<close>: a mapped network prints as IPv4 with the last 32 bits of its mask.\<close>

definition network_string :: "ipnet \<Rightarrow> string" where
  "network_string net =
     (let ones = (if network_bits net = 128 \<and> is_mapped (network_ip net) then nw_ones net - 96 else nw_ones net)
      in ipString (network_ip net) @ ''/'' @ itoa (int ones))"

definition CanonicalTarget :: "string \<Rightarrow> string" where
  "CanonicalTarget target0 =
     (let target = trimSpace target0 in
      case parseIP target of
        Some ip \<Rightarrow> ipString ip
      | None \<Rightarrow>
          (case parseCIDR target of
             Some net \<Rightarrow> if nw_ones net = network_bits net then ipString (network_ip net) else network_string net
           | None \<Rightarrow> toLower target))"

definition networkAddressCount :: "ipnet \<Rightarrow> int" where
  "networkAddressCount net =
     (if int (network_bits net) - int (nw_ones net) \<ge> 62 then max_int64 else 2 ^ (network_bits net - nw_ones net))"

section \<open>Jobs\<close>

definition EngineNmap :: string where "EngineNmap = ''nmap''"
definition EngineNaabuNmap :: string where "EngineNaabuNmap = ''naabu_nmap''"
definition NaabuFullPortExpression :: string where "NaabuFullPortExpression = ''1-65535''"

text \<open>The marks say which values were given explicitly, so that a given zero is kept.\<close>

record naabu_options =
  na_scan_type :: string
  na_rate :: int
  na_workers :: int
  na_retries :: int
  na_timeout_ms :: int
  na_warm_up_seconds :: int
  na_verify :: bool
  na_batch :: int
  na_rate_set :: bool
  na_workers_set :: bool
  na_retries_set :: bool
  na_timeout_ms_set :: bool
  na_warm_up_seconds_set :: bool
  na_verify_set :: bool
  na_batch_set :: bool

definition no_naabu_options :: naabu_options where
  "no_naabu_options = \<lparr>na_scan_type = [], na_rate = 0, na_workers = 0, na_retries = 0, na_timeout_ms = 0,
     na_warm_up_seconds = 0, na_verify = False, na_batch = 0, na_rate_set = False, na_workers_set = False,
     na_retries_set = False, na_timeout_ms_set = False, na_warm_up_seconds_set = False, na_verify_set = False,
     na_batch_set = False\<rparr>"

record protocol_scan =
  sp_ports :: string
  sp_service :: bool
  sp_engine :: string
  sp_naabu :: "naabu_options option"
  sp_nmap_args :: "string list"
  sp_enrichment_args :: "string list"

definition no_protocol :: protocol_scan where
  "no_protocol = \<lparr>sp_ports = [], sp_service = False, sp_engine = [], sp_naabu = None, sp_nmap_args = [],
     sp_enrichment_args = []\<rparr>"

record scan_job =
  wj_targets :: "string list"
  wj_max_hosts :: int
  wj_tcp :: "protocol_scan option"
  wj_udp :: "protocol_scan option"
  wj_high_cost :: bool

definition default_int :: "int \<Rightarrow> int \<Rightarrow> bool \<Rightarrow> int" where
  "default_int fallback value given = (if value = 0 \<and> \<not> given then fallback else value)"

definition applyNaabuDefaults :: "naabu_options \<Rightarrow> naabu_options" where
  "applyNaabuDefaults o' = o'\<lparr>
     na_scan_type := (if na_scan_type o' = [] then ''connect'' else na_scan_type o'),
     na_rate := default_int 1000 (na_rate o') (na_rate_set o'),
     na_workers := default_int 25 (na_workers o') (na_workers_set o'),
     na_retries := default_int 3 (na_retries o') (na_retries_set o'),
     na_timeout_ms := default_int 1000 (na_timeout_ms o') (na_timeout_ms_set o'),
     na_warm_up_seconds := default_int 2 (na_warm_up_seconds o') (na_warm_up_seconds_set o'),
     na_verify := (if \<not> na_verify_set o' \<and> \<not> na_verify o' then True else na_verify o'),
     na_batch := default_int 16 (na_batch o') (na_batch_set o')\<rparr>"

definition tcp_defaults :: "protocol_scan \<Rightarrow> protocol_scan" where
  "tcp_defaults p0 =
     (let p = (if sp_engine p0 = [] then p0\<lparr>sp_engine := EngineNmap\<rparr> else p0) in
      if sp_engine p = EngineNaabuNmap
      then p\<lparr>sp_ports := NaabuFullPortExpression, sp_naabu := Some (applyNaabuDefaults
             (case sp_naabu p of None \<Rightarrow> no_naabu_options | Some options \<Rightarrow> options))\<rparr>
      else p)"

definition canonical_ports :: "protocol_scan \<Rightarrow> protocol_scan" where
  "canonical_ports p = p\<lparr>sp_ports := CanonicalPortExpression (sp_ports p)\<rparr>"

definition NormalizeJob :: "scan_job \<Rightarrow> scan_job" where
  "NormalizeJob j = j\<lparr>
     wj_max_hosts := (if wj_max_hosts j = 0 then 256 else wj_max_hosts j),
     wj_tcp := map_option (\<lambda>p. canonical_ports (tcp_defaults p)) (wj_tcp j),
     wj_udp := map_option canonical_ports (wj_udp j),
     wj_targets := map CanonicalTarget (wj_targets j)\<rparr>"

section \<open>The estimate\<close>

definition workBatchSize :: int where "workBatchSize = 128"

record work_estimate =
  we_hosts :: int
  we_tcp_ports :: int
  we_udp_ports :: int
  we_probes :: int
  we_naabu_probes :: int
  we_nmap_probes :: int
  we_nmap_invocations :: int
  we_naabu_invocations :: int
  we_unknown_dns :: int

definition zero_estimate :: work_estimate where
  "zero_estimate = \<lparr>we_hosts = 0, we_tcp_ports = 0, we_udp_ports = 0, we_probes = 0, we_naabu_probes = 0,
     we_nmap_probes = 0, we_nmap_invocations = 0, we_naabu_invocations = 0, we_unknown_dns = 0\<rparr>"

datatype work_error = TcpPorts port_error | UdpPorts port_error

record host_counts =
  hc_hosts :: int
  hc_ipv4 :: int
  hc_ipv6 :: int
  hc_unknown :: int

text \<open>One turn of the loop over the targets.\<close>

definition count_addresses :: "bool \<Rightarrow> int \<Rightarrow> host_counts \<Rightarrow> host_counts" where
  "count_addresses is4 n h = (let h' = h\<lparr>hc_hosts := saturatingAdd (hc_hosts h) n\<rparr> in
     if is4 then h'\<lparr>hc_ipv4 := saturatingAdd (hc_ipv4 h) n\<rparr> else h'\<lparr>hc_ipv6 := saturatingAdd (hc_ipv6 h) n\<rparr>)"

definition count_target :: "string \<Rightarrow> host_counts \<Rightarrow> host_counts" where
  "count_target target h =
     (case parseIP target of
        Some ip \<Rightarrow> count_addresses (is_mapped ip) 1 h
      | None \<Rightarrow>
          (case parseCIDR target of
             Some net \<Rightarrow> count_addresses (is_mapped (network_ip net)) (networkAddressCount net) h
           | None \<Rightarrow> h\<lparr>hc_hosts := saturatingAdd (hc_hosts h) 1, hc_unknown := hc_unknown h + 1\<rparr>))"

definition count_targets :: "string list \<Rightarrow> host_counts" where
  "count_targets targets = fold count_target targets \<lparr>hc_hosts = 0, hc_ipv4 = 0, hc_ipv6 = 0, hc_unknown = 0\<rparr>"

definition is_naabu :: "scan_job \<Rightarrow> bool" where
  "is_naabu j = (case wj_tcp j of None \<Rightarrow> False | Some p \<Rightarrow> sp_engine p = EngineNaabuNmap)"

definition tcp_port_count :: "scan_job \<Rightarrow> work_error + int" where
  "tcp_port_count j =
     (case wj_tcp j of
        None \<Rightarrow> Inr 0
      | Some p \<Rightarrow>
          if sp_engine p = EngineNaabuNmap then Inr 65535
          else (case ParsePorts (sp_ports p) of Inl e \<Rightarrow> Inl (TcpPorts e) | Inr ports \<Rightarrow> Inr (int (length ports))))"

definition udp_port_count :: "scan_job \<Rightarrow> work_error + int" where
  "udp_port_count j =
     (case wj_udp j of
        None \<Rightarrow> Inr 0
      | Some p \<Rightarrow> (case ParsePorts (sp_ports p) of Inl e \<Rightarrow> Inl (UdpPorts e) | Inr ports \<Rightarrow> Inr (int (length ports))))"

text \<open>The probes of one protocol that Nmap scans: two for each port with service detection.\<close>

definition nmap_work :: "int \<Rightarrow> int \<Rightarrow> protocol_scan \<Rightarrow> int" where
  "nmap_work hosts ports p = saturatingMul (saturatingMul hosts ports) (if sp_service p then 2 else 1)"

definition with_probes :: "scan_job \<Rightarrow> work_estimate \<Rightarrow> work_estimate" where
  "with_probes j e0 =
     (let (e1, probes1) =
        (case wj_tcp j of
           None \<Rightarrow> (e0, 0)
         | Some p \<Rightarrow>
             if sp_engine p = EngineNaabuNmap
             then (let n = saturatingMul (we_hosts e0) (we_tcp_ports e0) in (e0\<lparr>we_naabu_probes := n\<rparr>, saturatingAdd 0 n))
             else (let n = saturatingAdd (we_nmap_probes e0) (nmap_work (we_hosts e0) (we_tcp_ports e0) p)
                   in (e0\<lparr>we_nmap_probes := n\<rparr>, saturatingAdd 0 n)));
      (e2, probes2) =
        (case wj_udp j of
           None \<Rightarrow> (e1, probes1)
         | Some p \<Rightarrow> (let n = nmap_work (we_hosts e1) (we_udp_ports e1) p
             in (e1\<lparr>we_nmap_probes := saturatingAdd (we_nmap_probes e1) n\<rparr>, saturatingAdd probes1 n)))
      in e2\<lparr>we_probes := probes2\<rparr>)"

definition naabu_batch :: "scan_job \<Rightarrow> int" where
  "naabu_batch j = (case wj_tcp j of None \<Rightarrow> 16
     | Some p \<Rightarrow> (case sp_naabu p of None \<Rightarrow> 16 | Some options \<Rightarrow> if na_batch options > 0 then na_batch options else 16))"

definition with_invocations :: "scan_job \<Rightarrow> host_counts \<Rightarrow> work_estimate \<Rightarrow> work_estimate" where
  "with_invocations j h e0 =
     (let e1 = (if \<not> is_naabu j then e0
          else let n = saturatingAdd (saturatingAdd (we_naabu_invocations e0) (ceilDiv (hc_ipv4 h) (naabu_batch j)))
                 (ceilDiv (hc_ipv6 h) (naabu_batch j))
            in e0\<lparr>we_naabu_invocations := (if hc_unknown h > 0 then saturatingAdd n (ceilDiv (hc_unknown h) (naabu_batch j)) else n)\<rparr>);
      e2 = (if \<not> is_naabu j \<or> wj_udp j \<noteq> None
          then e1\<lparr>we_nmap_invocations := saturatingAdd (saturatingAdd (we_nmap_invocations e1) (ceilDiv (hc_ipv4 h) workBatchSize))
                 (ceilDiv (hc_ipv6 h) workBatchSize)\<rparr>
          else e1)
      in if hc_unknown h > 0
         then (let factor = (if is_naabu j then (if wj_udp j = None then 0 else 1) else 2)
               in e2\<lparr>we_nmap_invocations := saturatingAdd (we_nmap_invocations e2) (saturatingMul (ceilDiv (hc_unknown h) workBatchSize) factor)\<rparr>)
         else e2)"

text \<open>On an error the estimate so far is returned with it.\<close>

definition EstimateJobWork :: "scan_job \<Rightarrow> work_estimate \<times> work_error option" where
  "EstimateJobWork j0 =
     (let j = NormalizeJob j0; h = count_targets (wj_targets j);
          e0 = zero_estimate\<lparr>we_hosts := hc_hosts h, we_unknown_dns := minInt64 (hc_unknown h) max_int64\<rparr>
      in case tcp_port_count j of
           Inl err \<Rightarrow> (e0, Some err)
         | Inr tcp \<Rightarrow>
             (let e1 = e0\<lparr>we_tcp_ports := tcp\<rparr> in
              case udp_port_count j of
                Inl err \<Rightarrow> (e1, Some err)
              | Inr udp \<Rightarrow> (with_invocations j h (with_probes j (e1\<lparr>we_udp_ports := udp\<rparr>)), None)))"

section \<open>Budgets\<close>

definition DefaultMaxProbeCount :: int where "DefaultMaxProbeCount = 5000000"
definition DefaultNaabuMaxProbeCount :: int where "DefaultNaabuMaxProbeCount = 20000000"
definition MaxProbeCountLimit :: int where "MaxProbeCountLimit = 100000000"

record probe_budget =
  pb_nmap :: int
  pb_naabu :: int
  pb_high_cost :: int

record tenant_capacity =
  tc_max_probes :: "int option"
  tc_max_naabu_probes :: "int option"
  tc_high_cost :: "int option"

definition deploymentProbeBudget :: "int \<Rightarrow> int \<Rightarrow> probe_budget" where
  "deploymentProbeBudget nmap naabu =
     \<lparr>pb_nmap = (if nmap \<le> 0 then DefaultMaxProbeCount else nmap),
      pb_naabu = (if naabu \<le> 0 then DefaultNaabuMaxProbeCount else naabu), pb_high_cost = MaxProbeCountLimit\<rparr>"

definition lowered :: "int option \<Rightarrow> int \<Rightarrow> int" where
  "lowered value limit = (case value of None \<Rightarrow> limit | Some v \<Rightarrow> if v < limit then v else limit)"

definition forTenant :: "probe_budget \<Rightarrow> tenant_capacity \<Rightarrow> probe_budget" where
  "forTenant b c = \<lparr>pb_nmap = lowered (tc_max_probes c) (pb_nmap b), pb_naabu = lowered (tc_max_naabu_probes c) (pb_naabu b),
     pb_high_cost = lowered (tc_high_cost c) (pb_high_cost b)\<rparr>"

definition limits :: "probe_budget \<Rightarrow> scan_job \<Rightarrow> int \<times> int" where
  "limits b j = (if wj_high_cost j then (max (pb_nmap b) (pb_high_cost b), max (pb_naabu b) (pb_high_cost b))
     else (pb_nmap b, pb_naabu b))"

text \<open>The error carries the estimate and the budget that it exceeds.\<close>

datatype budget_error = ScanWorkBudgetError work_estimate int

definition checkEstimatedProbeBudget :: "probe_budget \<Rightarrow> scan_job \<Rightarrow> work_estimate \<Rightarrow> budget_error option" where
  "checkEstimatedProbeBudget b j e =
     (let effective = NormalizeJob j in
      if we_probes e > MaxProbeCountLimit then Some (ScanWorkBudgetError e MaxProbeCountLimit)
      else let (nmapBudget, naabuBudget) = limits b j in
        if is_naabu effective \<and> we_naabu_probes e > naabuBudget then Some (ScanWorkBudgetError e naabuBudget)
        else if we_nmap_probes e > nmapBudget then Some (ScanWorkBudgetError e nmapBudget)
        else None)"

text \<open>
  The store may fail to read the capacity of the tenant, \<open>None\<close> here. The check of a run before
  it starts returns the estimate with the error of the estimate, of the store, or of the budget.
\<close>

datatype check_error = EstimateError work_error | ErrProbeBudgetUnavailable | StoreError | BudgetError budget_error

definition tenantProbeBudget :: "int \<Rightarrow> int \<Rightarrow> tenant_capacity option \<Rightarrow> check_error + probe_budget" where
  "tenantProbeBudget nmap naabu capacity =
     (case capacity of None \<Rightarrow> Inl ErrProbeBudgetUnavailable
      | Some c \<Rightarrow> Inr (forTenant (deploymentProbeBudget nmap naabu) c))"

definition CheckScanWorkBudget ::
  "int \<Rightarrow> int \<Rightarrow> tenant_capacity option \<Rightarrow> scan_job \<Rightarrow> work_estimate \<times> check_error option" where
  "CheckScanWorkBudget nmap naabu capacity j =
     (case EstimateJobWork j of
        (e, Some err) \<Rightarrow> (e, Some (EstimateError err))
      | (e, None) \<Rightarrow>
          (case tenantProbeBudget nmap naabu capacity of
             Inl err \<Rightarrow> (e, Some err)
           | Inr b \<Rightarrow> (e, map_option BudgetError (checkEstimatedProbeBudget b j e))))"

section \<open>Resolved plans\<close>

text \<open>
  \<open>ResolvedTarget\<close>, \<open>WorkUnit\<close> and \<open>WorkPlan\<close> of \<open>internal/scanner/plan.go\<close>, without the time
  at which a plan was made.
\<close>

record resolved_target =
  rt_name :: string
  rt_configured :: string
  rt_addresses :: "string list"
  rt_aggregate :: bool
  rt_hostname :: bool

record work_unit =
  wu_sequence :: int
  wu_engine :: string
  wu_phase :: string
  wu_protocol :: string
  wu_family :: int
  wu_targets :: "resolved_target list"
  wu_addresses :: "string list"
  wu_ports :: string
  wu_port_count :: int
  wu_probes :: int

record work_plan =
  wp_job :: scan_job
  wp_targets :: "resolved_target list"
  wp_dns :: "(string, string list) gomap"
  wp_scopes :: "scope list"
  wp_failures :: "target_coverage_failure list"
  wp_units :: "work_unit list"
  wp_total_probes :: int
  wp_total_units :: int

record probe_totals =
  pt_unit :: int
  pt_discovery :: int
  pt_nmap :: int

definition add_unit :: "work_unit \<Rightarrow> probe_totals \<Rightarrow> probe_totals" where
  "add_unit u t =
     (let probes = maxNonNegative (wu_probes u); t' = t\<lparr>pt_unit := saturatingProbeAdd (pt_unit t) probes\<rparr> in
      if wu_phase u = ''discovery'' then t'\<lparr>pt_discovery := saturatingProbeAdd (pt_discovery t) probes\<rparr>
      else t'\<lparr>pt_nmap := saturatingProbeAdd (pt_nmap t) probes\<rparr>)"

definition resolvedPlanProbeTotals :: "work_plan \<Rightarrow> int \<times> int" where
  "resolvedPlanProbeTotals plan =
     (let t = fold add_unit (wp_units plan) \<lparr>pt_unit = 0, pt_discovery = 0, pt_nmap = 0\<rparr>;
          declared = maxNonNegative (wp_total_probes plan)
      in if wp_units plan = [] then (0, declared)
         else (pt_discovery t, if declared > pt_unit t then saturatingProbeAdd (pt_nmap t) (wrap64 (declared - pt_unit t)) else pt_nmap t))"

definition checkResolvedProbeBudget :: "probe_budget \<Rightarrow> scan_job \<Rightarrow> int \<Rightarrow> int \<Rightarrow> budget_error option" where
  "checkResolvedProbeBudget b j discovery0 nmapProbes0 =
     (let discovery = maxNonNegative discovery0; nmapProbes = maxNonNegative nmapProbes0;
          total = saturatingProbeAdd discovery nmapProbes;
          e = zero_estimate\<lparr>we_probes := total, we_naabu_probes := discovery, we_nmap_probes := nmapProbes\<rparr>
      in if discovery > MaxProbeCountLimit \<or> nmapProbes > MaxProbeCountLimit \<or> total > MaxProbeCountLimit
         then Some (ScanWorkBudgetError e MaxProbeCountLimit)
         else let (nmapBudget, naabuBudget) = limits b j in
           if discovery > naabuBudget then Some (ScanWorkBudgetError e naabuBudget)
           else if nmapProbes > nmapBudget then Some (ScanWorkBudgetError e nmapBudget)
           else None)"

text \<open>The check of a cycle before its next process: \<open>totals\<close> are the durable totals of the store.\<close>

definition CheckScanCycleProbeBudget ::
  "int \<Rightarrow> int \<Rightarrow> tenant_capacity option \<Rightarrow> (int \<times> int) option \<Rightarrow> scan_job \<Rightarrow> check_error option" where
  "CheckScanCycleProbeBudget nmap naabu capacity totals j =
     (case totals of
        None \<Rightarrow> Some StoreError
      | Some (discovery, nmapProbes) \<Rightarrow>
          (case tenantProbeBudget nmap naabu capacity of
             Inl err \<Rightarrow> Some err
           | Inr b \<Rightarrow> map_option BudgetError (checkResolvedProbeBudget b j discovery nmapProbes)))"

end
