(* ===== verification/BudgetFacts.thy ===== *)
theory BudgetFacts
  imports Budget
begin

text \<open>
  The budgets decide on the true amount of work: the saturating 64-bit estimate and totals
  pass exactly when the unbounded ones would.
\<close>

section \<open>Saturating values stand for exact ones\<close>

text \<open>
  \<open>close a x\<close>: the 64-bit value \<open>a\<close> is the exact \<open>x\<close> below \<open>2 ^ 62\<close>, and as large beyond.
\<close>

definition close :: "int \<Rightarrow> int \<Rightarrow> bool" where
  "close a x \<longleftrightarrow> 0 \<le> x \<and> (if x < 2 ^ 62 then a = x else 2 ^ 62 \<le> a \<and> a \<le> max_int64)"

lemma wrap64_id: "- (2 ^ 63) \<le> x \<Longrightarrow> x \<le> max_int64 \<Longrightarrow> wrap64 x = x"
  by (simp add: wrap64_def max_int64_def)

lemma close_bounds: "close a x \<Longrightarrow> 0 \<le> a \<and> a \<le> max_int64"
  by (auto simp: close_def max_int64_def split: if_splits)

lemma close_less: "close a x \<Longrightarrow> limit < 2 ^ 62 \<Longrightarrow> limit < a \<longleftrightarrow> limit < x"
  by (auto simp: close_def split: if_splits)

lemma close_small: "0 \<le> x \<Longrightarrow> x < 2 ^ 62 \<Longrightarrow> close x x"
  by (simp add: close_def)

lemma saturatingAdd_eq:
  assumes "0 \<le> a" "a \<le> max_int64" "0 \<le> b" "b \<le> max_int64"
  shows "saturatingAdd a b = min (a + b) max_int64"
proof -
  have "wrap64 (max_int64 - b) = max_int64 - b" using assms by (intro wrap64_id) (simp_all add: max_int64_def)
  moreover have "wrap64 (a + b) = a + b" if "a + b \<le> max_int64" using that assms by (intro wrap64_id) simp_all
  ultimately show ?thesis using assms by (auto simp: saturatingAdd_def min_def)
qed

lemma saturatingMul_eq:
  assumes "0 \<le> a" "0 \<le> b"
  shows "saturatingMul a b = min (a * b) max_int64"
proof (cases "a = 0 \<or> b = 0")
  case True
  then show ?thesis by (auto simp: saturatingMul_def max_int64_def)
next
  case False
  then have pos: "0 < a" "0 < b" using assms by auto
  have iff: "max_int64 div b < a \<longleftrightarrow> max_int64 < a * b"
  proof -
    have "a \<le> max_int64 div b" if "a * b \<le> max_int64" using zdiv_mono1 [OF that pos(2)] pos(2) by simp
    moreover have "a * b \<le> max_int64" if "a \<le> max_int64 div b"
    proof -
      have "a * b \<le> (max_int64 div b) * b" using that pos(2) by (intro mult_right_mono) simp_all
      also have "\<dots> \<le> max_int64" using div_mult_mod_eq [of max_int64 b] pos_mod_sign [OF pos(2), of max_int64] by linarith
      finally show ?thesis .
    qed
    ultimately show ?thesis by linarith
  qed
  have "wrap64 (a * b) = a * b" if "a * b \<le> max_int64"
    using that mult_pos_pos [OF pos] by (intro wrap64_id) simp_all
  then show ?thesis using pos iff by (auto simp: saturatingMul_def min_def)
qed

lemma saturatingProbeAdd_eq:
  assumes "0 \<le> a" "a \<le> max_int64" "0 \<le> b" "b \<le> max_int64"
  shows "saturatingProbeAdd a b = min (a + b) max_int64"
proof -
  have "wrap64 (max_int64 - b) = max_int64 - b" using assms by (intro wrap64_id) (simp_all add: max_int64_def)
  moreover have "wrap64 (a + b) = a + b" if "a + b \<le> max_int64" using that assms by (intro wrap64_id) simp_all
  ultimately show ?thesis using assms by (auto simp: saturatingProbeAdd_def min_def)
qed

lemma close_add:
  assumes "close a x" "close b y"
  shows "close (saturatingAdd a b) (x + y)"
  unfolding saturatingAdd_eq [OF conjunct1 [OF close_bounds [OF assms(1)]] conjunct2 [OF close_bounds [OF assms(1)]]
      conjunct1 [OF close_bounds [OF assms(2)]] conjunct2 [OF close_bounds [OF assms(2)]]]
  using assms by (auto simp: close_def max_int64_def min_def split: if_splits)

lemma close_mul:
  assumes "close a x" "close b y"
  shows "close (saturatingMul a b) (x * y)"
proof -
  have pos: "0 \<le> a" "0 \<le> b" "0 \<le> x" "0 \<le> y" using assms close_bounds [OF assms(1)] close_bounds [OF assms(2)] by (auto simp: close_def)
  have big: "2 ^ 62 \<le> u * v" if "2 ^ 62 \<le> u" "0 < v" for u v :: int
    using mult_mono [of "2 ^ 62" u 1 v] that by simp
  have big': "2 ^ 62 \<le> v * u" if "2 ^ 62 \<le> u" "0 < v" for u v :: int
    using big [OF that] by (simp add: mult.commute)
  have eq: "saturatingMul a b = min (a * b) max_int64" by (rule saturatingMul_eq [OF pos(1,2)])
  consider "a = x" "b = y" | "2 ^ 62 \<le> x" "2 ^ 62 \<le> a" | "2 ^ 62 \<le> y" "2 ^ 62 \<le> b"
    using assms unfolding close_def by (metis (full_types) not_less)
  then show ?thesis
  proof cases
    case 1
    then show ?thesis using pos unfolding eq by (auto simp: close_def max_int64_def min_def)
  next
    case 2
    have z: "b = 0 \<longleftrightarrow> y = 0" using assms(2) by (auto simp: close_def split: if_splits)
    show ?thesis
    proof (cases "y = 0")
      case False
      then have "2 ^ 62 \<le> a * b" "2 ^ 62 \<le> x * y" using big 2 z pos by simp_all
      then show ?thesis unfolding eq by (auto simp: close_def max_int64_def min_def)
    qed (use z eq in \<open>simp add: close_def max_int64_def\<close>)
  next
    case 3
    have z: "a = 0 \<longleftrightarrow> x = 0" using assms(1) by (auto simp: close_def split: if_splits)
    show ?thesis
    proof (cases "x = 0")
      case False
      then have "2 ^ 62 \<le> a * b" "2 ^ 62 \<le> x * y" using big' 3 z pos by simp_all
      then show ?thesis unfolding eq by (auto simp: close_def max_int64_def min_def)
    qed (use z eq in \<open>simp add: close_def max_int64_def\<close>)
  qed
qed

section \<open>The exact work of a job\<close>

text \<open>The addresses of one target; a DNS name counts as one.\<close>

definition target_size :: "string \<Rightarrow> int" where
  "target_size target =
     (case parseIP target of
        Some _ \<Rightarrow> 1
      | None \<Rightarrow> (case parseCIDR target of Some net \<Rightarrow> 2 ^ (network_bits net - nw_ones net) | None \<Rightarrow> 1))"

definition exact_hosts :: "scan_job \<Rightarrow> int" where
  "exact_hosts j = sum_list (map target_size (wj_targets (NormalizeJob j)))"

lemma isl_cases: "\<not> isl x \<longleftrightarrow> (\<exists>y. x = Inr y)"
  by (cases x) auto

definition port_count :: "string \<Rightarrow> int" where
  "port_count ports = (case ParsePorts ports of Inl _ \<Rightarrow> 0 | Inr ps \<Rightarrow> int (length ps))"

definition protocol_work :: "int \<Rightarrow> protocol_scan \<Rightarrow> int" where
  "protocol_work hosts p = hosts * port_count (sp_ports p) * (if sp_service p then 2 else 1)"

definition exact_naabu :: "scan_job \<Rightarrow> int" where
  "exact_naabu j = (if is_naabu (NormalizeJob j) then exact_hosts j * 65535 else 0)"

definition exact_nmap :: "scan_job \<Rightarrow> int" where
  "exact_nmap j = (case wj_tcp (NormalizeJob j) of None \<Rightarrow> 0
       | Some p \<Rightarrow> if is_naabu (NormalizeJob j) then 0 else protocol_work (exact_hosts j) p) +
     (case wj_udp (NormalizeJob j) of None \<Rightarrow> 0 | Some p \<Rightarrow> protocol_work (exact_hosts j) p)"

definition ports_valid :: "scan_job \<Rightarrow> bool" where
  "ports_valid j \<longleftrightarrow> (case wj_tcp (NormalizeJob j) of None \<Rightarrow> True
       | Some p \<Rightarrow> is_naabu (NormalizeJob j) \<or> \<not> isl (ParsePorts (sp_ports p))) \<and>
     (case wj_udp (NormalizeJob j) of None \<Rightarrow> True | Some p \<Rightarrow> \<not> isl (ParsePorts (sp_ports p)))"

lemma close_target: "close (case parseCIDR t of None \<Rightarrow> 1 | Some net \<Rightarrow> networkAddressCount net)
    (case parseCIDR t of None \<Rightarrow> 1 | Some net \<Rightarrow> 2 ^ (network_bits net - nw_ones net))"
proof (cases "parseCIDR t")
  case (Some net)
  let ?k = "network_bits net - nw_ones net"
  have "(2::int) ^ 62 \<le> 2 ^ ?k" if "62 \<le> ?k" using power_increasing [OF that, of "2 :: int"] by simp
  moreover have "(2::int) ^ ?k < 2 ^ 62" if "?k < 62" by (rule power_strict_increasing [OF that]) simp
  moreover have "(62 \<le> int (network_bits net) - int (nw_ones net)) \<longleftrightarrow> 62 \<le> ?k" by linarith
  ultimately show ?thesis using Some by (auto simp: close_def networkAddressCount_def max_int64_def not_le)
qed (simp add: close_def)

lemma hosts_step: "hc_hosts (count_target t h) = saturatingAdd (hc_hosts h)
    (if parseIP t \<noteq> None then 1 else case parseCIDR t of None \<Rightarrow> 1 | Some net \<Rightarrow> networkAddressCount net)"
  by (auto simp: count_target_def count_addresses_def Let_def split: option.split)

lemma count_targets_close: "close (hc_hosts (count_targets ts)) (sum_list (map target_size ts))"
proof -
  have step: "close (hc_hosts (count_target t h)) (x + target_size t)" if "close (hc_hosts h) x" for t h x
    unfolding hosts_step using that close_target [of t]
    by (intro close_add) (auto simp: target_size_def close_small split: option.split)
  have "close (hc_hosts (fold count_target ts h)) (x + sum_list (map target_size ts))" if "close (hc_hosts h) x" for h x
    using that
  proof (induction ts arbitrary: h x)
    case (Cons t ts)
    then show ?case using Cons.IH [OF step [OF Cons.prems, of t]] by (simp add: add.assoc)
  qed simp
  from this [of "\<lparr>hc_hosts = 0, hc_ipv4 = 0, hc_ipv6 = 0, hc_unknown = 0\<rparr>" 0] show ?thesis
    by (simp add: count_targets_def close_small)
qed


section \<open>The estimate\<close>

lemma with_invocations_probes [simp]:
  "we_probes (with_invocations j h e) = we_probes e" "we_naabu_probes (with_invocations j h e) = we_naabu_probes e"
  "we_nmap_probes (with_invocations j h e) = we_nmap_probes e" "we_hosts (with_invocations j h e) = we_hosts e"
  by (simp_all add: with_invocations_def Let_def)

lemma with_probes_hosts [simp]: "we_hosts (with_probes j e) = we_hosts e"
  by (cases "wj_tcp j"; cases "wj_udp j") (simp_all add: with_probes_def Let_def)

lemma sat_zero: "0 \<le> b \<Longrightarrow> b \<le> max_int64 \<Longrightarrow> saturatingAdd 0 b = b"
  by (simp add: saturatingAdd_eq max_int64_def min_def)

lemma nmap_work_close:
  assumes "close hosts x" "close ports y"
  shows "close (nmap_work hosts ports p) (x * y * (if sp_service p then 2 else 1))"
  unfolding nmap_work_def by (intro close_mul assms) (simp add: close_small)

text \<open>The probes that the estimate adds up, from close counts of hosts and ports.\<close>

lemma with_probes_close:
  assumes "close (we_hosts e) x" "close (we_tcp_ports e) t" "close (we_udp_ports e) u" "we_nmap_probes e = 0" "we_naabu_probes e = 0"
    and "naabu = (if is_naabu j then x * t else 0)"
    and "nmap = (case wj_tcp j of None \<Rightarrow> 0 | Some p \<Rightarrow> if is_naabu j then 0 else x * t * (if sp_service p then 2 else 1)) +
      (case wj_udp j of None \<Rightarrow> 0 | Some p \<Rightarrow> x * u * (if sp_service p then 2 else 1))"
  shows "close (we_naabu_probes (with_probes j e)) naabu" "close (we_nmap_probes (with_probes j e)) nmap"
    "close (we_probes (with_probes j e)) (naabu + nmap)"
proof -
  note n = close_mul [OF assms(1,2)]
  have z: "close 0 0" by (simp add: close_def)
  have w: "close (saturatingAdd 0 a) y" if "close a y" for a y using close_add [OF z that] by simp
  note tcp = nmap_work_close [OF assms(1,2)] and udp = nmap_work_close [OF assms(1,3)]
  show "close (we_naabu_probes (with_probes j e)) naabu"
    using n z assms(5) by (cases "wj_tcp j"; cases "wj_udp j") (simp_all add: with_probes_def Let_def assms(6) is_naabu_def)
  show "close (we_nmap_probes (with_probes j e)) nmap"
  proof (cases "wj_tcp j")
    case None
    then show ?thesis using udp z w assms(4)
      by (cases "wj_udp j") (simp_all add: with_probes_def Let_def assms(7) is_naabu_def)
  next
    case (Some p)
    then show ?thesis
      using udp z w [OF tcp [of p]] w [OF udp] assms(4) close_add [OF w [OF tcp [of p]] udp]
      by (cases "wj_udp j") (simp_all add: with_probes_def Let_def assms(7) is_naabu_def)
  qed
  show "close (we_probes (with_probes j e)) (naabu + nmap)"
  proof (cases "wj_tcp j")
    case None
    then show ?thesis using udp z w
      by (cases "wj_udp j") (simp_all add: with_probes_def Let_def assms(7) assms(6) is_naabu_def)
  next
    case (Some p)
    then show ?thesis
      using w [OF n] close_add [OF w [OF n] udp] w [OF w [OF tcp [of p]]] close_add [OF w [OF w [OF tcp [of p]]] udp] assms(4)
      by (cases "wj_udp j") (simp_all add: with_probes_def Let_def assms(7) assms(6) is_naabu_def)
  qed
qed


lemma port_count_small: "close (port_count ports) (port_count ports)"
proof (cases "ParsePorts ports")
  case (Inr ps)
  then obtain rs where rs: "parse_items (splitOn CHR '','' ports) = Inr rs" "ps = expand rs"
    by (auto simp: ParsePorts_def split: if_splits sum.splits)
  have "set ps = rset rs" unfolding rs(2) by (rule set_expand)
  moreover have "in_bounds rs" by (rule parse_items_bounds [OF rs(1)])
  ultimately have sub: "set ps \<subseteq> {1..65535}" using rset_bounds by auto
  have "distinct ps" unfolding rs(2) by (simp add: expand_def)
  then have "length ps = card (set ps)" by (simp add: distinct_card)
  also have "\<dots> \<le> card {1 :: int..65535}" using sub by (intro card_mono) simp_all
  finally show ?thesis using Inr by (intro close_small) (simp_all add: port_count_def)
qed (simp add: port_count_def close_def)

text \<open>When both port expressions parse, the estimate is close to the exact work.\<close>

lemma EstimateJobWork_close:
  assumes "ports_valid j"
  obtains e where "EstimateJobWork j = (e, None)" "close (we_hosts e) (exact_hosts j)"
    "close (we_naabu_probes e) (exact_naabu j)" "close (we_nmap_probes e) (exact_nmap j)"
    "close (we_probes e) (exact_naabu j + exact_nmap j)"
proof -
  let ?j = "NormalizeJob j"
  let ?h = "count_targets (wj_targets ?j)"
  let ?tcp = "case wj_tcp ?j of None \<Rightarrow> 0 | Some p \<Rightarrow> if is_naabu ?j then 65535 else port_count (sp_ports p)"
  let ?udp = "case wj_udp ?j of None \<Rightarrow> 0 | Some p \<Rightarrow> port_count (sp_ports p)"
  let ?e = "zero_estimate\<lparr>we_hosts := hc_hosts ?h, we_unknown_dns := minInt64 (hc_unknown ?h) max_int64,
     we_tcp_ports := ?tcp, we_udp_ports := ?udp\<rparr>"
  have tcp: "tcp_port_count ?j = Inr ?tcp" and udp: "udp_port_count ?j = Inr ?udp"
    using assms by (auto simp: ports_valid_def tcp_port_count_def udp_port_count_def is_naabu_def isl_cases port_count_def split: option.splits)
  have est: "EstimateJobWork j = (with_invocations ?j ?h (with_probes ?j ?e), None)"
    by (simp add: EstimateJobWork_def Let_def tcp udp)
  have ct: "close ?tcp ?tcp" and cu: "close ?udp ?udp"
    using port_count_small by (auto simp: close_small close_def split: option.split)
  have "close (we_hosts ?e) (exact_hosts j)" using count_targets_close by (simp add: exact_hosts_def)
  note p = with_probes_close [where e = ?e and j = ?j, OF this _ _ _ _ refl refl, of ?tcp ?udp]
  have naabu: "(if is_naabu ?j then exact_hosts j * ?tcp else 0) = exact_naabu j"
    by (auto simp: exact_naabu_def is_naabu_def split: option.splits)
  have nmap: "(case wj_tcp ?j of None \<Rightarrow> 0 | Some p \<Rightarrow> if is_naabu ?j then 0 else exact_hosts j * ?tcp * (if sp_service p then 2 else 1)) +
      (case wj_udp ?j of None \<Rightarrow> 0 | Some p \<Rightarrow> exact_hosts j * ?udp * (if sp_service p then 2 else 1)) = exact_nmap j"
    by (cases "wj_tcp ?j"; cases "wj_udp ?j") (simp_all add: exact_nmap_def protocol_work_def)
  show thesis
    by (rule that [OF est]) (use p ct cu \<open>close (we_hosts ?e) (exact_hosts j)\<close> in \<open>simp_all add: naabu nmap zero_estimate_def\<close>)
qed


lemma EstimateJobWork_error:
  assumes "\<not> ports_valid j"
  obtains e err where "EstimateJobWork j = (e, Some err)"
proof -
  have "isl (tcp_port_count (NormalizeJob j)) \<or> isl (udp_port_count (NormalizeJob j))"
    using assms by (auto simp: ports_valid_def tcp_port_count_def udp_port_count_def is_naabu_def split: option.splits sum.splits)
  then have "snd (EstimateJobWork j) \<noteq> None"
    by (cases "tcp_port_count (NormalizeJob j)"; cases "udp_port_count (NormalizeJob j)") (simp_all add: EstimateJobWork_def Let_def)
  then show thesis using that by (cases "EstimateJobWork j") auto
qed

section \<open>The check of the estimate\<close>

text \<open>
  C21: A job passes the budget of its tenant exactly when its port expressions are valid and
  the true amount of work, counted without bounds, stays within the absolute ceiling and both
  budgets: no overflow of the 64-bit estimate lets a larger scan through, and none stops a
  smaller one. The settings of a tenant only ever lower the budgets of the deployment.
\<close>

theorem budget_check_exact:
  assumes "forTenant (deploymentProbeBudget nmap naabu) c = b" "limits b j = (nmapBudget, naabuBudget)"
    and "nmapBudget < 2 ^ 62" "naabuBudget < 2 ^ 62"
  shows "(snd (CheckScanWorkBudget nmap naabu (Some c) j) = None \<longleftrightarrow>
      ports_valid j \<and> exact_naabu j + exact_nmap j \<le> MaxProbeCountLimit \<and>
      (is_naabu (NormalizeJob j) \<longrightarrow> exact_naabu j \<le> naabuBudget) \<and> exact_nmap j \<le> nmapBudget) \<and>
    pb_nmap b \<le> pb_nmap (deploymentProbeBudget nmap naabu) \<and> pb_naabu b \<le> pb_naabu (deploymentProbeBudget nmap naabu) \<and>
    pb_high_cost b \<le> MaxProbeCountLimit"
proof -
  have "snd (CheckScanWorkBudget nmap naabu (Some c) j) = None \<longleftrightarrow>
      ports_valid j \<and> exact_naabu j + exact_nmap j \<le> MaxProbeCountLimit \<and>
      (is_naabu (NormalizeJob j) \<longrightarrow> exact_naabu j \<le> naabuBudget) \<and> exact_nmap j \<le> nmapBudget"
  proof (cases "ports_valid j")
    case True
    then obtain e where e: "EstimateJobWork j = (e, None)" "close (we_naabu_probes e) (exact_naabu j)"
      "close (we_nmap_probes e) (exact_nmap j)" "close (we_probes e) (exact_naabu j + exact_nmap j)"
      by (rule EstimateJobWork_close)
    have "MaxProbeCountLimit < we_probes e \<longleftrightarrow> MaxProbeCountLimit < exact_naabu j + exact_nmap j"
      by (rule close_less [OF e(4)]) (simp add: MaxProbeCountLimit_def)
    then show ?thesis
      using True close_less [OF e(2) assms(4)] close_less [OF e(3) assms(3)]
      by (auto simp: CheckScanWorkBudget_def tenantProbeBudget_def checkEstimatedProbeBudget_def e(1) assms(1,2) Let_def)
  next
    case False
    then show ?thesis by (rule EstimateJobWork_error) (simp add: False CheckScanWorkBudget_def)
  qed
  moreover have "lowered v x \<le> x" for v x by (simp add: lowered_def split: option.split)
  ultimately show ?thesis using assms(1) by (auto simp: forTenant_def deploymentProbeBudget_def)
qed

definition example_scan_job :: scan_job where
  "example_scan_job = \<lparr>wj_targets = [''192.0.2.0/24''], wj_max_hosts = 0,
     wj_tcp = Some (no_protocol\<lparr>sp_ports := ''80,443'', sp_service := True\<rparr>),
     wj_udp = None, wj_high_cost = False\<rparr>"

definition example_capacity :: "int \<Rightarrow> tenant_capacity" where
  "example_capacity n = \<lparr>tc_max_probes = Some n, tc_max_naabu_probes = None, tc_high_cost = Some 0\<rparr>"

theorem budget_check_exact_witness:
  "snd (CheckScanWorkBudget 0 0 (Some (example_capacity 1024)) example_scan_job) = None \<and>
   snd (CheckScanWorkBudget 0 0 (Some (example_capacity 1023)) example_scan_job) \<noteq> None"
proof -
  have l: "limits (forTenant (deploymentProbeBudget 0 0) (example_capacity n)) example_scan_job = (n, 20000000)" if "n < 2000" for n
    using that by (simp add: limits_def forTenant_def lowered_def example_capacity_def deploymentProbeBudget_def example_scan_job_def
        DefaultMaxProbeCount_def DefaultNaabuMaxProbeCount_def)
  have w: "ports_valid example_scan_job" "exact_naabu example_scan_job = 0" "exact_nmap example_scan_job = 1024"
    "\<not> is_naabu (NormalizeJob example_scan_job)"
    by code_simp+
  show ?thesis
    using budget_check_exact [OF refl l [of 1024]] budget_check_exact [OF refl l [of 1023]] w by (simp add: MaxProbeCountLimit_def)
qed

section \<open>The check of a resolved plan\<close>

definition unit_work :: "work_unit \<Rightarrow> int" where
  "unit_work u = max 0 (wu_probes u)"

definition discovery_work :: "work_plan \<Rightarrow> int" where
  "discovery_work plan = sum_list (map unit_work (filter (\<lambda>u. wu_phase u = ''discovery'') (wp_units plan)))"

text \<open>Nmap work: the other units, and what the plan declares beyond all of its units.\<close>

definition nmap_unit_work :: "work_plan \<Rightarrow> int" where
  "nmap_unit_work plan = sum_list (map unit_work (filter (\<lambda>u. wu_phase u \<noteq> ''discovery'') (wp_units plan)))"

definition undeclared_units :: "work_plan \<Rightarrow> int" where
  "undeclared_units plan = max 0 (max 0 (wp_total_probes plan) - (discovery_work plan + nmap_unit_work plan))"

definition int64 :: "int \<Rightarrow> bool" where
  "int64 x \<longleftrightarrow> - (2 ^ 63) \<le> x \<and> x \<le> max_int64"

lemma capped_add: "0 \<le> x \<Longrightarrow> 0 \<le> b \<Longrightarrow> b \<le> max_int64 \<Longrightarrow> saturatingProbeAdd (min x max_int64) b = min (x + b) max_int64"
  by (subst saturatingProbeAdd_eq) (auto simp: min_def max_int64_def)

lemma maxNonNegative_max: "maxNonNegative x = max 0 x"
  by (simp add: maxNonNegative_def max_def)

lemma add_units_capped:
  assumes "\<forall>u \<in> set us. int64 (wu_probes u)" "0 \<le> x" "0 \<le> d" "0 \<le> n"
    and "t = \<lparr>pt_unit = min x max_int64, pt_discovery = min d max_int64, pt_nmap = min n max_int64\<rparr>"
  shows "fold add_unit us t = \<lparr>pt_unit = min (x + sum_list (map unit_work us)) max_int64,
    pt_discovery = min (d + sum_list (map unit_work (filter (\<lambda>u. wu_phase u = ''discovery'') us))) max_int64,
    pt_nmap = min (n + sum_list (map unit_work (filter (\<lambda>u. wu_phase u \<noteq> ''discovery'') us))) max_int64\<rparr>"
  using assms
proof (induction us arbitrary: t x d n)
  case (Cons u us)
  let ?w = "unit_work u"
  have w: "maxNonNegative (wu_probes u) = ?w" "0 \<le> ?w" "?w \<le> max_int64"
    using Cons.prems(1) by (auto simp: maxNonNegative_max unit_work_def int64_def max_int64_def)
  show ?case
  proof (cases "wu_phase u = ''discovery''")
    case True
    then have "add_unit u t = \<lparr>pt_unit = min (x + ?w) max_int64, pt_discovery = min (d + ?w) max_int64, pt_nmap = min n max_int64\<rparr>"
      using Cons.prems w by (simp add: add_unit_def capped_add Let_def)
    then show ?thesis using Cons.IH [of "x + ?w" "d + ?w" n] Cons.prems w True by (simp add: add.assoc)
  next
    case False
    then have "add_unit u t = \<lparr>pt_unit = min (x + ?w) max_int64, pt_discovery = min d max_int64, pt_nmap = min (n + ?w) max_int64\<rparr>"
      using Cons.prems w by (simp add: add_unit_def capped_add Let_def)
    then show ?thesis using Cons.IH [of "x + ?w" d "n + ?w"] Cons.prems w False by (simp add: add.assoc)
  qed
qed simp

lemma unit_work_nonneg: "0 \<le> sum_list (map unit_work us)"
  by (rule sum_list_nonneg) (auto simp: unit_work_def)

lemma unit_work_split: "sum_list (map unit_work us) = sum_list (map unit_work (filter P us)) + sum_list (map unit_work (filter (\<lambda>u. \<not> P u) us))"
  by (induction us) simp_all

lemma resolvedPlanProbeTotals_exact:
  assumes "\<forall>u \<in> set (wp_units plan). int64 (wu_probes u)" "int64 (wp_total_probes plan)"
  shows "resolvedPlanProbeTotals plan =
    (min (discovery_work plan) max_int64, min (nmap_unit_work plan + undeclared_units plan) max_int64)"
proof -
  let ?us = "wp_units plan" and ?t = "\<lparr>pt_unit = 0, pt_discovery = 0, pt_nmap = 0\<rparr>"
  let ?all = "discovery_work plan + nmap_unit_work plan" and ?declared = "maxNonNegative (wp_total_probes plan)"
  have all: "sum_list (map unit_work ?us) = ?all"
    using unit_work_split [of ?us "\<lambda>u. wu_phase u = ''discovery''"] by (simp add: discovery_work_def nmap_unit_work_def)
  have t: "fold add_unit ?us ?t = \<lparr>pt_unit = min ?all max_int64, pt_discovery = min (discovery_work plan) max_int64,
      pt_nmap = min (nmap_unit_work plan) max_int64\<rparr>"
    using add_units_capped [OF assms(1), of 0 0 0 ?t] by (simp add: all discovery_work_def nmap_unit_work_def max_int64_def)
  have pos: "0 \<le> discovery_work plan" "0 \<le> nmap_unit_work plan"
    using unit_work_nonneg by (simp_all add: discovery_work_def nmap_unit_work_def)
  have d: "?declared = max 0 (wp_total_probes plan)" "0 \<le> ?declared" "?declared \<le> max_int64"
    using assms(2) by (auto simp: maxNonNegative_max int64_def max_int64_def)
  show ?thesis
  proof (cases "?us = []")
    case True
    then show ?thesis using d by (simp add: resolvedPlanProbeTotals_def discovery_work_def nmap_unit_work_def undeclared_units_def Let_def max_int64_def)
  next
    case False
    have ex: "saturatingProbeAdd (min (nmap_unit_work plan) max_int64) (wrap64 (?declared - min ?all max_int64)) =
        min (nmap_unit_work plan + undeclared_units plan) max_int64" if "?declared > min ?all max_int64"
    proof -
      have le: "?all < ?declared" "min ?all max_int64 = ?all" using that d(3) by (auto simp: min_def split: if_splits)
      have "wrap64 (?declared - ?all) = ?declared - ?all" using le(1) d pos by (intro wrap64_id) (simp_all add: max_int64_def)
      moreover have "undeclared_units plan = ?declared - ?all" using le(1) by (simp add: undeclared_units_def d(1))
      moreover have "saturatingProbeAdd (min (nmap_unit_work plan) max_int64) (?declared - ?all) =
          min (nmap_unit_work plan + (?declared - ?all)) max_int64"
        using le d pos by (intro capped_add) simp_all
      ultimately show ?thesis by (simp only: le(2))
    qed
    have "undeclared_units plan = 0" if "\<not> ?declared > min ?all max_int64"
      using that d by (auto simp: undeclared_units_def min_def split: if_splits)
    then show ?thesis using False ex by (simp add: resolvedPlanProbeTotals_def t Let_def)
  qed
qed

text \<open>
  A resolved plan passes exactly when the work of its units, and any work that it
  declares beyond them, stays within the ceiling and the two budgets; negative counts count
  as nothing, and no sum overflows.
\<close>

theorem resolved_budget_exact:
  assumes "\<forall>u \<in> set (wp_units plan). int64 (wu_probes u)" "int64 (wp_total_probes plan)"
    and "limits b j = (nmapBudget, naabuBudget)" "nmapBudget < max_int64" "naabuBudget < max_int64"
  shows "(case resolvedPlanProbeTotals plan of (discovery, nmap) \<Rightarrow> checkResolvedProbeBudget b j discovery nmap = None) \<longleftrightarrow>
    discovery_work plan + nmap_unit_work plan + undeclared_units plan \<le> MaxProbeCountLimit \<and>
    discovery_work plan \<le> naabuBudget \<and> nmap_unit_work plan + undeclared_units plan \<le> nmapBudget"
proof -
  let ?d = "discovery_work plan" and ?n = "nmap_unit_work plan + undeclared_units plan"
  have pos: "0 \<le> ?d" "0 \<le> ?n"
    using unit_work_nonneg by (simp_all add: discovery_work_def nmap_unit_work_def undeclared_units_def)
  have m: "maxNonNegative (min ?d max_int64) = min ?d max_int64" "maxNonNegative (min ?n max_int64) = min ?n max_int64"
    using pos by (simp_all add: maxNonNegative_def min_def max_int64_def)
  have total: "saturatingProbeAdd (min ?d max_int64) (min ?n max_int64) = min (?d + min ?n max_int64) max_int64"
    using pos by (intro capped_add) (simp_all add: max_int64_def)
  have "MaxProbeCountLimit < max_int64" by (simp add: MaxProbeCountLimit_def max_int64_def)
  then show ?thesis
    unfolding resolvedPlanProbeTotals_exact [OF assms(1,2)] prod.case checkResolvedProbeBudget_def Let_def m total assms(3)
    using pos assms(4,5) by (auto simp: min_def)
qed

definition example_unit :: "string \<Rightarrow> int \<Rightarrow> work_unit" where
  "example_unit phase probes = \<lparr>wu_sequence = 0, wu_engine = [], wu_phase = phase, wu_protocol = ''tcp'', wu_family = 4,
     wu_targets = [], wu_addresses = [], wu_ports = [], wu_port_count = 0, wu_probes = probes\<rparr>"

definition example_plan :: work_plan where
  "example_plan = \<lparr>wp_job = example_scan_job, wp_targets = [], wp_dns = [], wp_scopes = [], wp_failures = [],
     wp_units = [example_unit ''discovery'' 600, example_unit ''enrichment'' (- 5)],
     wp_total_probes = 1000, wp_total_units = 2\<rparr>"

theorem resolved_budget_exact_witness:
  "case resolvedPlanProbeTotals example_plan of (discovery, nmap) \<Rightarrow>
     checkResolvedProbeBudget (deploymentProbeBudget 400 600) example_scan_job discovery nmap = None"
proof -
  have "limits (deploymentProbeBudget 400 600) example_scan_job = (400, 600)"
    by (simp add: limits_def deploymentProbeBudget_def example_scan_job_def)
  moreover have "\<forall>u \<in> set (wp_units example_plan). int64 (wu_probes u)" "int64 (wp_total_probes example_plan)"
    by (simp_all add: example_plan_def example_unit_def int64_def max_int64_def)
  moreover have "discovery_work example_plan = 600" "nmap_unit_work example_plan = 0" "undeclared_units example_plan = 400"
    by code_simp+
  ultimately show ?thesis
    using resolved_budget_exact [of example_plan "deploymentProbeBudget 400 600" example_scan_job 400 600]
    by (simp add: MaxProbeCountLimit_def max_int64_def)
qed

end
