(* ===== verification/Plan.thy ===== *)
theory Plan
  imports Budget
begin

text \<open>
  \<open>internal/scanner/plan.go\<close> and the target resolution of \<open>internal/scanner/nmap.go\<close>: how a job
  becomes an immutable plan of work units, and how a unit that timed out is halved.

  The DNS resolver is the parameter \<open>lookup\<close>: what \<open>LookupIP\<close> returned for a name, an address
  that is nil or malformed being \<open>None\<close>, and whether it returned an error with it. A cancelled
  context ends a plan with its error and no result, so it is not a value here. The texts of
  errors are constructors. An \<open>int32\<close> index of an address is a \<open>nat\<close>: a plan has at most
  \<open>MaxJobHostsLimit\<close> addresses.
\<close>

section \<open>Exclusions\<close>

definition unspecified :: "128 word \<Rightarrow> bool" where
  "unspecified w = (uint w = 0 \<or> uint w = mapped_base)"

definition excludedNetwork :: "ipnet list \<Rightarrow> 128 word option \<Rightarrow> string" where
  "excludedNetwork exclusions ip =
     (case ip of
        None \<Rightarrow> ''invalid-address''
      | Some w \<Rightarrow>
          if unspecified w then ''unspecified''
          else case find (\<lambda>net. netContains net w) exclusions of
              Some net \<Rightarrow> network_string net
            | None \<Rightarrow> [])"

section \<open>Resolution of targets\<close>

datatype plan_error =
    Excluded string string
  | TooManyHosts
  | Unresolved string
  | NoTargets
  | BadPorts string port_error
  | NeedsTcp
  | BadNaabuOptions string

record target_failure =
  fl_target :: string
  fl_reason :: string

text \<open>The resolver's own target also says whether it stands for a whole network.\<close>

record pinned_target = resolved_target +
  rt_network :: bool

definition literal_target :: "string \<Rightarrow> string \<Rightarrow> pinned_target" where
  "literal_target configured address = \<lparr>rt_name = address, rt_configured = configured, rt_addresses = [address],
     rt_aggregate = False, rt_hostname = False, rt_network = False\<rparr>"

definition network_target :: "string \<Rightarrow> string list \<Rightarrow> pinned_target" where
  "network_target raw addresses = \<lparr>rt_name = raw, rt_configured = raw, rt_addresses = addresses,
     rt_aggregate = False, rt_hostname = False, rt_network = True\<rparr>"

definition host_target :: "string \<Rightarrow> string list \<Rightarrow> pinned_target" where
  "host_target raw addresses = \<lparr>rt_name = toLower raw, rt_configured = toLower raw, rt_addresses = addresses,
     rt_aggregate = True, rt_hostname = True, rt_network = False\<rparr>"

definition DefaultMaxJobHosts :: int where "DefaultMaxJobHosts = 65536"

definition jobHostCeiling :: "int \<Rightarrow> int" where
  "jobHostCeiling maxJobHosts = (if maxJobHosts > 0 then maxJobHosts else DefaultMaxJobHosts)"

definition host_limit :: "int \<Rightarrow> scan_job \<Rightarrow> int" where
  "host_limit maxJobHosts j =
     (let ceiling = jobHostCeiling maxJobHosts in if wj_max_hosts j > ceiling then ceiling else wj_max_hosts j)"

text \<open>\<open>incrementIP\<close> on the bytes of an address: the number after it, wrapping at the last one.\<close>

fun incrementIP :: "addr \<Rightarrow> addr" where
  "incrementIP NoAddr = NoAddr"
| "incrementIP (V4 w) = V4 (w + 1)"
| "incrementIP (V6 w z) = V6 (w + 1) z"

definition ip_of :: "addr \<Rightarrow> 128 word" where
  "ip_of a = word_of_int (addr_as16 a)"

text \<open>
  The loop over the addresses of a network: \<open>None\<close> would be an endless loop. Each turn that
  goes on has counted one more address, and stops at the limit.
\<close>

function expand_network ::
  "ipnet list \<Rightarrow> int \<Rightarrow> string \<Rightarrow> ipnet \<Rightarrow> addr \<Rightarrow> int \<Rightarrow> plan_error + string list \<times> int" where
  "expand_network exclusions limit raw net current hosts =
     (if \<not> netContains net (ip_of current) then Inr ([], hosts)
      else let exclusion = excludedNetwork exclusions (Some (ip_of current)) in
        if exclusion \<noteq> [] then Inl (Excluded raw exclusion)
        else if hosts + 1 > limit then Inl TooManyHosts
        else case expand_network exclusions limit raw net (incrementIP current) (hosts + 1) of
            Inl e \<Rightarrow> Inl e
          | Inr (addresses, n) \<Rightarrow> Inr (ipString (ip_of current) # addresses, n))"
  by pat_completeness auto
termination
  by (relation "measure (\<lambda>(_, limit, _, _, _, hosts). nat (limit - hosts))") auto

declare expand_network.simps [simp del]

text \<open>The answers of one lookup: distinct addresses in the order of the answer.\<close>

fun answers :: "ipnet list \<Rightarrow> string \<Rightarrow> 128 word option list \<Rightarrow> string list \<Rightarrow> plan_error + string list" where
  "answers exclusions raw [] addresses = Inr addresses"
| "answers exclusions raw (ip # ips) addresses =
     (case ip of
        None \<Rightarrow> answers exclusions raw ips addresses
      | Some w \<Rightarrow>
          if excludedNetwork exclusions ip \<noteq> [] then Inl (Excluded raw (excludedNetwork exclusions ip))
          else answers exclusions raw ips
            (if ipString w \<in> set addresses then addresses else addresses @ [ipString w]))"

record resolution =
  rs_targets :: "pinned_target list"
  rs_failures :: "target_failure list"
  rs_count :: int

type_synonym resolver = "string \<Rightarrow> 128 word option list \<times> bool"

definition resolve_name ::
  "ipnet list \<Rightarrow> resolver \<Rightarrow> int \<Rightarrow> string \<Rightarrow> resolution \<Rightarrow> plan_error + resolution" where
  "resolve_name exclusions lookup limit raw r0 =
     (let (ips, failed) = lookup raw;
          r = (if failed then r0\<lparr>rs_failures := rs_failures r0 @ [\<lparr>fl_target = toLower raw, fl_reason = ''lookup-failed''\<rparr>]\<rparr> else r0)
      in if failed \<and> ips = [] then Inr r
         else case answers exclusions raw ips [] of
             Inl e \<Rightarrow> Inl e
           | Inr addresses \<Rightarrow>
               if addresses = []
               then Inr (if failed then r else r\<lparr>rs_failures := rs_failures r @ [\<lparr>fl_target = toLower raw, fl_reason = ''no-addresses''\<rparr>]\<rparr>)
               else let hosts = rs_count r + int (length addresses) in
                 if hosts > limit then Inl TooManyHosts
                 else Inr (r\<lparr>rs_targets := rs_targets r @ [host_target raw (sort addresses)], rs_count := hosts\<rparr>))"

text \<open>One turn of the loop over the configured targets.\<close>

definition resolve_target ::
  "ipnet list \<Rightarrow> resolver \<Rightarrow> int \<Rightarrow> bool \<Rightarrow> string \<Rightarrow> resolution \<Rightarrow> plan_error + resolution" where
  "resolve_target exclusions lookup limit groupNetworks input r =
     (let raw = CanonicalTarget input in
      case parseIP raw of
        Some ip \<Rightarrow>
          if excludedNetwork exclusions (Some ip) \<noteq> [] then Inl (Excluded raw (excludedNetwork exclusions (Some ip)))
          else if rs_count r + 1 > limit then Inl TooManyHosts
          else Inr (r\<lparr>rs_targets := rs_targets r @ [(literal_target raw (ipString ip))], rs_count := rs_count r + 1\<rparr>)
      | None \<Rightarrow>
          (case parseCIDR raw of
             Some net \<Rightarrow>
               (case expand_network exclusions limit raw net (nw_addr net) (rs_count r) of
                  Inl e \<Rightarrow> Inl e
                | Inr (addresses, n) \<Rightarrow>
                    Inr (r\<lparr>rs_targets := rs_targets r @
                        (if groupNetworks then [network_target raw addresses] else map (literal_target raw) addresses),
                      rs_count := n\<rparr>))
           | None \<Rightarrow> resolve_name exclusions lookup limit raw r))"

fun resolve_all ::
  "ipnet list \<Rightarrow> resolver \<Rightarrow> int \<Rightarrow> bool \<Rightarrow> string list \<Rightarrow> resolution \<Rightarrow> plan_error + resolution" where
  "resolve_all exclusions lookup limit groupNetworks [] r = Inr r"
| "resolve_all exclusions lookup limit groupNetworks (input # inputs) r =
     (case resolve_target exclusions lookup limit groupNetworks input r of
        Inl e \<Rightarrow> Inl e
      | Inr r' \<Rightarrow> resolve_all exclusions lookup limit groupNetworks inputs r')"

definition resolveTargets ::
  "ipnet list \<Rightarrow> resolver \<Rightarrow> int \<Rightarrow> scan_job \<Rightarrow> bool \<Rightarrow> plan_error + pinned_target list \<times> target_failure list" where
  "resolveTargets exclusions lookup maxJobHosts j groupNetworks =
     (case resolve_all exclusions lookup (host_limit maxJobHosts j) groupNetworks (wj_targets j)
             \<lparr>rs_targets = [], rs_failures = [], rs_count = 0\<rparr> of
        Inl e \<Rightarrow> Inl e
      | Inr r \<Rightarrow>
          if rs_targets r = []
          then (case rs_failures r of [] \<Rightarrow> Inl NoTargets | f # _ \<Rightarrow> Inl (Unresolved (fl_target f)))
          else Inr (rs_targets r, rs_failures r))"

definition coverageFailures :: "target_failure list \<Rightarrow> target_coverage_failure list" where
  "coverageFailures fs =
     (if fs = [] then []
      else sn_target_failures (Normalize (empty_snapshot\<lparr>sn_target_failures :=
        map (\<lambda>f. \<lparr>tf_target = fl_target f, tf_reason = fl_reason f\<rparr>) fs\<rparr>)))"

definition append_scope :: "string \<Rightarrow> protocol_scan option \<Rightarrow> string \<Rightarrow> scope list \<Rightarrow> scope list" where
  "append_scope target protocol name scopes =
     (case protocol of
        None \<Rightarrow> scopes
      | Some p \<Rightarrow>
          if \<exists>s \<in> set scopes. sc_target s = target \<and> sc_protocol s = name then scopes
          else scopes @ [\<lparr>sc_target = target, sc_protocol = name, sc_ports = sp_ports p, sc_service_detection = sp_service p\<rparr>])"

definition appendTargetFailureScopes :: "scope list \<Rightarrow> target_coverage_failure list \<Rightarrow> scan_job \<Rightarrow> scope list" where
  "appendTargetFailureScopes scopes failures j =
     fold (\<lambda>f s. append_scope (tf_target f) (wj_udp j) ''udp'' (append_scope (tf_target f) (wj_tcp j) ''tcp'' s)) failures scopes"

section \<open>Batches\<close>

definition nmapBatchSize :: int where "nmapBatchSize = 128"
definition maxWorkUnitProbes :: int where "maxWorkUnitProbes = 65536"
definition maxWorkUnitPorts :: int where "maxWorkUnitPorts = 4096"
definition minRetryPortChunk :: nat where "minRetryPortChunk = 256"
definition PlaceholderAddress :: string where "PlaceholderAddress = ''{address}''"

definition templateContains :: "string list \<Rightarrow> string \<Rightarrow> bool" where
  "templateContains values placeholder = list_ex (\<lambda>v. v = placeholder) values"

definition NmapAddressBatchLimit :: "string list \<Rightarrow> int" where
  "NmapAddressBatchLimit template = (if templateContains template PlaceholderAddress then 1 else nmapBatchSize)"

definition nmapInvocationAddressLimit :: "string list \<Rightarrow> int \<Rightarrow> int" where
  "nmapInvocationAddressLimit template portCount =
     (let limit = NmapAddressBatchLimit template in
      if portCount \<le> 0 then limit
      else let portLimited = maxWorkUnitProbes div portCount in
        min limit (if portLimited < 1 then 1 else portLimited))"

text \<open>
  The loops that cut a list into slices of at most \<open>n\<close>: every caller has \<open>n \<ge> 1\<close>, without
  which the loop would not end.
\<close>

function chunks :: "nat \<Rightarrow> 'a list \<Rightarrow> 'a list list" where
  "chunks n xs = (if xs = [] \<or> n = 0 then [] else take n xs # chunks n (drop n xs))"
  by pat_completeness auto
termination
  by (relation "measure (\<lambda>(_, xs). length xs)") auto

declare chunks.simps [simp del]

text \<open>Consecutive elements with the same key, the inner loops over sorted addresses.\<close>

function runs :: "('a \<Rightarrow> 'k) \<Rightarrow> 'a list \<Rightarrow> 'a list list" where
  "runs f [] = []"
| "runs f (x # xs) = (x # takeWhile (\<lambda>y. f y = f x) xs) # runs f (dropWhile (\<lambda>y. f y = f x) xs)"
  by pat_completeness auto
termination
  by (relation "measure (\<lambda>(_, xs). length xs)") (auto simp: le_imp_less_Suc length_dropWhile_le)

section \<open>Pinned addresses\<close>

record pinned_address =
  pa_address :: string
  pa_target :: nat
  pa_position :: nat

definition enumerated :: "'a list \<Rightarrow> (nat \<times> 'a) list" where
  "enumerated xs = zip [0 ..< length xs] xs"

definition pin_order :: "pinned_address \<Rightarrow> string \<times> nat" where
  "pin_order p = (pa_address p, pa_target p)"

definition pinAddresses :: "pinned_target list \<Rightarrow> pinned_address list" where
  "pinAddresses targets = sort_key pin_order
     (concat (map (\<lambda>(index, target). map (\<lambda>(position, address).
          \<lparr>pa_address = address, pa_target = index, pa_position = position\<rparr>) (enumerated (rt_addresses target)))
        (enumerated targets)))"

text \<open>\<open>ParseIP(address).To4() != nil\<close>.\<close>

definition is4 :: "string \<Rightarrow> bool" where
  "is4 address = (case parseIP address of None \<Rightarrow> False | Some w \<Rightarrow> is_mapped w)"

definition pinned_family :: "int \<Rightarrow> pinned_address list \<Rightarrow> pinned_address list list" where
  "pinned_family family pinned =
     filter (\<lambda>group. (\<not> is4 (pa_address (hd group))) = (family = 6)) (runs pa_address pinned)"

definition group_addresses :: "pinned_address list list \<Rightarrow> string list" where
  "group_addresses groups = map (\<lambda>group. pa_address (hd group)) groups"

definition target_order :: "pinned_address \<Rightarrow> nat \<times> nat" where
  "target_order p = (pa_target p, pa_position p)"

definition group_targets :: "pinned_address list list \<Rightarrow> resolved_target list \<Rightarrow> resolved_target list" where
  "group_targets groups planTargets =
     map (\<lambda>run. (planTargets ! pa_target (hd run))\<lparr>rt_addresses := map pa_address run\<rparr>)
       (runs pa_target (sort_key target_order (concat groups)))"

definition shareResolvedTargets :: "pinned_target list \<Rightarrow> resolved_target list" where
  "shareResolvedTargets targets = map resolved_target.truncate targets"

definition importResolvedTargets :: "resolved_target list \<Rightarrow> pinned_target list" where
  "importResolvedTargets targets = map (\<lambda>t. resolved_target.extend t \<lparr>rt_network = False\<rparr>) targets"

definition subsetResolvedTargets :: "pinned_target list \<Rightarrow> string list \<Rightarrow> pinned_target list" where
  "subsetResolvedTargets targets addresses =
     map (\<lambda>t. t\<lparr>rt_network := False\<rparr>)
       (filter (\<lambda>t. rt_addresses t \<noteq> [])
         (map (\<lambda>t. t\<lparr>rt_addresses := filter (\<lambda>a. a \<in> set addresses) (rt_addresses t)\<rparr>) targets))"

section \<open>Port lists\<close>

fun format_runs :: "int \<Rightarrow> int \<Rightarrow> int list \<Rightarrow> port_range list" where
  "format_runs start previous [] = [(start, previous)]"
| "format_runs start previous (port # ports) =
     (if port = previous + 1 then format_runs start port ports
      else (start, previous) # format_runs port port ports)"

definition formatPorts :: "int list \<Rightarrow> string" where
  "formatPorts ports =
     (case ports of [] \<Rightarrow> [] | p # ps \<Rightarrow> joinWith '','' (map show_range (format_runs p p ps)))"

section \<open>The plan of an Nmap job\<close>

definition item_scopes :: "string \<Rightarrow> protocol_scan \<Rightarrow> pinned_target list \<Rightarrow> scope list" where
  "item_scopes protocol item targets =
     concat (map (\<lambda>t. map (\<lambda>name. \<lparr>sc_target = name, sc_protocol = protocol, sc_ports = sp_ports item,
            sc_service_detection = sp_service item\<rparr>)
          (if rt_network t then rt_addresses t else [rt_name t])) targets)"

definition probe_factor :: "protocol_scan \<Rightarrow> int" where
  "probe_factor item = (if sp_service item then 2 else 1)"

definition perChunk :: "int \<Rightarrow> int \<Rightarrow> int" where
  "perChunk hosts factor =
     (let capacity = maxWorkUnitProbes div (hosts * factor);
          n = (if capacity > 0 \<and> maxWorkUnitPorts > capacity then capacity else maxWorkUnitPorts)
      in if n < 1 then 1 else n)"

definition add_plan_unit :: "work_unit \<Rightarrow> work_plan \<Rightarrow> work_plan" where
  "add_plan_unit u plan = plan\<lparr>wp_units := wp_units plan @ [u\<lparr>wu_sequence := int (length (wp_units plan))\<rparr>],
     wp_total_probes := wrap64 (wp_total_probes plan + wu_probes u)\<rparr>"

definition batch_units ::
  "string \<Rightarrow> protocol_scan \<Rightarrow> int list \<Rightarrow> int \<Rightarrow> resolved_target list \<Rightarrow> pinned_address list list \<Rightarrow> work_unit list" where
  "batch_units protocol item ports family planTargets groups =
     (let addresses = group_addresses groups; factor = probe_factor item; hosts = int (length addresses) in
      map (\<lambda>chunk. \<lparr>wu_sequence = 0, wu_engine = [], wu_phase = [], wu_protocol = protocol, wu_family = family,
          wu_targets = group_targets groups planTargets, wu_addresses = addresses, wu_ports = formatPorts chunk,
          wu_port_count = int (length chunk), wu_probes = hosts * int (length chunk) * factor\<rparr>)
        (chunks (nat (perChunk hosts factor)) ports))"

definition item_units ::
  "string \<Rightarrow> protocol_scan \<Rightarrow> int list \<Rightarrow> pinned_target list \<Rightarrow> resolved_target list \<Rightarrow> work_unit list" where
  "item_units protocol item ports targets planTargets =
     concat (map (\<lambda>family. concat (map (batch_units protocol item ports family planTargets)
         (chunks (nat (nmapInvocationAddressLimit (sp_nmap_args item) (int (length ports))))
           (pinned_family family (pinAddresses targets)))))
       [4, 6])"

definition valueProtocol :: "protocol_scan option \<Rightarrow> protocol_scan" where
  "valueProtocol protocol = (case protocol of None \<Rightarrow> no_protocol | Some p \<Rightarrow> p)"

definition plan_item :: "pinned_target list \<Rightarrow> string \<Rightarrow> protocol_scan \<Rightarrow> work_plan \<Rightarrow> plan_error + work_plan" where
  "plan_item targets protocol item plan =
     (if sp_ports item = [] then Inr plan
      else case ParsePorts (sp_ports item) of
          Inl e \<Rightarrow> Inl (BadPorts protocol e)
        | Inr ports \<Rightarrow>
            Inr (fold add_plan_unit (item_units protocol item ports targets (wp_targets plan))
              (plan\<lparr>wp_scopes := wp_scopes plan @ item_scopes protocol item targets\<rparr>)))"

definition plan_dns :: "pinned_target list \<Rightarrow> (string, string list) gomap" where
  "plan_dns targets = fold (\<lambda>t m. if rt_hostname t then mput (rt_name t) (rt_addresses t) m else m) targets []"

definition finish_plan :: "work_plan \<Rightarrow> work_plan" where
  "finish_plan plan = plan\<lparr>wp_scopes := appendTargetFailureScopes (wp_scopes plan) (wp_failures plan) (wp_job plan),
     wp_total_units := int (length (wp_units plan))\<rparr>"

definition plan_nmap :: "scan_job \<Rightarrow> pinned_target list \<Rightarrow> target_failure list \<Rightarrow> plan_error + work_plan" where
  "plan_nmap j targets failures =
     (let plan = \<lparr>wp_job = j, wp_targets = shareResolvedTargets targets, wp_dns = plan_dns targets, wp_scopes = [],
          wp_failures = coverageFailures failures, wp_units = [], wp_total_probes = 0, wp_total_units = 0\<rparr>
      in case plan_item targets ''tcp'' (valueProtocol (wj_tcp j)) plan of
           Inl e \<Rightarrow> Inl e
         | Inr plan' \<Rightarrow>
             (case plan_item targets ''udp'' (valueProtocol (wj_udp j)) plan' of
                Inl e \<Rightarrow> Inl e
              | Inr plan'' \<Rightarrow> Inr (finish_plan plan'')))"

section \<open>The plan of a Naabu job\<close>

text \<open>The name of the option that is out of range.\<close>

definition ValidateNaabuOptions :: "naabu_options \<Rightarrow> string option" where
  "ValidateNaabuOptions o' =
     (if na_scan_type o' \<noteq> ''connect'' \<and> na_scan_type o' \<noteq> ''syn'' then Some ''scan_type''
      else if na_rate o' < 1 \<or> na_rate o' > 100000 then Some ''rate''
      else if na_workers o' < 1 \<or> na_workers o' > 1024 then Some ''workers''
      else if na_retries o' < 0 \<or> na_retries o' > 10 then Some ''retries''
      else if na_timeout_ms o' < 100 \<or> na_timeout_ms o' > 60000 then Some ''timeout_ms''
      else if na_warm_up_seconds o' < 0 \<or> na_warm_up_seconds o' > 60 then Some ''warm_up_seconds''
      else if na_batch o' < 1 \<or> na_batch o' > 256 then Some ''address_batch_size''
      else None)"

definition unique_address :: "string \<Rightarrow> string list \<Rightarrow> string list" where
  "unique_address address0 addresses =
     (let address = normalize_address address0 in
      if address = [] \<or> address \<in> set addresses then addresses else addresses @ [address])"

definition uniqueAddresses :: "pinned_target list \<Rightarrow> string list" where
  "uniqueAddresses targets = sort (fold unique_address (concat (map rt_addresses targets)) [])"

definition naabu_scopes :: "scan_job \<Rightarrow> protocol_scan \<Rightarrow> pinned_target list \<Rightarrow> scope list" where
  "naabu_scopes j tcp targets =
     concat (map (\<lambda>t. \<lparr>sc_target = rt_name t, sc_protocol = ''tcp'', sc_ports = NaabuFullPortExpression,
          sc_service_detection = sp_service tcp\<rparr> #
        (case wj_udp j of
           None \<Rightarrow> []
         | Some udp \<Rightarrow> [\<lparr>sc_target = rt_name t, sc_protocol = ''udp'', sc_ports = sp_ports udp, sc_service_detection = sp_service udp\<rparr>]))
       targets)"

definition discovery_unit :: "pinned_target list \<Rightarrow> int \<Rightarrow> string list \<Rightarrow> work_unit" where
  "discovery_unit targets family batch =
     \<lparr>wu_sequence = 0, wu_engine = EngineNaabuNmap, wu_phase = ''discovery'', wu_protocol = ''tcp'', wu_family = family,
      wu_targets = shareResolvedTargets (subsetResolvedTargets targets batch), wu_addresses = batch,
      wu_ports = NaabuFullPortExpression, wu_port_count = 65535, wu_probes = int (length batch) * 65535\<rparr>"

definition naabu_units :: "pinned_target list \<Rightarrow> int \<Rightarrow> string list \<Rightarrow> work_unit list" where
  "naabu_units targets batchSize addresses =
     map (discovery_unit targets 4) (chunks (nat batchSize) (filter is4 addresses)) @
     map (discovery_unit targets 6) (chunks (nat batchSize) (filter (\<lambda>a. \<not> is4 a) addresses))"

definition planNaabuPipeline :: "scan_job \<Rightarrow> pinned_target list \<Rightarrow> target_failure list \<Rightarrow> plan_error + work_plan" where
  "planNaabuPipeline j targets failures =
     (case wj_tcp j of
        None \<Rightarrow> Inl NeedsTcp
      | Some tcp \<Rightarrow>
          (let options = applyNaabuDefaults (case sp_naabu tcp of None \<Rightarrow> no_naabu_options | Some given \<Rightarrow> given) in
           case ValidateNaabuOptions options of
             Some field \<Rightarrow> Inl (BadNaabuOptions field)
           | None \<Rightarrow>
               (let addresses = uniqueAddresses targets; batchSize = (if na_batch options < 1 then 16 else na_batch options) in
                if addresses = [] then Inl NoTargets
                else let fs = coverageFailures failures;
                  plan = \<lparr>wp_job = j, wp_targets = shareResolvedTargets targets, wp_dns = plan_dns targets,
                    wp_scopes = appendTargetFailureScopes (naabu_scopes j tcp targets) fs j,
                    wp_failures = fs, wp_units = [], wp_total_probes = 0, wp_total_units = 0\<rparr>;
                  plan' = fold add_plan_unit (naabu_units targets batchSize addresses) plan
                in Inr (plan'\<lparr>wp_total_units := int (length (wp_units plan'))\<rparr>))))"

text \<open>\<open>Nmap.Plan\<close>. A job that was normalised has Naabu options wherever it needs them.\<close>

definition Plan_scan :: "ipnet list \<Rightarrow> resolver \<Rightarrow> int \<Rightarrow> scan_job \<Rightarrow> plan_error + work_plan" where
  "Plan_scan exclusions lookup maxJobHosts j0 =
     (let j = NormalizeJob j0; naabu = is_naabu j in
      case resolveTargets exclusions lookup maxJobHosts j (\<not> naabu) of
        Inl e \<Rightarrow> Inl e
      | Inr (targets, failures) \<Rightarrow>
          if naabu then planNaabuPipeline j targets failures else plan_nmap j targets failures)"

text \<open>The exclusions are checked again before a stored unit runs: they may have changed.\<close>

definition validatePersistedWorkUnit :: "ipnet list \<Rightarrow> work_unit \<Rightarrow> plan_error option" where
  "validatePersistedWorkUnit exclusions u =
     (case find (\<lambda>raw. excludedNetwork exclusions (parseIP (trimSpace raw)) \<noteq> []) (wu_addresses u) of
        None \<Rightarrow> None
      | Some raw \<Rightarrow> Some (Excluded raw (excludedNetwork exclusions (parseIP (trimSpace raw)))))"

section \<open>Halving a unit\<close>

definition port_list_length :: "string \<Rightarrow> int" where
  "port_list_length ports = (case ParsePorts ports of Inl _ \<Rightarrow> 0 | Inr ps \<Rightarrow> int (length ps))"

definition scaleWorkUnitProbes :: "work_unit \<Rightarrow> int \<Rightarrow> int \<Rightarrow> int" where
  "scaleWorkUnitProbes u addresses ports =
     (if addresses \<le> 0 \<or> ports \<le> 0 then 0
      else let portCount = (if wu_port_count u \<le> 0 then (if isl (ParsePorts (wu_ports u)) then wu_port_count u
               else port_list_length (wu_ports u)) else wu_port_count u);
             denominator = wrap64 (int (length (wu_addresses u)) * portCount);
             factor = (if denominator > 0 \<and> wu_probes u > 0 then max 1 (wu_probes u div denominator) else 1)
           in wrap64 (wrap64 (addresses * ports) * factor))"

definition split_addresses :: "work_unit \<Rightarrow> string list \<Rightarrow> work_unit" where
  "split_addresses u addresses = u\<lparr>wu_addresses := addresses,
     wu_targets := shareResolvedTargets (subsetResolvedTargets (importResolvedTargets (wu_targets u)) addresses),
     wu_probes := scaleWorkUnitProbes u (int (length addresses)) (wu_port_count u)\<rparr>"

definition split_ports :: "work_unit \<Rightarrow> int list \<Rightarrow> work_unit" where
  "split_ports u ports = u\<lparr>wu_ports := formatPorts ports, wu_port_count := int (length ports),
     wu_probes := scaleWorkUnitProbes u (int (length (wu_addresses u))) (int (length ports))\<rparr>"

definition SplitWorkUnit :: "work_unit \<Rightarrow> (work_unit \<times> work_unit) option" where
  "SplitWorkUnit u =
     (if length (wu_addresses u) > 1
      then (let mid = length (wu_addresses u) div 2 in
        Some (split_addresses u (take mid (wu_addresses u)), (split_addresses u (drop mid (wu_addresses u)))\<lparr>wu_sequence := 0\<rparr>))
      else if wu_engine u = EngineNaabuNmap then None
      else case ParsePorts (wu_ports u) of
          Inl _ \<Rightarrow> None
        | Inr ports \<Rightarrow>
            if length ports \<le> minRetryPortChunk then None
            else let mid = length ports div 2 in
              if mid = 0 \<or> mid \<ge> length ports then None
              else Some (split_ports u (take mid ports), (split_ports u (drop mid ports))\<lparr>wu_sequence := 0\<rparr>))"

end
