(* ===== verification/AddrText.thy ===== *)
theory AddrText
  imports GoNet
begin

text \<open>
  \<open>net.ParseIP\<close> reads back what \<open>IP.String\<close> prints, so the text of an address that the code
  stores, compares and sorts identifies the address.
\<close>

section \<open>IPv4\<close>

lemma byte_cases:
  assumes "0 \<le> b" "b < 256"
  obtains (one) "b < 10" "int_digits b = [digit_char b]"
  | (two) "10 \<le> b" "b < 100" "int_digits b = [digit_char (b div 10), digit_char (b mod 10)]"
  | (three) "100 \<le> b" "int_digits b = [digit_char (b div 100), digit_char (b div 10 mod 10), digit_char (b mod 10)]"
proof -
  have step: "int_digits n = (if n < 10 then [digit_char n] else int_digits (n div 10) @ [digit_char (n mod 10)])" for n
    by (rule int_digits.simps)
  have d: "b div 10 div 10 = b div 100" by (simp add: zdiv_zmult2_eq [symmetric])
  consider "b < 10" | "10 \<le> b" "b < 100" | "100 \<le> b" by linarith
  then show thesis
  proof cases
    case 1
    then show ?thesis using step [of b] one by simp
  next
    case 2
    then have "b div 10 < 10" by simp
    then show ?thesis using step [of b] step [of "b div 10"] two 2 by simp
  next
    case 3
    then have "\<not> b div 10 < 10" "b div 100 < 10" using assms by simp_all
    then show ?thesis using step [of b] step [of "b div 10"] step [of "b div 100"] three 3 d by simp
  qed
qed

lemma digit_val_dot [simp]: "digit_val CHR ''.'' = None"
  by (simp add: digit_val_def)

lemma parse4_digit:
  assumes "0 \<le> x" "x < 10" "\<not> (d = 1 \<and> v = 0)" "v * 10 + x \<le> 255"
  shows "parse4 v d fs (digit_char x # cs) = parse4 (v * 10 + x) (Suc d) fs cs"
  using assms(3,4) by (auto simp: digit_val_char [OF assms(1,2)])

lemma parse4_digits:
  assumes "0 \<le> b" "b < 256"
  shows "\<exists>d. 0 < d \<and> (\<forall>cs. parse4 0 0 fs (itoa b @ cs) = parse4 b d fs cs)"
  using assms
proof (cases rule: byte_cases)
  case one
  then show ?thesis using assms by (intro exI [of _ 1]) (simp add: itoa_def parse4_digit del: parse4.simps)
next
  case two
  have "0 < b div 10" "b div 10 < 10" "b div 10 * 10 + b mod 10 = b" using two by (auto simp: div_mult_mod_eq)
  then show ?thesis using two assms by (intro exI [of _ "Suc 1"]) (simp add: itoa_def parse4_digit del: parse4.simps)
next
  case three
  have "b div 100 = b div 10 div 10" by (simp add: zdiv_zmult2_eq [symmetric])
  then have "0 < b div 100" "b div 100 < 10" "b div 100 * 10 + b div 10 mod 10 = b div 10" "b div 10 * 10 + b mod 10 = b" "b div 10 < 26"
    using three assms by (auto simp: div_mult_mod_eq)
  then show ?thesis using three assms by (intro exI [of _ "Suc (Suc 1)"]) (simp add: itoa_def parse4_digit del: parse4.simps)
qed

lemma parse4_byte:
  assumes "0 \<le> b" "b < 256"
  shows "parse4 0 0 fs (itoa b) = (if length fs = 3 then Some (fs @ [b]) else None)"
    and "cs \<noteq> [] \<Longrightarrow> length fs \<noteq> 3 \<Longrightarrow> parse4 0 0 fs (itoa b @ CHR ''.'' # cs) = parse4 0 0 (fs @ [b]) cs"
proof -
  obtain d where d: "0 < d" "\<And>cs. parse4 0 0 fs (itoa b @ cs) = parse4 b d fs cs" using parse4_digits [OF assms] by blast
  show "parse4 0 0 fs (itoa b) = (if length fs = 3 then Some (fs @ [b]) else None)"
    using d(2) [of "[]"] by (simp only: append_Nil2 parse4.simps)
  show "parse4 0 0 fs (itoa b @ CHR ''.'' # cs) = parse4 0 0 (fs @ [b]) cs" if "cs \<noteq> []" "length fs \<noteq> 3"
    using that d by simp
qed

lemma byte_at_bounds: "0 \<le> byte_at n i \<and> byte_at n i < 256"
  by (simp add: byte_at_def)

lemma itoa_not_Nil [simp]: "itoa b \<noteq> []"
  by (simp add: itoa_def)

lemma dotted_eq: "dotted n = itoa (byte_at n 3) @ CHR ''.'' # itoa (byte_at n 2) @ CHR ''.'' #
    itoa (byte_at n 1) @ CHR ''.'' # itoa (byte_at n 0)"
  by (simp add: dotted_def)

lemma parse4_dotted: "parse4 0 0 [] (dotted n) = Some [byte_at n 3, byte_at n 2, byte_at n 1, byte_at n 0]"
  unfolding dotted_eq by (simp add: parse4_byte byte_at_bounds del: parse4.simps)

lemma bytes_of_dotted:
  assumes "0 \<le> n" "n < 2 ^ 32"
  shows "bytes_val 256 [byte_at n 3, byte_at n 2, byte_at n 1, byte_at n 0] = n"
proof -
  have r: "rev [0 ..< 4] = [3, 2, 1, 0 :: nat]" by (simp add: upt_rec)
  have d: "byte_at n = (\<lambda>i. (n div 256 ^ i) mod 256)" by (simp add: fun_eq_iff byte_at_def)
  have "n mod 256 ^ 4 = n" using assms by simp
  then have "bytes_val 256 (map (byte_at n) [3, 2, 1, 0]) = n"
    using bytes_val_digits [of 256 n 4] unfolding r d by (simp only: zero_less_numeral simp_thms)
  then show ?thesis by (simp only: list.map)
qed

lemma itoa_digits: "0 \<le> i \<Longrightarrow> c \<in> set (itoa i) \<Longrightarrow> c \<in> set ''0123456789''"
proof -
  assume "0 \<le> i" "c \<in> set (itoa i)"
  then obtain d where "0 \<le> d" "d < 10" "c = digit_char d" using int_digits_set [of i c] by (auto simp: itoa_def)
  then show ?thesis using digit_cases [of d] by (auto simp: digit_char_def)
qed

lemma dropWhile_until:
  assumes "\<forall>x \<in> set xs. P x" "\<not> P c"
  shows "dropWhile P (xs @ c # ys) = c # ys"
  using assms by (simp add: dropWhile_append3)

lemma parse_addr_dotted:
  assumes "0 \<le> n" "n < 2 ^ 32"
  shows "parse_addr (dotted n) = Some (V4 (word_of_int n))"
proof -
  have "\<forall>c \<in> set (itoa (byte_at n 3)). c \<notin> {CHR ''.'', CHR '':'', CHR ''%''}"
    using itoa_digits [of "byte_at n 3"] byte_at_bounds by fastforce
  then have "dropWhile (\<lambda>c. c \<notin> {CHR ''.'', CHR '':'', CHR ''%''}) (dotted n) =
      CHR ''.'' # itoa (byte_at n 2) @ CHR ''.'' # itoa (byte_at n 1) @ CHR ''.'' # itoa (byte_at n 0)"
    unfolding dotted_eq by (intro dropWhile_until) auto
  then show ?thesis using parse4_dotted [of n] bytes_of_dotted [OF assms] by (simp add: parse_addr_def)
qed

section \<open>IPv6\<close>

definition group_ok :: "int \<Rightarrow> bool" where
  "group_ok g = (0 \<le> g \<and> g < 65536)"

lemma hex_digit_set: "0 \<le> d \<Longrightarrow> d < 16 \<Longrightarrow> hex_digit d \<in> set ''0123456789abcdef''"
proof -
  assume "0 \<le> d" "d < 16"
  then have "nat d < length ''0123456789abcdef''" by simp
  then show ?thesis unfolding hex_digit_def by (rule nth_mem)
qed

lemma hex_val_digit [simp]: "0 \<le> d \<Longrightarrow> d < 16 \<Longrightarrow> hex_val (hex_digit d) = Some d"
proof -
  have "\<forall>d \<in> set [0..15]. hex_val (hex_digit d) = Some d" by code_simp
  then show "0 \<le> d \<Longrightarrow> d < 16 \<Longrightarrow> hex_val (hex_digit d) = Some d" by simp
qed

lemma is_hex_digit [simp]: "0 \<le> d \<Longrightarrow> d < 16 \<Longrightarrow> is_hex (hex_digit d)"
  by (simp add: is_hex_def)

lemma not_hex [simp]: "\<not> is_hex CHR '':''" "\<not> is_hex CHR ''.''" "\<not> is_hex CHR ''%''"
  by (simp_all add: is_hex_def hex_val_def)

lemma hex_number_snoc: "hex_number (ds @ [c]) = hex_number ds * 16 + (case hex_val c of Some v \<Rightarrow> v | None \<Rightarrow> 0)"
  by (simp add: hex_number_def bytes_val_def)

lemma to_hex_ok:
  assumes "0 \<le> n" "n < 16 ^ k" "0 < k"
  shows "to_hex n \<noteq> [] \<and> length (to_hex n) \<le> k \<and> (\<forall>c \<in> set (to_hex n). is_hex c) \<and> hex_number (to_hex n) = n"
  using assms
proof (induction n arbitrary: k rule: to_hex.induct)
  case (1 n)
  show ?case
  proof (cases "n < 16")
    case True
    then show ?thesis using "1.prems" by (subst (1 2 3 4) to_hex.simps) (simp add: hex_number_def bytes_val_def)
  next
    case False
    obtain m where k: "k = Suc m" "0 < m" using "1.prems" False by (cases k; cases "k - 1") auto
    then have "n div 16 < 16 ^ m" using "1.prems" by simp
    then have IH: "to_hex (n div 16) \<noteq> [] \<and> length (to_hex (n div 16)) \<le> m \<and> (\<forall>c \<in> set (to_hex (n div 16)). is_hex c) \<and>
        hex_number (to_hex (n div 16)) = n div 16"
      using "1.IH" [OF False, of m] "1.prems" k by simp
    have "to_hex n = to_hex (n div 16) @ [hex_digit (n mod 16)]" using False by (subst to_hex.simps) simp
    then show ?thesis using IH k by (auto simp: hex_number_snoc)
  qed
qed

lemma to_hex_group: "group_ok g \<Longrightarrow>
    to_hex g \<noteq> [] \<and> length (to_hex g) \<le> 4 \<and> (\<forall>c \<in> set (to_hex g). is_hex c) \<and> hex_number (to_hex g) = g"
  using to_hex_ok [of g 4] by (simp add: group_ok_def)

lemma hex_span:
  assumes "group_ok g" "rest = [] \<or> \<not> is_hex (hd rest)"
  shows "takeWhile is_hex (to_hex g @ rest) = to_hex g" "dropWhile is_hex (to_hex g @ rest) = rest"
  using to_hex_group [OF assms(1)] assms(2)
  by (cases rest; simp add: takeWhile_append2 dropWhile_append2 takeWhile_append dropWhile_append)+

lemma parse6_last:
  assumes "group_ok g"
  shows "parse6 (Suc n) (to_hex g) gs e = Some (gs @ [g], e, [])"
proof -
  have "takeWhile is_hex (to_hex g) = to_hex g" "dropWhile is_hex (to_hex g) = []"
    using hex_span [OF assms, of "[]"] by (simp_all only: append_Nil2 simp_thms)
  then show ?thesis using to_hex_group [OF assms] by (simp only: parse6.simps Let_def) simp
qed

lemma parse6_group:
  assumes "group_ok g" "cs \<noteq> []" "hd cs \<noteq> CHR '':''"
  shows "parse6 (Suc n) (to_hex g @ CHR '':'' # cs) gs e = parse6 n cs (gs @ [g]) e"
  using to_hex_group [OF assms(1)] hex_span [OF assms(1), of "CHR '':'' # cs"] assms(2,3)
  by (cases cs) (simp_all add: Let_def)

lemma parse6_ellipsis:
  assumes "group_ok g"
  shows "parse6 (Suc n) (to_hex g @ CHR '':'' # CHR '':'' # cs) gs None =
    (if cs = [] then Some (gs @ [g], Some (Suc (length gs)), []) else parse6 n cs (gs @ [g]) (Some (Suc (length gs))))"
  using to_hex_group [OF assms] hex_span [OF assms, of "CHR '':'' # CHR '':'' # cs"] by (simp add: Let_def)

declare parse6.simps [simp del]

lemma hex_groups_simps:
  "hex_groups [] = []" "hex_groups [g] = to_hex g" "hex_groups (g # h # gs) = to_hex g @ CHR '':'' # hex_groups (h # gs)"
  by (simp_all add: hex_groups_def)

lemma hex_groups_hd:
  assumes "gs \<noteq> []" "\<forall>g \<in> set gs. group_ok g"
  shows "hex_groups gs \<noteq> [] \<and> is_hex (hd (hex_groups gs))"
proof -
  obtain g gs' where g: "gs = g # gs'" using assms(1) by (cases gs) auto
  then have "to_hex g \<noteq> []" "\<forall>c \<in> set (to_hex g). is_hex c" using to_hex_group [of g] assms(2) by auto
  then show ?thesis by (cases gs') (auto simp: g hex_groups_simps)
qed

lemma parse6_groups:
  assumes "xs \<noteq> []" "\<forall>g \<in> set xs. group_ok g" "length xs \<le> n"
  shows "parse6 n (hex_groups xs) gs e = Some (gs @ xs, e, [])"
  using assms
proof (induction xs arbitrary: n gs)
  case (Cons x xs)
  obtain m where n: "n = Suc m" using Cons.prems(3) by (cases n) auto
  show ?case
  proof (cases xs)
    case Nil
    then show ?thesis using Cons.prems by (simp add: n hex_groups_simps parse6_last)
  next
    case (Cons h t)
    have "hex_groups xs \<noteq> []" "hd (hex_groups xs) \<noteq> CHR '':''"
      using hex_groups_hd [of xs] Cons Cons.prems not_hex(1) by (auto simp del: not_hex)
    moreover have "hex_groups (x # xs) = to_hex x @ CHR '':'' # hex_groups xs" by (simp add: Cons hex_groups_simps)
    ultimately show ?thesis using Cons.IH [of m "gs @ [x]"] Cons.prems Cons
      by (simp add: n parse6_group)
  qed
qed simp

lemma parse6_compressed:
  assumes "xs \<noteq> []" "\<forall>g \<in> set xs. group_ok g" "\<forall>g \<in> set ys. group_ok g" "length xs + length ys \<le> n"
  shows "parse6 n (hex_groups xs @ CHR '':'' # CHR '':'' # hex_groups ys) gs None =
    Some (gs @ xs @ ys, Some (length gs + length xs), [])"
  using assms
proof (induction xs arbitrary: n gs)
  case (Cons x xs)
  obtain m where n: "n = Suc m" using Cons.prems(4) by (cases n) auto
  have y: "ys = [] \<longleftrightarrow> hex_groups ys = []" using hex_groups_hd [of ys] Cons.prems(3) by (auto simp: hex_groups_simps)
  show ?case
  proof (cases xs)
    case Nil
    then show ?thesis using Cons.prems y parse6_groups [of ys m "gs @ [x]"]
      by (auto simp: n hex_groups_simps parse6_ellipsis)
  next
    case (Cons h t)
    have "hex_groups xs \<noteq> []" "hd (hex_groups xs) \<noteq> CHR '':''"
      using hex_groups_hd [of xs] Cons Cons.prems not_hex(1) by (auto simp del: not_hex)
    moreover have "hex_groups (x # xs) = to_hex x @ CHR '':'' # hex_groups xs" by (simp add: Cons hex_groups_simps)
    ultimately show ?thesis using Cons.IH [of m "gs @ [x]"] Cons.prems Cons
      by (simp add: n parse6_group)
  qed
qed simp

text \<open>The zero run that is left out.\<close>

lemma zero_run_zeros:
  assumes "zero_run (drop i gs) = l"
  shows "take l (drop i gs) = replicate l 0" "i \<le> length gs \<Longrightarrow> i + l \<le> length gs"
proof -
  let ?t = "takeWhile (\<lambda>g. g = 0) (drop i gs)"
  have l: "length ?t = l" using assms by (simp add: zero_run_def)
  have "take l (drop i gs) = ?t" using takeWhile_eq_take [of "\<lambda>g. g = 0" "drop i gs"] l by simp
  moreover have "?t = replicate l 0" using l by (intro replicate_eqI) (auto dest: set_takeWhileD)
  ultimately show "take l (drop i gs) = replicate l 0" by simp
  show "i + l \<le> length gs" if "i \<le> length gs" using length_takeWhile_le [of "\<lambda>g. g = 0" "drop i gs"] l that by simp
qed

lemma best_run_zeros:
  assumes "length gs = 8" "best_run gs = (st, len)" "len \<noteq> 0"
  shows "2 \<le> len \<and> st + len \<le> 8 \<and> take len (drop st gs) = replicate len 0"
proof -
  let ?ok = "\<lambda>(st, len). len \<noteq> 0 \<longrightarrow> 2 \<le> len \<and> st + len \<le> 8 \<and> take len (drop st gs) = replicate len 0"
  have "?ok (foldl (\<lambda>(st, len) i. let l = zero_run (drop i gs) in if l \<ge> 2 \<and> l > len then (i, l) else (st, len)) r is)"
    if "?ok r" "\<forall>i \<in> set is. i < 8" for r "is"
    using that
  proof (induction "is" arbitrary: r)
    case (Cons i "is")
    show ?case
      using Cons zero_run_zeros [of i gs] assms(1)
      by (cases r) (auto simp: Let_def intro!: Cons.IH)
  qed simp
  from this [of "(8, 0)" "[0, 1, 2, 3, 4, 5, 6, 7]"] show ?thesis using assms(2,3) by (simp add: best_run_def)
qed

lemma groups_of_ok: "length (groups_of n) = 8" "\<forall>g \<in> set (groups_of n). group_ok g"
  by (simp_all add: groups_of_def group_ok_def)

lemma groups_of_val:
  assumes "0 \<le> n" "n < 2 ^ 128"
  shows "bytes_val 65536 (groups_of n) = n"
proof -
  have r: "rev [0 ..< 8] = [7, 6, 5, 4, 3, 2, 1, 0 :: nat]" by (simp add: upt_rec)
  have "n mod 65536 ^ 8 = n" using assms by simp
  moreover have "bytes_val 65536 (groups_of n) = n mod 65536 ^ 8"
    using bytes_val_digits [of 65536 n 8] unfolding r groups_of_def by (simp only: zero_less_numeral simp_thms)
  ultimately show ?thesis by (simp only:)
qed

lemma hex_groups_chars: "\<forall>g \<in> set gs. group_ok g \<Longrightarrow> c \<in> set (hex_groups gs) \<Longrightarrow> is_hex c \<or> c = CHR '':''"
  using set_joinWith [of c "'':''" "map to_hex gs"] to_hex_group by (fastforce simp: hex_groups_def)

lemma hex_groups_plain: "\<forall>g \<in> set gs. group_ok g \<Longrightarrow> CHR ''%'' \<notin> set (hex_groups gs)"
  using hex_groups_chars [of gs "CHR ''%''"] not_hex(3) by auto

text \<open>The three shapes of an IPv6 text.\<close>

lemma ip6_cases:
  assumes "0 \<le> n" "n < 2 ^ 128"
  obtains (full) gs where "length gs = 8" "\<forall>g \<in> set gs. group_ok g" "bytes_val 65536 gs = n" "ip6_string n = hex_groups gs"
  | (short) xs ys where "length xs + length ys \<le> 6" "\<forall>g \<in> set xs. group_ok g" "\<forall>g \<in> set ys. group_ok g"
      "bytes_val 65536 (xs @ replicate (8 - length (xs @ ys)) 0 @ ys) = n"
      "ip6_string n = hex_groups xs @ CHR '':'' # CHR '':'' # hex_groups ys"
proof -
  let ?gs = "groups_of n"
  obtain st len where run: "best_run ?gs = (st, len)" by (cases "best_run ?gs")
  show thesis
  proof (cases "len = 0")
    case True
    then show thesis using full [of ?gs] groups_of_ok groups_of_val [OF assms] run by (simp add: ip6_string_def Let_def)
  next
    case False
    note z = best_run_zeros [OF groups_of_ok(1) run False]
    let ?xs = "take st ?gs" and ?ys = "drop (st + len) ?gs"
    have l: "length ?xs = st" "length ?ys = 8 - (st + len)" using z groups_of_ok(1) by auto
    have "drop st ?gs = replicate len 0 @ ?ys" using append_take_drop_id [of len "drop st ?gs"] z by (simp add: add.commute)
    then have "?gs = ?xs @ replicate len 0 @ ?ys" using append_take_drop_id [of st ?gs] by simp
    moreover have "8 - length (?xs @ ?ys) = len" using l z by simp
    ultimately have "bytes_val 65536 (?xs @ replicate (8 - length (?xs @ ?ys)) 0 @ ?ys) = n"
      using groups_of_val [OF assms] by simp
    show thesis
    proof (rule short)
      show "length ?xs + length ?ys \<le> 6" unfolding l using z by linarith
      show "\<forall>g \<in> set ?xs. group_ok g" "\<forall>g \<in> set ?ys. group_ok g"
        using groups_of_ok(2) by (blast dest: in_set_takeD in_set_dropD)+
      show "bytes_val 65536 (?xs @ replicate (8 - length (?xs @ ?ys)) 0 @ ?ys) = n" by fact
      show "ip6_string n = hex_groups ?xs @ CHR '':'' # CHR '':'' # hex_groups ?ys"
        using run False by (simp add: ip6_string_def Let_def)
    qed
  qed
qed

lemma no_char: "c \<notin> set s \<Longrightarrow> takeWhile (\<lambda>x. x \<noteq> c) s = s \<and> dropWhile (\<lambda>x. x \<noteq> c) s = []"
  by (induction s) auto

lemma parse_ipv6_plain:
  assumes "CHR ''%'' \<notin> set s" "take 2 s \<noteq> ''::''" "parse6 8 s [] None = Some (gs, e, [])"
  shows "parse_ipv6 s = (if length gs < 8
     then (case e of None \<Rightarrow> None | Some k \<Rightarrow> Some (V6 (word_of_int (bytes_val 65536
       (take k gs @ replicate (8 - length gs) 0 @ drop k gs))) []))
     else if e \<noteq> None then None else Some (V6 (word_of_int (bytes_val 65536 gs)) []))"
  using assms by (simp add: parse_ipv6_def Let_def conjunct1 [OF no_char [OF assms(1)]] conjunct2 [OF no_char [OF assms(1)]])

lemma parse_ipv6_lead:
  assumes "CHR ''%'' \<notin> set t"
  shows "parse_ipv6 (CHR '':'' # CHR '':'' # t) = (if t = [] then Some (V6 0 [])
    else case parse6 8 t [] (Some 0) of
        None \<Rightarrow> None
      | Some (gs, e, rest) \<Rightarrow>
          if rest \<noteq> [] then None
          else if length gs < 8
          then (case e of None \<Rightarrow> None | Some k \<Rightarrow> Some (V6 (word_of_int (bytes_val 65536
            (take k gs @ replicate (8 - length gs) 0 @ drop k gs))) []))
          else if e \<noteq> None then None else Some (V6 (word_of_int (bytes_val 65536 gs)) []))"
  using assms by (simp add: parse_ipv6_def Let_def numeral_2_eq_2
      conjunct1 [OF no_char [OF assms]] conjunct2 [OF no_char [OF assms]])

lemma parse_ipv6_text:
  assumes "0 \<le> n" "n < 2 ^ 128"
  shows "parse_ipv6 (ip6_string n) = Some (V6 (word_of_int n) [])"
  using assms
proof (cases rule: ip6_cases)
  case (full gs)
  have plain: "CHR ''%'' \<notin> set (hex_groups gs)" by (rule hex_groups_plain [OF full(2)])
  have "gs \<noteq> []" using full(1) by auto
  then have "take 2 (hex_groups gs) \<noteq> ''::''"
    using hex_groups_hd [OF _ full(2)] not_hex(1) by (cases "hex_groups gs") auto
  moreover have "parse6 8 (hex_groups gs) [] None = Some (gs, None, [])"
    using parse6_groups [of gs 8 "[]" None] full \<open>gs \<noteq> []\<close> by simp
  ultimately have "parse_ipv6 (hex_groups gs) = Some (V6 (word_of_int (bytes_val 65536 gs)) [])"
    using parse_ipv6_plain [OF plain] full(1) by simp
  then show ?thesis by (simp only: full(3,4))
next
  case (short xs ys)
  let ?s = "hex_groups xs @ CHR '':'' # CHR '':'' # hex_groups ys"
  have plain: "CHR ''%'' \<notin> set ?s" using hex_groups_plain short(2,3) by simp
  show ?thesis
  proof (cases xs)
    case Nil
    have y: "CHR ''%'' \<notin> set (hex_groups ys)" "ys = [] \<longleftrightarrow> hex_groups ys = []"
      using hex_groups_plain [OF short(3)] hex_groups_hd [OF _ short(3)] by (auto simp: hex_groups_simps)
    have "parse_ipv6 ?s = Some (V6 (word_of_int (bytes_val 65536 (replicate (8 - length ys) 0 @ ys))) [])"
    proof (cases "ys = []")
      case True
      then show ?thesis by (simp add: Nil parse_ipv6_lead hex_groups_simps bytes_val_def numeral_eq_Suc)
    next
      case False
      have "parse6 8 (hex_groups ys) [] (Some 0) = Some (ys, Some 0, [])"
        using parse6_groups [of ys 8 "[]" "Some 0"] short(1,3) False by simp
      then show ?thesis using False y short(1) by (simp add: Nil parse_ipv6_lead hex_groups_simps)
    qed
    then show ?thesis using short(4,5) by (simp only: Nil append_Nil)
  next
    case (Cons x xs')
    then have "xs \<noteq> []" by simp
    then have "take 2 ?s \<noteq> ''::''"
      using hex_groups_hd [OF _ short(2)] not_hex(1) by (cases "hex_groups xs") auto
    moreover have "parse6 8 ?s [] None = Some (xs @ ys, Some (length xs), [])"
      using parse6_compressed [of xs ys 8 "[]"] short \<open>xs \<noteq> []\<close> by simp
    ultimately have "parse_ipv6 ?s = Some (V6 (word_of_int (bytes_val 65536 (xs @ replicate (8 - length (xs @ ys)) 0 @ ys))) [])"
      using parse_ipv6_plain [OF plain] short(1) by simp
    then show ?thesis by (simp only: short(4,5))
  qed
qed

lemma parse_addr_ip6:
  assumes "0 \<le> n" "n < 2 ^ 128"
  shows "parse_addr (ip6_string n) = Some (V6 (word_of_int n) [])"
proof -
  have split: "\<exists>us vs. ip6_string n = us @ CHR '':'' # vs \<and> (\<forall>c \<in> set us. is_hex c)"
    using assms
  proof (cases rule: ip6_cases)
    case (full gs)
    then obtain g h gs' where "gs = g # h # gs'" by (cases gs; cases "tl gs") auto
    then show ?thesis using full to_hex_group [of g] by (fastforce simp: hex_groups_simps)
  next
    case (short xs ys)
    show ?thesis
    proof (cases xs)
      case Nil
      then show ?thesis using short(5) by (fastforce simp: hex_groups_simps)
    next
      case (Cons x xs')
      then show ?thesis using short(2,5) to_hex_group [of x] by (cases xs') (fastforce simp: hex_groups_simps)+
    qed
  qed
  then obtain us vs where s: "ip6_string n = us @ CHR '':'' # vs" "\<forall>c \<in> set us. is_hex c" by blast
  have "dropWhile (\<lambda>c. c \<notin> {CHR ''.'', CHR '':'', CHR ''%''}) (ip6_string n) = CHR '':'' # vs"
    unfolding s(1) using s(2) not_hex by (intro dropWhile_until) auto
  then show ?thesis using parse_ipv6_text [OF assms] by (simp add: parse_addr_def)
qed

section \<open>The round trip\<close>

lemma uint_128: "0 \<le> uint (w :: 128 word)" "uint (w :: 128 word) < 2 ^ 128"
  using uint_bounded [of w] by simp_all

lemma mapped_uint: "is_mapped w \<Longrightarrow> mapped_base + uint w mod 2 ^ 32 = uint w"
  using div_mult_mod_eq [of "uint w" "2 ^ 32"] by (simp add: is_mapped_def mapped_base_def)

lemma parseIP_ipString [simp]: "parseIP (ipString w) = Some w"
proof (cases "is_mapped w")
  case True
  have "parse_addr (ipString w) = Some (V4 (word_of_int (uint w mod 2 ^ 32)))"
    using True by (simp add: ipString_def parse_addr_dotted)
  then show ?thesis using mapped_uint [OF True] by (simp add: parseIP_def uint_word_of_int)
next
  case False
  then show ?thesis using uint_128 [of w] by (simp add: parseIP_def ipString_def parse_addr_ip6)
qed

lemma ipString_inj: "ipString v = ipString w \<longleftrightarrow> v = w"
  using parseIP_ipString by (metis option.inject)

lemma is_hex_set: "is_hex c \<Longrightarrow> c \<in> set ''0123456789abcdefABCDEF''"
  unfolding is_hex_def hex_val_def by (auto split: if_splits)

lemma hex_not_space: "is_hex c \<Longrightarrow> \<not> is_space c"
  using is_hex_set [of c] by (auto simp: is_space_def)

lemma ip6_chars:
  assumes "0 \<le> n" "n < 2 ^ 128" "c \<in> set (ip6_string n)"
  shows "is_hex c \<or> c = CHR '':''"
  using assms(1,2)
proof (cases rule: ip6_cases)
  case (full gs)
  then show ?thesis using hex_groups_chars [of gs c] assms(3) by simp
next
  case (short xs ys)
  then show ?thesis using hex_groups_chars [of xs c] hex_groups_chars [of ys c] assms(3) by auto
qed

lemma ipString_plain: "\<forall>c \<in> set (ipString w). \<not> is_space c \<and> c \<noteq> CHR ''/''"
proof (cases "is_mapped w")
  case True
  have "\<not> is_space c \<and> c \<noteq> CHR ''/''" if "c \<in> set (itoa (byte_at n i))" for c n i
    using itoa_digits [OF _ that] byte_at_bounds by (auto simp: is_space_def)
  moreover have "\<not> is_space CHR ''.''" by (simp add: is_space_def)
  ultimately show ?thesis using True by (auto simp: ipString_def dotted_eq)
next
  case False
  have "\<not> is_hex CHR ''/''" by (simp add: is_hex_def hex_val_def)
  then have "\<not> is_space c \<and> c \<noteq> CHR ''/''" if "is_hex c \<or> c = CHR '':''" for c
    using that hex_not_space [of c] by (auto simp: is_space_def)
  then show ?thesis using False ip6_chars [OF uint_128] by (auto simp: ipString_def)
qed

lemma ipString_not_Nil [simp]: "ipString w \<noteq> []"
proof
  assume e: "ipString w = []"
  have "parseIP [] = None" by (simp add: parseIP_def parse_addr_def)
  then show False using parseIP_ipString [of w] by (simp add: e)
qed

lemma trimSpace_ipString [simp]: "trimSpace (ipString w) = ipString w"
  by (rule trimSpace_plain) (simp add: ipString_plain)

end
