(* ===== verification/TargetFacts.thy ===== *)
theory TargetFacts
  imports Plan AddrText
begin

text \<open>
  The canonical spelling of a target is stable: normalising a job twice is normalising it once.
  A network expands to each of its addresses once.
\<close>

section \<open>What address text cannot hold\<close>

lemma parse4_slash: "CHR ''/'' \<in> set s \<Longrightarrow> parse4 v d fs s = None"
proof (induction v d fs s rule: parse4.induct)
  case (2 v d fs c cs)
  show ?case
  proof (cases "c = CHR ''/''")
    case True
    then show ?thesis by (simp add: digit_val_def)
  next
    case False
    then show ?thesis using 2 by (auto split: option.splits)
  qed
qed simp

lemma parse6_slash:
  "parse6 n s gs e = Some (gs', e', rest) \<Longrightarrow> CHR ''/'' \<in> set s \<Longrightarrow> CHR ''/'' \<in> set rest"
proof (induction n s gs e arbitrary: gs' e' rest rule: parse6.induct)
  case (2 n s gs e)
  let ?ds = "takeWhile is_hex s" and ?r = "dropWhile is_hex s"
  have "\<not> is_hex CHR ''/''" by (simp add: is_hex_def hex_val_def)
  then have "CHR ''/'' \<notin> set ?ds" by (auto dest: set_takeWhileD)
  then have slash: "CHR ''/'' \<in> set ?r" using 2(4) takeWhile_dropWhile_id [of is_hex s] by (metis UnE set_append)
  then obtain c cs where r: "?r = c # cs" by (cases ?r) auto
  have some: "parse6 (Suc n) s gs e = Some (gs', e', rest)" by (rule 2(3))
  have ds: "\<not> (?ds = [] \<or> length ?ds > 4)" using some by (auto simp: parse6.simps Let_def)
  have dot: "c \<noteq> CHR ''.''"
  proof
    assume "c = CHR ''.''"
    then have "parse6 (Suc n) s gs e = None" using ds r parse4_slash [OF 2(4)] by (simp add: parse6.simps Let_def)
    then show False using some by simp
  qed
  obtain c2 s2 where cs: "cs = c2 # s2" using some ds r dot by (cases cs) (auto simp: parse6.simps Let_def)
  have colon: "c = CHR '':''" using some ds r dot cs by (auto simp: parse6.simps Let_def split: if_splits)
  have in2: "CHR ''/'' \<in> set (c2 # s2)" using slash r cs colon by auto
  show ?case
  proof (cases "c2 = CHR '':''")
    case True
    then have s2: "CHR ''/'' \<in> set s2" "s2 \<noteq> []" using in2 by auto
    then have "e = None" "parse6 n s2 (gs @ [hex_number ?ds]) (Some (length (gs @ [hex_number ?ds]))) = Some (gs', e', rest)"
      using some ds r dot cs colon True by (auto simp: parse6.simps Let_def split: if_splits)
    then show ?thesis using 2(1) ds r dot cs colon True s2 by auto
  next
    case False
    then have "parse6 n (c2 # s2) (gs @ [hex_number ?ds]) e = Some (gs', e', rest)"
      using some ds r dot cs colon by (auto simp: parse6.simps Let_def split: if_splits)
    then show ?thesis using 2(2) ds r dot cs colon False in2 by auto
  qed
qed (simp add: parse6.simps)

lemma parse_ipv6_zone:
  assumes "parse_ipv6 s = Some a"
  shows "addr_zone a = tl (dropWhile (\<lambda>c. c \<noteq> CHR ''%'') s) \<and>
    (CHR ''%'' \<in> set s \<longrightarrow> tl (dropWhile (\<lambda>c. c \<noteq> CHR ''%'') s) \<noteq> [])"
proof -
  have "(\<exists>w. a = V6 w (tl (dropWhile (\<lambda>c. c \<noteq> CHR ''%'') s))) \<and>
      \<not> (CHR ''%'' \<in> set s \<and> tl (dropWhile (\<lambda>c. c \<noteq> CHR ''%'') s) = [])"
    using assms unfolding parse_ipv6_def Let_def
    by (simp only: split: if_splits option.splits prod.splits) blast+
  then show ?thesis by auto
qed

lemma parse_addr_slash:
  assumes "parse_addr s = Some a" "addr_zone a = []"
  shows "CHR ''/'' \<notin> set s"
proof
  assume slash: "CHR ''/'' \<in> set s"
  obtain c cs where c: "dropWhile (\<lambda>c. c \<notin> {CHR ''.'', CHR '':'', CHR ''%''}) s = c # cs"
    using assms(1) by (auto simp: parse_addr_def split: list.splits)
  have "c \<noteq> CHR ''.''" using assms(1) c parse4_slash [OF slash] by (auto simp: parse_addr_def)
  then have p: "parse_ipv6 s = Some a" using assms(1) c by (auto simp: parse_addr_def split: if_splits)
  let ?s = "takeWhile (\<lambda>c. c \<noteq> CHR ''%'') s"
  have "CHR ''%'' \<notin> set s" using parse_ipv6_zone [OF p] unfolding assms(2) by metis
  then have "?s = s" by (rule no_char [THEN conjunct1])
  then have s: "parse_ipv6 s = Some a" "?s = s" using p by auto
  define t where "t = (if take 2 s = ''::'' then drop 2 s else s)"
  have "CHR ''/'' \<notin> set (take 2 s)" if "take 2 s = ''::''" by (simp add: that)
  then have t: "CHR ''/'' \<in> set t" using slash append_take_drop_id [of 2 s] unfolding t_def by (metis UnE set_append)
  then have "t \<noteq> []" by auto
  have bad: "parse6 8 t [] e = None \<or> (\<exists>gs e' rest. parse6 8 t [] e = Some (gs, e', rest) \<and> rest \<noteq> [])" for e
    using parse6_slash [OF _ t] by (cases "parse6 8 t [] e") fastforce+
  have "parse_ipv6 s = None"
  proof (cases "take 2 s = ''::''")
    case True
    then have "t = drop 2 s" by (simp add: t_def)
    then show ?thesis using bad [of "Some 0"] \<open>t \<noteq> []\<close> True unfolding parse_ipv6_def s(2) Let_def by auto
  next
    case False
    then have "t = s" by (simp add: t_def)
    then show ?thesis using bad [of None] \<open>t \<noteq> []\<close> False unfolding parse_ipv6_def s(2) Let_def by auto
  qed
  then show False using p by simp
qed

lemma parseIP_slash: "CHR ''/'' \<in> set s \<Longrightarrow> parseIP s = None"
  using parse_addr_slash by (auto simp: parseIP_def split: option.splits)

section \<open>Networks\<close>

text \<open>An IPv4-mapped network is printed, and so read back, as an IPv4 network.\<close>

definition printed_network :: "ipnet \<Rightarrow> ipnet" where
  "printed_network net =
     (if network_bits net = 128 \<and> is_mapped (network_ip net)
      then \<lparr>nw_addr = V4 (word_of_int (uint (network_ip net) mod 2 ^ 32)), nw_ones = nw_ones net - 96\<rparr>
      else net)"

text \<open>What \<open>ParseCIDR\<close> returns: no zone, and no bits after the prefix.\<close>

definition clean_network :: "ipnet \<Rightarrow> bool" where
  "clean_network net = (case nw_addr net of
     NoAddr \<Rightarrow> False
   | V4 w \<Rightarrow> nw_ones net \<le> 32 \<and> clear_low (32 - nw_ones net) (uint w) = uint w
   | V6 w z \<Rightarrow> z = [] \<and> nw_ones net \<le> 128 \<and> clear_low (128 - nw_ones net) (uint w) = uint w)"

lemma clear_low_le:
  assumes "0 \<le> n"
  shows "0 \<le> clear_low k n \<and> clear_low k n \<le> n"
proof -
  have "0 \<le> n mod 2 ^ k" "0 \<le> n div 2 ^ k" using assms by (simp_all add: pos_imp_zdiv_nonneg_iff)
  moreover have "n div 2 ^ k * 2 ^ k \<le> n" using calculation(1) div_mult_mod_eq [of n "2 ^ k"] by linarith
  ultimately show ?thesis by (simp add: clear_low_def)
qed

lemma clear_low_idem [simp]: "clear_low k (clear_low k n) = clear_low k n"
  by (simp add: clear_low_def)

lemma clear_low_word:
  fixes w :: "'a :: len word"
  shows "uint (word_of_int (clear_low k (uint w)) :: 'a word) = clear_low k (uint w)"
proof -
  have "0 \<le> clear_low k (uint w)" "clear_low k (uint w) < 2 ^ LENGTH('a)"
    using clear_low_le [of "uint w" k] uint_bounded [of w] by (auto intro: le_less_trans)
  then show ?thesis by (simp add: uint_word_of_int)
qed

lemma parseCIDR_clean:
  assumes "parseCIDR s = Some net"
  shows "clean_network net"
proof -
  obtain a n where "parse_addr (takeWhile (\<lambda>c. c \<noteq> CHR ''/'') s) = Some a" and a: "addr_zone a = []" "n \<le> addr_bit_len a"
    "net = \<lparr>nw_addr = addr_mask a n, nw_ones = n\<rparr>"
    using assms by (auto simp: parseCIDR_def split: if_splits option.splits)
  moreover have "a \<noteq> NoAddr" using calculation(1)
    by (auto simp: parse_addr_def parse_ipv6_def Let_def split: list.splits if_splits option.splits prod.splits)
  ultimately show ?thesis by (cases a) (simp_all add: clean_network_def clear_low_word)
qed

lemma clear_low_dvd: "clear_low k n = n \<longleftrightarrow> 2 ^ k dvd n"
  by (auto simp: clear_low_def dvd_div_mult_self) (metis dvd_triv_right)

lemma parse_addr_ipString:
  "parse_addr (ipString w) = Some (if is_mapped w then V4 (word_of_int (uint w mod 2 ^ 32)) else V6 w [])"
  using uint_128 [of w] by (simp add: ipString_def parse_addr_dotted parse_addr_ip6)

lemma parse_mask_itoa: "n \<le> 128 \<Longrightarrow> parse_mask (itoa (int n)) = Some n"
  by (simp add: parse_mask_def itoa_def digits_val_int_digits)

lemma takeWhile_until:
  assumes "\<forall>x \<in> set xs. P x" "\<not> P c"
  shows "takeWhile P (xs @ c # ys) = xs"
  using assms by (simp add: takeWhile_append)

lemma parseCIDR_printed:
  assumes "n \<le> 128" "n \<le> (if is_mapped w then 32 else 128)"
  shows "parseCIDR (ipString w @ ''/'' @ itoa (int n)) =
    Some \<lparr>nw_addr = addr_mask (if is_mapped w then V4 (word_of_int (uint w mod 2 ^ 32)) else V6 w []) n, nw_ones = n\<rparr>"
proof -
  let ?s = "ipString w @ CHR ''/'' # itoa (int n)"
  have t: "takeWhile (\<lambda>c. c \<noteq> CHR ''/'') ?s = ipString w" using ipString_plain by (intro takeWhile_until) auto
  have d: "dropWhile (\<lambda>c. c \<noteq> CHR ''/'') ?s = CHR ''/'' # itoa (int n)" using ipString_plain by (intro dropWhile_until) auto
  show ?thesis using assms by (cases "is_mapped w") (simp_all add: parseCIDR_def t d parse_addr_ipString parse_mask_itoa)
qed

lemma mapped_prefix:
  assumes "is_mapped w" "clear_low k (uint w) = uint w"
  shows "k \<le> 32" "clear_low k (uint w mod 2 ^ 32) = uint w mod 2 ^ 32"
proof -
  have d: "2 ^ k dvd uint w" using assms(2) by (simp add: clear_low_dvd)
  show k: "k \<le> 32"
  proof (rule ccontr)
    assume "\<not> k \<le> 32"
    then have "(2 :: int) ^ 33 dvd 2 ^ k" by (intro le_imp_power_dvd) simp
    then have "2 ^ 33 dvd uint w" using d dvd_trans by blast
    then obtain q where q: "uint w = 2 ^ 32 * (2 * q)" by (elim dvdE) simp
    have "uint w div 2 ^ 32 = 2 * q" unfolding q by (rule nonzero_mult_div_cancel_left) simp
    then have "65535 = 2 * q" using assms(1) unfolding is_mapped_def by linarith
    then show False by presburger
  qed
  have "(2 :: int) ^ k dvd 2 ^ 32" using k by (intro le_imp_power_dvd)
  then have "2 ^ k dvd uint w mod 2 ^ 32" using d by (simp add: dvd_mod)
  then show "clear_low k (uint w mod 2 ^ 32) = uint w mod 2 ^ 32" by (simp only: clear_low_dvd)
qed

definition mapped4 :: "32 word \<Rightarrow> 128 word" where
  "mapped4 v = word_of_int (mapped_base + uint v)"

lemma uint_mapped4: "uint (mapped4 v) = mapped_base + uint v"
proof -
  have "0 \<le> mapped_base + uint v" "mapped_base + uint v < 2 ^ 128"
    using uint_bounded [of v] by (simp_all add: mapped_base_def)
  then show ?thesis unfolding mapped4_def by (subst uint_word_of_int) simp
qed

lemma mapped4_simps [simp]: "is_mapped (mapped4 v)" "uint (mapped4 v) mod 2 ^ 32 = uint v"
proof -
  have v: "0 \<le> uint v" "uint v < 2 ^ 32" using uint_bounded [of v] by simp_all
  then have "(0xffff * 2 ^ 32 + uint v) div 2 ^ 32 = 0xffff + uint v div 2 ^ 32" by (intro div_mult_self3) simp
  then show "is_mapped (mapped4 v)" using v by (simp only: is_mapped_def uint_mapped4 mapped_base_def) simp
  have "(0xffff * 2 ^ 32 + uint v) mod 2 ^ 32 = uint v mod 2 ^ 32" by (rule mod_mult_self3)
  then show "uint (mapped4 v) mod 2 ^ 32 = uint v" using v by (simp only: uint_mapped4 mapped_base_def) simp
qed

lemma network_ip_simps:
  "nw_addr net = V4 v \<Longrightarrow> network_ip net = mapped4 v"
  "nw_addr net = V6 w z \<Longrightarrow> network_ip net = w"
  by (simp_all add: network_ip_def mapped4_def)

lemma parseCIDR_network_string:
  assumes "clean_network net"
  shows "parseCIDR (network_string net) = Some (printed_network net)"
proof (cases "nw_addr net")
  case NoAddr
  then show ?thesis using assms by (simp add: clean_network_def)
next
  case (V4 v)
  have n: "nw_ones net \<le> 32" "clear_low (32 - nw_ones net) (uint v) = uint v" using assms by (simp_all add: clean_network_def V4)
  have s: "network_string net = ipString (mapped4 v) @ ''/'' @ itoa (int (nw_ones net))"
    by (simp add: network_string_def network_bits_def V4 network_ip_simps(1) [OF V4])
  have "parseCIDR (network_string net) = Some \<lparr>nw_addr = addr_mask (V4 v) (nw_ones net), nw_ones = nw_ones net\<rparr>"
    unfolding s using n(1) parseCIDR_printed [of "nw_ones net" "mapped4 v"] mapped4_simps [of v] by simp
  then show ?thesis using n by (simp add: printed_network_def network_bits_def V4)
next
  case (V6 w z)
  have n: "z = []" "nw_ones net \<le> 128" "clear_low (128 - nw_ones net) (uint w) = uint w" using assms by (simp_all add: clean_network_def V6)
  show ?thesis
  proof (cases "is_mapped w")
    case True
    note m = mapped_prefix [OF True n(3)]
    have "32 - (nw_ones net - 96) = 128 - nw_ones net" using m(1) by simp
    have s: "network_string net = ipString w @ ''/'' @ itoa (int (nw_ones net - 96))"
      by (simp add: network_string_def network_bits_def V6 network_ip_simps(2) [OF V6] True)
    have l: "nw_ones net - 96 \<le> 32" "32 - (nw_ones net - 96) = 128 - nw_ones net" using m(1) n(2) by simp_all
    have u: "uint (word_of_int (uint w mod 2 ^ 32) :: 32 word) = uint w mod 2 ^ 32" by (simp add: uint_word_of_int)
    have "parseCIDR (network_string net) = Some \<lparr>nw_addr = addr_mask (V4 (word_of_int (uint w mod 2 ^ 32))) (nw_ones net - 96),
        nw_ones = nw_ones net - 96\<rparr>"
      unfolding s using l(1) parseCIDR_printed [of "nw_ones net - 96" w] True by simp
    also have "addr_mask (V4 (word_of_int (uint w mod 2 ^ 32))) (nw_ones net - 96) = V4 (word_of_int (uint w mod 2 ^ 32))"
      by (simp only: addr_mask.simps u l(2) m(2))
    finally show ?thesis using True by (simp add: printed_network_def network_bits_def V6 network_ip_simps(2) [OF V6])
  next
    case False
    then show ?thesis using n
      by (simp add: network_string_def network_bits_def V6 network_ip_simps(2) [OF V6] printed_network_def parseCIDR_printed
          [simplified])
  qed
qed

section \<open>Spelling\<close>

text \<open>Address text is read without regard to the case of letters.\<close>

definition upper_letters :: string where
  "upper_letters = ''ABCDEFGHIJKLMNOPQRSTUVWXYZ''"

lemma lower_char_other: "c \<notin> set upper_letters \<Longrightarrow> lower_char c = c"
  by (simp add: lower_char_def upper_letters_def)

text \<open>A property of characters that lower-casing keeps, checked on the letters.\<close>

lemma lower_keeps: "(\<forall>c \<in> set upper_letters. f (lower_char c) = f c) \<Longrightarrow> f (lower_char c) = f c"
  using lower_char_other by (cases "c \<in> set upper_letters") auto

lemma digit_val_lower [simp]: "digit_val (lower_char c) = digit_val c"
  by (rule lower_keeps) code_simp

lemma hex_val_lower [simp]: "hex_val (lower_char c) = hex_val c"
  by (rule lower_keeps) code_simp

lemma is_hex_lower [simp]: "is_hex (lower_char c) = is_hex c"
  by (simp add: is_hex_def)

lemma punctuation_lower [simp]:
  "lower_char c = CHR ''.'' \<longleftrightarrow> c = CHR ''.''" "lower_char c = CHR '':'' \<longleftrightarrow> c = CHR '':''"
  "lower_char c = CHR ''%'' \<longleftrightarrow> c = CHR ''%''" "lower_char c = CHR ''/'' \<longleftrightarrow> c = CHR ''/''"
  by (rule lower_keeps [of "\<lambda>c. c = CHR ''.''"], code_simp) (rule lower_keeps [of "\<lambda>c. c = CHR '':''"], code_simp,
    rule lower_keeps [of "\<lambda>c. c = CHR ''%''"], code_simp, rule lower_keeps [of "\<lambda>c. c = CHR ''/''"], code_simp)

lemma parse4_lower [simp]: "parse4 v d fs (map lower_char s) = parse4 v d fs s"
  by (induction v d fs s rule: parse4.induct) (auto split: option.split)

lemma span_lower:
  "(\<And>c. P (lower_char c) = P c) \<Longrightarrow> takeWhile P (map lower_char s) = map lower_char (takeWhile P s)"
  "(\<And>c. P (lower_char c) = P c) \<Longrightarrow> dropWhile P (map lower_char s) = map lower_char (dropWhile P s)"
  by (simp_all add: takeWhile_map dropWhile_map comp_def)

lemma mem_lower:
  assumes "\<And>c. lower_char c = d \<longleftrightarrow> c = d"
  shows "d \<in> set (map lower_char s) \<longleftrightarrow> d \<in> set s"
proof -
  have "d \<in> set (map lower_char s) \<longleftrightarrow> (\<exists>c \<in> set s. lower_char c = d)" by auto
  then show ?thesis by (simp add: assms)
qed

lemma hex_number_lower [simp]: "hex_number (map lower_char ds) = hex_number ds"
  by (simp add: hex_number_def comp_def)

lemma parse6_lower:
  "parse6 n (map lower_char s) gs e = map_option (\<lambda>(gs, e, rest). (gs, e, map lower_char rest)) (parse6 n s gs e)"
proof (induction n s gs e rule: parse6.induct)
  case (2 n s gs e)
  let ?ds = "takeWhile is_hex s" and ?r = "dropWhile is_hex s"
  note span = span_lower [of is_hex, OF is_hex_lower]
  show ?case
  proof (cases "?ds = [] \<or> length ?ds > 4")
    case True
    then show ?thesis by (auto simp: parse6.simps Let_def span)
  next
    case ds: False
    show ?thesis
    proof (cases ?r)
      case Nil
      show ?thesis using ds by (simp add: parse6.simps Let_def span Nil)
    next
      case (Cons c cs)
      show ?thesis
      proof (cases "c = CHR ''.''")
        case True
        then show ?thesis using ds Cons by (auto simp: parse6.simps Let_def span split: option.split)
      next
        case dot: False
        show ?thesis
        proof (cases cs)
          case Nil
          then show ?thesis using ds Cons dot by (simp add: parse6.simps Let_def span)
        next
          case cs: (Cons c2 s2)
          note facts = ds Cons dot cs
          show ?thesis
          proof (cases "c = CHR '':''")
            case colon: True
            show ?thesis
            proof (cases "c2 = CHR '':''")
              case True
              have "parse6 n (map lower_char s2) (gs @ [hex_number ?ds]) (Some (length (gs @ [hex_number ?ds]))) =
                  map_option (\<lambda>(gs, e, rest). (gs, e, map lower_char rest))
                    (parse6 n s2 (gs @ [hex_number ?ds]) (Some (length (gs @ [hex_number ?ds]))))"
                if "e = None" "s2 \<noteq> []"
                using 2(1) facts colon True that by simp
              then show ?thesis using facts colon True by (auto simp: parse6.simps Let_def span)
            next
              case False
              have "parse6 n (map lower_char (c2 # s2)) (gs @ [hex_number ?ds]) e =
                  map_option (\<lambda>(gs, e, rest). (gs, e, map lower_char rest)) (parse6 n (c2 # s2) (gs @ [hex_number ?ds]) e)"
                using 2(2) facts colon False by simp
              then show ?thesis using facts colon False by (auto simp: parse6.simps Let_def span)
            qed
          next
            case False
            then show ?thesis using facts by (simp add: parse6.simps Let_def span)
          qed
        qed
      qed
    qed
  qed
qed (simp add: parse6.simps)

fun lower_zone :: "addr \<Rightarrow> addr" where
  "lower_zone (V6 w z) = V6 w (map lower_char z)"
| "lower_zone a = a"

lemma lower_zone_simps [simp]:
  "addr_zone (lower_zone a) = map lower_char (addr_zone a)" "addr_as16 (lower_zone a) = addr_as16 a"
  "addr_bit_len (lower_zone a) = addr_bit_len a" "addr_mask (lower_zone a) n = lower_zone (addr_mask a n)"
  "addr_zone a = [] \<Longrightarrow> lower_zone a = a"
  by (cases a; simp)+

lemma lower_double [simp]: "take 2 (map lower_char s) = ''::'' \<longleftrightarrow> take 2 s = ''::''"
  by (cases s rule: list.exhaust; cases "tl s") auto

lemma parse_ipv6_lower: "parse_ipv6 (map lower_char s) = map_option lower_zone (parse_ipv6 s)"
proof -
  note span = span_lower [of "\<lambda>c. c \<noteq> CHR ''%''"]
  have z: "CHR ''%'' \<in> set (map lower_char s) \<longleftrightarrow> CHR ''%'' \<in> set s" by (rule mem_lower) simp
  have d: "drop 2 (map lower_char t) = map lower_char (drop 2 t)" for t by (simp add: drop_map)
  show ?thesis
    unfolding parse_ipv6_def Let_def z
    by (simp add: span d parse6_lower map_tl [symmetric] split: option.split)
qed

lemma parse_addr_lower: "parse_addr (map lower_char s) = map_option lower_zone (parse_addr s)"
proof -
  let ?drop = "dropWhile (\<lambda>c. c \<notin> {CHR ''.'', CHR '':'', CHR ''%''})"
  have d: "?drop (map lower_char s) = map lower_char (?drop s)" by (rule span_lower) simp
  show ?thesis
  proof (cases "?drop s")
    case Nil
    then show ?thesis unfolding parse_addr_def d by (simp only: Nil list.map list.case option.map)
  next
    case (Cons c cs)
    have "map lower_char (c # cs) = lower_char c # map lower_char cs" by simp
    then show ?thesis unfolding parse_addr_def d
      by (simp only: Cons list.case) (simp add: parse_ipv6_lower split: option.split)
  qed
qed

lemma parseIP_lower [simp]: "parseIP (toLower s) = parseIP s"
  by (cases "parse_addr s") (simp_all add: parseIP_def toLower_def parse_addr_lower)

lemma digits_val_lower [simp]: "digits_val n (map lower_char s) = digits_val n s"
  by (induction s arbitrary: n) (simp_all cong: option.case_cong)

lemma parseCIDR_lower [simp]: "parseCIDR (toLower s) = parseCIDR s"
proof -
  let ?a = "takeWhile (\<lambda>c. c \<noteq> CHR ''/'') s"
  have z: "CHR ''/'' \<in> set (map lower_char s) \<longleftrightarrow> CHR ''/'' \<in> set s" by (rule mem_lower) simp
  note span = span_lower [of "\<lambda>c. c \<noteq> CHR ''/''"]
  have m: "parse_mask (tl (map lower_char t)) = parse_mask (tl t)" for t by (cases t) (simp_all add: parse_mask_def)
  show ?thesis
    unfolding parseCIDR_def toLower_def z
    by (cases "parse_addr ?a") (simp_all add: span m parse_addr_lower split: option.split)
qed

section \<open>Canonical targets\<close>

lemma trimSpace_no_space: "\<forall>c \<in> set s. \<not> is_space c \<Longrightarrow> trimSpace s = s"
  by (rule trimSpace_plain)

lemma network_string_plain: "\<forall>c \<in> set (network_string net). \<not> is_space c"
proof -
  have "\<not> is_space c" if "c \<in> set (itoa i)" "0 \<le> i" for c i
    using itoa_digits [OF that(2,1)] by (auto simp: is_space_def)
  moreover have "\<not> is_space CHR ''/''" by (simp add: is_space_def)
  ultimately show ?thesis using ipString_plain by (auto simp: network_string_def Let_def)
qed

lemma printed_ip [simp]: "network_ip (printed_network net) = network_ip net"
proof (cases "network_bits net = 128 \<and> is_mapped (network_ip net)")
  case True
  have "uint (word_of_int (uint (network_ip net) mod 2 ^ 32) :: 32 word) = uint (network_ip net) mod 2 ^ 32"
    by (simp add: uint_word_of_int)
  then have "uint (mapped4 (word_of_int (uint (network_ip net) mod 2 ^ 32))) = uint (network_ip net)"
    using True mapped_uint by (simp add: uint_mapped4)
  then have "mapped4 (word_of_int (uint (network_ip net) mod 2 ^ 32)) = network_ip net" by (rule word_uint_eqI)
  then show ?thesis using True by (simp add: printed_network_def network_ip_simps(1))
next
  case False
  then have "printed_network net = net" unfolding printed_network_def by (rule if_not_P)
  then show ?thesis by simp
qed

lemma printed_network:
  assumes "clean_network net"
  shows "clean_network (printed_network net)" "network_string (printed_network net) = network_string net"
    "nw_ones (printed_network net) = network_bits (printed_network net) \<longleftrightarrow> nw_ones net = network_bits net"
    "\<not> (network_bits (printed_network net) = 128 \<and> is_mapped (network_ip (printed_network net)))"
proof -
  let ?m = "network_bits net = 128 \<and> is_mapped (network_ip net)"
  show "clean_network (printed_network net)" using parseCIDR_clean parseCIDR_network_string [OF assms] by blast
  have bits: "network_bits (printed_network net) = (if ?m then 32 else network_bits net)"
    by (simp add: printed_network_def network_bits_def)
  have id: "printed_network net = net" if "\<not> ?m" unfolding printed_network_def using that by (rule if_not_P)
  have ones: "nw_ones (printed_network net) = (if ?m then nw_ones net - 96 else nw_ones net)" by (simp add: printed_network_def)
  then show "network_string (printed_network net) = network_string net"
    using id bits by (cases ?m) (simp_all add: network_string_def Let_def)
  show "\<not> (network_bits (printed_network net) = 128 \<and> is_mapped (network_ip (printed_network net)))"
    using bits by auto
  have "96 \<le> nw_ones net \<and> nw_ones net \<le> 128" if m: ?m
  proof -
    obtain w z where a: "nw_addr net = V6 w z" using m assms
      by (cases "nw_addr net") (auto simp: network_bits_def clean_network_def)
    then have "is_mapped w" "clear_low (128 - nw_ones net) (uint w) = uint w" "nw_ones net \<le> 128"
      using m assms by (simp_all add: network_ip_simps(2) clean_network_def)
    then show ?thesis using mapped_prefix(1) [of w "128 - nw_ones net"] by simp
  qed
  then show "nw_ones (printed_network net) = network_bits (printed_network net) \<longleftrightarrow> nw_ones net = network_bits net"
    unfolding bits ones by (cases ?m) auto
qed

lemma trimSpace_toLower [simp]: "trimSpace (toLower (trimSpace s)) = toLower (trimSpace s)"
  by (simp add: trimSpace_lower)

lemma CanonicalTarget_idem [simp]: "CanonicalTarget (CanonicalTarget t) = CanonicalTarget t"
proof -
  let ?t = "trimSpace t"
  have ip: "CanonicalTarget (ipString w) = ipString w" for w by (simp add: CanonicalTarget_def)
  show ?thesis
  proof (cases "parseIP ?t")
    case (Some w)
    then have "CanonicalTarget t = ipString w" by (simp add: CanonicalTarget_def)
    then show ?thesis by (simp add: ip)
  next
    case none: None
    show ?thesis
    proof (cases "parseCIDR ?t")
      case None
      then show ?thesis using none by (simp add: CanonicalTarget_def)
    next
      case (Some net)
      note clean = parseCIDR_clean [OF Some]
      show ?thesis
      proof (cases "nw_ones net = network_bits net")
        case True
        then have "CanonicalTarget t = ipString (network_ip net)" using none Some by (simp add: CanonicalTarget_def)
        then show ?thesis by (simp add: ip)
      next
        case False
        then have t: "CanonicalTarget t = network_string net" using none Some by (simp add: CanonicalTarget_def)
        have "CHR ''/'' \<in> set (network_string net)" by (simp add: network_string_def Let_def)
        then have "parseIP (network_string net) = None" by (rule parseIP_slash)
        moreover have "trimSpace (network_string net) = network_string net"
          by (rule trimSpace_plain) (rule network_string_plain)
        ultimately show ?thesis
          using False printed_network [OF clean] unfolding t by (simp add: CanonicalTarget_def parseCIDR_network_string [OF clean])
      qed
    qed
  qed
qed

lemma CanonicalPortExpression_idem [simp]:
  "CanonicalPortExpression (CanonicalPortExpression raw) = CanonicalPortExpression raw"
proof (cases "ParsePorts raw")
  case (Inr ports)
  then show ?thesis using canonical_show [OF Inr] ParsePorts_show by metis
next
  case (Inl e)
  then show ?thesis
    using parse_items_trimSpace [of raw] trimSpace_no_space [of "[]"]
    by (auto simp: ParsePorts_def CanonicalPortExpression_def Let_def split: if_splits sum.splits)
qed

lemma default_int_idem [simp]: "default_int d (default_int d v g) g = default_int d v g"
  by (simp add: default_int_def)

lemma applyNaabuDefaults_idem [simp]: "applyNaabuDefaults (applyNaabuDefaults o') = applyNaabuDefaults o'"
  by (simp add: applyNaabuDefaults_def)

lemma full_ports_canonical [simp]: "CanonicalPortExpression NaabuFullPortExpression = NaabuFullPortExpression"
  by code_simp

lemma tcp_defaults_idem:
  "canonical_ports (tcp_defaults (canonical_ports (tcp_defaults p))) = canonical_ports (tcp_defaults p)"
  by (cases "sp_engine p = []"; cases "sp_engine p = EngineNaabuNmap")
    (auto simp: tcp_defaults_def canonical_ports_def Let_def EngineNmap_def EngineNaabuNmap_def)

lemma NormalizeJob_idem: "NormalizeJob (NormalizeJob j) = NormalizeJob j"
  by (cases "wj_tcp j"; cases "wj_udp j")
    (simp_all add: NormalizeJob_def tcp_defaults_idem comp_def, simp_all add: canonical_ports_def)

section \<open>Expansion of a network\<close>

lemma trimSpace_canonical [simp]: "trimSpace (CanonicalTarget t) = CanonicalTarget t"
proof -
  have "trimSpace (network_string net) = network_string net" for net
    by (rule trimSpace_plain) (rule network_string_plain)
  then show ?thesis by (simp add: CanonicalTarget_def Let_def split: option.split)
qed

text \<open>A canonical network is an IPv4 network or an IPv6 network that is not mapped.\<close>

lemma canonical_network:
  assumes "parseCIDR raw = Some net" "CanonicalTarget raw = raw"
  shows "\<not> (network_bits net = 128 \<and> is_mapped (network_ip net))"
proof -
  have slash: "CHR ''/'' \<in> set raw" using assms(1) by (auto simp: parseCIDR_def split: if_splits)
  have "trimSpace raw = raw" using trimSpace_canonical [of raw] by (simp only: assms(2))
  then have "raw = (if nw_ones net = network_bits net then ipString (network_ip net) else network_string net)"
    using assms parseIP_slash [OF slash] by (simp add: CanonicalTarget_def)
  moreover have "CHR ''/'' \<notin> set (ipString (network_ip net))" using ipString_plain by blast
  ultimately have "raw = network_string net" using slash by (auto split: if_splits)
  then have "printed_network net = net"
    using assms(1) parseCIDR_network_string [OF parseCIDR_clean [OF assms(1)]] by simp
  then show ?thesis using printed_network(4) [OF parseCIDR_clean [OF assms(1)]] by simp
qed

definition addr_at :: "ipnet \<Rightarrow> nat \<Rightarrow> 128 word" where
  "addr_at net j = ip_of ((incrementIP ^^ j) (nw_addr net))"

lemma expand_run:
  assumes "expand_network ex limit raw net current hosts = Inr (addresses, n)"
  shows "\<exists>m. addresses = map (\<lambda>j. ipString (ip_of ((incrementIP ^^ j) current))) [0 ..< m] \<and> n = hosts + int m \<and>
    \<not> netContains net (ip_of ((incrementIP ^^ m) current)) \<and>
    (\<forall>j < m. netContains net (ip_of ((incrementIP ^^ j) current)) \<and> excludedNetwork ex (Some (ip_of ((incrementIP ^^ j) current))) = []) \<and>
    (0 < m \<longrightarrow> n \<le> limit)"
  using assms
proof (induction ex limit raw net current hosts arbitrary: addresses n rule: expand_network.induct)
  case (1 ex limit raw net current hosts)
  show ?case
  proof (cases "netContains net (ip_of current)")
    case False
    then show ?thesis using "1.prems" by (intro exI [of _ 0]) (simp add: expand_network.simps)
  next
    case True
    have step: "excludedNetwork ex (Some (ip_of current)) = []" "hosts + 1 \<le> limit"
      using "1.prems" True by (auto simp: expand_network.simps [of ex limit raw net current] Let_def split: if_splits)
    then obtain as where rec: "expand_network ex limit raw net (incrementIP current) (hosts + 1) = Inr (as, n)"
      "addresses = ipString (ip_of current) # as"
      using "1.prems" True
      by (auto simp: expand_network.simps [of ex limit raw net current] Let_def split: if_splits sum.splits)
    have sh: "(incrementIP ^^ j) (incrementIP current) = (incrementIP ^^ Suc j) current" for j by (simp add: funpow_swap1)
    obtain m where m: "as = map (\<lambda>j. ipString (ip_of ((incrementIP ^^ Suc j) current))) [0 ..< m]" "n = hosts + 1 + int m"
      "\<not> netContains net (ip_of ((incrementIP ^^ Suc m) current))"
      "\<forall>j < m. netContains net (ip_of ((incrementIP ^^ Suc j) current)) \<and>
        excludedNetwork ex (Some (ip_of ((incrementIP ^^ Suc j) current))) = []" "0 < m \<longrightarrow> n \<le> limit"
      using "1.IH" [OF _ refl _ _ rec(1)] True step unfolding sh by auto
    have "map (\<lambda>j. ipString (ip_of ((incrementIP ^^ j) current))) [0 ..< Suc m] = addresses"
      by (simp add: rec(2) m(1) upt_rec [of 0] flip: map_Suc_upt del: upt_Suc funpow.simps)
    moreover have "\<forall>j < Suc m. netContains net (ip_of ((incrementIP ^^ j) current)) \<and>
        excludedNetwork ex (Some (ip_of ((incrementIP ^^ j) current))) = []"
      using m(4) True step(1) by (auto simp: less_Suc_eq_0_disj)
    ultimately show ?thesis using m step(2) by (intro exI [of _ "Suc m"]) (auto simp: less_Suc_eq_0_disj)
  qed
qed

lemma inc_addr: "(incrementIP ^^ j) (V4 v) = V4 (v + of_nat j)" "(incrementIP ^^ j) (V6 w z) = V6 (w + of_nat j) z"
  by (induction j) (simp_all add: algebra_simps)

lemma addr_at_simps:
  "nw_addr net = V4 v \<Longrightarrow> addr_at net j = mapped4 (v + of_nat j)"
  "nw_addr net = V6 w z \<Longrightarrow> addr_at net j = w + of_nat j"
  by (simp_all add: addr_at_def inc_addr ip_of_def mapped4_def)

text \<open>The block of an aligned address.\<close>

lemma clear_low_block:
  assumes "2 ^ h dvd b" "0 \<le> b" "0 \<le> x"
  shows "clear_low h x = b \<longleftrightarrow> b \<le> x \<and> x < b + 2 ^ h"
proof -
  obtain q where q: "b = 2 ^ h * q" using assms(1) by (elim dvdE)
  have "clear_low h x = b \<longleftrightarrow> x div 2 ^ h = q" by (simp add: clear_low_def q mult.commute)
  also have "\<dots> \<longleftrightarrow> b \<le> x \<and> x < b + 2 ^ h"
  proof
    have r: "0 \<le> x mod 2 ^ h" "x mod 2 ^ h < 2 ^ h" by simp_all
    show "b \<le> x \<and> x < b + 2 ^ h" if "x div 2 ^ h = q"
      using div_mult_mod_eq [of x "2 ^ h"] r unfolding that q mult.commute [of "2 ^ h" q] by linarith
    show "x div 2 ^ h = q" if "b \<le> x \<and> x < b + 2 ^ h"
      by (rule int_div_pos_eq [where r = "x - b"]) (use that q in simp_all)
  qed
  finally show ?thesis .
qed

text \<open>
  An aligned word \<open>v\<close> of \<open>L\<close> bits: the first \<open>2 ^ h\<close> words from it are its block, and the next
  one is outside, even where it wraps.
\<close>

lemma aligned_words:
  fixes v :: "'a :: len word"
  assumes "2 ^ h dvd uint v" "h < LENGTH('a)"
  shows "j < 2 ^ h \<Longrightarrow> uint (v + of_nat j) = uint v + int j"
    and "clear_low h (uint (v + of_nat (2 ^ h))) \<noteq> uint v"
proof -
  let ?L = "(2 :: int) ^ LENGTH('a)" and ?b = "uint v"
  have b: "0 \<le> ?b" "?b < ?L" using uint_bounded [of v] by simp_all
  have "(2 :: int) ^ h dvd ?L" using assms(2) by (intro le_imp_power_dvd) simp
  then have top: "?b + 2 ^ h \<le> ?L"
  proof -
    obtain q r where q: "?b = 2 ^ h * q" "?L = 2 ^ h * r" using assms(1) \<open>2 ^ h dvd ?L\<close> by (elim dvdE) auto
    then have "q < r" using b(2) by (simp add: mult_less_cancel_left)
    then have "2 ^ h * (q + 1) \<le> 2 ^ h * r" by (intro mult_left_mono) simp_all
    then show ?thesis by (simp add: q distrib_left)
  qed
  have sum: "uint (v + of_nat k) = (?b + int k) mod ?L" if "int k < ?L" for k
  proof -
    have "uint (of_nat k :: 'a word) = int k" using that by (simp add: unsigned_of_nat of_nat_take_bit take_bit_eq_mod)
    then show ?thesis by (simp add: uint_word_ariths)
  qed
  have big: "(2 :: int) ^ h < ?L" using assms(2) by simp
  show "uint (v + of_nat j) = ?b + int j" if "j < 2 ^ h"
  proof -
    have "int j < 2 ^ h" using that by (metis of_nat_less_iff of_nat_numeral of_nat_power)
    then have "int j < ?L" "?b + int j < ?L" "0 \<le> ?b + int j" using big top b(1) by linarith+
    then show ?thesis unfolding sum [OF \<open>int j < ?L\<close>] by (intro mod_pos_pos_trivial)
  qed
  have next_val: "uint (v + of_nat (2 ^ h)) = (?b + 2 ^ h) mod ?L" using sum [of "2 ^ h"] big by simp
  show "clear_low h (uint (v + of_nat (2 ^ h))) \<noteq> ?b"
  proof (cases "?b + 2 ^ h < ?L")
    case True
    then have "uint (v + of_nat (2 ^ h)) = ?b + 2 ^ h" using next_val b(1) by simp
    then show ?thesis using clear_low_block [OF assms(1) b(1), of "?b + 2 ^ h"] b(1) by simp
  next
    case False
    then have "?b + 2 ^ h = ?L" using top by simp
    then have "uint (v + of_nat (2 ^ h)) = 0" "?b \<noteq> 0" using next_val big by auto
    then show ?thesis using clear_low_block [OF assms(1) b(1), of 0] b(1) by simp
  qed
qed

definition host_bits :: "ipnet \<Rightarrow> nat" where
  "host_bits net = network_bits net - nw_ones net"

lemma contains_v4:
  assumes "clean_network net" "nw_addr net = V4 v"
  shows "2 ^ host_bits net dvd uint v" "host_bits net \<le> 32"
    and "netContains net x \<longleftrightarrow> is_mapped x \<and> clear_low (host_bits net) (uint x mod 2 ^ 32) = uint v"
proof -
  have e: "host_bits net = 32 - nw_ones net" "clear_low (32 - nw_ones net) (uint v) = uint v"
    using assms by (simp_all add: clean_network_def host_bits_def network_bits_def)
  then show "2 ^ host_bits net dvd uint v" "host_bits net \<le> 32" by (simp_all add: clear_low_dvd [symmetric])
  show "netContains net x \<longleftrightarrow> is_mapped x \<and> clear_low (host_bits net) (uint x mod 2 ^ 32) = uint v"
    using assms by (auto simp: netContains_def e)
qed

lemma contains_v6:
  assumes "clean_network net" "nw_addr net = V6 w z" "\<not> is_mapped w"
  shows "2 ^ host_bits net dvd uint w" "host_bits net \<le> 128"
    and "netContains net x \<longleftrightarrow> \<not> is_mapped x \<and> clear_low (host_bits net) (uint x) = uint w"
proof -
  have e: "host_bits net = 128 - nw_ones net" "clear_low (128 - nw_ones net) (uint w) = uint w"
    using assms by (simp_all add: clean_network_def host_bits_def network_bits_def)
  then show "2 ^ host_bits net dvd uint w" "host_bits net \<le> 128" by (simp_all add: clear_low_dvd [symmetric])
  show "netContains net x \<longleftrightarrow> \<not> is_mapped x \<and> clear_low (host_bits net) (uint x) = uint w"
    using assms by (auto simp: netContains_def e)
qed

lemma addr_of_block:
  fixes v :: "'a :: len word"
  assumes "2 ^ h dvd uint v" "h < LENGTH('a)" "0 \<le> x" "clear_low h x = uint v"
  shows "\<exists>j < 2 ^ h. uint (v + of_nat j) = x"
proof -
  have r: "uint v \<le> x" "x < uint v + 2 ^ h" using clear_low_block [OF assms(1) _ assms(3)] assms(4) by simp_all
  then have "nat (x - uint v) < 2 ^ h" by (simp add: nat_less_iff)
  then show ?thesis using aligned_words(1) [OF assms(1,2), of "nat (x - uint v)"] r(1)
    by (intro exI [of _ "nat (x - uint v)"]) simp
qed

lemma block_v4:
  assumes net: "clean_network net" "nw_addr net = V4 v" and h: "host_bits net < 32"
  shows "{x. netContains net x} = addr_at net ` {..< 2 ^ host_bits net}"
    and "inj_on (addr_at net) {..< 2 ^ host_bits net}" and "\<not> netContains net (addr_at net (2 ^ host_bits net))"
proof -
  let ?h = "host_bits net"
  note c = contains_v4 [OF net] and a = addr_at_simps(1) [OF net(2)]
  have len: "?h < LENGTH(32)" using h by simp
  note val = aligned_words(1) [OF c(1) len]
  have in_block: "clear_low ?h (uint (v + of_nat j)) = uint v" if "j < 2 ^ ?h" for j
  proof -
    have "int j < 2 ^ ?h" using that by (metis of_nat_less_iff of_nat_numeral of_nat_power)
    then show ?thesis using val [OF that] clear_low_block [OF c(1), of "uint (v + of_nat j)"] by simp
  qed
  show "{x. netContains net x} = addr_at net ` {..< 2 ^ ?h}"
  proof (intro set_eqI iffI; clarsimp)
    fix x assume "netContains net x"
    then have x: "is_mapped x" "clear_low ?h (uint x mod 2 ^ 32) = uint v" by (simp_all only: c(3))
    obtain j where j: "j < 2 ^ ?h" "uint (v + of_nat j) = uint x mod 2 ^ 32"
      using addr_of_block [OF c(1) len _ x(2)] by auto
    then have "mapped4 (v + of_nat j) = x" using mapped_uint [OF x(1)] by (intro word_uint_eqI) (simp add: uint_mapped4)
    then show "x \<in> addr_at net ` {..< 2 ^ ?h}" using j(1) a by force
  next
    show "netContains net (addr_at net j)" if "j < 2 ^ ?h" for j using in_block [OF that] by (simp add: a c(3) mapped4_simps(2) [simplified])
  qed
  have "uint (addr_at net j) = mapped_base + uint v + int j" if "j < 2 ^ ?h" for j
    using val [OF that] by (simp add: a uint_mapped4)
  then show "inj_on (addr_at net) {..< 2 ^ ?h}" by (intro inj_onI) (metis add_left_cancel lessThan_iff of_nat_eq_iff)
  show "\<not> netContains net (addr_at net (2 ^ ?h))" using aligned_words(2) [OF c(1) len] by (simp add: a c(3) mapped4_simps(2) [simplified])
qed

lemma high_bits:
  fixes b j :: int
  assumes "2 ^ h dvd b" "h \<le> k" "0 \<le> j" "j < 2 ^ h"
  shows "(b + j) div 2 ^ k = b div 2 ^ k"
proof -
  obtain q where q: "b = 2 ^ h * q" using assms(1) by (elim dvdE)
  have "(b + j) div 2 ^ h = q" unfolding q using assms(3,4) by (intro int_div_pos_eq [where r = j]) simp_all
  moreover have "b div 2 ^ h = q" by (simp add: q)
  moreover have "x div 2 ^ k = x div 2 ^ h div 2 ^ (k - h)" for x :: int
    using zdiv_zmult2_eq [of "2 ^ (k - h)" x "2 ^ h"] assms(2) by (simp flip: power_add)
  ultimately show ?thesis by simp
qed

lemma block_v6:
  assumes net: "clean_network net" "nw_addr net = V6 w z" "\<not> is_mapped w" and h: "host_bits net \<le> 32"
  shows "{x. netContains net x} = addr_at net ` {..< 2 ^ host_bits net}"
    and "inj_on (addr_at net) {..< 2 ^ host_bits net}" and "\<not> netContains net (addr_at net (2 ^ host_bits net))"
proof -
  let ?h = "host_bits net"
  note c = contains_v6 [OF net] and a = addr_at_simps(2) [OF net(2)]
  have len: "?h < LENGTH(128)" using h by simp
  note val = aligned_words(1) [OF c(1) len]
  have small: "int j < 2 ^ ?h" if "j < 2 ^ ?h" for j using that by (metis of_nat_less_iff of_nat_numeral of_nat_power)
  have in_block: "clear_low ?h (uint (w + of_nat j)) = uint w" if "j < 2 ^ ?h" for j
    using val [OF that] clear_low_block [OF c(1), of "uint (w + of_nat j)"] small [OF that] by simp
  have plain: "\<not> is_mapped (w + of_nat j)" if "j < 2 ^ ?h" for j
    using high_bits [OF c(1) h _ small [OF that]] val [OF that] net(3) by (simp add: is_mapped_def)
  show "{x. netContains net x} = addr_at net ` {..< 2 ^ ?h}"
  proof (intro set_eqI iffI; clarsimp)
    fix x assume "netContains net x"
    then have "clear_low ?h (uint x) = uint w" by (simp only: c(3))
    then obtain j where j: "j < 2 ^ ?h" "uint (w + of_nat j) = uint x" using addr_of_block [OF c(1) len] by auto
    then have "w + of_nat j = x" by (intro word_uint_eqI)
    then show "x \<in> addr_at net ` {..< 2 ^ ?h}" using j(1) a by force
  next
    show "netContains net (addr_at net j)" if "j < 2 ^ ?h" for j using in_block [OF that] plain [OF that] by (simp add: a c(3))
  qed
  have "uint (addr_at net j) = uint w + int j" if "j < 2 ^ ?h" for j using val [OF that] by (simp add: a)
  then show "inj_on (addr_at net) {..< 2 ^ ?h}" by (intro inj_onI) (metis add_left_cancel lessThan_iff of_nat_eq_iff)
  show "\<not> netContains net (addr_at net (2 ^ ?h))" using aligned_words(2) [OF c(1) len] by (simp add: a c(3))
qed

lemma aligned_zero:
  fixes v :: "'a :: len word"
  assumes "2 ^ LENGTH('a) dvd uint v"
  shows "v = 0"
proof (rule ccontr)
  assume "v \<noteq> 0"
  then have "uint v \<noteq> 0" by (simp add: uint_0_iff)
  moreover have "0 \<le> uint v" by simp
  ultimately have "0 < uint v" by linarith
  then show False using zdvd_not_zless [of "uint v" "2 ^ LENGTH('a)"] assms uint_bounded [of v] by simp
qed

text \<open>A network of all addresses begins with one that is never scanned.\<close>

lemma whole_family:
  assumes "clean_network net" "host_bits net = network_bits net"
  shows "netContains net (addr_at net 0) \<and> excludedNetwork ex (Some (addr_at net 0)) \<noteq> []"
proof (cases "nw_addr net")
  case NoAddr
  then show ?thesis using assms(1) by (simp add: clean_network_def)
next
  case (V4 v)
  note c = contains_v4 [OF assms(1) V4]
  have "2 ^ 32 dvd uint v" using c(1) assms(2) by (simp add: network_bits_def V4)
  then have "v = 0" by (intro aligned_zero) simp
  then show ?thesis by (simp add: addr_at_simps(1) [OF V4] c(3) mapped4_simps(2) [simplified] excludedNetwork_def unspecified_def
      uint_mapped4 clear_low_def mapped_base_def)
next
  case (V6 w z)
  have "2 ^ 128 dvd uint w" using assms by (simp add: clean_network_def V6 host_bits_def network_bits_def clear_low_dvd)
  then have w: "w = 0" by (intro aligned_zero) simp
  then have "\<not> is_mapped w" by (simp add: is_mapped_def)
  then show ?thesis using contains_v6(3) [OF assms(1) V6] w
    by (simp add: addr_at_simps(2) [OF V6] excludedNetwork_def unspecified_def clear_low_def is_mapped_def)
qed

text \<open>A network of more than \<open>2 ^ 32\<close> addresses goes on for at least that long.\<close>

lemma long_network:
  assumes "clean_network net" "\<not> (network_bits net = 128 \<and> is_mapped (network_ip net))"
    and "32 < host_bits net" "host_bits net < network_bits net" "j < 2 ^ 32"
  shows "netContains net (addr_at net j)"
proof -
  obtain w z where V6: "nw_addr net = V6 w z" using assms(1,3)
    by (cases "nw_addr net") (auto simp: clean_network_def host_bits_def network_bits_def)
  then have m: "\<not> is_mapped w" and len: "host_bits net < LENGTH(128)"
    using assms(2,4) by (simp_all add: network_bits_def network_ip_simps(2))
  note c = contains_v6 [OF assms(1) V6 m]
  let ?h = "host_bits net"
  have "(2 :: int) ^ 33 dvd 2 ^ ?h" using assms(3) by (intro le_imp_power_dvd) simp
  then have d: "2 ^ 33 dvd uint w" using c(1) by (rule dvd_trans)
  have jh: "j < 2 ^ ?h" using assms(3,5) by (meson less_le_trans less_imp_le one_le_numeral power_increasing)
  have v: "uint (w + of_nat j) = uint w + int j" by (rule aligned_words(1) [OF c(1) len jh])
  have "int j < 2 ^ ?h" using jh by (metis of_nat_less_iff of_nat_numeral of_nat_power)
  then have "clear_low ?h (uint (w + of_nat j)) = uint w" using v clear_low_block [OF c(1), of "uint w + int j"] by simp
  moreover have "\<not> is_mapped (w + of_nat j)"
  proof -
    obtain q where q: "uint w = 2 ^ 32 * (2 * q)" using d by (elim dvdE) simp
    have "int j < 2 ^ 32" using assms(5) by (metis of_nat_less_iff of_nat_numeral of_nat_power)
    then have "(uint w + int j) div 2 ^ 32 = 2 * q" unfolding q by (intro int_div_pos_eq [where r = "int j"]) simp_all
    then have "is_mapped (w + of_nat j) \<longleftrightarrow> 2 * q = 0xffff" unfolding is_mapped_def v by simp
    then show ?thesis by presburger
  qed
  ultimately show ?thesis by (simp add: addr_at_simps(2) [OF V6] c(3))
qed

lemma block_end:
  assumes "\<forall>j < k. C j" "\<not> C k" "\<forall>j < m. C j" "\<not> C (m :: nat)"
  shows "m = k"
  using assms by (metis linorder_neqE_nat)

text \<open>
  C22: The loop over a configured network yields each address of the network once, in order and
  without an excluded one, or an error; it counts them, and stops at the limit.
\<close>

theorem network_expanded_exactly:
  assumes "CanonicalTarget raw = raw" "parseCIDR raw = Some net" "0 \<le> hosts" "limit < 2 ^ 32"
    and "expand_network exclusions limit raw net (nw_addr net) hosts = Inr (addresses, n)"
  shows "distinct addresses \<and> set addresses = ipString ` {x. netContains net x} \<and>
    (\<forall>x. netContains net x \<longrightarrow> excludedNetwork exclusions (Some x) = []) \<and> n = hosts + int (length addresses) \<and> n \<le> limit"
proof -
  note clean = parseCIDR_clean [OF assms(2)] and plain = canonical_network [OF assms(2,1)]
  obtain m where m: "addresses = map (\<lambda>j. ipString (addr_at net j)) [0 ..< m]" "n = hosts + int m"
    "\<not> netContains net (addr_at net m)" "\<forall>j < m. netContains net (addr_at net j)"
    "\<forall>j < m. excludedNetwork exclusions (Some (addr_at net j)) = []" "0 < m \<longrightarrow> n \<le> limit"
    using expand_run [OF assms(5)] by (auto simp: addr_at_def)
  have bits: "host_bits net < network_bits net"
  proof (rule ccontr)
    assume "\<not> host_bits net < network_bits net"
    then have "host_bits net = network_bits net" by (simp add: host_bits_def)
    then have w: "netContains net (addr_at net 0)" "excludedNetwork exclusions (Some (addr_at net 0)) \<noteq> []"
      using whole_family [OF clean] by blast+
    then have "0 < m" using m(3) by (cases m) auto
    then show False using w(2) m(5) by blast
  qed
  have short: "host_bits net \<le> 32"
  proof (rule ccontr)
    assume "\<not> host_bits net \<le> 32"
    then have "netContains net (addr_at net j)" if "j < 2 ^ 32" for j using long_network [OF clean plain _ bits that] by simp
    then have "\<not> m < 2 ^ 32" using m(3) by blast
    then have "2 ^ 32 \<le> int m" by (metis not_less of_nat_le_iff of_nat_numeral of_nat_power)
    then show False using m(2,6) assms(3,4) by simp
  qed
  have block: "{x. netContains net x} = addr_at net ` {..< 2 ^ host_bits net}" "inj_on (addr_at net) {..< 2 ^ host_bits net}"
    "\<not> netContains net (addr_at net (2 ^ host_bits net))"
  proof (atomize (full), cases "nw_addr net")
    case NoAddr
    then show "{x. netContains net x} = addr_at net ` {..< 2 ^ host_bits net} \<and> inj_on (addr_at net) {..< 2 ^ host_bits net} \<and>
      \<not> netContains net (addr_at net (2 ^ host_bits net))" using clean by (simp add: clean_network_def)
  next
    case (V4 v)
    have "host_bits net < 32" using bits by (simp add: network_bits_def V4)
    then show "{x. netContains net x} = addr_at net ` {..< 2 ^ host_bits net} \<and> inj_on (addr_at net) {..< 2 ^ host_bits net} \<and>
      \<not> netContains net (addr_at net (2 ^ host_bits net))" using block_v4 [OF clean V4] by blast
  next
    case (V6 w z)
    have "\<not> is_mapped w" using plain by (simp add: network_bits_def V6 network_ip_simps(2) [OF V6])
    then show "{x. netContains net x} = addr_at net ` {..< 2 ^ host_bits net} \<and> inj_on (addr_at net) {..< 2 ^ host_bits net} \<and>
      \<not> netContains net (addr_at net (2 ^ host_bits net))" using block_v6 [OF clean V6 _ short] by blast
  qed
  have "m = 2 ^ host_bits net"
    by (rule block_end [OF _ block(3) m(4) m(3)]) (metis block(1) imageI lessThan_iff mem_Collect_eq)
  then have set: "addr_at net ` {..< m} = {x. netContains net x}" "inj_on (addr_at net) {..< m}" "0 < m"
    using block(1,2) by (simp_all only:) simp
  have "inj_on (\<lambda>j. ipString (addr_at net j)) {..< m}"
    by (rule inj_onI) (use set(2) in \<open>simp only: ipString_inj inj_on_eq_iff\<close>)
  then have "distinct addresses" unfolding m(1) by (simp add: distinct_map atLeast0LessThan)
  moreover have "set addresses = ipString ` {x. netContains net x}"
    unfolding m(1) set(1) [symmetric] by (simp only: set_map set_upt atLeast0LessThan image_image)
  moreover have "\<forall>x. netContains net x \<longrightarrow> excludedNetwork exclusions (Some x) = []"
  proof (intro allI impI)
    fix x assume "netContains net x"
    then have "x \<in> addr_at net ` {..< m}" unfolding set(1) by simp
    then obtain j where "j < m" "x = addr_at net j" by auto
    then show "excludedNetwork exclusions (Some x) = []" using m(5) by blast
  qed
  ultimately show ?thesis using m set(3) by simp
qed

definition example_network :: ipnet where
  "example_network = \<lparr>nw_addr = V4 0xC0000200, nw_ones = 30\<rparr>"

theorem network_expanded_exactly_witness:
  "distinct [''192.0.2.0'', ''192.0.2.1'', ''192.0.2.2'', ''192.0.2.3''] \<and>
   set [''192.0.2.0'', ''192.0.2.1'', ''192.0.2.2'', ''192.0.2.3''] = ipString ` {x. netContains example_network x}"
proof -
  have run: "CanonicalTarget ''192.0.2.0/30'' = ''192.0.2.0/30''" "parseCIDR ''192.0.2.0/30'' = Some example_network"
    "expand_network [] 256 ''192.0.2.0/30'' example_network (nw_addr example_network) 0 =
      Inr ([''192.0.2.0'', ''192.0.2.1'', ''192.0.2.2'', ''192.0.2.3''], 4)"
    by code_simp+
  have "(256 :: int) < 2 ^ 32" by simp
  from network_expanded_exactly [OF run(1,2) order_refl this run(3)] show ?thesis by (simp only: simp_thms)
qed

text \<open>
  Normalising a job twice is normalising it once, so a stored job, its estimate and its
  plan agree on targets, port expressions and defaults, and a stored target keeps its identity.
\<close>

theorem normalization_is_stable:
  "NormalizeJob (NormalizeJob j) = NormalizeJob j \<and> EstimateJobWork (NormalizeJob j) = EstimateJobWork j \<and>
   Plan_scan exclusions lookup maxJobHosts (NormalizeJob j) = Plan_scan exclusions lookup maxJobHosts j"
  using NormalizeJob_idem [of j] by (simp add: EstimateJobWork_def Plan_scan_def)

end
