(* ===== verification/PlanFacts.thy ===== *)
theory PlanFacts
  imports Plan BudgetFacts AddrText
begin

text \<open>
  The plan of a scan probes every address and port of the job once, in units of bounded size,
  never an excluded address; halving a unit loses and repeats nothing, and ends.
\<close>

section \<open>Slices and runs\<close>

lemma concat_chunks [simp]: "0 < n \<Longrightarrow> concat (chunks n xs) = xs"
  by (induction n xs rule: chunks.induct) (subst chunks.simps, simp)

lemma chunk_size: "c \<in> set (chunks n xs) \<Longrightarrow> 0 < length c \<and> length c \<le> n"
proof (induction n xs rule: chunks.induct)
  case (1 n xs)
  show ?case
  proof (cases "xs = [] \<or> n = 0")
    case True
    then show ?thesis using 1(2) by (simp add: chunks.simps)
  next
    case False
    then have "chunks n xs = take n xs # chunks n (drop n xs)" by (subst chunks.simps) simp
    then show ?thesis using 1 False by auto
  qed
qed

lemma concat_runs [simp]: "concat (runs f xs) = xs"
  by (induction f xs rule: runs.induct) simp_all

lemma run_key: "r \<in> set (runs f xs) \<Longrightarrow> r \<noteq> [] \<and> (\<forall>y \<in> set r. f y = f (hd r))"
proof (induction f xs rule: runs.induct)
  case (2 f x xs)
  from "2.prems" consider "r = x # takeWhile (\<lambda>y. f y = f x) xs" | "r \<in> set (runs f (dropWhile (\<lambda>y. f y = f x) xs))" by auto
  then show ?case
  proof cases
    case 1
    then show ?thesis using set_takeWhileD by fastforce
  next
    case 2
    then show ?thesis by (rule "2.IH")
  qed
qed simp

lemma dropWhile_sorted:
  fixes f :: "'a \<Rightarrow> 'k :: linorder"
  assumes "sorted (map f (x # xs))"
  shows "dropWhile (\<lambda>y. f y = f x) xs = filter (\<lambda>y. f y \<noteq> f x) xs \<and>
    takeWhile (\<lambda>y. f y = f x) xs = filter (\<lambda>y. f y = f x) xs"
  using assms
proof (induction xs)
  case (Cons y ys)
  show ?case
  proof (cases "f y = f x")
    case True
    then show ?thesis using Cons by auto
  next
    case False
    then have "\<forall>z \<in> set ys. f z \<noteq> f x" using Cons.prems by fastforce
    then show ?thesis using False by (simp add: filter_empty_conv)
  qed
qed simp

text \<open>Of a sorted list, the runs are the filters of the keys, in order.\<close>

lemma runs_sorted:
  fixes f :: "'a \<Rightarrow> 'k :: linorder"
  assumes "sorted (map f xs)"
  shows "runs f xs = map (\<lambda>k. filter (\<lambda>y. f y = k) xs) (map (\<lambda>r. f (hd r)) (runs f xs)) \<and>
    sorted_wrt (<) (map (\<lambda>r. f (hd r)) (runs f xs)) \<and> set (map (\<lambda>r. f (hd r)) (runs f xs)) = f ` set xs"
  using assms
proof (induction f xs rule: runs.induct)
  case (2 f x xs)
  let ?rest = "dropWhile (\<lambda>y. f y = f x) xs" and ?keys = "\<lambda>xs. map (\<lambda>r. f (hd r)) (runs f xs)"
  have d: "?rest = filter (\<lambda>y. f y \<noteq> f x) xs" "takeWhile (\<lambda>y. f y = f x) xs = filter (\<lambda>y. f y = f x) xs"
    using dropWhile_sorted [OF 2(2)] by auto
  have "sorted (map f ?rest)" using 2(2) by (simp add: d sorted_filter)
  note IH = 2(1) [OF this]
  have new: "f x < k" if "k \<in> f ` set ?rest" for k using that 2(2) by (auto simp: d order.strict_iff_order)
  have same: "filter (\<lambda>y. f y = k) ?rest = filter (\<lambda>y. f y = k) (x # xs)" if "k \<in> f ` set ?rest" for k
    using new [OF that] by (auto simp: d intro!: filter_cong)
  have keys: "?keys (x # xs) = f x # ?keys ?rest" by simp
  have ks: "set (?keys ?rest) = f ` set ?rest" "sorted_wrt (<) (?keys ?rest)" using IH by blast+
  have "runs f ?rest = map (\<lambda>k. filter (\<lambda>y. f y = k) ?rest) (?keys ?rest)" using IH by blast
  also have "\<dots> = map (\<lambda>k. filter (\<lambda>y. f y = k) (x # xs)) (?keys ?rest)"
    by (rule map_cong [OF refl], rule same) (simp only: ks(1))
  finally have "runs f ?rest = map (\<lambda>k. filter (\<lambda>y. f y = k) (x # xs)) (?keys ?rest)" .
  then have 1: "runs f (x # xs) = map (\<lambda>k. filter (\<lambda>y. f y = k) (x # xs)) (?keys (x # xs))"
    unfolding keys using d(2) by simp
  have "insert (f x) (f ` set ?rest) = f ` set (x # xs)" unfolding d(1) by auto
  then have "sorted_wrt (<) (?keys (x # xs))" "set (?keys (x # xs)) = f ` set (x # xs)"
    unfolding keys sorted_wrt.simps list.set ks(1) using new ks(2) by auto
  with 1 show ?case by blast
qed simp

lemma member_count:
  "distinct (concat xss) \<Longrightarrow> length (filter (\<lambda>xs. q \<in> set xs) xss) = (if q \<in> set (concat xss) then 1 else 0)"
  by (induction xss) (auto simp: filter_empty_conv)

section \<open>Port lists\<close>

lemma format_runs_ok:
  assumes "sorted_wrt (<) (start # previous # ps) \<or> start = previous \<and> sorted_wrt (<) (previous # ps)"
    "1 \<le> start" "\<forall>p \<in> set (previous # ps). p \<le> 65535"
  shows "separated (format_runs start previous ps) \<and> rset (format_runs start previous ps) = {start..previous} \<union> set ps \<and>
    (\<forall>r \<in> set (format_runs start previous ps). start \<le> fst r)"
  using assms
proof (induction start previous ps rule: format_runs.induct)
  case (1 start previous)
  then show ?case by (auto simp: separated_Cons)
next
  case (2 start previous port ports)
  have le: "start \<le> previous" "previous < port" "\<forall>p \<in> set ports. port < p" using 2(3) by auto
  show ?case
  proof (cases "port = previous + 1")
    case True
    then have "{start..previous} \<union> set (port # ports) = {start..port} \<union> set ports" using le by auto
    moreover have "sorted_wrt (<) (start # port # ports)" using 2(3) le by auto
    ultimately show ?thesis using 2(1) [OF True] 2(4,5) True by simp
  next
    case False
    have "separated (format_runs port port ports) \<and> rset (format_runs port port ports) = {port..port} \<union> set ports \<and>
        (\<forall>r \<in> set (format_runs port port ports). port \<le> fst r)"
      using 2(3-5) le by (intro 2(2) [OF False]) auto
    moreover have "previous + 1 < fst r" if "port \<le> fst r" for r :: port_range using that False le by auto
    ultimately show ?thesis using False le 2(4,5) by (fastforce simp: separated_Cons)
  qed
qed

lemma format_runs_not_Nil [simp]: "format_runs start previous ps \<noteq> []"
  by (induction start previous ps rule: format_runs.induct) simp_all

text \<open>What a parsed expression looks like, and so every slice of it.\<close>

definition port_list :: "int list \<Rightarrow> bool" where
  "port_list ports = (sorted_wrt (<) ports \<and> (\<forall>p \<in> set ports. 1 \<le> p \<and> p \<le> 65535))"

lemma port_list_append: "port_list (ps @ qs) \<Longrightarrow> port_list ps \<and> port_list qs"
  by (auto simp: port_list_def sorted_wrt_append)

lemma port_list_distinct: "port_list ports \<Longrightarrow> distinct ports"
  by (auto simp: port_list_def strict_sorted_iff)

lemma ParsePorts_port_list: "ParsePorts raw = Inr ports \<Longrightarrow> port_list ports \<and> ports \<noteq> []"
proof -
  assume "ParsePorts raw = Inr ports"
  then obtain rs where rs: "separated rs" "rs \<noteq> []" "ports = expand rs" using canonical_show by blast
  have "set ports = rset rs" by (simp add: rs(3) set_expand)
  moreover have "\<forall>p \<in> rset rs. 1 \<le> p \<and> p \<le> 65535" using rs(1) rset_bounds by (auto simp: separated_def)
  moreover have "rset rs \<noteq> {}" using rs(1,2) by (cases rs; cases "hd rs") (auto simp: separated_Cons)
  moreover have "sorted_wrt (<) ports" by (simp add: rs(3) expand_def strict_sorted_iff)
  ultimately show ?thesis by (auto simp: port_list_def)
qed

lemma ParsePorts_formatPorts:
  assumes "port_list ports" "ports \<noteq> []"
  shows "ParsePorts (formatPorts ports) = Inr ports"
proof -
  obtain p ps where p: "ports = p # ps" using assms(2) by (cases ports) auto
  let ?rs = "format_runs p p ps"
  have ok: "separated ?rs \<and> rset ?rs = set ports" using format_runs_ok [of p p ps] assms(1) by (auto simp: p port_list_def)
  then have "expand ?rs = ports"
    using sorted_distinct_set_unique [of "expand ?rs" ports] set_expand [of ?rs] assms(1)
    by (simp add: expand_def port_list_def strict_sorted_iff)
  moreover have "formatPorts ports = show_ranges ?rs" by (simp add: formatPorts_def p show_ranges_def)
  ultimately show ?thesis using ParsePorts_show [of ?rs] ok by simp
qed

lemma chunk_port_list: "port_list ports \<Longrightarrow> c \<in> set (chunks n ports) \<Longrightarrow> port_list c"
proof (induction n ports rule: chunks.induct)
  case (1 n xs)
  show ?case
  proof (cases "xs = [] \<or> n = 0")
    case True
    then show ?thesis using 1(3) by (simp add: chunks.simps)
  next
    case False
    then have "chunks n xs = take n xs # chunks n (drop n xs)" by (subst chunks.simps) simp
    then show ?thesis using 1 False port_list_append [of "take n xs" "drop n xs"] by auto
  qed
qed

section \<open>Pinned addresses\<close>

definition target_addresses :: "pinned_target list \<Rightarrow> string list" where
  "target_addresses targets = concat (map rt_addresses targets)"

definition pins_of :: "nat \<times> pinned_target \<Rightarrow> pinned_address list" where
  "pins_of it = map (\<lambda>(position, address). \<lparr>pa_address = address, pa_target = fst it, pa_position = position\<rparr>)
     (enumerated (rt_addresses (snd it)))"

lemma pinAddresses_eq: "pinAddresses ts = sort_key pin_order (concat (map pins_of (enumerated ts)))"
  by (simp add: pinAddresses_def pins_of_def [abs_def] case_prod_unfold)

lemma snd_enumerated [simp]: "map snd (enumerated xs) = xs"
  by (simp add: enumerated_def)

lemma map_enumerated: "map (\<lambda>x. f (snd x)) (enumerated xs) = map f xs"
proof -
  have "map (\<lambda>x. f (snd x)) (enumerated xs) = map f (map snd (enumerated xs))" by (simp only: map_map comp_def)
  then show ?thesis by simp
qed

lemma pins_address [simp]: "map pa_address (pins_of it) = rt_addresses (snd it)"
  by (simp add: pins_of_def case_prod_unfold comp_def)

lemma pinned_addresses: "pa_address ` set (pinAddresses ts) = set (target_addresses ts)"
proof -
  have "map pa_address (concat (map pins_of (enumerated ts))) = target_addresses ts"
    by (simp add: map_concat target_addresses_def comp_def map_enumerated)
  moreover have "set (pinAddresses ts) = set (concat (map pins_of (enumerated ts)))" by (simp only: pinAddresses_eq set_sort)
  ultimately show ?thesis by (metis set_map)
qed

lemma sorted_mono: "sorted (map f xs) \<Longrightarrow> (\<And>x y. f x \<le> f y \<Longrightarrow> g x \<le> g y) \<Longrightarrow> sorted (map g xs)"
  by (induction xs) auto

lemma pinned_sorted: "sorted (map pa_address (pinAddresses ts))"
proof (rule sorted_mono)
  show "sorted (map pin_order (pinAddresses ts))" by (simp add: pinAddresses_def)
  show "pa_address x \<le> pa_address y" if "pin_order x \<le> pin_order y" for x y :: pinned_address
    using that by (auto simp: pin_order_def less_eq_prod_def)
qed

text \<open>The distinct addresses of one family, in order.\<close>

definition family_addresses :: "int \<Rightarrow> pinned_target list \<Rightarrow> string list" where
  "family_addresses family ts =
     filter (\<lambda>a. (\<not> is4 a) = (family = 6)) (map (\<lambda>r. pa_address (hd r)) (runs pa_address (pinAddresses ts)))"

lemma group_family: "group_addresses (pinned_family family (pinAddresses ts)) = family_addresses family ts"
  by (simp add: group_addresses_def pinned_family_def family_addresses_def filter_map comp_def)

lemma family_addresses_ok:
  "sorted_wrt (<) (family_addresses family ts)"
  "set (family_addresses family ts) = {a \<in> set (target_addresses ts). (\<not> is4 a) = (family = 6)}"
proof -
  note r = runs_sorted [OF pinned_sorted [of ts], THEN conjunct2]
  show "sorted_wrt (<) (family_addresses family ts)"
    unfolding family_addresses_def using r by (blast intro: sorted_wrt_filter)
  show "set (family_addresses family ts) = {a \<in> set (target_addresses ts). (\<not> is4 a) = (family = 6)}"
    unfolding family_addresses_def set_filter using r pinned_addresses [of ts] by blast
qed

lemma chunks_map: "chunks n (map f xs) = map (map f) (chunks n xs)"
proof (induction n xs rule: chunks.induct)
  case (1 n xs)
  show ?case
  proof (cases "xs = [] \<or> n = 0")
    case True
    then show ?thesis by (auto simp: chunks.simps)
  next
    case False
    then show ?thesis using 1 by (subst (1 2) chunks.simps) (simp add: take_map drop_map)
  qed
qed

section \<open>The targets of a batch\<close>

lemma runs_blocks:
  assumes "\<forall>b \<in> set bs. b \<noteq> [] \<and> (\<forall>y \<in> set b. f y = f (hd b))" "distinct (map (\<lambda>b. f (hd b)) bs)"
  shows "runs f (concat bs) = bs"
  using assms
proof (induction bs)
  case (Cons b bs)
  obtain x xs where b: "b = x # xs" using Cons.prems(1) by (cases b) auto
  have "\<forall>y \<in> set b. f y = f (hd b)" using Cons.prems(1) by (meson list.set_intros(1))
  then have same: "\<forall>y \<in> set xs. f y = f x" unfolding b list.sel by (meson list.set_intros(2))
  have other: "concat bs = [] \<or> f (hd (concat bs)) \<noteq> f x"
  proof (cases bs)
    case (Cons c cs)
    then have "c \<in> set (b # bs)" by simp
    then have "c \<noteq> []" using Cons.prems(1) by blast
    then obtain y ys where "c = y # ys" by (cases c) auto
    then show ?thesis using Cons.prems(2) by (auto simp: b Cons)
  qed simp
  have tw: "takeWhile (\<lambda>y. f y = f x) (xs @ ys) = xs \<and> dropWhile (\<lambda>y. f y = f x) (xs @ ys) = ys"
    if "ys = [] \<or> f (hd ys) \<noteq> f x" for ys
    using same that by (induction xs; cases ys) auto
  have "\<forall>b \<in> set bs. b \<noteq> [] \<and> (\<forall>y \<in> set b. f y = f (hd b))" 
    by (rule ballI, rule bspec [OF Cons.prems(1)], rule list.set_intros(2))
  moreover have "distinct (map (\<lambda>b. f (hd b)) bs)" using Cons.prems(2) by simp
  ultimately have "runs f (concat bs) = bs" by (rule Cons.IH)
  then show ?case by (simp only: concat.simps b append_Cons runs.simps conjunct1 [OF tw [OF other]] conjunct2 [OF tw [OF other]])
qed simp

text \<open>What a plan means by the targets of a batch: each target with the addresses of the batch.\<close>

definition cut_target :: "string set \<Rightarrow> resolved_target \<Rightarrow> resolved_target" where
  "cut_target A t = t\<lparr>rt_addresses := filter (\<lambda>a. a \<in> A) (rt_addresses t)\<rparr>"

definition cut_targets :: "string set \<Rightarrow> resolved_target list \<Rightarrow> resolved_target list" where
  "cut_targets A ts = filter (\<lambda>t. rt_addresses t \<noteq> []) (map (cut_target A) ts)"

lemma truncate_fields [simp]:
  "rt_addresses (resolved_target.truncate t) = rt_addresses t" "rt_name (resolved_target.truncate t) = rt_name t"
  "resolved_target.truncate (t\<lparr>rt_network := x\<rparr>) = resolved_target.truncate t"
  "resolved_target.truncate (t\<lparr>rt_addresses := as\<rparr>) = (resolved_target.truncate t)\<lparr>rt_addresses := as\<rparr>"
  for t :: pinned_target
  by (simp_all add: resolved_target.truncate_def)

lemma subset_cut: "shareResolvedTargets (subsetResolvedTargets ts as) = cut_targets (set as) (shareResolvedTargets ts)"
  by (simp add: shareResolvedTargets_def subsetResolvedTargets_def cut_targets_def cut_target_def comp_def filter_map)

lemma enumerated_snoc: "enumerated (xs @ [x]) = enumerated xs @ [(length xs, x)]"
  by (simp add: enumerated_def)

lemma fst_enumerated [simp]: "map fst (enumerated xs) = [0 ..< length xs]"
  by (simp add: enumerated_def)

lemma enumerated_nth: "it \<in> set (enumerated xs) \<Longrightarrow> fst it < length xs \<and> snd it = xs ! fst it"
  by (auto simp: enumerated_def in_set_zip)

lemma pins_target: "q \<in> set (pins_of it) \<Longrightarrow> pa_target q = fst it"
  by (auto simp: pins_of_def)

lemma pins_sorted: "sorted_wrt (<) (map target_order (concat (map pins_of (enumerated ts))))"
proof (induction ts rule: rev_induct)
  case (snoc t ts)
  have "map target_order (pins_of (n, t)) = map (Pair n) [0 ..< length (rt_addresses t)]" for n
    by (simp add: pins_of_def target_order_def enumerated_def case_prod_unfold comp_def flip: map_map [of "Pair n" fst, unfolded comp_def])
  then have block: "sorted_wrt (<) (map target_order (pins_of (n, t)))" for n
    by (simp only:) (simp add: sorted_wrt_map less_prod_def sorted_wrt_upt)
  have "pa_target q < length ts" if "q \<in> set (concat (map pins_of (enumerated ts)))" for q
    using that pins_target enumerated_nth by fastforce
  moreover have "pa_target q = length ts" if "q \<in> set (pins_of (length ts, t))" for q using pins_target that by fastforce
  ultimately have "target_order q < target_order r"
    if "q \<in> set (concat (map pins_of (enumerated ts)))" "r \<in> set (pins_of (length ts, t))" for q r
    using that by (auto simp: target_order_def less_prod_def)
  then have "sorted_wrt (<) (map target_order (concat (map pins_of (enumerated ts))) @ map target_order (pins_of (length ts, t)))"
    using snoc block unfolding sorted_wrt_append by auto
  then show ?case by (simp add: enumerated_snoc)
qed (simp add: enumerated_def)

lemma sort_key_unique:
  fixes f :: "'a \<Rightarrow> 'k :: linorder"
  assumes "set xs = set ys" "distinct xs" "sorted_wrt (<) (map f ys)"
  shows "sort_key f xs = ys"
proof -
  have d: "distinct ys" "inj_on f (set ys)" "sorted (map f ys)"
    using assms(3) by (auto simp: strict_sorted_iff distinct_map)
  then have "mset xs = mset ys" using assms(1,2) set_eq_iff_mset_eq_distinct by blast
  then have "sort_key f xs = sort_key f ys" by (rule sort_key_perm) (simp add: assms(1) d(2))
  then show ?thesis using d(3) by (simp add: sort_key_id_if_sorted)
qed

lemma concat_nonempty: "concat (filter (\<lambda>b. b \<noteq> []) bs) = concat bs"
  by (induction bs) auto

lemma group_contents:
  assumes "set gs \<subseteq> set (runs pa_address (pinAddresses ts))" "distinct gs"
  shows "distinct (concat gs)"
    and "set (concat gs) = {q \<in> set (pinAddresses ts). pa_address q \<in> set (group_addresses gs)}"
proof -
  let ?S = "pinAddresses ts" and ?key = "\<lambda>g. pa_address (hd g)"
  have "distinct (concat (map pins_of (enumerated ts)))"
    using pins_sorted [of ts] by (metis strict_sorted_iff distinct_map)
  then have dS: "distinct ?S" by (simp only: pinAddresses_eq distinct_sort)
  have "runs pa_address ?S = map (\<lambda>k. filter (\<lambda>y. pa_address y = k) ?S) (map ?key (runs pa_address ?S))"
    using runs_sorted [OF pinned_sorted] by blast
  then have "map (\<lambda>g. g) (runs pa_address ?S) = map (\<lambda>g. filter (\<lambda>y. pa_address y = ?key g) ?S) (runs pa_address ?S)"
    by (simp only: list.map_ident map_map comp_def)
  then have "\<forall>g \<in> set (runs pa_address ?S). g = filter (\<lambda>y. pa_address y = ?key g) ?S" by (simp only: map_eq_conv)
  then have g: "g = filter (\<lambda>y. pa_address y = ?key g) ?S" if "g \<in> set gs" for g using that assms(1) by blast
  show "distinct (concat gs)"
  proof (rule distinct_concat [OF assms(2)])
    show "distinct g" if "g \<in> set gs" for g using g [OF that] dS by (metis distinct_filter)
    show "set g \<inter> set h = {}" if "g \<in> set gs" "h \<in> set gs" "g \<noteq> h" for g h
    proof (rule ccontr)
      assume "set g \<inter> set h \<noteq> {}"
      then obtain q where "q \<in> set g" "q \<in> set h" by blast
      then have "?key g = ?key h" using run_key assms(1) that(1,2) by (metis subsetD)
      then show False using g [OF that(1)] g [OF that(2)] that(3) by simp
    qed
  qed
  have "q \<in> set g \<longleftrightarrow> q \<in> set ?S \<and> pa_address q = ?key g" if "g \<in> set gs" for q g
    using arg_cong [OF g [OF that], of set] by auto
  then show "set (concat gs) = {q \<in> set ?S. pa_address q \<in> set (group_addresses gs)}"
    by (auto simp: group_addresses_def)
qed

lemma group_targets_cut:
  assumes "set gs \<subseteq> set (runs pa_address (pinAddresses ts))" "distinct gs"
  shows "group_targets gs (shareResolvedTargets ts) = cut_targets (set (group_addresses gs)) (shareResolvedTargets ts)"
proof -
  let ?A = "set (group_addresses gs)" and ?E = "enumerated ts" and ?P = "concat (map pins_of (enumerated ts))"
  let ?B = "\<lambda>it. filter (\<lambda>q. pa_address q \<in> ?A) (pins_of it)"
  let ?G = "\<lambda>run. (shareResolvedTargets ts ! pa_target (hd run))\<lparr>rt_addresses := map pa_address run\<rparr>"
  let ?C = "\<lambda>it. cut_target ?A (resolved_target.truncate (snd it))"
  have P: "set (pinAddresses ts) = set ?P" by (simp only: pinAddresses_eq set_sort)
  have "sort_key target_order (concat gs) = filter (\<lambda>q. pa_address q \<in> ?A) ?P"
  proof (rule sort_key_unique)
    show "set (concat gs) = set (filter (\<lambda>q. pa_address q \<in> ?A) ?P)" unfolding group_contents(2) [OF assms] P by auto
    show "distinct (concat gs)" by (rule group_contents(1) [OF assms])
    show "sorted_wrt (<) (map target_order (filter (\<lambda>q. pa_address q \<in> ?A) ?P))"
      using pins_sorted [of ts] by (simp add: sorted_wrt_map sorted_wrt_filter)
  qed
  also have "\<dots> = concat (filter (\<lambda>b. b \<noteq> []) (map ?B ?E))" by (simp add: concat_nonempty filter_concat comp_def)
  finally have sorted: "sort_key target_order (concat gs) = concat (filter (\<lambda>b. b \<noteq> []) (map ?B ?E))" .
  have key: "pa_target q = fst it" if "q \<in> set (?B it)" for q it using that pins_target by simp
  have "runs pa_target (concat (filter (\<lambda>b. b \<noteq> []) (map ?B ?E))) = filter (\<lambda>b. b \<noteq> []) (map ?B ?E)"
  proof (rule runs_blocks)
    show "\<forall>b \<in> set (filter (\<lambda>b. b \<noteq> []) (map ?B ?E)). b \<noteq> [] \<and> (\<forall>y \<in> set b. pa_target y = pa_target (hd b))"
    proof (rule ballI, rule conjI)
      fix b assume b: "b \<in> set (filter (\<lambda>b. b \<noteq> []) (map ?B ?E))"
      then show "b \<noteq> []" by simp
      obtain it where "b = ?B it" using b by auto
      then show "\<forall>y \<in> set b. pa_target y = pa_target (hd b)" using key \<open>b \<noteq> []\<close> hd_in_set by metis
    qed
    have "map (\<lambda>b. pa_target (hd b)) (filter (\<lambda>b. b \<noteq> []) (map ?B ?E)) = map fst (filter (\<lambda>it. ?B it \<noteq> []) ?E)"
      unfolding filter_map map_map comp_def
    proof (rule map_cong [OF refl])
      fix it assume "it \<in> set (filter (\<lambda>it. ?B it \<noteq> []) ?E)"
      then have "?B it \<noteq> []" by simp
      then show "pa_target (hd (?B it)) = fst it" using key hd_in_set by blast
    qed
    moreover have "distinct (map fst (filter (\<lambda>it. ?B it \<noteq> []) ?E))" by (rule distinct_map_filter) simp
    ultimately show "distinct (map (\<lambda>b. pa_target (hd b)) (filter (\<lambda>b. b \<noteq> []) (map ?B ?E)))" by (simp only:)
  qed
  then have "group_targets gs (shareResolvedTargets ts) = map ?G (filter (\<lambda>b. b \<noteq> []) (map ?B ?E))"
    unfolding group_targets_def sorted by (simp only:)
  also have "\<dots> = map ?C (filter (\<lambda>it. rt_addresses (?C it) \<noteq> []) ?E)"
  proof -
    have addr: "map pa_address (?B it) = rt_addresses (?C it)" for it
    proof -
      have "map pa_address (?B it) = filter (\<lambda>a. a \<in> ?A) (map pa_address (pins_of it))" by (simp only: filter_map comp_def)
      then show ?thesis by (simp add: cut_target_def)
    qed
    then have ne: "?B it \<noteq> [] \<longleftrightarrow> rt_addresses (?C it) \<noteq> []" for it by (metis map_is_Nil_conv)
    have "?G (?B it) = ?C it" if "it \<in> set ?E" "?B it \<noteq> []" for it
    proof -
      have "pa_target (hd (?B it)) = fst it" using key hd_in_set that(2) by metis
      moreover have "shareResolvedTargets ts ! fst it = resolved_target.truncate (snd it)"
        using enumerated_nth [OF that(1)] by (simp add: shareResolvedTargets_def)
      ultimately show ?thesis using addr [of it] by (simp add: cut_target_def)
    qed
    then show ?thesis by (auto simp: filter_map comp_def ne intro!: map_cong)
  qed
  also have "\<dots> = cut_targets ?A (shareResolvedTargets ts)"
  proof -
    have "map (cut_target ?A) (shareResolvedTargets ts) = map ?C ?E"
      using map_enumerated [of "\<lambda>t. cut_target ?A (resolved_target.truncate t)" ts]
      by (simp add: shareResolvedTargets_def comp_def)
    then show ?thesis by (simp only: cut_targets_def filter_map comp_def)
  qed
  finally show ?thesis .
qed

end
