(* ===== verification/ResolveFacts.thy ===== *)
theory ResolveFacts
  imports TargetFacts PlanFacts
begin

text \<open>
  What a plan may scan: no excluded address, no more addresses than the deployment allows.
\<close>

section \<open>Resolution\<close>

definition allowed :: "ipnet list \<Rightarrow> string \<Rightarrow> bool" where
  "allowed exclusions a = (\<exists>w. a = ipString w \<and> excludedNetwork exclusions (Some w) = [])"

lemma allowed_parse: "allowed exclusions a \<Longrightarrow> excludedNetwork exclusions (parseIP a) = [] \<and> trimSpace a = a \<and>
    normalize_address a = a \<and> a \<noteq> []"
  by (auto simp: allowed_def normalize_address_def)

definition resolved :: "ipnet list \<Rightarrow> int \<Rightarrow> resolution \<Rightarrow> bool" where
  "resolved exclusions limit r \<longleftrightarrow>
     (\<forall>a \<in> set (target_addresses (rs_targets r)). allowed exclusions a) \<and>
     rs_count r = int (length (target_addresses (rs_targets r))) \<and> rs_count r \<le> max 0 limit"

lemma target_addresses_simps [simp]:
  "target_addresses [] = []" "target_addresses (ts @ us) = target_addresses ts @ target_addresses us"
  "target_addresses [literal_target raw a] = [a]" "target_addresses [network_target raw as] = as"
  "target_addresses [host_target raw as] = as" "target_addresses (map (literal_target raw) as) = as"
  by (induction as) (simp_all add: target_addresses_def literal_target_def network_target_def host_target_def)

lemma expand_allowed:
  assumes "expand_network exclusions limit raw net current hosts = Inr (addresses, n)"
  shows "(\<forall>a \<in> set addresses. allowed exclusions a) \<and> n = hosts + int (length addresses) \<and> (addresses = [] \<or> n \<le> limit)"
proof -
  obtain m where run: "addresses = map (\<lambda>i. ipString (ip_of ((incrementIP ^^ i) current))) [0 ..< m]"
    and n: "n = hosts + int m" "0 < m \<longrightarrow> n \<le> limit"
    and clear: "\<forall>i < m. excludedNetwork exclusions (Some (ip_of ((incrementIP ^^ i) current))) = []"
    using expand_run [OF assms] by metis
  have "allowed exclusions a" if a: "a \<in> set addresses" for a
  proof -
    obtain i where "i < m" "a = ipString (ip_of ((incrementIP ^^ i) current))"
      using a unfolding run by auto
    then show ?thesis using clear unfolding allowed_def by blast
  qed
  then show ?thesis using n by (auto simp: run)
qed

lemma answers_allowed:
  "answers exclusions raw ips as = Inr bs \<Longrightarrow> \<forall>a \<in> set as. allowed exclusions a \<Longrightarrow> \<forall>a \<in> set bs. allowed exclusions a"
proof (induction ips arbitrary: as)
  case (Cons ip ips)
  show ?case
  proof (cases ip)
    case None
    then show ?thesis using Cons by simp
  next
    case (Some w)
    then have clear: "excludedNetwork exclusions (Some w) = []" using Cons.prems(1) by (simp split: if_splits)
    then have w: "allowed exclusions (ipString w)" unfolding allowed_def by blast
    let ?as = "if ipString w \<in> set as then as else as @ [ipString w]"
    have "answers exclusions raw ips ?as = Inr bs" using Cons.prems(1) Some clear by simp
    moreover have "\<forall>a \<in> set ?as. allowed exclusions a" using w Cons.prems(2) by simp
    ultimately show ?thesis by (rule Cons.IH)
  qed
qed simp

lemma resolve_name_ok:
  assumes "resolved exclusions limit r" "resolve_name exclusions lookup limit raw r = Inr r'"
  shows "resolved exclusions limit r'"
proof -
  obtain ips failed where l: "lookup raw = (ips, failed)" by (cases "lookup raw")
  let ?r = "if failed then r\<lparr>rs_failures := rs_failures r @ [\<lparr>fl_target = toLower raw, fl_reason = ''lookup-failed''\<rparr>]\<rparr> else r"
  have r: "resolved exclusions limit ?r" using assms(1) by (simp add: resolved_def)
  show ?thesis
  proof (cases "failed \<and> ips = []")
    case True
    then show ?thesis using assms(2) r l by (simp add: resolve_name_def)
  next
    case False
    then obtain as where as: "answers exclusions raw ips [] = Inr as"
      using assms(2) l by (auto simp: resolve_name_def Let_def split: sum.splits)
    have ok: "\<forall>a \<in> set as. allowed exclusions a" using answers_allowed [OF as] by simp
    show ?thesis
    proof (cases "as = []")
      case True
      then show ?thesis using assms(2) r l False as by (auto simp: resolve_name_def Let_def resolved_def split: if_splits)
    next
      case ne: False
      then have lim: "rs_count ?r + int (length as) \<le> limit"
        and r': "r' = ?r\<lparr>rs_targets := rs_targets ?r @ [host_target raw (sort as)], rs_count := rs_count ?r + int (length as)\<rparr>"
        using assms(2) l False as by (auto simp: resolve_name_def Let_def split: if_splits)
      show ?thesis using r ok lim unfolding r' resolved_def by auto
    qed
  qed
qed

lemma resolve_target_ok:
  assumes "resolved exclusions limit r" "resolve_target exclusions lookup limit groupNetworks input r = Inr r'"
  shows "resolved exclusions limit r'"
proof (cases "parseIP (CanonicalTarget input)")
  case (Some ip)
  then have "excludedNetwork exclusions (Some ip) = []" "rs_count r + 1 \<le> limit"
    "r' = r\<lparr>rs_targets := rs_targets r @ [literal_target (CanonicalTarget input) (ipString ip)], rs_count := rs_count r + 1\<rparr>"
    using assms(2) by (auto simp: resolve_target_def Let_def split: if_splits)
  then show ?thesis using assms(1) by (auto simp: resolved_def allowed_def)
next
  case none: None
  show ?thesis
  proof (cases "parseCIDR (CanonicalTarget input)")
    case None
    then show ?thesis using assms none resolve_name_ok by (auto simp: resolve_target_def Let_def)
  next
    case (Some net)
    obtain addresses n where e: "expand_network exclusions limit (CanonicalTarget input) net (nw_addr net) (rs_count r) = Inr (addresses, n)"
      and r': "r' = r\<lparr>rs_targets := rs_targets r @ (if groupNetworks then [network_target (CanonicalTarget input) addresses]
        else map (literal_target (CanonicalTarget input)) addresses), rs_count := n\<rparr>"
      using assms(2) none Some by (auto simp: resolve_target_def Let_def split: sum.splits)
    show ?thesis using assms(1) expand_allowed [OF e] unfolding r' resolved_def by (auto split: if_splits)
  qed
qed

lemma resolve_all_ok:
  "resolved exclusions limit r \<Longrightarrow> resolve_all exclusions lookup limit groupNetworks inputs r = Inr r' \<Longrightarrow>
    resolved exclusions limit r'"
proof (induction inputs arbitrary: r)
  case (Cons input inputs)
  obtain r1 where "resolve_target exclusions lookup limit groupNetworks input r = Inr r1"
    "resolve_all exclusions lookup limit groupNetworks inputs r1 = Inr r'"
    using Cons.prems(2) by (simp split: sum.splits)
  then show ?case using Cons.IH [OF resolve_target_ok [OF Cons.prems(1)]] by blast
qed simp

lemma resolveTargets_ok:
  assumes "resolveTargets exclusions lookup maxJobHosts j groupNetworks = Inr (targets, failures)"
  shows "(\<forall>a \<in> set (target_addresses targets). allowed exclusions a) \<and>
    int (length (target_addresses targets)) \<le> max 0 (host_limit maxJobHosts j)"
proof -
  let ?r0 = "\<lparr>rs_targets = [], rs_failures = [], rs_count = 0\<rparr>"
  obtain r where r: "resolve_all exclusions lookup (host_limit maxJobHosts j) groupNetworks (wj_targets j) ?r0 = Inr r" "targets = rs_targets r"
    using assms by (auto simp: resolveTargets_def split: sum.splits if_splits list.splits)
  have "resolved exclusions (host_limit maxJobHosts j) ?r0" by (simp add: resolved_def)
  from resolve_all_ok [OF this r(1)] show ?thesis by (simp add: resolved_def r(2))
qed

end
