(* ===== verification/PlanUnits.thy ===== *)
theory PlanUnits
  imports ResolveFacts
begin

text \<open>
  The units of a plan: which address and port each one probes, how they are numbered, how large
  they are, and that none of them has an excluded address.
\<close>

section \<open>Numbering\<close>

definition number_units :: "nat \<Rightarrow> work_unit list \<Rightarrow> work_unit list" where
  "number_units n us = map (\<lambda>(i, u). u\<lparr>wu_sequence := int (n + i)\<rparr>) (enumerated us)"

lemma number_units_Nil [simp]: "number_units n [] = []"
  by (simp add: number_units_def enumerated_def)

lemma number_units_snoc: "number_units n (us @ [u]) = number_units n us @ [u\<lparr>wu_sequence := int (n + length us)\<rparr>]"
  by (simp add: number_units_def enumerated_snoc)

lemma length_number_units [simp]: "length (number_units n us) = length us"
  by (simp add: number_units_def enumerated_def)

lemma number_units_append: "number_units n (us @ vs) = number_units n us @ number_units (n + length us) vs"
proof (induction vs rule: rev_induct)
  case (snoc v vs)
  then show ?case by (simp add: number_units_snoc flip: append_assoc)
qed simp

lemma number_units_map:
  assumes "\<And>u s. f (u\<lparr>wu_sequence := s\<rparr>) = f u"
  shows "map f (number_units n us) = map f us"
proof (induction us rule: rev_induct)
  case (snoc u us)
  then show ?case by (simp add: number_units_snoc assms)
qed simp

lemma number_units_count:
  assumes "\<And>u s. P (u\<lparr>wu_sequence := s\<rparr>) = P u"
  shows "length (filter P (number_units n us)) = length (filter P us)"
proof -
  have "length (filter P vs) = length (filter (\<lambda>b. b) (map P vs))" for vs by (simp add: filter_map comp_def)
  then show ?thesis using number_units_map [of P n us] assms by metis
qed

lemma number_units_ball:
  assumes "\<And>u s. P (u\<lparr>wu_sequence := s\<rparr>) = P u"
  shows "(\<forall>u \<in> set (number_units n us). P u) = (\<forall>u \<in> set us. P u)"
proof (induction us rule: rev_induct)
  case (snoc u us)
  then show ?case by (simp add: number_units_snoc assms)
qed simp

lemma number_units_nth: "i < length us \<Longrightarrow> wu_sequence (number_units n us ! i) = int (n + i)"
  by (simp add: number_units_def enumerated_def)

lemma wrap64_add: "wrap64 (wrap64 x + y) = wrap64 (x + y)"
  by (simp add: wrap64_def mod_simps algebra_simps)

lemma add_plan_unit_fields [simp]:
  "wp_units (add_plan_unit u p) = wp_units p @ [u\<lparr>wu_sequence := int (length (wp_units p))\<rparr>]"
  "wp_total_probes (add_plan_unit u p) = wrap64 (wp_total_probes p + wu_probes u)"
  "wp_targets (add_plan_unit u p) = wp_targets p" "wp_job (add_plan_unit u p) = wp_job p"
  by (simp_all add: add_plan_unit_def)

lemma fold_add_units:
  "wp_units (fold add_plan_unit us plan) = wp_units plan @ number_units (length (wp_units plan)) us \<and>
   wrap64 (wp_total_probes (fold add_plan_unit us plan)) = wrap64 (wp_total_probes plan + sum_list (map wu_probes us)) \<and>
   wp_targets (fold add_plan_unit us plan) = wp_targets plan \<and>
   (wrap64 (wp_total_probes plan) = wp_total_probes plan \<longrightarrow>
     wrap64 (wp_total_probes (fold add_plan_unit us plan)) = wp_total_probes (fold add_plan_unit us plan))"
proof (induction us rule: rev_induct)
  case (snoc u us)
  let ?p = "fold add_plan_unit us plan"
  have "wrap64 (wp_total_probes ?p + wu_probes u) = wrap64 (wrap64 (wp_total_probes ?p) + wu_probes u)" by (simp only: wrap64_add)
  also have "\<dots> = wrap64 (wrap64 (wp_total_probes plan + sum_list (map wu_probes us)) + wu_probes u)" using snoc by simp
  also have "\<dots> = wrap64 (wp_total_probes plan + sum_list (map wu_probes us) + wu_probes u)" by (simp only: wrap64_add)
  finally have probes: "wrap64 (wp_total_probes ?p + wu_probes u) = wrap64 (wp_total_probes plan + sum_list (map wu_probes us) + wu_probes u)" .
  have idem: "wrap64 (wrap64 x) = wrap64 x" for x using wrap64_add [of x 0] by simp
  from snoc probes show ?case by (simp add: number_units_snoc idem add.assoc)
qed simp

section \<open>What a unit probes\<close>

definition unit_ports :: "work_unit \<Rightarrow> int list" where
  "unit_ports u = (case ParsePorts (wu_ports u) of Inl _ \<Rightarrow> [] | Inr ps \<Rightarrow> ps)"

definition unit_covers :: "string \<Rightarrow> string \<Rightarrow> int \<Rightarrow> work_unit \<Rightarrow> bool" where
  "unit_covers p a q u = (wu_protocol u = p \<and> a \<in> set (wu_addresses u) \<and> q \<in> set (unit_ports u))"

definition expression_ports :: "string \<Rightarrow> int list" where
  "expression_ports e = (case ParsePorts e of Inl _ \<Rightarrow> [] | Inr ps \<Rightarrow> ps)"

definition planned_ports :: "scan_job \<Rightarrow> string \<Rightarrow> int list" where
  "planned_ports j p =
     (if p = ''tcp'' then (if is_naabu j then [1..65535] else expression_ports (sp_ports (valueProtocol (wj_tcp j))))
      else if p = ''udp'' \<and> \<not> is_naabu j then expression_ports (sp_ports (valueProtocol (wj_udp j)))
      else [])"

definition plan_addresses :: "work_plan \<Rightarrow> string set" where
  "plan_addresses plan = set (concat (map rt_addresses (wp_targets plan)))"

lemma count_concat: "length (filter P (concat (map f xs))) = sum_list (map (\<lambda>x. length (filter P (f x))) xs)"
  by (induction xs) simp_all

lemma count_sum: "sum_list (map (\<lambda>x. if Q x then 1 else 0) xs) = length (filter Q xs)"
  by (induction xs) simp_all

lemma perChunk_pos: "1 \<le> perChunk hosts factor"
  by (simp add: perChunk_def Let_def)

lemma batch_chunk:
  assumes "port_list ports" "u \<in> set (batch_units p item ports fam pts gs)"
  obtains c where "c \<in> set (chunks (nat (perChunk (int (length gs)) (probe_factor item))) ports)"
    "port_list c" "c \<noteq> []" "unit_ports u = c" "wu_port_count u = int (length c)" "wu_protocol u = p"
    "wu_addresses u = group_addresses gs" "wu_targets u = group_targets gs pts"
    "wu_probes u = int (length gs) * int (length c) * probe_factor item"
proof -
  obtain c where c: "c \<in> set (chunks (nat (perChunk (int (length gs)) (probe_factor item))) ports)"
    and u: "u = \<lparr>wu_sequence = 0, wu_engine = [], wu_phase = [], wu_protocol = p, wu_family = fam,
          wu_targets = group_targets gs pts, wu_addresses = group_addresses gs, wu_ports = formatPorts c,
          wu_port_count = int (length c), wu_probes = int (length gs) * int (length c) * probe_factor item\<rparr>"
    using assms(2) by (auto simp: batch_units_def Let_def group_addresses_def)
  have "port_list c" "c \<noteq> []" using chunk_port_list [OF assms(1) c] chunk_size [OF c] by auto
  with c show thesis by (rule that) (simp_all add: u unit_ports_def ParsePorts_formatPorts \<open>port_list c\<close> \<open>c \<noteq> []\<close>)
qed

lemma batch_count:
  assumes "port_list ports"
  shows "length (filter (unit_covers p a q) (batch_units p item ports fam pts gs)) =
    (if a \<in> set (group_addresses gs) \<and> q \<in> set ports then 1 else 0)"
proof -
  let ?n = "nat (perChunk (int (length (group_addresses gs))) (probe_factor item))"
  let ?unit = "\<lambda>chunk. \<lparr>wu_sequence = 0, wu_engine = [], wu_phase = [], wu_protocol = p, wu_family = fam,
          wu_targets = group_targets gs pts, wu_addresses = group_addresses gs, wu_ports = formatPorts chunk,
          wu_port_count = int (length chunk),
          wu_probes = int (length (group_addresses gs)) * int (length chunk) * probe_factor item\<rparr>"
  have pos: "0 < ?n" using perChunk_pos [of "int (length (group_addresses gs))" "probe_factor item"] by linarith
  have "unit_covers p a q (?unit c) = (a \<in> set (group_addresses gs) \<and> q \<in> set c)" if "c \<in> set (chunks ?n ports)" for c
    using chunk_port_list [OF assms that] chunk_size [OF that]
    by (simp add: unit_covers_def unit_ports_def ParsePorts_formatPorts)
  then have "length (filter (unit_covers p a q) (batch_units p item ports fam pts gs)) =
      length (filter (\<lambda>c. a \<in> set (group_addresses gs) \<and> q \<in> set c) (chunks ?n ports))"
    by (simp add: batch_units_def Let_def filter_map comp_def cong: filter_cong)
  also have "\<dots> = (if a \<in> set (group_addresses gs) \<and> q \<in> set ports then 1 else 0)"
  proof -
    have "distinct (concat (chunks ?n ports))" by (simp only: concat_chunks [OF pos] port_list_distinct [OF assms])
    note member_count [OF this, of q, unfolded concat_chunks [OF pos]]
    then show ?thesis by (cases "a \<in> set (group_addresses gs)") simp_all
  qed
  finally show ?thesis .
qed

lemma invocation_limit_pos: "1 \<le> nmapInvocationAddressLimit template n"
  by (simp add: nmapInvocationAddressLimit_def NmapAddressBatchLimit_def nmapBatchSize_def Let_def)

lemma item_count:
  assumes "port_list ports"
  shows "length (filter (unit_covers p a q) (item_units p item ports ts pts)) =
    (if a \<in> set (target_addresses ts) \<and> q \<in> set ports then 1 else 0)"
proof -
  let ?n = "nat (nmapInvocationAddressLimit (sp_nmap_args item) (int (length ports)))"
  let ?units = "\<lambda>fam. concat (map (batch_units p item ports fam pts) (chunks ?n (pinned_family fam (pinAddresses ts))))"
  have pos: "0 < ?n" using invocation_limit_pos [of "sp_nmap_args item" "int (length ports)"] by linarith
  have fam: "length (filter (unit_covers p a q) (?units fam)) = (if a \<in> set (family_addresses fam ts) \<and> q \<in> set ports then 1 else 0)" for fam
  proof -
    have chunked: "map group_addresses (chunks ?n (pinned_family fam (pinAddresses ts))) = chunks ?n (family_addresses fam ts)"
      by (simp add: group_addresses_def [abs_def] chunks_map flip: group_family)
    have d: "distinct (concat (chunks ?n (family_addresses fam ts)))"
      using family_addresses_ok(1) [of fam ts] pos by (simp add: strict_sorted_iff)
    have "length (filter (unit_covers p a q) (?units fam)) =
        sum_list (map (\<lambda>as. if a \<in> set as \<and> q \<in> set ports then 1 else 0) (map group_addresses (chunks ?n (pinned_family fam (pinAddresses ts)))))"
      by (simp add: count_concat batch_count [OF assms] comp_def)
    also have "\<dots> = (if a \<in> set (family_addresses fam ts) \<and> q \<in> set ports then 1 else 0)"
    proof (cases "q \<in> set ports")
      case True
      then show ?thesis unfolding chunked count_sum using member_count [OF d, of a, unfolded concat_chunks [OF pos]] by simp
    qed (simp add: chunked count_sum)
    finally show ?thesis .
  qed
  have "length (filter (unit_covers p a q) (item_units p item ports ts pts)) =
      length (filter (unit_covers p a q) (?units 4)) + length (filter (unit_covers p a q) (?units 6))"
    by (simp add: item_units_def)
  then show ?thesis unfolding fam family_addresses_ok(2) by auto
qed


section \<open>The units of a plan\<close>

lemma resolved_ok:
  assumes "Plan_scan ex lookup mh j = Inr plan"
  obtains ts fs where "resolveTargets ex lookup mh (NormalizeJob j) (\<not> is_naabu (NormalizeJob j)) = Inr (ts, fs)"
    "if is_naabu (NormalizeJob j) then planNaabuPipeline (NormalizeJob j) ts fs = Inr plan else plan_nmap (NormalizeJob j) ts fs = Inr plan"
    "\<forall>a \<in> set (target_addresses ts). allowed ex a"
    "int (length (target_addresses ts)) \<le> max 0 (host_limit mh (NormalizeJob j))"
proof -
  obtain ts fs where r: "resolveTargets ex lookup mh (NormalizeJob j) (\<not> is_naabu (NormalizeJob j)) = Inr (ts, fs)"
    "if is_naabu (NormalizeJob j) then planNaabuPipeline (NormalizeJob j) ts fs = Inr plan else plan_nmap (NormalizeJob j) ts fs = Inr plan"
    using assms unfolding Plan_scan_def Let_def by (cases "is_naabu (NormalizeJob j)") (simp_all split: sum.splits prod.splits)
  show thesis by (rule that [OF r]) (use resolveTargets_ok [OF r(1)] in blast)+
qed

definition item_plan :: "string \<Rightarrow> protocol_scan \<Rightarrow> pinned_target list \<Rightarrow> work_unit list" where
  "item_plan p item ts = (if sp_ports item = [] then []
     else item_units p item (expression_ports (sp_ports item)) ts (shareResolvedTargets ts))"

lemma plan_item_units:
  assumes "plan_item ts p item plan = Inr plan'" "wp_targets plan = shareResolvedTargets ts"
  shows "wp_units plan' = wp_units plan @ number_units (length (wp_units plan)) (item_plan p item ts)"
    and "wrap64 (wp_total_probes plan') = wrap64 (wp_total_probes plan + sum_list (map wu_probes (item_plan p item ts)))"
    and "wp_targets plan' = shareResolvedTargets ts"
    and "sp_ports item = [] \<or> (\<exists>ps. ParsePorts (sp_ports item) = Inr ps)"
    and "wrap64 (wp_total_probes plan) = wp_total_probes plan \<Longrightarrow> wrap64 (wp_total_probes plan') = wp_total_probes plan'"
  using assms
    fold_add_units [of "item_plan p item ts" "plan\<lparr>wp_scopes := wp_scopes plan @ item_scopes p item ts\<rparr>"]
  by (auto simp: plan_item_def item_plan_def expression_ports_def split: if_splits sum.splits)

definition nmap_units :: "scan_job \<Rightarrow> pinned_target list \<Rightarrow> work_unit list" where
  "nmap_units j ts = item_plan ''tcp'' (valueProtocol (wj_tcp j)) ts @ item_plan ''udp'' (valueProtocol (wj_udp j)) ts"

definition discovery_batch :: "scan_job \<Rightarrow> int" where
  "discovery_batch j = na_batch (applyNaabuDefaults (case sp_naabu (valueProtocol (wj_tcp j)) of None \<Rightarrow> no_naabu_options | Some given \<Rightarrow> given))"

definition scan_units :: "scan_job \<Rightarrow> pinned_target list \<Rightarrow> work_unit list" where
  "scan_units j ts = (if is_naabu j then naabu_units ts (discovery_batch j) (uniqueAddresses ts) else nmap_units j ts)"

lemma plan_nmap_units:
  assumes "plan_nmap j ts fs = Inr plan"
  shows "wp_units plan = number_units 0 (nmap_units j ts)"
    and "wp_total_probes plan = wrap64 (sum_list (map wu_probes (nmap_units j ts)))"
    and "wp_targets plan = shareResolvedTargets ts" and "wp_total_units plan = int (length (wp_units plan))"
proof -
  let ?plan = "\<lparr>wp_job = j, wp_targets = shareResolvedTargets ts, wp_dns = plan_dns ts, wp_scopes = [],
          wp_failures = coverageFailures fs, wp_units = [], wp_total_probes = 0, wp_total_units = 0\<rparr>"
  obtain p1 p2 where p: "plan_item ts ''tcp'' (valueProtocol (wj_tcp j)) ?plan = Inr p1"
    "plan_item ts ''udp'' (valueProtocol (wj_udp j)) p1 = Inr p2" "plan = finish_plan p2"
    using assms by (auto simp: plan_nmap_def Let_def split: sum.splits)
  have "wp_targets ?plan = shareResolvedTargets ts" by simp
  note 1 = plan_item_units [OF p(1) this]
  note 2 = plan_item_units [OF p(2) 1(3)]
  have w: "wrap64 (x + y) = wrap64 (wrap64 x + y)" for x y by (simp only: wrap64_add)
  show "wp_units plan = number_units 0 (nmap_units j ts)" "wp_targets plan = shareResolvedTargets ts"
    "wp_total_units plan = int (length (wp_units plan))"
    by (simp_all add: p(3) finish_plan_def 1(1) 2(1,3) nmap_units_def number_units_append)
  have "wrap64 (wp_total_probes p2) = wrap64 (sum_list (map wu_probes (nmap_units j ts)))"
    by (simp add: 2(2) nmap_units_def w [of "wp_total_probes p1"] 1(2) wrap64_add)
  moreover have "wrap64 0 = 0" by (simp add: wrap64_id max_int64_def)
  then have "wrap64 (wp_total_probes p2) = wp_total_probes p2" using 2(5) [OF 1(5)] by simp
  ultimately show "wp_total_probes plan = wrap64 (sum_list (map wu_probes (nmap_units j ts)))" by (simp add: p(3) finish_plan_def)
qed

lemma plan_nmap_valid:
  assumes "plan_nmap j ts fs = Inr plan"
  shows "\<forall>item \<in> {valueProtocol (wj_tcp j), valueProtocol (wj_udp j)}. sp_ports item = [] \<or> (\<exists>ps. ParsePorts (sp_ports item) = Inr ps)"
  using assms by (auto simp: plan_nmap_def plan_item_def Let_def split: sum.splits if_splits)

lemma plan_naabu_units:
  assumes "planNaabuPipeline j ts fs = Inr plan" "is_naabu j"
  shows "wp_units plan = number_units 0 (naabu_units ts (discovery_batch j) (uniqueAddresses ts))"
    and "wp_total_probes plan = wrap64 (sum_list (map wu_probes (naabu_units ts (discovery_batch j) (uniqueAddresses ts))))"
    and "wp_targets plan = shareResolvedTargets ts" and "wp_total_units plan = int (length (wp_units plan))"
    and "1 \<le> discovery_batch j \<and> discovery_batch j \<le> 256"
proof -
  obtain tcp where tcp: "wj_tcp j = Some tcp" using assms(2) by (auto simp: is_naabu_def split: option.splits)
  let ?o = "applyNaabuDefaults (case sp_naabu tcp of None \<Rightarrow> no_naabu_options | Some given \<Rightarrow> given)"
  have b: "discovery_batch j = na_batch ?o" by (simp add: discovery_batch_def tcp valueProtocol_def)
  have v: "ValidateNaabuOptions ?o = None" using assms(1) by (auto simp: planNaabuPipeline_def tcp Let_def split: option.splits)
  then show bounds: "1 \<le> discovery_batch j \<and> discovery_batch j \<le> 256" by (simp add: ValidateNaabuOptions_def b split: if_splits)
  let ?plan = "\<lparr>wp_job = j, wp_targets = shareResolvedTargets ts, wp_dns = plan_dns ts,
                    wp_scopes = appendTargetFailureScopes (naabu_scopes j tcp ts) (coverageFailures fs) j,
                    wp_failures = coverageFailures fs, wp_units = [], wp_total_probes = 0, wp_total_units = 0\<rparr>"
  let ?p = "fold add_plan_unit (naabu_units ts (discovery_batch j) (uniqueAddresses ts)) ?plan"
  have plan: "plan = ?p\<lparr>wp_total_units := int (length (wp_units ?p))\<rparr>"
    using assms(1) v bounds by (simp add: planNaabuPipeline_def tcp Let_def b split: if_splits)
  note f = fold_add_units [of "naabu_units ts (discovery_batch j) (uniqueAddresses ts)" ?plan]
  show "wp_units plan = number_units 0 (naabu_units ts (discovery_batch j) (uniqueAddresses ts))"
    "wp_total_probes plan = wrap64 (sum_list (map wu_probes (naabu_units ts (discovery_batch j) (uniqueAddresses ts))))"
    "wp_targets plan = shareResolvedTargets ts" "wp_total_units plan = int (length (wp_units plan))"
    using f by (simp_all add: plan wrap64_id max_int64_def)
qed

text \<open>The addresses a Naabu plan batches.\<close>

lemma unique_address_set:
  "normalize_address a = a \<Longrightarrow> a \<noteq> [] \<Longrightarrow> set (unique_address a as) = insert a (set as) \<and> (distinct as \<longrightarrow> distinct (unique_address a as))"
  by (auto simp: unique_address_def)

lemma uniqueAddresses_ok:
  assumes "\<forall>a \<in> set (target_addresses ts). allowed ex a"
  shows "set (uniqueAddresses ts) = set (target_addresses ts) \<and> distinct (uniqueAddresses ts)"
proof -
  have "set (fold unique_address as bs) = set as \<union> set bs \<and> (distinct bs \<longrightarrow> distinct (fold unique_address as bs))"
    if "\<forall>a \<in> set as. allowed ex a" for as bs
    using that
  proof (induction as arbitrary: bs)
    case (Cons a as)
    then have "normalize_address a = a" "a \<noteq> []" using allowed_parse [of ex a] by auto
    then show ?case using Cons unique_address_set [of a bs] by simp
  qed simp
  from this [OF assms, of "[]"] show ?thesis by (simp add: uniqueAddresses_def target_addresses_def)
qed


lemma full_ports [simp]: "ParsePorts NaabuFullPortExpression = Inr [1..65535]"
proof -
  have "separated [(1, 65535)]" by (simp add: separated_Cons)
  from ParsePorts_show [OF this] have "ParsePorts (show_ranges [(1, 65535)]) = Inr (expand [(1, 65535)])" by simp
  moreover have "show_ranges [(1, 65535)] = NaabuFullPortExpression" by code_simp
  moreover have "expand [(1, 65535)] = [1..65535]"
    using sorted_distinct_set_unique [of "expand [(1, 65535)]" "[1..65535]"] set_expand [of "[(1, 65535)]"]
    by (simp add: expand_def)
  ultimately show ?thesis by simp
qed

lemma naabu_count:
  assumes "1 \<le> b" "distinct as"
  shows "length (filter (unit_covers p a q) (naabu_units ts b as)) =
    (if p = ''tcp'' \<and> a \<in> set as \<and> q \<in> set [1..65535] then 1 else 0)"
proof -
  have pos: "0 < nat b" using assms(1) by simp
  have covers: "unit_covers p' a q (discovery_unit ts fam batch) = (p' = ''tcp'' \<and> a \<in> set batch \<and> q \<in> set [1..65535])" for p' fam batch
    by (auto simp: unit_covers_def unit_ports_def discovery_unit_def)
  have count: "length (filter (unit_covers p a q) (map (discovery_unit ts fam) (chunks (nat b) bs))) =
      (if p = ''tcp'' \<and> a \<in> set bs \<and> q \<in> set [1..65535] then 1 else 0)" if "distinct bs" for fam bs
  proof (cases "p = ''tcp'' \<and> q \<in> set [1..65535]")
    case True
    have "distinct (concat (chunks (nat b) bs))" by (simp only: concat_chunks [OF pos] that)
    from member_count [OF this, of a, unfolded concat_chunks [OF pos]] True show ?thesis
      by (simp add: filter_map comp_def covers)
  qed (simp add: filter_map comp_def covers)
  show ?thesis using count [of "filter is4 as" 4] count [of "filter (\<lambda>a. \<not> is4 a) as" 6] assms(2)
    by (simp only: naabu_units_def filter_append length_append distinct_filter set_filter mem_Collect_eq) auto
qed

lemma item_plan_count:
  assumes "sp_ports item = [] \<or> (\<exists>ps. ParsePorts (sp_ports item) = Inr ps)"
  shows "length (filter (unit_covers p a q) (item_plan p item ts)) =
    (if a \<in> set (target_addresses ts) \<and> q \<in> set (expression_ports (sp_ports item)) then 1 else 0)"
proof (cases "sp_ports item = []")
  case True
  then show ?thesis by (simp add: item_plan_def expression_ports_def ParsePorts_def trimSpace_def)
next
  case False
  then obtain ps where "ParsePorts (sp_ports item) = Inr ps" using assms by blast
  then have "port_list (expression_ports (sp_ports item))" using ParsePorts_port_list by (simp add: expression_ports_def)
  from item_count [OF this] False show ?thesis by (simp add: item_plan_def)
qed

lemma other_protocol: "p \<noteq> p' \<Longrightarrow> filter (unit_covers p' a q) (item_plan p item ts) = []"
  by (auto simp: item_plan_def item_units_def batch_units_def Let_def unit_covers_def filter_empty_conv)

lemma nmap_count:
  assumes "\<And>item. item \<in> {valueProtocol (wj_tcp j), valueProtocol (wj_udp j)} \<Longrightarrow>
      sp_ports item = [] \<or> (\<exists>ps. ParsePorts (sp_ports item) = Inr ps)" "\<not> is_naabu j"
  shows "length (filter (unit_covers p a q) (nmap_units j ts)) =
    (if a \<in> set (target_addresses ts) \<and> q \<in> set (planned_ports j p) then 1 else 0)"
  using item_plan_count [OF assms(1), of "valueProtocol (wj_tcp j)" "''tcp''" a q ts]
    item_plan_count [OF assms(1), of "valueProtocol (wj_udp j)" "''udp''" a q ts] assms(2)
    other_protocol [of "''tcp''" p] other_protocol [of "''udp''" p]
  by (cases "p = ''tcp''"; cases "p = ''udp''") (simp_all add: nmap_units_def planned_ports_def)

end
