(* ===== verification/PlanScan.thy ===== *)
theory PlanScan
  imports PlanUnits
begin

text \<open>
  The promises of a scan plan: a partition of the configured addresses and ports into units of
  bounded size, none of which touches an excluded address.
\<close>

section \<open>The shape of a unit\<close>

lemma chunk_member: "c \<in> set (chunks n xs) \<Longrightarrow> set c \<subseteq> set xs \<and> (distinct xs \<longrightarrow> distinct c)"
proof (induction n xs rule: chunks.induct)
  case (1 n xs)
  show ?case
  proof (cases "xs = [] \<or> n = 0")
    case True
    then show ?thesis using 1(2) by (simp add: chunks.simps)
  next
    case False
    then have "chunks n xs = take n xs # chunks n (drop n xs)" by (subst chunks.simps) simp
    then show ?thesis using 1 False set_take_subset [of n xs] set_drop_subset [of n xs] by (auto simp: subset_iff)
  qed
qed

lemma pinned_family_ok:
  "set (pinned_family fam (pinAddresses ts)) \<subseteq> set (runs pa_address (pinAddresses ts))"
  "distinct (pinned_family fam (pinAddresses ts))"
proof -
  show "set (pinned_family fam (pinAddresses ts)) \<subseteq> set (runs pa_address (pinAddresses ts))"
    by (auto simp: pinned_family_def)
  have "distinct (group_addresses (pinned_family fam (pinAddresses ts)))"
    using family_addresses_ok(1) [of fam ts] by (simp add: group_family strict_sorted_iff)
  then show "distinct (pinned_family fam (pinAddresses ts))" by (simp add: group_addresses_def distinct_map)
qed

lemma probe_bound:
  assumes "1 \<le> hosts" "hosts \<le> 128" "factor = 1 \<or> factor = 2" "n \<le> perChunk hosts factor" "0 \<le> n"
  shows "hosts * n * factor \<le> 65536 \<and> n \<le> 4096"
proof -
  let ?d = "hosts * factor"
  have d: "1 \<le> ?d" "?d \<le> 256" using assms(1-3) by auto
  then have "256 \<le> 65536 div ?d" by (simp add: pos_imp_zdiv_nonneg_iff zdiv_mono2 [of 65536 ?d 256, simplified])
  then have n: "n \<le> 65536 div ?d" "n \<le> 4096"
    using assms(4) by (auto simp: perChunk_def maxWorkUnitProbes_def maxWorkUnitPorts_def Let_def split: if_splits)
  have "?d * n \<le> ?d * (65536 div ?d)" using n(1) d(1) by (intro mult_left_mono) auto
  also have "\<dots> \<le> 65536" using minus_mod_eq_mult_div [of 65536 ?d] pos_mod_sign [of ?d 65536] d(1) by linarith
  finally show ?thesis using n(2) by (simp add: ac_simps)
qed

text \<open>A unit of an Nmap plan, for the arguments and the scanned expression of its protocol.\<close>

definition unit_in_bounds :: "protocol_scan \<Rightarrow> work_unit \<Rightarrow> bool" where
  "unit_in_bounds item u \<longleftrightarrow>
     wu_addresses u \<noteq> [] \<and> distinct (wu_addresses u) \<and>
     int (length (wu_addresses u)) \<le> NmapAddressBatchLimit (sp_nmap_args item) \<and>
     (\<forall>a \<in> set (wu_addresses u). is4 a = (wu_family u = 4)) \<and>
     wu_port_count u = int (length (unit_ports u)) \<and> 1 \<le> wu_port_count u \<and> wu_port_count u \<le> maxWorkUnitPorts \<and>
     wu_probes u = int (length (wu_addresses u)) * wu_port_count u * probe_factor item \<and>
     wu_probes u \<le> maxWorkUnitProbes"

text \<open>A unit of a Naabu plan.\<close>

definition discovery_in_bounds :: "work_unit \<Rightarrow> bool" where
  "discovery_in_bounds u \<longleftrightarrow>
     wu_addresses u \<noteq> [] \<and> distinct (wu_addresses u) \<and> length (wu_addresses u) \<le> 256 \<and>
     (\<forall>a \<in> set (wu_addresses u). is4 a = (wu_family u = 4)) \<and> wu_phase u = ''discovery'' \<and> wu_protocol u = ''tcp'' \<and>
     unit_ports u = [1..65535] \<and> wu_port_count u = 65535 \<and> wu_probes u = int (length (wu_addresses u)) * 65535"

lemma item_unit_ok:
  assumes "u \<in> set (item_units p item ports ts (shareResolvedTargets ts))" "port_list ports"
  shows "unit_in_bounds item u \<and> wu_protocol u = p \<and> wu_phase u = [] \<and> set (wu_addresses u) \<subseteq> set (target_addresses ts) \<and>
    set (unit_ports u) \<subseteq> set ports \<and>
    wu_targets u = cut_targets (set (wu_addresses u)) (shareResolvedTargets ts)"
proof -
  let ?lim = "nmapInvocationAddressLimit (sp_nmap_args item) (int (length ports))"
  obtain fam gs where gs: "gs \<in> set (chunks (nat ?lim) (pinned_family fam (pinAddresses ts)))" "fam = 4 \<or> fam = 6"
    and u: "u \<in> set (batch_units p item ports fam (shareResolvedTargets ts) gs)"
    using assms(1) by (auto simp: item_units_def)
  from assms(2) u obtain c where c: "c \<in> set (chunks (nat (perChunk (int (length gs)) (probe_factor item))) ports)"
    "port_list c" "c \<noteq> []" "unit_ports u = c" "wu_port_count u = int (length c)" "wu_protocol u = p"
    "wu_addresses u = group_addresses gs" "wu_targets u = group_targets gs (shareResolvedTargets ts)"
    "wu_probes u = int (length gs) * int (length c) * probe_factor item"
    by (rule batch_chunk)
  have fam: "wu_family u = fam" "wu_phase u = []" using u by (auto simp: batch_units_def Let_def)
  have "0 < length gs \<and> length gs \<le> nat ?lim" by (rule chunk_size [OF gs(1)])
  moreover have "?lim \<le> NmapAddressBatchLimit (sp_nmap_args item)"
    by (simp add: nmapInvocationAddressLimit_def Let_def NmapAddressBatchLimit_def nmapBatchSize_def)
  ultimately have size: "1 \<le> int (length gs)" "int (length gs) \<le> NmapAddressBatchLimit (sp_nmap_args item)"
    using invocation_limit_pos [of "sp_nmap_args item" "int (length ports)"] by linarith+
  moreover have "NmapAddressBatchLimit (sp_nmap_args item) \<le> 128" by (simp add: NmapAddressBatchLimit_def nmapBatchSize_def)
  moreover have "int (length c) \<le> perChunk (int (length gs)) (probe_factor item)"
    using chunk_size [OF c(1)] perChunk_pos [of "int (length gs)" "probe_factor item"] by linarith
  ultimately have probes: "int (length gs) * int (length c) * probe_factor item \<le> 65536 \<and> int (length c) \<le> 4096"
    by (intro probe_bound) (simp_all add: probe_factor_def)
  have gs': "set gs \<subseteq> set (pinned_family fam (pinAddresses ts))" "distinct gs"
    using chunk_member [OF gs(1)] pinned_family_ok(2) by blast+
  have addr: "set (group_addresses gs) \<subseteq> set (family_addresses fam ts)"
    using gs'(1) by (auto simp: group_addresses_def simp flip: group_family)
  have "distinct (group_addresses gs)"
    using family_addresses_ok(1) [of fam ts] gs' by (auto simp: group_addresses_def strict_sorted_iff distinct_map inj_on_def simp flip: group_family)
  moreover have "wu_targets u = cut_targets (set (wu_addresses u)) (shareResolvedTargets ts)"
    using group_targets_cut [of gs ts] gs' pinned_family_ok(1) c(7,8) by auto
  moreover have "Suc 0 \<le> length c" using c(3) by (simp add: Suc_le_eq)
  moreover have "set c \<subseteq> set ports" using chunk_member [OF c(1)] by blast
  moreover have "\<forall>a \<in> set (group_addresses gs). is4 a = (fam = 4) \<and> a \<in> set (target_addresses ts)"
    using addr gs(2) unfolding family_addresses_ok(2) by auto
  moreover have "group_addresses gs \<noteq> []" "length (group_addresses gs) = length gs" using size(1) by (auto simp: group_addresses_def)
  ultimately show ?thesis
    using size probes by (auto simp: unit_in_bounds_def c(4-9) fam maxWorkUnitProbes_def maxWorkUnitPorts_def)
qed

lemma item_plan_unit:
  assumes "u \<in> set (item_plan p item ts)" "sp_ports item = [] \<or> (\<exists>ps. ParsePorts (sp_ports item) = Inr ps)"
  shows "unit_in_bounds item u \<and> wu_protocol u = p \<and> wu_phase u = [] \<and> set (wu_addresses u) \<subseteq> set (target_addresses ts) \<and>
    wu_targets u = cut_targets (set (wu_addresses u)) (shareResolvedTargets ts)"
proof -
  have ne: "sp_ports item \<noteq> []" and u: "u \<in> set (item_units p item (expression_ports (sp_ports item)) ts (shareResolvedTargets ts))"
    using assms(1) by (auto simp: item_plan_def split: if_splits)
  then have "port_list (expression_ports (sp_ports item))"
    using assms(2) ParsePorts_port_list by (auto simp: expression_ports_def)
  from item_unit_ok [OF u this] show ?thesis by blast
qed

lemma naabu_unit:
  assumes "u \<in> set (naabu_units ts b as)" "1 \<le> b" "distinct as"
  shows "wu_addresses u \<noteq> [] \<and> distinct (wu_addresses u) \<and> int (length (wu_addresses u)) \<le> b \<and> set (wu_addresses u) \<subseteq> set as \<and>
    (\<forall>a \<in> set (wu_addresses u). is4 a = (wu_family u = 4)) \<and> wu_protocol u = ''tcp'' \<and> wu_phase u = ''discovery'' \<and>
    wu_port_count u = 65535 \<and> unit_ports u = [1..65535] \<and> wu_probes u = int (length (wu_addresses u)) * 65535 \<and>
    wu_targets u = cut_targets (set (wu_addresses u)) (shareResolvedTargets ts)"
proof -
  obtain fam batch xs where u: "u = discovery_unit ts fam batch" and batch: "batch \<in> set (chunks (nat b) xs)"
    and xs: "set xs \<subseteq> set as" "distinct xs" "\<forall>a \<in> set xs. is4 a = (fam = 4)"
  proof -
    from assms(1) consider fam batch where "u = discovery_unit ts fam batch" "fam = 4" "batch \<in> set (chunks (nat b) (filter is4 as))"
      | fam batch where "u = discovery_unit ts fam batch" "fam = 6" "batch \<in> set (chunks (nat b) (filter (\<lambda>a. \<not> is4 a) as))"
      unfolding naabu_units_def set_append set_map by blast
    then show thesis
    proof cases
      case 1
      show ?thesis by (rule that [OF 1(1,3)]) (use assms(3) 1(2) in auto)
    next
      case 2
      show ?thesis by (rule that [OF 2(1,3)]) (use assms(3) 2(2) in auto)
    qed
  qed
  have "0 < length batch \<and> length batch \<le> nat b" by (rule chunk_size [OF batch])
  moreover have "set batch \<subseteq> set as \<and> distinct batch \<and> (\<forall>a \<in> set batch. is4 a = (fam = 4))"
    using chunk_member [OF batch] xs by blast
  ultimately show ?thesis using assms(2)
    by (simp add: u discovery_unit_def subset_cut unit_ports_def nat_le_iff flip: length_greater_0_conv) linarith
qed


section \<open>The promises\<close>

lemma plan_cases:
  assumes "Plan_scan ex lookup mh j = Inr plan"
  obtains ts where "wp_targets plan = shareResolvedTargets ts" "wp_units plan = number_units 0 (scan_units (NormalizeJob j) ts)"
    "wp_total_probes plan = wrap64 (sum_list (map wu_probes (scan_units (NormalizeJob j) ts)))"
    "wp_total_units plan = int (length (wp_units plan))"
    "\<forall>a \<in> set (target_addresses ts). allowed ex a"
    "int (length (target_addresses ts)) \<le> max 0 (host_limit mh (NormalizeJob j))"
    "is_naabu (NormalizeJob j) \<Longrightarrow> 1 \<le> discovery_batch (NormalizeJob j) \<and> discovery_batch (NormalizeJob j) \<le> 256"
    "\<not> is_naabu (NormalizeJob j) \<Longrightarrow> \<forall>item \<in> {valueProtocol (wj_tcp (NormalizeJob j)), valueProtocol (wj_udp (NormalizeJob j))}.
      sp_ports item = [] \<or> (\<exists>ps. ParsePorts (sp_ports item) = Inr ps)"
proof -
  let ?j = "NormalizeJob j"
  obtain ts fs where
    p: "if is_naabu ?j then planNaabuPipeline ?j ts fs = Inr plan else plan_nmap ?j ts fs = Inr plan"
    and a: "\<forall>a \<in> set (target_addresses ts). allowed ex a" "int (length (target_addresses ts)) \<le> max 0 (host_limit mh ?j)"
    using resolved_ok [OF assms] by metis
  show thesis
  proof (cases "is_naabu ?j")
    case True
    then have "planNaabuPipeline ?j ts fs = Inr plan" using p by simp
    note n = plan_naabu_units [OF this True]
    show ?thesis by (rule that [OF n(3) _ _ n(4) a]) (use n True in \<open>simp_all add: scan_units_def\<close>)
  next
    case False
    then have q: "plan_nmap ?j ts fs = Inr plan" using p by simp
    note n = plan_nmap_units [OF q]
    have "\<forall>item \<in> {valueProtocol (wj_tcp ?j), valueProtocol (wj_udp ?j)}. sp_ports item = [] \<or> (\<exists>ps. ParsePorts (sp_ports item) = Inr ps)"
      by (rule plan_nmap_valid [OF q])
    then show ?thesis by (intro that [OF n(3) _ _ n(4) a]) (use n False in \<open>simp_all add: scan_units_def\<close>)
  qed
qed

lemma plan_units_cut:
  assumes "Plan_scan ex lookup mh j = Inr plan"
  obtains ts where "wp_targets plan = shareResolvedTargets ts" "wp_units plan = number_units 0 (scan_units (NormalizeJob j) ts)"
    "\<forall>a \<in> set (target_addresses ts). allowed ex a"
    "int (length (target_addresses ts)) \<le> max 0 (host_limit mh (NormalizeJob j))"
    "\<forall>u \<in> set (scan_units (NormalizeJob j) ts). set (wu_addresses u) \<subseteq> set (target_addresses ts) \<and>
      wu_targets u = cut_targets (set (wu_addresses u)) (shareResolvedTargets ts)"
proof -
  let ?j = "NormalizeJob j"
  obtain ts where t: "wp_targets plan = shareResolvedTargets ts" "wp_units plan = number_units 0 (scan_units ?j ts)"
    and a: "\<forall>a \<in> set (target_addresses ts). allowed ex a" "int (length (target_addresses ts)) \<le> max 0 (host_limit mh ?j)"
    and naabu: "is_naabu ?j \<Longrightarrow> 1 \<le> discovery_batch ?j"
    and nmap: "\<not> is_naabu ?j \<Longrightarrow> \<forall>item \<in> {valueProtocol (wj_tcp ?j), valueProtocol (wj_udp ?j)}. sp_ports item = [] \<or> (\<exists>ps. ParsePorts (sp_ports item) = Inr ps)"
    using plan_cases [OF assms] by metis
  have "set (wu_addresses u) \<subseteq> set (target_addresses ts) \<and> wu_targets u = cut_targets (set (wu_addresses u)) (shareResolvedTargets ts)"
    if u: "u \<in> set (scan_units ?j ts)" for u
  proof (cases "is_naabu ?j")
    case True
    then have "u \<in> set (naabu_units ts (discovery_batch ?j) (uniqueAddresses ts))" using u by (simp add: scan_units_def)
    from naabu_unit [OF this naabu [OF True]] show ?thesis using uniqueAddresses_ok [OF a(1)] by simp
  next
    case False
    then consider "u \<in> set (item_plan ''tcp'' (valueProtocol (wj_tcp ?j)) ts)" | "u \<in> set (item_plan ''udp'' (valueProtocol (wj_udp ?j)) ts)"
      using u by (auto simp: scan_units_def nmap_units_def)
    then show ?thesis by cases (use item_plan_unit nmap [OF False] in blast)+
  qed
  then show thesis by (intro that [OF t a]) blast
qed

lemma share_addresses: "map rt_addresses (shareResolvedTargets ts) = map rt_addresses ts"
  by (simp add: shareResolvedTargets_def comp_def)

lemma covers_unnumbered [simp]: "unit_covers p a q (u\<lparr>wu_sequence := s\<rparr>) = unit_covers p a q u"
  by (simp add: unit_covers_def unit_ports_def)

lemma plan_count:
  assumes "Plan_scan exclusions lookup maxJobHosts j = Inr plan"
  shows "length (filter (unit_covers p a q) (wp_units plan)) =
    (if a \<in> plan_addresses plan \<and> q \<in> set (planned_ports (NormalizeJob j) p) then 1 else 0)"
proof -
  obtain ts where t: "wp_targets plan = shareResolvedTargets ts" "wp_units plan = number_units 0 (scan_units (NormalizeJob j) ts)"
    and a: "\<forall>a \<in> set (target_addresses ts). allowed exclusions a"
    and naabu: "is_naabu (NormalizeJob j) \<Longrightarrow> 1 \<le> discovery_batch (NormalizeJob j)"
    and nmap: "\<not> is_naabu (NormalizeJob j) \<Longrightarrow> \<forall>item \<in> {valueProtocol (wj_tcp (NormalizeJob j)), valueProtocol (wj_udp (NormalizeJob j))}.
      sp_ports item = [] \<or> (\<exists>ps. ParsePorts (sp_ports item) = Inr ps)"
    using plan_cases [OF assms] by metis
  have addresses: "plan_addresses plan = set (target_addresses ts)" by (simp only: plan_addresses_def t share_addresses target_addresses_def)
  have "length (filter (unit_covers p a q) (wp_units plan)) = length (filter (unit_covers p a q) (scan_units (NormalizeJob j) ts))"
    unfolding t by (rule number_units_count) simp
  also have "\<dots> = (if a \<in> set (target_addresses ts) \<and> q \<in> set (planned_ports (NormalizeJob j) p) then 1 else 0)"
  proof (cases "is_naabu (NormalizeJob j)")
    case True
    with naabu_count [OF naabu [OF True], of "uniqueAddresses ts" p a q ts] uniqueAddresses_ok [OF a] show ?thesis
      by (simp add: scan_units_def planned_ports_def)
  next
    case False
    with nmap_count [of "NormalizeJob j" p a q ts] nmap [OF False] show ?thesis by (simp add: scan_units_def)
  qed
  finally show ?thesis by (simp only: addresses)
qed


text \<open>
  Every address and port the job names is probed by exactly one unit of the plan, and a plan
  probes nothing else: a configured address, be it reached through an address, a network or a
  name, or several of them, and a port of the protocol's expression (all ports of TCP for a Naabu
  job) lie in one unit of the protocol, however addresses and ports were batched.
\<close>

theorem plan_partitions_the_scan:
  assumes "Plan_scan exclusions lookup maxJobHosts j = Inr plan"
  shows "length (filter (unit_covers p a q) (wp_units plan)) =
    (if a \<in> plan_addresses plan \<and> q \<in> set (planned_ports (NormalizeJob j) p) then 1 else 0)"
  by (rule plan_count [OF assms])

text \<open>
  C23: A plan never scans an excluded address: every unit of a plan passes the check of the
  exclusions that is repeated before the unit runs, every target it hands to the engine lies
  within its addresses, and a plan has no more addresses than the deployment allows.
\<close>

theorem plan_never_excluded:
  assumes "Plan_scan exclusions lookup maxJobHosts j = Inr plan"
  shows "(\<forall>u \<in> set (wp_units plan). validatePersistedWorkUnit exclusions u = None \<and>
      (\<forall>t \<in> set (wu_targets u). set (rt_addresses t) \<subseteq> set (wu_addresses u))) \<and>
    int (card (plan_addresses plan)) \<le> max 0 (host_limit maxJobHosts (NormalizeJob j))"
proof -
  obtain ts where t: "wp_targets plan = shareResolvedTargets ts" "wp_units plan = number_units 0 (scan_units (NormalizeJob j) ts)"
    and a: "\<forall>a \<in> set (target_addresses ts). allowed exclusions a"
    and n: "int (length (target_addresses ts)) \<le> max 0 (host_limit maxJobHosts (NormalizeJob j))"
    and units: "\<forall>u \<in> set (scan_units (NormalizeJob j) ts). set (wu_addresses u) \<subseteq> set (target_addresses ts) \<and>
      wu_targets u = cut_targets (set (wu_addresses u)) (shareResolvedTargets ts)"
    using plan_units_cut [OF assms] by metis
  have "validatePersistedWorkUnit exclusions u = None" if "set (wu_addresses u) \<subseteq> set (target_addresses ts)" for u
  proof -
    have "\<forall>raw \<in> set (wu_addresses u). excludedNetwork exclusions (parseIP (trimSpace raw)) = []"
      using that a allowed_parse by (metis subsetD)
    then show ?thesis by (auto simp: validatePersistedWorkUnit_def find_None_iff split: option.splits)
  qed
  moreover have "set (rt_addresses t) \<subseteq> A" if "t \<in> set (cut_targets A rs)" for t A rs
    using that by (auto simp: cut_targets_def cut_target_def)
  ultimately have "\<forall>u \<in> set (scan_units (NormalizeJob j) ts). validatePersistedWorkUnit exclusions u = None \<and>
      (\<forall>t \<in> set (wu_targets u). set (rt_addresses t) \<subseteq> set (wu_addresses u))"
    using units by metis
  then have "\<forall>u \<in> set (wp_units plan). validatePersistedWorkUnit exclusions u = None \<and>
      (\<forall>t \<in> set (wu_targets u). set (rt_addresses t) \<subseteq> set (wu_addresses u))"
    unfolding t by (subst number_units_ball) (simp_all add: validatePersistedWorkUnit_def)
  moreover have "int (card (plan_addresses plan)) \<le> max 0 (host_limit maxJobHosts (NormalizeJob j))"
    using n card_length [of "target_addresses ts"] by (simp add: plan_addresses_def t share_addresses target_addresses_def)
  ultimately show ?thesis by blast
qed

lemma plan_bounds:
  assumes "Plan_scan exclusions lookup maxJobHosts j = Inr plan"
  shows "(\<forall>i < length (wp_units plan). wu_sequence (wp_units plan ! i) = int i) \<and>
    wp_total_units plan = int (length (wp_units plan)) \<and>
    wp_total_probes plan = wrap64 (sum_list (map wu_probes (wp_units plan))) \<and>
    (\<forall>u \<in> set (wp_units plan). if is_naabu (NormalizeJob j) then discovery_in_bounds u
      else \<exists>item \<in> {valueProtocol (wj_tcp (NormalizeJob j)), valueProtocol (wj_udp (NormalizeJob j))}. unit_in_bounds item u)"
proof -
  obtain ts where t: "wp_units plan = number_units 0 (scan_units (NormalizeJob j) ts)"
    and p: "wp_total_probes plan = wrap64 (sum_list (map wu_probes (scan_units (NormalizeJob j) ts)))"
    and n: "wp_total_units plan = int (length (wp_units plan))"
    and a: "\<forall>a \<in> set (target_addresses ts). allowed exclusions a"
    and naabu: "is_naabu (NormalizeJob j) \<Longrightarrow> 1 \<le> discovery_batch (NormalizeJob j) \<and> discovery_batch (NormalizeJob j) \<le> 256"
    and nmap: "\<not> is_naabu (NormalizeJob j) \<Longrightarrow> \<forall>item \<in> {valueProtocol (wj_tcp (NormalizeJob j)), valueProtocol (wj_udp (NormalizeJob j))}.
      sp_ports item = [] \<or> (\<exists>ps. ParsePorts (sp_ports item) = Inr ps)"
    using plan_cases [OF assms] by metis
  have "\<forall>u \<in> set (scan_units (NormalizeJob j) ts). if is_naabu (NormalizeJob j) then discovery_in_bounds u
      else \<exists>item \<in> {valueProtocol (wj_tcp (NormalizeJob j)), valueProtocol (wj_udp (NormalizeJob j))}. unit_in_bounds item u"
  proof (cases "is_naabu (NormalizeJob j)")
    case True
    then have "1 \<le> discovery_batch (NormalizeJob j)" "discovery_batch (NormalizeJob j) \<le> 256" using naabu by auto
    then have "discovery_in_bounds u" if "u \<in> set (naabu_units ts (discovery_batch (NormalizeJob j)) (uniqueAddresses ts))" for u
      using naabu_unit [OF that] uniqueAddresses_ok [OF a] by (simp add: discovery_in_bounds_def)
    then show ?thesis using True by (simp add: scan_units_def)
  next
    case False
    then show ?thesis using nmap [OF False] item_plan_unit by (simp add: scan_units_def nmap_units_def) blast
  qed
  then have "\<forall>u \<in> set (wp_units plan). if is_naabu (NormalizeJob j) then discovery_in_bounds u
      else \<exists>item \<in> {valueProtocol (wj_tcp (NormalizeJob j)), valueProtocol (wj_udp (NormalizeJob j))}. unit_in_bounds item u"
    unfolding t by (subst number_units_ball) (simp_all add: unit_in_bounds_def discovery_in_bounds_def unit_ports_def)
  moreover have "map wu_probes (wp_units plan) = map wu_probes (scan_units (NormalizeJob j) ts)"
    unfolding t by (rule number_units_map) simp
  ultimately show ?thesis using p n by (simp add: t number_units_nth)
qed


lemma plan_unit_distinct:
  assumes "Plan_scan exclusions lookup maxJobHosts j = Inr plan" "u \<in> set (wp_units plan)"
  shows "distinct (wu_addresses u)"
  using plan_bounds [OF assms(1)] assms(2)
  by (cases "is_naabu (NormalizeJob j)") (auto simp: unit_in_bounds_def discovery_in_bounds_def)

text \<open>
  C24: Every unit of a plan is small and consistent. Units are numbered in order. A unit of an
  Nmap plan has at most 128 distinct addresses of one family (one, if the arguments name
  \<open>{address}\<close>), at most 4096 ports, and at most 65536 probes, which it counts exactly. A Naabu
  unit has at most 256 addresses and all ports. The plan's own totals are those of its units.
\<close>

theorem plan_units_bounded:
  assumes "Plan_scan exclusions lookup maxJobHosts j = Inr plan"
  shows "(\<forall>i < length (wp_units plan). wu_sequence (wp_units plan ! i) = int i) \<and>
    wp_total_units plan = int (length (wp_units plan)) \<and>
    wp_total_probes plan = wrap64 (sum_list (map wu_probes (wp_units plan))) \<and>
    (\<forall>u \<in> set (wp_units plan). if is_naabu (NormalizeJob j) then discovery_in_bounds u
      else \<exists>item \<in> {valueProtocol (wj_tcp (NormalizeJob j)), valueProtocol (wj_udp (NormalizeJob j))}. unit_in_bounds item u)"
  by (rule plan_bounds [OF assms])

section \<open>An example\<close>

definition example_lookup :: resolver where
  "example_lookup name = (if name = ''www.example'' then ([Some (word_of_int (mapped_base + 3221225985)), None], False) else ([], True))"

definition example_plan_job :: scan_job where
  "example_plan_job = \<lparr>wj_targets = [''192.0.2.0/31'', '' WWW.example''], wj_max_hosts = 4,
     wj_tcp = Some (no_protocol\<lparr>sp_ports := ''443, 80'', sp_service := True\<rparr>),
     wj_udp = Some (no_protocol\<lparr>sp_ports := ''53''\<rparr>), wj_high_cost = False\<rparr>"

definition example_scan_plan :: work_plan where
  "example_scan_plan = (case Plan_scan [] example_lookup 0 example_plan_job of Inr plan \<Rightarrow> plan)"

lemma example_plan_runs: "Plan_scan [] example_lookup 0 example_plan_job = Inr example_scan_plan"
proof -
  have "\<not> isl (Plan_scan [] example_lookup 0 example_plan_job)" by code_simp
  then show ?thesis by (auto simp: example_scan_plan_def split: sum.splits)
qed

theorem plan_partitions_the_scan_witness:
  "length (filter (unit_covers ''tcp'' ''192.0.2.1'' 443) (wp_units example_scan_plan)) = 1 \<and>
   length (filter (unit_covers ''udp'' ''192.0.2.1'' 443) (wp_units example_scan_plan)) = 0"
proof -
  have "''192.0.2.1'' \<in> plan_addresses example_scan_plan" by code_simp
  moreover have "(443 :: int) \<in> set (planned_ports (NormalizeJob example_plan_job) ''tcp'')"
    "(443 :: int) \<notin> set (planned_ports (NormalizeJob example_plan_job) ''udp'')" by code_simp+
  ultimately show ?thesis
    using plan_partitions_the_scan [OF example_plan_runs, of "''tcp''" "''192.0.2.1''" 443]
      plan_partitions_the_scan [OF example_plan_runs, of "''udp''" "''192.0.2.1''" 443] by simp
qed

theorem plan_never_excluded_witness: "card (plan_addresses example_scan_plan) \<le> 4"
proof -
  have "host_limit 0 (NormalizeJob example_plan_job) = 4" by code_simp
  with plan_never_excluded [OF example_plan_runs] show ?thesis by simp
qed

theorem plan_units_bounded_witness: "list_all (\<lambda>u. length (wu_addresses u) \<le> 128) (wp_units example_scan_plan)"
proof -
  have n: "\<not> is_naabu (NormalizeJob example_plan_job)" by code_simp
  have "\<forall>u \<in> set (wp_units example_scan_plan).
      \<exists>item \<in> {valueProtocol (wj_tcp (NormalizeJob example_plan_job)), valueProtocol (wj_udp (NormalizeJob example_plan_job))}. unit_in_bounds item u"
    using plan_units_bounded [OF example_plan_runs] n by simp
  moreover have "length (wu_addresses u) \<le> 128" if "unit_in_bounds item u" for u item
    using that by (auto simp: unit_in_bounds_def NmapAddressBatchLimit_def nmapBatchSize_def split: if_splits)
  ultimately show ?thesis by (auto simp: list_all_iff)
qed

end
