(* ===== verification/PlanSplit.thy ===== *)
theory PlanSplit
  imports PlanScan
begin

text \<open>
  Halving the units that time out: it ends, in units as small as a retry may be, and the pieces
  scan what the unit scanned.
\<close>

section \<open>One halving\<close>

lemma split_cases:
  assumes "SplitWorkUnit u = Some (l, r)"
  obtains (addresses) mid where "0 < mid" "mid < length (wu_addresses u)" "l = split_addresses u (take mid (wu_addresses u))"
      "r = (split_addresses u (drop mid (wu_addresses u)))\<lparr>wu_sequence := 0\<rparr>"
  | (ports) mid where "length (wu_addresses u) \<le> 1" "wu_engine u \<noteq> EngineNaabuNmap" "0 < mid" "mid < length (unit_ports u)"
      "ParsePorts (wu_ports u) = Inr (unit_ports u)" "length (unit_ports u) > minRetryPortChunk"
      "l = split_ports u (take mid (unit_ports u))" "r = (split_ports u (drop mid (unit_ports u)))\<lparr>wu_sequence := 0\<rparr>"
proof (cases "1 < length (wu_addresses u)")
  case True
  then show ?thesis using assms by (intro addresses [of "length (wu_addresses u) div 2"]) (auto simp: SplitWorkUnit_def Let_def)
next
  case False
  then have "SplitWorkUnit u = (if wu_engine u = EngineNaabuNmap then None
      else case ParsePorts (wu_ports u) of
          Inl _ \<Rightarrow> None
        | Inr ports \<Rightarrow>
            if length ports \<le> minRetryPortChunk then None
            else let mid = length ports div 2 in
              if mid = 0 \<or> mid \<ge> length ports then None
              else Some (split_ports u (take mid ports), (split_ports u (drop mid ports))\<lparr>wu_sequence := 0\<rparr>))"
    by (simp add: SplitWorkUnit_def)
  then show ?thesis using assms False
    by (intro ports [of "length (unit_ports u) div 2"])
      (auto simp: unit_ports_def Let_def not_le split: if_splits sum.splits)
qed

lemma sequence_fields [simp]:
  "wu_addresses (u\<lparr>wu_sequence := s\<rparr>) = wu_addresses u" "unit_ports (u\<lparr>wu_sequence := s\<rparr>) = unit_ports u"
  by (simp_all add: unit_ports_def)

lemma split_addresses_fields [simp]:
  "wu_addresses (split_addresses u as) = as" "unit_ports (split_addresses u as) = unit_ports u"
  "wu_protocol (split_addresses u as) = wu_protocol u" "wu_engine (split_addresses u as) = wu_engine u"
  "wu_port_count (split_addresses u as) = wu_port_count u"
  by (simp_all add: split_addresses_def unit_ports_def)

lemma split_ports_fields [simp]:
  "wu_addresses (split_ports u ps) = wu_addresses u" "wu_protocol (split_ports u ps) = wu_protocol u"
  "wu_engine (split_ports u ps) = wu_engine u" "wu_port_count (split_ports u ps) = int (length ps)"
  "wu_targets (split_ports u ps) = wu_targets u"
  "port_list ps \<Longrightarrow> ps \<noteq> [] \<Longrightarrow> unit_ports (split_ports u ps) = ps"
  by (simp_all add: split_ports_def unit_ports_def ParsePorts_formatPorts)

lemma parsed_halves:
  assumes "ParsePorts e = Inr ps" "0 < mid" "mid < length ps"
  shows "port_list (take mid ps)" "take mid ps \<noteq> []" "port_list (drop mid ps)" "drop mid ps \<noteq> []"
proof -
  have "port_list (take mid ps @ drop mid ps)" using ParsePorts_port_list [OF assms(1)] by simp
  then show "port_list (take mid ps)" "port_list (drop mid ps)" using port_list_append by blast+
  show "take mid ps \<noteq> []" "drop mid ps \<noteq> []" using assms(2,3) by auto
qed

definition unit_size :: "work_unit \<Rightarrow> nat" where
  "unit_size u = length (wu_addresses u) + length (unit_ports u)"

lemma split_smaller:
  assumes "SplitWorkUnit u = Some (l, r)"
  shows "unit_size l < unit_size u \<and> unit_size r < unit_size u"
  using assms
proof (cases rule: split_cases)
  case (addresses mid)
  then show ?thesis by (simp add: unit_size_def)
next
  case (ports mid)
  then show ?thesis using parsed_halves [OF ports(5,3,4)] by (simp add: unit_size_def)
qed

section \<open>Every halving\<close>

text \<open>A unit that times out at every attempt, in the order of the retries.\<close>

function halve_all :: "work_unit \<Rightarrow> work_unit list" where
  "halve_all u = (case SplitWorkUnit u of None \<Rightarrow> [u] | Some (l, r) \<Rightarrow> halve_all l @ halve_all r)"
  by pat_completeness auto
termination
  by (relation "measure unit_size") (auto dest: split_smaller)

declare halve_all.simps [simp del]

lemma halve_induct [case_names whole halves]:
  assumes "\<And>u. SplitWorkUnit u = None \<Longrightarrow> P u [u]"
    and "\<And>u l r ls rs. SplitWorkUnit u = Some (l, r) \<Longrightarrow> P l ls \<Longrightarrow> P r rs \<Longrightarrow> P u (ls @ rs)"
  shows "P u (halve_all u)"
proof (induction u rule: halve_all.induct)
  case (1 u)
  then show ?case by (subst halve_all.simps) (use assms in \<open>auto split: option.splits\<close>)
qed

text \<open>
  C25: Halving ends. However often a unit times out, its pieces are reached after finitely many
  halvings, and none can be halved again: each has at most one address, and at most 256 ports
  unless it is a Naabu unit, which keeps all of its ports, or its expression is invalid.
\<close>

theorem halving_ends:
  "\<forall>v \<in> set (halve_all u). SplitWorkUnit v = None \<and> length (wu_addresses v) \<le> 1 \<and>
     (wu_engine v = EngineNaabuNmap \<and> wu_engine u = EngineNaabuNmap \<or> length (unit_ports v) \<le> 256)"
proof (induction u rule: halve_induct)
  case (whole u)
  then have "length (wu_addresses u) \<le> 1" by (auto simp: SplitWorkUnit_def Let_def split: if_splits)
  moreover have "wu_engine u = EngineNaabuNmap \<or> length (unit_ports u) \<le> 256"
    using whole by (auto simp: SplitWorkUnit_def Let_def unit_ports_def minRetryPortChunk_def split: if_splits sum.splits)
  ultimately show ?case using whole by simp
next
  case (halves u l r ls rs)
  have "wu_engine l = wu_engine u \<and> wu_engine r = wu_engine u"
    using halves(1) by (cases rule: split_cases) simp_all
  then show ?case using halves(2,3) by auto
qed

section \<open>The pieces\<close>

lemma split_covers:
  assumes "SplitWorkUnit u = Some (l, r)" "distinct (wu_addresses u)"
  shows "unit_covers p a q u = (unit_covers p a q l \<or> unit_covers p a q r) \<and> \<not> (unit_covers p a q l \<and> unit_covers p a q r) \<and>
    distinct (wu_addresses l) \<and> distinct (wu_addresses r)"
  using assms(1)
proof (cases rule: split_cases)
  case (addresses mid)
  let ?t = "take mid (wu_addresses u)" and ?d = "drop mid (wu_addresses u)"
  have "set (wu_addresses u) = set ?t \<union> set ?d" by (metis append_take_drop_id set_append)
  moreover have "set ?t \<inter> set ?d = {}" using assms(2) by (metis append_take_drop_id distinct_append)
  ultimately show ?thesis using assms(2) by (auto simp: addresses unit_covers_def)
next
  case (ports mid)
  let ?t = "take mid (unit_ports u)" and ?d = "drop mid (unit_ports u)"
  note h = parsed_halves [OF ports(5,3,4)]
  have "distinct (unit_ports u)" using port_list_distinct ParsePorts_port_list [OF ports(5)] by blast
  then have "set ?t \<inter> set ?d = {}" by (metis append_take_drop_id distinct_append)
  moreover have "set (unit_ports u) = set ?t \<union> set ?d" by (metis append_take_drop_id set_append)
  ultimately show ?thesis using assms(2) h by (auto simp: ports(7,8) unit_covers_def)
qed

lemma halves_cover:
  "distinct (wu_addresses u) \<longrightarrow> length (filter (unit_covers p a q) (halve_all u)) = (if unit_covers p a q u then 1 else 0)"
proof (induction u rule: halve_induct)
  case (halves u l r ls rs)
  then show ?case using split_covers [OF halves(1), of p a q] by auto
qed simp

text \<open>
  Halving loses and repeats nothing: when any units of a plan are replaced by their pieces,
  every configured address and port is still probed by exactly one of them.
\<close>

theorem halved_plan_partitions_the_scan:
  assumes "Plan_scan exclusions lookup maxJobHosts j = Inr plan"
    and "\<forall>i < length pieces. pieces ! i = [wp_units plan ! i] \<or> pieces ! i = halve_all (wp_units plan ! i)"
    and "length pieces = length (wp_units plan)"
  shows "length (filter (unit_covers p a q) (concat pieces)) =
    (if a \<in> plan_addresses plan \<and> q \<in> set (planned_ports (NormalizeJob j) p) then 1 else 0)"
proof -
  have "length (filter (unit_covers p a q) (concat ps)) = length (filter (unit_covers p a q) us)"
    if "list_all2 (\<lambda>ps u. ps = [u] \<or> ps = halve_all u) ps us" "\<forall>u \<in> set us. distinct (wu_addresses u)" for ps us
    using that
  proof (induction rule: list_all2_induct)
    case (Cons x xs y ys)
    have "length (filter (unit_covers p a q) x) = length (filter (unit_covers p a q) [y])"
      using Cons halves_cover [of y p a q] by (cases "unit_covers p a q y") auto
    then show ?case using Cons by simp
  qed simp
  moreover have "list_all2 (\<lambda>ps u. ps = [u] \<or> ps = halve_all u) pieces (wp_units plan)"
    using assms(2,3) by (simp add: list_all2_conv_all_nth)
  moreover have "distinct (wu_addresses u)" if "u \<in> set (wp_units plan)" for u
    using plan_unit_distinct [OF assms(1) that] .
  ultimately show ?thesis using plan_count [OF assms(1), of p a q] by simp
qed


section \<open>Probe counts\<close>

text \<open>The unit counts \<open>factor\<close> probes for each address and port, and its port count is right.\<close>

definition consistent_unit :: "int \<Rightarrow> work_unit \<Rightarrow> bool" where
  "consistent_unit factor u \<longleftrightarrow>
     1 \<le> factor \<and> wu_addresses u \<noteq> [] \<and> wu_port_count u = int (length (unit_ports u)) \<and> 1 \<le> wu_port_count u \<and>
     wu_probes u = int (length (wu_addresses u)) * wu_port_count u * factor \<and> wu_probes u \<le> max_int64"

lemma scale_exact:
  assumes "consistent_unit f u" "1 \<le> n" "n \<le> int (length (wu_addresses u))" "1 \<le> m" "m \<le> wu_port_count u"
  shows "scaleWorkUnitProbes u n m = n * m * f" "n * m * f \<le> max_int64"
proof -
  let ?d = "int (length (wu_addresses u)) * wu_port_count u"
  have c: "1 \<le> f" "wu_probes u = ?d * f" "wu_probes u \<le> max_int64" "1 \<le> wu_port_count u"
    using assms(1) by (auto simp: consistent_unit_def)
  have "1 * 1 \<le> n * m" by (rule mult_mono) (use assms in auto)
  then have nm: "1 \<le> n * m" by simp
  have nd: "n * m \<le> ?d" by (rule mult_mono) (use assms in auto)
  then have d: "1 \<le> ?d" using nm by linarith
  have "n * m * 1 \<le> n * m * f" "?d * 1 \<le> ?d * f" by (rule mult_left_mono; use nm d c(1) in linarith)+
  moreover have "n * m * f \<le> ?d * f" by (rule mult_right_mono) (use nd c(1) in auto)
  ultimately have bounds: "n * m \<le> max_int64" "n * m * f \<le> max_int64" "?d \<le> max_int64" "1 \<le> n * m * f" "1 \<le> ?d * f"
    using c(2,3) nm d by linarith+
  have w: "wrap64 x = x" if "1 \<le> x" "x \<le> max_int64" for x using that by (intro wrap64_id) (simp_all add: max_int64_def)
  have "(?d * f) div ?d = f" by (rule nonzero_mult_div_cancel_left) (use d in linarith)
  then show "scaleWorkUnitProbes u n m = n * m * f"
    using bounds nm d c assms(2,4) by (simp add: scaleWorkUnitProbes_def Let_def w)
  show "n * m * f \<le> max_int64" by (rule bounds)
qed

lemma split_consistent:
  assumes "SplitWorkUnit u = Some (l, r)" "consistent_unit f u"
  shows "consistent_unit f l \<and> consistent_unit f r \<and> wu_probes l + wu_probes r = wu_probes u"
  using assms(1)
proof (cases rule: split_cases)
  case (addresses mid)
  let ?n = "int (length (wu_addresses u))"
  let ?p = "int (length (unit_ports u))"
  have c: "1 \<le> f" "wu_probes u = ?n * ?p * f" "1 \<le> ?p" "wu_port_count u = ?p"
    using assms(2) by (auto simp: consistent_unit_def)
  have t: "scaleWorkUnitProbes u (int mid) ?p = int mid * ?p * f" "int mid * ?p * f \<le> max_int64"
    by (rule scale_exact [OF assms(2)]; use addresses(1,2) c in simp)+
  have d: "scaleWorkUnitProbes u (?n - int mid) ?p = (?n - int mid) * ?p * f" "(?n - int mid) * ?p * f \<le> max_int64"
    by (rule scale_exact [OF assms(2)]; use addresses(1,2) c in simp)+
  have count: "int (length (take mid (wu_addresses u))) = int mid" "int (length (drop mid (wu_addresses u))) = ?n - int mid"
    using addresses(1,2) by (simp_all add: of_nat_diff)
  have l: "wu_probes (split_addresses u (take mid (wu_addresses u))) = int mid * ?p * f"
    "wu_probes (split_addresses u (drop mid (wu_addresses u))) = (?n - int mid) * ?p * f"
    unfolding split_addresses_def by (simp_all only: count c(4) t(1) d(1)) simp_all
  have "wu_probes l + wu_probes r = wu_probes u" by (simp add: addresses(3,4) l c(2) left_diff_distrib)
  moreover have "take mid (wu_addresses u) \<noteq> []" "drop mid (wu_addresses u) \<noteq> []" using addresses(1,2) by auto
  ultimately show ?thesis using t(2) d(2) c(1,3,4) count
    by (simp add: addresses(3,4) consistent_unit_def l)
next
  case (ports mid)
  let ?n = "int (length (wu_addresses u))" and ?p = "int (length (unit_ports u))"
  note h = parsed_halves [OF ports(5,3,4)]
  have c: "1 \<le> f" "wu_probes u = ?n * ?p * f" "wu_port_count u = ?p" "1 \<le> ?n" "wu_addresses u \<noteq> []"
    using assms(2) by (auto simp: consistent_unit_def Suc_le_eq)
  have count: "int (length (take mid (unit_ports u))) = int mid" "int (length (drop mid (unit_ports u))) = ?p - int mid"
    using ports(3,4) by (simp_all add: of_nat_diff)
  have t: "scaleWorkUnitProbes u ?n (int mid) = ?n * int mid * f" "?n * int mid * f \<le> max_int64"
    by (rule scale_exact [OF assms(2) c(4) order_refl]; use ports(3,4) c(3) in simp)+
  have d: "scaleWorkUnitProbes u ?n (?p - int mid) = ?n * (?p - int mid) * f" "?n * (?p - int mid) * f \<le> max_int64"
    by (rule scale_exact [OF assms(2) c(4) order_refl]; use ports(3,4) c(3) in simp)+
  have l: "wu_probes (split_ports u (take mid (unit_ports u))) = ?n * int mid * f"
    "wu_probes (split_ports u (drop mid (unit_ports u))) = ?n * (?p - int mid) * f"
    unfolding split_ports_def by (simp_all only: count t(1) d(1)) simp_all
  have "wu_probes l + wu_probes r = wu_probes u" by (simp add: ports(7,8) l c(2) algebra_simps)
  moreover have "1 \<le> int mid" "1 \<le> ?p - int mid" using ports(3,4) by auto
  ultimately show ?thesis using t(2) d(2) c(1,5) count h
    by (simp add: ports(7,8) consistent_unit_def l)
qed

text \<open>
  Halving loses and invents no probes: if a unit counts its ports and probes right, as those
  of a plan do, then every piece does, and the counts of the pieces add up to that of the unit.
\<close>

theorem halving_conserves_probes:
  assumes "consistent_unit factor u"
  shows "(\<forall>v \<in> set (halve_all u). consistent_unit factor v) \<and> sum_list (map wu_probes (halve_all u)) = wu_probes u"
proof -
  have "consistent_unit factor u \<longrightarrow> (\<forall>v \<in> set (halve_all u). consistent_unit factor v) \<and>
      sum_list (map wu_probes (halve_all u)) = wu_probes u"
  proof (induction u rule: halve_induct)
    case (halves u l r ls rs)
    show ?case
    proof
      assume "consistent_unit factor u"
      then have "consistent_unit factor l" "consistent_unit factor r" "wu_probes l + wu_probes r = wu_probes u"
        using split_consistent [OF halves(1)] by blast+
      then show "(\<forall>v \<in> set (ls @ rs). consistent_unit factor v) \<and> sum_list (map wu_probes (ls @ rs)) = wu_probes u"
        using halves(2,3) by (simp add: ball_Un)
    qed
  qed simp
  then show ?thesis using assms by (rule mp)
qed

text \<open>
  A unit without a port count loses its probes when its addresses are halved, although its
  ports are known from its expression, which the halving of ports does use.
\<close>

theorem address_halves_without_port_count:
  assumes "SplitWorkUnit u = Some (first, second)" "length (wu_addresses u) > 1" "wu_port_count u \<le> 0"
  shows "wu_probes first = 0 \<and> wu_probes second = 0"
  using assms(1)
proof (cases rule: split_cases)
  case (addresses mid)
  have "wu_probes (split_addresses u as) = 0" for as using assms(3) by (simp add: split_addresses_def scaleWorkUnitProbes_def)
  then show ?thesis by (simp only: addresses(3,4)) simp
next
  case (ports mid)
  then show ?thesis using assms(2) by linarith
qed

section \<open>Examples\<close>

definition example_split_unit :: "int \<Rightarrow> work_unit" where
  "example_split_unit n = \<lparr>wu_sequence = 3, wu_engine = [], wu_phase = [], wu_protocol = ''tcp'', wu_family = 4,
     wu_targets = [], wu_addresses = [''192.0.2.1'', ''192.0.2.2''], wu_ports = ''80,443'', wu_port_count = n,
     wu_probes = 4\<rparr>"

theorem halving_ends_witness: "list_all (\<lambda>v. length (wu_addresses v) \<le> 1) (halve_all (example_split_unit 2))"
  using halving_ends [of "example_split_unit 2"] by (simp add: list_all_iff)

theorem halved_plan_partitions_the_scan_witness:
  "length (filter (unit_covers ''tcp'' ''192.0.2.1'' 443) (concat (map halve_all (wp_units example_scan_plan)))) = 1"
proof -
  have "''192.0.2.1'' \<in> plan_addresses example_scan_plan" by code_simp
  moreover have "(443 :: int) \<in> set (planned_ports (NormalizeJob example_plan_job) ''tcp'')" by code_simp
  ultimately show ?thesis
    using halved_plan_partitions_the_scan [OF example_plan_runs, of "map halve_all (wp_units example_scan_plan)"
        "''tcp''" "''192.0.2.1''" 443] by simp
qed

theorem halving_conserves_probes_witness: "sum_list (map wu_probes (halve_all (example_split_unit 2))) = 4"
proof -
  have "consistent_unit 1 (example_split_unit 2)" by code_simp
  from halving_conserves_probes [OF this] show ?thesis by (simp add: example_split_unit_def)
qed

theorem address_halves_without_port_count_witness:
  "\<exists>first second. SplitWorkUnit (example_split_unit 0) = Some (first, second) \<and> wu_probes first + wu_probes second = 0"
proof -
  have "\<not> Option.is_none (SplitWorkUnit (example_split_unit 0))" by code_simp
  then obtain first second where s: "SplitWorkUnit (example_split_unit 0) = Some (first, second)"
    by (auto simp: Option.is_none_def)
  moreover have "length (wu_addresses (example_split_unit 0)) > 1" "wu_port_count (example_split_unit 0) \<le> 0"
    by (simp_all add: example_split_unit_def)
  ultimately show ?thesis using address_halves_without_port_count [OF s] by simp
qed

end
