(* ===== verification/Cycle.thy ===== *)
theory Cycle
  imports Plan
begin

text \<open>
  \<open>internal/store/cycle.go\<close>: the durable state of a scan that takes several attempts, and
  every transaction that changes it.

  A cycle is the row of \<open>scan_cycles\<close> together with its rows of \<open>scan_cycle_units\<close> and of
  \<open>scan_cycle_discovery_checkpoints\<close>. Every transaction touches one cycle, except the
  housekeeping that expires several and the discarding of a job's cycles, so an operation is a
  function on a cycle: it returns its result or error with the state it committed. The columns
  \<open>identity\<close>, \<open>phase\<close> and \<open>probes\<close> of a unit are functions of the stored work unit, with
  which they are always written. A checkpoint is \<open>None\<close> while the column holds the sentinel
  \<open>{}\<close>, which no snapshot is stored as.

  A time is a number of nanoseconds, 0 the zero time; the column of a time is \<open>None\<close> when it is
  empty. A failing database is not modelled: its errors end a transaction without a change.
  SQLite adds the 64-bit columns as integers; sums that Go makes wrap.
\<close>

section \<open>The rows\<close>

record cycle_unit =
  cu_sequence :: int
  cu_unit :: work_unit
  cu_status :: string
  cu_attempts :: int
  cu_failures :: int
  cu_snapshot :: "snapshot option"
  cu_started :: "int option"
  cu_finished :: "int option"
  cu_last_error :: string

record scan_cycle =
  cy_id :: string
  cy_job_id :: string
  cy_job :: string
  cy_revision :: int
  cy_config_hash :: string
  cy_execution_hash :: string
  cy_epoch :: int
  cy_plan :: work_plan
  cy_status :: string
  cy_attempts :: int
  cy_no_progress :: int
  cy_total_units :: int
  cy_completed_units :: int
  cy_total_probes :: int
  cy_completed_probes :: int
  cy_started :: int
  cy_attempt_started :: "int option"
  cy_updated :: int
  cy_expires :: "int option"
  cy_finished :: "int option"
  cy_last_error :: string
  cy_units :: "cycle_unit list"
  cy_processed :: "int list"

datatype cycle_error =
    JobRequired
  | NoWorkUnits
  | UniqueConstraint
  | ErrNoScanCycle
  | ErrNoRows
  | ErrNoPendingUnit
  | ErrCycleNotResumable
  | UnitNotRunning int
  | ErrCycleIncomplete int int
  | ErrMissingCheckpoint int
  | ErrJobScanActive
  | BadFailureLimit

text \<open>\<open>status IN ('running','paused','stalled')\<close>.\<close>

definition active :: "scan_cycle \<Rightarrow> bool" where
  "active c = (cy_status c = ''running'' \<or> cy_status c = ''paused'' \<or> cy_status c = ''stalled'')"

text \<open>Rows selected or updated by the primary key.\<close>

definition unit_row :: "int \<Rightarrow> cycle_unit list \<Rightarrow> cycle_unit option" where
  "unit_row sequence units = find (\<lambda>u. cu_sequence u = sequence) units"

definition update_row :: "int \<Rightarrow> (cycle_unit \<Rightarrow> cycle_unit) \<Rightarrow> cycle_unit list \<Rightarrow> cycle_unit list" where
  "update_row sequence f units = map (\<lambda>u. if cu_sequence u = sequence then f u else u) units"

definition next_sequence :: "cycle_unit list \<Rightarrow> int" where
  "next_sequence units = fold (\<lambda>u. max (cu_sequence u)) units (- 1) + 1"

definition trimCycleError :: "string \<Rightarrow> string" where
  "trimCycleError raw0 =
     (let raw = trimSpace raw0 in
      if length raw > 500 then take 500 raw @ [CHR 0xE2, CHR 0x80, CHR 0xA6] else raw)"

section \<open>Creating a cycle\<close>

definition resume_default :: int where
  "resume_default = 8 * 24 * 3600 * 10 ^ 9"

definition new_unit :: "work_unit \<Rightarrow> cycle_unit" where
  "new_unit u = \<lparr>cu_sequence = wu_sequence u, cu_unit = u, cu_status = ''pending'', cu_attempts = 0, cu_failures = 0,
     cu_snapshot = None, cu_started = None, cu_finished = None, cu_last_error = []\<rparr>"

text \<open>\<open>uuid\<close> is the fresh identifier that \<open>uuid.NewString\<close> would give.\<close>

definition CreateScanCycle :: "string \<Rightarrow> int \<Rightarrow> scan_cycle \<Rightarrow> cycle_error + scan_cycle" where
  "CreateScanCycle uuid clock cycle =
     (let units = wp_units (cy_plan cycle) in
      if cy_job_id cycle = [] \<or> cy_job cycle = [] then Inl JobRequired
      else if units = [] then Inl NoWorkUnits
      else if \<not> distinct (map wu_sequence units) then Inl UniqueConstraint
      else
        let now = (if cy_started cycle = 0 then clock else cy_started cycle);
            probes = fold (\<lambda>u p. wrap64 (p + wu_probes u)) units 0
        in Inr (cycle\<lparr>cy_id := (if cy_id cycle = [] then uuid else cy_id cycle), cy_started := now,
             cy_updated := (if cy_updated cycle = 0 then now else cy_updated cycle),
             cy_expires := (if cy_expires cycle = None then Some (now + resume_default) else cy_expires cycle),
             cy_attempt_started := None, cy_finished := None,
             cy_status := ''paused'', cy_total_units := int (length units), cy_total_probes := probes,
             cy_plan := (cy_plan cycle)\<lparr>wp_total_units := int (length units), wp_total_probes := probes, wp_units := []\<rparr>,
             cy_units := map new_unit units, cy_processed := []\<rparr>))"

section \<open>Ending a cycle\<close>

text \<open>
  The checkpoints of an ended cycle are emptied in batches until a batch is short, which empties
  all of them.
\<close>

definition clearExpiredCyclePayloads :: "scan_cycle \<Rightarrow> scan_cycle" where
  "clearExpiredCyclePayloads c = c\<lparr>cy_units := map (\<lambda>u. if cu_snapshot u = None then u
     else u\<lparr>cu_snapshot := None, cu_last_error := ''cycle expired''\<rparr>) (cy_units c)\<rparr>"

definition expire_row :: "int \<Rightarrow> scan_cycle \<Rightarrow> scan_cycle" where
  "expire_row now c = c\<lparr>cy_status := ''expired'', cy_updated := now, cy_finished := Some now,
     cy_last_error := ''scan cycle exceeded its resume window''\<rparr>"

text \<open>
  As SQLite compares the column: the empty text is before every time. \<open>leased\<close> says whether the
  cycle's job has a live lease.
\<close>

definition expires_by :: "int \<Rightarrow> scan_cycle \<Rightarrow> bool" where
  "expires_by now c = (case cy_expires c of None \<Rightarrow> True | Some e \<Rightarrow> e \<le> now)"

definition ExpireScanCycle :: "int \<Rightarrow> scan_cycle \<Rightarrow> scan_cycle" where
  "ExpireScanCycle now c =
     (if active c \<and> expires_by now c then clearExpiredCyclePayloads (expire_row now c) else c)"

definition expiredScanCycle :: "(string \<Rightarrow> bool) \<Rightarrow> int \<Rightarrow> scan_cycle \<Rightarrow> bool" where
  "expiredScanCycle leased now c = (active c \<and> expires_by now c \<and> \<not> leased (cy_job_id c))"

definition ExpireScanCycles :: "(string \<Rightarrow> bool) \<Rightarrow> int \<Rightarrow> scan_cycle list \<Rightarrow> scan_cycle list \<times> int" where
  "ExpireScanCycles leased now cycles =
     (map (\<lambda>c. if expiredScanCycle leased now c then clearExpiredCyclePayloads (expire_row now c) else c) cycles,
      int (length (filter (expiredScanCycle leased now) cycles)))"

definition discard_row :: "int \<Rightarrow> string \<Rightarrow> scan_cycle \<Rightarrow> scan_cycle" where
  "discard_row now reason c = c\<lparr>cy_status := ''discarded'', cy_updated := now, cy_finished := Some now,
     cy_last_error := reason, cy_completed_units := 0, cy_total_units := 0, cy_completed_probes := 0,
     cy_total_probes := 0, cy_units := []\<rparr>"

text \<open>\<open>promoted\<close> says whether the cycle has a merged scan in the history.\<close>

definition DiscardScanCycle :: "bool \<Rightarrow> bool \<Rightarrow> int \<Rightarrow> scan_cycle \<Rightarrow> (cycle_error + unit) \<times> scan_cycle" where
  "DiscardScanCycle leased promoted now c =
     (if \<not> active c \<and> cy_status c \<noteq> ''completed'' then (Inl ErrCycleNotResumable, c)
      else if cy_status c = ''running'' \<and> leased then (Inl ErrJobScanActive, c)
      else if cy_status c = ''completed'' \<and> promoted then (Inl ErrCycleNotResumable, c)
      else (Inr (), discard_row now ''discarded by administrator'' c))"

text \<open>\<open>failures\<close> counts the failed attempts to promote the cycle.\<close>

definition DiscardCompletedScanCycleAfterFinalizationFailures ::
  "bool \<Rightarrow> int \<Rightarrow> int \<Rightarrow> int \<Rightarrow> int \<Rightarrow> scan_cycle \<Rightarrow> (cycle_error + bool) \<times> scan_cycle" where
  "DiscardCompletedScanCycleAfterFinalizationFailures promoted failures now baselineEpoch maxFailures c =
     (if maxFailures < 1 then (Inl BadFailureLimit, c)
      else if cy_status c \<noteq> ''completed'' \<or> cy_epoch c \<noteq> baselineEpoch then (Inr False, c)
      else if promoted then (Inr False, c)
      else if failures < maxFailures then (Inr False, c)
      else (Inr True, discard_row now ''repeated scan result finalization failures; saved progress was discarded'' c))"

text \<open>The baseline of the job changed: \<open>discardUnpromotedCyclesTx\<close> keeps the counters.\<close>

definition discardUnpromoted :: "bool \<Rightarrow> int \<Rightarrow> string \<Rightarrow> scan_cycle \<Rightarrow> scan_cycle" where
  "discardUnpromoted promoted now reason c =
     (if active c \<or> cy_status c = ''completed'' \<and> \<not> promoted
      then c\<lparr>cy_status := ''discarded'', cy_updated := now, cy_finished := Some now,
        cy_last_error := trimCycleError reason, cy_units := []\<rparr>
      else c)"

text \<open>The business unit of the job was paused while its scan was saved.\<close>

definition discardPaused :: "int \<Rightarrow> scan_cycle \<Rightarrow> scan_cycle" where
  "discardPaused now c =
     (if cy_status c = ''completed'' then c\<lparr>cy_status := ''discarded'', cy_updated := now, cy_finished := Some now,
        cy_last_error := ''discarded because the business unit was paused'', cy_units := []\<rparr>
      else c)"

text \<open>After the merged scan was saved.\<close>

definition clearCompletedScanCycleCheckpoints :: "bool \<Rightarrow> scan_cycle \<Rightarrow> scan_cycle" where
  "clearCompletedScanCycleCheckpoints promoted c =
     (if promoted then c\<lparr>cy_units := map (\<lambda>u. u\<lparr>cu_snapshot := None\<rparr>) (cy_units c)\<rparr> else c)"

section \<open>An attempt\<close>

text \<open>The resume window as Go reads it: an empty or zero time has not elapsed.\<close>

definition window_elapsed :: "int \<Rightarrow> scan_cycle \<Rightarrow> bool" where
  "window_elapsed now c = (case cy_expires c of None \<Rightarrow> False | Some e \<Rightarrow> e \<noteq> 0 \<and> e \<le> now)"

definition StartScanCycleAttempt :: "int \<Rightarrow> scan_cycle \<Rightarrow> (cycle_error + unit) \<times> scan_cycle" where
  "StartScanCycleAttempt now c =
     (if \<not> active c then (Inl ErrCycleNotResumable, c)
      else if window_elapsed now c then (Inl ErrCycleNotResumable, clearExpiredCyclePayloads (expire_row now c))
      else (Inr (), c\<lparr>cy_units := map (\<lambda>u. if cu_status u = ''running''
             then u\<lparr>cu_status := ''pending'', cu_started := None\<rparr> else u) (cy_units c),
           cy_status := ''running'', cy_attempts := cy_attempts c + 1, cy_attempt_started := Some now, cy_updated := now\<rparr>))"

definition pending_units :: "scan_cycle \<Rightarrow> cycle_unit list" where
  "pending_units c = sort_key cu_sequence (filter (\<lambda>u. cu_status u = ''pending'') (cy_units c))"

definition NextScanCycleUnit :: "scan_cycle \<Rightarrow> cycle_error + cycle_unit" where
  "NextScanCycleUnit c =
     (if cy_status c \<noteq> ''running''
      then (if cy_status c = ''completed'' then Inl ErrNoPendingUnit else Inl ErrCycleNotResumable)
      else case pending_units c of [] \<Rightarrow> Inl ErrNoPendingUnit | u # _ \<Rightarrow> Inr u)"

definition claimable :: "int \<Rightarrow> int \<Rightarrow> scan_cycle \<Rightarrow> bool" where
  "claimable now sequence c =
     ((case unit_row sequence (cy_units c) of None \<Rightarrow> False | Some u \<Rightarrow> cu_status u = ''pending'') \<and>
      cy_status c = ''running'' \<and> (case cy_expires c of None \<Rightarrow> True | Some e \<Rightarrow> e > now))"

definition claim :: "int \<Rightarrow> cycle_unit \<Rightarrow> cycle_unit" where
  "claim now u = u\<lparr>cu_status := ''running'', cu_attempts := cu_attempts u + 1, cu_started := Some now, cu_last_error := []\<rparr>"

definition ClaimScanCycleUnit :: "int \<Rightarrow> int \<Rightarrow> scan_cycle \<Rightarrow> (cycle_error + cycle_unit) \<times> scan_cycle" where
  "ClaimScanCycleUnit now sequence c =
     (if claimable now sequence c
      then (case unit_row sequence (cy_units c) of
              None \<Rightarrow> (Inl ErrNoRows, c)
            | Some u \<Rightarrow> (Inr (claim now u), c\<lparr>cy_units := update_row sequence (claim now) (cy_units c)\<rparr>))
      else if cy_status c \<noteq> ''running'' then (Inl ErrCycleNotResumable, c)
      else if window_elapsed now c then (Inl ErrCycleNotResumable, ExpireScanCycle now c)
      else (Inl ErrNoPendingUnit, c))"

definition complete_unit :: "int \<Rightarrow> snapshot \<Rightarrow> cycle_unit \<Rightarrow> cycle_unit" where
  "complete_unit now snapshot u = u\<lparr>cu_status := ''completed'', cu_snapshot := Some snapshot, cu_finished := Some now, cu_last_error := []\<rparr>"

definition CompleteScanCycleUnit :: "int \<Rightarrow> int \<Rightarrow> snapshot \<Rightarrow> scan_cycle \<Rightarrow> (cycle_error + unit) \<times> scan_cycle" where
  "CompleteScanCycleUnit now sequence snapshot c =
     (case unit_row sequence (cy_units c) of
        None \<Rightarrow> (Inl ErrNoRows, c)
      | Some u \<Rightarrow>
          if cu_status u = ''completed'' then (Inr (), c)
          else if cu_status u \<noteq> ''running'' then (Inl (UnitNotRunning sequence), c)
          else if cy_status c \<noteq> ''running'' then (Inl ErrCycleNotResumable, c)
          else (Inr (), c\<lparr>cy_units := update_row sequence (complete_unit now snapshot) (cy_units c),
                 cy_completed_units := cy_completed_units c + 1,
                 cy_completed_probes := cy_completed_probes c + wu_probes (cu_unit u), cy_updated := now\<rparr>))"

definition retryScanCycleUnit :: "int \<Rightarrow> string \<Rightarrow> bool \<Rightarrow> scan_cycle \<Rightarrow> (cycle_error + unit) \<times> scan_cycle" where
  "retryScanCycleUnit sequence lastError countFailure c =
     (if (case unit_row sequence (cy_units c) of None \<Rightarrow> False | Some u \<Rightarrow> cu_status u = ''running'') \<and> cy_status c = ''running''
      then (Inr (), c\<lparr>cy_units := update_row sequence (\<lambda>u. u\<lparr>cu_status := ''pending'',
             cu_failures := cu_failures u + (if countFailure then 1 else 0), cu_last_error := trimCycleError lastError\<rparr>) (cy_units c)\<rparr>)
      else if cy_status c \<noteq> ''running'' then (Inl ErrCycleNotResumable, c)
      else (Inl ErrNoPendingUnit, c))"

definition RetryScanCycleUnit :: "int \<Rightarrow> string \<Rightarrow> scan_cycle \<Rightarrow> (cycle_error + unit) \<times> scan_cycle" where
  "RetryScanCycleUnit sequence lastError = retryScanCycleUnit sequence lastError False"

definition RetryScanCycleUnitAfterFailure :: "int \<Rightarrow> string \<Rightarrow> scan_cycle \<Rightarrow> (cycle_error + unit) \<times> scan_cycle" where
  "RetryScanCycleUnitAfterFailure sequence lastError = retryScanCycleUnit sequence lastError True"

definition SplitScanCycleUnit ::
  "int \<Rightarrow> int \<Rightarrow> work_unit \<Rightarrow> work_unit \<Rightarrow> string \<Rightarrow> scan_cycle \<Rightarrow> (cycle_error + unit) \<times> scan_cycle" where
  "SplitScanCycleUnit now sequence first second0 lastError c =
     (case unit_row sequence (cy_units c) of
        None \<Rightarrow> (Inl ErrNoRows, c)
      | Some u \<Rightarrow>
          if cu_status u = ''completed'' then (Inr (), c)
          else if cu_status u \<noteq> ''running'' then (Inl ErrCycleNotResumable, c)
          else if cy_status c \<noteq> ''running'' then (Inl ErrCycleNotResumable, c)
          else
            let next = next_sequence (cy_units c);
                second = second0\<lparr>wu_sequence := next\<rparr>;
                delta = wrap64 (wrap64 (wu_probes first + wu_probes second) - wu_probes (cu_unit u))
            in (Inr (), c\<lparr>
                 cy_units := update_row sequence (\<lambda>u. u\<lparr>cu_unit := first, cu_status := ''pending'', cu_failures := 0,
                     cu_last_error := trimCycleError lastError\<rparr>) (cy_units c) @
                   [(new_unit second)\<lparr>cu_attempts := cu_attempts u\<rparr>],
                 cy_total_units := cy_total_units c + 1, cy_total_probes := cy_total_probes c + delta,
                 cy_updated := now, cy_last_error := trimCycleError lastError\<rparr>))"

definition PauseScanCycle :: "int \<Rightarrow> bool \<Rightarrow> string \<Rightarrow> scan_cycle \<Rightarrow> scan_cycle" where
  "PauseScanCycle now noProgress lastError c =
     (if active c then c\<lparr>cy_status := ''paused'', cy_no_progress := (if noProgress then cy_no_progress c + 1 else 0),
        cy_updated := now, cy_last_error := trimCycleError lastError\<rparr> else c)"

definition MarkScanCycleStalled :: "int \<Rightarrow> string \<Rightarrow> scan_cycle \<Rightarrow> scan_cycle" where
  "MarkScanCycleStalled now lastError c =
     (if active c then c\<lparr>cy_status := ''stalled'', cy_updated := now, cy_last_error := trimCycleError lastError\<rparr> else c)"

definition CompleteScanCycle :: "int \<Rightarrow> scan_cycle \<Rightarrow> (cycle_error + unit) \<times> scan_cycle" where
  "CompleteScanCycle now c =
     (if cy_status c = ''completed'' then (Inr (), c)
      else if cy_status c \<noteq> ''running'' then (Inl ErrCycleNotResumable, c)
      else if cy_completed_units c \<noteq> cy_total_units c then (Inl (ErrCycleIncomplete (cy_completed_units c) (cy_total_units c)), c)
      else (Inr (), c\<lparr>cy_status := ''completed'', cy_updated := now, cy_finished := Some now, cy_last_error := []\<rparr>))"

text \<open>The checkpoints of the completed units, in order.\<close>

fun load_fragments :: "cycle_unit list \<Rightarrow> cycle_error + snapshot list" where
  "load_fragments [] = Inr []"
| "load_fragments (u # us) =
     (case cu_snapshot u of
        None \<Rightarrow> Inl (ErrMissingCheckpoint (cu_sequence u))
      | Some s \<Rightarrow> (case load_fragments us of Inl e \<Rightarrow> Inl e | Inr ss \<Rightarrow> Inr (s # ss)))"

definition LoadScanCycleFragments :: "scan_cycle \<Rightarrow> cycle_error + work_plan \<times> snapshot list" where
  "LoadScanCycleFragments c =
     (case load_fragments (sort_key cu_sequence (filter (\<lambda>u. cu_status u = ''completed'') (cy_units c))) of
        Inl e \<Rightarrow> Inl e
      | Inr fragments \<Rightarrow> Inr ((cy_plan c)\<lparr>wp_total_units := cy_total_units c, wp_total_probes := cy_total_probes c\<rparr>, fragments))"

text \<open>\<open>ScanCycleProbeTotals\<close>: the probes of discovery and of the rest.\<close>

definition ScanCycleProbeTotals :: "scan_cycle \<Rightarrow> int \<times> int" where
  "ScanCycleProbeTotals c =
     (sum_list (map (\<lambda>u. wu_probes (cu_unit u)) (filter (\<lambda>u. wu_phase (cu_unit u) = ''discovery'') (cy_units c))),
      sum_list (map (\<lambda>u. wu_probes (cu_unit u)) (filter (\<lambda>u. wu_phase (cu_unit u) \<noteq> ''discovery'') (cy_units c))))"

end
