(* ===== verification/CycleEnrich.thy ===== *)
theory CycleEnrich
  imports Cycle
begin

text \<open>
  The enrichment of a Naabu cycle (\<open>ReconcileScanCycleEnrichment\<close> in
  \<open>internal/store/cycle.go\<close>): from the checkpoints of discovery, and from the ports that the job
  tracks, the units that Nmap confirms, and after the last discovery the UDP units.

  The maps that the code only fills and then reads in sorted order are association lists. The
  runtime state of the job is a parameter: \<open>None\<close> when the job has no row, and the empty state
  when the row cannot be read.
\<close>

section \<open>Addresses, ports and identities\<close>

definition scanCycleReconcileBatchSize :: nat where "scanCycleReconcileBatchSize = 64"

definition normalizeCycleAddress :: "string \<Rightarrow> string" where
  "normalizeCycleAddress raw = (case parseIP (trimSpace raw) of None \<Rightarrow> [] | Some ip \<Rightarrow> ipString ip)"

definition formatCyclePorts :: "int list \<Rightarrow> string" where
  "formatCyclePorts ports = formatPorts (sort ports)"

definition boolFactor :: "bool \<Rightarrow> int" where
  "boolFactor serviceDetection = (if serviceDetection then 2 else 1)"

definition scanCycleUnitIdentity :: "work_unit \<Rightarrow> string" where
  "scanCycleUnitIdentity u = joinWith [CHR 0x00]
     [wu_engine u, wu_phase u, wu_protocol u, itoa (wu_family u), wu_ports u, joinWith '','' (sort (wu_addresses u))]"

definition cycle_family :: "string \<Rightarrow> int" where
  "cycle_family address = (case parseIP address of None \<Rightarrow> 4 | Some ip \<Rightarrow> if is_mapped ip then 4 else 6)"

definition subsetCycleTargets :: "resolved_target list \<Rightarrow> string list \<Rightarrow> resolved_target list" where
  "subsetCycleTargets targets addresses =
     (let selected = set (filter (\<lambda>a. a \<noteq> []) (map normalizeCycleAddress addresses)) in
      filter (\<lambda>t. rt_addresses t \<noteq> [])
        (map (\<lambda>t. t\<lparr>rt_addresses := sort (filter (\<lambda>a. a \<noteq> [] \<and> a \<in> selected) (map normalizeCycleAddress (rt_addresses t)))\<rparr>) targets))"

section \<open>The ports a job tracks\<close>

type_synonym port_sets = "(string, int list) gomap"

definition ports_at :: "port_sets \<Rightarrow> string \<Rightarrow> int list" where
  "ports_at m address = (case mget m address of None \<Rightarrow> [] | Some ports \<Rightarrow> ports)"

definition expectTCPPorts :: "string \<Rightarrow> int list \<Rightarrow> port_sets \<Rightarrow> port_sets" where
  "expectTCPPorts address ports expected = mput address (fold List.insert ports (ports_at expected address)) expected"

definition isPositiveCyclePortState :: "string \<Rightarrow> bool" where
  "isPositiveCyclePortState state = (let s = toLower (trimSpace state) in s = ''open'' \<or> s = ''open|filtered'')"

definition changeExpectsOpenPort :: "change \<Rightarrow> bool" where
  "changeExpectsOpenPort c =
     (if c_kind c = ''port'' \<or> c_kind c = ''port-address'' then isPositiveCyclePortState (c_new c)
      else if c_kind c = ''service'' then trimSpace (c_new c) \<noteq> [] \<and> trimSpace (c_new c) \<noteq> ''not-open''
      else False)"

definition target_map :: "resolved_target list \<Rightarrow> (string, string list) gomap" where
  "target_map targets = fold (\<lambda>t m. mput (rt_name t) ((case mget m (rt_name t) of None \<Rightarrow> [] | Some as \<Rightarrow> as) @ rt_addresses t) m) targets []"

definition pinned_to :: "(string, string list) gomap \<Rightarrow> string \<Rightarrow> string list" where
  "pinned_to m target = (case mget m target of None \<Rightarrow> [] | Some as \<Rightarrow> as)"

definition add_tracked :: "(string, string list) gomap \<Rightarrow> change \<Rightarrow> port_sets \<Rightarrow> port_sets" where
  "add_tracked targets c expected =
     (if \<not> equalFold (c_protocol c) ''tcp'' \<or> c_port c < 1 \<or> c_port c > 65535 \<or> \<not> changeExpectsOpenPort c then expected
      else let addresses = (if pinned_to targets (c_target c) = [] then [c_target c] else pinned_to targets (c_target c)) in
        fold (\<lambda>a m. let address = normalizeCycleAddress a in
            if address = [] then m else expectTCPPorts address [c_port c] m) addresses expected)"

definition addTrackedChangeTCPPorts :: "job_state \<Rightarrow> (string, string list) gomap \<Rightarrow> port_sets \<Rightarrow> port_sets" where
  "addTrackedChangeTCPPorts state targets expected =
     fold (\<lambda>(_, c). add_tracked targets c) (js_suppressed_changes state)
       (fold (\<lambda>(_, p). add_tracked targets (p_change p)) (js_pending state)
         (fold (\<lambda>(_, i). add_tracked targets (i_change i)) (js_incidents state) expected))"

definition positive_ports :: "unit_obs \<Rightarrow> int list" where
  "positive_ports u = map ps_port (filter (\<lambda>p. ps_port p \<ge> 1 \<and> ps_port p \<le> 65535 \<and> isPositiveCyclePortState (ps_state p)) (u_ports u))"

definition add_baseline_unit :: "(string, string list) gomap \<Rightarrow> unit_obs \<Rightarrow> port_sets \<Rightarrow> port_sets" where
  "add_baseline_unit targets u expected =
     (if \<not> equalFold (u_protocol u) ''tcp'' \<or> positive_ports u = [] then expected
      else let given = u_addresses u @ pinned_to targets (u_target u);
               addresses = (if given = [] then [u_target u] else given)
           in fold (\<lambda>a m.
             let address = (if normalizeCycleAddress a = [] then normalizeCycleAddress (u_target u) else normalizeCycleAddress a)
             in if address = [] then m else expectTCPPorts address (positive_ports u) m) addresses expected)"

definition expectedTCPPorts :: "string \<Rightarrow> job_state option \<Rightarrow> resolved_target list \<Rightarrow> port_sets" where
  "expectedTCPPorts jobID runtime targets =
     (if trimSpace jobID = [] then []
      else case runtime of
          None \<Rightarrow> []
        | Some state \<Rightarrow>
            let m = target_map targets; expected = addTrackedChangeTCPPorts state m [] in
            case js_baseline state of
              None \<Rightarrow> expected
            | Some baseline \<Rightarrow> fold (add_baseline_unit m) (sn_units baseline) expected)"

section \<open>The units of one batch\<close>

text \<open>A completed discovery unit that was not expanded yet, with its decoded checkpoint.\<close>

definition row_hosts :: "cycle_unit \<Rightarrow> host_observation list" where
  "row_hosts row = (case cu_snapshot row of None \<Rightarrow> [] | Some s \<Rightarrow> sn_hosts s)"

definition batch_addresses :: "cycle_unit list \<Rightarrow> string list" where
  "batch_addresses pending = filter (\<lambda>a. a \<noteq> []) (concat (map (\<lambda>row.
     map normalizeCycleAddress (wu_addresses (cu_unit row)) @ map (\<lambda>h. normalizeCycleAddress (ho_address h)) (row_hosts row)) pending))"

definition expected_in_batch :: "port_sets \<Rightarrow> string list \<Rightarrow> port_sets" where
  "expected_in_batch expected addresses =
     fold (\<lambda>(address, ports) m. if address \<notin> set addresses \<or> ports = [] then m else expectTCPPorts address ports m) expected []"

definition discovered_ports :: "protocol_observation \<Rightarrow> int list" where
  "discovered_ports p = filter (\<lambda>q. q \<ge> 1 \<and> q \<le> 65535) (map pob_port (po_discovered_ports p))"

definition add_discovered :: "host_observation \<Rightarrow> port_sets \<Rightarrow> port_sets" where
  "add_discovered h m =
     (let address = normalizeCycleAddress (ho_address h) in
      if address = [] then m
      else fold (\<lambda>p m'. if po_protocol p \<noteq> ''tcp'' \<or> po_discovery_engine p \<noteq> ''naabu'' then m'
          else expectTCPPorts address (discovered_ports p) m') (ho_protocols h) m)"

definition ports_by_address :: "port_sets \<Rightarrow> cycle_unit list \<Rightarrow> port_sets" where
  "ports_by_address expected pending =
     fold (\<lambda>row m. fold add_discovered (row_hosts row) m) pending (expected_in_batch expected (batch_addresses pending))"

definition group_key :: "string \<times> int list \<Rightarrow> string" where
  "group_key entry = itoa (cycle_family (fst entry)) @ CHR 0x00 # formatCyclePorts (snd entry)"

text \<open>The addresses with the same family and ports, in the order of the keys of the groups.\<close>

definition discovery_groups :: "port_sets \<Rightarrow> (int \<times> int list \<times> string list) list" where
  "discovery_groups m =
     (let entries = filter (\<lambda>(_, ports). ports \<noteq> []) m;
          of_key = (\<lambda>key. filter (\<lambda>entry. group_key entry = key) entries)
      in map (\<lambda>key. (cycle_family (fst (hd (of_key key))), sort (snd (hd (of_key key))), sort (map fst (of_key key))))
           (sort (remdups (map group_key entries))))"

definition enrichment_template :: "protocol_scan \<Rightarrow> string list" where
  "enrichment_template tcp = (if sp_enrichment_args tcp = [] then sp_nmap_args tcp else sp_enrichment_args tcp)"

definition enrichment_unit ::
  "work_plan \<Rightarrow> protocol_scan \<Rightarrow> int \<Rightarrow> string list \<Rightarrow> int list \<Rightarrow> work_unit" where
  "enrichment_unit plan tcp family addresses ports =
     \<lparr>wu_sequence = 0, wu_engine = EngineNmap, wu_phase = ''enrichment'', wu_protocol = ''tcp'', wu_family = family,
      wu_targets = subsetCycleTargets (wp_targets plan) addresses, wu_addresses = addresses,
      wu_ports = formatCyclePorts ports, wu_port_count = int (length ports),
      wu_probes = int (length addresses) * int (length ports) * boolFactor (sp_service tcp)\<rparr>"

definition enrichment_units :: "work_plan \<Rightarrow> protocol_scan \<Rightarrow> port_sets \<Rightarrow> work_unit list" where
  "enrichment_units plan tcp m =
     concat (map (\<lambda>(family, ports, addresses).
       concat (map (\<lambda>batch. map (enrichment_unit plan tcp family batch)
           (chunks (nat (perChunk (int (length batch)) (boolFactor (sp_service tcp)))) ports))
         (chunks (nat (NmapAddressBatchLimit (enrichment_template tcp))) addresses)))
       (discovery_groups m))"

definition udp_addresses :: "work_plan \<Rightarrow> int \<Rightarrow> string list" where
  "udp_addresses plan family =
     sort (filter (\<lambda>a. cycle_family a = family)
       (remdups (filter (\<lambda>a. a \<noteq> []) (concat (map (\<lambda>t. map normalizeCycleAddress (rt_addresses t)) (wp_targets plan))))))"

definition udp_unit :: "work_plan \<Rightarrow> protocol_scan \<Rightarrow> int \<Rightarrow> string list \<Rightarrow> int list \<Rightarrow> work_unit" where
  "udp_unit plan udp family batch chunk =
     \<lparr>wu_sequence = 0, wu_engine = EngineNmap, wu_phase = ''udp'', wu_protocol = ''udp'', wu_family = family,
      wu_targets = subsetCycleTargets (wp_targets plan) batch, wu_addresses = batch,
      wu_ports = formatCyclePorts chunk, wu_port_count = int (length chunk),
      wu_probes = int (length batch) * int (length chunk) * boolFactor (sp_service udp)\<rparr>"

definition buildCycleUDPUnits :: "work_plan \<Rightarrow> work_unit list" where
  "buildCycleUDPUnits plan =
     (case wj_udp (wp_job plan) of
        None \<Rightarrow> []
      | Some udp \<Rightarrow>
          (case ParsePorts (sp_ports udp) of
             Inl _ \<Rightarrow> []
           | Inr ports \<Rightarrow>
               concat (map (\<lambda>family. concat (map (\<lambda>batch. map (udp_unit plan udp family batch)
                   (chunks (nat (perChunk (int (length batch)) (boolFactor (sp_service udp)))) ports))
                 (chunks 128 (udp_addresses plan family)))) [4, 6])))"

text \<open>
  Generated units take the sequence numbers in turn, also those that are left out because a unit
  with the same identity exists.
\<close>

definition number_from :: "int \<Rightarrow> work_unit list \<Rightarrow> work_unit list" where
  "number_from next us = map (\<lambda>(i, u). u\<lparr>wu_sequence := next + int i\<rparr>) (enumerated us)"

fun add_new :: "string list \<Rightarrow> work_unit list \<Rightarrow> work_unit list" where
  "add_new known [] = []"
| "add_new known (u # us) =
     (if scanCycleUnitIdentity u \<in> set known then add_new known us
      else u # add_new (scanCycleUnitIdentity u # known) us)"

section \<open>Reconciliation\<close>

definition is_discovery :: "cycle_unit \<Rightarrow> bool" where
  "is_discovery u = (wu_phase (cu_unit u) = ''discovery'')"

definition unprocessed :: "scan_cycle \<Rightarrow> cycle_unit list" where
  "unprocessed c = sort_key cu_sequence (filter (\<lambda>u. cu_status u = ''completed'' \<and> is_discovery u \<and>
     cu_sequence u \<notin> set (cy_processed c)) (cy_units c))"

definition tcp_of :: "work_plan \<Rightarrow> protocol_scan" where
  "tcp_of plan = (case wj_tcp (wp_job plan) of None \<Rightarrow> no_protocol | Some tcp \<Rightarrow> tcp)"

text \<open>
  UDP comes after the last discovery batch, once every discovery unit is completed, unless there
  are UDP units already.
\<close>

definition udp_due :: "scan_cycle \<Rightarrow> bool" where
  "udp_due c =
     (let pending = take scanCycleReconcileBatchSize (unprocessed c);
          morePending = (\<exists>u \<in> set (unprocessed c). pending \<noteq> [] \<and> cu_sequence u > cu_sequence (last pending));
          discoveryComplete = (\<forall>u \<in> set (filter is_discovery (cy_units c)). cu_status u = ''completed'')
      in discoveryComplete \<and> \<not> morePending \<and> wj_udp (wp_job (cy_plan c)) \<noteq> None \<and>
         (\<forall>u \<in> set (cy_units c). wu_phase (cu_unit u) \<noteq> ''udp''))"

text \<open>The units one batch adds: enrichment numbered from the next sequence, then UDP.\<close>

definition added_units :: "job_state option \<Rightarrow> scan_cycle \<Rightarrow> work_unit list" where
  "added_units runtime c =
     (let pending = take scanCycleReconcileBatchSize (unprocessed c);
          plan = cy_plan c;
          expected = expectedTCPPorts (cy_job_id c) runtime (wp_targets plan);
          enrichment = number_from (next_sequence (cy_units c)) (enrichment_units plan (tcp_of plan) (ports_by_address expected pending));
          udp = number_from (next_sequence (cy_units c) + int (length enrichment)) (if udp_due c then buildCycleUDPUnits plan else [])
      in add_new (map (\<lambda>u. scanCycleUnitIdentity (cu_unit u)) (cy_units c)) (enrichment @ udp))"

definition reconcileBatch :: "int \<Rightarrow> job_state option \<Rightarrow> scan_cycle \<Rightarrow> scan_cycle \<times> bool" where
  "reconcileBatch now runtime c =
     (if \<not> active c then (c, False)
      else if filter is_discovery (cy_units c) = [] then (c, False)
      else
        let pending = take scanCycleReconcileBatchSize (unprocessed c);
            added = added_units runtime c;
            marked = c\<lparr>cy_processed := fold List.insert (map cu_sequence pending) (cy_processed c)\<rparr>
        in if added = [] then (marked, pending \<noteq> [])
           else (marked\<lparr>cy_units := cy_units c @ map new_unit added,
               cy_total_units := cy_total_units c + int (length added),
               cy_total_probes := cy_total_probes c + fold (\<lambda>u p. wrap64 (p + wu_probes u)) added 0,
               cy_updated := now\<rparr>, True))"

text \<open>
  Batches until one finds nothing to do: a turn that works expands discovery units, or adds the
  UDP units, after which there are UDP units.
\<close>

definition reconcile_measure :: "scan_cycle \<Rightarrow> nat" where
  "reconcile_measure c = 2 * length (unprocessed c) +
     (if \<exists>u \<in> set (cy_units c). wu_phase (cu_unit u) = ''udp'' then 0 else 1)"


lemma set_fold_insert [simp]: "set (fold List.insert xs ys) = set xs \<union> set ys"
  by (induction xs arbitrary: ys) auto

lemma chunks_Nil [simp]: "chunks n [] = []"
  by (simp add: chunks.simps)

lemma no_rows_no_units [simp]: "ports_by_address expected [] = []" "enrichment_units plan tcp [] = []"
proof -
  have "expected_in_batch expected [] = []" for expected :: port_sets
    unfolding expected_in_batch_def by (induction expected) auto
  then show "ports_by_address expected [] = []" by (simp add: ports_by_address_def batch_addresses_def)
  show "enrichment_units plan tcp [] = []" by (simp add: enrichment_units_def discovery_groups_def)
qed

lemma add_new_subset: "set (add_new known us) \<subseteq> set us"
  by (induction known us rule: add_new.induct) auto

lemma number_from_fields:
  assumes "u \<in> set (number_from n us)"
  obtains v i where "v \<in> set us" "u = v\<lparr>wu_sequence := i\<rparr>" "n \<le> i"
  using assms by (auto simp: number_from_def enumerated_def in_set_zip) (metis nth_mem le_add_same_cancel1 of_nat_0_le_iff)

lemma number_from_Nil [simp]: "number_from n [] = []"
  by (simp add: number_from_def enumerated_def)

lemma udp_phase: "u \<in> set (buildCycleUDPUnits plan) \<Longrightarrow> wu_phase u = ''udp''"
  by (auto simp: buildCycleUDPUnits_def udp_unit_def split: option.splits sum.splits)

text \<open>What a turn that works does to the rows.\<close>

lemma reconcileBatch_works:
  assumes "reconcileBatch now runtime c = (c', True)"
  shows "reconcile_measure c' < reconcile_measure c"
proof -
  let ?pending = "take scanCycleReconcileBatchSize (unprocessed c)" and ?added = "added_units runtime c"
  have units: "cy_units c' = cy_units c @ map new_unit ?added"
    and processed: "set (cy_processed c') = set (cy_processed c) \<union> cu_sequence ` set ?pending"
    and worked: "?pending \<noteq> [] \<or> ?added \<noteq> []"
    using assms by (auto simp: reconcileBatch_def Let_def split: if_splits)
  have "set (filter (\<lambda>u. cu_status u = ''completed'' \<and> is_discovery u \<and> cu_sequence u \<notin> set (cy_processed c')) (cy_units c')) \<subseteq>
      set (filter (\<lambda>u. cu_status u = ''completed'' \<and> is_discovery u \<and> cu_sequence u \<notin> set (cy_processed c)) (cy_units c))"
    by (auto simp: units processed new_unit_def)
  have new: "filter (\<lambda>u. cu_status u = ''completed'' \<and> is_discovery u \<and> cu_sequence u \<notin> set (cy_processed c')) (cy_units c') =
      filter (\<lambda>u. cu_status u = ''completed'' \<and> is_discovery u \<and> cu_sequence u \<notin> set (cy_processed c) \<and>
        cu_sequence u \<notin> cu_sequence ` set ?pending) (cy_units c)"
    by (simp add: units processed new_unit_def conj_assoc)
  show ?thesis
  proof (cases "?pending = []")
    case True
    then have none: "unprocessed c = []" by (simp add: scanCycleReconcileBatchSize_def)
    then have same: "length (unprocessed c') = 0" using new True by (simp add: unprocessed_def) 
    obtain u where u: "u \<in> set ?added" using worked True by (cases ?added) auto
    have member: "u \<in> set (number_from (next_sequence (cy_units c)) (if udp_due c then buildCycleUDPUnits (cy_plan c) else []))"
    proof (rule subsetD [OF add_new_subset])
      show "u \<in> set (add_new (map (\<lambda>u. scanCycleUnitIdentity (cu_unit u)) (cy_units c))
          (number_from (next_sequence (cy_units c)) (if udp_due c then buildCycleUDPUnits (cy_plan c) else [])))"
        using u unfolding added_units_def Let_def none by (simp only: take_Nil no_rows_no_units number_from_Nil list.size int_ops add_0_right append_Nil)
    qed
    then have due: "udp_due c" by (rule contrapos_pp) simp
    with member have "u \<in> set (number_from (next_sequence (cy_units c)) (buildCycleUDPUnits (cy_plan c)))" by simp
    then have "wu_phase u = ''udp''" using udp_phase by (auto elim: number_from_fields)
    from due have "\<forall>u \<in> set (cy_units c). wu_phase (cu_unit u) \<noteq> ''udp''" by (simp add: udp_due_def)
    moreover note \<open>wu_phase u = ''udp''\<close>
    then have "wu_phase (cu_unit (new_unit u)) = ''udp''" "new_unit u \<in> set (cy_units c')" using u by (simp_all add: units new_unit_def)
    then have "\<exists>v \<in> set (cy_units c'). wu_phase (cu_unit v) = ''udp''" by blast
    ultimately show ?thesis by (auto simp: reconcile_measure_def same)
  next
    case False
    then obtain p where p: "p \<in> set ?pending" by (cases ?pending) auto
    then have "p \<in> set (unprocessed c)" by (rule in_set_takeD)
    then have old: "p \<in> set (filter (\<lambda>u. cu_status u = ''completed'' \<and> is_discovery u \<and> cu_sequence u \<notin> set (cy_processed c)) (cy_units c))"
      by (simp add: unprocessed_def)
    have "length (unprocessed c') < length (unprocessed c)"
    proof -
      let ?old = "filter (\<lambda>u. cu_status u = ''completed'' \<and> is_discovery u \<and> cu_sequence u \<notin> set (cy_processed c)) (cy_units c)"
      have "length (unprocessed c') = length (filter (\<lambda>u. cu_sequence u \<notin> cu_sequence ` set ?pending) ?old)"
        unfolding unprocessed_def length_sort new by (simp add: conj_ac)
      also have "\<dots> < length ?old" using old p by (intro length_filter_less) auto
      finally show ?thesis by (simp add: unprocessed_def)
    qed
    moreover have "(\<exists>v \<in> set (cy_units c). wu_phase (cu_unit v) = ''udp'') \<longrightarrow> (\<exists>v \<in> set (cy_units c'). wu_phase (cu_unit v) = ''udp'')"
      by (auto simp: units)
    ultimately show ?thesis by (auto simp: reconcile_measure_def)
  qed
qed

function drain :: "int \<Rightarrow> job_state option \<Rightarrow> scan_cycle \<Rightarrow> scan_cycle" where
  "drain now runtime c = (case reconcileBatch now runtime c of (c', worked) \<Rightarrow> if worked then drain now runtime c' else c')"
  by pat_completeness auto
termination
  by (relation "measure (\<lambda>(_, _, c). reconcile_measure c)") (auto dest: reconcileBatch_works [OF sym])

declare drain.simps [simp del]

definition ReconcileScanCycleEnrichment :: "int \<Rightarrow> job_state option \<Rightarrow> scan_cycle \<Rightarrow> scan_cycle" where
  "ReconcileScanCycleEnrichment now runtime c =
     (if \<not> active c then c else if \<not> is_naabu (wp_job (cy_plan c)) then c else drain now runtime c)"

end
