(* ===== verification/CycleFacts.thy ===== *)
theory CycleFacts
  imports CycleEnrich PlanSplit
begin

text \<open>
  The life of a scan cycle as a step relation over the transactions of its store, in any order
  and with any interruption between them, and what holds in every reachable cycle.
\<close>

section \<open>Steps\<close>

text \<open>
  A unit is only split into the halves of \<open>SplitWorkUnit\<close>, and checkpoints are only reclaimed
  for a cycle with a merged scan, which only a completed cycle has.
\<close>

inductive cycle_step :: "scan_cycle \<Rightarrow> scan_cycle \<Rightarrow> bool" where
  start: "cycle_step c (snd (StartScanCycleAttempt now c))"
| claim: "cycle_step c (snd (ClaimScanCycleUnit now sequence c))"
| checkpoint: "cycle_step c (snd (CompleteScanCycleUnit now sequence snapshot c))"
| retry: "cycle_step c (snd (retryScanCycleUnit sequence lastError countFailure c))"
| split: "unit_row sequence (cy_units c) = Some u \<Longrightarrow> SplitWorkUnit (cu_unit u) = Some (first, second) \<Longrightarrow>
    cycle_step c (snd (SplitScanCycleUnit now sequence first second lastError c))"
| pause: "cycle_step c (PauseScanCycle now noProgress lastError c)"
| stall: "cycle_step c (MarkScanCycleStalled now lastError c)"
| complete: "cycle_step c (snd (CompleteScanCycle now c))"
| expire: "cycle_step c (ExpireScanCycle now c)"
| discard: "cycle_step c (snd (DiscardScanCycle leased promoted now c))"
| give_up: "cycle_step c (snd (DiscardCompletedScanCycleAfterFinalizationFailures promoted failures now baselineEpoch maxFailures c))"
| new_baseline: "cycle_step c (discardUnpromoted promoted now reason c)"
| paused_tenant: "cycle_step c (discardPaused now c)"
| reclaim: "cy_status c = ''completed'' \<Longrightarrow> cycle_step c (clearCompletedScanCycleCheckpoints True c)"
| reconcile: "cycle_step c (fst (reconcileBatch now runtime c))"

inductive cycle_reach :: "scan_cycle \<Rightarrow> scan_cycle \<Rightarrow> bool" where
  here: "cycle_reach c c"
| step: "cycle_reach c c' \<Longrightarrow> cycle_step c' c'' \<Longrightarrow> cycle_reach c c''"

section \<open>Rows\<close>

lemma unit_row_Some:
  assumes "unit_row n us = Some u"
  shows "u \<in> set us \<and> cu_sequence u = n"
  using assms by (auto simp: unit_row_def find_Some_iff)

lemma unit_row_split:
  assumes "unit_row n us = Some u" "distinct (map cu_sequence us)"
  obtains as bs where "us = as @ u # bs" "\<forall>f. update_row n f us = as @ f u # bs"
proof -
  obtain as bs where us: "us = as @ u # bs" using unit_row_Some [OF assms(1)] by (meson split_list)
  have "update_row n f us = as @ f u # bs" for f
  proof -
    have "cu_sequence v \<noteq> n" if "v \<in> set as \<union> set bs" for v
      using that assms(2) unit_row_Some [OF assms(1)] by (auto simp: us image_iff)
    then show ?thesis using unit_row_Some [OF assms(1)] by (auto simp: us update_row_def intro!: map_idI)
  qed
  with us show thesis by (intro that) auto
qed

lemma update_row_sequences: "(\<And>u. cu_sequence (f u) = cu_sequence u) \<Longrightarrow> map cu_sequence (update_row n f us) = map cu_sequence us"
  by (simp add: update_row_def)

lemma next_sequence_above: "u \<in> set us \<Longrightarrow> cu_sequence u < next_sequence us"
proof -
  have "(\<forall>u \<in> set us. cu_sequence u \<le> fold (\<lambda>u. max (cu_sequence u)) us m) \<and> m \<le> fold (\<lambda>u. max (cu_sequence u)) us m" for m
  proof (induction us arbitrary: m)
    case (Cons u us)
    from Cons [of "max (cu_sequence u) m"] show ?case by auto
  qed simp
  then show "u \<in> set us \<Longrightarrow> cu_sequence u < next_sequence us" by (fastforce simp: next_sequence_def)
qed

section \<open>The invariant\<close>

definition done_units :: "scan_cycle \<Rightarrow> cycle_unit list" where
  "done_units c = filter (\<lambda>u. cu_status u = ''completed'') (cy_units c)"

definition probes_of :: "cycle_unit list \<Rightarrow> int" where
  "probes_of us = sum_list (map (\<lambda>u. wu_probes (cu_unit u)) us)"

lemma probes_of_append [simp]: "probes_of (us @ vs) = probes_of us + probes_of vs"
  by (simp add: probes_of_def)

definition unit_ok :: "cycle_unit \<Rightarrow> bool" where
  "unit_ok u \<longleftrightarrow> cu_status u \<in> {''pending'', ''running'', ''completed''} \<and>
     (cu_status u \<noteq> ''completed'' \<longrightarrow> cu_snapshot u = None) \<and> wu_sequence (cu_unit u) = cu_sequence u"

definition rows_ok :: "scan_cycle \<Rightarrow> bool" where
  "rows_ok c \<longleftrightarrow> distinct (map cu_sequence (cy_units c)) \<and> (\<forall>u \<in> set (cy_units c). unit_ok u)"

definition counts_ok :: "scan_cycle \<Rightarrow> bool" where
  "counts_ok c \<longleftrightarrow>
     cy_total_units c = int (length (cy_units c)) \<and> cy_completed_units c = int (length (done_units c)) \<and>
     wrap64 (cy_total_probes c) = wrap64 (probes_of (cy_units c)) \<and> cy_completed_probes c = probes_of (done_units c)"

definition cycle_ok :: "scan_cycle \<Rightarrow> bool" where
  "cycle_ok c \<longleftrightarrow>
     cy_status c \<in> {''running'', ''paused'', ''stalled'', ''completed'', ''expired'', ''discarded''} \<and>
     rows_ok c \<and> (cy_status c \<noteq> ''discarded'' \<longrightarrow> counts_ok c) \<and> (cy_status c = ''discarded'' \<longrightarrow> cy_units c = []) \<and>
     (cy_status c = ''completed'' \<longrightarrow> (\<forall>u \<in> set (cy_units c). cu_status u = ''completed'')) \<and>
     (active c \<longrightarrow> (\<forall>u \<in> set (done_units c). cu_snapshot u \<noteq> None))"

lemma rows_cong: "cy_units c' = cy_units c \<Longrightarrow> rows_ok c' = rows_ok c"
  by (simp add: rows_ok_def)

lemma counts_cong:
  "cy_units c' = cy_units c \<Longrightarrow> cy_total_units c' = cy_total_units c \<Longrightarrow> cy_completed_units c' = cy_completed_units c \<Longrightarrow>
   cy_total_probes c' = cy_total_probes c \<Longrightarrow> cy_completed_probes c' = cy_completed_probes c \<Longrightarrow> counts_ok c' = counts_ok c"
  by (simp add: counts_ok_def done_units_def)

lemma active_cases: "active c \<Longrightarrow> cy_status c \<noteq> ''discarded'' \<and> cy_status c \<noteq> ''completed'' \<and> cy_status c \<noteq> ''expired''"
  by (auto simp: active_def)

lemma cycle_okD:
  assumes "cycle_ok c"
  shows "rows_ok c" "cy_status c \<noteq> ''discarded'' \<Longrightarrow> counts_ok c" "active c \<Longrightarrow> counts_ok c"
    "active c \<Longrightarrow> \<forall>u \<in> set (done_units c). cu_snapshot u \<noteq> None"
    "cy_status c = ''completed'' \<Longrightarrow> \<forall>u \<in> set (cy_units c). cu_status u = ''completed''"
    "cy_status c = ''discarded'' \<Longrightarrow> cy_units c = []"
  using assms active_cases [of c] unfolding cycle_ok_def by blast+

lemma cycle_ok_active:
  assumes "active c" "rows_ok c" "counts_ok c" "\<forall>u \<in> set (done_units c). cu_snapshot u \<noteq> None"
  shows "cycle_ok c"
  using assms active_cases [OF assms(1)] unfolding cycle_ok_def by (simp add: active_def)

lemma running_active: "cy_status c = ''running'' \<Longrightarrow> active c"
  by (simp add: active_def)

text \<open>Steps that change the columns of a row, but not its status, its unit or its number.\<close>

definition same_rows :: "cycle_unit list \<Rightarrow> cycle_unit list \<Rightarrow> bool" where
  "same_rows us vs \<longleftrightarrow> map (\<lambda>u. (cu_sequence u, cu_unit u, cu_status u = ''completed'')) us =
     map (\<lambda>u. (cu_sequence u, cu_unit u, cu_status u = ''completed'')) vs"

lemma filter_map_length: "length (filter P us) = length (filter id (map P us))"
  by (induction us) auto

lemma same_rows_counts:
  assumes "same_rows us vs"
  shows "length us = length vs" "length (filter (\<lambda>u. cu_status u = ''completed'') us) = length (filter (\<lambda>u. cu_status u = ''completed'') vs)"
    "probes_of us = probes_of vs"
    "probes_of (filter (\<lambda>u. cu_status u = ''completed'') us) = probes_of (filter (\<lambda>u. cu_status u = ''completed'') vs)"
    "map cu_sequence us = map cu_sequence vs" "map cu_unit us = map cu_unit vs"
proof -
  have l: "length us = length vs" using assms unfolding same_rows_def by (rule map_eq_imp_length_eq)
  have "list_all2 (\<lambda>u v. cu_sequence u = cu_sequence v \<and> cu_unit u = cu_unit v \<and> (cu_status u = ''completed'') = (cu_status v = ''completed'')) us vs"
    using assms l by (auto simp: same_rows_def list_all2_conv_all_nth list_eq_iff_nth_eq)
  then show "length us = length vs" "length (filter (\<lambda>u. cu_status u = ''completed'') us) = length (filter (\<lambda>u. cu_status u = ''completed'') vs)"
    "probes_of us = probes_of vs"
    "probes_of (filter (\<lambda>u. cu_status u = ''completed'') us) = probes_of (filter (\<lambda>u. cu_status u = ''completed'') vs)"
    "map cu_sequence us = map cu_sequence vs" "map cu_unit us = map cu_unit vs"
    by (induction rule: list_all2_induct) (auto simp: probes_of_def)
qed

lemma same_rows_map: "(\<And>u. cu_sequence (f u) = cu_sequence u \<and> cu_unit (f u) = cu_unit u \<and> (cu_status (f u) = ''completed'') = (cu_status u = ''completed'')) \<Longrightarrow>
    same_rows (map f us) us"
  by (simp add: same_rows_def)

lemma counts_same:
  assumes "same_rows (cy_units c') (cy_units c)" "cy_total_units c' = cy_total_units c" "cy_completed_units c' = cy_completed_units c"
    "cy_total_probes c' = cy_total_probes c" "cy_completed_probes c' = cy_completed_probes c"
  shows "counts_ok c' = counts_ok c"
  using same_rows_counts [OF assms(1)] assms(2-) by (simp add: counts_ok_def done_units_def)


section \<open>Preservation\<close>

lemma wrap64_mod: "wrap64 x mod 2 ^ 64 = x mod 2 ^ 64"
  by (simp add: wrap64_def mod_diff_left_eq)

lemma wrap64_eq: "wrap64 x = wrap64 y \<longleftrightarrow> x mod 2 ^ 64 = y mod 2 ^ 64"
proof
  assume "x mod 2 ^ 64 = y mod 2 ^ 64"
  then have "(x + 2 ^ 63) mod 2 ^ 64 = (y + 2 ^ 63) mod 2 ^ 64" by (rule mod_add_cong) simp
  then show "wrap64 x = wrap64 y" by (simp only: wrap64_def)
qed (metis wrap64_mod)

lemma cleared_same: "same_rows (cy_units (clearExpiredCyclePayloads c)) (cy_units c)"
  by (simp add: clearExpiredCyclePayloads_def same_rows_map)

lemma rows_map:
  assumes "rows_ok c" "\<And>u. u \<in> set (cy_units c) \<Longrightarrow> unit_ok u \<Longrightarrow> unit_ok (f u) \<and> cu_sequence (f u) = cu_sequence u"
    "cy_units c' = map f (cy_units c)"
  shows "rows_ok c'"
proof -
  have "map cu_sequence (cy_units c') = map cu_sequence (cy_units c)"
    unfolding assms(3) map_map comp_def using assms(1,2) by (intro map_cong [OF refl]) (simp add: rows_ok_def)
  then have "distinct (map cu_sequence (cy_units c'))" using assms(1) by (simp only: rows_ok_def)
  moreover have "\<forall>u \<in> set (cy_units c'). unit_ok u" using assms(1,2) unfolding assms(3) by (simp add: rows_ok_def)
  ultimately show ?thesis by (simp add: rows_ok_def)
qed

lemma cycle_ok_ended:
  assumes "cycle_ok c" "active c" "cy_status c' = ''expired''" "same_rows (cy_units c') (cy_units c)" "rows_ok c'"
    "cy_total_units c' = cy_total_units c" "cy_completed_units c' = cy_completed_units c"
    "cy_total_probes c' = cy_total_probes c" "cy_completed_probes c' = cy_completed_probes c"
  shows "cycle_ok c'"
proof -
  have "counts_ok c" using cycle_okD(3) [OF assms(1,2)] .
  then have "counts_ok c'" using counts_same [OF assms(4,6-9)] by simp
  moreover have "\<not> active c'" by (simp add: active_def assms(3))
  ultimately show ?thesis using assms(3,5) by (simp add: cycle_ok_def)
qed

lemma expire_ok: "cycle_ok c \<Longrightarrow> active c \<Longrightarrow> cycle_ok (clearExpiredCyclePayloads (expire_row now c))"
proof (rule cycle_ok_ended)
  assume c: "cycle_ok c" "active c"
  show "same_rows (cy_units (clearExpiredCyclePayloads (expire_row now c))) (cy_units c)"
    using cleared_same [of "expire_row now c"] by (simp add: expire_row_def)
  show "rows_ok (clearExpiredCyclePayloads (expire_row now c))"
    by (rule rows_map [OF cycle_okD(1) [OF c(1)],
        where f = "\<lambda>u. if cu_snapshot u = None then u else u\<lparr>cu_snapshot := None, cu_last_error := ''cycle expired''\<rparr>"])
      (auto simp: clearExpiredCyclePayloads_def expire_row_def unit_ok_def)
qed (simp_all add: clearExpiredCyclePayloads_def expire_row_def)

lemma discard_ok: "cycle_ok (discard_row now reason c)"
  by (simp add: cycle_ok_def discard_row_def rows_ok_def active_def)

text \<open>A step that leaves an active cycle active and its rows alone.\<close>

lemma cycle_ok_status:
  assumes "cycle_ok c" "active c" "active c'" "cy_units c' = cy_units c"
    "cy_total_units c' = cy_total_units c" "cy_completed_units c' = cy_completed_units c"
    "cy_total_probes c' = cy_total_probes c" "cy_completed_probes c' = cy_completed_probes c"
  shows "cycle_ok c'"
proof (rule cycle_ok_active [OF assms(3)])
  show "rows_ok c'" using cycle_okD(1) [OF assms(1)] rows_cong [OF assms(4)] by simp
  show "counts_ok c'" using cycle_okD(3) [OF assms(1,2)] counts_cong [OF assms(4-8)] by simp
  show "\<forall>u \<in> set (done_units c'). cu_snapshot u \<noteq> None" using cycle_okD(4) [OF assms(1,2)] by (simp add: done_units_def assms(4))
qed

text \<open>One row of a running cycle is replaced.\<close>

lemma replaced_row:
  assumes "cycle_ok c" "cy_status c = ''running''" "cy_status c' = ''running''" "cy_units c = as @ u # bs" "cy_units c' = as @ v # bs"
    "unit_ok v" "cu_sequence v = cu_sequence u" "cu_status u \<noteq> ''completed''"
    "cu_status v = ''completed'' \<Longrightarrow> cu_snapshot v \<noteq> None" "counts_ok c'"
  shows "cycle_ok c'"
proof -
  have old: "rows_ok c" "\<forall>w \<in> set (done_units c). cu_snapshot w \<noteq> None"
    using cycle_okD(1,4) [OF assms(1)] running_active [OF assms(2)] by blast+
  have "rows_ok c'" using old(1) assms(6,7) unfolding rows_ok_def assms(4,5) by simp
  moreover have "\<forall>w \<in> set (done_units c'). cu_snapshot w \<noteq> None"
    using old(2) assms(8,9) unfolding done_units_def assms(4,5) by (cases "cu_status v = ''completed''") simp_all
  ultimately show ?thesis using cycle_ok_active [OF running_active [OF assms(3)]] assms(10) by blast
qed

lemma running_counts: "cycle_ok c \<Longrightarrow> cy_status c = ''running'' \<Longrightarrow> counts_ok c \<and> rows_ok c"
  using cycle_okD(1,3) running_active by blast

lemma row_of:
  assumes "cycle_ok c" "unit_row n (cy_units c) = Some u"
  obtains as bs where "cy_units c = as @ u # bs" "\<forall>f. update_row n f (cy_units c) = as @ f u # bs" "unit_ok u"
proof -
  have "distinct (map cu_sequence (cy_units c))" "\<forall>u \<in> set (cy_units c). unit_ok u"
    using cycle_okD(1) [OF assms(1)] by (simp_all add: rows_ok_def)
  with unit_row_split [OF assms(2)] that unit_row_Some [OF assms(2)] show thesis by metis
qed

lemma start_ok: "cycle_ok c \<Longrightarrow> cycle_ok (snd (StartScanCycleAttempt now c))"
proof (cases "active c \<and> \<not> window_elapsed now c")
  case True
  assume c: "cycle_ok c"
  let ?f = "\<lambda>u. if cu_status u = ''running'' then u\<lparr>cu_status := ''pending'', cu_started := None\<rparr> else u"
  let ?c = "c\<lparr>cy_units := map ?f (cy_units c), cy_status := ''running'', cy_attempts := cy_attempts c + 1,
      cy_attempt_started := Some now, cy_updated := now\<rparr>"
  have "snd (StartScanCycleAttempt now c) = ?c" using True by (simp add: StartScanCycleAttempt_def)
  moreover have "rows_ok ?c" by (rule rows_map [OF cycle_okD(1) [OF c], of ?f]) (auto simp: unit_ok_def)
  moreover have "counts_ok ?c"
  proof -
    have "same_rows (cy_units ?c) (cy_units c)" unfolding scan_cycle.simps by (simp add: same_rows_map)
    from counts_same [OF this] show ?thesis using cycle_okD(3) [OF c] True by simp
  qed
  moreover have "\<forall>u \<in> set (done_units ?c). cu_snapshot u \<noteq> None"
    using cycle_okD(4) [OF c] True by (auto simp: done_units_def)
  ultimately show ?thesis using cycle_ok_active [of ?c] by (simp add: running_active)
next
  case False
  assume "cycle_ok c"
  then show ?thesis using False expire_ok by (cases "active c") (simp_all add: StartScanCycleAttempt_def)
qed

lemma expire_cycle_ok: "cycle_ok c \<Longrightarrow> cycle_ok (ExpireScanCycle now c)"
  using expire_ok by (simp add: ExpireScanCycle_def)

lemma claim_ok: "cycle_ok c \<Longrightarrow> cycle_ok (snd (ClaimScanCycleUnit now sequence c))"
proof (cases "claimable now sequence c")
  case True
  assume c: "cycle_ok c"
  from True obtain u where u: "unit_row sequence (cy_units c) = Some u" "cu_status u = ''pending''" "cy_status c = ''running''"
    by (auto simp: claimable_def split: option.splits)
  from c u(1) obtain as bs where us: "cy_units c = as @ u # bs" and vs: "\<forall>f. update_row sequence f (cy_units c) = as @ f u # bs"
    and ok: "unit_ok u" by (rule row_of)
  let ?c = "c\<lparr>cy_units := update_row sequence (claim now) (cy_units c)\<rparr>"
  have "unit_ok (claim now u)" using ok u(2) by (simp add: unit_ok_def claim_def)
  moreover have "counts_ok ?c"
    using running_counts [OF c u(3)] u(2) by (auto simp: counts_ok_def done_units_def us vs [unfolded us] probes_of_def claim_def)
  ultimately have "cycle_ok ?c"
    using u vs by (intro replaced_row [OF c u(3) _ us, of ?c "claim now u"]) (simp_all add: claim_def us)
  then show ?thesis using True u(1) by (simp add: ClaimScanCycleUnit_def)
next
  case False
  assume "cycle_ok c"
  then show ?thesis using False expire_cycle_ok by (simp add: ClaimScanCycleUnit_def)
qed


text \<open>The unit is being scanned.\<close>

definition runs :: "int \<Rightarrow> scan_cycle \<Rightarrow> bool" where
  "runs n c = (\<exists>u. unit_row n (cy_units c) = Some u \<and> cu_status u = ''running'' \<and> cy_status c = ''running'')"

lemma checkpoint_ok: "cycle_ok c \<Longrightarrow> cycle_ok (snd (CompleteScanCycleUnit now n snapshot c))"
proof -
  assume c: "cycle_ok c"
  show ?thesis
  proof (cases "runs n c")
    case False
    then have "snd (CompleteScanCycleUnit now n snapshot c) = c" by (simp add: CompleteScanCycleUnit_def runs_def split: option.splits)
    then show ?thesis using c by simp
  next
    case True
    then obtain u where 2: "unit_row n (cy_units c) = Some u" "cu_status u = ''running''" "cy_status c = ''running''"
      by (auto simp: runs_def)
    from c 2(1) obtain as bs where us: "cy_units c = as @ u # bs" and vs: "\<forall>f. update_row n f (cy_units c) = as @ f u # bs"
      and ok: "unit_ok u" by (rule row_of)
    let ?v = "complete_unit now snapshot u" and ?c = "snd (CompleteScanCycleUnit now n snapshot c)"
    have c': "?c = c\<lparr>cy_units := as @ ?v # bs, cy_completed_units := cy_completed_units c + 1,
        cy_completed_probes := cy_completed_probes c + wu_probes (cu_unit u), cy_updated := now\<rparr>"
      using 2 by (simp add: CompleteScanCycleUnit_def vs)
    have "unit_ok ?v" using ok by (simp add: unit_ok_def complete_unit_def)
    moreover have "counts_ok ?c" using running_counts [OF c 2(3)] 2(2)
      by (auto simp: c' counts_ok_def done_units_def us probes_of_def complete_unit_def)
    ultimately show ?thesis
      using 2 by (intro replaced_row [OF c 2(3) _ us, of ?c ?v]) (simp_all add: c' complete_unit_def)
  qed
qed

lemma retry_ok: "cycle_ok c \<Longrightarrow> cycle_ok (snd (retryScanCycleUnit n lastError countFailure c))"
proof -
  assume c: "cycle_ok c"
  show ?thesis
  proof (cases "runs n c")
    case False
    then have "snd (retryScanCycleUnit n lastError countFailure c) = c" by (auto simp: retryScanCycleUnit_def runs_def split: option.splits)
    then show ?thesis using c by simp
  next
    case True
    then obtain u where 2: "unit_row n (cy_units c) = Some u" "cu_status u = ''running''" "cy_status c = ''running''"
      by (auto simp: runs_def)
    from c 2(1) obtain as bs where us: "cy_units c = as @ u # bs" and vs: "\<forall>f. update_row n f (cy_units c) = as @ f u # bs"
      and ok: "unit_ok u" by (rule row_of)
    let ?v = "u\<lparr>cu_status := ''pending'', cu_failures := cu_failures u + (if countFailure then 1 else 0),
        cu_last_error := trimCycleError lastError\<rparr>" and ?c = "snd (retryScanCycleUnit n lastError countFailure c)"
    have c': "?c = c\<lparr>cy_units := as @ ?v # bs\<rparr>" using 2 by (simp add: retryScanCycleUnit_def vs)
    have "unit_ok ?v" using ok 2(2) by (simp add: unit_ok_def)
    moreover have "counts_ok ?c" using running_counts [OF c 2(3)] 2(2)
      by (auto simp: c' counts_ok_def done_units_def us probes_of_def)
    ultimately show ?thesis
      using 2 by (intro replaced_row [OF c 2(3) _ us, of ?c ?v]) (simp_all add: c')
  qed
qed

text \<open>New rows at the end, with numbers that no row has.\<close>

lemma appended_rows:
  assumes "cycle_ok c" "active c" "active c'" "cy_units c' = cy_units c @ map new_unit us"
    "distinct (map wu_sequence us)" "\<forall>u \<in> set us. next_sequence (cy_units c) \<le> wu_sequence u" "counts_ok c'"
  shows "cycle_ok c'"
proof (rule cycle_ok_active [OF assms(3) _ assms(7)])
  have new: "unit_ok (new_unit u) \<and> cu_sequence (new_unit u) = wu_sequence u \<and> cu_status (new_unit u) \<noteq> ''completed''" for u
    by (simp add: new_unit_def unit_ok_def)
  have "cu_sequence v \<noteq> wu_sequence u" if "v \<in> set (cy_units c)" "u \<in> set us" for v u
    using next_sequence_above [OF that(1)] assms(6) that(2) by fastforce
  moreover have "rows_ok c" by (rule cycle_okD(1) [OF assms(1)])
  ultimately show "rows_ok c'" using new assms(5) by (auto simp: rows_ok_def assms(4) comp_def)
  have "done_units c' = done_units c" using new by (simp add: done_units_def assms(4) filter_empty_conv)
  then show "\<forall>u \<in> set (done_units c'). cu_snapshot u \<noteq> None" using cycle_okD(4) [OF assms(1,2)] by simp
qed

lemma split_ok:
  assumes "cycle_ok c" "unit_row n (cy_units c) = Some u" "SplitWorkUnit (cu_unit u) = Some (first, second)"
  shows "cycle_ok (snd (SplitScanCycleUnit now n first second lastError c))"
proof (cases "cu_status u = ''running'' \<and> cy_status c = ''running''")
  case False
  then show ?thesis using assms(1,2) by (auto simp: SplitScanCycleUnit_def)
next
  case True
  from assms(1,2) obtain as bs where us: "cy_units c = as @ u # bs" and vs: "\<forall>f. update_row n f (cy_units c) = as @ f u # bs"
    and ok: "unit_ok u" by (rule row_of)
  let ?v = "u\<lparr>cu_unit := first, cu_status := ''pending'', cu_failures := 0, cu_last_error := trimCycleError lastError\<rparr>"
  let ?w = "(new_unit (second\<lparr>wu_sequence := next_sequence (cy_units c)\<rparr>))\<lparr>cu_attempts := cu_attempts u\<rparr>"
  let ?c = "snd (SplitScanCycleUnit now n first second lastError c)"
  let ?delta = "wrap64 (wrap64 (wu_probes first + wu_probes second) - wu_probes (cu_unit u))"
  have c': "?c = c\<lparr>cy_units := as @ ?v # bs @ [?w], cy_total_units := cy_total_units c + 1,
      cy_total_probes := cy_total_probes c + ?delta, cy_updated := now, cy_last_error := trimCycleError lastError\<rparr>"
    using True assms(2) by (simp add: SplitScanCycleUnit_def Let_def vs)
  have sequence: "wu_sequence first = wu_sequence (cu_unit u)"
    using assms(3) by (cases rule: split_cases) (simp_all add: split_addresses_def split_ports_def)
  have v: "unit_ok ?v" using ok True sequence by (simp add: unit_ok_def)
  have w: "unit_ok ?w" by (simp add: unit_ok_def new_unit_def)
  have above: "cu_sequence x < next_sequence (cy_units c)" if "x \<in> set (cy_units c)" for x using next_sequence_above that .
  have rows: "rows_ok c" by (rule cycle_okD(1) [OF assms(1)])
  show ?thesis
  proof (rule cycle_ok_active)
    show "active ?c" using True by (simp add: c' active_def)
    have "next_sequence (cy_units c) \<notin> cu_sequence ` set (cy_units c)" using above by fastforce
    then show "rows_ok ?c" using rows v w unfolding rows_ok_def c' us by (auto simp: new_unit_def)
    have count: "counts_ok c" using running_counts [OF assms(1)] True by blast
    have "wrap64 (cy_total_probes c + ?delta) = wrap64 (probes_of (cy_units c) + (wu_probes first + wu_probes second - wu_probes (cu_unit u)))"
    proof -
      have "?delta mod 2 ^ 64 = (wrap64 (wu_probes first + wu_probes second) - wu_probes (cu_unit u)) mod 2 ^ 64"
        by (rule wrap64_mod)
      also have "\<dots> = (wu_probes first + wu_probes second - wu_probes (cu_unit u)) mod 2 ^ 64"
        by (rule mod_diff_cong [OF wrap64_mod refl])
      finally have "?delta mod 2 ^ 64 = (wu_probes first + wu_probes second - wu_probes (cu_unit u)) mod 2 ^ 64" .
      moreover have "cy_total_probes c mod 2 ^ 64 = probes_of (cy_units c) mod 2 ^ 64"
        using count by (simp only: counts_ok_def wrap64_eq)
      ultimately show ?thesis unfolding wrap64_eq by (intro mod_add_cong)
    qed
    then show "counts_ok ?c" using count True
      by (auto simp: c' counts_ok_def done_units_def us probes_of_def new_unit_def algebra_simps)
    show "\<forall>x \<in> set (done_units ?c). cu_snapshot x \<noteq> None"
      using cycle_okD(4) [OF assms(1) running_active] True by (auto simp: c' done_units_def us new_unit_def)
  qed
qed


section \<open>Generated units\<close>

lemma number_from_sequences: "map wu_sequence (number_from n us) = map (\<lambda>i. n + int i) [0 ..< length us]"
  by (simp add: number_from_def case_prod_unfold comp_def) (simp add: enumerated_def flip: map_map [of "\<lambda>i. n + int i" fst, unfolded comp_def])

lemma add_new_distinct: "distinct (map wu_sequence us) \<Longrightarrow> distinct (map wu_sequence (add_new known us))"
proof (induction known us rule: add_new.induct)
  case (2 known u us)
  then show ?case using add_new_subset [of "scanCycleUnitIdentity u # known" us] by auto
qed simp

lemma generated_sequences:
  assumes "distinct (map wu_sequence us)" "\<forall>u \<in> set us. n \<le> wu_sequence u"
  shows "distinct (map wu_sequence (add_new known us)) \<and> (\<forall>u \<in> set (add_new known us). n \<le> wu_sequence u)"
  using add_new_distinct [OF assms(1)] add_new_subset [of known us] assms(2) by blast

lemma numbered_twice:
  "distinct (map wu_sequence (number_from n us @ number_from (n + int (length (number_from n us))) vs)) \<and>
   (\<forall>u \<in> set (number_from n us @ number_from (n + int (length (number_from n us))) vs). n \<le> wu_sequence u)"
proof -
  have l: "length (number_from n us) = length us" by (simp add: number_from_def enumerated_def)
  have "map wu_sequence (number_from n us @ number_from (n + int (length (number_from n us))) vs) = map (\<lambda>i. n + int i) [0 ..< length us + length vs]"
  proof -
    have "map (\<lambda>i. n + int (length us) + int i) [0 ..< length vs] = map (\<lambda>i. n + int i) [length us ..< length us + length vs]"
      by (rule nth_equalityI) simp_all
    moreover have "[0 ..< length us + length vs] = [0 ..< length us] @ [length us ..< length us + length vs]" by (rule upt_add_eq_append) simp
    ultimately show ?thesis by (simp add: number_from_sequences l)
  qed
  then obtain W where W: "W = number_from n us @ number_from (n + int (length (number_from n us))) vs"
    "map wu_sequence W = map (\<lambda>i. n + int i) [0 ..< length us + length vs]" by blast
  have "distinct (map wu_sequence W)" unfolding W(2) by (simp add: distinct_map inj_on_def)
  moreover have "n \<le> wu_sequence u" if "u \<in> set W" for u
  proof -
    have "wu_sequence u \<in> set (map wu_sequence W)" using that by simp
    then show ?thesis unfolding W(2) by auto
  qed
  ultimately show ?thesis using W(1) by blast
qed

lemma added_sequences:
  "distinct (map wu_sequence (added_units runtime c)) \<and> (\<forall>u \<in> set (added_units runtime c). next_sequence (cy_units c) \<le> wu_sequence u)"
  unfolding added_units_def Let_def by (rule generated_sequences; use numbered_twice in blast)

lemma fold_probes: "wrap64 (fold (\<lambda>u p. wrap64 (p + wu_probes u)) us a) = wrap64 (a + sum_list (map wu_probes us))"
proof (induction us arbitrary: a)
  case (Cons u us)
  have "wrap64 (wrap64 (a + wu_probes u) + sum_list (map wu_probes us)) = wrap64 (a + wu_probes u + sum_list (map wu_probes us))"
    by (rule wrap64_add)
  then show ?case by (simp add: Cons add.assoc)
qed simp

lemma batch_ok: "cycle_ok c \<Longrightarrow> cycle_ok (fst (reconcileBatch now runtime c))"
proof -
  assume c: "cycle_ok c"
  let ?added = "added_units runtime c"
  let ?marked = "c\<lparr>cy_processed := fold List.insert (map cu_sequence (take scanCycleReconcileBatchSize (unprocessed c))) (cy_processed c)\<rparr>"
  show ?thesis
  proof (cases "active c \<and> filter is_discovery (cy_units c) \<noteq> []")
    case False
    then have "fst (reconcileBatch now runtime c) = c" by (auto simp: reconcileBatch_def)
    then show ?thesis using c by simp
  next
    case True
    then have 3: "active c" "fst (reconcileBatch now runtime c) = (if ?added = [] then ?marked else
        ?marked\<lparr>cy_units := cy_units c @ map new_unit ?added, cy_total_units := cy_total_units c + int (length ?added),
          cy_total_probes := cy_total_probes c + fold (\<lambda>u p. wrap64 (p + wu_probes u)) ?added 0, cy_updated := now\<rparr>)"
      by (simp_all add: reconcileBatch_def Let_def)
    have marked: "cycle_ok ?marked" by (rule cycle_ok_status [OF c 3(1)]) (use 3(1) in \<open>simp_all add: active_def\<close>)
    have count: "counts_ok c" using cycle_okD(3) [OF c 3(1)] .
    have "cy_total_probes c mod 2 ^ 64 = probes_of (cy_units c) mod 2 ^ 64"
      using count by (simp only: counts_ok_def wrap64_eq)
    moreover have "fold (\<lambda>u p. wrap64 (p + wu_probes u)) ?added 0 mod 2 ^ 64 = sum_list (map wu_probes ?added) mod 2 ^ 64"
      using fold_probes [of ?added 0] by (simp only: wrap64_eq add_0)
    ultimately have probes: "wrap64 (cy_total_probes c + fold (\<lambda>u p. wrap64 (p + wu_probes u)) ?added 0) =
        wrap64 (probes_of (cy_units c) + sum_list (map wu_probes ?added))"
      unfolding wrap64_eq by (rule mod_add_cong)
    have new: "probes_of (map new_unit ?added) = sum_list (map wu_probes ?added)"
      "filter (\<lambda>u. cu_status u = ''completed'') (map new_unit ?added) = []"
      by (simp_all add: new_unit_def comp_def filter_empty_conv probes_of_def)
    let ?more = "?marked\<lparr>cy_units := cy_units c @ map new_unit ?added, cy_total_units := cy_total_units c + int (length ?added),
          cy_total_probes := cy_total_probes c + fold (\<lambda>u p. wrap64 (p + wu_probes u)) ?added 0, cy_updated := now\<rparr>"
    have "cycle_ok ?more"
    proof (rule appended_rows [OF c 3(1)])
      show "distinct (map wu_sequence ?added)" "\<forall>u \<in> set ?added. next_sequence (cy_units c) \<le> wu_sequence u"
        using added_sequences by blast+
    qed (use 3(1) count probes new in \<open>simp_all add: active_def counts_ok_def done_units_def\<close>)
    with marked show ?thesis unfolding 3(2) by simp
  qed
qed

lemma drain_preserves:
  assumes "\<And>c. P c \<Longrightarrow> P (fst (reconcileBatch now runtime c))"
  shows "P c \<Longrightarrow> P (drain now runtime c)"
  using assms
proof (induction now runtime c rule: drain.induct)
  case (1 now runtime c)
  obtain c' worked where b: "reconcileBatch now runtime c = (c', worked)" by (cases "reconcileBatch now runtime c")
  then have "P c'" using 1(3) [OF 1(2)] by simp
  then show ?case using 1(1) [OF b [symmetric]] 1(3) by (subst drain.simps) (simp add: b)
qed


section \<open>Every step\<close>

lemma filter_all:
  assumes "length (filter P xs) = length xs"
  shows "\<forall>x \<in> set xs. P x"
proof
  fix x assume "x \<in> set xs"
  then show "P x" using length_filter_less [of x xs P] assms by fastforce
qed

lemma complete_ok: "cycle_ok c \<Longrightarrow> cycle_ok (snd (CompleteScanCycle now c))"
proof (cases "cy_status c = ''running'' \<and> cy_completed_units c = cy_total_units c")
  case True
  assume c: "cycle_ok c"
  let ?c = "snd (CompleteScanCycle now c)"
  have c': "?c = c\<lparr>cy_status := ''completed'', cy_updated := now, cy_finished := Some now, cy_last_error := []\<rparr>"
    using True by (simp add: CompleteScanCycle_def)
  have counts: "counts_ok c" "rows_ok c" using running_counts [OF c] True by blast+
  then have "length (filter (\<lambda>u. cu_status u = ''completed'') (cy_units c)) = length (cy_units c)"
    using True by (simp add: counts_ok_def done_units_def)
  then have "\<forall>u \<in> set (cy_units c). cu_status u = ''completed''" by (rule filter_all)
  moreover have "counts_ok ?c" "rows_ok ?c" using counts by (simp_all add: c' counts_ok_def rows_ok_def done_units_def)
  ultimately show ?thesis by (simp add: cycle_ok_def c' active_def)
next
  case False
  assume "cycle_ok c"
  moreover have "snd (CompleteScanCycle now c) = c" using False by (simp add: CompleteScanCycle_def)
  ultimately show ?thesis by simp
qed

lemma discarded_ok: "cy_status c' = ''discarded'' \<Longrightarrow> cy_units c' = [] \<Longrightarrow> cycle_ok c'"
  by (simp add: cycle_ok_def rows_ok_def active_def)

lemma reclaim_ok: "cycle_ok c \<Longrightarrow> cy_status c = ''completed'' \<Longrightarrow> cycle_ok (clearCompletedScanCycleCheckpoints True c)"
proof -
  assume c: "cycle_ok c" "cy_status c = ''completed''"
  let ?c = "clearCompletedScanCycleCheckpoints True c"
  have c': "?c = c\<lparr>cy_units := map (\<lambda>u. u\<lparr>cu_snapshot := None\<rparr>) (cy_units c)\<rparr>" by (simp add: clearCompletedScanCycleCheckpoints_def)
  have "rows_ok ?c" by (rule rows_map [OF cycle_okD(1) [OF c(1)], of "\<lambda>u. u\<lparr>cu_snapshot := None\<rparr>"]) (simp_all add: c' unit_ok_def)
  moreover have "same_rows (cy_units ?c) (cy_units c)" unfolding c' scan_cycle.simps by (simp add: same_rows_map)
  from counts_same [OF this] have "counts_ok ?c" using cycle_okD(2) [OF c(1)] c(2) by (simp add: c')
  ultimately show ?thesis using cycle_okD(5) [OF c] c(2) by (simp add: cycle_ok_def c' active_def)
qed

lemma pause_ok: "cycle_ok c \<Longrightarrow> cycle_ok (PauseScanCycle now noProgress lastError c)"
proof (cases "active c")
  case True
  assume "cycle_ok c"
  then show ?thesis by (rule cycle_ok_status [OF _ True]) (use True in \<open>simp_all add: PauseScanCycle_def active_def\<close>)
qed (simp add: PauseScanCycle_def)

lemma stall_ok: "cycle_ok c \<Longrightarrow> cycle_ok (MarkScanCycleStalled now lastError c)"
proof (cases "active c")
  case True
  assume "cycle_ok c"
  then show ?thesis by (rule cycle_ok_status [OF _ True]) (use True in \<open>simp_all add: MarkScanCycleStalled_def active_def\<close>)
qed (simp add: MarkScanCycleStalled_def)

lemma cycle_step_ok: "cycle_step c c' \<Longrightarrow> cycle_ok c \<Longrightarrow> cycle_ok c'"
proof (induction rule: cycle_step.induct)
  case (discard c leased promoted now)
  then show ?case by (auto simp: DiscardScanCycle_def discard_ok)
next
  case (give_up c promoted failures now baselineEpoch maxFailures)
  then show ?case by (auto simp: DiscardCompletedScanCycleAfterFinalizationFailures_def discard_ok)
next
  case (new_baseline c promoted now reason)
  then show ?case by (simp add: discardUnpromoted_def discarded_ok)
next
  case (paused_tenant c now)
  then show ?case by (simp add: discardPaused_def discarded_ok)
next
  case (reconcile c now runtime)
  then show ?case by (simp add: batch_ok)
qed (simp_all add: pause_ok stall_ok start_ok claim_ok checkpoint_ok retry_ok split_ok complete_ok expire_cycle_ok reclaim_ok)

lemma cycle_reach_ok: "cycle_reach c c' \<Longrightarrow> cycle_ok c \<Longrightarrow> cycle_ok c'"
  by (induction rule: cycle_reach.induct) (auto intro: cycle_step_ok)

lemma created_ok:
  assumes "CreateScanCycle uuid clock cycle = Inr c" "cy_completed_units cycle = 0" "cy_completed_probes cycle = 0"
  shows "cycle_ok c \<and> cy_status c = ''paused'' \<and> map cu_unit (cy_units c) = wp_units (cy_plan cycle)"
proof -
  let ?us = "wp_units (cy_plan cycle)"
  have c: "cy_units c = map new_unit ?us" "cy_status c = ''paused''" "cy_total_units c = int (length ?us)"
    "cy_total_probes c = fold (\<lambda>u p. wrap64 (p + wu_probes u)) ?us 0" "cy_completed_units c = 0" "cy_completed_probes c = 0"
    and d: "distinct (map wu_sequence ?us)"
    using assms by (auto simp: CreateScanCycle_def Let_def split: if_splits)
  have done_units: "done_units c = []" by (simp add: done_units_def c new_unit_def filter_empty_conv)
  have "probes_of (cy_units c) = sum_list (map wu_probes ?us)" by (simp add: probes_of_def c new_unit_def comp_def)
  then have "counts_ok c" using fold_probes [of ?us 0] by (simp add: counts_ok_def done_units c probes_of_def)
  moreover have "rows_ok c" using d by (auto simp: rows_ok_def c unit_ok_def new_unit_def comp_def)
  ultimately have "cycle_ok c" by (intro cycle_ok_active) (simp_all add: active_def c done_units)
  then show ?thesis by (simp add: c comp_def new_unit_def)
qed

end
