(* ===== verification/CycleLife.thy ===== *)
theory CycleLife
  imports CycleFacts
begin

text \<open>
  What holds in every cycle that can come about: exact counters, checkpoints that are never
  lost, ends that are final, and a completed cycle that has scanned all of its plan.
\<close>

section \<open>What a step does to the units\<close>

definition extra :: "work_unit \<Rightarrow> bool" where
  "extra u = (wu_phase u = ''enrichment'' \<or> wu_phase u = ''udp'')"

lemma number_from_phase: "u \<in> set (number_from n us) \<Longrightarrow> \<forall>u \<in> set us. P (wu_phase u) \<Longrightarrow> P (wu_phase u)"
  by (auto elim: number_from_fields)

lemma added_extra: "u \<in> set (added_units runtime c) \<Longrightarrow> extra u"
proof -
  assume "u \<in> set (added_units runtime c)"
  moreover have "\<forall>u \<in> set (enrichment_units plan tcp m). wu_phase u = ''enrichment''" for plan tcp m
    by (auto simp: enrichment_units_def enrichment_unit_def)
  moreover have "\<forall>u \<in> set (buildCycleUDPUnits plan). wu_phase u = ''udp''" for plan using udp_phase by blast
  ultimately show "extra u"
    unfolding added_units_def Let_def extra_def
    by (auto dest!: subsetD [OF add_new_subset] elim!: number_from_fields split: if_splits)
qed

text \<open>
  Every step leaves the work units alone, or deletes them with a discarded cycle, or replaces one
  by its halves, or appends units of enrichment and UDP.
\<close>

inductive units_step :: "work_unit list \<Rightarrow> work_unit list \<Rightarrow> bool" where
  same: "units_step us us"
| halves: "SplitWorkUnit u = Some (first, second) \<Longrightarrow> units_step (as @ u # bs) (as @ first # bs @ [second\<lparr>wu_sequence := n\<rparr>])"
| more: "\<forall>u \<in> set vs. extra u \<Longrightarrow> units_step us (us @ vs)"

lemma same_units: "same_rows us vs \<Longrightarrow> map cu_unit us = map cu_unit vs"
  by (rule same_rows_counts)

lemma start_rows: "same_rows (cy_units (snd (StartScanCycleAttempt now c))) (cy_units c)"
  using cleared_same [of "expire_row now c"]
  by (simp add: StartScanCycleAttempt_def expire_row_def same_rows_map) (simp add: same_rows_def)

lemma expire_rows: "same_rows (cy_units (ExpireScanCycle now c)) (cy_units c)"
  using cleared_same [of "expire_row now c"] by (simp add: ExpireScanCycle_def expire_row_def) (simp add: same_rows_def)

lemma claim_units: "map cu_unit (cy_units (snd (ClaimScanCycleUnit now n c))) = map cu_unit (cy_units c)"
  using same_units [OF expire_rows [of now c]]
  by (simp add: ClaimScanCycleUnit_def claimable_def update_row_def claim_def comp_def split: option.splits)

lemma checkpoint_units: "map cu_unit (cy_units (snd (CompleteScanCycleUnit now n snapshot c))) = map cu_unit (cy_units c)"
  by (simp add: CompleteScanCycleUnit_def update_row_def complete_unit_def comp_def split: option.splits)

lemma retry_units: "map cu_unit (cy_units (snd (retryScanCycleUnit n lastError countFailure c))) = map cu_unit (cy_units c)"
  by (simp add: retryScanCycleUnit_def update_row_def comp_def split: option.splits)

lemma step_units:
  assumes "cycle_step c c'" "cycle_ok c"
  shows "cy_status c' = ''discarded'' \<or> units_step (map cu_unit (cy_units c)) (map cu_unit (cy_units c'))"
  using assms
proof (induction rule: cycle_step.induct)
  case (start c now)
  then show ?case using units_step.same by (simp add: same_units [OF start_rows])
next
  case (claim c now n)
  then show ?case using units_step.same by (simp add: claim_units)
next
  case (checkpoint c now n snapshot)
  then show ?case using units_step.same by (simp add: checkpoint_units)
next
  case (retry c n lastError countFailure)
  then show ?case using units_step.same by (simp add: retry_units)
next
  case (split n c u first second now lastError)
  show ?case
  proof (cases "cu_status u = ''running'' \<and> cy_status c = ''running''")
    case False
    then have "snd (SplitScanCycleUnit now n first second lastError c) = c" using split(1) by (auto simp: SplitScanCycleUnit_def)
    then show ?thesis using units_step.same by simp
  next
    case True
    from split(3,1) obtain as bs where us: "cy_units c = as @ u # bs" and vs: "\<forall>f. update_row n f (cy_units c) = as @ f u # bs"
      and "unit_ok u" by (rule row_of)
    have "map cu_unit (cy_units (snd (SplitScanCycleUnit now n first second lastError c))) =
        map cu_unit as @ first # map cu_unit bs @ [second\<lparr>wu_sequence := next_sequence (cy_units c)\<rparr>]"
      using True split(1) by (simp add: SplitScanCycleUnit_def Let_def vs new_unit_def)
    then show ?thesis using units_step.halves [OF split(2)] by (simp add: us)
  qed
next
  case (pause c now noProgress lastError)
  then show ?case using units_step.same by (simp add: PauseScanCycle_def)
next
  case (stall c now lastError)
  then show ?case using units_step.same by (simp add: MarkScanCycleStalled_def)
next
  case (complete c now)
  then show ?case using units_step.same by (simp add: CompleteScanCycle_def)
next
  case (expire c now)
  then show ?case using units_step.same by (simp add: same_units [OF expire_rows])
next
  case (discard c leased promoted now)
  then show ?case using units_step.same by (simp add: DiscardScanCycle_def discard_row_def)
next
  case (give_up c promoted failures now baselineEpoch maxFailures)
  then show ?case using units_step.same by (simp add: DiscardCompletedScanCycleAfterFinalizationFailures_def discard_row_def)
next
  case (new_baseline c promoted now reason)
  then show ?case using units_step.same by (simp add: discardUnpromoted_def)
next
  case (paused_tenant c now)
  then show ?case using units_step.same by (simp add: discardPaused_def)
next
  case (reclaim c)
  then show ?case using units_step.same by (simp add: clearCompletedScanCycleCheckpoints_def comp_def)
next
  case (reconcile c now runtime)
  have "map cu_unit (map new_unit us) = us" for us by (simp add: new_unit_def comp_def)
  moreover have "units_step us (us @ added_units runtime c)" for us using added_extra by (intro units_step.more) blast
  ultimately show ?case using units_step.same by (simp add: reconcileBatch_def Let_def comp_def new_unit_def)
qed

section \<open>What a step does to the status\<close>

lemma step_status:
  assumes "cycle_step c c'"
  shows "(active c' \<longrightarrow> active c) \<and> (cy_status c = ''discarded'' \<longrightarrow> c' = c) \<and>
    (cy_status c = ''expired'' \<longrightarrow> c' = c) \<and>
    (cy_status c = ''completed'' \<longrightarrow> cy_status c' = ''completed'' \<or> cy_status c' = ''discarded'')"
  using assms
proof (induction rule: cycle_step.induct)
  case (split n c u first second now lastError)
  then show ?case by (auto simp: SplitScanCycleUnit_def active_def)
qed (auto simp: active_def StartScanCycleAttempt_def ClaimScanCycleUnit_def claimable_def CompleteScanCycleUnit_def retryScanCycleUnit_def
    PauseScanCycle_def MarkScanCycleStalled_def CompleteScanCycle_def ExpireScanCycle_def DiscardScanCycle_def
    DiscardCompletedScanCycleAfterFinalizationFailures_def discardUnpromoted_def discardPaused_def
    clearCompletedScanCycleCheckpoints_def reconcileBatch_def Let_def discard_row_def split: option.splits if_splits)


section \<open>What a step does to a checkpoint\<close>

lemma other_row:
  assumes "cycle_ok c" "unit_row n (cy_units c) = Some x" "cu_status x \<noteq> ''completed''" "u \<in> set (cy_units c)" "cu_status u = ''completed''"
  shows "u \<in> set (update_row n f (cy_units c))"
proof -
  from assms(1,2) obtain as bs where "cy_units c = as @ x # bs" "\<forall>f. update_row n f (cy_units c) = as @ f x # bs" "unit_ok x" by (rule row_of)
  then show ?thesis using assms(3-5) by auto
qed

lemma step_checkpoint:
  assumes "cycle_step c c'" "cycle_ok c" "active c'" "u \<in> set (cy_units c)" "cu_status u = ''completed''"
  shows "u \<in> set (cy_units c')"
  using assms
proof (induction rule: cycle_step.induct)
  case (start c now)
  let ?f = "\<lambda>u. if cu_status u = ''running'' then u\<lparr>cu_status := ''pending'', cu_started := None\<rparr> else u"
  have "u \<in> ?f ` set (cy_units c)" using start(3,4) by (intro image_eqI [of _ _ u]) simp_all
  then show ?case using start(2,3)
    by (auto simp: StartScanCycleAttempt_def clearExpiredCyclePayloads_def expire_row_def active_def)
next
  case (claim c now n)
  show ?case
  proof (cases "claimable now n c")
    case True
    then obtain x where x: "unit_row n (cy_units c) = Some x" "cu_status x = ''pending''" by (auto simp: claimable_def split: option.splits)
    then show ?thesis using True other_row [OF claim(1) x(1) _ claim(3,4)] by (simp add: ClaimScanCycleUnit_def)
  next
    case False
    then show ?thesis using claim(2,3)
      by (auto simp: ClaimScanCycleUnit_def ExpireScanCycle_def clearExpiredCyclePayloads_def expire_row_def active_def split: if_splits)
  qed
next
  case (checkpoint c now n snapshot)
  then show ?case using other_row [OF checkpoint(1) _ _ checkpoint(3,4)]
    by (simp add: CompleteScanCycleUnit_def split: option.splits)
next
  case (retry c n lastError countFailure)
  then show ?case using other_row [OF retry(1) _ _ retry(3,4)]
    by (simp add: retryScanCycleUnit_def split: option.splits)
next
  case (split n c x first second now lastError)
  then show ?case using other_row [OF split(3,1) _ split(5,6)] by (simp add: SplitScanCycleUnit_def Let_def)
next
  case (expire c now)
  then show ?case by (auto simp: ExpireScanCycle_def clearExpiredCyclePayloads_def expire_row_def active_def split: if_splits)
next
  case (reconcile c now runtime)
  then show ?case by (simp add: reconcileBatch_def Let_def)
qed (auto simp: active_def PauseScanCycle_def MarkScanCycleStalled_def CompleteScanCycle_def DiscardScanCycle_def
    DiscardCompletedScanCycleAfterFinalizationFailures_def discardUnpromoted_def discardPaused_def
    clearCompletedScanCycleCheckpoints_def discard_row_def split: if_splits)

lemma reach_trans: "cycle_reach b c \<Longrightarrow> cycle_reach a b \<Longrightarrow> cycle_reach a c"
  by (induction rule: cycle_reach.induct) (auto intro: cycle_reach.step)

section \<open>The promises\<close>

text \<open>
  C26: The counters of a cycle are exact in every state it can reach in which it is not discarded
  (discarding deletes its units and keeps the counters), whatever attempts, crashes,
  retries, splits and generated units it went through: the units and completed units it shows
  are its rows and its completed rows, the completed probes are those of the completed rows, and
  the total is the sum of the rows' probes (as 64-bit numbers). A completed cycle has no unit left.
\<close>

theorem cycle_counters_exact:
  assumes "CreateScanCycle uuid clock cycle = Inr c0" "cy_completed_units cycle = 0" "cy_completed_probes cycle = 0"
    and "cycle_reach c0 c" "cy_status c \<noteq> ''discarded''"
  shows "distinct (map cu_sequence (cy_units c)) \<and>
    cy_total_units c = int (length (cy_units c)) \<and> cy_completed_units c = int (length (done_units c)) \<and>
    cy_completed_probes c = probes_of (done_units c) \<and> wrap64 (cy_total_probes c) = wrap64 (probes_of (cy_units c)) \<and>
    (cy_status c = ''completed'' \<longrightarrow> done_units c = cy_units c)"
proof -
  have ok: "cycle_ok c" using cycle_reach_ok [OF assms(4)] created_ok [OF assms(1-3)] by blast
  have "rows_ok c" "counts_ok c" using cycle_okD(1,2) [OF ok] assms(5) by blast+
  moreover have "cy_status c = ''completed'' \<longrightarrow> done_units c = cy_units c"
    using cycle_okD(5) [OF ok] by (simp add: done_units_def filter_id_conv)
  ultimately show ?thesis by (simp add: rows_ok_def counts_ok_def)
qed

text \<open>
  C27: A checkpoint is never lost while a cycle can resume: a unit that was completed stays
  completed, with its snapshot and its work unit, in every later state that is still active; and
  every completed unit of an active cycle has its snapshot.
\<close>

theorem checkpoints_survive:
  assumes "CreateScanCycle uuid clock cycle = Inr c0" "cy_completed_units cycle = 0" "cy_completed_probes cycle = 0"
    and "cycle_reach c0 c" "cycle_reach c c'" "active c'" "u \<in> set (cy_units c)" "cu_status u = ''completed''"
  shows "u \<in> set (cy_units c') \<and> cu_snapshot u \<noteq> None"
proof -
  have ok: "cycle_ok c" using cycle_reach_ok [OF assms(4)] created_ok [OF assms(1-3)] by blast
  have "u \<in> set (cy_units c') \<and> active c" using assms(5,6) ok assms(7,8)
  proof (induction rule: cycle_reach.induct)
    case (step c c' c'')
    have "active c'" using step_status [OF step(2)] step(4) by blast
    moreover have "cycle_ok c'" using cycle_reach_ok [OF step(1)] step(5) .
    ultimately show ?case using step_checkpoint [OF step(2) _ step(4)] step by blast
  qed simp
  moreover have "u \<in> set (done_units c)" using assms(7,8) by (simp add: done_units_def)
  ultimately show ?thesis using cycle_okD(4) [OF ok] by blast
qed

text \<open>
  The ends of a cycle are final. No operation changes an expired or discarded cycle, and a
  completed one can only be discarded; so an ended cycle never runs again.
\<close>

theorem ended_cycle_stays_ended:
  assumes "cycle_reach c c'"
  shows "((cy_status c = ''expired'' \<or> cy_status c = ''discarded'') \<longrightarrow> c' = c) \<and>
    (cy_status c = ''completed'' \<longrightarrow> cy_status c' = ''completed'' \<or> cy_status c' = ''discarded'')"
  using assms
proof (induction rule: cycle_reach.induct)
  case (step c c' c'')
  then show ?case using step_status [OF step(2)] by auto
qed simp


section \<open>What a completed cycle has scanned\<close>

lemma split_phase: "SplitWorkUnit u = Some (first, second) \<Longrightarrow> extra first = extra u \<and> extra second = extra u"
  by (cases rule: split_cases) (auto simp: extra_def split_addresses_def split_ports_def)

text \<open>The units of the plan itself, and how many of them scan an address and port.\<close>

definition planned_count :: "string \<Rightarrow> string \<Rightarrow> int \<Rightarrow> work_unit list \<Rightarrow> nat" where
  "planned_count p a q us = length (filter (\<lambda>u. \<not> extra u \<and> unit_covers p a q u) us)"

lemma planned_count_simps [simp]:
  "planned_count p a q (us @ vs) = planned_count p a q us + planned_count p a q vs"
  "planned_count p a q (u # us) = (if \<not> extra u \<and> unit_covers p a q u then 1 else 0) + planned_count p a q us"
  "planned_count p a q [] = 0"
  by (simp_all add: planned_count_def)

definition planned_distinct :: "work_unit list \<Rightarrow> bool" where
  "planned_distinct us = (\<forall>u \<in> set us. \<not> extra u \<longrightarrow> distinct (wu_addresses u))"

lemma units_step_count:
  assumes "units_step us vs" "planned_distinct us"
  shows "planned_distinct vs \<and> planned_count p a q vs = planned_count p a q us"
  using assms
proof (induction rule: units_step.induct)
  case (halves u first second as bs n)
  have e: "extra first = extra u" "extra (second\<lparr>wu_sequence := n\<rparr>) = extra u" using split_phase [OF halves(1)] by (simp_all add: extra_def)
  show ?case
  proof (cases "extra u")
    case True
    then show ?thesis using halves(2) e by (simp add: planned_distinct_def)
  next
    case False
    then have "distinct (wu_addresses u)" using halves(2) by (simp add: planned_distinct_def)
    from split_covers [OF halves(1) this, of p a q] show ?thesis
      using halves(2) e False by (auto simp: planned_distinct_def)
  qed
next
  case (more vs us)
  then have "planned_count p a q vs = 0" by (simp add: planned_count_def filter_empty_conv)
  then show ?case using more by (auto simp: planned_distinct_def)
qed simp

lemma reach_count:
  assumes "cycle_reach c0 c" "cycle_ok c0" "planned_distinct (map cu_unit (cy_units c0))" "cy_status c \<noteq> ''discarded''"
  shows "planned_distinct (map cu_unit (cy_units c)) \<and> planned_count p a q (map cu_unit (cy_units c)) = planned_count p a q (map cu_unit (cy_units c0))"
  using assms
proof (induction rule: cycle_reach.induct)
  case (step c0 c c')
  have ok: "cycle_ok c" using cycle_reach_ok [OF step(1)] step(4) .
  have "cy_status c \<noteq> ''discarded''" using step_status [OF step(2)] step(6) by auto
  moreover have "units_step (map cu_unit (cy_units c)) (map cu_unit (cy_units c'))" using step_units [OF step(2) ok] step(6) by blast
  ultimately show ?case using step(3) [OF step(4,5)] units_step_count by metis
qed simp

lemma plan_unit_facts:
  assumes "Plan_scan exclusions lookup maxJobHosts j = Inr plan" "u \<in> set (wp_units plan)"
  shows "\<not> extra u \<and> distinct (wu_addresses u)"
proof -
  let ?j = "NormalizeJob j"
  obtain ts where t: "wp_units plan = number_units 0 (scan_units ?j ts)"
    and a: "\<forall>a \<in> set (target_addresses ts). allowed exclusions a"
    and naabu: "is_naabu ?j \<Longrightarrow> 1 \<le> discovery_batch ?j"
    and nmap: "\<not> is_naabu ?j \<Longrightarrow> \<forall>item \<in> {valueProtocol (wj_tcp ?j), valueProtocol (wj_udp ?j)}.
      sp_ports item = [] \<or> (\<exists>ps. ParsePorts (sp_ports item) = Inr ps)"
    using plan_cases [OF assms(1)] by metis
  have "\<forall>u \<in> set (scan_units ?j ts). \<not> extra u"
  proof (cases "is_naabu ?j")
    case True
    then show ?thesis using naabu_unit [OF _ naabu [OF True]] uniqueAddresses_ok [OF a] by (simp add: scan_units_def extra_def)
  next
    case False
    then show ?thesis using item_plan_unit nmap [OF False] by (auto simp: scan_units_def nmap_units_def extra_def)
  qed
  then have "\<forall>u \<in> set (wp_units plan). \<not> extra u" unfolding t by (subst number_units_ball) (simp_all add: extra_def)
  then show ?thesis using assms plan_unit_distinct by blast
qed

lemma completed_scan:
  assumes "Plan_scan exclusions lookup maxJobHosts j = Inr plan" "wp_units (cy_plan cycle) = wp_units plan"
    and "CreateScanCycle uuid clock cycle = Inr c0" "cy_completed_units cycle = 0" "cy_completed_probes cycle = 0"
    and "cycle_reach c0 c" "cy_status c = ''completed''"
  shows "length (filter (\<lambda>u. \<not> extra (cu_unit u) \<and> unit_covers p a q (cu_unit u)) (done_units c)) =
    (if a \<in> plan_addresses plan \<and> q \<in> set (planned_ports (NormalizeJob j) p) then 1 else 0)"
proof -
  have c0: "cycle_ok c0" "map cu_unit (cy_units c0) = wp_units plan" using created_ok [OF assms(3-5)] assms(2) by simp_all
  have facts: "\<forall>u \<in> set (wp_units plan). \<not> extra u \<and> distinct (wu_addresses u)" using plan_unit_facts [OF assms(1)] by blast
  then have "planned_distinct (map cu_unit (cy_units c0))" by (simp add: c0(2) planned_distinct_def)
  with reach_count [OF assms(6) c0(1)] assms(7)
  have "planned_count p a q (map cu_unit (cy_units c)) = planned_count p a q (wp_units plan)" by (simp add: c0(2))
  also have "\<dots> = length (filter (unit_covers p a q) (wp_units plan))"
    unfolding planned_count_def using facts by (intro arg_cong [where f = length] filter_cong) auto
  also have "\<dots> = (if a \<in> plan_addresses plan \<and> q \<in> set (planned_ports (NormalizeJob j) p) then 1 else 0)"
    by (rule plan_count [OF assms(1)])
  finally have "planned_count p a q (map cu_unit (cy_units c)) =
      (if a \<in> plan_addresses plan \<and> q \<in> set (planned_ports (NormalizeJob j) p) then 1 else 0)" .
  moreover have "done_units c = cy_units c"
    using cycle_okD(5) [OF cycle_reach_ok [OF assms(6) c0(1)]] assms(7) by (simp add: done_units_def filter_id_conv)
  ultimately show ?thesis by (simp add: planned_count_def filter_map comp_def)
qed

text \<open>
  C28: A completed cycle has scanned its plan. Every address and port of the plan was scanned by
  exactly one completed unit that came from the plan, and nothing else was scanned by such a unit,
  whatever timeouts, splits, crashes and retries there were on the way. The units that a Naabu cycle
  generates later, for enrichment and for UDP, are not counted, and the UDP ports of a Naabu job are
  not part of its plan: of these the theorem says nothing.
\<close>

theorem completed_cycle_scanned_the_plan:
  assumes "Plan_scan exclusions lookup maxJobHosts j = Inr plan" "wp_units (cy_plan cycle) = wp_units plan"
    and "CreateScanCycle uuid clock cycle = Inr c0" "cy_completed_units cycle = 0" "cy_completed_probes cycle = 0"
    and "cycle_reach c0 c" "cy_status c = ''completed''"
  shows "length (filter (\<lambda>u. \<not> extra (cu_unit u) \<and> unit_covers p a q (cu_unit u)) (done_units c)) =
    (if a \<in> plan_addresses plan \<and> q \<in> set (planned_ports (NormalizeJob j) p) then 1 else 0)"
  by (rule completed_scan [OF assms])

lemma load_all: "\<forall>u \<in> set us. cu_snapshot u \<noteq> None \<Longrightarrow> load_fragments us = Inr (map (\<lambda>u. the (cu_snapshot u)) us)"
  by (induction us) auto

text \<open>
  A crash between completing a cycle and saving its scan loses nothing: when a running cycle
  is completed, the checkpoints of all its units can still be loaded, in the order of the units.
\<close>

theorem completed_cycle_can_be_loaded:
  assumes "CreateScanCycle uuid clock cycle = Inr c0" "cy_completed_units cycle = 0" "cy_completed_probes cycle = 0"
    and "cycle_reach c0 c" "cy_status c = ''running''" "CompleteScanCycle now c = (Inr (), c')"
  shows "\<exists>plan. LoadScanCycleFragments c' = Inr (plan, map (\<lambda>u. the (cu_snapshot u)) (sort_key cu_sequence (cy_units c)))"
proof -
  have ok: "cycle_ok c" using cycle_reach_ok [OF assms(4)] created_ok [OF assms(1-3)] by blast
  have c': "cy_units c' = cy_units c" "cy_status c' = ''completed''" using assms(5,6) by (auto simp: CompleteScanCycle_def split: if_splits)
  have "cycle_ok c'" using complete_ok [OF ok, of now] assms(6) by simp
  from cycle_okD(5) [OF this c'(2)] have all: "\<forall>u \<in> set (cy_units c). cu_status u = ''completed''" by (simp add: c'(1))
  then have "done_units c = cy_units c" by (simp add: done_units_def filter_id_conv)
  then have "\<forall>u \<in> set (cy_units c). cu_snapshot u \<noteq> None" using cycle_okD(4) [OF ok running_active [OF assms(5)]] by simp
  then have "load_fragments (sort_key cu_sequence (cy_units c)) = Inr (map (\<lambda>u. the (cu_snapshot u)) (sort_key cu_sequence (cy_units c)))"
    by (intro load_all) simp
  moreover have "filter (\<lambda>u. cu_status u = ''completed'') (cy_units c) = cy_units c" using all by (simp add: filter_id_conv)
  ultimately show ?thesis by (simp add: LoadScanCycleFragments_def c'(1))
qed


section \<open>An example\<close>

definition example_cycle :: scan_cycle where
  "example_cycle = \<lparr>cy_id = ''c1'', cy_job_id = ''j1'', cy_job = ''office'', cy_revision = 1, cy_config_hash = ''h'', cy_execution_hash = ''x'',
     cy_epoch = 0, cy_plan = example_scan_plan, cy_status = [], cy_attempts = 0, cy_no_progress = 0, cy_total_units = 0,
     cy_completed_units = 0, cy_total_probes = 0, cy_completed_probes = 0, cy_started = 1, cy_attempt_started = None, cy_updated = 0,
     cy_expires = None, cy_finished = None, cy_last_error = [], cy_units = [], cy_processed = []\<rparr>"

definition example_start :: scan_cycle where
  "example_start = (case CreateScanCycle ''c1'' 1 example_cycle of Inr c \<Rightarrow> c)"

definition example_first :: scan_cycle where
  "example_first = snd (CompleteScanCycleUnit 3 0 empty_snapshot (snd (ClaimScanCycleUnit 2 0 (snd (StartScanCycleAttempt 2 example_start)))))"

definition example_second :: scan_cycle where
  "example_second = snd (CompleteScanCycleUnit 5 1 empty_snapshot (snd (ClaimScanCycleUnit 4 1 example_first)))"

definition example_done :: scan_cycle where
  "example_done = snd (CompleteScanCycle 6 example_second)"

lemma example_created: "CreateScanCycle ''c1'' 1 example_cycle = Inr example_start"
proof -
  have "\<not> isl (CreateScanCycle ''c1'' 1 example_cycle)" by code_simp
  then show ?thesis by (auto simp: example_start_def split: sum.splits)
qed

lemma example_empty: "cy_completed_units example_cycle = 0" "cy_completed_probes example_cycle = 0"
  by (simp_all add: example_cycle_def)

lemma example_reaches:
  "cycle_reach example_start example_first" "cycle_reach example_first example_second"
  "cycle_reach example_start example_second" "cycle_reach example_start example_done"
proof -
  show 1: "cycle_reach example_start example_first" unfolding example_first_def
    by (intro cycle_step.checkpoint [THEN cycle_reach.step [rotated]] cycle_step.claim [THEN cycle_reach.step [rotated]]
        cycle_step.start [THEN cycle_reach.step [rotated]] cycle_reach.here)
  show 2: "cycle_reach example_first example_second" unfolding example_second_def
    by (intro cycle_step.checkpoint [THEN cycle_reach.step [rotated]] cycle_step.claim [THEN cycle_reach.step [rotated]] cycle_reach.here)
  show 3: "cycle_reach example_start example_second" using reach_trans [OF 2 1] .
  show "cycle_reach example_start example_done" unfolding example_done_def
    by (rule cycle_reach.step [OF 3 cycle_step.complete])
qed

lemma example_status: "cy_status example_done = ''completed''" "cy_status example_second = ''running''"
  by code_simp+

theorem cycle_counters_exact_witness:
  "cy_total_units example_done = int (length (cy_units example_done)) \<and> done_units example_done = cy_units example_done"
proof -
  have "cy_status example_done \<noteq> ''discarded''" by (simp add: example_status)
  from cycle_counters_exact [OF example_created example_empty example_reaches(4) this] show ?thesis
    by (simp add: example_status)
qed

theorem checkpoints_survive_witness: "\<exists>u \<in> set (cy_units example_second). cu_sequence u = 0 \<and> cu_snapshot u = Some empty_snapshot"
proof -
  have "list_ex (\<lambda>u. cu_sequence u = 0 \<and> cu_status u = ''completed'' \<and> cu_snapshot u = Some empty_snapshot) (cy_units example_first)" by code_simp
  then obtain u where u: "u \<in> set (cy_units example_first)" "cu_sequence u = 0" "cu_status u = ''completed''" "cu_snapshot u = Some empty_snapshot"
    by (auto simp: list_ex_iff)
  have "active example_second" by (simp add: active_def example_status)
  from checkpoints_survive [OF example_created example_empty example_reaches(1,2) this u(1,3)] u show ?thesis by blast
qed

theorem ended_cycle_stays_ended_witness: "cy_status (snd (StartScanCycleAttempt 7 example_done)) \<noteq> ''running''"
  using ended_cycle_stays_ended [OF cycle_reach.step [OF cycle_reach.here cycle_step.start [of example_done 7]]]
  by (auto simp: example_status)

theorem completed_cycle_scanned_the_plan_witness:
  "length (filter (\<lambda>u. \<not> extra (cu_unit u) \<and> unit_covers ''tcp'' ''192.0.2.1'' 443 (cu_unit u)) (done_units example_done)) = 1"
proof -
  have "''192.0.2.1'' \<in> plan_addresses example_scan_plan" by code_simp
  moreover have "(443 :: int) \<in> set (planned_ports (NormalizeJob example_plan_job) ''tcp'')" by code_simp
  moreover have "wp_units (cy_plan example_cycle) = wp_units example_scan_plan" by (simp add: example_cycle_def)
  ultimately show ?thesis
    using completed_cycle_scanned_the_plan [OF example_plan_runs _ example_created example_empty example_reaches(4) example_status(1), of "''tcp''" "''192.0.2.1''" 443]
    by simp
qed

theorem completed_cycle_can_be_loaded_witness:
  "\<exists>plan fragments. LoadScanCycleFragments example_done = Inr (plan, fragments) \<and> length fragments = 2"
proof -
  have "fst (CompleteScanCycle 6 example_second) = Inr ()" by code_simp
  then have "CompleteScanCycle 6 example_second = (Inr (), example_done)" by (simp add: example_done_def prod_eq_iff)
  from completed_cycle_can_be_loaded [OF example_created example_empty example_reaches(3) example_status(2) this]
  obtain plan where "LoadScanCycleFragments example_done = Inr (plan, map (\<lambda>u. the (cu_snapshot u)) (sort_key cu_sequence (cy_units example_second)))"
    by blast
  moreover have "length (cy_units example_second) = 2" by code_simp
  ultimately show ?thesis by simp
qed

end
