(* ===== verification/ScanText.thy ===== *)
theory ScanText
  imports Model
begin

text \<open>
  \<open>internal/scanner/nmap.go\<close>, the bounds on text that a scanner reports about a host:
  \<open>boundScannerText\<close> and \<open>boundedScannerStrings\<close>. Such text is arbitrary bytes, so UTF-8 is
  modelled as Go reads it, together with the Unicode spaces that \<open>strings.TrimSpace\<close> removes.
\<close>

section \<open>UTF-8\<close>

definition byte :: "char \<Rightarrow> nat" where
  "byte c = of_char c"

text \<open>
  The continuation bytes that may follow a lead byte, as ranges: the acceptance table of Go's
  \<open>unicode/utf8\<close>.
\<close>

definition rune_tail :: "nat \<Rightarrow> (nat \<times> nat) list option" where
  "rune_tail b =
     (if b < 0x80 then Some []
      else if 0xC2 \<le> b \<and> b \<le> 0xDF then Some [(0x80, 0xBF)]
      else if b = 0xE0 then Some [(0xA0, 0xBF), (0x80, 0xBF)]
      else if b = 0xED then Some [(0x80, 0x9F), (0x80, 0xBF)]
      else if 0xE1 \<le> b \<and> b \<le> 0xEF then Some [(0x80, 0xBF), (0x80, 0xBF)]
      else if b = 0xF0 then Some [(0x90, 0xBF), (0x80, 0xBF), (0x80, 0xBF)]
      else if 0xF1 \<le> b \<and> b \<le> 0xF3 then Some [(0x80, 0xBF), (0x80, 0xBF), (0x80, 0xBF)]
      else if b = 0xF4 then Some [(0x80, 0x8F), (0x80, 0xBF), (0x80, 0xBF)]
      else None)"

fun in_ranges :: "(nat \<times> nat) list \<Rightarrow> string \<Rightarrow> bool" where
  "in_ranges [] s = True"
| "in_ranges (r # rs) [] = False"
| "in_ranges (r # rs) (c # cs) = (fst r \<le> byte c \<and> byte c \<le> snd r \<and> in_ranges rs cs)"

text \<open>The number of bytes of the rune a text starts with, 0 when there is none.\<close>

fun rune_size :: "string \<Rightarrow> nat" where
  "rune_size [] = 0"
| "rune_size (c # cs) = (case rune_tail (byte c) of None \<Rightarrow> 0 | Some rs \<Rightarrow> if in_ranges rs cs then Suc (length rs) else 0)"

definition is_rune :: "string \<Rightarrow> bool" where
  "is_rune r = (r \<noteq> [] \<and> rune_size r = length r)"

definition replacement :: string where
  "replacement = [CHR 0xEF, CHR 0xBF, CHR 0xBD]"

definition ellipsis :: string where
  "ellipsis = [CHR 0xE2, CHR 0x80, CHR 0xA6]"

text \<open>
  \<open>strings.ToValidUTF8\<close> as the list of the runes of its result: each run of bytes that are no
  rune becomes one replacement character. The flag says that the previous byte was one.
\<close>

function runes :: "bool \<Rightarrow> string \<Rightarrow> string list" where
  "runes invalid [] = []"
| "runes invalid (c # cs) =
     (if rune_size (c # cs) = 0 then (if invalid then runes True cs else replacement # runes True cs)
      else take (rune_size (c # cs)) (c # cs) # runes False (drop (rune_size (c # cs)) (c # cs)))"
  by pat_completeness auto
termination
  by (relation "measure (length \<circ> snd)") auto

definition is_utf8 :: "string \<Rightarrow> bool" where
  "is_utf8 s = (concat (runes False s) = s)"

definition unicode_spaces :: "string list" where
  "unicode_spaces =
     [[CHR 0x20], [CHR 0x09], [CHR 0x0A], [CHR 0x0B], [CHR 0x0C], [CHR 0x0D],
      [CHR 0xC2, CHR 0x85], [CHR 0xC2, CHR 0xA0], [CHR 0xE1, CHR 0x9A, CHR 0x80],
      [CHR 0xE2, CHR 0x80, CHR 0x80], [CHR 0xE2, CHR 0x80, CHR 0x81], [CHR 0xE2, CHR 0x80, CHR 0x82],
      [CHR 0xE2, CHR 0x80, CHR 0x83], [CHR 0xE2, CHR 0x80, CHR 0x84], [CHR 0xE2, CHR 0x80, CHR 0x85],
      [CHR 0xE2, CHR 0x80, CHR 0x86], [CHR 0xE2, CHR 0x80, CHR 0x87], [CHR 0xE2, CHR 0x80, CHR 0x88],
      [CHR 0xE2, CHR 0x80, CHR 0x89], [CHR 0xE2, CHR 0x80, CHR 0x8A], [CHR 0xE2, CHR 0x80, CHR 0xA8],
      [CHR 0xE2, CHR 0x80, CHR 0xA9], [CHR 0xE2, CHR 0x80, CHR 0xAF], [CHR 0xE2, CHR 0x81, CHR 0x9F],
      [CHR 0xE3, CHR 0x80, CHR 0x80]]"

definition is_space_rune :: "string \<Rightarrow> bool" where
  "is_space_rune r = (r \<in> set unicode_spaces)"

definition trim_runes :: "string list \<Rightarrow> string list" where
  "trim_runes rs = rev (dropWhile is_space_rune (rev (dropWhile is_space_rune rs)))"

section \<open>Bounds on scanner text\<close>

definition maxScannerMetadataBytes :: int where "maxScannerMetadataBytes = 512"
definition maxScannerCPEs :: int where "maxScannerCPEs = 32"
definition maxScannerHostnames :: nat where "maxScannerHostnames = 32"
definition maxScannerLinkAddresses :: nat where "maxScannerLinkAddresses = 32"
definition maxScannerNSEOutputs :: int where "maxScannerNSEOutputs = 32"
definition maxScannerStateReasons :: nat where "maxScannerStateReasons = 32"

text \<open>The loop over the runes stops before the first one that does not fit.\<close>

fun clip_runes :: "int \<Rightarrow> int \<Rightarrow> string list \<Rightarrow> string" where
  "clip_runes limit used [] = []"
| "clip_runes limit used (r # rs) =
     (if used + int (length r) > limit then [] else r @ clip_runes limit (used + int (length r)) rs)"

definition boundScannerText :: "string \<Rightarrow> int \<Rightarrow> string" where
  "boundScannerText value0 maxBytes =
     (if maxBytes \<le> 0 then []
      else let value = trim_runes (runes False value0) in
        if int (length (concat value)) \<le> maxBytes then concat value
        else let suffix = (if maxBytes \<ge> int (length ellipsis) then ellipsis else [])
             in clip_runes (maxBytes - int (length suffix)) 0 value @ suffix)"

definition boundScannerMetadata :: "string \<Rightarrow> string" where
  "boundScannerMetadata value = boundScannerText value maxScannerMetadataBytes"

text \<open>
  At most \<open>maxItems\<close> texts are retained, the smallest so far: a smaller one replaces the largest.
\<close>

definition largestIndex :: "string list \<Rightarrow> nat" where
  "largestIndex bounded = fold (\<lambda>i largest. if bounded ! i > bounded ! largest then i else largest) [1..<length bounded] 0"

definition bounded_step :: "int \<Rightarrow> string \<Rightarrow> string list \<Rightarrow> string list" where
  "bounded_step maxItems value0 bounded =
     (let value = boundScannerMetadata value0 in
      if value = [] then bounded
      else if value \<in> set bounded then bounded
      else if int (length bounded) < maxItems then bounded @ [value]
      else if value \<ge> bounded ! largestIndex bounded then bounded
      else bounded[largestIndex bounded := value])"

definition boundedScannerStrings :: "string list \<Rightarrow> int \<Rightarrow> string list" where
  "boundedScannerStrings values maxItems =
     (if values = [] \<or> maxItems \<le> 0 then []
      else let bounded = sort (fold (bounded_step maxItems) values []) in
        if int (length bounded) > maxItems then take (nat maxItems) bounded else bounded)"

section \<open>Runes\<close>

lemma in_ranges_append: "in_ranges rs s \<Longrightarrow> in_ranges rs (s @ t)"
  by (induction rs s rule: in_ranges.induct) auto

lemma in_ranges_take: "in_ranges rs s \<Longrightarrow> in_ranges rs (take (length rs) s)"
  by (induction rs s rule: in_ranges.induct) auto

lemma in_ranges_length: "in_ranges rs s \<Longrightarrow> length rs \<le> length s"
  by (induction rs s rule: in_ranges.induct) auto

lemma rune_size_append: "rune_size s \<noteq> 0 \<Longrightarrow> rune_size (s @ t) = rune_size s"
  by (cases s) (auto split: option.splits if_splits dest: in_ranges_append)

lemma rune_size_length: "rune_size s \<le> length s"
  by (cases s) (auto split: option.splits dest: in_ranges_length)

lemma is_rune_take: "rune_size s \<noteq> 0 \<Longrightarrow> is_rune (take (rune_size s) s)"
  by (cases s) (auto simp: is_rune_def split: option.splits if_splits dest: in_ranges_take in_ranges_length)

lemma is_rune_append: "is_rune r \<Longrightarrow> rune_size (r @ s) = length r"
  using rune_size_append [of r s] by (auto simp: is_rune_def)

lemma replacement_rune [simp]: "is_rune replacement"
  by code_simp

lemma ellipsis_rune [simp]: "is_rune ellipsis" "\<not> is_space_rune ellipsis"
  by code_simp+

lemma runes_are_runes: "r \<in> set (runes invalid s) \<Longrightarrow> is_rune r"
proof (induction invalid s rule: runes.induct)
  case (2 invalid c cs)
  show ?case
  proof (cases "rune_size (c # cs) = 0")
    case True
    with 2 show ?thesis by (auto split: if_splits)
  next
    case False
    then have "runes invalid (c # cs) = take (rune_size (c # cs)) (c # cs) # runes False (drop (rune_size (c # cs)) (c # cs))"
      by (simp del: rune_size.simps)
    with 2(3) [OF False] 2(4) is_rune_take [OF False] show ?thesis by (metis set_ConsD)
  qed
qed simp

lemma runes_concat: "\<forall>r \<in> set rs. is_rune r \<Longrightarrow> runes invalid (concat rs) = rs"
proof (induction rs arbitrary: invalid)
  case (Cons r rs)
  then have r: "is_rune r" "r \<noteq> []" by (auto simp: is_rune_def)
  then obtain c cs where c: "r @ concat rs = c # cs" by (cases r) auto
  have "rune_size (c # cs) = length r" using is_rune_append [OF r(1), of "concat rs"] by (simp only: c)
  then have "runes invalid (c # cs) = take (length r) (c # cs) # runes False (drop (length r) (c # cs))"
    using r(2) by (simp del: rune_size.simps)
  then have "runes invalid (concat (r # rs)) = take (length r) (r @ concat rs) # runes False (drop (length r) (r @ concat rs))"
    by (simp only: concat.simps c)
  then show ?case using Cons by simp
qed simp

lemma utf8_concat: "\<forall>r \<in> set rs. is_rune r \<Longrightarrow> is_utf8 (concat rs)"
  by (simp add: is_utf8_def runes_concat)

lemma set_trim: "r \<in> set (trim_runes rs) \<Longrightarrow> r \<in> set rs"
  unfolding trim_runes_def set_rev by (metis set_dropWhileD set_rev)

lemma trim_runes_ends:
  "trim_runes rs \<noteq> [] \<Longrightarrow> \<not> is_space_rune (hd (trim_runes rs)) \<and> \<not> is_space_rune (last (trim_runes rs))"
proof -
  let ?front = "dropWhile is_space_rune rs"
  let ?rear = "dropWhile is_space_rune (rev ?front)"
  assume some: "trim_runes rs \<noteq> []"
  then have rear: "?rear \<noteq> []" by (simp add: trim_runes_def)
  then have "\<not> is_space_rune (hd ?rear)" by (rule hd_dropWhile)
  moreover obtain pre where "rev ?front = pre @ ?rear" using takeWhile_dropWhile_id by metis
  then have "?front = rev ?rear @ rev pre" by (metis rev_append rev_rev_ident)
  then have "hd ?front = hd (rev ?rear)" using rear by (metis hd_append2 rev_is_Nil_conv)
  moreover have "?front \<noteq> []" using rear by (metis dropWhile.simps(1) rev.simps(1))
  then have "\<not> is_space_rune (hd ?front)" by (rule hd_dropWhile)
  ultimately show ?thesis using rear by (simp add: trim_runes_def hd_rev last_rev)
qed

lemma trim_runes_id: "(rs \<noteq> [] \<Longrightarrow> \<not> is_space_rune (hd rs) \<and> \<not> is_space_rune (last rs)) \<Longrightarrow> trim_runes rs = rs"
proof (cases "rs = []")
  case False
  assume "rs \<noteq> [] \<Longrightarrow> \<not> is_space_rune (hd rs) \<and> \<not> is_space_rune (last rs)"
  with False have a: "\<not> is_space_rune (hd rs)" "\<not> is_space_rune (last rs)" by auto
  have "dropWhile is_space_rune rs = rs" using a False by (cases rs) auto
  moreover have "dropWhile is_space_rune (rev rs) = rev rs" using a False by (cases "rev rs") (auto simp flip: hd_rev)
  ultimately show ?thesis by (simp add: trim_runes_def)
qed (simp add: trim_runes_def)

lemma trim_runes_idem [simp]: "trim_runes (trim_runes rs) = trim_runes rs"
  by (rule trim_runes_id) (rule trim_runes_ends)

section \<open>Bounds\<close>

lemma clip_runes_prefix:
  "used \<le> limit \<Longrightarrow> \<exists>n. clip_runes limit used rs = concat (take n rs) \<and> used + int (length (concat (take n rs))) \<le> limit"
proof (induction limit used rs rule: clip_runes.induct)
  case (2 limit used r rs)
  show ?case
  proof (cases "used + int (length r) > limit")
    case True
    with 2(2) show ?thesis by (intro exI [of _ 0]) simp
  next
    case False
    with 2(1) obtain n where "clip_runes limit (used + int (length r)) rs = concat (take n rs)"
      "used + int (length r) + int (length (concat (take n rs))) \<le> limit" by auto
    with False show ?thesis by (intro exI [of _ "Suc n"]) simp
  qed
qed simp

text \<open>A bounded text is the runes of the trimmed text, or a prefix of them before the ellipsis.\<close>

lemma boundScannerText_cases:
  assumes "3 \<le> maxBytes"
  shows "\<exists>rs. boundScannerText value maxBytes = concat rs \<and> (\<forall>r \<in> set rs. is_rune r) \<and> trim_runes rs = rs \<and>
    int (length (concat rs)) \<le> maxBytes"
proof -
  let ?trimmed = "trim_runes (runes False value)"
  have runes: "\<forall>r \<in> set ?trimmed. is_rune r" by (auto dest: set_trim runes_are_runes)
  show ?thesis
  proof (cases "int (length (concat ?trimmed)) \<le> maxBytes")
    case True
    with runes assms show ?thesis by (intro exI [of _ ?trimmed]) (simp add: boundScannerText_def Let_def)
  next
    case False
    obtain n where n: "clip_runes (maxBytes - 3) 0 ?trimmed = concat (take n ?trimmed)"
      "int (length (concat (take n ?trimmed))) \<le> maxBytes - 3"
      using clip_runes_prefix [of 0 "maxBytes - 3" ?trimmed] assms by auto
    have "trim_runes (take n ?trimmed @ [ellipsis]) = take n ?trimmed @ [ellipsis]"
      by (rule trim_runes_id) (cases ?trimmed; cases n; use trim_runes_ends [of "runes False value"] in auto)
    then show ?thesis using False assms n runes
      by (intro exI [of _ "take n ?trimmed @ [ellipsis]"])
        (auto simp: boundScannerText_def Let_def ellipsis_def [THEN arg_cong [where f = length]] simp del: length_concat dest: in_set_takeD)
  qed
qed

text \<open>A text that does not fit is cut before the first rune that would not.\<close>

lemma clip_runes_longest:
  "used \<le> limit \<Longrightarrow> limit < used + int (length (concat rs)) \<Longrightarrow>
   \<exists>n < length rs. clip_runes limit used rs = concat (take n rs) \<and> limit < used + int (length (concat (take (Suc n) rs)))"
proof (induction limit used rs rule: clip_runes.induct)
  case (2 limit used r rs)
  show ?case
  proof (cases "used + int (length r) > limit")
    case True
    then show ?thesis by (intro exI [of _ 0]) simp
  next
    case False
    with 2 obtain n where "n < length rs" "clip_runes limit (used + int (length r)) rs = concat (take n rs)"
      "limit < used + int (length r) + int (length (concat (take (Suc n) rs)))" by (auto simp del: take_Suc_Cons)
    with False show ?thesis by (intro exI [of _ "Suc n"]) simp
  qed
qed simp

text \<open>What is appended to a text that was cut.\<close>

definition cut_mark :: "int \<Rightarrow> string" where
  "cut_mark maxBytes = (if 3 \<le> maxBytes then ellipsis else [])"

lemma boundScannerText_cut:
  assumes "0 < maxBytes" "maxBytes < int (length (concat (trim_runes (runes False value))))"
  shows "\<exists>n < length (trim_runes (runes False value)).
    boundScannerText value maxBytes = concat (take n (trim_runes (runes False value))) @ cut_mark maxBytes \<and>
    maxBytes < int (length (concat (take (Suc n) (trim_runes (runes False value))))) + int (length (cut_mark maxBytes))"
proof -
  have "int (length (cut_mark maxBytes)) \<le> maxBytes" using assms(1) by (simp add: cut_mark_def ellipsis_def)
  moreover have "boundScannerText value maxBytes =
      clip_runes (maxBytes - int (length (cut_mark maxBytes))) 0 (trim_runes (runes False value)) @ cut_mark maxBytes"
    using assms by (simp add: boundScannerText_def Let_def cut_mark_def ellipsis_def del: length_concat)
  ultimately show ?thesis
    using clip_runes_longest [of 0 "maxBytes - int (length (cut_mark maxBytes))" "trim_runes (runes False value)"] assms(2)
    by (auto simp del: length_concat)
qed

lemma boundScannerText_fits:
  "0 < maxBytes \<Longrightarrow> int (length (concat (trim_runes (runes False value)))) \<le> maxBytes \<Longrightarrow>
   boundScannerText value maxBytes = concat (trim_runes (runes False value))"
  by (simp add: boundScannerText_def Let_def del: length_concat)

lemma boundScannerText_small:
  assumes "\<not> 3 \<le> maxBytes"
  shows "\<exists>rs. boundScannerText value maxBytes = concat rs \<and> (\<forall>r \<in> set rs. is_rune r) \<and> int (length (concat rs)) \<le> max 0 maxBytes"
proof -
  let ?trimmed = "trim_runes (runes False value)"
  have runes: "\<forall>r \<in> set ?trimmed. is_rune r" by (auto dest: set_trim runes_are_runes)
  show ?thesis
  proof (cases "0 < maxBytes \<and> \<not> int (length (concat ?trimmed)) \<le> maxBytes")
    case True
    obtain n where "clip_runes maxBytes 0 ?trimmed = concat (take n ?trimmed)" "int (length (concat (take n ?trimmed))) \<le> maxBytes"
      using clip_runes_prefix [of 0 maxBytes ?trimmed] True by auto
    with True assms runes show ?thesis
      by (intro exI [of _ "take n ?trimmed"]) (auto simp: boundScannerText_def Let_def ellipsis_def simp del: length_concat dest: in_set_takeD)
  next
    case False
    then have "boundScannerText value maxBytes = concat (if maxBytes \<le> 0 then [] else ?trimmed)"
      by (simp add: boundScannerText_def Let_def)
    with False runes show ?thesis by (intro exI [of _ "if maxBytes \<le> 0 then [] else ?trimmed"]) auto
  qed
qed

lemma boundScannerText_runes:
  "\<exists>rs. boundScannerText value maxBytes = concat rs \<and> (\<forall>r \<in> set rs. is_rune r) \<and> int (length (concat rs)) \<le> max 0 maxBytes \<and>
     (3 \<le> maxBytes \<longrightarrow> trim_runes rs = rs)"
proof (cases "3 \<le> maxBytes")
  case True
  then show ?thesis using boundScannerText_cases [OF True, of "value"] by auto
next
  case False
  then show ?thesis using boundScannerText_small [OF False, of "value"] by blast
qed

text \<open>The runes of a text without surrounding space.\<close>

definition whole_text :: "string \<Rightarrow> string list" where
  "whole_text v = trim_runes (runes False v)"

text \<open>
  C34: What the bound makes of a text that a scanner reports, made UTF-8 and trimmed of surrounding
  space. If it fits in the bytes allowed, it is kept whole; otherwise the longest part of it from its
  start is kept, in whole characters, that leaves room for the mark of the cut, an ellipsis, which
  is left out when fewer than three bytes are allowed. So the result never takes more bytes than allowed
  and never ends within a character, and a text that is UTF-8, fits and has no surrounding space is left as it
  is. With three bytes or more the result has no surrounding space, and bounding it again changes nothing, so that
  repeated merging does not shorten it.
\<close>

theorem scanner_text_bounded:
  "int (length (boundScannerText value maxBytes)) \<le> max 0 maxBytes \<and>
    is_utf8 (boundScannerText value maxBytes) \<and>
    (0 < maxBytes \<and> int (length (concat (whole_text value))) \<le> maxBytes \<longrightarrow> boundScannerText value maxBytes = concat (whole_text value)) \<and>
    (0 < maxBytes \<and> maxBytes < int (length (concat (whole_text value))) \<longrightarrow>
      (\<exists>n < length (whole_text value). boundScannerText value maxBytes = concat (take n (whole_text value)) @ cut_mark maxBytes \<and>
        maxBytes < int (length (concat (take (Suc n) (whole_text value)))) + int (length (cut_mark maxBytes)))) \<and>
    (is_utf8 value \<and> whole_text value = runes False value \<and> int (length value) \<le> maxBytes \<longrightarrow> boundScannerText value maxBytes = value) \<and>
    (3 \<le> maxBytes \<longrightarrow>
      whole_text (boundScannerText value maxBytes) = runes False (boundScannerText value maxBytes) \<and>
      boundScannerText (boundScannerText value maxBytes) maxBytes = boundScannerText value maxBytes)"
proof -
  obtain rs where rs: "boundScannerText value maxBytes = concat rs" "\<forall>r \<in> set rs. is_rune r"
      "int (length (concat rs)) \<le> max 0 maxBytes" "3 \<le> maxBytes \<longrightarrow> trim_runes rs = rs"
    using boundScannerText_runes by blast
  have again: "boundScannerText (concat rs) maxBytes = concat rs" if "3 \<le> maxBytes"
    using boundScannerText_fits [of maxBytes "concat rs"] rs(2-4) that by (simp add: runes_concat del: length_concat)
  have kept: "boundScannerText value maxBytes = value"
    if "is_utf8 value" "whole_text value = runes False value" "int (length value) \<le> maxBytes"
  proof (cases "0 < maxBytes")
    case True
    then show ?thesis using boundScannerText_fits [of maxBytes "value"] that by (simp add: whole_text_def is_utf8_def del: length_concat)
  next
    case False
    then have "int (length value) \<le> 0" using that(3) by linarith
    then have "value = []" by simp
    then show ?thesis using False by (simp add: boundScannerText_def)
  qed
  show ?thesis
    using rs again kept utf8_concat boundScannerText_fits [of maxBytes "value"] boundScannerText_cut [of maxBytes "value"]
    by (auto simp: whole_text_def runes_concat simp del: length_concat)
qed

theorem scanner_text_bounded_witness:
  "boundScannerText [CHR 0x20, CHR 0xC3, CHR 0xA9, CHR 0xFF, CHR ''x''] 8 = [CHR 0xC3, CHR 0xA9, CHR 0xEF, CHR 0xBF, CHR 0xBD, CHR ''x''] \<and>
   boundScannerText ''ab c'' 4 = ''ab c'' \<and>
   boundScannerText (boundScannerText ''abcdefgh'' 5) 5 = ''ab'' @ ellipsis"
proof -
  let ?t = "[CHR 0x20, CHR 0xC3, CHR 0xA9, CHR 0xFF, CHR ''x'']"
  have "int (length (concat (whole_text ?t))) \<le> 8 \<and> concat (whole_text ?t) = [CHR 0xC3, CHR 0xA9, CHR 0xEF, CHR 0xBF, CHR 0xBD, CHR ''x'']" by code_simp
  then have "boundScannerText ?t 8 = [CHR 0xC3, CHR 0xA9, CHR 0xEF, CHR 0xBF, CHR 0xBD, CHR ''x'']"
    using scanner_text_bounded [of ?t 8] by (metis zero_less_numeral)
  moreover have "is_utf8 ''ab c'' \<and> whole_text ''ab c'' = runes False ''ab c''" by code_simp
  then have "boundScannerText ''ab c'' 4 = ''ab c''" using scanner_text_bounded [of "''ab c''" 4] by simp
  moreover have "boundScannerText ''abcdefgh'' 5 = ''ab'' @ ellipsis" by code_simp
  then have "boundScannerText (boundScannerText ''abcdefgh'' 5) 5 = ''ab'' @ ellipsis"
    using scanner_text_bounded [of "''abcdefgh''" 5] by simp
  ultimately show ?thesis by blast
qed

section \<open>The retained texts\<close>

lemma largestIndex_max:
  assumes "bounded \<noteq> []"
  shows "largestIndex bounded < length bounded \<and> (\<forall>y \<in> set bounded. y \<le> bounded ! largestIndex bounded)"
proof -
  let ?f = "\<lambda>i largest. if bounded ! i > bounded ! largest then i else largest"
  have "fold ?f [1..<n] 0 < n \<and> (\<forall>i < n. bounded ! i \<le> bounded ! (fold ?f [1..<n] 0))" if "0 < n" for n
    using that
  proof (induction n)
    case (Suc n)
    show ?case
    proof (cases "n = 0")
      case False
      with Suc have IH: "fold ?f [1..<n] 0 < n" "\<forall>i < n. bounded ! i \<le> bounded ! (fold ?f [1..<n] 0)" by auto
      have "fold ?f [1..<Suc n] 0 = ?f n (fold ?f [1..<n] 0)" using False by simp
      then show ?thesis using IH by (auto simp: less_Suc_eq intro: order.trans less_imp_le)
    qed simp
  qed simp
  from this [of "length bounded"] assms show ?thesis by (auto simp: largestIndex_def in_set_conv_nth)
qed

text \<open>The texts so far, and of them the smallest: as many as there may be.\<close>

definition retains :: "nat \<Rightarrow> string list \<Rightarrow> string set \<Rightarrow> bool" where
  "retains n bounded seen \<longleftrightarrow> distinct bounded \<and> set bounded \<subseteq> seen \<and> length bounded \<le> n \<and>
     (length bounded < n \<longrightarrow> set bounded = seen) \<and> (\<forall>x \<in> seen - set bounded. \<forall>y \<in> set bounded. y < x)"

lemma retains_step:
  assumes "retains (nat maxItems) bounded seen" "0 < maxItems"
  shows "retains (nat maxItems) (bounded_step maxItems v bounded)
    (seen \<union> (if boundScannerMetadata v = [] then {} else {boundScannerMetadata v}))"
proof (cases "boundScannerMetadata v = [] \<or> boundScannerMetadata v \<in> set bounded")
  case True
  then show ?thesis using assms by (auto simp: bounded_step_def retains_def Let_def)
next
  case False
  let ?v = "boundScannerMetadata v" and ?i = "largestIndex bounded"
  show ?thesis
  proof (cases "length bounded < nat maxItems")
    case True
    then show ?thesis using False assms by (auto simp: bounded_step_def retains_def Let_def)
  next
    case full: False
    then have b: "bounded \<noteq> []" using assms(2) by (cases bounded) auto
    note top = largestIndex_max [OF b]
    have d: "distinct bounded" "set bounded \<subseteq> seen" "length bounded = nat maxItems"
      and above: "\<And>x y. x \<in> seen \<Longrightarrow> x \<notin> set bounded \<Longrightarrow> y \<in> set bounded \<Longrightarrow> y < x"
      using assms full by (auto simp: retains_def)
    show ?thesis
    proof (cases "?v \<ge> bounded ! ?i")
      case True
      then have "y < ?v" if "y \<in> set bounded" for y
        using top that False by (metis le_less_trans nle_le order.not_eq_order_implies_strict)
      then show ?thesis using True False full d above by (auto simp: bounded_step_def retains_def Let_def)
    next
      case less: False
      have upd: "set (bounded[?i := ?v]) = insert ?v (set bounded - {bounded ! ?i})"
        using top d(1) by (intro set_update_distinct) auto
      have "bounded_step maxItems v bounded = bounded[?i := ?v]"
        using False less full by (auto simp: bounded_step_def Let_def)
      moreover have "distinct (bounded[?i := ?v])" using d(1) False by (auto simp: distinct_list_update)
      moreover have "y < x" if x: "x \<in> insert ?v seen" "x \<notin> insert ?v (set bounded - {bounded ! ?i})"
        and y: "y \<in> insert ?v (set bounded - {bounded ! ?i})" for x y
      proof -
        have big: "y < bounded ! ?i" if "y \<in> set bounded" "y \<noteq> bounded ! ?i" for y using top that by force
        have "y < bounded ! ?i" using y less big by auto
        moreover have "bounded ! ?i \<le> x" using x top above [of x "bounded ! ?i"] nth_mem [of ?i bounded] by (cases "x \<in> set bounded") auto
        ultimately show ?thesis by simp
      qed
      ultimately show ?thesis using d False full by (auto simp: retains_def upd)
    qed
  qed
qed

lemma retains_sorted:
  assumes "retains n bounded seen" "finite seen"
  shows "sort bounded = take n (sorted_list_of_set seen)"
proof -
  let ?rest = "sorted_list_of_set (seen - set bounded)"
  have r: "distinct bounded" "set bounded \<subseteq> seen" "length bounded \<le> n" "length bounded < n \<Longrightarrow> set bounded = seen"
    and above: "\<And>x y. x \<in> seen - set bounded \<Longrightarrow> y \<in> set bounded \<Longrightarrow> y < x"
    using assms(1) by (auto simp: retains_def)
  have "sorted (sort bounded @ ?rest)" using assms(2) above by (fastforce simp: sorted_append)
  moreover have "distinct (sort bounded @ ?rest)" using r(1) assms(2) by auto
  moreover have "set (sort bounded @ ?rest) = seen" using r(2) assms(2) by auto
  ultimately have "sorted_list_of_set seen = sort bounded @ ?rest"
    using sorted_list_of_set.idem_if_sorted_distinct by metis
  moreover have "length bounded < n \<Longrightarrow> ?rest = []" using r(4) by simp
  ultimately show ?thesis using r(3) by (cases "length bounded < n") auto
qed

text \<open>
  The loop that keeps at most \<open>maxItems\<close> texts in bounded memory returns exactly what sorting
  the distinct bounded texts and taking the first \<open>maxItems\<close> of them would.
\<close>

theorem retained_texts_are_the_smallest:
  "boundedScannerStrings values maxItems =
     take (nat maxItems) (sort (remdups (filter (\<lambda>v. v \<noteq> []) (map boundScannerMetadata values))))"
proof (cases "values = [] \<or> maxItems \<le> 0")
  case True
  then show ?thesis by (auto simp: boundedScannerStrings_def)
next
  case False
  let ?seen = "set (filter (\<lambda>v. v \<noteq> []) (map boundScannerMetadata values))"
  let ?bounded = "fold (bounded_step maxItems) values []"
  have "retains (nat maxItems) (fold (bounded_step maxItems) values bounded)
      (seen \<union> set (filter (\<lambda>v. v \<noteq> []) (map boundScannerMetadata values)))"
    if "retains (nat maxItems) bounded seen" for bounded seen
    using that
  proof (induction "values" arbitrary: bounded seen)
    case (Cons v vs)
    from Cons(1) [OF retains_step [OF Cons(2), of v]] False show ?case by (simp split: if_splits)
  qed simp
  from this [of "[]" "{}"] have ok: "retains (nat maxItems) ?bounded ?seen" by (simp add: retains_def)
  then have "length ?bounded \<le> nat maxItems" by (simp add: retains_def)
  then have "\<not> int (length ?bounded) > maxItems" using False by linarith
  then have "boundedScannerStrings values maxItems = sort ?bounded"
    using False by (simp add: boundedScannerStrings_def Let_def)
  also have "\<dots> = take (nat maxItems) (sorted_list_of_set ?seen)" by (rule retains_sorted [OF ok]) simp
  finally show ?thesis by (simp only: sorted_list_of_set_sort_remdups)
qed

end
