(* ===== verification/Folds.thy ===== *)
theory Folds
  imports Prelude
begin

text \<open>
  Two shapes of loops that merge repeated records: a loop over events each of which touches only
  the part of the state with its own key, and a slice with one element per key to which each new
  record is either appended or merged in place.
\<close>

section \<open>Events with keys\<close>

text \<open>
  As \<open>keyed_loop\<close>, but several events may have the same key: the part of the state that belongs
  to a key is changed by the events of the key, in their order.
\<close>

locale keyed_fold =
  fixes step :: "'e \<Rightarrow> 's \<Rightarrow> 's"
    and key :: "'e \<Rightarrow> 'k"
    and get :: "'s \<Rightarrow> 'k \<Rightarrow> 'x"
    and upd :: "'e \<Rightarrow> 'x \<Rightarrow> 'x"
  assumes get_step: "get (step e s) k = (if k = key e then upd e (get s k) else get s k)"
begin

lemma get_fold: "get (fold step es s) k = fold upd (filter (\<lambda>e. key e = k) es) (get s k)"
  by (induction es arbitrary: s) (auto simp: get_step)

end

section \<open>One element per key\<close>

text \<open>
  In Go, a slice together with a map from keys to positions in it: the position of a key is found
  in the map, and the element there is merged with the new one, or the new one is appended.
\<close>

fun upsert :: "('a \<Rightarrow> 'k) \<Rightarrow> ('a \<Rightarrow> 'a \<Rightarrow> 'a) \<Rightarrow> 'a \<Rightarrow> 'a list \<Rightarrow> 'a list" where
  "upsert key merge x [] = [x]"
| "upsert key merge x (y # ys) = (if key y = key x then merge y x # ys else y # upsert key merge x ys)"

definition lookup :: "('a \<Rightarrow> 'k) \<Rightarrow> 'a list \<Rightarrow> 'k \<Rightarrow> 'a option" where
  "lookup key xs k = find (\<lambda>x. key x = k) xs"

lemma lookup_Nil [simp]: "lookup key [] k = None"
  by (simp add: lookup_def)

lemma lookup_Cons [simp]: "lookup key (x # xs) k = (if key x = k then Some x else lookup key xs k)"
  by (simp add: lookup_def)

lemma lookup_append [simp]: "lookup key (xs @ ys) k = (case lookup key xs k of None \<Rightarrow> lookup key ys k | Some x \<Rightarrow> Some x)"
  by (induction xs) auto

lemma lookup_SomeD: "lookup key xs k = Some x \<Longrightarrow> x \<in> set xs \<and> key x = k"
  by (induction xs) (auto split: if_splits)

lemma lookup_None: "lookup key xs k = None \<longleftrightarrow> k \<notin> key ` set xs"
  by (induction xs) auto

lemma lookup_distinct: "distinct (map key xs) \<Longrightarrow> x \<in> set xs \<Longrightarrow> lookup key xs (key x) = Some x"
  by (induction xs) (auto simp: image_iff)

text \<open>What one record does to the element of its key.\<close>

definition merge_option :: "('a \<Rightarrow> 'a \<Rightarrow> 'a) \<Rightarrow> 'a \<Rightarrow> 'a option \<Rightarrow> 'a option" where
  "merge_option merge x y = Some (case y of None \<Rightarrow> x | Some y \<Rightarrow> merge y x)"

lemma fold_merge_option: "fold (merge_option merge) xs (Some y) = Some (foldl merge y xs)"
  by (induction xs arbitrary: y) (auto simp: merge_option_def)

locale keyed_merge =
  fixes key :: "'a \<Rightarrow> 'k" and merge :: "'a \<Rightarrow> 'a \<Rightarrow> 'a"
  assumes key_merge: "key (merge y x) = key y"
begin

lemma lookup_upsert:
  "lookup key (upsert key merge x ys) k = (if k = key x then merge_option merge x (lookup key ys k) else lookup key ys k)"
  by (induction ys) (auto simp: merge_option_def key_merge)

lemma keys_upsert: "key ` set (upsert key merge x ys) = insert (key x) (key ` set ys)"
  by (induction ys) (auto simp: key_merge)

lemma distinct_upsert: "distinct (map key ys) \<Longrightarrow> distinct (map key (upsert key merge x ys))"
proof (induction ys)
  case (Cons y ys)
  then show ?case by (auto simp: key_merge) (metis (no_types, lifting) image_iff insert_iff keys_upsert)
qed simp

lemma distinct_upserts: "distinct (map key ys) \<Longrightarrow> distinct (map key (fold (upsert key merge) xs ys))"
  by (induction xs arbitrary: ys) (auto intro: distinct_upsert)

lemma keys_upserts: "key ` set (fold (upsert key merge) xs ys) = key ` set xs \<union> key ` set ys"
  by (induction xs arbitrary: ys) (auto simp: keys_upsert)

lemma lookup_upserts:
  "lookup key (fold (upsert key merge) xs ys) k = fold (merge_option merge) (filter (\<lambda>x. key x = k) xs) (lookup key ys k)"
  by (induction xs arbitrary: ys) (auto simp: lookup_upsert)

text \<open>The element of a key is the merge of the records of the key, in their order.\<close>

lemma upserts_element:
  assumes "y \<in> set (fold (upsert key merge) xs [])"
  obtains z zs where "filter (\<lambda>x. key x = key y) xs = z # zs" "y = foldl merge z zs"
proof -
  have "distinct (map key (fold (upsert key merge) xs []))" by (rule distinct_upserts) simp
  then have "lookup key (fold (upsert key merge) xs []) (key y) = Some y" using assms by (rule lookup_distinct)
  then have "fold (merge_option merge) (filter (\<lambda>x. key x = key y) xs) None = Some y" by (simp add: lookup_upserts)
  moreover then obtain z zs where z: "filter (\<lambda>x. key x = key y) xs = z # zs"
    by (cases "filter (\<lambda>x. key x = key y) xs") auto
  ultimately have "y = foldl merge z zs" by (simp add: merge_option_def [of merge z] fold_merge_option)
  with z show thesis by (rule that)
qed

lemma upserts_has:
  assumes "x \<in> set xs"
  obtains y where "y \<in> set (fold (upsert key merge) xs [])" "key y = key x"
  using keys_upserts [of xs "[]"] assms by (auto simp: image_iff set_eq_iff) metis

end

section \<open>Sorting by a key\<close>

lemma map_sort_key:
  assumes "\<And>x. k (f x) = k x"
  shows "map f (sort_key k xs) = sort_key k (map f xs)"
proof -
  have "map f (insort_key k x ys) = insort_key k (f x) (map f ys)" for x ys
    by (induction ys) (auto simp: assms)
  then show ?thesis by (induction xs) auto
qed

lemma sort_key_same: "(\<And>v. v \<in> set vs \<Longrightarrow> k v = c) \<Longrightarrow> sort_key k vs = vs"
  by (intro sort_key_id_if_sorted) (auto simp: sorted_iff_nth_mono)

text \<open>A list with distinct keys whose elements are given by their keys, sorted.\<close>

lemma sort_by_distinct_key:
  assumes "distinct (map key xs)" "\<And>x. x \<in> set xs \<Longrightarrow> x = f (key x)" "key ` set xs = set ks"
  shows "sort_key key xs = map f (sort (remdups ks))"
proof -
  have "map key (sort_key key xs) = sort (remdups ks)"
    using assms(1,3) by (intro sorted_distinct_set_unique) (auto simp: distinct_map)
  moreover have "sort_key key xs = map f (map key (sort_key key xs))"
    using assms(2) by (auto simp: map_idI intro!: map_idI [symmetric])
  ultimately show ?thesis by simp
qed

end
