(* ===== verification/Merge.thy ===== *)
theory Merge
  imports ScanText Folds Coverage Plan
begin

text \<open>
  \<open>MergeWorkSnapshots\<close> in \<open>internal/scanner/plan.go\<close>, with the merging of host observations in
  \<open>nmap.go\<close> and the Naabu disagreements in \<open>naabu.go\<close>: the checkpoints of the units of a cycle
  become the one snapshot that the engine compares.

  A slice with a map from keys to positions is a list with one element per key (\<open>upsert\<close>); the
  map \<open>services\<close> names a port record by unit and port instead of unit and position.
\<close>

section \<open>Statuses\<close>

definition naabuFullRangeCompleteReason :: string where
  "naabuFullRangeCompleteReason = ''scan-complete''"

definition isIncompleteHostStatus :: "string \<Rightarrow> bool" where
  "isIncompleteHostStatus status = (word status \<in> {''unreachable'', ''down'', ''timedout'', ''timed-out'', ''timeout''})"

definition isIncompleteProtocolStatus :: "string \<Rightarrow> string \<Rightarrow> bool" where
  "isIncompleteProtocolStatus status reason =
     (if equalFold (trimSpace status) ''unknown'' \<and> equalFold (trimSpace reason) naabuFullRangeCompleteReason then False
      else isIncompleteHostStatus status \<or> equalFold (trimSpace status) ''unknown'')"

definition reasonRank :: "string \<Rightarrow> nat" where
  "reasonRank reason =
     (if word reason \<in> {''nmap-timeout'', ''nmap-host-timeout'', ''timedout'', ''timeout''} then 5
      else if word reason \<in> {''nmap-omitted'', ''omitted''} then 4
      else if word reason \<in> {''nmap-host-down'', ''down'', ''no-response'', ''host-unreach'', ''net-unreach'', ''admin-prohibited''} then 3
      else 1)"

definition chooseHostStatusReason :: "string \<Rightarrow> string \<Rightarrow> string" where
  "chooseHostStatusReason current0 addition0 =
     (let current = trimSpace current0; addition = trimSpace addition0 in
      if current = [] then addition
      else if addition = [] then current
      else if reasonRank addition > reasonRank current \<or> reasonRank addition = reasonRank current \<and> addition < current
      then addition else current)"

definition mergeHostStatus :: "string \<Rightarrow> string \<Rightarrow> string \<Rightarrow> string \<Rightarrow> string \<times> string" where
  "mergeHostStatus currentStatus0 currentReason0 additionStatus0 additionReason0 =
     (let currentStatus = word currentStatus0; additionStatus = word additionStatus0;
          currentReason = trimSpace currentReason0; additionReason = trimSpace additionReason0;
          currentIncomplete = isIncompleteHostStatus currentStatus; additionIncomplete = isIncompleteHostStatus additionStatus
      in if additionIncomplete \<and> \<not> currentIncomplete
         then (''unreachable'', if additionReason = [] then ''incomplete'' else additionReason)
         else if currentIncomplete then (''unreachable'', chooseHostStatusReason currentReason additionReason)
         else if (currentStatus = [] \<or> currentStatus = ''unknown'') \<and> additionStatus \<noteq> []
         then (additionStatus, chooseHostStatusReason currentReason additionReason)
         else (currentStatus, chooseHostStatusReason currentReason additionReason))"

definition mergeProtocolStatus :: "string \<Rightarrow> string \<Rightarrow> string \<Rightarrow> string \<Rightarrow> string \<times> string" where
  "mergeProtocolStatus currentStatus0 currentReason0 additionStatus0 additionReason0 =
     (let currentStatus = word currentStatus0; additionStatus = word additionStatus0;
          currentReason = trimSpace currentReason0; additionReason = trimSpace additionReason0;
          currentIncomplete = isIncompleteProtocolStatus currentStatus currentReason;
          additionIncomplete = isIncompleteProtocolStatus additionStatus additionReason
      in if currentIncomplete
         then (if \<not> additionIncomplete then (currentStatus, if currentReason = [] then ''incomplete'' else currentReason)
               else (currentStatus, chooseHostStatusReason currentReason additionReason))
         else if additionIncomplete then (additionStatus, if additionReason = [] then ''incomplete'' else additionReason)
         else if currentStatus = ''unknown'' \<and> equalFold currentReason naabuFullRangeCompleteReason
         then (if additionStatus \<noteq> [] then (additionStatus, additionReason) else (currentStatus, currentReason))
         else if currentStatus = [] then (additionStatus, chooseHostStatusReason currentReason additionReason)
         else (currentStatus, chooseHostStatusReason currentReason additionReason))"

definition mergeDiscoveryStates :: "string \<Rightarrow> string \<Rightarrow> string" where
  "mergeDiscoveryStates current0 addition0 =
     (let current = word current0; addition = word addition0 in
      if current = ''conflict'' \<or> addition = ''conflict'' then ''conflict''
      else if current = [] then addition
      else if addition = [] \<or> current = addition then current
      else ''conflict'')"

definition verificationRank :: "string \<Rightarrow> nat" where
  "verificationRank v =
     (if v = ''confirmed'' then 3 else if v = ''discovered'' then 2 else if v = ''unconfirmed'' then 1 else 0)"

section \<open>Hosts of several fragments\<close>

text \<open>A \<open>float64\<close> is zero with either sign.\<close>

definition zero_latency :: "64 Word.word \<Rightarrow> bool" where
  "zero_latency w = (w = 0 \<or> w = 0x8000000000000000)"

definition mergeHostObservation :: "host_observation \<Rightarrow> host_observation \<Rightarrow> host_observation" where
  "mergeHostObservation current addition =
     (let (status, reason) = mergeHostStatus (ho_status current) (ho_status_reason current) (ho_status addition) (ho_status_reason addition) in
      current\<lparr>
        ho_address := (if ho_address current = [] then ho_address addition else ho_address current),
        ho_source_targets := ho_source_targets current @ ho_source_targets addition,
        ho_dns_names := ho_dns_names current @ ho_dns_names addition,
        ho_address_family := (if ho_address_family current = [] then ho_address_family addition else ho_address_family current),
        ho_status := status, ho_status_reason := reason,
        ho_reason_ttl := (if ho_reason_ttl current = 0 \<and> ho_reason_ttl addition \<noteq> 0 then ho_reason_ttl addition else ho_reason_ttl current),
        ho_latency_ms := (if zero_latency (ho_latency_ms current) \<and> \<not> zero_latency (ho_latency_ms addition) then ho_latency_ms addition
          else ho_latency_ms current),
        ho_link_addresses := ho_link_addresses current @ ho_link_addresses addition,
        ho_hostnames := ho_hostnames current @ ho_hostnames addition,
        ho_protocols := ho_protocols current @ ho_protocols addition\<rparr>)"

definition mergeHostObservationMap ::
  "string \<Rightarrow> host_observation \<Rightarrow> (string, host_observation) gomap \<Rightarrow> (string, host_observation) gomap" where
  "mergeHostObservationMap address addition hosts =
     (case mget hosts address of
        None \<Rightarrow> mput address addition hosts
      | Some current \<Rightarrow> mput address (mergeHostObservation current addition) hosts)"

section \<open>One observation per protocol and port\<close>

definition uniqueStrings :: "string list \<Rightarrow> string list" where
  "uniqueStrings vs = sort (remdups (filter (\<lambda>v. v \<noteq> []) (map trimSpace vs)))"

definition dedupeLinks :: "link_address list \<Rightarrow> link_address list" where
  "dedupeLinks links =
     (let seen = fold (\<lambda>l. mput (la_type l @ nul # la_address l) l) links [];
          bounded = map (\<lambda>(_, l). \<lparr>la_address = boundScannerMetadata (la_address l), la_type = boundScannerMetadata (la_type l),
            la_vendor = boundScannerMetadata (la_vendor l)\<rparr>) seen
      in take maxScannerLinkAddresses (sort_key (\<lambda>l. (la_type l, la_address l)) bounded))"

definition bound_hostname :: "hostname \<Rightarrow> hostname" where
  "bound_hostname n = \<lparr>hn_name = boundScannerMetadata (hn_name n), hn_type = boundScannerMetadata (hn_type n)\<rparr>"

definition dedupeHostnames :: "hostname list \<Rightarrow> hostname list" where
  "dedupeHostnames names =
     (let seen = fold (\<lambda>n. mput (hn_type (bound_hostname n) @ nul # hn_name (bound_hostname n)) (bound_hostname n)) names []
      in take maxScannerHostnames (sort_key (\<lambda>n. (hn_name n, hn_type n)) (map snd seen)))"

definition merge_reason :: "state_reason \<Rightarrow> state_reason \<Rightarrow> state_reason" where
  "merge_reason r incoming = r\<lparr>sr_count := sr_count r + sr_count incoming\<rparr>"

definition merge_summary :: "state_summary \<Rightarrow> state_summary \<Rightarrow> state_summary" where
  "merge_summary s incoming = s\<lparr>ss_count := ss_count s + ss_count incoming,
     ss_reasons := fold (upsert sr_reason merge_reason) (ss_reasons incoming) (ss_reasons s)\<rparr>"

definition merge_protocol :: "protocol_observation \<Rightarrow> protocol_observation \<Rightarrow> protocol_observation" where
  "merge_protocol p incoming =
     (let (status, reason) = mergeProtocolStatus (po_status p) (po_status_reason p) (po_status incoming) (po_status_reason incoming);
          first = (\<lambda>f. if f p = [] then f incoming else f p)
      in p\<lparr>po_status := status, po_status_reason := reason,
        po_discovery_state := mergeDiscoveryStates (po_discovery_state p) (po_discovery_state incoming),
        po_scan_type := first po_scan_type,
        po_scanned_ports := first po_scanned_ports,
        po_scanned_port_count := max (po_scanned_port_count p) (po_scanned_port_count incoming),
        po_service_detection := (po_service_detection p \<or> po_service_detection incoming),
        po_discovery_engine := first po_discovery_engine,
        po_discovered_ports := po_discovered_ports p @ po_discovered_ports incoming,
        po_unconfirmed_ports := po_unconfirmed_ports p @ po_unconfirmed_ports incoming,
        po_ports := po_ports p @ po_ports incoming,
        po_state_summaries := fold (upsert ss_state merge_summary) (po_state_summaries incoming) (po_state_summaries p),
        po_nse_profile := first po_nse_profile,
        po_nse_args := (if po_nse_args p = [] then po_nse_args incoming else po_nse_args p),
        po_nse_output := po_nse_output p @ po_nse_output incoming,
        po_command_fingerprint := first po_command_fingerprint\<rparr>)"

definition merge_service :: "service_observation \<Rightarrow> service_observation \<Rightarrow> service_observation" where
  "merge_service s incoming =
     (let first = (\<lambda>f. if f s = [] then f incoming else f s) in
      s\<lparr>so_name := first so_name, so_product := first so_product, so_version := first so_version,
        so_extra_info := first so_extra_info, so_method := first so_method,
        so_confidence := (if so_confidence s = 0 then so_confidence incoming else so_confidence s),
        so_tunnel := first so_tunnel, so_os_type := first so_os_type, so_device_type := first so_device_type,
        so_cpes := so_cpes s @ so_cpes incoming\<rparr>)"

definition merge_port_observation :: "port_observation \<Rightarrow> port_observation \<Rightarrow> port_observation" where
  "merge_port_observation p incoming = p\<lparr>
     pob_state := (if pob_state p \<noteq> ''open'' \<and> pob_state incoming = ''open'' then pob_state incoming else pob_state p),
     pob_reason := (if pob_reason p = [] then pob_reason incoming else pob_reason p),
     pob_reason_ttl := (if pob_reason p = [] then pob_reason_ttl incoming else pob_reason_ttl p),
     pob_service := (case pob_service p of None \<Rightarrow> pob_service incoming
       | Some s \<Rightarrow> (case pob_service incoming of None \<Rightarrow> Some s | Some i \<Rightarrow> Some (merge_service s i)))\<rparr>"

definition merge_discovered :: "port_observation \<Rightarrow> port_observation \<Rightarrow> port_observation" where
  "merge_discovered p incoming = p\<lparr>
     pob_verification := (if verificationRank (pob_verification incoming) > verificationRank (pob_verification p)
       then pob_verification incoming else pob_verification p),
     pob_reason := (if pob_reason p = [] then pob_reason incoming else pob_reason p),
     pob_reason_ttl := (if pob_reason p = [] then pob_reason_ttl incoming else pob_reason_ttl p)\<rparr>"

definition bound_service :: "service_observation \<Rightarrow> service_observation" where
  "bound_service s = s\<lparr>so_name := boundScannerMetadata (so_name s), so_product := boundScannerMetadata (so_product s),
     so_version := boundScannerMetadata (so_version s), so_extra_info := boundScannerMetadata (so_extra_info s),
     so_method := boundScannerMetadata (so_method s), so_tunnel := boundScannerMetadata (so_tunnel s),
     so_os_type := boundScannerMetadata (so_os_type s), so_device_type := boundScannerMetadata (so_device_type s),
     so_cpes := boundedScannerStrings (so_cpes s) maxScannerCPEs\<rparr>"

definition bound_port :: "port_observation \<Rightarrow> port_observation" where
  "bound_port p = p\<lparr>pob_state := boundScannerMetadata (pob_state p), pob_reason := boundScannerMetadata (pob_reason p),
     pob_verification := boundScannerMetadata (pob_verification p), pob_service := map_option bound_service (pob_service p)\<rparr>"

definition bound_summary :: "state_summary \<Rightarrow> state_summary" where
  "bound_summary s = s\<lparr>ss_state := boundScannerMetadata (ss_state s),
     ss_reasons := take maxScannerStateReasons (sort_key sr_reason
       (map (\<lambda>r. r\<lparr>sr_reason := boundScannerMetadata (sr_reason r)\<rparr>) (ss_reasons s)))\<rparr>"

definition dedupe_protocol :: "protocol_observation \<Rightarrow> protocol_observation" where
  "dedupe_protocol p = p\<lparr>
     po_protocol := boundScannerMetadata (po_protocol p), po_status := boundScannerMetadata (po_status p),
     po_status_reason := boundScannerMetadata (po_status_reason p), po_scan_type := boundScannerMetadata (po_scan_type p),
     po_scanned_ports := boundScannerMetadata (po_scanned_ports p), po_nse_profile := boundScannerMetadata (po_nse_profile p),
     po_nse_output := sort (boundedScannerStrings (po_nse_output p) maxScannerNSEOutputs),
     po_ports := map bound_port (fold (upsert pob_port merge_port_observation) (po_ports p) []),
     po_discovered_ports := map bound_port (fold (upsert pob_port merge_discovered) (po_discovered_ports p) []),
     po_unconfirmed_ports := map bound_port (fold (upsert pob_port merge_discovered) (po_unconfirmed_ports p) []),
     po_state_summaries := map bound_summary (po_state_summaries p)\<rparr>"

text \<open>The snapshot with this one host is normalised at the end.\<close>

definition dedupeHostObservation :: "host_observation \<Rightarrow> host_observation" where
  "dedupeHostObservation h = normalize_host (h\<lparr>
     ho_source_targets := uniqueStrings (ho_source_targets h), ho_dns_names := uniqueStrings (ho_dns_names h),
     ho_link_addresses := dedupeLinks (ho_link_addresses h), ho_hostnames := dedupeHostnames (ho_hostnames h),
     ho_address := boundScannerMetadata (ho_address h), ho_status := boundScannerMetadata (ho_status h),
     ho_status_reason := boundScannerMetadata (ho_status_reason h),
     ho_protocols := map dedupe_protocol (fold (upsert po_protocol merge_protocol) (ho_protocols h) [])\<rparr>)"

section \<open>Ports that Naabu found and Nmap did not\<close>

definition unconfirmed_port :: "int \<Rightarrow> port_observation" where
  "unconfirmed_port p = \<lparr>pob_port = p, pob_state = ''unconfirmed'', pob_reason = ''nmap-disagreement'', pob_reason_ttl = 0,
     pob_verification = ''unconfirmed'', pob_service = None\<rparr>"

definition confirmed_ports :: "host_observation \<Rightarrow> int list" where
  "confirmed_ports h = [pob_port q. p \<leftarrow> ho_protocols h, po_protocol p = ''tcp'', q \<leftarrow> po_ports p,
     pob_state q = ''open'' \<or> pob_state q = ''open|filtered'']"

definition markNaabuDisagreements :: "host_observation \<Rightarrow> int list \<Rightarrow> host_observation" where
  "markNaabuDisagreements h discovered = h\<lparr>ho_protocols := map (\<lambda>p.
     if po_discovery_engine p \<noteq> ''naabu'' then p
     else p\<lparr>po_unconfirmed_ports := po_unconfirmed_ports p @
       map unconfirmed_port (filter (\<lambda>q. q \<notin> set (confirmed_ports h)) discovered)\<rparr>) (ho_protocols h)\<rparr>"

definition markMergedNaabuDisagreements :: "host_observation \<Rightarrow> host_observation" where
  "markMergedNaabuDisagreements h = markNaabuDisagreements h (sort (remdups
     [pob_port q. p \<leftarrow> ho_protocols h, po_protocol p = ''tcp'', po_discovery_engine p = ''naabu'', q \<leftarrow> po_discovered_ports p]))"

section \<open>The units of all fragments\<close>

definition serviceFingerprintSeparator :: string where
  "serviceFingerprintSeparator = '' || ''"

text \<open>\<open>strings.Split\<close> by a separator that is not empty.\<close>

function splitText :: "string \<Rightarrow> string \<Rightarrow> string list" where
  "splitText sep s =
     (if s = [] \<or> sep = [] then [s]
      else if hasPrefix s sep then [] # splitText sep (drop (length sep) s)
      else (hd s # hd (splitText sep (tl s))) # tl (splitText sep (tl s)))"
  by pat_completeness auto
termination
  by (relation "measure (length \<circ> snd)") auto

declare splitText.simps [simp del]

definition addServiceFingerprints :: "string list \<Rightarrow> string \<Rightarrow> string list" where
  "addServiceFingerprints fingerprints service =
     fold (\<lambda>f fs. if f \<noteq> [] then List.insert f fs else fs) (splitText serviceFingerprintSeparator service) fingerprints"

definition joinServiceFingerprints :: "string list \<Rightarrow> string" where
  "joinServiceFingerprints fingerprints = joinWith serviceFingerprintSeparator (sort fingerprints)"

definition uniqueSorted :: "string list \<Rightarrow> string list" where
  "uniqueSorted vs = sort (remdups vs)"

type_synonym services = "(string \<times> int, string list) gomap"

text \<open>The record of a port that is seen again, and the fingerprints of ports with several services.\<close>

definition merge_port_state :: "port_state \<Rightarrow> port_state \<Rightarrow> port_state" where
  "merge_port_state existing port = existing\<lparr>
     ps_state := (if ps_state existing \<noteq> ''open'' \<and> ps_state port = ''open'' then ps_state port else ps_state existing),
     ps_service := (if ps_service existing = [] then ps_service port else ps_service existing),
     ps_evidence := ps_evidence existing @ ps_evidence port\<rparr>"

definition add_services :: "port_state \<Rightarrow> port_state \<Rightarrow> string list option \<Rightarrow> string list option" where
  "add_services existing port fingerprints =
     (if ps_service port = [] \<or> ps_service port = ps_service existing \<or> ps_service existing = [] then fingerprints
      else Some (addServiceFingerprints
        (case fingerprints of None \<Rightarrow> addServiceFingerprints [] (ps_service existing) | Some fs \<Rightarrow> fs) (ps_service port)))"

definition add_port :: "string \<Rightarrow> port_state \<Rightarrow> port_state list \<times> services \<Rightarrow> port_state list \<times> services" where
  "add_port key port st = (case st of (ports, services) \<Rightarrow>
     (upsert ps_port merge_port_state port ports,
      case lookup ps_port ports (ps_port port) of
        None \<Rightarrow> services
      | Some existing \<Rightarrow>
          (case add_services existing port (mget services (key, ps_port port)) of
             None \<Rightarrow> services
           | Some fs \<Rightarrow> mput (key, ps_port port) fs services)))"

definition add_fragment_unit :: "unit_obs \<Rightarrow> (string, unit_obs) gomap \<times> services \<Rightarrow> (string, unit_obs) gomap \<times> services" where
  "add_fragment_unit u st = (case st of (units, services) \<Rightarrow>
     let key = target_protocol_key (u_target u) (u_protocol u);
         current = (case mget units key of None \<Rightarrow> \<lparr>u_target = u_target u, u_protocol = u_protocol u, u_addresses = [], u_ports = []\<rparr>
           | Some current \<Rightarrow> current);
         (ports, services') = fold (add_port key) (u_ports u) (u_ports current, services)
     in (mput key (current\<lparr>u_addresses := u_addresses current @ u_addresses u, u_ports := ports\<rparr>) units, services'))"

definition finish_port :: "services \<Rightarrow> string \<Rightarrow> port_state \<Rightarrow> port_state" where
  "finish_port services key p = p\<lparr>
     ps_service := (case mget services (key, ps_port p) of None \<Rightarrow> ps_service p | Some fs \<Rightarrow> joinServiceFingerprints fs),
     ps_evidence := uniqueSorted (ps_evidence p)\<rparr>"

definition fragment_units :: "unit_obs list \<Rightarrow> unit_obs list" where
  "fragment_units us =
     (case fold add_fragment_unit us ([], []) of (units, services) \<Rightarrow>
        map (\<lambda>(key, u). u\<lparr>u_addresses := uniqueSorted (u_addresses u), u_ports := map (finish_port services key) (u_ports u)\<rparr>) units)"

definition merged_hosts :: "host_observation list \<Rightarrow> host_observation list" where
  "merged_hosts hs = map snd (fold (\<lambda>h. mergeHostObservationMap (ho_address h) h) hs [])"

section \<open>The merged snapshot\<close>

definition restore_scope :: "scope list \<Rightarrow> protocol_observation \<Rightarrow> protocol_observation" where
  "restore_scope scopes p =
     (case find (\<lambda>c. sc_protocol c = po_protocol p) scopes of
        None \<Rightarrow> p
      | Some c \<Rightarrow> p\<lparr>po_scanned_ports := sc_ports c, po_service_detection := sc_service_detection c,
          po_scanned_port_count := (case ParsePorts (sc_ports c) of Inl _ \<Rightarrow> po_scanned_port_count p | Inr ports \<Rightarrow> int (length ports))\<rparr>)"

definition finish_host :: "scope list \<Rightarrow> host_observation \<Rightarrow> host_observation" where
  "finish_host scopes h =
     (let marked = markMergedNaabuDisagreements (dedupeHostObservation h)
      in marked\<lparr>ho_protocols := map (restore_scope scopes) (ho_protocols marked)\<rparr>)"

definition MergeWorkSnapshots :: "work_plan \<Rightarrow> snapshot list \<Rightarrow> snapshot" where
  "MergeWorkSnapshots plan fragments =
     (let result = Normalize \<lparr>sn_units = fragment_units (concat (map sn_units fragments)), sn_scopes = wp_scopes plan,
            sn_dns = wp_dns plan, sn_hosts = merged_hosts (concat (map sn_hosts fragments)), sn_host_states = [],
            sn_target_failures = wp_failures plan\<rparr>
      in Normalize (result\<lparr>sn_hosts := map (finish_host (wp_scopes plan)) (sn_hosts result)\<rparr>))"

end
