(* ===== verification/MergeFacts.thy ===== *)
theory MergeFacts
  imports Merge
begin

text \<open>
  What the merged snapshot says about ports: the loops over fragments, units and ports, with
  their indexes and side tables, give for every port the merge of its reports.
\<close>

abbreviation unit_key :: "unit_obs \<Rightarrow> string" where
  "unit_key u \<equiv> target_protocol_key (u_target u) (u_protocol u)"

section \<open>The specification\<close>

text \<open>The reports of the ports of a target and protocol, in the order of the fragments.\<close>

definition reported :: "string \<Rightarrow> snapshot list \<Rightarrow> port_state list" where
  "reported key fragments = concat (map u_ports (filter (\<lambda>u. unit_key u = key) (concat (map sn_units fragments))))"

definition ports_of :: "string \<Rightarrow> snapshot \<Rightarrow> port_state list" where
  "ports_of key s = concat (map u_ports (filter (\<lambda>u. unit_key u = key) (sn_units s)))"

text \<open>One service is kept as it is; of several, the distinct fingerprints are listed in order.\<close>

definition merged_service :: "string list \<Rightarrow> string" where
  "merged_service services =
     (case filter (\<lambda>s. s \<noteq> []) services of
        [] \<Rightarrow> []
      | s # ss \<Rightarrow> if list_all (\<lambda>t. t = s) ss then s
          else joinWith '' || '' (sort (remdups (filter (\<lambda>f. f \<noteq> []) (concat (map (splitText '' || '') (s # ss)))))))"

definition merged_port :: "port_state list \<Rightarrow> port_state" where
  "merged_port reports = \<lparr>ps_port = ps_port (hd reports),
     ps_state = (if list_ex (\<lambda>q. ps_state q = ''open'') reports then ''open'' else ps_state (hd reports)),
     ps_service = merged_service (map ps_service reports),
     ps_evidence = sort (remdups (concat (map ps_evidence reports)))\<rparr>"

section \<open>The reports of one port\<close>

interpretation unit_ports: keyed_merge ps_port merge_port_state
  by unfold_locales (simp add: merge_port_state_def)

definition port_upd :: "port_state \<Rightarrow> port_state option \<times> string list option \<Rightarrow> port_state option \<times> string list option" where
  "port_upd q x = (merge_option merge_port_state q (fst x),
     case fst x of None \<Rightarrow> snd x | Some existing \<Rightarrow> add_services existing q (snd x))"

lemma set_addServiceFingerprints:
  "set (addServiceFingerprints fs service) = set fs \<union> {f \<in> set (splitText serviceFingerprintSeparator service). f \<noteq> []}"
proof -
  have "set (fold (\<lambda>f fs. if f \<noteq> [] then List.insert f fs else fs) xs fs) = set fs \<union> {f \<in> set xs. f \<noteq> []}" for xs :: "string list"
    by (induction xs arbitrary: fs) auto
  then show ?thesis by (simp add: addServiceFingerprints_def)
qed

lemma distinct_addServiceFingerprints: "distinct fs \<Longrightarrow> distinct (addServiceFingerprints fs service)"
proof -
  have "distinct fs \<Longrightarrow> distinct (fold (\<lambda>f fs. if f \<noteq> [] then List.insert f fs else fs) xs fs)" for xs :: "string list"
    by (induction xs arbitrary: fs) auto
  then show "distinct fs \<Longrightarrow> distinct (addServiceFingerprints fs service)" by (simp add: addServiceFingerprints_def)
qed

definition fingerprints_of :: "string list \<Rightarrow> string set" where
  "fingerprints_of services = {f. f \<noteq> [] \<and> (\<exists>s \<in> set services. f \<in> set (splitText serviceFingerprintSeparator s))}"

lemma fold_port_upd:
  "\<exists>e fs. fold port_upd (q # qs) (None, None) = (Some e, fs) \<and> ps_port e = ps_port q \<and>
     ps_state e = (if list_ex (\<lambda>r. ps_state r = ''open'') (q # qs) then ''open'' else ps_state q) \<and>
     ps_evidence e = concat (map ps_evidence (q # qs)) \<and>
     (case filter (\<lambda>s. s \<noteq> []) (map ps_service (q # qs)) of
        [] \<Rightarrow> ps_service e = [] \<and> fs = None
      | s # ss \<Rightarrow> ps_service e = s \<and>
          (if list_all (\<lambda>t. t = s) ss then fs = None
           else \<exists>f. fs = Some f \<and> distinct f \<and> set f = fingerprints_of (s # ss)))"
proof (induction qs rule: rev_induct)
  case Nil
  show ?case by (simp add: port_upd_def merge_option_def)
next
  case (snoc r qs)
  then obtain e fs where IH: "fold port_upd (q # qs) (None, None) = (Some e, fs)" "ps_port e = ps_port q"
    "ps_state e = (if list_ex (\<lambda>r. ps_state r = ''open'') (q # qs) then ''open'' else ps_state q)"
    "ps_evidence e = concat (map ps_evidence (q # qs))"
    "case filter (\<lambda>s. s \<noteq> []) (map ps_service (q # qs)) of
        [] \<Rightarrow> ps_service e = [] \<and> fs = None
      | s # ss \<Rightarrow> ps_service e = s \<and>
          (if list_all (\<lambda>t. t = s) ss then fs = None
           else \<exists>f. fs = Some f \<and> distinct f \<and> set f = fingerprints_of (s # ss))"
    by blast
  let ?e = "merge_port_state e r" and ?fs = "add_services e r fs"
  have "fold port_upd (q # qs @ [r]) (None, None) = port_upd r (fold port_upd (q # qs) (None, None))" by simp
  also have "\<dots> = (Some ?e, ?fs)" unfolding IH(1) by (simp add: port_upd_def merge_option_def)
  finally have step: "fold port_upd (q # qs @ [r]) (None, None) = (Some ?e, ?fs)" .
  have split: "filter (\<lambda>s. s \<noteq> []) (map ps_service (q # qs @ [r])) =
      filter (\<lambda>s. s \<noteq> []) (map ps_service (q # qs)) @ (if ps_service r = [] then [] else [ps_service r])"
    by simp
  have services: "case filter (\<lambda>s. s \<noteq> []) (map ps_service (q # qs @ [r])) of
        [] \<Rightarrow> ps_service ?e = [] \<and> ?fs = None
      | s # ss \<Rightarrow> ps_service ?e = s \<and>
          (if list_all (\<lambda>t. t = s) ss then ?fs = None
           else \<exists>f. ?fs = Some f \<and> distinct f \<and> set f = fingerprints_of (s # ss))"
  proof (cases "filter (\<lambda>s. s \<noteq> []) (map ps_service (q # qs))")
    case Nil
    then show ?thesis unfolding split using IH(5) by (simp add: merge_port_state_def add_services_def)
  next
    case (Cons s ss)
    have "s \<in> set (filter (\<lambda>s. s \<noteq> []) (map ps_service (q # qs)))" unfolding Cons by simp
    then have "s \<noteq> []" unfolding set_filter by blast
    with Cons have s: "s \<noteq> []" "ps_service e = s" using IH(5) by simp_all
    let ?t = "ps_service r" and ?pieces = "\<lambda>t. {f \<in> set (splitText serviceFingerprintSeparator t). f \<noteq> []}"
    have list: "filter (\<lambda>s. s \<noteq> []) (map ps_service (q # qs @ [r])) = s # ss @ (if ?t = [] then [] else [?t])"
      unfolding split Cons by simp
    have head: "ps_service ?e = s" using s by (simp add: merge_port_state_def)
    have before: "if list_all (\<lambda>t. t = s) ss then fs = None else \<exists>f. fs = Some f \<and> distinct f \<and> set f = fingerprints_of (s # ss)"
      using IH(5) unfolding Cons by simp
    show ?thesis
    proof (cases "?t = [] \<or> ?t = s")
      case True
      then have same: "?fs = fs" using s by (auto simp: add_services_def)
      have all: "list_all (\<lambda>t. t = s) (ss @ (if ?t = [] then [] else [?t])) = list_all (\<lambda>t. t = s) ss" using True by auto
      have pieces: "fingerprints_of (s # ss @ (if ?t = [] then [] else [?t])) = fingerprints_of (s # ss)"
        using True by (auto simp: fingerprints_of_def)
      show ?thesis unfolding list list.case same all pieces using head before by blast
    next
      case False
      let ?old = "case fs of None \<Rightarrow> addServiceFingerprints [] s | Some f \<Rightarrow> f"
      have "?fs = Some (addServiceFingerprints ?old ?t)" using False s unfolding add_services_def s(2) by simp
      moreover have old: "distinct ?old \<and> set ?old = fingerprints_of (s # ss)"
      proof (cases "list_all (\<lambda>t. t = s) ss")
        case True
        then have "fingerprints_of (s # ss) = ?pieces s" by (auto simp: fingerprints_of_def list_all_iff)
        moreover have "fs = None" using before True by (simp only: if_True)
        ultimately show ?thesis by (simp add: set_addServiceFingerprints distinct_addServiceFingerprints)
      next
        case False
        then obtain f where "fs = Some f" "distinct f" "set f = fingerprints_of (s # ss)"
          using before by (simp only: if_False) blast
        then show ?thesis by simp
      qed
      moreover have "fingerprints_of (s # ss @ [?t]) = fingerprints_of (s # ss) \<union> ?pieces ?t"
        by (auto simp: fingerprints_of_def)
      ultimately have "?fs = Some (addServiceFingerprints ?old ?t)" "distinct (addServiceFingerprints ?old ?t)"
        "set (addServiceFingerprints ?old ?t) = fingerprints_of (s # ss @ [?t])"
        by (simp_all add: set_addServiceFingerprints distinct_addServiceFingerprints)
      then show ?thesis unfolding list list.case using head False by simp
    qed
  qed
  show ?case
    using step IH(2-4) services by (intro exI [of _ ?e] exI [of _ ?fs]) (auto simp: merge_port_state_def)
qed

text \<open>With the fingerprints filled in, that is the specified record.\<close>

lemma finish_reports:
  assumes "fold port_upd (q # qs) (None, None) = (Some e, mget services (key, ps_port q))"
  shows "finish_port services key e = merged_port (q # qs)"
proof -
  obtain e' fs where f: "fold port_upd (q # qs) (None, None) = (Some e', fs)" "ps_port e' = ps_port q"
    "ps_state e' = (if list_ex (\<lambda>r. ps_state r = ''open'') (q # qs) then ''open'' else ps_state q)"
    "ps_evidence e' = concat (map ps_evidence (q # qs))"
    "case filter (\<lambda>s. s \<noteq> []) (map ps_service (q # qs)) of
        [] \<Rightarrow> ps_service e' = [] \<and> fs = None
      | s # ss \<Rightarrow> ps_service e' = s \<and>
          (if list_all (\<lambda>t. t = s) ss then fs = None
           else \<exists>f. fs = Some f \<and> distinct f \<and> set f = fingerprints_of (s # ss))"
    using fold_port_upd [of q qs] by blast
  then have e: "e' = e" "fs = mget services (key, ps_port q)" using assms by auto
  have "ps_service (finish_port services key e) = merged_service (map ps_service (q # qs))"
  proof (cases "filter (\<lambda>s. s \<noteq> []) (map ps_service (q # qs))")
    case Nil
    then show ?thesis using f e unfolding merged_service_def by (simp add: finish_port_def)
  next
    case (Cons s ss)
    show ?thesis
    proof (cases "list_all (\<lambda>t. t = s) ss")
      case True
      then show ?thesis using f(2,5) e Cons unfolding merged_service_def by (simp add: finish_port_def)
    next
      case False
      then obtain fp where fp: "fs = Some fp" "distinct fp" "set fp = fingerprints_of (s # ss)" using f(5) Cons by auto
      have "sort fp = sort (remdups (filter (\<lambda>f. f \<noteq> []) (concat (map (splitText serviceFingerprintSeparator) (s # ss)))))"
        using fp by (intro sorted_distinct_set_unique) (auto simp: fingerprints_of_def)
      moreover have "mget services (key, ps_port e) = Some fp" using e fp(1) f(2) by simp
      ultimately show ?thesis using Cons False unfolding merged_service_def
        by (simp add: finish_port_def joinServiceFingerprints_def serviceFingerprintSeparator_def)
    qed
  qed
  then show ?thesis using f e
    by (intro port_state.equality) (simp_all add: merged_port_def finish_port_def uniqueSorted_def)
qed

section \<open>The loops\<close>

type_synonym port_view = "int \<Rightarrow> port_state option \<times> string list option"

lemma add_services_None: "add_services e q fs = None \<Longrightarrow> fs = None"
  by (simp add: add_services_def split: if_splits)

interpretation port_loop: keyed_fold "add_port key" ps_port
    "\<lambda>st p. (lookup ps_port (fst st) p, mget (snd st) (key, p))" port_upd for key :: string
  by unfold_locales (auto simp: add_port_def port_upd_def unit_ports.lookup_upsert dest: add_services_None split: option.splits)

definition unit_view :: "(string, unit_obs) gomap \<times> services \<Rightarrow> string \<Rightarrow> port_view" where
  "unit_view st key = (\<lambda>p. (case mget (fst st) key of None \<Rightarrow> None | Some u \<Rightarrow> lookup ps_port (u_ports u) p, mget (snd st) (key, p)))"

definition unit_upd :: "unit_obs \<Rightarrow> port_view \<Rightarrow> port_view" where
  "unit_upd u x = (\<lambda>p. fold port_upd (filter (\<lambda>q. ps_port q = p) (u_ports u)) (x p))"

lemma other_services:
  "key' \<noteq> key \<Longrightarrow> mget (snd (fold (add_port key) qs st)) (key', p) = mget (snd st) (key', p)"
  by (induction qs arbitrary: st) (auto simp: add_port_def split: option.splits prod.splits)

lemma unit_view_step:
  "unit_view (add_fragment_unit u st) key = (if key = unit_key u then unit_upd u (unit_view st key) else unit_view st key)"
proof -
  obtain units services where st: "st = (units, services)" by (cases st)
  define current where "current = (case mget units (unit_key u) of
    None \<Rightarrow> \<lparr>u_target = u_target u, u_protocol = u_protocol u, u_addresses = [], u_ports = []\<rparr> | Some c \<Rightarrow> c)"
  define result where "result = fold (add_port (unit_key u)) (u_ports u) (u_ports current, services)"
  have eq: "add_fragment_unit u st =
      (mput (unit_key u) (current\<lparr>u_addresses := u_addresses current @ u_addresses u, u_ports := fst result\<rparr>) units, snd result)"
    by (simp add: add_fragment_unit_def st current_def [symmetric] result_def [symmetric] Let_def case_prod_unfold)
  have "(lookup ps_port (fst result) p, mget (snd result) (unit_key u, p)) =
      fold port_upd (filter (\<lambda>q. ps_port q = p) (u_ports u)) (lookup ps_port (u_ports current) p, mget services (unit_key u, p))" for p
    using port_loop.get_fold [of "unit_key u" "u_ports u" "(u_ports current, services)" p] by (simp add: result_def)
  moreover have "lookup ps_port (u_ports current) p =
      (case mget units (unit_key u) of None \<Rightarrow> None | Some u \<Rightarrow> lookup ps_port (u_ports u) p)" for p
    by (simp add: current_def split: option.splits)
  moreover have "mget (snd result) (key, p) = mget services (key, p)" if "key \<noteq> unit_key u" for p
    using other_services [OF that] by (simp add: result_def)
  ultimately show ?thesis unfolding unit_view_def unit_upd_def eq by (auto simp: st)
qed

interpretation unit_loop: keyed_fold add_fragment_unit unit_key unit_view unit_upd
  by unfold_locales (rule unit_view_step)

lemma unit_loop_view:
  "unit_view (fold add_fragment_unit us ([], [])) key p =
     fold port_upd (filter (\<lambda>q. ps_port q = p) (concat (map u_ports (filter (\<lambda>u. unit_key u = key) us)))) (None, None)"
proof -
  have "fold unit_upd vs x p = fold port_upd (filter (\<lambda>q. ps_port q = p) (concat (map u_ports vs))) (x p)" for vs x
    by (induction vs arbitrary: x) (auto simp: unit_upd_def)
  then show ?thesis by (simp add: unit_loop.get_fold) (simp add: unit_view_def)
qed

text \<open>The map of units has each key once, with the unit of that key, whose ports are distinct.\<close>

definition units_ok :: "(string, unit_obs) gomap \<Rightarrow> bool" where
  "units_ok units \<longleftrightarrow> wf_map units \<and> (\<forall>(k, u) \<in> set units. unit_key u = k \<and> distinct (map ps_port (u_ports u)))"

lemma add_ports_distinct:
  "distinct (map ps_port (fst st)) \<Longrightarrow> distinct (map ps_port (fst (fold (add_port key) qs st)))"
  by (induction qs arbitrary: st) (auto simp: add_port_def unit_ports.distinct_upsert split: prod.splits)

lemma set_mput: "wf_map m \<Longrightarrow> set (mput k v m) = insert (k, v) {e \<in> set m. fst e \<noteq> k}"
  using mget_eq_Some_mem [of "mput k v m"] mget_eq_Some_mem [of m] by (fastforce split: if_splits)

lemma units_ok_step: "units_ok (fst st) \<Longrightarrow> units_ok (fst (add_fragment_unit u st))"
proof -
  assume ok: "units_ok (fst st)"
  obtain units services where st: "st = (units, services)" by (cases st)
  have current: "unit_key c = unit_key u \<and> distinct (map ps_port (u_ports c))" if "mget units (unit_key u) = Some c" for c
    using ok mget_SomeD [OF that] by (auto simp: units_ok_def st)
  show ?thesis
    using ok current add_ports_distinct [of "(_, services)"]
    by (auto simp: units_ok_def st add_fragment_unit_def Let_def case_prod_unfold set_mput split: option.splits)
qed

lemma units_ok_loop: "units_ok (fst (fold add_fragment_unit us ([], [])))"
proof -
  have "units_ok (fst st) \<Longrightarrow> units_ok (fst (fold add_fragment_unit us st))" for st
  proof (induction us arbitrary: st)
    case (Cons u us)
    from Cons(1) [OF units_ok_step [OF Cons(2)]] show ?case by simp
  qed simp
  from this [of "([], [])"] show ?thesis by (simp add: units_ok_def)
qed

text \<open>Which ports a unit has.\<close>

lemma unit_of_key:
  assumes "(key, u) \<in> set (fst (fold add_fragment_unit us ([], [])))"
    and "reports = concat (map u_ports (filter (\<lambda>u. unit_key u = key) us))"
  shows "ps_port ` set (u_ports u) = ps_port ` set reports"
    and "e \<in> set (u_ports u) \<Longrightarrow>
      finish_port (snd (fold add_fragment_unit us ([], []))) key e = merged_port (filter (\<lambda>q. ps_port q = ps_port e) reports)"
proof -
  let ?st = "fold add_fragment_unit us ([], [])"
  have ok: "wf_map (fst ?st)" "distinct (map ps_port (u_ports u))" using units_ok_loop [of us] assms(1) by (auto simp: units_ok_def)
  then have "mget (fst ?st) key = Some u" using assms(1) by (simp add: mget_eq_Some_mem)
  then have view: "(lookup ps_port (u_ports u) p, mget (snd ?st) (key, p)) = fold port_upd (filter (\<lambda>q. ps_port q = p) reports) (None, None)" for p
    using unit_loop_view [of us key p] by (simp add: unit_view_def assms(2))
  have some: "lookup ps_port (u_ports u) p = None \<longleftrightarrow> filter (\<lambda>q. ps_port q = p) reports = []" for p
  proof (cases "filter (\<lambda>q. ps_port q = p) reports")
    case Nil
    with view [of p] show ?thesis by simp
  next
    case (Cons q qs)
    obtain e fs where "fold port_upd (q # qs) (None, None) = (Some e, fs)" using fold_port_upd [of q qs] by blast
    with view [of p] Cons show ?thesis by (simp del: fold_simps)
  qed
  then show "ps_port ` set (u_ports u) = ps_port ` set reports"
    unfolding lookup_None filter_empty_conv by (auto simp: image_iff) metis+
  assume e: "e \<in> set (u_ports u)"
  then have "lookup ps_port (u_ports u) (ps_port e) = Some e" using ok(2) by (rule lookup_distinct [rotated])
  moreover from this some [of "ps_port e"] obtain q qs where q: "filter (\<lambda>q. ps_port q = ps_port e) reports = q # qs"
    by (cases "filter (\<lambda>q. ps_port q = ps_port e) reports") auto
  moreover have "q \<in> set (filter (\<lambda>q. ps_port q = ps_port e) reports)" unfolding q by simp
  then have "ps_port q = ps_port e" by simp
  ultimately show "finish_port (snd ?st) key e = merged_port (filter (\<lambda>q. ps_port q = ps_port e) reports)"
    using view [of "ps_port e"] by (simp add: finish_reports)
qed

lemma normalize_merged_unit:
  assumes "\<And>q. q \<in> set (u_ports u) \<Longrightarrow> sort (ps_evidence q) = ps_evidence q"
  shows "u_ports (normalize_unit (normalize_unit u)) = sort_key ps_port (u_ports u)"
proof -
  have id: "map (\<lambda>p. p\<lparr>ps_evidence := sort (ps_evidence p)\<rparr>) qs = qs" if "\<And>q. q \<in> set qs \<Longrightarrow> sort (ps_evidence q) = ps_evidence q" for qs
    using that by (intro map_idI) (auto intro: port_state.equality)
  have "u_ports (normalize_unit u) = sort_key ps_port (u_ports u)" using id [OF assms] by (simp add: normalize_unit_def)
  moreover have "map (\<lambda>p. p\<lparr>ps_evidence := sort (ps_evidence p)\<rparr>) (sort_key ps_port (u_ports u)) = sort_key ps_port (u_ports u)"
    using assms by (intro id) simp
  ultimately show ?thesis by (simp add: normalize_unit_def [of "normalize_unit u"] sort_key_idem)
qed

lemma normalize_unit_key [simp]: "unit_key (normalize_unit u) = unit_key u"
  by (simp add: normalize_unit_def)

lemma merged_units_of:
  "sn_units (MergeWorkSnapshots plan fragments) =
     sort_key unit_key (map (\<lambda>u. normalize_unit (normalize_unit u)) (sort_key unit_key (fragment_units (concat (map sn_units fragments)))))"
proof -
  have "sort_key unit_key (map normalize_unit us) = map normalize_unit (sort_key unit_key us)" for us
    by (rule map_sort_key [symmetric]) simp
  moreover have "map (\<lambda>u. normalize_unit (normalize_unit u)) us = map normalize_unit (map normalize_unit us)" for us
    by simp
  ultimately show ?thesis
    by (simp add: MergeWorkSnapshots_def Let_def Normalize_def sort_key_idem del: map_map)
qed

text \<open>
  C32: Merging the checkpoints of a cycle loses and invents no port: for every target and protocol
  the merged snapshot has each reported port once, in order, open when any checkpoint saw it open,
  with the evidence of all of them and with every service fingerprint that any of them reported.
\<close>

theorem merged_ports_exact:
  "ports_of key (MergeWorkSnapshots plan fragments) =
     map (\<lambda>p. merged_port (filter (\<lambda>q. ps_port q = p) (reported key fragments)))
       (sort (remdups (map ps_port (reported key fragments))))"
proof -
  let ?us = "concat (map sn_units fragments)" let ?st = "fold add_fragment_unit ?us ([], [])"
  let ?finish = "\<lambda>u. u\<lparr>u_addresses := uniqueSorted (u_addresses u), u_ports := map (finish_port (snd ?st) (unit_key u)) (u_ports u)\<rparr>"
  let ?m = "\<lambda>p. merged_port (filter (\<lambda>q. ps_port q = p) (reported key fragments))"
  have ok: "units_ok (fst ?st)" by (rule units_ok_loop)
  have "fragment_units ?us = map (\<lambda>(key, u). u\<lparr>u_addresses := uniqueSorted (u_addresses u),
      u_ports := map (finish_port (snd ?st) key) (u_ports u)\<rparr>) (fst ?st)"
    by (simp add: fragment_units_def case_prod_unfold)
  also have "\<dots> = map ?finish (map snd (fst ?st))" using ok by (auto simp: units_ok_def)
  finally have units: "fragment_units ?us = map ?finish (map snd (fst ?st))" .
  have keys: "map unit_key (map snd (fst ?st)) = map fst (fst ?st)" using ok by (auto simp: units_ok_def)
  have filtered: "filter (\<lambda>u. unit_key u = key) (sn_units (MergeWorkSnapshots plan fragments)) =
      map (\<lambda>u. normalize_unit (normalize_unit (?finish u))) (filter (\<lambda>u. unit_key u = key) (map snd (fst ?st)))"
    (is "_ = map ?n ?found")
  proof -
    let ?vs = "map ?finish (map snd (fst ?st))"
    have key: "unit_key (?finish u) = unit_key u" "unit_key (?n u) = unit_key u" for u by simp_all
    have "filter (\<lambda>u. unit_key u = key) (map (\<lambda>u. normalize_unit (normalize_unit u)) (sort_key unit_key ?vs)) =
        map (\<lambda>u. normalize_unit (normalize_unit u)) (filter (\<lambda>u. unit_key u = key) (sort_key unit_key ?vs))"
      by (simp add: filter_map comp_def)
    also have "filter (\<lambda>u. unit_key u = key) (sort_key unit_key ?vs) = filter (\<lambda>u. unit_key u = key) ?vs"
      by (subst filter_sort) (rule sort_key_same, simp)
    also have "\<dots> = map ?finish ?found" by (simp add: filter_map comp_def)
    finally have "filter (\<lambda>u. unit_key u = key) (map (\<lambda>u. normalize_unit (normalize_unit u)) (sort_key unit_key ?vs)) = map ?n ?found"
      by (simp add: comp_def)
    moreover have "sort_key unit_key (map ?n ?found) = map ?n ?found"
      by (rule sort_key_same [where c = key]) (auto simp: key)
    ultimately show ?thesis unfolding merged_units_of units by (subst filter_sort) simp
  qed
  show ?thesis
  proof (cases ?found)
    case Nil
    then have none: "key \<notin> set (map fst (fst ?st))" unfolding keys [symmetric] by (auto simp: filter_empty_conv)
    have "reported key fragments = []"
    proof (rule ccontr)
      assume "reported key fragments \<noteq> []"
      then obtain q where q: "q \<in> set (reported key fragments)" by (cases "reported key fragments") auto
      then have "filter (\<lambda>r. ps_port r = ps_port q) (reported key fragments) \<noteq> []" by (auto simp: filter_empty_conv)
      then obtain r rs where "filter (\<lambda>r. ps_port r = ps_port q) (reported key fragments) = r # rs" by (meson neq_Nil_conv)
      then have "fst (unit_view ?st key (ps_port q)) \<noteq> None"
        using fold_port_upd [of r rs] unfolding unit_loop_view reported_def by auto
      then have "mget (fst ?st) key \<noteq> None" by (auto simp: unit_view_def split: option.splits)
      with none show False by (auto simp: mget_eq_None)
    qed
    with Nil show ?thesis by (simp add: ports_of_def filtered)
  next
    case (Cons u us)
    have "distinct (map unit_key (map snd (fst ?st)))" using ok keys by (simp only: units_ok_def)
    then have "distinct (map unit_key ?found)" by (rule distinct_map_filter)
    moreover have "\<forall>v \<in> set ?found. unit_key v = key" by auto
    ultimately have us: "us = []" unfolding Cons by (cases us) auto
    have "u \<in> set ?found" unfolding Cons by simp
    then have member: "(key, u) \<in> set (fst ?st)" and key: "unit_key u = key" using ok by (auto simp: units_ok_def)
    note unit = unit_of_key [OF member, of "reported key fragments", unfolded reported_def, OF refl, folded reported_def]
    have distinct: "distinct (map ps_port (u_ports u))" using ok member by (auto simp: units_ok_def)
    have "u_ports (?n u) = sort_key ps_port (map (finish_port (snd ?st) key) (u_ports u))"
      by (subst normalize_merged_unit) (auto simp: key finish_port_def uniqueSorted_def sort_map_idem)
    also have "\<dots> = map ?m (sort (remdups (map ps_port (reported key fragments))))"
    proof (rule sort_by_distinct_key)
      have "map ps_port (map (finish_port (snd ?st) key) (u_ports u)) = map ps_port (u_ports u)" by (simp add: finish_port_def)
      then show "distinct (map ps_port (map (finish_port (snd ?st) key) (u_ports u)))" using distinct by (simp only:)
      show "x = ?m (ps_port x)" if mem: "x \<in> set (map (finish_port (snd ?st) key) (u_ports u))" for x
      proof -
        obtain e where e: "e \<in> set (u_ports u)" "x = finish_port (snd ?st) key e" using mem by auto
        then have "ps_port x = ps_port e" by (simp add: finish_port_def)
        with unit(2) [OF e(1)] e(2) show ?thesis by simp
      qed
      show "ps_port ` set (map (finish_port (snd ?st) key) (u_ports u)) = set (map ps_port (reported key fragments))"
        using unit(1) by (auto simp: finish_port_def image_image)
    qed
    finally show ?thesis unfolding ports_of_def filtered Cons us by simp
  qed
qed

end
