(* ===== verification/MergeCoverage.thy ===== *)
theory MergeCoverage
  imports Merge
begin

text \<open>
  Missing coverage survives the merge of checkpoints: a host that timed out, or that Nmap left
  out, in any invocation stays incomplete for that protocol in the merged snapshot, and the
  engine then does not compare the ports there.
\<close>

section \<open>ASCII text\<close>

definition ascii :: "string \<Rightarrow> bool" where
  "ascii s = (\<forall>c \<in> set s. byte c < 128)"

lemma ascii_rune: "byte c < 128 \<Longrightarrow> rune_size (c # cs) = 1"
  by (simp add: rune_tail_def)

lemma ascii_runes: "ascii s \<Longrightarrow> runes invalid s = map (\<lambda>c. [c]) s"
proof (induction s arbitrary: invalid)
  case (Cons c cs)
  then have "byte c < 128" "ascii cs" by (auto simp: ascii_def)
  then have "rune_size (c # cs) = 1" "ascii cs" using ascii_rune by blast+
  with Cons.IH show ?case by (simp del: rune_size.simps)
qed simp

lemma space_rune: "is_space_rune [c] = is_space c"
  by (auto simp: is_space_rune_def unicode_spaces_def is_space_def)

lemma ascii_bound:
  assumes "ascii s" "length (trimSpace s) \<le> 512"
  shows "boundScannerMetadata s = trimSpace s"
proof -
  have "dropWhile is_space_rune (map (\<lambda>c. [c]) t) = map (\<lambda>c. [c]) (dropWhile is_space t)" for t
    by (induction t) (auto simp: space_rune)
  then have "trim_runes (map (\<lambda>c. [c]) s) = map (\<lambda>c. [c]) (trimSpace s)"
    by (simp add: trim_runes_def trimSpace_def rev_map)
  moreover have "concat (map (\<lambda>c. [c]) t) = t" for t :: string by (induction t) auto
  ultimately show ?thesis using assms
    by (simp add: boundScannerMetadata_def boundScannerText_def maxScannerMetadataBytes_def ascii_runes Let_def del: length_concat)
qed

lemma lower_char_ascii: "byte (lower_char c) < 128 \<Longrightarrow> byte c < 128"
proof (cases "map_of (zip ''ABCDEFGHIJKLMNOPQRSTUVWXYZ'' ''abcdefghijklmnopqrstuvwxyz'') c")
  case None
  then show "byte (lower_char c) < 128 \<Longrightarrow> ?thesis" by (simp add: lower_char_def)
next
  case (Some d)
  then have "c \<in> set ''ABCDEFGHIJKLMNOPQRSTUVWXYZ''" by (metis map_of_SomeD set_zip_leftD)
  then show ?thesis by (auto simp: byte_def)
qed

lemma space_ascii: "is_space c \<Longrightarrow> byte c < 128"
  by (auto simp: is_space_def byte_def)

lemma word_ascii: "ascii (word s) \<Longrightarrow> ascii s"
proof -
  assume "ascii (word s)"
  then have trimmed: "ascii (trimSpace s)" by (auto simp: ascii_def word_def toLower_def intro: lower_char_ascii)
  define front where "front = dropWhile is_space s"
  have "set s = set (takeWhile is_space s) \<union> set front" unfolding front_def by (metis set_append takeWhile_dropWhile_id)
  moreover have "set front = set (takeWhile is_space (rev front)) \<union> set (dropWhile is_space (rev front))"
    by (metis set_append set_rev takeWhile_dropWhile_id)
  moreover have "set (trimSpace s) = set (dropWhile is_space (rev front))" by (simp add: trimSpace_def front_def)
  ultimately show "ascii s" using trimmed by (auto simp: ascii_def dest!: set_takeWhileD space_ascii)
qed

lemma bound_word:
  assumes "ascii w" "length w \<le> 512" "word s = w"
  shows "word (boundScannerMetadata s) = w"
proof -
  have "length (trimSpace s) = length (word s)" by (simp add: word_def toLower_def)
  then have "boundScannerMetadata s = trimSpace s" using assms word_ascii by (intro ascii_bound) auto
  then show ?thesis using assms(3) by simp
qed

section \<open>Observations without an answer\<close>

definition incomplete_words :: "string list" where
  "incomplete_words = [''unreachable'', ''down'', ''timedout'', ''timed-out'', ''timeout'', ''unknown'']"

definition late_words :: "string list" where
  "late_words = [''nmap-timeout'', ''nmap-host-timeout'', ''timedout'', ''timeout'', ''nmap-omitted'', ''omitted'']"

text \<open>An observation of a host that timed out or that Nmap left out.\<close>

definition unanswered :: "protocol_observation \<Rightarrow> bool" where
  "unanswered p \<longleftrightarrow> word (po_status p) \<in> set incomplete_words \<and> word (po_status_reason p) \<in> set late_words"

lemma rank_late: "4 \<le> reasonRank reason \<longleftrightarrow> word reason \<in> set late_words"
  by (auto simp: reasonRank_def late_words_def)

lemma late_not_complete: "word reason \<in> set late_words \<Longrightarrow> \<not> equalFold (trimSpace reason) naabuFullRangeCompleteReason"
proof -
  have "toLower naabuFullRangeCompleteReason = ''scan-complete''" by code_simp
  then show "word reason \<in> set late_words \<Longrightarrow> ?thesis" by (auto simp: equalFold_word late_words_def)
qed

lemma unknown_word: "equalFold (trimSpace s) ''unknown'' \<longleftrightarrow> word s = ''unknown''"
  by (simp add: equalFold_word)

lemma status_words: "isIncompleteHostStatus s \<or> word s = ''unknown'' \<longleftrightarrow> word s \<in> set incomplete_words"
  by (auto simp: isIncompleteHostStatus_def incomplete_words_def)

lemma incomplete_late:
  "word reason \<in> set late_words \<Longrightarrow> isIncompleteProtocolStatus status reason \<longleftrightarrow> word status \<in> set incomplete_words"
  using late_not_complete status_words by (auto simp: isIncompleteProtocolStatus_def unknown_word)

lemma choose_late:
  assumes "word current \<in> set late_words \<or> word addition \<in> set late_words"
  shows "word (chooseHostStatusReason current addition) \<in> set late_words"
proof -
  have "reasonRank (trimSpace s) = reasonRank s" for s by (simp add: reasonRank_def)
  moreover have "word s \<in> set late_words \<Longrightarrow> trimSpace s \<noteq> []" for s by (auto simp: word_def toLower_def late_words_def)
  ultimately show ?thesis using assms
    unfolding rank_late [symmetric] chooseHostStatusReason_def Let_def by (auto split: if_splits)
qed

lemma incomplete_trimmed: "isIncompleteProtocolStatus (word s) (trimSpace r) = isIncompleteProtocolStatus s r"
proof -
  have "equalFold (word s) ''unknown'' \<longleftrightarrow> word s = ''unknown''" by (simp add: equalFold_def word_def)
  then show ?thesis unfolding isIncompleteProtocolStatus_def isIncompleteHostStatus_def unknown_word by simp
qed

lemma merge_unanswered:
  assumes "unanswered p \<or> unanswered q"
  shows "unanswered (merge_protocol p q)"
proof -
  obtain status reason where m: "mergeProtocolStatus (po_status p) (po_status_reason p) (po_status q) (po_status_reason q) = (status, reason)"
    by fastforce
  have cases: "word s \<in> set incomplete_words" if "isIncompleteProtocolStatus s r" for s r
    using that status_words by (auto simp: isIncompleteProtocolStatus_def unknown_word split: if_splits)
  have nonempty: "word r \<in> set late_words \<Longrightarrow> trimSpace r \<noteq> []" for r by (auto simp: word_def toLower_def late_words_def)
  have "word status \<in> set incomplete_words \<and> word reason \<in> set late_words"
  proof (cases "isIncompleteProtocolStatus (po_status p) (po_status_reason p)")
    case True
    show ?thesis
    proof (cases "isIncompleteProtocolStatus (po_status q) (po_status_reason q)")
      case both: True
      then have "(status, reason) = (word (po_status p), chooseHostStatusReason (trimSpace (po_status_reason p)) (trimSpace (po_status_reason q)))"
        using True m by (simp add: mergeProtocolStatus_def Let_def incomplete_trimmed)
      then show ?thesis using assms choose_late cases [OF True] by (auto simp: unanswered_def)
    next
      case False
      then have "word (po_status_reason p) \<in> set late_words" using assms incomplete_late by (auto simp: unanswered_def)
      moreover have "(status, reason) = (word (po_status p), if trimSpace (po_status_reason p) = [] then ''incomplete'' else trimSpace (po_status_reason p))"
        using True False m by (simp add: mergeProtocolStatus_def Let_def incomplete_trimmed)
      ultimately show ?thesis using cases [OF True] nonempty by auto
    qed
  next
    case False
    then have "\<not> unanswered p" using incomplete_late by (auto simp: unanswered_def)
    then have q: "unanswered q" using assms by simp
    then have "isIncompleteProtocolStatus (po_status q) (po_status_reason q)" using incomplete_late by (auto simp: unanswered_def)
    then have "(status, reason) = (word (po_status q), if trimSpace (po_status_reason q) = [] then ''incomplete'' else trimSpace (po_status_reason q))"
      using False m by (simp add: mergeProtocolStatus_def Let_def incomplete_trimmed)
    then show ?thesis using q nonempty by (auto simp: unanswered_def)
  qed
  then show ?thesis by (simp add: unanswered_def merge_protocol_def m Let_def)
qed

lemma merges_unanswered: "\<exists>q \<in> set (p # qs). unanswered q \<Longrightarrow> unanswered (foldl merge_protocol p qs)"
  by (induction qs arbitrary: p) (use merge_unanswered in auto)

lemma ascii_words: "w \<in> set incomplete_words \<union> set late_words \<union> {''tcp'', ''udp''} \<Longrightarrow> ascii w \<and> length w \<le> 512"
proof -
  have "list_all (\<lambda>w. list_all (\<lambda>c. byte c < 128) w \<and> length w \<le> 512) (incomplete_words @ late_words @ [''tcp'', ''udp''])" by code_simp
  then show "w \<in> set incomplete_words \<union> set late_words \<union> {''tcp'', ''udp''} \<Longrightarrow> ?thesis"
    by (auto simp: list_all_iff ascii_def)
qed

lemma bound_unanswered: "unanswered p \<Longrightarrow> unanswered (dedupe_protocol p)"
  using bound_word [OF _ _ refl] ascii_words by (auto simp: unanswered_def dedupe_protocol_def)

section \<open>The hosts of the merged snapshot\<close>

text \<open>An observation of a protocol by a host, without an answer.\<close>

definition missing :: "string \<Rightarrow> host_observation \<Rightarrow> bool" where
  "missing n h \<longleftrightarrow> (\<exists>p \<in> set (ho_protocols h). po_protocol p = n \<and> unanswered p)"

interpretation host_loop: keyed_fold "\<lambda>h. mergeHostObservationMap (ho_address h) h" ho_address mget "merge_option mergeHostObservation"
  by unfold_locales (auto simp: mergeHostObservationMap_def merge_option_def split: option.splits)

lemma merge_host_protocols: "ho_protocols (mergeHostObservation h g) = ho_protocols h @ ho_protocols g"
  by (simp add: mergeHostObservation_def case_prod_unfold Let_def)

lemma merge_host_address: "ho_address h \<noteq> [] \<Longrightarrow> ho_address (mergeHostObservation h g) = ho_address h"
  by (simp add: mergeHostObservation_def case_prod_unfold Let_def)

lemma merged_host:
  assumes "h \<in> set hs" "ho_address h \<noteq> []" "missing n h"
  shows "\<exists>m \<in> set (merged_hosts hs). ho_address m = ho_address h \<and> missing n m"
proof -
  let ?map = "fold (\<lambda>h. mergeHostObservationMap (ho_address h) h) hs []"
  obtain g gs where g: "filter (\<lambda>e. ho_address e = ho_address h) hs = g # gs"
    using assms(1) by (cases "filter (\<lambda>e. ho_address e = ho_address h) hs") (auto simp: filter_empty_conv)
  have members: "e \<in> set (g # gs) \<Longrightarrow> ho_address e = ho_address h" for e by (simp flip: g)
  have "h \<in> set (g # gs)" using assms(1) by (simp flip: g)
  have "mget ?map (ho_address h) = Some (foldl mergeHostObservation g gs)"
    unfolding host_loop.get_fold g by (simp add: fold_merge_option merge_option_def [of _ g])
  then have "(ho_address h, foldl mergeHostObservation g gs) \<in> set ?map" by (rule mget_SomeD)
  then have "snd (ho_address h, foldl mergeHostObservation g gs) \<in> snd ` set ?map" by (rule imageI)
  then have "foldl mergeHostObservation g gs \<in> set (merged_hosts hs)" by (simp only: merged_hosts_def set_map snd_conv)
  moreover have "ho_address (foldl mergeHostObservation g gs) = ho_address g" if "ho_address g \<noteq> []"
    using that by (induction gs arbitrary: g) (auto simp: merge_host_address)
  moreover have "ho_protocols (foldl mergeHostObservation g gs) = concat (map ho_protocols (g # gs))"
    by (induction gs arbitrary: g) (auto simp: merge_host_protocols)
  then have "set (ho_protocols h) \<subseteq> set (ho_protocols (foldl mergeHostObservation g gs))"
    using \<open>h \<in> set (g # gs)\<close> by (simp only: set_concat set_map) blast
  then have "missing n (foldl mergeHostObservation g gs)" using assms(3) unfolding missing_def by blast
  ultimately show ?thesis using assms(2) members [of g] by (intro bexI [of _ "foldl mergeHostObservation g gs"]) simp_all
qed

lemma missing_normalized: "missing n h \<Longrightarrow> missing n (normalize_host h)"
  by (auto simp: missing_def normalize_host_def normalize_protocol_def unanswered_def)

interpretation protocols: keyed_merge po_protocol merge_protocol
  by unfold_locales (simp add: merge_protocol_def case_prod_unfold Let_def)

lemma missing_deduped:
  assumes "missing n h" "boundScannerMetadata n = n"
  shows "missing n (dedupeHostObservation h)"
proof -
  obtain p where p: "p \<in> set (ho_protocols h)" "po_protocol p = n" "unanswered p" using assms(1) by (auto simp: missing_def)
  obtain q where q: "q \<in> set (fold (upsert po_protocol merge_protocol) (ho_protocols h) [])" "po_protocol q = n"
    using protocols.upserts_has [OF p(1)] p(2) by metis
  obtain z zs where z: "filter (\<lambda>x. po_protocol x = po_protocol q) (ho_protocols h) = z # zs" "q = foldl merge_protocol z zs"
    using protocols.upserts_element [OF q(1)] by blast
  have "p \<in> set (z # zs)" using p q(2) by (simp flip: z(1))
  then have "unanswered q" unfolding z(2) using p(3) by (intro merges_unanswered) blast
  then have "unanswered (dedupe_protocol q)" "po_protocol (dedupe_protocol q) = n"
    using q(2) assms(2) bound_unanswered by (blast, simp add: dedupe_protocol_def)
  with q(1) show ?thesis
    unfolding dedupeHostObservation_def by (intro missing_normalized) (auto simp: missing_def simp del: fold_simps)
qed

lemma missing_finished:
  assumes "missing n h" "boundScannerMetadata n = n"
  shows "missing n (finish_host scopes h)"
proof -
  have restored: "po_protocol (restore_scope scopes p) = po_protocol p \<and> unanswered (restore_scope scopes p) = unanswered p" for p
    by (auto simp: restore_scope_def unanswered_def split: option.splits)
  have marked: "missing n (markNaabuDisagreements h ds)" if m: "missing n h" for h ds
  proof -
    obtain p where p: "p \<in> set (ho_protocols h)" "po_protocol p = n" "unanswered p" using m by (auto simp: missing_def)
    let ?p = "if po_discovery_engine p \<noteq> ''naabu'' then p else p\<lparr>po_unconfirmed_ports := po_unconfirmed_ports p @
      map unconfirmed_port (filter (\<lambda>q. q \<notin> set (confirmed_ports h)) ds)\<rparr>"
    have "?p \<in> set (ho_protocols (markNaabuDisagreements h ds))" using p(1) unfolding markNaabuDisagreements_def by simp
    moreover have "po_protocol ?p = n" "unanswered ?p" using p by (auto simp: unanswered_def)
    ultimately show ?thesis unfolding missing_def by blast
  qed
  then have "missing n h \<Longrightarrow> missing n (markMergedNaabuDisagreements h)" for h by (simp add: markMergedNaabuDisagreements_def)
  from this [OF missing_deduped [OF assms]] show ?thesis
    using restored by (auto simp: missing_def finish_host_def Let_def)
qed

text \<open>An address that normalising and bounding leave as it is, as they do any IP address.\<close>

definition settled :: "string \<Rightarrow> bool" where
  "settled a \<longleftrightarrow> a \<noteq> [] \<and> trimSpace a = a \<and> normalize_address a = a \<and> boundScannerMetadata a = a"

lemma finished_address: "settled (ho_address h) \<Longrightarrow> ho_address (finish_host scopes h) = ho_address h"
  by (simp add: finish_host_def Let_def markMergedNaabuDisagreements_def markNaabuDisagreements_def dedupeHostObservation_def
      normalize_host_def settled_def)

lemma normalized_address: "settled (ho_address h) \<Longrightarrow> ho_address (normalize_host h) = ho_address h"
  by (simp add: normalize_host_def settled_def)

lemma unanswered_incomplete: "unanswered p \<Longrightarrow> incomplete_protocol p"
proof -
  assume a: "unanswered p"
  have "word (po_status_reason p) \<notin> {''nmap-host-down'', ''host-down'', ''down'', ''no-response'', ''host-unreach'', ''net-unreach'', ''admin-prohibited''}"
    using a by (auto simp: unanswered_def late_words_def)
  then have down: "\<not> isCompletedProtocolHostDiscoveryDown p"
    by (simp add: isCompletedProtocolHostDiscoveryDown_def isCompletedHostDiscoveryDown_def)
  have "scanCompleteCoverageReason = naabuFullRangeCompleteReason"
    by (simp add: scanCompleteCoverageReason_def naabuFullRangeCompleteReason_def)
  then have "isIncompleteCoverageObservation (po_status p) (po_status_reason p)"
    using a late_not_complete [of "po_status_reason p"]
    by (auto simp: isIncompleteCoverageObservation_def isIncompleteCoverageStatus_def unanswered_def incomplete_words_def)
  with down show ?thesis unfolding incomplete_protocol_def isIncomplete_word by blast
qed

text \<open>
  C33: A part of a scan that was never answered is not forgotten when its checkpoints are merged: if
  any of them observed that a host timed out or was left out for TCP or UDP, the merged snapshot
  has incomplete coverage of that host and protocol, whatever the other checkpoints observed.
\<close>

theorem missing_coverage_survives_merge:
  assumes "fragment \<in> set fragments" "h \<in> set (sn_hosts fragment)" "settled (ho_address h)"
    and "p \<in> set (ho_protocols h)" "unanswered p" "po_protocol p = ''tcp'' \<or> po_protocol p = ''udp''"
  shows "incompleteCoverageHas (incompleteProtocolCoverage (MergeWorkSnapshots plan fragments)) (ho_address h) (po_protocol p)"
proof -
  let ?n = "po_protocol p" and ?merged = "MergeWorkSnapshots plan fragments"
  have n: "boundScannerMetadata ?n = ?n" "word ?n = ?n" "?n \<noteq> []"
  proof -
    have "boundScannerMetadata ''tcp'' = ''tcp'' \<and> boundScannerMetadata ''udp'' = ''udp'' \<and> word ''tcp'' = ''tcp'' \<and> word ''udp'' = ''udp''"
      by code_simp
    then show "boundScannerMetadata ?n = ?n" "word ?n = ?n" "?n \<noteq> []" using assms(6) by auto
  qed
  obtain m where m: "m \<in> set (merged_hosts (concat (map sn_hosts fragments)))" "ho_address m = ho_address h" "missing ?n m"
    using merged_host [of h "concat (map sn_hosts fragments)" ?n] assms by (auto simp: settled_def missing_def)
  let ?h = "normalize_host (finish_host (wp_scopes plan) (normalize_host m))"
  have "?h \<in> set (sn_hosts ?merged)" using m(1) by (auto simp: MergeWorkSnapshots_def Normalize_def Let_def)
  moreover have address: "ho_address ?h = ho_address h"
    using assms(3) m(2) by (simp add: normalized_address finished_address)
  moreover have "missing ?n ?h" using m(3) n(1) by (intro missing_normalized missing_finished)
  then obtain q where q: "q \<in> set (ho_protocols ?h)" "po_protocol q = ?n" "incomplete_protocol q"
    by (auto simp: missing_def dest: unanswered_incomplete)
  have "(trimSpace (ho_address h), word ?n) \<in> set (hostCoverage (expectedCoverage ?merged) ?h)"
    unfolding hostCoverage_mem address using assms(3) q n by (auto simp: settled_def intro!: bexI [of _ q])
  ultimately show ?thesis by (auto simp: incompleteCoverageHas_def incompleteProtocolCoverage_def)
qed

definition late_host :: host_observation where
  "late_host = \<lparr>ho_address = ''10.0.0.7'', ho_source_targets = [], ho_dns_names = [], ho_address_family = ''IPv4'', ho_status = ''unreachable'',
     ho_status_reason = ''nmap-timeout'', ho_reason_ttl = 0, ho_latency_ms = 0, ho_link_addresses = [], ho_hostnames = [],
     ho_protocols = [\<lparr>po_protocol = ''tcp'', po_status = ''unreachable'', po_status_reason = ''nmap-timeout'', po_discovery_state = [],
       po_scan_type = ''syn'', po_scanned_ports = ''1-100'', po_scanned_port_count = 100, po_service_detection = False,
       po_discovery_engine = [], po_discovered_ports = [], po_unconfirmed_ports = [], po_ports = [], po_state_summaries = [],
       po_nse_profile = [], po_nse_args = [], po_nse_output = [], po_command_fingerprint = []\<rparr>]\<rparr>"

definition answered_host :: host_observation where
  "answered_host = late_host\<lparr>ho_status := ''up'', ho_status_reason := ''echo-reply'', ho_protocols :=
     map (\<lambda>p. p\<lparr>po_status := ''up'', po_status_reason := ''echo-reply'', po_discovery_state := ''up''\<rparr>) (ho_protocols late_host)\<rparr>"

definition late_plan :: work_plan where
  "late_plan = \<lparr>wp_job = \<lparr>wj_targets = [''10.0.0.7''], wj_max_hosts = 1, wj_tcp = Some (no_protocol\<lparr>sp_ports := ''1-100''\<rparr>), wj_udp = None,
       wj_high_cost = False\<rparr>, wp_targets = [], wp_dns = [], wp_scopes = [\<lparr>sc_target = ''10.0.0.7'', sc_protocol = ''tcp'', sc_ports = ''1-100'', sc_service_detection = False\<rparr>],
     wp_failures = [], wp_units = [], wp_total_probes = 200, wp_total_units = 2\<rparr>"

theorem missing_coverage_survives_merge_witness:
  "incompleteCoverageHas (incompleteProtocolCoverage (MergeWorkSnapshots late_plan
     [empty_snapshot\<lparr>sn_hosts := [answered_host]\<rparr>, empty_snapshot\<lparr>sn_hosts := [late_host]\<rparr>])) ''10.0.0.7'' ''tcp''"
proof -
  let ?p = "hd (ho_protocols late_host)"
  have late: "settled (ho_address late_host)" "unanswered ?p" "po_protocol ?p = ''tcp''" "ho_address late_host = ''10.0.0.7''" by code_simp+
  have "?p \<in> set (ho_protocols late_host)" by (simp add: late_host_def)
  from missing_coverage_survives_merge [of "empty_snapshot\<lparr>sn_hosts := [late_host]\<rparr>"
      "[empty_snapshot\<lparr>sn_hosts := [answered_host]\<rparr>, empty_snapshot\<lparr>sn_hosts := [late_host]\<rparr>]" late_host ?p late_plan] this late
  show ?thesis by simp
qed

end
