(* ===== verification/Attempt.thy ===== *)
theory Attempt
  imports Merge CycleLife
begin

text \<open>
  \<open>internal/app/resumable.go\<close>: one attempt at a scan that may take several. The attempt finds or
  plans the job's cycle, guards it, and then claims, scans and checkpoints its units until none is
  left, a unit fails, or time is up.

  What the attempt meets is given turn by turn: the result of the scanner for the claimed unit, the
  state of the context, the times, and what others do to the cycle meanwhile. When the turns end,
  the process has stopped. Errors of the database itself are not values of the model. The live
  progress view of a run and the scanner profile recorded with a scan are left out.
\<close>

section \<open>Results\<close>

datatype scan_context = Live | Canceled | Exceeded

datatype scan_failure = DeadlineExceeded | ContextCanceled | ConfigurationError string | RuntimeError string

datatype attempt_error =
    CycleError cycle_error
  | PlanError scan_failure
  | ProbeBudgetError check_error
  | ScannerError scan_failure
  | ErrScanCycleStalled
  | CycleExpired
  | OlderBaseline
  | DiscardFailed cycle_error
  | SettingsChanged
  | MissingCheckpoints int int

text \<open>The run is not handled, or handled with a snapshot and perhaps an error; or the process stopped.\<close>

datatype attempt_result = NotHandled | Handled snapshot "attempt_error option" | Stopped

text \<open>The fields of a scan that an attempt sets.\<close>

record attempt_scan =
  as_status :: string
  as_error :: string
  as_resumable :: bool
  as_interrupted :: bool
  as_config_hash :: string
  as_job_revision :: int
  as_started :: "int option"
  as_finished :: "int option"
  as_cycle_id :: string
  as_cycle_attempt :: int
  as_cycle_status :: string
  as_completed_probes :: int
  as_total_probes :: int
  as_completed_units :: int
  as_total_units :: int
  as_no_progress :: int
  as_snapshot :: snapshot

text \<open>\<open>at_text\<close> is \<open>err.Error()\<close>; the job comes with its hashes.\<close>

record attempt_params =
  at_text :: "attempt_error \<Rightarrow> string"
  at_job :: scan_job
  at_job_id :: string
  at_job_name :: string
  at_security_hash :: string
  at_legacy_hash :: string
  at_execution_hash :: string
  at_resume_window :: int
  at_nmap_budget :: int
  at_naabu_budget :: int
  at_capacity :: "tenant_capacity option"
  at_runtime :: "job_state option"

definition scanCycleMaxUnitAttempts :: int where "scanCycleMaxUnitAttempts = 3"

definition scanCycleMaxFinalizationFailures :: int where "scanCycleMaxFinalizationFailures = 2"

definition ScanInterruptedMessage :: string where
  "ScanInterruptedMessage = ''scan interrupted because EdgeWatch stopped''"

definition retryableResumableError :: "scan_failure option \<Rightarrow> bool" where
  "retryableResumableError err = (case err of None \<Rightarrow> False | Some (ConfigurationError _) \<Rightarrow> False | Some _ \<Rightarrow> True)"

definition cycleResumeWindowElapsed :: "scan_cycle \<Rightarrow> int \<Rightarrow> bool" where
  "cycleResumeWindowElapsed c now = (case cy_expires c of None \<Rightarrow> False | Some e \<Rightarrow> e \<noteq> 0 \<and> \<not> now < e)"

definition setScanCycleMetadata :: "attempt_scan \<Rightarrow> scan_cycle \<Rightarrow> attempt_scan" where
  "setScanCycleMetadata s c = s\<lparr>as_resumable := True, as_cycle_id := cy_id c, as_cycle_attempt := cy_attempts c,
     as_cycle_status := cy_status c, as_completed_probes := cy_completed_probes c, as_total_probes := cy_total_probes c,
     as_completed_units := cy_completed_units c, as_total_units := cy_total_units c, as_no_progress := cy_no_progress c\<rparr>"

definition setScanCyclePlanProvenance :: "attempt_scan \<Rightarrow> scan_cycle \<Rightarrow> attempt_scan" where
  "setScanCyclePlanProvenance s c =
     (if cy_revision c \<le> 0 \<or> wj_tcp (wp_job (cy_plan c)) = None \<and> wj_udp (wp_job (cy_plan c)) = None then s
      else s\<lparr>as_job_revision := cy_revision c\<rparr>)"

definition failed :: "attempt_scan \<Rightarrow> string \<Rightarrow> attempt_scan" where
  "failed s err = s\<lparr>as_status := ''failed'', as_error := err\<rparr>"

definition expired_message :: string where
  "expired_message = ''scan cycle expired; a future trigger will start a fresh scan''"

definition expiredCycleAttempt :: "attempt_scan \<Rightarrow> scan_cycle \<Rightarrow> attempt_scan \<times> attempt_result" where
  "expiredCycleAttempt s c =
     ((setScanCycleMetadata s c)\<lparr>as_status := ''timed_out'', as_error := expired_message\<rparr>, Handled empty_snapshot (Some CycleExpired))"

text \<open>After an operation refused because the cycle ended meanwhile.\<close>

definition applyCycleFailureState :: "attempt_scan \<Rightarrow> scan_cycle \<Rightarrow> string \<Rightarrow> attempt_scan" where
  "applyCycleFailureState s c fallback =
     (let s' = setScanCycleMetadata s c in
      if cy_status c = ''expired'' then s'\<lparr>as_status := ''timed_out'', as_error := expired_message\<rparr>
      else failed s' fallback)"

text \<open>Any other refusal: the scan failed, and the cycle is stalled with the error.\<close>

definition stall_with ::
  "attempt_params \<Rightarrow> int \<Rightarrow> scan_cycle \<Rightarrow> attempt_scan \<Rightarrow> snapshot \<Rightarrow> attempt_error \<Rightarrow> scan_cycle \<times> attempt_scan \<times> attempt_result" where
  "stall_with ps now c s snap err =
     (let c' = MarkScanCycleStalled now (at_text ps err) c
      in (c', setScanCycleMetadata (failed s (at_text ps err)) c', Handled snap (Some err)))"

definition refuse ::
  "attempt_params \<Rightarrow> int \<Rightarrow> scan_cycle \<Rightarrow> attempt_scan \<Rightarrow> snapshot \<Rightarrow> cycle_error \<Rightarrow> scan_cycle \<times> attempt_scan \<times> attempt_result" where
  "refuse ps now c s snap e =
     (if e = ErrCycleNotResumable
      then (c, applyCycleFailureState s c (at_text ps (CycleError e)), Handled snap (Some (CycleError e)))
      else stall_with ps now c s snap (CycleError e))"

section \<open>The end of a cycle\<close>

definition missingScanCycleCheckpointError :: "scan_cycle \<Rightarrow> int \<Rightarrow> attempt_error option" where
  "missingScanCycleCheckpointError c fragmentCount =
     (if cy_completed_units c = cy_total_units c \<and> fragmentCount = cy_total_units c then None
      else Some (MissingCheckpoints fragmentCount (cy_total_units c)))"

text \<open>\<open>local\<close> is the record of the cycle as the attempt last read it, \<open>c\<close> the cycle in the store.\<close>

definition finishResumableCycle ::
  "attempt_params \<Rightarrow> int \<Rightarrow> scan_cycle \<Rightarrow> scan_cycle \<Rightarrow> attempt_scan \<Rightarrow> scan_cycle \<times> attempt_scan \<times> attempt_result" where
  "finishResumableCycle ps now c local s =
     (case LoadScanCycleFragments c of
        Inl e \<Rightarrow> stall_with ps now c s empty_snapshot (CycleError e)
      | Inr (plan, fragments) \<Rightarrow>
          (case missingScanCycleCheckpointError local (int (length fragments)) of
             Some err \<Rightarrow> stall_with ps now c s empty_snapshot err
           | None \<Rightarrow>
               let snap = MergeWorkSnapshots plan fragments in
               (case CompleteScanCycle now c of
                  (Inl e, c') \<Rightarrow>
                    (c', (if e = ErrCycleNotResumable then applyCycleFailureState s c' (at_text ps (CycleError e))
                      else failed s (at_text ps (CycleError e))), Handled empty_snapshot (Some (CycleError e)))
                | (Inr _, c') \<Rightarrow>
                    (c', setScanCycleMetadata (s\<lparr>as_status := ''success'', as_snapshot := snap\<rparr>) c', Handled snap None))))"

text \<open>A cycle that was completed but whose scan was never saved.\<close>

definition recoverCompletedCycle :: "attempt_params \<Rightarrow> attempt_scan \<Rightarrow> scan_cycle \<Rightarrow> attempt_scan \<times> attempt_result" where
  "recoverCompletedCycle ps s c =
     (case LoadScanCycleFragments c of
        Inl e \<Rightarrow> (failed s (at_text ps (CycleError e)), Handled empty_snapshot (Some (CycleError e)))
      | Inr (plan, fragments) \<Rightarrow>
          (case missingScanCycleCheckpointError c (int (length fragments)) of
             Some err \<Rightarrow> (failed s (at_text ps err), Handled empty_snapshot (Some err))
           | None \<Rightarrow>
               let snap = MergeWorkSnapshots plan fragments;
                   after = (\<lambda>t. case (t, cy_finished c) of (Some t, Some f) \<Rightarrow> t > f | _ \<Rightarrow> False);
                   start1 = (if cy_attempt_started c = None \<or> after (cy_attempt_started c) then Some (cy_started c) else cy_attempt_started c);
                   start2 = (if after start1 then cy_finished c else start1);
                   s' = s\<lparr>as_config_hash := cy_config_hash c, as_job_revision := cy_revision c, as_started := start2,
                     as_finished := cy_finished c, as_status := ''success'', as_snapshot := snap\<rparr>
               in (setScanCyclePlanProvenance (setScanCycleMetadata s' c) c, Handled snap None)))"

section \<open>A unit that was interrupted or failed\<close>

text \<open>\<open>shutdown\<close> is \<open>run.interruptedByShutdown\<close>.\<close>

definition interrupted_unit ::
  "attempt_params \<Rightarrow> int \<Rightarrow> int \<Rightarrow> bool \<Rightarrow> bool \<Rightarrow> bool \<Rightarrow> cycle_unit \<Rightarrow> scan_failure \<Rightarrow> snapshot \<Rightarrow> scan_cycle \<Rightarrow> attempt_scan \<Rightarrow>
     scan_cycle \<times> attempt_scan \<times> attempt_result" where
  "interrupted_unit ps now completed timedOut canceled shutdown claimed scanErr fragment c s =
     (let lastError = at_text ps (ScannerError scanErr);
          (refused, c1) = (case SplitWorkUnit (cu_unit claimed) of
              Some (first, second) \<Rightarrow>
                (if timedOut then SplitScanCycleUnit now (cu_sequence claimed) first second lastError c
                 else RetryScanCycleUnit (cu_sequence claimed) lastError c)
            | None \<Rightarrow> RetryScanCycleUnit (cu_sequence claimed) lastError c)
      in case refused of
           Inl e \<Rightarrow> refuse ps now c1 s fragment e
         | Inr _ \<Rightarrow>
             let paused = PauseScanCycle now (timedOut \<and> completed = 0) lastError c1 in
             if cy_status paused = ''paused'' \<and> cy_no_progress paused \<ge> 3
             then (let stalled = MarkScanCycleStalled now ''scan made no progress in three consecutive attempts'' paused
               in (stalled, setScanCycleMetadata (failed s ''scan stalled after three attempts without progress'') stalled,
                 Handled fragment (Some (ScannerError scanErr))))
             else if canceled
             then (paused, setScanCycleMetadata (s\<lparr>as_status := ''canceled'',
                 as_error := (if shutdown then ScanInterruptedMessage @ ''; progress was saved'' else ''scan canceled; progress was saved''),
                 as_interrupted := (shutdown \<or> as_interrupted s)\<rparr>) paused, Handled fragment (Some (ScannerError scanErr)))
             else (paused, setScanCycleMetadata (s\<lparr>as_status := ''timed_out'',
                 as_error := ''scan timed out; progress was saved for the next trigger''\<rparr>) paused, Handled fragment (Some (ScannerError scanErr))))"

definition failed_unit ::
  "attempt_params \<Rightarrow> int \<Rightarrow> cycle_unit \<Rightarrow> scan_failure \<Rightarrow> snapshot \<Rightarrow> scan_cycle \<Rightarrow> attempt_scan \<Rightarrow> scan_cycle \<times> attempt_scan \<times> attempt_result" where
  "failed_unit ps now claimed scanErr fragment c s =
     (let err = at_text ps (ScannerError scanErr); nextFailure = cu_failures claimed + 1 in
      if \<not> retryableResumableError (Some scanErr)
      then (let c' = MarkScanCycleStalled now err c
        in (c', setScanCycleMetadata (failed s err) c', Handled fragment (Some (ScannerError scanErr))))
      else case RetryScanCycleUnitAfterFailure (cu_sequence claimed) err c of
          (Inl e, c1) \<Rightarrow> refuse ps now c1 s fragment e
        | (Inr _, c1) \<Rightarrow>
            if nextFailure \<ge> scanCycleMaxUnitAttempts
            then (let c' = MarkScanCycleStalled now err c1
              in (c', setScanCycleMetadata (failed s (''scan failed after '' @ itoa nextFailure @ '' failures: '' @ err)) c',
                Handled fragment (Some (ScannerError scanErr))))
            else (let failure = ''failure '' @ itoa nextFailure @ '' of '' @ itoa scanCycleMaxUnitAttempts;
                      c' = PauseScanCycle now False (''retryable scanner failure ('' @ failure @ ''): '' @ err) c1
              in (c', setScanCycleMetadata (failed s (''scan failed ('' @ failure @ ''); progress was saved for the next trigger: '' @ err)) c',
                Handled fragment (Some (ScannerError scanErr)))))"

section \<open>The units of an attempt\<close>

text \<open>One turn: times, what others do before the claim and during the scan, and what the scanner returns.\<close>

record turn =
  tn_before :: "scan_cycle \<Rightarrow> scan_cycle"
  tn_claim :: int
  tn_during :: "scan_cycle \<Rightarrow> scan_cycle"
  tn_fragment :: snapshot
  tn_failure :: "scan_failure option"
  tn_context :: scan_context
  tn_shutdown :: bool
  tn_now :: int

definition scan_error :: "turn \<Rightarrow> scan_failure option" where
  "scan_error t = (if tn_failure t = None
     then (case tn_context t of Live \<Rightarrow> None | Canceled \<Rightarrow> Some ContextCanceled | Exceeded \<Rightarrow> Some DeadlineExceeded) else tn_failure t)"

definition check_budget :: "attempt_params \<Rightarrow> scan_cycle \<Rightarrow> check_error option" where
  "check_budget ps c = CheckScanCycleProbeBudget (at_nmap_budget ps) (at_naabu_budget ps) (at_capacity ps) (Some (ScanCycleProbeTotals c)) (at_job ps)"

fun attempt_loop ::
  "attempt_params \<Rightarrow> turn list \<Rightarrow> int \<Rightarrow> scan_cycle \<Rightarrow> scan_cycle \<Rightarrow> attempt_scan \<Rightarrow> scan_cycle \<times> attempt_scan \<times> attempt_result" where
  "attempt_loop ps [] completed c local s = (c, s, Stopped)"
| "attempt_loop ps (t # ts) completed c local s =
     (case NextScanCycleUnit c of
        Inl e \<Rightarrow> if e = ErrNoPendingUnit then finishResumableCycle ps (tn_now t) c local s else refuse ps (tn_now t) c s empty_snapshot e
      | Inr unit \<Rightarrow>
          (case ClaimScanCycleUnit (tn_claim t) (cu_sequence unit) (tn_before t c) of
             (Inl e, c1) \<Rightarrow> if e = ErrNoPendingUnit then attempt_loop ps ts completed c1 local s else refuse ps (tn_now t) c1 s empty_snapshot e
           | (Inr claimed, c1) \<Rightarrow>
               (case scan_error t of
                  None \<Rightarrow>
                    (case CompleteScanCycleUnit (tn_now t) (cu_sequence claimed) (tn_fragment t) (tn_during t c1) of
                       (Inl e, c2) \<Rightarrow> refuse ps (tn_now t) c2 s empty_snapshot e
                     | (Inr _, c2) \<Rightarrow>
                         let c3 = (if wu_phase (cu_unit claimed) = ''discovery'' then ReconcileScanCycleEnrichment (tn_now t) (at_runtime ps) c2 else c2)
                         in case check_budget ps c3 of
                              Some err \<Rightarrow> stall_with ps (tn_now t) c3 s empty_snapshot (ProbeBudgetError err)
                            | None \<Rightarrow> attempt_loop ps ts (completed + 1) c3 c3 (setScanCycleMetadata s c3))
                | Some err \<Rightarrow>
                    let timedOut = (tn_context t = Exceeded \<or> err = DeadlineExceeded);
                        canceled = (tn_context t = Canceled \<or> err = ContextCanceled)
                    in if timedOut \<or> canceled
                       then interrupted_unit ps (tn_now t) completed timedOut canceled (tn_shutdown t) claimed err (tn_fragment t) (tn_during t c1) s
                       else failed_unit ps (tn_now t) claimed err (tn_fragment t) (tn_during t c1) s)))"

section \<open>The whole attempt\<close>

text \<open>
  \<open>cycles\<close> are the cycles of the job in the order in which they started. What the scans in the
  history say of a cycle comes as functions of its identifier: whether its expiry was reported,
  whether its merged scan was saved, and how many attempts to save it failed.
\<close>

record history =
  hi_notified :: "string \<Rightarrow> bool"
  hi_promoted :: "string \<Rightarrow> bool"
  hi_failures :: "string \<Rightarrow> int"

definition GetActiveScanCycle :: "scan_cycle list \<Rightarrow> scan_cycle option" where
  "GetActiveScanCycle cycles = find active (rev cycles)"

definition GetLatestScanCycle :: "scan_cycle list \<Rightarrow> scan_cycle option" where
  "GetLatestScanCycle cycles = (if cycles = [] then None else Some (last cycles))"

definition GetScanCycle :: "string \<Rightarrow> scan_cycle list \<Rightarrow> scan_cycle option" where
  "GetScanCycle i cycles = find (\<lambda>c. cy_id c = i) cycles"

definition put_cycle :: "scan_cycle \<Rightarrow> scan_cycle list \<Rightarrow> scan_cycle list" where
  "put_cycle c cycles = map (\<lambda>d. if cy_id d = cy_id c then c else d) cycles"

text \<open>An expired cycle that this trigger is the first to notice, or that was never reported.\<close>

definition expired_to_report :: "history \<Rightarrow> scan_cycle option \<Rightarrow> scan_cycle list \<Rightarrow> scan_cycle option" where
  "expired_to_report h previous cycles =
     (let noticed = (case previous of None \<Rightarrow> None | Some p \<Rightarrow> (case GetScanCycle (cy_id p) cycles of
            Some c \<Rightarrow> if cy_status c = ''expired'' then Some c else None | None \<Rightarrow> None))
      in case noticed of
           Some c \<Rightarrow> Some c
         | None \<Rightarrow> (case GetLatestScanCycle cycles of
             Some c \<Rightarrow> if cy_status c = ''expired'' \<and> \<not> hi_notified h (cy_id c) then Some c else None
           | None \<Rightarrow> None))"

text \<open>
  Without an active cycle, a completed one that was not saved is recovered (\<open>Inl\<close>) unless it is
  too old, of another baseline, or failed to be saved too often; then it is discarded. \<open>Inl (Some e)\<close>
  in the first component is a refused discard.
\<close>

datatype leftover = Refused cycle_error | Recover scan_cycle | Nothing

definition leftover_cycle :: "history \<Rightarrow> int \<Rightarrow> int \<Rightarrow> scan_cycle list \<Rightarrow> leftover \<times> scan_cycle list" where
  "leftover_cycle h baselineEpoch now cycles =
     (case GetLatestScanCycle cycles of
        None \<Rightarrow> (Nothing, cycles)
      | Some latest \<Rightarrow>
          let promoted = hi_promoted h (cy_id latest) in
          if cy_status latest \<noteq> ''completed'' then (Nothing, cycles)
          else if cy_epoch latest \<noteq> baselineEpoch
          then (Nothing, put_cycle (snd (DiscardScanCycle True promoted now latest)) cycles)
          else if promoted then (Nothing, cycles)
          else if cycleResumeWindowElapsed latest now
          then (case DiscardScanCycle True promoted now latest of
                  (Inl e, _) \<Rightarrow> (Refused e, cycles) | (Inr _, c) \<Rightarrow> (Nothing, put_cycle c cycles))
          else (case DiscardCompletedScanCycleAfterFinalizationFailures promoted (hi_failures h (cy_id latest)) now
                  baselineEpoch scanCycleMaxFinalizationFailures latest of
                  (Inl e, _) \<Rightarrow> (Refused e, cycles)
                | (Inr False, c) \<Rightarrow> (Recover latest, cycles)
                | (Inr True, c) \<Rightarrow> (Nothing, put_cycle c cycles)))"

text \<open>The plan of a fresh cycle: too small to need one, refused, or stored.\<close>

definition plan_cycle ::
  "attempt_params \<Rightarrow> scan_failure + work_plan \<Rightarrow> scan_context \<Rightarrow> bool \<Rightarrow> string \<Rightarrow> int \<Rightarrow> int \<Rightarrow> attempt_scan \<Rightarrow> (attempt_scan \<times> attempt_result) + scan_cycle" where
  "plan_cycle ps planned context shutdown uuid baselineEpoch now s =
     (case planned of
        Inl err \<Rightarrow>
          Inl (if context = Canceled
             then s\<lparr>as_status := ''canceled'',
               as_error := (if shutdown then ScanInterruptedMessage @ '' while creating the scan plan'' else ''scan canceled while creating the scan plan''),
               as_interrupted := (shutdown \<or> as_interrupted s)\<rparr>
             else if context = Exceeded \<or> err = DeadlineExceeded
             then s\<lparr>as_status := ''timed_out'', as_error := ''scan timed out while creating the scan plan''\<rparr>
             else failed s (at_text ps (PlanError err)), Handled empty_snapshot (Some (PlanError err)))
      | Inr plan \<Rightarrow>
          let (discoveryProbes, nmapProbes) = resolvedPlanProbeTotals plan;
              budgetErr = (case tenantProbeBudget (at_nmap_budget ps) (at_naabu_budget ps) (at_capacity ps) of
                Inl err \<Rightarrow> Some err
              | Inr b \<Rightarrow> map_option BudgetError (checkResolvedProbeBudget b (at_job ps) discoveryProbes nmapProbes))
          in case budgetErr of
               Some err \<Rightarrow> Inl (failed s (at_text ps (ProbeBudgetError err)), Handled empty_snapshot (Some (ProbeBudgetError err)))
             | None \<Rightarrow>
                 if wp_failures plan = [] \<and> length (wp_units plan) \<le> 1 \<and>
                   (wp_units plan = [] \<or> wu_engine (hd (wp_units plan)) \<noteq> EngineNaabuNmap)
                 then Inl (s, NotHandled)
                 else (case CreateScanCycle uuid now \<lparr>cy_id = [], cy_job_id = at_job_id ps, cy_job = at_job_name ps,
                     cy_revision = as_job_revision s, cy_config_hash = at_security_hash ps, cy_execution_hash = at_execution_hash ps,
                     cy_epoch = baselineEpoch, cy_plan = plan\<lparr>wp_job := at_job ps\<rparr>, cy_status = [], cy_attempts = 0, cy_no_progress = 0,
                     cy_total_units = 0, cy_completed_units = 0, cy_total_probes = 0, cy_completed_probes = 0, cy_started = now,
                     cy_attempt_started = None, cy_updated = now, cy_expires = Some (now + at_resume_window ps), cy_finished = None,
                     cy_last_error = [], cy_units = [], cy_processed = []\<rparr> of
                     Inl e \<Rightarrow> Inl (failed s (at_text ps (CycleError e)), Handled empty_snapshot (Some (CycleError e)))
                   | Inr c \<Rightarrow> Inr c))"

text \<open>The guards before the first unit, on the cycle to resume.\<close>

definition start_cycle ::
  "attempt_params \<Rightarrow> bool \<Rightarrow> bool \<Rightarrow> int \<Rightarrow> int \<Rightarrow> int \<Rightarrow> turn list \<Rightarrow> scan_cycle \<Rightarrow> attempt_scan \<Rightarrow> scan_cycle \<times> attempt_scan \<times> attempt_result" where
  "start_cycle ps manual leased baselineEpoch now start turns c s =
     (let c1 = (if cycleResumeWindowElapsed c now then ExpireScanCycle now c else c) in
      if cycleResumeWindowElapsed c now \<and> cy_status c1 = ''expired'' then (c1, expiredCycleAttempt s c1)
      else if cy_status c = ''stalled'' \<and> \<not> manual then (c1, s, Handled empty_snapshot (Some ErrScanCycleStalled))
      else if cy_epoch c \<noteq> baselineEpoch
      then (case DiscardScanCycle leased False now c1 of
              (Inl e, c2) \<Rightarrow> (c2, (failed s (at_text ps (DiscardFailed e)))\<lparr>as_resumable := True, as_cycle_id := cy_id c, as_cycle_status := cy_status c\<rparr>,
                Handled empty_snapshot (Some (DiscardFailed e)))
            | (Inr _, c2) \<Rightarrow> (c2, (failed s ''scan cycle belongs to an older baseline epoch; progress was discarded'')\<lparr>as_resumable := True,
                as_cycle_id := cy_id c, as_cycle_status := ''discarded''\<rparr>, Handled empty_snapshot (Some OlderBaseline)))
      else if cy_config_hash c \<noteq> at_security_hash ps \<and> cy_config_hash c \<noteq> at_legacy_hash ps
      then (let message = ''scan cycle settings changed; discard the paused cycle before retrying''
        in (MarkScanCycleStalled now message c1, (failed s message)\<lparr>as_resumable := True, as_cycle_id := cy_id c, as_cycle_status := ''stalled''\<rparr>,
          Handled empty_snapshot (Some SettingsChanged)))
      else
        let c2 = ReconcileScanCycleEnrichment now (at_runtime ps) c1 in
        case check_budget ps c2 of
          Some err \<Rightarrow> stall_with ps now c2 s empty_snapshot (ProbeBudgetError err)
        | None \<Rightarrow>
            (case StartScanCycleAttempt start c2 of
               (Inl e, c3) \<Rightarrow>
                 (c3, (if e = ErrCycleNotResumable
                    then s\<lparr>as_resumable := True, as_cycle_id := cy_id c, as_cycle_status := ''expired'', as_status := ''timed_out'', as_error := expired_message\<rparr>
                    else failed s (at_text ps (CycleError e))), Handled empty_snapshot (Some (CycleError e)))
             | (Inr _, c3) \<Rightarrow> attempt_loop ps turns 0 c3 c3 (setScanCyclePlanProvenance (setScanCycleMetadata s c3) c3)))"

definition runResumableAttempt ::
  "attempt_params \<Rightarrow> history \<Rightarrow> (string \<Rightarrow> bool) \<Rightarrow> scan_failure + work_plan \<Rightarrow> scan_context \<Rightarrow> bool \<Rightarrow> bool \<Rightarrow> string \<Rightarrow>
     int \<Rightarrow> int \<Rightarrow> int \<Rightarrow> turn list \<Rightarrow> scan_cycle list \<Rightarrow> attempt_scan \<Rightarrow> scan_cycle list \<times> attempt_scan \<times> attempt_result" where
  "runResumableAttempt ps h leased planned context shutdown manual uuid baselineEpoch now start turns cycles0 s =
     (if at_job_id ps = [] then (cycles0, s, NotHandled)
      else
        let cycles = fst (ExpireScanCycles leased now cycles0) in
        case expired_to_report h (GetActiveScanCycle cycles0) cycles of
          Some c \<Rightarrow> (cycles, expiredCycleAttempt s c)
        | None \<Rightarrow>
            let resume = (\<lambda>c cycles. case start_cycle ps manual (leased (at_job_id ps)) baselineEpoch now start turns c s of
                  (c', rest) \<Rightarrow> (put_cycle c' cycles, rest))
            in case GetActiveScanCycle cycles of
                 Some c \<Rightarrow> resume c cycles
               | None \<Rightarrow>
                   (case leftover_cycle h baselineEpoch now cycles of
                      (Refused e, cycles1) \<Rightarrow> (cycles1, failed s (at_text ps (CycleError e)), Handled empty_snapshot (Some (CycleError e)))
                    | (Recover c, cycles1) \<Rightarrow> (cycles1, recoverCompletedCycle ps s c)
                    | (Nothing, cycles1) \<Rightarrow>
                        (case plan_cycle ps planned context shutdown uuid baselineEpoch now s of
                           Inl result \<Rightarrow> (cycles1, result)
                         | Inr c \<Rightarrow> resume c (cycles1 @ [c]))))"

end
