(* ===== verification/AttemptFacts.thy ===== *)
theory AttemptFacts
  imports Attempt
begin

text \<open>
  An attempt only takes steps of the cycle, so everything that holds of every reachable cycle holds
  after any attempts; when it returns, the cycle does not run any more; and when it succeeds, the
  snapshot is the merge of the checkpoints of all units of a completed cycle.
\<close>

section \<open>Steps of the cycle\<close>

lemma one_step: "cycle_step c c' \<Longrightarrow> cycle_reach c c'"
  by (rule cycle_reach.step [OF cycle_reach.here])

lemma then_step: "cycle_reach a b \<Longrightarrow> cycle_step b c \<Longrightarrow> cycle_reach a c"
  by (rule cycle_reach.step)

lemma drain_reach: "cycle_reach c (drain now runtime c)"
proof (induction now runtime c rule: drain.induct)
  case (1 now runtime c)
  obtain c' worked where b: "reconcileBatch now runtime c = (c', worked)" by fastforce
  then have "cycle_step c c'" using cycle_step.reconcile [of c now runtime] by simp
  then show ?case using 1 [OF b [symmetric]] b one_step reach_trans by (auto simp: drain.simps [of now runtime c])
qed

lemma reconcile_reach: "cycle_reach c (ReconcileScanCycleEnrichment now runtime c)"
  by (simp add: ReconcileScanCycleEnrichment_def drain_reach cycle_reach.here)

text \<open>What others do to a cycle while an attempt works on it: nothing, or they end it.\<close>

definition outside :: "(scan_cycle \<Rightarrow> scan_cycle) \<Rightarrow> bool" where
  "outside f \<longleftrightarrow> (\<forall>c. cycle_reach c (f c) \<and> (f c = c \<or> \<not> active (f c)))"

definition quiet :: "turn \<Rightarrow> bool" where
  "quiet t \<longleftrightarrow> outside (tn_before t) \<and> outside (tn_during t)"

lemma outside_cases:
  assumes "outside f"
  obtains "f c = c" | "cycle_reach c (f c)" "\<not> active (f c)" "cy_status (f c) \<noteq> ''running''"
  using assms running_active unfolding outside_def by metis

section \<open>What the operations refuse\<close>

lemma paused_status [simp]: "cy_status (PauseScanCycle now noProgress err c) \<noteq> ''running''"
  by (auto simp: PauseScanCycle_def active_def)

lemma stalled_status [simp]: "cy_status (MarkScanCycleStalled now err c) \<noteq> ''running''"
  by (auto simp: MarkScanCycleStalled_def active_def)

lemma next_Inl:
  "NextScanCycleUnit c = Inl e \<Longrightarrow> e = ErrCycleNotResumable \<Longrightarrow> cy_status c \<noteq> ''running''"
  by (auto simp: NextScanCycleUnit_def split: if_splits list.splits)

lemma claim_Inr:
  assumes "ClaimScanCycleUnit now n c = (Inr u, c1)"
  shows "cy_status c = ''running'' \<and> cy_status c1 = ''running'' \<and> unit_row n (cy_units c1) = Some u \<and> cu_status u = ''running'' \<and>
    cu_sequence u = n"
proof -
  obtain v where v: "unit_row n (cy_units c) = Some v" "cy_status c = ''running''" "u = claim now v"
    "c1 = c\<lparr>cy_units := update_row n (claim now) (cy_units c)\<rparr>"
    using assms by (auto simp: ClaimScanCycleUnit_def claimable_def split: if_splits option.splits)
  have "unit_row n (update_row n f us) = map_option f (unit_row n us)" if "\<And>u. cu_sequence (f u) = cu_sequence u" for f us
    by (induction us) (auto simp: unit_row_def update_row_def that)
  then show ?thesis using v unit_row_Some [OF v(1)] by (simp add: claim_def)
qed

lemma claim_Inl:
  assumes "ClaimScanCycleUnit now n c = (Inl e, c1)"
  shows "cycle_reach c c1 \<and> (e = ErrCycleNotResumable \<longrightarrow> cy_status c1 \<noteq> ''running'') \<and>
    (e = ErrNoPendingUnit \<longrightarrow> c1 = c \<and> cy_status c = ''running'')"
proof -
  have "cycle_step c c1" using cycle_step.claim [of c now n] by (simp add: assms)
  moreover have "window_elapsed now c \<Longrightarrow> cy_status (ExpireScanCycle now c) \<noteq> ''running''"
    by (auto simp: window_elapsed_def ExpireScanCycle_def expires_by_def active_def clearExpiredCyclePayloads_def expire_row_def
        split: option.splits)
  ultimately show ?thesis using assms one_step
    by (auto simp: ClaimScanCycleUnit_def claimable_def split: if_splits option.splits)
qed

lemma complete_unit_Inl:
  "CompleteScanCycleUnit now n snap c = (Inl e, c1) \<Longrightarrow> c1 = c \<and> (e = ErrCycleNotResumable \<longrightarrow> cy_status c \<noteq> ''running'')"
  by (auto simp: CompleteScanCycleUnit_def split: if_splits option.splits)

lemma retry_Inl:
  "retryScanCycleUnit n err counted c = (Inl e, c1) \<Longrightarrow> c1 = c \<and> (e = ErrCycleNotResumable \<longrightarrow> cy_status c \<noteq> ''running'')"
  by (auto simp: retryScanCycleUnit_def split: if_splits)

lemma split_Inl:
  assumes "SplitScanCycleUnit now n first second err c = (Inl e, c1)"
    and "cy_status c = ''running'' \<Longrightarrow> \<exists>u. unit_row n (cy_units c) = Some u \<and> cu_status u = ''running''"
  shows "c1 = c \<and> (e = ErrCycleNotResumable \<longrightarrow> cy_status c \<noteq> ''running'')"
  using assms by (auto simp: SplitScanCycleUnit_def Let_def split: if_splits option.splits)

section \<open>How a turn stops\<close>

text \<open>The cycle took steps from \<open>c\<close>, does not run, and the scan ended with an error.\<close>

definition stops :: "scan_cycle \<Rightarrow> scan_cycle \<times> attempt_scan \<times> attempt_result \<Rightarrow> bool" where
  "stops c res \<longleftrightarrow> cycle_reach c (fst res) \<and> cy_status (fst res) \<noteq> ''running'' \<and> (\<exists>snap err. snd (snd res) = Handled snap (Some err))"

lemma stops_later: "cycle_reach c c1 \<Longrightarrow> stops c1 res \<Longrightarrow> stops c res"
  by (auto simp: stops_def intro: reach_trans)

lemma stall_stops: "stops c (stall_with ps now c s snap err)"
  by (simp add: stops_def stall_with_def Let_def one_step cycle_step.stall)

lemma refuse_stops: "(e = ErrCycleNotResumable \<Longrightarrow> cy_status c \<noteq> ''running'') \<Longrightarrow> stops c (refuse ps now c s snap e)"
  using stall_stops by (auto simp: refuse_def stops_def cycle_reach.here)

text \<open>The unit that was claimed, in the cycle as it is after the scan.\<close>

definition claimed_in :: "cycle_unit \<Rightarrow> scan_cycle \<Rightarrow> bool" where
  "claimed_in u c \<longleftrightarrow> (cy_status c = ''running'' \<longrightarrow> unit_row (cu_sequence u) (cy_units c) = Some u \<and> cu_status u = ''running'')"

lemma failed_stops: "stops c (failed_unit ps now claimed err fragment c s)"
proof (cases "retryableResumableError (Some err)")
  case False
  then show ?thesis by (simp add: failed_unit_def stops_def Let_def one_step cycle_step.stall)
next
  case True
  let ?err = "at_text ps (ScannerError err)"
  obtain r c1 where r: "RetryScanCycleUnitAfterFailure (cu_sequence claimed) ?err c = (r, c1)" by fastforce
  have reach: "cycle_reach c c1" using cycle_step.retry [of c "cu_sequence claimed" ?err True] r
    by (intro one_step) (simp add: RetryScanCycleUnitAfterFailure_def)
  show ?thesis
  proof (cases r)
    case (Inl e)
    then have "c1 = c \<and> (e = ErrCycleNotResumable \<longrightarrow> cy_status c \<noteq> ''running'')"
      using r retry_Inl by (simp add: RetryScanCycleUnitAfterFailure_def)
    then show ?thesis using True r Inl refuse_stops by (auto simp: failed_unit_def Let_def)
  next
    case (Inr x)
    then show ?thesis using True r reach
      by (auto simp: failed_unit_def Let_def stops_def intro: then_step cycle_step.stall cycle_step.pause)
  qed
qed

lemma interrupted_stops:
  assumes "claimed_in claimed c"
  shows "stops c (interrupted_unit ps now n timedOut canceled shutdown claimed err fragment c s)"
proof -
  let ?err = "at_text ps (ScannerError err)" and ?n = "cu_sequence claimed"
  define outcome where "outcome = (case SplitWorkUnit (cu_unit claimed) of
      Some (first, second) \<Rightarrow> (if timedOut then SplitScanCycleUnit now ?n first second ?err c else RetryScanCycleUnit ?n ?err c)
    | None \<Rightarrow> RetryScanCycleUnit ?n ?err c)"
  obtain r c1 where o: "outcome = (r, c1)" by fastforce
  have row: "unit_row ?n (cy_units c) = Some claimed \<and> cu_status claimed = ''running''" if "cy_status c = ''running''"
    using assms that by (simp add: claimed_in_def)
  have retry: "cycle_step c (snd (RetryScanCycleUnit ?n ?err c))" by (simp add: RetryScanCycleUnit_def cycle_step.retry)
  have "cycle_reach c (snd outcome)"
  proof (cases "SplitWorkUnit (cu_unit claimed) \<noteq> None \<and> timedOut")
    case True
    then obtain first second where sp: "SplitWorkUnit (cu_unit claimed) = Some (first, second)" by auto
    show ?thesis
    proof (cases "cy_status c = ''running''")
      case running: True
      then show ?thesis using True sp row cycle_step.split [of ?n c claimed first second now ?err]
        by (intro one_step) (simp add: outcome_def)
    next
      case False
      then have "snd (SplitScanCycleUnit now ?n first second ?err c) = c"
        by (auto simp: SplitScanCycleUnit_def split: option.splits)
      then show ?thesis using True sp by (simp add: outcome_def cycle_reach.here)
    qed
  next
    case False
    then have "outcome = RetryScanCycleUnit ?n ?err c" by (auto simp: outcome_def split: option.splits)
    then show ?thesis using one_step [OF retry] by simp
  qed
  with o have reach: "cycle_reach c c1" by simp
  have refused: "c1 = c \<and> (e = ErrCycleNotResumable \<longrightarrow> cy_status c \<noteq> ''running'')" if "r = Inl e" for e
    using o that split_Inl [of now ?n _ _ ?err c e c1] retry_Inl [of ?n ?err False c e c1] row
    by (auto simp: outcome_def RetryScanCycleUnit_def split: option.splits if_splits)
  have unfold: "interrupted_unit ps now n timedOut canceled shutdown claimed err fragment c s = (case (r, c1) of (refused, c1) \<Rightarrow>
      (case refused of Inl e \<Rightarrow> refuse ps now c1 s fragment e
       | Inr _ \<Rightarrow>
         let paused = PauseScanCycle now (timedOut \<and> n = 0) ?err c1 in
         if cy_status paused = ''paused'' \<and> cy_no_progress paused \<ge> 3
         then (let stalled = MarkScanCycleStalled now ''scan made no progress in three consecutive attempts'' paused
           in (stalled, setScanCycleMetadata (failed s ''scan stalled after three attempts without progress'') stalled, Handled fragment (Some (ScannerError err))))
         else if canceled
         then (paused, setScanCycleMetadata (s\<lparr>as_status := ''canceled'',
             as_error := (if shutdown then ScanInterruptedMessage @ ''; progress was saved'' else ''scan canceled; progress was saved''),
             as_interrupted := (shutdown \<or> as_interrupted s)\<rparr>) paused, Handled fragment (Some (ScannerError err)))
         else (paused, setScanCycleMetadata (s\<lparr>as_status := ''timed_out'',
             as_error := ''scan timed out; progress was saved for the next trigger''\<rparr>) paused, Handled fragment (Some (ScannerError err)))))"
    unfolding interrupted_unit_def o [symmetric] outcome_def Let_def by simp
  show ?thesis
  proof (cases r)
    case (Inl e)
    with refused refuse_stops [of e c] show ?thesis unfolding unfold by auto
  next
    case (Inr x)
    have "cycle_reach c (PauseScanCycle now b e c1)" "cycle_reach c (MarkScanCycleStalled now e' (PauseScanCycle now b e c1))" for b e e'
      using reach by (auto intro: then_step cycle_step.pause cycle_step.stall)
    then show ?thesis unfolding unfold by (simp add: Inr Let_def stops_def)
  qed
qed

end
