(* ===== verification/AttemptLoop.thy ===== *)
theory AttemptLoop
  imports AttemptFacts
begin

section \<open>How an attempt ends\<close>

text \<open>The scan is the merge of the checkpoints of all units of a completed cycle.\<close>

definition whole :: "scan_cycle \<Rightarrow> attempt_scan \<Rightarrow> snapshot \<Rightarrow> bool" where
  "whole c s snap \<longleftrightarrow> cy_status c = ''completed'' \<and> as_status s = ''success'' \<and> as_snapshot s = snap \<and>
     (\<exists>plan fragments. LoadScanCycleFragments c = Inr (plan, fragments) \<and> length fragments = length (cy_units c) \<and>
       snap = MergeWorkSnapshots plan fragments)"

definition ends :: "scan_cycle \<Rightarrow> scan_cycle \<times> attempt_scan \<times> attempt_result \<Rightarrow> bool" where
  "ends c res \<longleftrightarrow> cycle_reach c (fst res) \<and> (snd (snd res) \<noteq> Stopped \<longrightarrow> cy_status (fst res) \<noteq> ''running'') \<and>
     (\<forall>snap. snd (snd res) = Handled snap None \<longrightarrow> whole (fst res) (fst (snd res)) snap)"

lemma stops_ends: "stops c res \<Longrightarrow> ends c res"
  by (auto simp: stops_def ends_def)

lemma ends_later: "cycle_reach c c1 \<Longrightarrow> ends c1 res \<Longrightarrow> ends c res"
  by (auto simp: ends_def intro: reach_trans)

lemma load_length: "load_fragments us = Inr ss \<Longrightarrow> length ss = length us"
  by (induction us arbitrary: ss) (auto split: option.splits sum.splits)

lemma loaded_length: "LoadScanCycleFragments c = Inr (plan, fragments) \<Longrightarrow> length fragments = length (done_units c)"
  by (auto simp: LoadScanCycleFragments_def done_units_def dest: load_length split: sum.splits)

lemma completed_load:
  "LoadScanCycleFragments (c\<lparr>cy_status := st, cy_updated := now, cy_finished := f, cy_last_error := e\<rparr>) = LoadScanCycleFragments c"
  by (simp add: LoadScanCycleFragments_def split: sum.splits)

lemma completed_done: "cycle_ok c \<Longrightarrow> cy_status c = ''completed'' \<Longrightarrow> done_units c = cy_units c"
  using cycle_okD(5) by (simp add: done_units_def filter_id_conv)

text \<open>What the attempt last read of the cycle agrees with the store.\<close>

definition agrees :: "scan_cycle \<Rightarrow> scan_cycle \<Rightarrow> bool" where
  "agrees local c \<longleftrightarrow> (cy_status c = ''running'' \<longrightarrow>
     cy_completed_units local = cy_completed_units c \<and> cy_total_units local = cy_total_units c)"

lemma agrees_same [simp]: "agrees c c"
  by (simp add: agrees_def)

lemma finish_ends:
  assumes "cycle_ok c" "agrees local c" "NextScanCycleUnit c = Inl ErrNoPendingUnit"
  shows "ends c (finishResumableCycle ps now c local s)"
proof -
  have status: "cy_status c = ''running'' \<or> cy_status c = ''completed''"
    using assms(3) by (auto simp: NextScanCycleUnit_def split: if_splits)
  show ?thesis
  proof (cases "\<exists>plan fragments. LoadScanCycleFragments c = Inr (plan, fragments) \<and>
      missingScanCycleCheckpointError local (int (length fragments)) = None")
    case False
    then have "\<exists>err. finishResumableCycle ps now c local s = stall_with ps now c s empty_snapshot err"
      by (auto simp: finishResumableCycle_def split: sum.splits option.splits)
    then show ?thesis using stall_stops stops_ends by metis
  next
    case True
    then obtain plan fragments where l: "LoadScanCycleFragments c = Inr (plan, fragments)"
      and m: "missingScanCycleCheckpointError local (int (length fragments)) = None" by blast
    obtain c' where c': "CompleteScanCycle now c = (Inr (), c')" "cy_status c' = ''completed''" "LoadScanCycleFragments c' = Inr (plan, fragments)"
      using status assms(2) l m
      by (auto simp: CompleteScanCycle_def agrees_def missingScanCycleCheckpointError_def completed_load split: if_splits)
    have step: "cycle_step c c'" using cycle_step.complete [of c now] c'(1) by simp
    have "length fragments = length (cy_units c')"
      using loaded_length [OF c'(3)] completed_done [OF cycle_step_ok [OF step assms(1)] c'(2)] by simp
    moreover have "finishResumableCycle ps now c local s =
        (c', setScanCycleMetadata (s\<lparr>as_status := ''success'', as_snapshot := MergeWorkSnapshots plan fragments\<rparr>) c',
          Handled (MergeWorkSnapshots plan fragments) None)"
      by (simp add: finishResumableCycle_def l m c'(1) Let_def)
    ultimately show ?thesis using c' one_step [OF step] by (auto simp: ends_def whole_def setScanCycleMetadata_def)
  qed
qed

section \<open>The units of an attempt\<close>

lemma during_claimed:
  assumes "ClaimScanCycleUnit now n c = (Inr u, c1)" "outside f"
  shows "cycle_reach c (f c1) \<and> claimed_in u (f c1)"
proof -
  have claim: "cycle_step c c1" using cycle_step.claim [of c now n] assms(1) by simp
  from assms(2) show ?thesis
  proof (cases rule: outside_cases [of f c1])
    case 1
    then show ?thesis using claim_Inr [OF assms(1)] one_step [OF claim] by (auto simp: claimed_in_def)
  next
    case 2
    then show ?thesis using reach_trans [OF 2(1) one_step [OF claim]] by (simp add: claimed_in_def)
  qed
qed

lemma attempt_loop_ends:
  assumes "cycle_ok c" "list_all quiet ts" "agrees local c"
  shows "ends c (attempt_loop ps ts completed c local s)"
  using assms
proof (induction ts arbitrary: completed c local s)
  case Nil
  then show ?case by (simp add: ends_def cycle_reach.here)
next
  case (Cons t ts)
  have out: "outside (tn_before t)" "outside (tn_during t)" using Cons.prems(2) by (simp_all add: quiet_def)
  show ?case
  proof (cases "NextScanCycleUnit c")
    case (Inl e)
    then have "ends c (refuse ps (tn_now t) c s empty_snapshot e)" using next_Inl by (intro stops_ends refuse_stops)
    then show ?thesis using Inl finish_ends Cons.prems by simp
  next
    case (Inr unit)
    obtain r c1 where claim: "ClaimScanCycleUnit (tn_claim t) (cu_sequence unit) (tn_before t c) = (r, c1)" by fastforce
    have before: "cycle_reach c (tn_before t c)" using out(1) by (simp add: outside_def)
    show ?thesis
    proof (cases r)
      case (Inl e)
      note c1 = claim_Inl [OF claim [unfolded Inl]]
      have reach: "cycle_reach c c1" using reach_trans [OF _ before] c1 by blast
      have stop: "ends c (refuse ps (tn_now t) c1 s empty_snapshot e)"
        by (intro stops_ends stops_later [OF reach] refuse_stops) (use c1 in blast)
      have more: "ends c (attempt_loop ps ts completed c1 local s)" if "e = ErrNoPendingUnit"
      proof -
        have "c1 = c" using out(1) c1 that by (cases rule: outside_cases [of "tn_before t" c]) auto
        then show ?thesis using Cons by simp
      qed
      show ?thesis using stop more Inr claim Inl by simp
    next
      case r: (Inr claimed)
      note d = during_claimed [OF claim [unfolded r] out(2)]
      have reach: "cycle_reach c (tn_during t c1)" using reach_trans [OF _ before] d by blast
      show ?thesis
      proof (cases "scan_error t")
        case (Some err)
        have "ends c (interrupted_unit ps (tn_now t) completed tm cn sh claimed err (tn_fragment t) (tn_during t c1) s)" for tm cn sh
          using d by (intro stops_ends stops_later [OF reach] interrupted_stops) simp
        moreover have "ends c (failed_unit ps (tn_now t) claimed err (tn_fragment t) (tn_during t c1) s)"
          by (intro stops_ends stops_later [OF reach] failed_stops)
        ultimately show ?thesis using Inr claim r Some by (simp add: Let_def)
      next
        case None
        obtain q c2 where q: "CompleteScanCycleUnit (tn_now t) (cu_sequence claimed) (tn_fragment t) (tn_during t c1) = (q, c2)" by fastforce
        have "cycle_step (tn_during t c1) c2" using cycle_step.checkpoint [of "tn_during t c1" "tn_now t" "cu_sequence claimed" "tn_fragment t"] q by simp
        with reach have r2: "cycle_reach c c2" by (rule then_step)
        define c3 where "c3 = (if wu_phase (cu_unit claimed) = ''discovery'' then ReconcileScanCycleEnrichment (tn_now t) (at_runtime ps) c2 else c2)"
        have r3: "cycle_reach c c3" using r2 reach_trans [OF reconcile_reach] by (simp add: c3_def)
        have stall: "ends c (stall_with ps (tn_now t) c3 s empty_snapshot err)" for err
          by (intro stops_ends stops_later [OF r3] stall_stops)
        have more: "ends c (attempt_loop ps ts (completed + 1) c3 c3 s')" for s'
          using Cons.prems cycle_reach_ok [OF r3] by (intro ends_later [OF r3] Cons.IH) simp_all
        have refused: "ends c (refuse ps (tn_now t) c2 s empty_snapshot e)" if "q = Inl e" for e
          using complete_unit_Inl q that by (intro stops_ends stops_later [OF r2] refuse_stops) blast
        have "attempt_loop ps (t # ts) completed c local s = (case q of Inl e \<Rightarrow> refuse ps (tn_now t) c2 s empty_snapshot e
          | Inr _ \<Rightarrow> (case check_budget ps c3 of Some err \<Rightarrow> stall_with ps (tn_now t) c3 s empty_snapshot (ProbeBudgetError err)
            | None \<Rightarrow> attempt_loop ps ts (completed + 1) c3 c3 (setScanCycleMetadata s c3)))"
          using Inr claim r None q by (cases q) (simp_all add: Let_def c3_def split: option.split)
        then show ?thesis using refused stall more by (cases q; cases "check_budget ps c3") simp_all
      qed
    qed
  qed
qed

section \<open>The guards before the first unit\<close>

text \<open>A cycle of another baseline that is being scanned cannot be discarded: it is left as it is.\<close>

definition discard_refused :: "attempt_result \<Rightarrow> bool" where
  "discard_refused r \<longleftrightarrow> (\<exists>e. r = Handled empty_snapshot (Some (DiscardFailed e)))"

lemma elapsed_expires: "active c \<Longrightarrow> cycleResumeWindowElapsed c now \<Longrightarrow> cy_status (ExpireScanCycle now c) = ''expired''"
  by (auto simp: cycleResumeWindowElapsed_def ExpireScanCycle_def expires_by_def clearExpiredCyclePayloads_def expire_row_def
      split: option.splits)

lemma discard_Inr: "DiscardScanCycle leased promoted now c = (Inr x, c1) \<Longrightarrow> cy_status c1 \<noteq> ''running''"
  by (auto simp: DiscardScanCycle_def discard_row_def split: if_splits)

lemma start_Inl: "StartScanCycleAttempt now c = (Inl e, c1) \<Longrightarrow> cy_status c1 \<noteq> ''running''"
  by (auto simp: StartScanCycleAttempt_def clearExpiredCyclePayloads_def expire_row_def active_def split: if_splits)

lemma start_cycle_ends:
  assumes "cycle_ok c" "active c" "list_all quiet turns"
  shows "ends c (start_cycle ps manual leased baselineEpoch now start turns c s) \<or>
    cycle_reach c (fst (start_cycle ps manual leased baselineEpoch now start turns c s)) \<and>
    discard_refused (snd (snd (start_cycle ps manual leased baselineEpoch now start turns c s)))"
proof (cases "cycleResumeWindowElapsed c now")
  case True
  then have "cy_status (ExpireScanCycle now c) = ''expired''" by (rule elapsed_expires [OF assms(2)])
  then have "stops c (start_cycle ps manual leased baselineEpoch now start turns c s)"
    using True by (simp add: start_cycle_def Let_def expiredCycleAttempt_def stops_def one_step cycle_step.expire)
  then show ?thesis by (simp add: stops_ends)
next
  case fresh: False
  let ?res = "start_cycle ps manual leased baselineEpoch now start turns c s"
  consider (stalled) "cy_status c = ''stalled''" "\<not> manual"
    | (epoch) "\<not> (cy_status c = ''stalled'' \<and> \<not> manual)" "cy_epoch c \<noteq> baselineEpoch"
    | (settings) "\<not> (cy_status c = ''stalled'' \<and> \<not> manual)" "cy_epoch c = baselineEpoch"
        "cy_config_hash c \<noteq> at_security_hash ps \<and> cy_config_hash c \<noteq> at_legacy_hash ps"
    | (go) "\<not> (cy_status c = ''stalled'' \<and> \<not> manual)" "cy_epoch c = baselineEpoch"
        "\<not> (cy_config_hash c \<noteq> at_security_hash ps \<and> cy_config_hash c \<noteq> at_legacy_hash ps)"
    by blast
  then show ?thesis
  proof cases
    case stalled
    then have "stops c ?res" using fresh by (simp add: start_cycle_def Let_def stops_def cycle_reach.here)
    then show ?thesis by (simp add: stops_ends)
  next
    case epoch
    obtain r c2 where d: "DiscardScanCycle leased False now c = (r, c2)" by fastforce
    have "cycle_reach c c2" using cycle_step.discard [of c leased False now] d by (simp add: one_step)
    then show ?thesis using fresh epoch d discard_Inr [of leased False now c _ c2]
      by (cases r) (auto simp: start_cycle_def Let_def stops_ends stops_def discard_refused_def)
  next
    case settings
    then have "stops c ?res" using fresh by (auto simp: start_cycle_def Let_def stops_def one_step cycle_step.stall)
    then show ?thesis by (simp add: stops_ends)
  next
    case go
    define c2 where "c2 = ReconcileScanCycleEnrichment now (at_runtime ps) c"
    have r2: "cycle_reach c c2" by (simp add: c2_def reconcile_reach)
    obtain r c3 where st: "StartScanCycleAttempt start c2 = (r, c3)" by fastforce
    have "cycle_step c2 c3" using cycle_step.start [of c2 start] st by simp
    with r2 have r3: "cycle_reach c c3" by (rule then_step)
    have loop: "ends c (attempt_loop ps turns 0 c3 c3 s')" for s'
      by (intro ends_later [OF r3] attempt_loop_ends assms(3) cycle_reach_ok [OF r3 assms(1)] agrees_same)
    have stall: "ends c (stall_with ps now c2 s empty_snapshot err)" for err
      by (intro stops_ends stops_later [OF r2] stall_stops)
    have refused: "ends c (c3, s', Handled empty_snapshot (Some err))" if "r = Inl e" for e s' err
      using start_Inl st that r3 by (intro stops_ends) (simp add: stops_def)
    have "?res = (case check_budget ps c2 of Some err \<Rightarrow> stall_with ps now c2 s empty_snapshot (ProbeBudgetError err)
        | None \<Rightarrow> (case r of
            Inl e \<Rightarrow> (c3, (if e = ErrCycleNotResumable
                then s\<lparr>as_resumable := True, as_cycle_id := cy_id c, as_cycle_status := ''expired'', as_status := ''timed_out'', as_error := expired_message\<rparr>
                else failed s (at_text ps (CycleError e))), Handled empty_snapshot (Some (CycleError e)))
          | Inr _ \<Rightarrow> attempt_loop ps turns 0 c3 c3 (setScanCyclePlanProvenance (setScanCycleMetadata s c3) c3)))"
      using fresh go by (cases r) (auto simp: start_cycle_def Let_def c2_def [symmetric] st split: option.split)
    then show ?thesis using loop stall refused by (cases "check_budget ps c2"; cases r) simp_all
  qed
qed

section \<open>Undisturbed attempts\<close>

text \<open>A turn in which nobody interferes, the scanner succeeds and the resume window is open.\<close>

definition succeeds :: "scan_cycle \<Rightarrow> turn \<Rightarrow> bool" where
  "succeeds c t \<longleftrightarrow> tn_before t = id \<and> tn_during t = id \<and> scan_error t = None \<and>
     (case cy_expires c of None \<Rightarrow> True | Some e \<Rightarrow> tn_claim t < e)"

definition waiting :: "scan_cycle \<Rightarrow> nat" where
  "waiting c = length (pending_units c)"

text \<open>The cycle runs, no unit is being scanned, and there is no discovery to enrich.\<close>

definition ready :: "scan_cycle \<Rightarrow> bool" where
  "ready c \<longleftrightarrow> cycle_ok c \<and> cy_status c = ''running'' \<and> (\<forall>u \<in> set (cy_units c). cu_status u = ''pending'' \<or> cu_status u = ''completed'') \<and>
     (\<forall>u \<in> set (cy_units c). wu_phase (cu_unit u) \<noteq> ''discovery'')"

lemma waiting_filter: "waiting c = length (filter (\<lambda>u. cu_status u = ''pending'') (cy_units c))"
  by (simp add: waiting_def pending_units_def)

lemma unit_row_member:
  assumes "u \<in> set us" "distinct (map cu_sequence us)"
  shows "unit_row (cu_sequence u) us = Some u"
proof -
  from assms(1) have "unit_row (cu_sequence u) us \<noteq> None" by (auto simp: unit_row_def find_None_iff)
  then obtain v where v: "unit_row (cu_sequence u) us = Some v" by blast
  then have "v = u" using assms unit_row_Some [OF v] by (auto simp: distinct_map inj_on_def)
  with v show ?thesis by simp
qed

lemma update_row_twice: "(\<And>u. cu_sequence (f u) = cu_sequence u) \<Longrightarrow> update_row n g (update_row n f us) = update_row n (\<lambda>u. g (f u)) us"
  by (simp add: update_row_def)

lemma finish_succeeds:
  assumes "ready c" "waiting c = 0"
  shows "\<exists>c' s' snap. finishResumableCycle ps now c c s = (c', s', Handled snap None)"
proof -
  have ok: "cycle_ok c" "cy_status c = ''running''" and "\<forall>u \<in> set (cy_units c). cu_status u = ''completed''"
    using assms by (auto simp: ready_def waiting_filter filter_empty_conv)
  then have all: "done_units c = cy_units c" by (simp add: done_units_def filter_id_conv)
  then have "\<forall>u \<in> set (cy_units c). cu_snapshot u \<noteq> None" using cycle_okD(4) [OF ok(1) running_active [OF ok(2)]] by simp
  then obtain plan fragments where l: "LoadScanCycleFragments c = Inr (plan, fragments)"
    using load_all [of "sort_key cu_sequence (cy_units c)"] all by (simp add: LoadScanCycleFragments_def done_units_def)
  have counts: "cy_completed_units c = cy_total_units c" "cy_total_units c = int (length (cy_units c))"
    using running_counts [OF ok] all by (simp_all add: counts_ok_def)
  then have "missingScanCycleCheckpointError c (int (length fragments)) = None"
    using loaded_length [OF l] all by (simp add: missingScanCycleCheckpointError_def)
  then show ?thesis using l ok(2) counts by (simp add: finishResumableCycle_def CompleteScanCycle_def Let_def)
qed

text \<open>One unit is claimed, scanned and checkpointed.\<close>

lemma turn_succeeds:
  assumes "ready c" "succeeds c t" "NextScanCycleUnit c = Inr u"
  obtains claimed c1 c2 where "ClaimScanCycleUnit (tn_claim t) (cu_sequence u) c = (Inr claimed, c1)"
    "CompleteScanCycleUnit (tn_now t) (cu_sequence claimed) (tn_fragment t) c1 = (Inr (), c2)"
    "wu_phase (cu_unit claimed) \<noteq> ''discovery''" "ready c2" "waiting c = Suc (waiting c2)"
    "cy_expires c2 = cy_expires c" "map cu_unit (cy_units c2) = map cu_unit (cy_units c)"
proof -
  have ok: "cycle_ok c" and run: "cy_status c = ''running''"
    and rows: "\<forall>u \<in> set (cy_units c). cu_status u = ''pending'' \<or> cu_status u = ''completed''"
      "\<forall>u \<in> set (cy_units c). wu_phase (cu_unit u) \<noteq> ''discovery''" using assms(1) by (simp_all add: ready_def)
  have "u \<in> set (pending_units c)" using assms(3) by (auto simp: NextScanCycleUnit_def split: if_splits list.splits)
  then have u: "u \<in> set (cy_units c)" "cu_status u = ''pending''" by (auto simp: pending_units_def)
  have row: "unit_row (cu_sequence u) (cy_units c) = Some u"
    using u(1) cycle_okD(1) [OF ok] by (intro unit_row_member) (simp_all add: rows_ok_def)
  from ok row obtain as bs where us: "cy_units c = as @ u # bs" and vs: "\<forall>f. update_row (cu_sequence u) f (cy_units c) = as @ f u # bs"
    by (rule row_of)
  let ?v = "claim (tn_claim t) u"
  define c1 where "c1 = c\<lparr>cy_units := as @ ?v # bs\<rparr>"
  have claim: "ClaimScanCycleUnit (tn_claim t) (cu_sequence u) c = (Inr ?v, c1)"
    using assms(2) row run u(2) vs by (simp add: ClaimScanCycleUnit_def claimable_def succeeds_def c1_def split: option.splits)
  have ok1: "cycle_ok c1" using claim_ok [OF ok, of "tn_claim t" "cu_sequence u"] by (simp add: claim)
  have v: "cu_sequence ?v = cu_sequence u" "cu_status ?v = ''running''" "cu_unit ?v = cu_unit u" by (simp_all add: claim_def)
  have row1: "unit_row (cu_sequence u) (cy_units c1) = Some ?v"
    using unit_row_member [of ?v "cy_units c1"] cycle_okD(1) [OF ok1] v(1) by (simp add: c1_def rows_ok_def)
  define c2 where "c2 = snd (CompleteScanCycleUnit (tn_now t) (cu_sequence ?v) (tn_fragment t) c1)"
  let ?w = "complete_unit (tn_now t) (tn_fragment t) ?v"
  have "update_row (cu_sequence u) (complete_unit (tn_now t) (tn_fragment t)) (update_row (cu_sequence u) (claim (tn_claim t)) (cy_units c)) =
      as @ ?w # bs"
    using vs by (subst update_row_twice) (simp_all add: claim_def)
  then have units1: "update_row (cu_sequence u) (complete_unit (tn_now t) (tn_fragment t)) (cy_units c1) = as @ ?w # bs"
    using vs by (simp add: c1_def)
  then have units2: "cy_units c2 = as @ ?w # bs" "cy_status c2 = ''running''" "cy_expires c2 = cy_expires c"
    and complete: "CompleteScanCycleUnit (tn_now t) (cu_sequence ?v) (tn_fragment t) c1 = (Inr (), c2)"
    using row1 v run by (simp_all add: c2_def CompleteScanCycleUnit_def c1_def)
  have "cycle_ok c2" unfolding c2_def by (rule checkpoint_ok [OF ok1])
  moreover have w: "cu_status ?w = ''completed''" "cu_unit ?w = cu_unit u" by (simp_all add: complete_unit_def v)
  ultimately have "ready c2" "waiting c = Suc (waiting c2)" "map cu_unit (cy_units c2) = map cu_unit (cy_units c)"
    using rows u units2 by (auto simp: ready_def waiting_filter us)
  then show thesis using that [OF claim complete _ _ _ units2(3)] rows(2) u(1) v(3) by simp
qed

text \<open>What the budget says depends on the units alone.\<close>

lemma check_budget_units: "map cu_unit (cy_units c') = map cu_unit (cy_units c) \<Longrightarrow> check_budget ps c' = check_budget ps c"
proof -
  assume same: "map cu_unit (cy_units c') = map cu_unit (cy_units c)"
  have totals: "sum_list (map (\<lambda>u. wu_probes (cu_unit u)) (filter (\<lambda>u. P (cu_unit u)) us)) =
      sum_list (map wu_probes (filter P (map cu_unit us)))" for P us
    by (simp add: filter_map comp_def)
  show ?thesis unfolding check_budget_def ScanCycleProbeTotals_def totals [of "\<lambda>u. wu_phase u = ''discovery''"]
      totals [of "\<lambda>u. wu_phase u \<noteq> ''discovery''"] same ..
qed

lemma ready_next:
  assumes "ready c"
  obtains "waiting c = 0" "NextScanCycleUnit c = Inl ErrNoPendingUnit" | u where "NextScanCycleUnit c = Inr u"
  using assms by (cases "pending_units c") (auto simp: NextScanCycleUnit_def ready_def waiting_def)

lemma attempt_loop_succeeds:
  assumes "ready c" "list_all (succeeds c) ts" "check_budget ps c = None" "waiting c < length ts"
  shows "\<exists>c' s' snap. attempt_loop ps ts n c c s = (c', s', Handled snap None)"
  using assms
proof (induction ts arbitrary: n c s)
  case (Cons t ts)
  have t: "succeeds c t" using Cons.prems(2) by simp
  from Cons.prems(1) show ?case
  proof (cases rule: ready_next)
    case 1
    then show ?thesis using finish_succeeds [OF Cons.prems(1)] by simp
  next
    case (2 u)
    from Cons.prems(1) t 2 obtain claimed c1 c2 where turn: "ClaimScanCycleUnit (tn_claim t) (cu_sequence u) c = (Inr claimed, c1)"
      "CompleteScanCycleUnit (tn_now t) (cu_sequence claimed) (tn_fragment t) c1 = (Inr (), c2)"
      "wu_phase (cu_unit claimed) \<noteq> ''discovery''" "ready c2" "waiting c = Suc (waiting c2)"
      "cy_expires c2 = cy_expires c" "map cu_unit (cy_units c2) = map cu_unit (cy_units c)" by (rule turn_succeeds)
    have budget: "check_budget ps c2 = None" using check_budget_units [OF turn(7)] Cons.prems(3) by simp
    have "succeeds c2 = succeeds c" by (simp add: fun_eq_iff succeeds_def turn(6))
    then have "\<exists>c' s' snap. attempt_loop ps ts (n + 1) c2 c2 (setScanCycleMetadata s c2) = (c', s', Handled snap None)"
      using Cons.prems turn(4,5) budget by (intro Cons.IH) simp_all
    moreover have "attempt_loop ps (t # ts) n c c s = attempt_loop ps ts (n + 1) c2 c2 (setScanCycleMetadata s c2)"
      using t 2 turn budget by (simp add: succeeds_def Let_def)
    ultimately show ?thesis by simp
  qed
qed simp

lemma started_ready:
  assumes "cycle_ok c" "active c" "\<not> window_elapsed start c" "\<forall>u \<in> set (cy_units c). wu_phase (cu_unit u) \<noteq> ''discovery''"
  obtains c' where "StartScanCycleAttempt start c = (Inr (), c')" "ready c'" "cy_expires c' = cy_expires c"
    "map cu_unit (cy_units c') = map cu_unit (cy_units c)" "waiting c' = length (filter (\<lambda>u. cu_status u \<noteq> ''completed'') (cy_units c))"
proof -
  define c' where "c' = snd (StartScanCycleAttempt start c)"
  let ?f = "\<lambda>u. if cu_status u = ''running'' then u\<lparr>cu_status := ''pending'', cu_started := None\<rparr> else u"
  have c': "StartScanCycleAttempt start c = (Inr (), c')" "cy_units c' = map ?f (cy_units c)" "cy_status c' = ''running''" "cy_expires c' = cy_expires c"
    using assms(2,3) by (simp_all add: c'_def StartScanCycleAttempt_def)
  have "\<forall>u \<in> set (cy_units c). cu_status u \<in> {''pending'', ''running'', ''completed''}"
    using cycle_okD(1) [OF assms(1)] by (simp add: rows_ok_def unit_ok_def)
  then have "waiting c' = length (filter (\<lambda>u. cu_status u \<noteq> ''completed'') (cy_units c))"
    unfolding waiting_filter c'(2) filter_map length_map by (intro arg_cong [where f = length] filter_cong) auto
  moreover have "ready c'" using \<open>\<forall>u \<in> set (cy_units c). cu_status u \<in> {''pending'', ''running'', ''completed''}\<close> assms(4)
      start_ok [OF assms(1), of start] by (auto simp: ready_def c' c'_def [symmetric])
  moreover have "map cu_unit (cy_units c') = map cu_unit (cy_units c)" by (simp add: c' comp_def)
  ultimately show thesis using that c' by blast
qed

lemma start_cycle_succeeds:
  assumes "cycle_ok c" "active c" "\<not> (cy_status c = ''stalled'' \<and> \<not> manual)" "\<not> is_naabu (wp_job (cy_plan c))"
    and "\<forall>u \<in> set (cy_units c). wu_phase (cu_unit u) \<noteq> ''discovery''"
    and "\<not> cycleResumeWindowElapsed c now" "\<not> window_elapsed start c" "cy_epoch c = baselineEpoch" "cy_config_hash c = at_security_hash ps"
    and "check_budget ps c = None" "list_all (succeeds c) turns"
    and "length (filter (\<lambda>u. cu_status u \<noteq> ''completed'') (cy_units c)) < length turns"
  shows "\<exists>c' s' snap. start_cycle ps manual leased baselineEpoch now start turns c s = (c', s', Handled snap None)"
proof -
  from assms(1,2,7,5) obtain c3 where c3: "StartScanCycleAttempt start c = (Inr (), c3)" "ready c3" "cy_expires c3 = cy_expires c"
    "map cu_unit (cy_units c3) = map cu_unit (cy_units c)" "waiting c3 = length (filter (\<lambda>u. cu_status u \<noteq> ''completed'') (cy_units c))"
    by (rule started_ready)
  have same: "succeeds c3 = succeeds c" by (simp add: fun_eq_iff succeeds_def c3(3))
  have "\<exists>c' s' snap. attempt_loop ps turns 0 c3 c3 s1 = (c', s', Handled snap None)" for s1
    by (rule attempt_loop_succeeds [OF c3(2)]) (use assms(10-12) c3(5) check_budget_units [OF c3(4)] same in simp_all)
  moreover have "ReconcileScanCycleEnrichment now (at_runtime ps) c = c" using assms(4) by (simp add: ReconcileScanCycleEnrichment_def)
  ultimately show ?thesis using assms(3,6,8-10) c3(1) by (auto simp: start_cycle_def Let_def)
qed

end
