(* ===== verification/AttemptRun.thy ===== *)
theory AttemptRun
  imports AttemptLoop
begin

text \<open>
  What a trigger of a job leaves behind: \<open>runResumableAttempt\<close> over the cycles of the job, and the
  promises of an attempt on one cycle.
\<close>

section \<open>The cycles of a job\<close>

lemma put_not_running:
  assumes "cy_status c' \<noteq> ''running''" "\<forall>d \<in> set cycles. cy_id d = cy_id c' \<or> cy_status d \<noteq> ''running''"
  shows "\<forall>d \<in> set (put_cycle c' cycles). cy_status d \<noteq> ''running''"
  using assms by (auto simp: put_cycle_def)

lemma step_id: "cycle_step c c' \<Longrightarrow> cy_id c' = cy_id c"
proof (induction rule: cycle_step.induct)
  case (split n c u first second now lastError)
  then show ?case by (auto simp: SplitScanCycleUnit_def Let_def)
qed (auto simp: StartScanCycleAttempt_def ClaimScanCycleUnit_def CompleteScanCycleUnit_def retryScanCycleUnit_def
    PauseScanCycle_def MarkScanCycleStalled_def CompleteScanCycle_def ExpireScanCycle_def DiscardScanCycle_def
    DiscardCompletedScanCycleAfterFinalizationFailures_def discardUnpromoted_def discardPaused_def expire_row_def clearExpiredCyclePayloads_def
    clearCompletedScanCycleCheckpoints_def reconcileBatch_def Let_def discard_row_def split: option.splits)

lemma reach_id: "cycle_reach c c' \<Longrightarrow> cy_id c' = cy_id c"
  by (induction rule: cycle_reach.induct) (simp_all add: step_id)

text \<open>At most the latest cycle of a job is active.\<close>

definition latest_active :: "scan_cycle list \<Rightarrow> bool" where
  "latest_active cycles \<longleftrightarrow> list_all cycle_ok cycles \<and> list_all (\<lambda>c. \<not> active c) (butlast cycles)"

definition expire_due :: "(string \<Rightarrow> bool) \<Rightarrow> int \<Rightarrow> scan_cycle \<Rightarrow> scan_cycle" where
  "expire_due leased now c = (if expiredScanCycle leased now c then clearExpiredCyclePayloads (expire_row now c) else c)"

lemma expired_row_status: "cy_status (clearExpiredCyclePayloads (expire_row now c)) = ''expired''"
  "cy_id (clearExpiredCyclePayloads (expire_row now c)) = cy_id c"
  by (simp_all add: expire_row_def clearExpiredCyclePayloads_def)

lemma expire_due_facts:
  "cycle_ok c \<Longrightarrow> cycle_ok (expire_due leased now c)" "active (expire_due leased now c) \<Longrightarrow> active c" "cy_id (expire_due leased now c) = cy_id c"
  "active c \<Longrightarrow> active (expire_due leased now c) \<or> cy_status (expire_due leased now c) = ''expired''"
proof -
  show "cycle_ok c \<Longrightarrow> cycle_ok (expire_due leased now c)"
    by (cases "expiredScanCycle leased now c") (auto simp: expire_due_def expiredScanCycle_def expire_ok)
  have "expire_due leased now c = c \<or>
      active c \<and> cy_status (expire_due leased now c) = ''expired'' \<and> cy_id (expire_due leased now c) = cy_id c"
    unfolding expire_due_def expiredScanCycle_def by (auto simp only: expired_row_status split: if_splits)
  then show "active (expire_due leased now c) \<Longrightarrow> active c" "cy_id (expire_due leased now c) = cy_id c"
    "active c \<Longrightarrow> active (expire_due leased now c) \<or> cy_status (expire_due leased now c) = ''expired''"
    by metis+
qed

lemma expired_cycles: "fst (ExpireScanCycles leased now cycles) = map (expire_due leased now) cycles"
  by (simp add: ExpireScanCycles_def expire_due_def)

lemma expired_latest:
  assumes "latest_active cycles"
  shows "latest_active (map (expire_due leased now) cycles)"
proof -
  have "\<forall>c \<in> set cycles. cycle_ok c" "\<forall>c \<in> set (butlast cycles). \<not> active c"
    using assms by (simp_all add: latest_active_def list_all_iff)
  then have "\<forall>c \<in> set cycles. cycle_ok (expire_due leased now c)" "\<forall>c \<in> set (butlast cycles). \<not> active (expire_due leased now c)"
    using expire_due_facts(1,2) by blast+
  moreover have "butlast (map (expire_due leased now) cycles) = map (expire_due leased now) (butlast cycles)" by (simp add: map_butlast)
  ultimately show ?thesis by (simp add: latest_active_def list_all_iff)
qed

lemma latest_cases:
  assumes "latest_active cycles"
  obtains "\<forall>c \<in> set cycles. \<not> active c" "GetActiveScanCycle cycles = None"
  | c where "GetActiveScanCycle cycles = Some c" "active c" "cycle_ok c" "c = last cycles" "cycles \<noteq> []"
      "\<forall>d \<in> set (butlast cycles). \<not> active d"
proof (cases "cycles = [] \<or> \<not> active (last cycles)")
  case True
  then have "\<forall>c \<in> set cycles. \<not> active c" using assms
    by (cases cycles rule: rev_cases) (auto simp: latest_active_def list_all_iff)
  moreover from this have "GetActiveScanCycle cycles = None" by (simp add: GetActiveScanCycle_def find_None_iff)
  ultimately show thesis by (rule that(1))
next
  case False
  then show thesis using assms by (cases cycles rule: rev_cases) (auto simp: latest_active_def list_all_iff GetActiveScanCycle_def intro: that(2))
qed

lemma inactive_not_running: "\<not> active c \<Longrightarrow> cy_status c \<noteq> ''running''"
  by (auto simp: active_def)

section \<open>Before the attempt\<close>

lemma find_later: "find P xs = None \<Longrightarrow> find P (xs @ ys) = find P ys"
  by (induction xs) (auto split: if_splits)

text \<open>When an expired cycle is reported, the job has no active cycle.\<close>

lemma reported_inactive:
  assumes "latest_active cycles" "distinct (map cy_id cycles)"
    and "expired_to_report h (GetActiveScanCycle cycles) (map (expire_due leased now) cycles) = Some c"
  shows "\<forall>d \<in> set (map (expire_due leased now) cycles). \<not> active d"
  using expired_latest [OF assms(1), of leased now]
proof (cases rule: latest_cases)
  case (2 d)
  let ?cs = "map (expire_due leased now) cycles"
  from 2 have last: "GetLatestScanCycle ?cs = Some d" "cycles \<noteq> []" by (auto simp: GetLatestScanCycle_def)
  have d: "d = expire_due leased now (last cycles)" using 2(4) last(2) by (simp add: last_map)
  then have "active (last cycles)" using 2(2) expire_due_facts(2) by blast
  from assms(1) have "GetActiveScanCycle cycles = Some (last cycles)"
    by (cases rule: latest_cases) (use \<open>active (last cycles)\<close> last(2) in auto)
  moreover have "GetScanCycle (cy_id (last cycles)) ?cs = Some d"
  proof -
    obtain old where "cycles = old @ [last cycles]" using last(2) by (metis append_butlast_last_id)
    then have "\<forall>x \<in> set old. cy_id x \<noteq> cy_id (last cycles)" using assms(2)
      by (metis (no_types, lifting) distinct_append image_eqI list.set_map map_append disjoint_iff list.map(2) list.set_intros(1))
    then have "find (\<lambda>c. cy_id c = cy_id (last cycles)) (map (expire_due leased now) old) = None"
      by (auto simp: find_None_iff expire_due_facts(3))
    then have "find (\<lambda>c. cy_id c = cy_id (last cycles)) (map (expire_due leased now) old @ [d]) = Some d"
      by (simp add: find_later d expire_due_facts(3))
    moreover have "?cs = map (expire_due leased now) old @ [d]"
      unfolding d using arg_cong [OF \<open>cycles = old @ [last cycles]\<close>, of "map (expire_due leased now)"] by simp
    ultimately show ?thesis by (simp add: GetScanCycle_def)
  qed
  ultimately show ?thesis using assms(3) last(1) active_cases [OF 2(2)] by (simp add: expired_to_report_def)
qed simp

text \<open>Whatever is left of a completed cycle, none of the job's cycles becomes active.\<close>

lemma leftover_inactive:
  assumes "\<forall>c \<in> set cycles. \<not> active c" "leftover_cycle h baselineEpoch now cycles = (found, cycles1)"
  shows "\<forall>c \<in> set cycles1. \<not> active c"
proof -
  have put: "\<forall>d \<in> set (put_cycle c' cycles). \<not> active d" if "cycle_step c c'" "\<not> active c" for c c'
    using step_status [OF that(1)] that(2) assms(1) by (auto simp: put_cycle_def)
  show ?thesis
  proof (cases "GetLatestScanCycle cycles")
    case None
    then show ?thesis using assms by (simp add: leftover_cycle_def)
  next
    case (Some latest)
    then have "\<not> active latest" using assms(1) by (auto simp: GetLatestScanCycle_def split: if_splits)
    note discard = put [OF cycle_step.discard [of latest True "hi_promoted h (cy_id latest)" now] this]
      and give_up = put [OF cycle_step.give_up [of latest "hi_promoted h (cy_id latest)" "hi_failures h (cy_id latest)" now baselineEpoch
          scanCycleMaxFinalizationFailures] this]
    from assms Some discard give_up show ?thesis
      by (auto simp: leftover_cycle_def Let_def split: if_splits sum.splits bool.splits prod.splits)
  qed
qed

lemma planned_cycle_facts:
  assumes "plan_cycle ps planned ctxt shutdown uuid baselineEpoch now s = Inr c"
  shows "cycle_ok c \<and> active c"
proof -
  obtain cycle where "CreateScanCycle uuid now cycle = Inr c" "cy_completed_units cycle = 0" "cy_completed_probes cycle = 0"
    using assms unfolding plan_cycle_def by (auto simp: Let_def split: sum.splits prod.splits option.splits if_splits)
  from created_ok [OF this] show ?thesis by (simp add: active_def)
qed

section \<open>The promises\<close>

text \<open>The job's cycles, with what became of the one that was resumed.\<close>

lemma resume_ends:
  assumes "cycle_ok c" "active c" "list_all quiet turns" "\<forall>d \<in> set cycles. d = c \<or> \<not> active d"
    and "start_cycle ps manual leased baselineEpoch now start turns c s = (c', s', r)"
  shows "r = Stopped \<or> discard_refused r \<or> (\<forall>d \<in> set (put_cycle c' cycles). cy_status d \<noteq> ''running'')"
proof -
  have "cycle_reach c c'" and st: "cy_status c' \<noteq> ''running'' \<or> r = Stopped \<or> discard_refused r"
    using start_cycle_ends [OF assms(1-3), of ps manual leased baselineEpoch now start s] assms(5) by (auto simp: ends_def)
  then have "cy_id c' = cy_id c" by (simp add: reach_id)
  then have "\<forall>d \<in> set cycles. cy_id d = cy_id c' \<or> cy_status d \<noteq> ''running''" using assms(4) inactive_not_running by metis
  with st put_not_running show ?thesis by blast
qed

lemma run_ends:
  assumes "at_job_id ps \<noteq> []" "latest_active cycles" "distinct (map cy_id cycles)" "list_all quiet turns"
    and "runResumableAttempt ps h leased planned ctxt shutdown manual uuid baselineEpoch now start turns cycles s = (cycles', s', r)"
  shows "r = Stopped \<or> discard_refused r \<or> (\<forall>c \<in> set cycles'. cy_status c \<noteq> ''running'')"
proof -
  let ?cs = "map (expire_due leased now) cycles"
  let ?start = "\<lambda>c. start_cycle ps manual (leased (at_job_id ps)) baselineEpoch now start turns c s"
  note run = assms(5) [unfolded runResumableAttempt_def Let_def expired_cycles]
  show ?thesis
  proof (cases "expired_to_report h (GetActiveScanCycle cycles) ?cs")
    case (Some c)
    then have "cycles' = ?cs" using run assms(1) by simp
    then show ?thesis using reported_inactive [OF assms(2,3) Some] inactive_not_running by blast
  next
    case None
    from expired_latest [OF assms(2), of leased now] show ?thesis
    proof (cases rule: latest_cases)
      case (2 c)
      obtain c' s1 r1 where st: "?start c = (c', s1, r1)" by (cases "?start c") auto
      have "\<forall>d \<in> set ?cs. d = c \<or> \<not> active d"
        using 2(4-6) append_butlast_last_id [OF 2(5)] by (metis in_set_conv_decomp_last set_ConsD set_append UnE append_Nil empty_iff empty_set)
      from resume_ends [OF 2(3,2) assms(4) this st] show ?thesis using run assms(1) None 2(1) st by auto
    next
      case 1
      obtain found cycles1 where l: "leftover_cycle h baselineEpoch now ?cs = (found, cycles1)" by fastforce
      have quiet1: "\<forall>c \<in> set cycles1. \<not> active c" by (rule leftover_inactive [OF 1(1) l])
      then have not1: "\<forall>c \<in> set cycles1. cy_status c \<noteq> ''running''" using inactive_not_running by blast
      show ?thesis
      proof (cases "\<exists>c. found = Nothing \<and> plan_cycle ps planned ctxt shutdown uuid baselineEpoch now s = Inr c")
        case True
        then obtain c where c: "found = Nothing" "plan_cycle ps planned ctxt shutdown uuid baselineEpoch now s = Inr c" by blast
        obtain c' s1 r1 where st: "?start c = (c', s1, r1)" by (cases "?start c") auto
        note facts = planned_cycle_facts [OF c(2)]
        have "\<forall>d \<in> set (cycles1 @ [c]). d = c \<or> \<not> active d" using quiet1 by auto
        from resume_ends [OF _ _ assms(4) this st] facts show ?thesis using run assms(1) None 1(2) l c st by auto
      next
        case False
        then have "cycles' = cycles1" using run assms(1) None 1(2) l
          by (auto split: leftover.splits sum.splits)
        then show ?thesis using not1 by simp
      qed
    qed
  qed
qed

text \<open>
  C29: A run that returns leaves no cycle of its job running, unless the store refused to discard the
  leftover cycle of an older baseline. The job's cycles are well-formed and at most the latest is
  active before, as the store keeps them. Whatever the scanner returns and whenever it is interrupted, the job's cycles are all
  paused, stalled or ended afterwards, so the next trigger can resume or replace them. Meanwhile others
  may end the cycle, and do nothing else to it. When the process stops in the middle, the run does not
  return and leaves its cycle as it was.
\<close>

theorem run_leaves_nothing_running:
  assumes "at_job_id ps \<noteq> []" "latest_active cycles" "distinct (map cy_id cycles)" "list_all quiet turns"
    and "runResumableAttempt ps h leased planned ctxt shutdown manual uuid baselineEpoch now start turns cycles s = (cycles', s', r)"
  shows "r = Stopped \<or> discard_refused r \<or> (\<forall>c \<in> set cycles'. cy_status c \<noteq> ''running'')"
  by (rule run_ends [OF assms])


text \<open>The guards of an attempt let a cycle pass that has no discovery to enrich.\<close>

definition may_go :: "attempt_params \<Rightarrow> bool \<Rightarrow> int \<Rightarrow> int \<Rightarrow> int \<Rightarrow> scan_cycle \<Rightarrow> bool" where
  "may_go ps manual baselineEpoch now start c \<longleftrightarrow>
     active c \<and> \<not> (cy_status c = ''stalled'' \<and> \<not> manual) \<and> \<not> is_naabu (wp_job (cy_plan c)) \<and>
     list_all (\<lambda>u. wu_phase (cu_unit u) \<noteq> ''discovery'') (cy_units c) \<and> \<not> cycleResumeWindowElapsed c now \<and> \<not> window_elapsed start c \<and>
     cy_epoch c = baselineEpoch \<and> cy_config_hash c = at_security_hash ps \<and> check_budget ps c = None"

text \<open>
  C31: Undisturbed progress finishes a scan. For a cycle that is not of a Naabu job and has no discovery
  unit, whose turns so add no units: when the guards of the attempt pass, the scanner succeeds in every
  turn and the resume window stays open, an attempt, however the earlier ones were interrupted,
  returns a scan without an error when it has more turns than there are units left.
\<close>

theorem undisturbed_attempt_finishes:
  assumes "CreateScanCycle uuid clock cycle = Inr c0" "cy_completed_units cycle = 0" "cy_completed_probes cycle = 0"
    and "cycle_reach c0 c" "may_go ps manual baselineEpoch now start c" "list_all (succeeds c) turns"
    and "length (filter (\<lambda>u. cu_status u \<noteq> ''completed'') (cy_units c)) < length turns"
  shows "\<exists>c' s' snap. start_cycle ps manual leased baselineEpoch now start turns c s = (c', s', Handled snap None)"
proof -
  have "cycle_ok c" using cycle_reach_ok [OF assms(4)] created_ok [OF assms(1-3)] by blast
  then show ?thesis
    by (rule start_cycle_succeeds) (use assms(5-7) in \<open>simp_all add: may_go_def list_all_iff\<close>)
qed

section \<open>An example\<close>

definition example_params :: attempt_params where
  "example_params = \<lparr>at_text = (\<lambda>_. ''error''), at_job = example_plan_job, at_job_id = ''j1'', at_job_name = ''office'',
     at_security_hash = ''h'', at_legacy_hash = ''l'', at_execution_hash = ''x'', at_resume_window = 9, at_nmap_budget = 0,
     at_naabu_budget = 0, at_capacity = Some \<lparr>tc_max_probes = None, tc_max_naabu_probes = None, tc_high_cost = None\<rparr>, at_runtime = None\<rparr>"

definition example_history :: history where
  "example_history = \<lparr>hi_notified = (\<lambda>_. False), hi_promoted = (\<lambda>_. False), hi_failures = (\<lambda>_. 0)\<rparr>"

definition example_record :: attempt_scan where
  "example_record = \<lparr>as_status = [], as_error = [], as_resumable = False, as_interrupted = False, as_config_hash = ''h'', as_job_revision = 1,
     as_started = None, as_finished = None, as_cycle_id = [], as_cycle_attempt = 0, as_cycle_status = [], as_completed_probes = 0,
     as_total_probes = 0, as_completed_units = 0, as_total_units = 0, as_no_progress = 0, as_snapshot = empty_snapshot\<rparr>"

definition good_turn :: turn where
  "good_turn = \<lparr>tn_before = id, tn_claim = 3, tn_during = id, tn_fragment = empty_snapshot, tn_failure = None, tn_context = Live,
     tn_shutdown = False, tn_now = 4\<rparr>"

definition late_turn :: turn where
  "late_turn = good_turn\<lparr>tn_context := Exceeded\<rparr>"

lemma example_turns: "quiet good_turn" "quiet late_turn"
  by (simp_all add: quiet_def outside_def good_turn_def late_turn_def cycle_reach.here)

lemma example_ok: "cycle_ok example_start" "cy_status example_start = ''paused''" "active example_start"
  using created_ok [OF example_created example_empty] by (simp_all add: active_def)

theorem run_leaves_nothing_running_witness:
  "(case runResumableAttempt example_params example_history (\<lambda>_. True) (Inl DeadlineExceeded) Live False False ''c2'' 0 2 2
      [good_turn, late_turn] [example_start] example_record of
     (cycles, _, r) \<Rightarrow> r \<noteq> Stopped \<and> list_all (\<lambda>c. cy_status c \<noteq> ''running'') cycles)"
proof -
  let ?run = "runResumableAttempt example_params example_history (\<lambda>_. True) (Inl DeadlineExceeded) Live False False ''c2'' 0 2 2
      [good_turn, late_turn] [example_start] example_record"
  have r: "snd (snd ?run) = Handled empty_snapshot (Some (ScannerError DeadlineExceeded))" by code_simp
  obtain cycles s' r' where run: "?run = (cycles, s', r')" by (cases ?run) auto
  have r': "r' = Handled empty_snapshot (Some (ScannerError DeadlineExceeded))" using r unfolding run by simp
  have "latest_active [example_start]" using example_ok by (simp add: latest_active_def)
  then have "r' = Stopped \<or> discard_refused r' \<or> (\<forall>c \<in> set cycles. cy_status c \<noteq> ''running'')"
    by (intro run_leaves_nothing_running [OF _ _ _ _ run]) (simp_all add: example_params_def example_turns)
  then show ?thesis unfolding run r' by (simp add: discard_refused_def list_all_iff)
qed


theorem undisturbed_attempt_finishes_witness:
  "\<exists>c' s' snap. start_cycle example_params False True 0 2 2 [good_turn, good_turn, good_turn] example_start example_record =
     (c', s', Handled snap None)"
proof -
  have "may_go example_params False 0 2 2 example_start \<and> length (filter (\<lambda>u. cu_status u \<noteq> ''completed'') (cy_units example_start)) < 3 \<and>
      (case cy_expires example_start of None \<Rightarrow> True | Some e \<Rightarrow> tn_claim good_turn < e)" (is "?go \<and> ?few \<and> ?open")
    by code_simp
  moreover have "tn_before good_turn = id" "tn_during good_turn = id" "scan_error good_turn = None" by (simp_all add: good_turn_def scan_error_def)
  ultimately have go: ?go and few: ?few and succ: "succeeds example_start good_turn" unfolding succeeds_def by blast+
  have "list_all (succeeds example_start) [good_turn, good_turn, good_turn]" using succ by simp
  then show ?thesis
    by (rule undisturbed_attempt_finishes [OF example_created example_empty cycle_reach.here go]) (use few in simp)
qed

end
