(* ===== verification/Outbox.thy ===== *)
theory Outbox
  imports Prelude
begin

text \<open>
  \<open>internal/store/delivery.go\<close>, with the delivery side of \<open>planned_change_window.go\<close>: the outbox of
  notifications. A row is claimed by a worker for a while, begun, and then recorded as sent, to be
  retried, deferred, or dropped; planned change windows hold change alerts back.

  A time is a number of nanoseconds; the empty text of a time column is \<open>None\<close>. SQLite compares
  the texts of times, which order them as the times do but for the fraction of a second in texts of
  different precision. A failing database ends an operation without a change and is not a value of
  the model, nor are the log of events that a window keeps for its summary, the counters of the
  deployment alert, and the fingerprints of errors.
\<close>

section \<open>Rows and their surroundings\<close>

definition minute :: int where "minute = 60 * 10 ^ 9"

definition deliveryClaimLease :: int where "deliveryClaimLease = 30 * minute"
definition deliveryMaxAttempts :: int where "deliveryMaxAttempts = 15"
definition deliveryMaxDeferrals :: int where "deliveryMaxDeferrals = 8"
definition deliveryInitialDelay :: int where "deliveryInitialDelay = 2 * minute"
definition deliveryMaxDelay :: int where "deliveryMaxDelay = 12 * 60 * minute"
definition deliveryLockedDelay :: int where "deliveryLockedDelay = 60 * minute"
definition deliveryMaintenanceBatch :: nat where "deliveryMaintenanceBatch = 256"
definition ChangeWindowSummaryDestinationGrace :: int where "ChangeWindowSummaryDestinationGrace = 60 * minute"

record delivery =
  ob_id :: int
  ob_destination :: string
  ob_payload :: string
  ob_attempts :: int
  ob_next_at :: int
  ob_sent_at :: "int option"
  ob_last_error :: string
  ob_claim_token :: string
  ob_claim_until :: "int option"
  ob_deferrals :: int
  ob_terminal_at :: "int option"
  ob_tenant :: "string option"
  ob_event_type :: string
  ob_event_job :: string
  ob_window :: string
  ob_started :: "int option"
  ob_coalesce_after :: bool
  ob_coalesced :: "int option"

record change_window =
  cw_id :: string
  cw_job :: string
  cw_start :: int
  cw_end :: int
  cw_closed :: "int option"

text \<open>What the other tables say, and whether a payload decodes as an event.\<close>

record outbox_env =
  oe_windows :: "change_window list"
  oe_tenant_of :: "string \<Rightarrow> string option"
  oe_active :: "string \<Rightarrow> bool"
  oe_purging :: "string \<Rightarrow> string \<Rightarrow> bool"
  oe_job_purged :: "string \<Rightarrow> bool"
  oe_decodes :: "string \<Rightarrow> bool"

datatype store_error =
    ErrDeliveryClaimLost
  | ErrDeliveryHeld
  | ErrDeliveryWindowHeld
  | MissingLinkedWindow int
  | ErrNotFound
  | NoSuchDelivery

text \<open>The errors of a send, which the store tells apart with \<open>errors.Is\<close>.\<close>

datatype delivery_error =
    SendCanceled
  | SendDeadline
  | ErrDeliveryDestinationLocked
  | ErrDeliveryDestinationMissing
  | ErrDeliveryDestinationExcluded
  | ErrDeliveryProviderPanic
  | ErrDeliveryWorkerPanic
  | ErrDeliveryPayloadInvalid
  | ErrDeliveryProviderTimeout
  | ErrDeliveryIndeterminate
  | ErrDeliveryProvider
  | OtherSendError

definition deliveryErrorCode :: "delivery_error option \<Rightarrow> string" where
  "deliveryErrorCode err = (case err of
       None \<Rightarrow> []
     | Some SendCanceled \<Rightarrow> ''canceled''
     | Some SendDeadline \<Rightarrow> ''timeout''
     | Some ErrDeliveryDestinationLocked \<Rightarrow> ''destination_locked''
     | Some ErrDeliveryDestinationMissing \<Rightarrow> ''destination_missing''
     | Some ErrDeliveryDestinationExcluded \<Rightarrow> ''destination_excluded''
     | Some ErrDeliveryProviderPanic \<Rightarrow> ''provider_panic''
     | Some ErrDeliveryWorkerPanic \<Rightarrow> ''worker_panic''
     | Some ErrDeliveryPayloadInvalid \<Rightarrow> ''payload_invalid''
     | Some ErrDeliveryProviderTimeout \<Rightarrow> ''provider_timeout''
     | Some ErrDeliveryIndeterminate \<Rightarrow> ''delivery_indeterminate''
     | Some _ \<Rightarrow> ''delivery_failed'')"

definition changeWindowEventType :: "string \<Rightarrow> bool" where
  "changeWindowEventType t = (t \<in> set [''changes-detected'', ''changes-reminder'', ''changes-recovered''])"

section \<open>The database\<close>

record delivery_health =
  dh_terminal_failures :: int
  dh_last_success :: "int option"
  dh_last_failure :: "int option"
  dh_last_terminal :: "int option"
  dh_last_error :: string

text \<open>A terminal event: the delivery that was dropped, why, and the code of the error.\<close>

record dropped =
  dr_id :: int
  dr_reason :: string
  dr_code :: string

record outbox =
  ox_rows :: "delivery list"
  ox_next_id :: int
  ox_health :: "(string, delivery_health) gomap"
  ox_dropped :: "dropped list"

definition deliveryIdentity :: "string \<Rightarrow> string" where
  "deliveryIdentity selector =
     (if hasPrefix selector ''managed:'' then
        (let parts = splitOn CHR '':'' selector in
         if length parts \<ge> 2 \<and> parts ! 1 \<noteq> [] then ''managed:'' @ parts ! 1 else selector)
      else selector)"

definition no_health :: delivery_health where
  "no_health = \<lparr>dh_terminal_failures = 0, dh_last_success = None, dh_last_failure = None, dh_last_terminal = None, dh_last_error = []\<rparr>"

definition on_health :: "string \<Rightarrow> (delivery_health \<Rightarrow> delivery_health) \<Rightarrow> outbox \<Rightarrow> outbox" where
  "on_health selector f ox =
     (let i = deliveryIdentity selector in
      if i = [] then ox else ox\<lparr>ox_health := mput i (f (case mget (ox_health ox) i of None \<Rightarrow> no_health | Some h \<Rightarrow> h)) (ox_health ox)\<rparr>)"

definition ensureDeliveryHealth :: "string \<Rightarrow> outbox \<Rightarrow> outbox" where
  "ensureDeliveryHealth selector = on_health selector id"

definition recordDeliverySuccess :: "string \<Rightarrow> int \<Rightarrow> outbox \<Rightarrow> outbox" where
  "recordDeliverySuccess selector now = on_health selector (\<lambda>h. h\<lparr>dh_last_success := Some now, dh_last_error := []\<rparr>)"

definition recordDeliveryFailure :: "string \<Rightarrow> delivery_error \<Rightarrow> bool \<Rightarrow> int \<Rightarrow> outbox \<Rightarrow> outbox" where
  "recordDeliveryFailure selector err terminal now = on_health selector (\<lambda>h.
     h\<lparr>dh_terminal_failures := dh_terminal_failures h + (if terminal then 1 else 0), dh_last_failure := Some now,
       dh_last_terminal := (if terminal then Some now else dh_last_terminal h), dh_last_error := deliveryErrorCode (Some err)\<rparr>)"

definition insertTerminalDeliveryEvent :: "int \<Rightarrow> delivery_error \<Rightarrow> string \<Rightarrow> outbox \<Rightarrow> outbox" where
  "insertTerminalDeliveryEvent i err reason ox =
     ox\<lparr>ox_dropped := ox_dropped ox @ [\<lparr>dr_id = i, dr_reason = reason, dr_code = deliveryErrorCode (Some err)\<rparr>]\<rparr>"

text \<open>\<open>UPDATE outbox\<close> of the rows that satisfy a condition, and of one row.\<close>

definition update_rows :: "(delivery \<Rightarrow> bool) \<Rightarrow> (delivery \<Rightarrow> delivery) \<Rightarrow> outbox \<Rightarrow> outbox" where
  "update_rows P f ox = ox\<lparr>ox_rows := map (\<lambda>r. if P r then f r else r) (ox_rows ox)\<rparr>"

definition update_id :: "int \<Rightarrow> (delivery \<Rightarrow> delivery) \<Rightarrow> outbox \<Rightarrow> outbox" where
  "update_id i = update_rows (\<lambda>r. ob_id r = i)"

definition unclaim :: "delivery \<Rightarrow> delivery" where
  "unclaim r = r\<lparr>ob_claim_token := [], ob_claim_until := None\<rparr>"

definition undelivered :: "delivery \<Rightarrow> bool" where
  "undelivered r = (ob_sent_at r = None \<and> ob_terminal_at r = None)"

text \<open>The row of a worker that still holds its claim.\<close>

definition claimed_row :: "int \<Rightarrow> string \<Rightarrow> outbox \<Rightarrow> delivery option" where
  "claimed_row i token ox = find (\<lambda>r. ob_id r = i \<and> undelivered r \<and> ob_claim_token r = token) (ox_rows ox)"

section \<open>Windows\<close>

text \<open>\<open>heldDeliverySQL\<close>, which is true of the rows that may be sent.\<close>

definition sendable :: "outbox_env \<Rightarrow> delivery \<Rightarrow> bool" where
  "sendable env r = (case ob_tenant r of None \<Rightarrow> True | Some t \<Rightarrow> oe_active env t \<and> \<not> oe_purging env t (ob_payload r))"

text \<open>\<open>changeWindowDeliverySQL\<close>.\<close>

definition outside_window :: "outbox_env \<Rightarrow> int \<Rightarrow> delivery \<Rightarrow> bool" where
  "outside_window env now r =
     ((ob_window r = [] \<or> \<not> (\<exists>q \<in> set (oe_windows env). cw_id q = ob_window r \<and> cw_closed q = None \<and> cw_start q \<le> now \<and>
         cw_end q > now - ChangeWindowSummaryDestinationGrace)) \<and>
      ob_coalesced r = None \<and> \<not> ob_coalesce_after r \<and> ob_started r = None)"

definition window_of_tenant :: "outbox_env \<Rightarrow> string \<Rightarrow> change_window \<Rightarrow> bool" where
  "window_of_tenant env tenant q = (oe_tenant_of env (cw_job q) = Some tenant)"

definition tenant_text :: "delivery \<Rightarrow> string" where
  "tenant_text r = (case ob_tenant r of None \<Rightarrow> [] | Some t \<Rightarrow> t)"

text \<open>The window that a row is linked to.\<close>

definition linked_window :: "outbox_env \<Rightarrow> string \<Rightarrow> string \<Rightarrow> change_window option" where
  "linked_window env w tenant = find (\<lambda>q. cw_id q = w \<and> window_of_tenant env tenant q) (oe_windows env)"

text \<open>\<open>ORDER BY start_at, id LIMIT 1\<close>.\<close>

definition first_window :: "change_window list \<Rightarrow> change_window option" where
  "first_window qs = (case sort_key (\<lambda>q. (cw_start q, cw_id q)) qs of [] \<Rightarrow> None | q # _ \<Rightarrow> Some q)"

definition windowForQueuedChange :: "outbox_env \<Rightarrow> string \<Rightarrow> string \<Rightarrow> int \<Rightarrow> string" where
  "windowForQueuedChange env job tenant now =
     (case first_window (filter (\<lambda>q. window_of_tenant env tenant q \<and> cw_job q = job \<and> cw_closed q = None \<and> cw_end q > now) (oe_windows env)) of
        None \<Rightarrow> []
      | Some q \<Rightarrow> (if cw_start q \<le> now \<and> now < cw_end q \<or> now < cw_start q then cw_id q else []))"

definition active_window :: "outbox_env \<Rightarrow> string \<Rightarrow> string \<Rightarrow> int \<Rightarrow> change_window option" where
  "active_window env job tenant now =
     first_window (filter (\<lambda>q. cw_job q = job \<and> window_of_tenant env tenant q \<and> cw_closed q = None \<and> cw_start q \<le> now \<and> cw_end q > now) (oe_windows env))"

section \<open>Queueing\<close>

text \<open>
  The end of \<open>QueueEvent\<close>, for a destination that is resolved: the event's tenant, type and job, and
  its payload. \<open>INSERT OR IGNORE\<close> ignores a payload that the destination has already.
\<close>

definition queued_row :: "int \<Rightarrow> string \<Rightarrow> string \<Rightarrow> int \<Rightarrow> string option \<Rightarrow> string \<Rightarrow> string \<Rightarrow> string \<Rightarrow> delivery" where
  "queued_row i destination payload now tenant eventType job w =
     \<lparr>ob_id = i, ob_destination = destination, ob_payload = payload, ob_attempts = 0, ob_next_at = now, ob_sent_at = None,
       ob_last_error = [], ob_claim_token = [], ob_claim_until = None, ob_deferrals = 0, ob_terminal_at = None, ob_tenant = tenant,
       ob_event_type = eventType, ob_event_job = job, ob_window = w, ob_started = None, ob_coalesce_after = False, ob_coalesced = None\<rparr>"

definition QueueEvent :: "outbox_env \<Rightarrow> int \<Rightarrow> string \<Rightarrow> string option \<Rightarrow> string \<Rightarrow> string \<Rightarrow> string \<Rightarrow> outbox \<Rightarrow> (store_error + unit) \<times> outbox" where
  "QueueEvent env now destination tenant eventType job payload ox =
     (let change = changeWindowEventType eventType \<and> job \<noteq> [] in
      if job \<noteq> [] \<and> oe_job_purged env job then (Inl ErrNotFound, ox)
      else if change \<and> oe_tenant_of env job = None then (Inl ErrNotFound, ox)
      else
        let w = (if change then windowForQueuedChange env job (the (oe_tenant_of env job)) now else []) in
        if \<exists>r \<in> set (ox_rows ox). ob_destination r = destination \<and> ob_payload r = payload then (Inr (), ox)
        else (Inr (), ensureDeliveryHealth destination (ox\<lparr>
          ox_rows := ox_rows ox @ [queued_row (ox_next_id ox) destination payload now tenant eventType job w],
          ox_next_id := ox_next_id ox + 1\<rparr>)))"

section \<open>Claiming\<close>

definition free_claim :: "int \<Rightarrow> delivery \<Rightarrow> bool" where
  "free_claim now r = (ob_claim_token r = [] \<or> (case ob_claim_until r of None \<Rightarrow> True | Some u \<Rightarrow> u \<le> now))"

definition due :: "outbox_env \<Rightarrow> int \<Rightarrow> string list \<Rightarrow> delivery \<Rightarrow> bool" where
  "due env now excluded r =
     (undelivered r \<and> ob_attempts r < deliveryMaxAttempts \<and> ob_next_at r \<le> now \<and> free_claim now r \<and> sendable env r \<and>
      outside_window env now r \<and> ob_destination r \<notin> set (filter (\<lambda>d. trimSpace d \<noteq> []) excluded))"

text \<open>The identifiers of the first rows that satisfy a condition.\<close>

definition first_ids :: "nat \<Rightarrow> (delivery \<Rightarrow> bool) \<Rightarrow> outbox \<Rightarrow> int list" where
  "first_ids limit P ox = take limit (sort (map ob_id (filter P (ox_rows ox))))"

definition failInvalidDeliveryPayload :: "int \<Rightarrow> int \<Rightarrow> string \<Rightarrow> outbox \<Rightarrow> store_error option \<times> outbox" where
  "failInvalidDeliveryPayload now i token ox =
     (if token = [] then (Some ErrDeliveryClaimLost, ox)
      else case claimed_row i token ox of
          None \<Rightarrow> (Some ErrDeliveryClaimLost, ox)
        | Some r \<Rightarrow>
            (None, insertTerminalDeliveryEvent i ErrDeliveryPayloadInvalid ''invalid payload''
              (recordDeliveryFailure (ob_destination r) ErrDeliveryPayloadInvalid True now
                (update_id i (\<lambda>r. unclaim (r\<lparr>ob_terminal_at := Some now, ob_last_error := ''payload_invalid''\<rparr>)) ox))))"

definition lease :: "int \<Rightarrow> string \<Rightarrow> delivery \<Rightarrow> delivery" where
  "lease now owner r = r\<lparr>ob_claim_token := owner, ob_claim_until := Some (now + deliveryClaimLease)\<rparr>"

text \<open>
  The claimed rows with an event are returned; the others are dropped, one transaction each. \<open>uuid\<close>
  is the fresh token of an unnamed owner.
\<close>

definition claimDueDeliveries ::
  "outbox_env \<Rightarrow> int \<Rightarrow> int \<Rightarrow> string \<Rightarrow> string \<Rightarrow> string list \<Rightarrow> outbox \<Rightarrow> delivery list \<times> outbox" where
  "claimDueDeliveries env now limit uuid owner0 excluded ox =
     (if limit < 1 then ([], ox)
      else
        let owner = (if owner0 = [] then uuid else owner0);
            ids = first_ids (nat limit) (due env now excluded) ox;
            leased = update_rows (\<lambda>r. ob_id r \<in> set ids) (lease now owner) ox;
            claimed = filter (\<lambda>r. ob_id r \<in> set ids) (ox_rows leased)
        in (filter (\<lambda>r. oe_decodes env (ob_payload r)) claimed,
            fold (\<lambda>r ox. snd (failInvalidDeliveryPayload now (ob_id r) owner ox)) (filter (\<lambda>r. \<not> oe_decodes env (ob_payload r)) claimed) leased))"

section \<open>Destinations that are locked\<close>

definition trimmed_destinations :: "string list \<Rightarrow> string list" where
  "trimmed_destinations ds = filter (\<lambda>d. d \<noteq> []) (map trimSpace ds)"

definition locked_row :: "int \<Rightarrow> int \<Rightarrow> bool \<Rightarrow> delivery \<Rightarrow> delivery" where
  "locked_row now deferrals terminal r = unclaim (r\<lparr>ob_deferrals := deferrals, ob_next_at := now + deliveryLockedDelay,
     ob_last_error := deliveryErrorCode (Some ErrDeliveryDestinationLocked), ob_terminal_at := (if terminal then Some now else None)\<rparr>)"

definition age_row :: "int \<Rightarrow> int \<Rightarrow> outbox \<Rightarrow> outbox" where
  "age_row now i ox =
     (case find (\<lambda>r. ob_id r = i \<and> undelivered r \<and> ob_attempts r < deliveryMaxAttempts \<and> free_claim now r) (ox_rows ox) of
        None \<Rightarrow> ox
      | Some r \<Rightarrow>
          let deferrals = ob_deferrals r + 1; terminal = deferrals \<ge> deliveryMaxDeferrals;
              aged = recordDeliveryFailure (ob_destination r) ErrDeliveryDestinationLocked terminal now
                (update_id i (locked_row now deferrals terminal) ox)
          in if terminal then insertTerminalDeliveryEvent i ErrDeliveryDestinationLocked ''locked destination grace period'' aged else aged)"

definition AgeLockedDeliveries :: "outbox_env \<Rightarrow> int \<Rightarrow> string list \<Rightarrow> outbox \<Rightarrow> outbox" where
  "AgeLockedDeliveries env now destinations ox =
     fold (age_row now) (first_ids deliveryMaintenanceBatch (\<lambda>r. undelivered r \<and> ob_next_at r \<le> now \<and> ob_attempts r < deliveryMaxAttempts \<and>
       ob_deferrals r < deliveryMaxDeferrals \<and> free_claim now r \<and> sendable env r \<and> outside_window env now r \<and>
       ob_destination r \<in> set (trimmed_destinations destinations)) ox) ox"

definition WakeLockedDeliveries :: "int \<Rightarrow> string list \<Rightarrow> outbox \<Rightarrow> outbox" where
  "WakeLockedDeliveries now destinations =
     update_rows (\<lambda>r. undelivered r \<and> ob_last_error r = ''destination_locked'' \<and> free_claim now r \<and>
       ob_destination r \<in> set (trimmed_destinations destinations)) (\<lambda>r. r\<lparr>ob_next_at := now\<rparr>)"

section \<open>Recovery of claims\<close>

text \<open>
  A delivery was begun and its worker is gone. A change alert whose window was closed, or whose row
  is marked, is coalesced; in an open window its outcome stays unknown until the window closes.
\<close>

definition coalesces :: "change_window option \<Rightarrow> int \<Rightarrow> delivery \<Rightarrow> bool" where
  "coalesces link now r =
     (changeWindowEventType (ob_event_type r) \<and>
      (case link of
         None \<Rightarrow> ob_coalesce_after r
       | Some q \<Rightarrow>
           if cw_closed q \<noteq> None then True
           else if now < cw_start q then ob_coalesce_after r
           else if \<not> now < cw_end q then ob_coalesce_after r
           else False))"

definition keeps_marker :: "change_window option \<Rightarrow> int \<Rightarrow> delivery \<Rightarrow> bool" where
  "keeps_marker link now r =
     (changeWindowEventType (ob_event_type r) \<and>
      (case link of None \<Rightarrow> False | Some q \<Rightarrow> cw_closed q = None \<and> \<not> now < cw_start q \<and> now < cw_end q))"

definition recovered :: "change_window option \<Rightarrow> int \<Rightarrow> delivery \<Rightarrow> delivery" where
  "recovered link now r =
     (let coalesce = coalesces link now r in
      (unclaim r)\<lparr>ob_started := (if keeps_marker link now r then ob_started r else None),
        ob_coalesced := (if coalesce \<and> ob_coalesced r = None then Some now else ob_coalesced r),
        ob_last_error := (if coalesce then [] else ob_last_error r),
        ob_coalesce_after := (\<not> coalesce \<and> ob_coalesce_after r)\<rparr>)"

definition recoverStartedDelivery :: "outbox_env \<Rightarrow> int \<Rightarrow> delivery \<Rightarrow> store_error + delivery" where
  "recoverStartedDelivery env now r =
     (if ob_window r = [] then Inr (recovered None now r)
      else case linked_window env (ob_window r) (tenant_text r) of
          None \<Rightarrow> Inl (MissingLinkedWindow (ob_id r))
        | Some q \<Rightarrow> Inr (recovered (Some q) now r))"

text \<open>An error ends the transaction: no row is recovered.\<close>

fun recover_all :: "outbox_env \<Rightarrow> int \<Rightarrow> delivery list \<Rightarrow> outbox \<Rightarrow> store_error + outbox" where
  "recover_all env now [] ox = Inr ox"
| "recover_all env now (r # rs) ox =
     (case recoverStartedDelivery env now r of
        Inl e \<Rightarrow> Inl e
      | Inr r' \<Rightarrow> recover_all env now rs (update_id (ob_id r) (\<lambda>_. r') ox))"

definition begun :: "delivery \<Rightarrow> bool" where
  "begun r = (undelivered r \<and> ob_coalesced r = None \<and> ob_started r \<noteq> None)"

text \<open>At the start of the daemon: all claims are void.\<close>

definition ReleaseDeliveryClaims :: "outbox_env \<Rightarrow> int \<Rightarrow> outbox \<Rightarrow> (store_error + int) \<times> outbox" where
  "ReleaseDeliveryClaims env now ox =
     (case recover_all env now (sort_key ob_id (filter begun (ox_rows ox))) ox of
        Inl e \<Rightarrow> (Inl e, ox)
      | Inr ox' \<Rightarrow>
          (Inr (int (length (filter (\<lambda>r. ob_sent_at r = None \<and> ob_claim_token r \<noteq> []) (ox_rows ox)))),
           update_rows (\<lambda>r. ob_sent_at r = None \<and> ob_claim_token r \<noteq> []) unclaim ox'))"

definition expiredDeliveryClaims :: "int \<Rightarrow> outbox \<Rightarrow> delivery list" where
  "expiredDeliveryClaims now ox =
     take deliveryMaintenanceBatch (sort_key ob_id (filter (\<lambda>r. begun r \<and> ob_claim_token r \<noteq> [] \<and>
       (case ob_claim_until r of None \<Rightarrow> False | Some u \<Rightarrow> u \<le> now)) (ox_rows ox)))"

definition RecoverExpiredDeliveryClaims :: "outbox_env \<Rightarrow> int \<Rightarrow> outbox \<Rightarrow> (store_error + int) \<times> outbox" where
  "RecoverExpiredDeliveryClaims env now ox =
     (case recover_all env now (expiredDeliveryClaims now ox) ox of
        Inl e \<Rightarrow> (Inl e, ox)
      | Inr ox' \<Rightarrow> (Inr (int (length (expiredDeliveryClaims now ox))), ox'))"

section \<open>The worker\<close>

definition ReleaseDeliveryClaim :: "int \<Rightarrow> int \<Rightarrow> string \<Rightarrow> int \<Rightarrow> outbox \<Rightarrow> store_error option \<times> outbox" where
  "ReleaseDeliveryClaim now i token delay ox =
     (if token = [] then (Some ErrDeliveryClaimLost, ox)
      else case claimed_row i token ox of
          None \<Rightarrow> (Some ErrDeliveryClaimLost, ox)
        | Some _ \<Rightarrow> (None, update_id i (\<lambda>r. unclaim (r\<lparr>ob_next_at := now + max 0 delay, ob_started := None\<rparr>)) ox))"

definition CheckDeliveryClaim :: "outbox_env \<Rightarrow> int \<Rightarrow> string \<Rightarrow> outbox \<Rightarrow> store_error option" where
  "CheckDeliveryClaim env i token ox =
     (if token = [] then Some ErrDeliveryClaimLost
      else case claimed_row i token ox of
          None \<Rightarrow> Some ErrDeliveryClaimLost
        | Some r \<Rightarrow> if sendable env r then None else Some ErrDeliveryHeld)"

text \<open>The last gate before the provider is called; \<open>None\<close> lets the worker call it.\<close>

definition hold_in_window :: "int \<Rightarrow> change_window \<Rightarrow> outbox \<Rightarrow> store_error option \<times> outbox" where
  "hold_in_window i q ox =
     (Some ErrDeliveryWindowHeld, update_id i (\<lambda>r. unclaim (r\<lparr>ob_window := cw_id q,
        ob_next_at := cw_end q + ChangeWindowSummaryDestinationGrace, ob_last_error := []\<rparr>)) ox)"

definition coalesce_held :: "int \<Rightarrow> int \<Rightarrow> outbox \<Rightarrow> store_error option \<times> outbox" where
  "coalesce_held now i ox =
     (Some ErrDeliveryWindowHeld, update_id i (\<lambda>r. unclaim (r\<lparr>ob_coalesced := (if ob_coalesced r = None then Some now else ob_coalesced r),
        ob_last_error := []\<rparr>)) ox)"

definition begin_attempt :: "int \<Rightarrow> int \<Rightarrow> outbox \<Rightarrow> store_error option \<times> outbox" where
  "begin_attempt now i ox = (None, update_id i (\<lambda>r. r\<lparr>ob_started := Some now\<rparr>) ox)"

text \<open>The gate of a change alert that is linked to a window, or to none.\<close>

definition window_gate :: "outbox_env \<Rightarrow> int \<Rightarrow> int \<Rightarrow> string \<Rightarrow> string \<Rightarrow> string \<Rightarrow> outbox \<Rightarrow> store_error option \<times> outbox" where
  "window_gate env now i job tenant w ox =
     (if w = [] then begin_attempt now i ox
      else case linked_window env w tenant of
          None \<Rightarrow> (Some (MissingLinkedWindow i), ox)
        | Some q \<Rightarrow>
            let active = (if cw_closed q = None \<and> (now < cw_start q \<or> \<not> now < cw_end q) then active_window env job tenant now else None) in
            if active \<noteq> None \<and> cw_id (the active) \<noteq> w then hold_in_window i (the active) ox
            else if cw_closed q = None \<and> \<not> now < cw_start q \<and> now < cw_end q + ChangeWindowSummaryDestinationGrace then hold_in_window i q ox
            else if cw_closed q \<noteq> None then coalesce_held now i ox
            else begin_attempt now i ox)"

definition BeginDeliveryAttempt :: "outbox_env \<Rightarrow> int \<Rightarrow> int \<Rightarrow> string \<Rightarrow> outbox \<Rightarrow> store_error option \<times> outbox" where
  "BeginDeliveryAttempt env now i token ox =
     (if token = [] then (Some ErrDeliveryClaimLost, ox)
      else case claimed_row i token ox of
          None \<Rightarrow> (Some ErrDeliveryClaimLost, ox)
        | Some r \<Rightarrow>
            let tenant = tenant_text r; job = ob_event_job r in
            if \<not> sendable env r then (Some ErrDeliveryHeld, update_id i (\<lambda>r. unclaim (r\<lparr>ob_last_error := []\<rparr>)) ox)
            else if ob_window r \<noteq> [] \<and> linked_window env (ob_window r) tenant = None then (Some (MissingLinkedWindow i), ox)
            else if \<not> changeWindowEventType (ob_event_type r) then (None, ox)
            else if ob_coalesced r \<noteq> None \<or> ob_coalesce_after r then coalesce_held now i ox
            else window_gate env now i job tenant (if ob_window r = [] \<and> job \<noteq> [] then windowForQueuedChange env job tenant now else ob_window r) ox)"

section \<open>Results\<close>

fun retry_doubling :: "nat \<Rightarrow> int \<Rightarrow> int" where
  "retry_doubling 0 delay = delay"
| "retry_doubling (Suc n) delay =
     (if delay \<ge> deliveryMaxDelay then delay
      else if delay > deliveryMaxDelay div 2 then deliveryMaxDelay
      else retry_doubling n (delay * 2))"

definition deliveryRetryDelay :: "int \<Rightarrow> int" where
  "deliveryRetryDelay attempts =
     (if attempts < 1 then deliveryInitialDelay else retry_doubling (nat (attempts - 1)) deliveryInitialDelay)"

text \<open>\<open>errors.Is(err, ErrDeliveryIndeterminate)\<close>, which a provider timeout also is.\<close>

definition is_indeterminate :: "delivery_error \<Rightarrow> bool" where
  "is_indeterminate err = (err = ErrDeliveryIndeterminate \<or> err = ErrDeliveryProviderTimeout)"

text \<open>A claim ends: the worker's marks go.\<close>

definition end_claim :: "delivery \<Rightarrow> delivery" where
  "end_claim r = (unclaim r)\<lparr>ob_started := None\<rparr>"

definition coalesce_claim :: "int \<Rightarrow> delivery \<Rightarrow> delivery" where
  "coalesce_claim now r = (end_claim r)\<lparr>ob_coalesced := Some now, ob_last_error := [], ob_coalesce_after := False\<rparr>"

definition defer_row :: "int \<Rightarrow> int \<Rightarrow> delivery_error \<Rightarrow> bool \<Rightarrow> delivery \<Rightarrow> delivery" where
  "defer_row now delay err terminal r = (end_claim r)\<lparr>ob_deferrals := ob_deferrals r + 1, ob_next_at := now + delay,
     ob_last_error := deliveryErrorCode (Some err), ob_terminal_at := (if terminal then Some now else None)\<rparr>"

text \<open>The row is deferred, and dropped when that happens too often.\<close>

definition defer_claim :: "int \<Rightarrow> delivery \<Rightarrow> delivery_error \<Rightarrow> int \<Rightarrow> string \<Rightarrow> outbox \<Rightarrow> outbox" where
  "defer_claim now r err delay reason ox =
     (let terminal = ob_deferrals r + 1 \<ge> deliveryMaxDeferrals;
          deferred = recordDeliveryFailure (ob_destination r) err terminal now (update_id (ob_id r) (defer_row now delay err terminal) ox)
      in if terminal then insertTerminalDeliveryEvent (ob_id r) err reason deferred else deferred)"

definition fail_row :: "int \<Rightarrow> int \<Rightarrow> delivery_error \<Rightarrow> bool \<Rightarrow> delivery \<Rightarrow> delivery" where
  "fail_row now delay err terminal r = (end_claim r)\<lparr>ob_attempts := ob_attempts r + 1, ob_next_at := now + delay,
     ob_last_error := deliveryErrorCode (Some err), ob_terminal_at := (if terminal then Some now else None)\<rparr>"

definition failure_delay :: "int \<Rightarrow> delivery_error \<Rightarrow> int" where
  "failure_delay attempts err =
     (let delay = deliveryRetryDelay attempts
      in if err = ErrDeliveryProviderTimeout \<and> delay < deliveryClaimLease then deliveryClaimLease else delay)"

definition fail_claim :: "int \<Rightarrow> delivery \<Rightarrow> delivery_error \<Rightarrow> outbox \<Rightarrow> outbox" where
  "fail_claim now r err ox =
     (let attempts = ob_attempts r + 1; terminal = attempts \<ge> deliveryMaxAttempts;
          recorded = recordDeliveryFailure (ob_destination r) err terminal now
            (update_id (ob_id r) (fail_row now (failure_delay attempts err) err terminal) ox)
      in if terminal then insertTerminalDeliveryEvent (ob_id r) err ''retry limit'' recorded else recorded)"

definition DeliveryResultClaim ::
  "outbox_env \<Rightarrow> int \<Rightarrow> int \<Rightarrow> string \<Rightarrow> delivery_error option \<Rightarrow> outbox \<Rightarrow> store_error option \<times> outbox" where
  "DeliveryResultClaim env now i token sendErr ox =
     (if token = [] then (Some ErrDeliveryClaimLost, ox)
      else case claimed_row i token ox of
          None \<Rightarrow> (Some ErrDeliveryClaimLost, ox)
        | Some r \<Rightarrow>
            if ob_window r \<noteq> [] \<and> linked_window env (ob_window r) (tenant_text r) = None then (Some (MissingLinkedWindow i), ox)
            else if changeWindowEventType (ob_event_type r) \<and> ob_coalesce_after r
            then (if sendErr = None
              then (None, recordDeliverySuccess (ob_destination r) now
                (update_id i (\<lambda>r. (end_claim r)\<lparr>ob_sent_at := Some now, ob_last_error := [], ob_coalesce_after := False\<rparr>) ox))
              else (None, update_id i (coalesce_claim now) ox))
            else (case sendErr of
                None \<Rightarrow> (None, recordDeliverySuccess (ob_destination r) now
                  (update_id i (\<lambda>r. (end_claim r)\<lparr>ob_sent_at := Some now, ob_last_error := []\<rparr>) ox))
              | Some err \<Rightarrow>
                  if is_indeterminate err \<and> err \<noteq> ErrDeliveryProviderTimeout
                  then (None, defer_claim now r err deliveryInitialDelay ''indeterminate deferral limit'' ox)
                  else (None, fail_claim now r err ox)))"

definition DeliveryResult :: "outbox_env \<Rightarrow> int \<Rightarrow> int \<Rightarrow> delivery_error option \<Rightarrow> outbox \<Rightarrow> store_error option \<times> outbox" where
  "DeliveryResult env now i sendErr ox =
     (case find (\<lambda>r. ob_id r = i) (ox_rows ox) of
        None \<Rightarrow> (Some NoSuchDelivery, ox)
      | Some r \<Rightarrow> DeliveryResultClaim env now i (ob_claim_token r) sendErr ox)"

definition DeferDeliveryWithError :: "int \<Rightarrow> int \<Rightarrow> string \<Rightarrow> delivery_error \<Rightarrow> int \<Rightarrow> outbox \<Rightarrow> store_error option \<times> outbox" where
  "DeferDeliveryWithError now i token reason delay ox =
     (if token = [] then (Some ErrDeliveryClaimLost, ox)
      else case claimed_row i token ox of
          None \<Rightarrow> (Some ErrDeliveryClaimLost, ox)
        | Some r \<Rightarrow>
            if changeWindowEventType (ob_event_type r) \<and> ob_coalesce_after r then (None, update_id i (coalesce_claim now) ox)
            else (None, defer_claim now r reason (max minute delay) ''deferral limit'' ox))"

section \<open>Planned change windows\<close>

definition live :: "delivery \<Rightarrow> bool" where
  "live r = (undelivered r \<and> ob_coalesced r = None)"

text \<open>\<open>CreateChangeWindow\<close>: pending change alerts of the job join the window.\<close>

definition assign_window :: "outbox_env \<Rightarrow> string \<Rightarrow> string \<Rightarrow> int \<Rightarrow> string \<Rightarrow> outbox \<Rightarrow> outbox" where
  "assign_window env job tenant start w =
     update_rows (\<lambda>r. ob_event_job r = job \<and> ob_tenant r = Some tenant \<and> changeWindowEventType (ob_event_type r) \<and> live r \<and>
       (ob_window r = [] \<or> ob_started r = None \<and>
         (\<exists>q \<in> set (oe_windows env). cw_id q = ob_window r \<and> cw_job q = job \<and> cw_closed q = None \<and> cw_start q > start \<and> window_of_tenant env tenant q)))
       (\<lambda>r. r\<lparr>ob_window := w\<rparr>)"

text \<open>The next open window of the row's job, or none.\<close>

definition next_window :: "outbox_env \<Rightarrow> int \<Rightarrow> delivery \<Rightarrow> string" where
  "next_window env now r =
     (case first_window (filter (\<lambda>q. cw_job q = ob_event_job r \<and> cw_closed q = None \<and> cw_end q > now \<and>
         oe_tenant_of env (cw_job q) \<noteq> None \<and> oe_tenant_of env (cw_job q) = ob_tenant r) (oe_windows env)) of
        None \<Rightarrow> [] | Some q \<Rightarrow> cw_id q)"

text \<open>A window that is cancelled before its start. \<open>env\<close> has the window closed already.\<close>

definition cancel_window :: "outbox_env \<Rightarrow> int \<Rightarrow> string \<Rightarrow> string \<Rightarrow> outbox \<Rightarrow> outbox" where
  "cancel_window env now w tenant =
     update_rows (\<lambda>r. ob_window r = w \<and> ob_tenant r = Some tenant \<and> live r) (\<lambda>r. r\<lparr>ob_window := next_window env now r\<rparr>)"

text \<open>
  The outbox side of \<open>closeChangeWindowTx\<close>: attempts without an owner, then alerts that go on
  without a summary, then pending rows, then rows in flight.
\<close>

definition of_window :: "string \<Rightarrow> string \<Rightarrow> delivery \<Rightarrow> bool" where
  "of_window w tenant r = (ob_window r = w \<and> ob_tenant r = Some tenant \<and> live r)"

definition close_orphans :: "int \<Rightarrow> string \<Rightarrow> string \<Rightarrow> outbox \<Rightarrow> outbox" where
  "close_orphans now w tenant =
     update_rows (\<lambda>r. of_window w tenant r \<and> ob_started r \<noteq> None \<and> ob_claim_token r = [])
       (\<lambda>r. r\<lparr>ob_coalesced := Some now, ob_started := None, ob_coalesce_after := False, ob_last_error := []\<rparr>)"

definition release_alerts :: "outbox_env \<Rightarrow> int \<Rightarrow> string \<Rightarrow> string \<Rightarrow> outbox \<Rightarrow> outbox" where
  "release_alerts env now w tenant =
     update_rows (\<lambda>r. of_window w tenant r \<and> \<not> ob_coalesce_after r)
       (\<lambda>r. (if ob_started r = None then unclaim r else r)\<lparr>ob_window := next_window env now r\<rparr>)"

definition close_pending :: "int \<Rightarrow> string \<Rightarrow> string \<Rightarrow> outbox \<Rightarrow> outbox" where
  "close_pending now w tenant =
     update_rows (\<lambda>r. of_window w tenant r \<and> ob_started r = None) (\<lambda>r. unclaim (r\<lparr>ob_coalesced := Some now, ob_last_error := []\<rparr>))"

definition close_in_flight :: "string \<Rightarrow> string \<Rightarrow> outbox \<Rightarrow> outbox" where
  "close_in_flight w tenant = update_rows (\<lambda>r. of_window w tenant r \<and> ob_started r \<noteq> None) (\<lambda>r. r\<lparr>ob_coalesce_after := True\<rparr>)"

definition close_window_rows :: "outbox_env \<Rightarrow> int \<Rightarrow> string \<Rightarrow> string \<Rightarrow> bool \<Rightarrow> outbox \<Rightarrow> outbox" where
  "close_window_rows env now w tenant summaryUnavailable ox =
     (let orphans = close_orphans now w tenant ox;
          released = (if summaryUnavailable then release_alerts env now w tenant orphans else orphans)
      in close_in_flight w tenant (close_pending now w tenant released))"

section \<open>Changes of a destination\<close>

text \<open>\<open>owned\<close> are the rows of the destination that changes; SQL reads them with \<open>LIKE\<close>.\<close>

definition keep_pending :: "outbox_env \<Rightarrow> int \<Rightarrow> (delivery \<Rightarrow> bool) \<Rightarrow> string \<Rightarrow> outbox \<Rightarrow> outbox" where
  "keep_pending env now owned newKey =
     update_rows (\<lambda>r. owned r \<and> live r \<and> \<not> ob_coalesce_after r \<and>
       (ob_started r = None \<or> ob_window r = [] \<or>
         (\<exists>q \<in> set (oe_windows env). cw_id q = ob_window r \<and> oe_tenant_of env (cw_job q) \<noteq> None \<and> oe_tenant_of env (cw_job q) = ob_tenant r \<and>
           cw_start q > now)))
       (\<lambda>r. (end_claim r)\<lparr>ob_destination := newKey, ob_attempts := 0, ob_deferrals := 0, ob_next_at := now, ob_last_error := []\<rparr>)"

definition mark_in_flight :: "(delivery \<Rightarrow> bool) \<Rightarrow> outbox \<Rightarrow> outbox" where
  "mark_in_flight owned =
     update_rows (\<lambda>r. owned r \<and> live r \<and> ob_started r \<noteq> None \<and> ob_window r \<noteq> [] \<and> changeWindowEventType (ob_event_type r))
       (\<lambda>r. r\<lparr>ob_coalesce_after := True\<rparr>)"

definition move_terminal :: "(delivery \<Rightarrow> bool) \<Rightarrow> string \<Rightarrow> outbox \<Rightarrow> outbox" where
  "move_terminal owned newKey =
     update_rows (\<lambda>r. owned r \<and> ob_sent_at r = None \<and> ob_terminal_at r \<noteq> None) (\<lambda>r. r\<lparr>ob_destination := newKey\<rparr>)"

definition discard_pending :: "(delivery \<Rightarrow> bool) \<Rightarrow> outbox \<Rightarrow> outbox" where
  "discard_pending owned ox =
     ox\<lparr>ox_rows := filter (\<lambda>r. \<not> (owned r \<and> ob_sent_at r = None \<and> (ob_started r = None \<or> ob_window r = []))) (ox_rows ox)\<rparr>"

definition rename_destination :: "(delivery \<Rightarrow> bool) \<Rightarrow> string \<Rightarrow> outbox \<Rightarrow> outbox" where
  "rename_destination owned newKey = update_rows (\<lambda>r. owned r \<and> live r) (\<lambda>r. r\<lparr>ob_destination := newKey\<rparr>)"

text \<open>
  \<open>RedeliverTerminalDeliveries\<close>, of the rows that the administrator chose. The destination's count of
  dropped deliveries goes down by as many.
\<close>

definition redeliverable :: "(delivery \<Rightarrow> bool) \<Rightarrow> delivery \<Rightarrow> bool" where
  "redeliverable chosen r = (chosen r \<and> ob_sent_at r = None \<and> ob_terminal_at r \<noteq> None \<and> ob_coalesced r = None)"

definition redeliver :: "int \<Rightarrow> (delivery \<Rightarrow> bool) \<Rightarrow> string \<Rightarrow> string \<Rightarrow> outbox \<Rightarrow> outbox" where
  "redeliver now chosen destinationID key ox =
     (let count = length (filter (redeliverable chosen) (ox_rows ox));
          identity = ''managed:'' @ destinationID;
          requeued = update_rows (redeliverable chosen)
            (\<lambda>r. (end_claim r)\<lparr>ob_destination := key, ob_attempts := 0, ob_deferrals := 0, ob_terminal_at := None, ob_next_at := now,
              ob_last_error := [], ob_window := [], ob_coalesce_after := False\<rparr>) ox
      in case mget (ox_health ox) identity of
           None \<Rightarrow> requeued
         | Some h \<Rightarrow>
             if count = 0 then ox
             else requeued\<lparr>ox_health := mput identity (h\<lparr>dh_terminal_failures := max 0 (dh_terminal_failures h - int count)\<rparr>) (ox_health ox)\<rparr>)"

end
