(* ===== verification/OutboxFacts.thy ===== *)
theory OutboxFacts
  imports Outbox
begin

text \<open>
  What the operations of the outbox do to one row: the row moves, or it is dropped with an event that
  records it. A law of rows that the moves keep is kept by every operation; the locale
  \<open>row_invariant\<close> states the law and proves it for the operations once.
\<close>

section \<open>Changes of a row\<close>

lemmas limits = deliveryMaxAttempts_def deliveryMaxDeferrals_def

definition held_by_worker :: "delivery \<Rightarrow> bool" where
  "held_by_worker r \<longleftrightarrow> undelivered r \<and> ob_claim_token r \<noteq> []"

definition marked :: "delivery \<Rightarrow> bool" where
  "marked r \<longleftrightarrow> changeWindowEventType (ob_event_type r) \<and> ob_coalesce_after r"

inductive move_step :: "int \<Rightarrow> delivery \<Rightarrow> delivery \<Rightarrow> bool" where
  stays: "move_step now r r"
| leases: "due env now excluded r \<Longrightarrow> owner \<noteq> [] \<Longrightarrow> move_step now r (lease now owner r)"
| ages: "undelivered r \<Longrightarrow> ob_next_at r \<le> now \<Longrightarrow> \<not> deliveryMaxDeferrals \<le> ob_deferrals r + 1 \<Longrightarrow>
    move_step now r (locked_row now (ob_deferrals r + 1) False r)"
| wakes: "undelivered r \<Longrightarrow> ob_last_error r = ''destination_locked'' \<Longrightarrow> move_step now r (r\<lparr>ob_next_at := now\<rparr>)"
| recovers: "begun r \<Longrightarrow> move_step now r (recovered link now r)"
| frees: "ob_claim_token r \<noteq> [] \<Longrightarrow> move_step now r (unclaim r)"
| returns: "held_by_worker r \<Longrightarrow> ob_started r = None \<Longrightarrow> move_step now r (unclaim (r\<lparr>ob_next_at := t, ob_started := None\<rparr>))"
| holds: "held_by_worker r \<Longrightarrow> move_step now r (unclaim (r\<lparr>ob_last_error := []\<rparr>))"
| waits: "held_by_worker r \<Longrightarrow> move_step now r (unclaim (r\<lparr>ob_window := w, ob_next_at := t, ob_last_error := []\<rparr>))"
| joins: "held_by_worker r \<Longrightarrow>
    move_step now r (unclaim (r\<lparr>ob_coalesced := (if ob_coalesced r = None then Some now else ob_coalesced r), ob_last_error := []\<rparr>))"
| begins: "held_by_worker r \<Longrightarrow> changeWindowEventType (ob_event_type r) \<Longrightarrow> move_step now r (r\<lparr>ob_started := Some now\<rparr>)"
| sends: "held_by_worker r \<Longrightarrow> \<not> marked r \<Longrightarrow> move_step now r ((end_claim r)\<lparr>ob_sent_at := Some now, ob_last_error := []\<rparr>)"
| sends_marked: "held_by_worker r \<Longrightarrow>
    move_step now r ((end_claim r)\<lparr>ob_sent_at := Some now, ob_last_error := [], ob_coalesce_after := False\<rparr>)"
| joins_after: "held_by_worker r \<Longrightarrow> move_step now r (coalesce_claim now r)"
| defers: "held_by_worker r \<Longrightarrow> \<not> marked r \<Longrightarrow> \<not> deliveryMaxDeferrals \<le> ob_deferrals r + 1 \<Longrightarrow>
    move_step now r (defer_row now delay err False r)"
| fails: "held_by_worker r \<Longrightarrow> \<not> marked r \<Longrightarrow> \<not> deliveryMaxAttempts \<le> ob_attempts r + 1 \<Longrightarrow> err \<noteq> ErrDeliveryDestinationLocked \<Longrightarrow>
    move_step now r (fail_row now (failure_delay (ob_attempts r + 1) err) err False r)"
| links: "live r \<Longrightarrow> move_step now r (r\<lparr>ob_window := w\<rparr>)"
| links_free: "live r \<Longrightarrow> ob_started r = None \<Longrightarrow> move_step now r ((unclaim r)\<lparr>ob_window := w\<rparr>)"
| orphaned: "live r \<Longrightarrow> ob_claim_token r = [] \<Longrightarrow>
    move_step now r (r\<lparr>ob_coalesced := Some now, ob_started := None, ob_coalesce_after := False, ob_last_error := []\<rparr>)"
| closes: "live r \<Longrightarrow> ob_started r = None \<Longrightarrow> move_step now r (unclaim (r\<lparr>ob_coalesced := Some now, ob_last_error := []\<rparr>))"
| marks: "live r \<Longrightarrow> ob_started r \<noteq> None \<Longrightarrow> move_step now r (r\<lparr>ob_coalesce_after := True\<rparr>)"
| renames: "move_step now r (r\<lparr>ob_destination := key\<rparr>)"

inductive drop_step :: "int \<Rightarrow> delivery \<Rightarrow> delivery \<Rightarrow> bool" where
  unreadable: "held_by_worker r \<Longrightarrow> drop_step now r (unclaim (r\<lparr>ob_terminal_at := Some now, ob_last_error := ''payload_invalid''\<rparr>))"
| aged_out: "undelivered r \<Longrightarrow> ob_next_at r \<le> now \<Longrightarrow> deliveryMaxDeferrals \<le> ob_deferrals r + 1 \<Longrightarrow>
    drop_step now r (locked_row now (ob_deferrals r + 1) True r)"
| deferred_out: "held_by_worker r \<Longrightarrow> \<not> marked r \<Longrightarrow> deliveryMaxDeferrals \<le> ob_deferrals r + 1 \<Longrightarrow>
    drop_step now r (defer_row now delay err True r)"
| failed_out: "held_by_worker r \<Longrightarrow> \<not> marked r \<Longrightarrow> deliveryMaxAttempts \<le> ob_attempts r + 1 \<Longrightarrow> err \<noteq> ErrDeliveryDestinationLocked \<Longrightarrow>
    drop_step now r (fail_row now (failure_delay (ob_attempts r + 1) err) err True r)"

text \<open>An administrator gives a delivery its budgets back.\<close>

inductive restart_step :: "int \<Rightarrow> delivery \<Rightarrow> delivery \<Rightarrow> bool" where
  keeps: "live r \<Longrightarrow> \<not> ob_coalesce_after r \<Longrightarrow>
    restart_step now r ((end_claim r)\<lparr>ob_destination := key, ob_attempts := 0, ob_deferrals := 0, ob_next_at := now, ob_last_error := []\<rparr>)"
| redelivers: "ob_sent_at r = None \<Longrightarrow> ob_coalesced r = None \<Longrightarrow>
    restart_step now r ((end_claim r)\<lparr>ob_destination := key, ob_attempts := 0, ob_deferrals := 0, ob_terminal_at := None,
      ob_next_at := now, ob_last_error := [], ob_window := [], ob_coalesce_after := False\<rparr>)"

lemmas row_parts = unclaim_def end_claim_def lease_def locked_row_def defer_row_def fail_row_def coalesce_claim_def
lemmas row_kinds = undelivered_def live_def held_by_worker_def marked_def begun_def

lemma step_ids:
  "move_step now r r' \<Longrightarrow> ob_id r' = ob_id r" "drop_step now r r' \<Longrightarrow> ob_id r' = ob_id r" "restart_step now r r' \<Longrightarrow> ob_id r' = ob_id r"
  by (auto elim!: move_step.cases drop_step.cases restart_step.cases simp: row_parts recovered_def Let_def)

section \<open>Steps of the outbox\<close>

text \<open>
  A step happens at a time. A worker returns a claim without a result only before it has begun, the
  tokens of claims are not empty, and a locked destination is reported as a deferral and not as the
  result of a send.
\<close>

inductive delivery_step :: "int \<Rightarrow> outbox \<Rightarrow> outbox \<Rightarrow> bool" where
  queue: "delivery_step now ox (snd (QueueEvent env now destination tenant eventType job payload ox))"
| claims: "uuid \<noteq> [] \<Longrightarrow> delivery_step now ox (snd (claimDueDeliveries env now limit uuid owner excluded ox))"
| age: "delivery_step now ox (AgeLockedDeliveries env now destinations ox)"
| wake: "delivery_step now ox (WakeLockedDeliveries now destinations ox)"
| startup: "delivery_step now ox (snd (ReleaseDeliveryClaims env now ox))"
| expired: "delivery_step now ox (snd (RecoverExpiredDeliveryClaims env now ox))"
| release: "\<forall>r \<in> set (ox_rows ox). ob_id r = i \<longrightarrow> ob_started r = None \<Longrightarrow> delivery_step now ox (snd (ReleaseDeliveryClaim now i token delay ox))"
| begin_send: "delivery_step now ox (snd (BeginDeliveryAttempt env now i token ox))"
| result: "sendErr \<noteq> Some ErrDeliveryDestinationLocked \<Longrightarrow> delivery_step now ox (snd (DeliveryResultClaim env now i token sendErr ox))"
| put_off: "delivery_step now ox (snd (DeferDeliveryWithError now i token reason delay ox))"
| assign: "delivery_step now ox (assign_window env job tenant start w ox)"
| cancel: "delivery_step now ox (cancel_window env now w tenant ox)"
| close: "delivery_step now ox (close_window_rows env now w tenant unavailable ox)"
| mark: "delivery_step now ox (mark_in_flight owned ox)"
| move: "delivery_step now ox (move_terminal owned newKey ox)"
| discard: "delivery_step now ox (discard_pending owned ox)"
| rename: "delivery_step now ox (rename_destination owned newKey ox)"

inductive outbox_step :: "int \<Rightarrow> outbox \<Rightarrow> outbox \<Rightarrow> bool" where
  deliver: "delivery_step now ox ox' \<Longrightarrow> outbox_step now ox ox'"
| keep: "outbox_step now ox (keep_pending env now owned newKey ox)"
| again: "outbox_step now ox (redeliver now chosen destinationID key ox)"

text \<open>Runs, in which the time does not go back.\<close>

inductive delivery_run :: "int \<Rightarrow> outbox \<Rightarrow> int \<Rightarrow> outbox \<Rightarrow> bool" where
  here: "delivery_run t ox t ox"
| goes_on: "delivery_run t ox c ox' \<Longrightarrow> c \<le> now \<Longrightarrow> delivery_step now ox' ox'' \<Longrightarrow> delivery_run t ox now ox''"

inductive outbox_run :: "int \<Rightarrow> outbox \<Rightarrow> int \<Rightarrow> outbox \<Rightarrow> bool" where
  here: "outbox_run t ox t ox"
| goes_on: "outbox_run t ox c ox' \<Longrightarrow> c \<le> now \<Longrightarrow> outbox_step now ox' ox'' \<Longrightarrow> outbox_run t ox now ox''"

section \<open>Laws of rows\<close>

text \<open>
  A law may speak of the time and of the deliveries whose end is recorded, and of the rows queued from
  an identifier on.
\<close>

definition recorded :: "outbox \<Rightarrow> int set" where
  "recorded ox = dr_id ` set (ox_dropped ox)"

definition rows_keep :: "(int \<Rightarrow> int set \<Rightarrow> delivery \<Rightarrow> bool) \<Rightarrow> int \<Rightarrow> int \<Rightarrow> outbox \<Rightarrow> bool" where
  "rows_keep Q base c ox \<longleftrightarrow> base \<le> ox_next_id ox \<and> distinct (map ob_id (ox_rows ox)) \<and>
     (\<forall>r \<in> set (ox_rows ox). ob_id r < ox_next_id ox \<and> Q c (recorded ox) r)"

lemma health_only [simp]:
  "ox_rows (on_health s f ox) = ox_rows ox" "ox_next_id (on_health s f ox) = ox_next_id ox" "ox_dropped (on_health s f ox) = ox_dropped ox"
  by (simp_all add: on_health_def Let_def)

lemma recorded_only [simp]:
  "ox_rows (recordDeliverySuccess s now ox) = ox_rows ox" "ox_next_id (recordDeliverySuccess s now ox) = ox_next_id ox"
  "ox_rows (recordDeliveryFailure s e t now ox) = ox_rows ox" "ox_next_id (recordDeliveryFailure s e t now ox) = ox_next_id ox"
  "ox_rows (ensureDeliveryHealth s ox) = ox_rows ox" "ox_next_id (ensureDeliveryHealth s ox) = ox_next_id ox"
  "ox_rows (insertTerminalDeliveryEvent i e why ox) = ox_rows ox" "ox_next_id (insertTerminalDeliveryEvent i e why ox) = ox_next_id ox"
  "recorded (recordDeliverySuccess s now ox) = recorded ox" "recorded (recordDeliveryFailure s e t now ox) = recorded ox"
  "recorded (ensureDeliveryHealth s ox) = recorded ox" "recorded (insertTerminalDeliveryEvent i e why ox) = insert i (recorded ox)"
  by (simp_all add: recordDeliverySuccess_def recordDeliveryFailure_def ensureDeliveryHealth_def insertTerminalDeliveryEvent_def recorded_def)

lemma update_only [simp]:
  "ox_next_id (update_rows P f ox) = ox_next_id ox" "recorded (update_rows P f ox) = recorded ox"
  "ox_next_id (update_id i f ox) = ox_next_id ox" "recorded (update_id i f ox) = recorded ox"
  by (simp_all add: update_rows_def update_id_def recorded_def)

lemma rows_keep_cong:
  "ox_rows ox' = ox_rows ox \<Longrightarrow> ox_next_id ox' = ox_next_id ox \<Longrightarrow> recorded ox' = recorded ox \<Longrightarrow> rows_keep Q base c ox' = rows_keep Q base c ox"
  by (simp add: rows_keep_def)

lemma health_keep [simp]:
  "rows_keep Q base c (recordDeliverySuccess s now ox) = rows_keep Q base c ox"
  "rows_keep Q base c (recordDeliveryFailure s e t now ox) = rows_keep Q base c ox"
  "rows_keep Q base c (ensureDeliveryHealth s ox) = rows_keep Q base c ox"
  by (rule rows_keep_cong; simp)+

lemma claimed_rowD:
  "claimed_row i token ox = Some r \<Longrightarrow> token \<noteq> [] \<Longrightarrow>
   r \<in> set (ox_rows ox) \<and> ob_id r = i \<and> held_by_worker r"
  by (auto simp: claimed_row_def find_Some_iff held_by_worker_def)

lemma row_unique: "rows_keep Q base c ox \<Longrightarrow> r \<in> set (ox_rows ox) \<Longrightarrow> s \<in> set (ox_rows ox) \<Longrightarrow> ob_id r = ob_id s \<Longrightarrow> r = s"
  by (auto simp: rows_keep_def distinct_map inj_on_def)

lemma in_first_ids: "i \<in> set (first_ids n P ox) \<Longrightarrow> \<exists>r \<in> set (ox_rows ox). ob_id r = i \<and> P r"
  by (auto simp: first_ids_def dest!: in_set_takeD)

text \<open>An update whose rows get identifiers that they had, and a law of their own.\<close>

lemma update_rows_keep:
  assumes "rows_keep Q base c ox"
    "\<And>r. r \<in> set (ox_rows ox) \<Longrightarrow> P r \<Longrightarrow> Q c (recorded ox) r \<Longrightarrow> Q c (recorded ox) (f r) \<and> ob_id (f r) = ob_id r"
  shows "rows_keep Q base c (update_rows P f ox)"
proof -
  have each: "Q c (recorded ox) (f r)" "ob_id (f r) = ob_id r" if "r \<in> set (ox_rows ox)" "P r" for r
    using assms that by (auto simp: rows_keep_def)
  then have "ob_id (if P r then f r else r) = ob_id r" if "r \<in> set (ox_rows ox)" for r using that by simp
  then have ids: "map ob_id (ox_rows (update_rows P f ox)) = map ob_id (ox_rows ox)"
    unfolding update_rows_def by (simp add: o_def)
  show ?thesis using assms(1) each unfolding rows_keep_def ids update_only by (auto simp: update_rows_def)
qed

section \<open>Every operation keeps a law\<close>

locale row_invariant =
  fixes Q :: "int \<Rightarrow> int set \<Rightarrow> delivery \<Rightarrow> bool" and base :: int
  assumes later: "Q c D r \<Longrightarrow> c \<le> now \<Longrightarrow> Q now D r"
    and records: "Q c D r \<Longrightarrow> Q c (insert i D) r"
    and fresh: "base \<le> i \<Longrightarrow> Q now D (queued_row i destination payload now tenant eventType job w)"
    and moves: "move_step now r r' \<Longrightarrow> Q now D r \<Longrightarrow> Q now D r'"
    and drops: "drop_step now r r' \<Longrightarrow> Q now D r \<Longrightarrow> Q now (insert (ob_id r) D) r'"
begin

abbreviation keep where "keep \<equiv> rows_keep Q base"

lemma keep_later: "keep c ox \<Longrightarrow> c \<le> now \<Longrightarrow> keep now ox"
  by (auto simp: rows_keep_def intro: later)

lemma keep_recorded: "keep now ox \<Longrightarrow> keep now (insertTerminalDeliveryEvent i e why ox)"
  by (auto simp: rows_keep_def intro: records)

lemma update_moves:
  assumes "keep now ox" "\<And>r. r \<in> set (ox_rows ox) \<Longrightarrow> P r \<Longrightarrow> move_step now r (f r)"
  shows "keep now (update_rows P f ox)"
  by (rule update_rows_keep [OF assms(1)]) (use assms(2) moves step_ids(1) in blast)

lemma row_moves:
  assumes "keep now ox" "r \<in> set (ox_rows ox)" "move_step now r (f r)"
  shows "keep now (update_id (ob_id r) f ox)"
  unfolding update_id_def by (rule update_moves [OF assms(1)]) (use assms(2,3) row_unique [OF assms(1)] in blast)

lemma claimed_moves:
  assumes "keep now ox" "claimed_row i token ox = Some r" "token \<noteq> []" "move_step now r (f r)"
  shows "keep now (update_id i f ox)"
  using row_moves [OF assms(1), of r f] claimed_rowD [OF assms(2,3)] assms(4) by blast

lemma row_drops:
  assumes "keep now ox" "r \<in> set (ox_rows ox)" "drop_step now r (f r)"
  shows "keep now (insertTerminalDeliveryEvent (ob_id r) e why (recordDeliveryFailure d e t now (update_id (ob_id r) f ox)))"
proof -
  define ox' where "ox' = insertTerminalDeliveryEvent (ob_id r) e why ox"
  have rows: "ox_rows ox' = ox_rows ox" by (simp add: ox'_def)
  have "keep now (update_id (ob_id r) f ox')"
    unfolding update_id_def
  proof (rule update_rows_keep)
    show "keep now ox'" unfolding ox'_def by (rule keep_recorded [OF assms(1)])
    fix s assume "s \<in> set (ox_rows ox')" "ob_id s = ob_id r" "Q now (recorded ox') s"
    then have s: "s = r" using row_unique [OF assms(1)] assms(2) rows by metis
    have "Q now (recorded ox) r" using assms(1,2) by (simp add: rows_keep_def)
    then show "Q now (recorded ox') (f s) \<and> ob_id (f s) = ob_id s"
      using drops [OF assms(3)] step_ids(2) [OF assms(3)] by (simp add: s ox'_def)
  qed
  then show ?thesis
    by (rule rows_keep_cong [THEN iffD1, rotated -1]) (simp_all add: ox'_def update_id_def update_rows_def recorded_def
      insertTerminalDeliveryEvent_def recordDeliveryFailure_def)
qed

lemma fail_invalid_keeps:
  assumes "keep now ox"
  shows "keep now (snd (failInvalidDeliveryPayload now i token ox))"
proof (cases "token \<noteq> [] \<and> (\<exists>r. claimed_row i token ox = Some r)")
  case True
  then obtain r where r: "claimed_row i token ox = Some r" "token \<noteq> []" by blast
  then have "ob_id r = i" "r \<in> set (ox_rows ox)" "held_by_worker r" using claimed_rowD by blast+
  then show ?thesis using r row_drops [OF assms \<open>r \<in> set (ox_rows ox)\<close>,
      where f = "\<lambda>r. unclaim (r\<lparr>ob_terminal_at := Some now, ob_last_error := ''payload_invalid''\<rparr>)", OF unreadable] by (simp add: failInvalidDeliveryPayload_def)
qed (use assms in \<open>auto simp: failInvalidDeliveryPayload_def\<close>)

lemma fold_keeps: "keep now ox \<Longrightarrow> (\<And>x ox. keep now ox \<Longrightarrow> keep now (f x ox)) \<Longrightarrow> keep now (fold f xs ox)"
  by (induction xs arbitrary: ox) auto

lemma claim_keeps:
  assumes "keep now ox" "uuid \<noteq> []"
  shows "keep now (snd (claimDueDeliveries env now limit uuid owner excluded ox))"
proof -
  define owner' where "owner' = (if owner = [] then uuid else owner)"
  define ids where "ids = first_ids (nat limit) (due env now excluded) ox"
  have "keep now (update_rows (\<lambda>r. ob_id r \<in> set ids) (lease now owner') ox)"
  proof (rule update_moves [OF assms(1)])
    fix r assume r: "r \<in> set (ox_rows ox)" "ob_id r \<in> set ids"
    then obtain s where "s \<in> set (ox_rows ox)" "ob_id s = ob_id r" "due env now excluded s"
      using in_first_ids unfolding ids_def by blast
    then have "due env now excluded r" using row_unique [OF assms(1) r(1)] by metis
    then show "move_step now r (lease now owner' r)" by (rule leases) (simp add: owner'_def assms(2))
  qed
  then show ?thesis using assms(1)
    by (auto simp: claimDueDeliveries_def Let_def ids_def owner'_def intro!: fold_keeps fail_invalid_keeps)
qed

lemma age_row_keeps:
  assumes "keep now ox" "\<forall>r \<in> set (ox_rows ox). ob_id r = i \<longrightarrow> ob_next_at r \<le> now"
  shows "keep now (age_row now i ox)"
proof (cases "find (\<lambda>r. ob_id r = i \<and> undelivered r \<and> ob_attempts r < deliveryMaxAttempts \<and> free_claim now r) (ox_rows ox)")
  case (Some r)
  then have r: "r \<in> set (ox_rows ox)" "ob_id r = i" "undelivered r" by (auto simp: find_Some_iff)
  then have "ob_next_at r \<le> now" using assms(2) by blast
  then show ?thesis using Some r(2)
      row_moves [OF assms(1) r(1), where f = "locked_row now (ob_deferrals r + 1) False", OF ages [OF r(3)]]
      row_drops [OF assms(1) r(1), where f = "locked_row now (ob_deferrals r + 1) True", OF aged_out [OF r(3)]]
    by (cases "deliveryMaxDeferrals \<le> ob_deferrals r + 1") (simp_all add: age_row_def Let_def)
qed (use assms in \<open>simp add: age_row_def\<close>)

lemma age_rows_keep:
  assumes "keep now ox" "distinct is" "\<forall>r \<in> set (ox_rows ox). ob_id r \<in> set is \<longrightarrow> ob_next_at r \<le> now"
  shows "keep now (fold (age_row now) is ox)"
  using assms
proof (induction "is" arbitrary: ox)
  case (Cons i "is")
  have "r \<in> set (ox_rows ox)" if "r \<in> set (ox_rows (age_row now i ox))" "ob_id r \<noteq> i" for r
    using that by (auto simp: age_row_def Let_def update_id_def update_rows_def locked_row_def unclaim_def
      insertTerminalDeliveryEvent_def recordDeliveryFailure_def split: option.splits if_splits)
  then show ?case using Cons.prems by (auto intro!: Cons.IH age_row_keeps)
qed simp

lemma age_keeps:
  assumes "keep now ox"
  shows "keep now (AgeLockedDeliveries env now destinations ox)"
proof -
  have "ob_next_at r \<le> now" if "r \<in> set (ox_rows ox)" "ob_id r \<in> set (first_ids n P ox)" "\<And>s. P s \<Longrightarrow> ob_next_at s \<le> now" for r n P
    using in_first_ids [OF that(2)] row_unique [OF assms that(1)] that(3) by metis
  moreover have "distinct (first_ids n P ox)" for n P
    using assms by (simp add: first_ids_def rows_keep_def distinct_map_filter)
  ultimately show ?thesis unfolding AgeLockedDeliveries_def by (intro age_rows_keep assms ballI impI) blast+
qed

lemma recover_all_keeps:
  assumes "keep now ox" "\<forall>r \<in> set rs. Q now (recorded ox) r \<and> begun r" "recover_all env now rs ox = Inr ox'"
  shows "keep now ox'"
  using assms
proof (induction rs arbitrary: ox)
  case (Cons r rs)
  then obtain link where "recoverStartedDelivery env now r = Inr (recovered link now r)"
    and rest: "recover_all env now rs (update_id (ob_id r) (\<lambda>_. recovered link now r) ox) = Inr ox'"
    by (auto simp: recoverStartedDelivery_def split: if_splits option.splits)
  have step: "move_step now r (recovered link now r)" using Cons.prems by (intro recovers) simp
  have "keep now (update_id (ob_id r) (\<lambda>_. recovered link now r) ox)" unfolding update_id_def
    by (rule update_rows_keep [OF Cons.prems(1)]) (use Cons.prems(2) moves [OF step] step_ids(1) [OF step] in auto)
  then show ?case using Cons.IH rest Cons.prems by simp
qed simp

lemma begun_rows_keep: "keep now ox \<Longrightarrow> set rs \<subseteq> set (ox_rows ox) \<Longrightarrow> \<forall>r \<in> set rs. Q now (recorded ox) r"
  by (auto simp: rows_keep_def)

lemma startup_keeps:
  assumes "keep now ox"
  shows "keep now (snd (ReleaseDeliveryClaims env now ox))"
proof -
  have "keep now ox'" if "recover_all env now (sort_key ob_id (filter begun (ox_rows ox))) ox = Inr ox'" for ox'
    using recover_all_keeps [OF assms _ that] begun_rows_keep [OF assms, of "filter begun (ox_rows ox)"] by simp
  then show ?thesis using assms
    by (auto simp: ReleaseDeliveryClaims_def split: sum.split intro!: update_moves frees)
qed

lemma expired_keeps:
  assumes "keep now ox"
  shows "keep now (snd (RecoverExpiredDeliveryClaims env now ox))"
proof -
  have sub: "set (expiredDeliveryClaims now ox) \<subseteq> set (ox_rows ox) \<inter> {r. begun r}"
    by (auto simp: expiredDeliveryClaims_def dest!: in_set_takeD)
  have "\<forall>r \<in> set (expiredDeliveryClaims now ox). Q now (recorded ox) r \<and> begun r"
    using sub begun_rows_keep [OF assms] by blast
  then show ?thesis using assms recover_all_keeps [OF assms] by (auto simp: RecoverExpiredDeliveryClaims_def split: sum.split)
qed

lemma queue_keeps:
  assumes "keep now ox"
  shows "keep now (snd (QueueEvent env now destination tenant eventType job payload ox))"
proof -
  have "keep now (ox\<lparr>ox_rows := ox_rows ox @ [queued_row (ox_next_id ox) destination payload now tenant eventType job w],
      ox_next_id := ox_next_id ox + 1\<rparr>)" for w job
    using assms fresh by (fastforce simp: rows_keep_def recorded_def queued_row_def)
  then show ?thesis using assms by (simp add: QueueEvent_def Let_def)
qed

lemma return_keeps:
  assumes "keep now ox" "\<forall>r \<in> set (ox_rows ox). ob_id r = i \<longrightarrow> ob_started r = None"
  shows "keep now (snd (ReleaseDeliveryClaim now i token delay ox))"
proof (cases "token \<noteq> [] \<and> (\<exists>r. claimed_row i token ox = Some r)")
  case True
  then obtain r where r: "claimed_row i token ox = Some r" "token \<noteq> []" by blast
  then have "ob_id r = i" "r \<in> set (ox_rows ox)" "held_by_worker r" using claimed_rowD by blast+
  then have "ob_started r = None" using assms(2) by blast
  have "keep now (update_id i (\<lambda>r. unclaim (r\<lparr>ob_next_at := now + max 0 delay, ob_started := None\<rparr>)) ox)"
    by (rule claimed_moves [OF assms(1) r]) (rule returns [OF \<open>held_by_worker r\<close> \<open>ob_started r = None\<close>])
  then show ?thesis using r by (simp add: ReleaseDeliveryClaim_def)
qed (use assms in \<open>auto simp: ReleaseDeliveryClaim_def\<close>)

lemma snd_keepsI:
  "(b \<Longrightarrow> keep now (snd x)) \<Longrightarrow> (\<not> b \<Longrightarrow> keep now (snd y)) \<Longrightarrow> keep now (snd (if b then x else y))"
  "(z = None \<Longrightarrow> keep now (snd x)) \<Longrightarrow> (\<And>a. z = Some a \<Longrightarrow> keep now (snd (f a))) \<Longrightarrow> keep now (snd (case z of None \<Rightarrow> x | Some a \<Rightarrow> f a))"
  by (auto split: option.split)

lemma gate_changes_keep:
  assumes "keep now ox" "claimed_row i token ox = Some r" "token \<noteq> []"
  shows "keep now (update_id i (\<lambda>r. unclaim (r\<lparr>ob_last_error := []\<rparr>)) ox)"
    "keep now (snd (hold_in_window i q ox))" "keep now (snd (coalesce_held now i ox))"
    "changeWindowEventType (ob_event_type r) \<Longrightarrow> keep now (snd (begin_attempt now i ox))"
proof -
  have held: "held_by_worker r" using claimed_rowD [OF assms(2,3)] by blast
  show "keep now (update_id i (\<lambda>r. unclaim (r\<lparr>ob_last_error := []\<rparr>)) ox)"
    by (rule claimed_moves [OF assms]) (rule holds [OF held])
  show "keep now (snd (hold_in_window i q ox))"
    unfolding hold_in_window_def snd_conv by (rule claimed_moves [OF assms]) (rule waits [OF held])
  show "keep now (snd (coalesce_held now i ox))"
    unfolding coalesce_held_def snd_conv by (rule claimed_moves [OF assms]) (rule joins [OF held])
  show "keep now (snd (begin_attempt now i ox))" if "changeWindowEventType (ob_event_type r)"
    unfolding begin_attempt_def snd_conv by (rule claimed_moves [OF assms]) (rule begins [OF held that])
qed

lemma begin_keeps:
  assumes "keep now ox"
  shows "keep now (snd (BeginDeliveryAttempt env now i token ox))"
proof -
  have lost: "keep now (snd (e, ox))" for e :: "store_error option" using assms by simp
  have free: "keep now (snd (e, update_id i (\<lambda>r. unclaim (r\<lparr>ob_last_error := []\<rparr>)) ox))"
    if "claimed_row i token ox = Some r" "token \<noteq> []" for r and e :: "store_error option"
    using gate_changes_keep(1) [OF assms that] by simp
  show ?thesis unfolding BeginDeliveryAttempt_def window_gate_def Let_def
    by (intro snd_keepsI) (blast intro: lost free gate_changes_keep [OF assms])+
qed

lemma defer_claim_keeps:
  assumes "keep now ox" "claimed_row i token ox = Some r" "token \<noteq> []" "\<not> marked r"
  shows "keep now (defer_claim now r err delay reason ox)"
proof -
  have r: "r \<in> set (ox_rows ox)" "held_by_worker r" using claimed_rowD [OF assms(2,3)] by blast+
  show ?thesis using row_moves [OF assms(1) r(1), where f = "defer_row now delay err False", OF defers [OF r(2) assms(4)]]
      row_drops [OF assms(1) r(1), where f = "defer_row now delay err True", OF deferred_out [OF r(2) assms(4)]]
    by (cases "deliveryMaxDeferrals \<le> ob_deferrals r + 1") (simp_all add: defer_claim_def Let_def)
qed

lemma fail_claim_keeps:
  assumes "keep now ox" "claimed_row i token ox = Some r" "token \<noteq> []" "\<not> marked r" "err \<noteq> ErrDeliveryDestinationLocked"
  shows "keep now (fail_claim now r err ox)"
proof -
  have r: "r \<in> set (ox_rows ox)" "held_by_worker r" using claimed_rowD [OF assms(2,3)] by blast+
  show ?thesis using row_moves [OF assms(1) r(1), where f = "fail_row now (failure_delay (ob_attempts r + 1) err) err False", OF fails [OF r(2) assms(4) _ assms(5)]]
      row_drops [OF assms(1) r(1), where f = "fail_row now (failure_delay (ob_attempts r + 1) err) err True", OF failed_out [OF r(2) assms(4) _ assms(5)]]
    by (cases "deliveryMaxAttempts \<le> ob_attempts r + 1") (simp_all add: fail_claim_def Let_def)
qed

lemma result_keeps:
  assumes "keep now ox" "sendErr \<noteq> Some ErrDeliveryDestinationLocked"
  shows "keep now (snd (DeliveryResultClaim env now i token sendErr ox))"
proof (cases "token \<noteq> [] \<and> (\<exists>r. claimed_row i token ox = Some r)")
  case True
  then obtain r where r: "claimed_row i token ox = Some r" "token \<noteq> []" by blast
  then have held: "held_by_worker r" using claimed_rowD by blast
  note changes = claimed_moves [OF assms(1) r, where f = "coalesce_claim now", OF joins_after [OF held]]
    claimed_moves [OF assms(1) r, where f = "\<lambda>r. (end_claim r)\<lparr>ob_sent_at := Some now, ob_last_error := [], ob_coalesce_after := False\<rparr>", OF sends_marked [OF held]]
    claimed_moves [OF assms(1) r, where f = "\<lambda>r. (end_claim r)\<lparr>ob_sent_at := Some now, ob_last_error := []\<rparr>", OF sends [OF held]]
    defer_claim_keeps [OF assms(1) r] fail_claim_keeps [OF assms(1) r]
  show ?thesis using assms r
    by (cases "marked r"; cases sendErr) (simp_all add: DeliveryResultClaim_def marked_def [symmetric] changes)
qed (use assms in \<open>auto simp: DeliveryResultClaim_def\<close>)

lemma put_off_keeps:
  assumes "keep now ox"
  shows "keep now (snd (DeferDeliveryWithError now i token reason delay ox))"
proof (cases "token \<noteq> [] \<and> (\<exists>r. claimed_row i token ox = Some r)")
  case True
  then obtain r where r: "claimed_row i token ox = Some r" "token \<noteq> []" by blast
  then have held: "held_by_worker r" using claimed_rowD by blast
  show ?thesis using r claimed_moves [OF assms r, where f = "coalesce_claim now", OF joins_after [OF held]] defer_claim_keeps [OF assms r]
    by (cases "marked r") (simp_all add: DeferDeliveryWithError_def marked_def [symmetric])
qed (use assms in \<open>auto simp: DeferDeliveryWithError_def\<close>)

lemma close_keeps:
  assumes "keep now ox"
  shows "keep now (close_window_rows env now w tenant unavailable ox)"
proof -
  have "keep now (close_orphans now w tenant ox')" "keep now (release_alerts env now w tenant ox')"
    "keep now (close_pending now w tenant ox')" "keep now (close_in_flight w tenant ox')" if "keep now ox'" for ox'
    unfolding close_orphans_def release_alerts_def close_pending_def close_in_flight_def
    by (rule update_moves [OF that]; auto simp: of_window_def intro: orphaned links links_free closes marks)+
  then show ?thesis using assms by (auto simp: close_window_rows_def Let_def)
qed

lemma updates_keep:
  assumes "keep now ox"
  shows "keep now (WakeLockedDeliveries now destinations ox)" "keep now (assign_window env job tenant start w ox)"
    "keep now (cancel_window env now w tenant ox)" "keep now (mark_in_flight owned ox)"
    "keep now (move_terminal owned newKey ox)" "keep now (rename_destination owned newKey ox)"
  unfolding WakeLockedDeliveries_def assign_window_def cancel_window_def mark_in_flight_def move_terminal_def rename_destination_def
  by (rule update_moves [OF assms]; auto intro: wakes links marks renames)+

lemma discard_keeps: "keep now ox \<Longrightarrow> keep now (discard_pending owned ox)"
  by (auto simp: discard_pending_def rows_keep_def recorded_def distinct_map_filter)

lemma delivery_step_keeps: "delivery_step now ox ox' \<Longrightarrow> keep now ox \<Longrightarrow> keep now ox'"
  by (induction rule: delivery_step.induct)
    (auto intro: queue_keeps claim_keeps age_keeps updates_keep startup_keeps expired_keeps return_keeps begin_keeps result_keeps put_off_keeps
      close_keeps discard_keeps)

lemma delivery_run_keeps: "delivery_run t ox c ox' \<Longrightarrow> keep t ox \<Longrightarrow> keep c ox'"
  by (induction rule: delivery_run.induct) (auto intro: delivery_step_keeps keep_later)

end

text \<open>A law that also survives a new start.\<close>

locale lasting_row_invariant = row_invariant +
  assumes restarts: "restart_step now r r' \<Longrightarrow> Q now D r \<Longrightarrow> Q now D r'"
begin

lemma restart_keeps:
  assumes "keep now ox"
  shows "keep now (keep_pending env now owned newKey ox)" "keep now (redeliver now chosen destinationID key ox)"
proof -
  show "keep now (keep_pending env now owned newKey ox)" unfolding keep_pending_def
    by (rule update_rows_keep [OF assms]) (use restarts step_ids(3) restart_step.intros in \<open>metis (no_types, lifting)\<close>)
  have requeued: "keep now (update_rows (redeliverable chosen)
      (\<lambda>r. (end_claim r)\<lparr>ob_destination := key, ob_attempts := 0, ob_deferrals := 0, ob_terminal_at := None, ob_next_at := now,
        ob_last_error := [], ob_window := [], ob_coalesce_after := False\<rparr>) ox)"
    unfolding redeliverable_def
    by (rule update_rows_keep [OF assms]) (use restarts step_ids(3) restart_step.intros in \<open>metis (no_types, lifting)\<close>)
  show "keep now (redeliver now chosen destinationID key ox)"
    using assms requeued by (auto simp: redeliver_def Let_def rows_keep_def recorded_def split: option.split)
qed

lemma outbox_step_keeps: "outbox_step now ox ox' \<Longrightarrow> keep now ox \<Longrightarrow> keep now ox'"
  by (induction rule: outbox_step.induct) (auto intro: delivery_step_keeps restart_keeps)

lemma outbox_run_keeps: "outbox_run t ox c ox' \<Longrightarrow> keep t ox \<Longrightarrow> keep c ox'"
  by (induction rule: outbox_run.induct) (auto intro: outbox_step_keeps keep_later)

end

end
