(* ===== verification/OutboxLife.thy ===== *)
theory OutboxLife
  imports OutboxFacts
begin

text \<open>
  The laws of the rows of the outbox: what is true of every reachable row, how long a failing alert is
  kept, what the last gate before a send promises, and that a restart leaves no alert stuck.
\<close>

definition empty_outbox :: outbox where
  "empty_outbox = \<lparr>ox_rows = [], ox_next_id = 1, ox_health = [], ox_dropped = []\<rparr>"

section \<open>Every reachable row\<close>

definition row_ok :: "delivery \<Rightarrow> bool" where
  "row_ok r \<longleftrightarrow>
     0 \<le> ob_attempts r \<and> ob_attempts r \<le> deliveryMaxAttempts \<and> 0 \<le> ob_deferrals r \<and> ob_deferrals r \<le> deliveryMaxDeferrals \<and>
     (undelivered r \<longrightarrow> ob_attempts r < deliveryMaxAttempts \<and> ob_deferrals r < deliveryMaxDeferrals) \<and>
     (ob_sent_at r = None \<or> ob_terminal_at r = None) \<and> (\<not> live r \<longrightarrow> ob_claim_token r = []) \<and>
     (undelivered r \<longrightarrow> ob_started r \<noteq> None \<longrightarrow> changeWindowEventType (ob_event_type r)) \<and>
     (live r \<longrightarrow> ob_coalesce_after r \<longrightarrow> ob_started r \<noteq> None) \<and>
     (ob_terminal_at r \<noteq> None \<longrightarrow>
       ob_attempts r = deliveryMaxAttempts \<or> ob_deferrals r = deliveryMaxDeferrals \<or> ob_last_error r = ''payload_invalid'')"

definition row_law :: "int \<Rightarrow> int set \<Rightarrow> delivery \<Rightarrow> bool" where
  "row_law c D r \<longleftrightarrow> row_ok r \<and> (ob_terminal_at r \<noteq> None \<longrightarrow> ob_id r \<in> D)"

lemmas row_facts = row_ok_def row_parts row_kinds limits

lemma unmarked: "row_ok r \<Longrightarrow> held_by_worker r \<Longrightarrow> \<not> marked r \<Longrightarrow> \<not> ob_coalesce_after r"
  by (auto simp: row_facts)

lemma recovered_ok: "row_ok r \<Longrightarrow> begun r \<Longrightarrow> row_ok (recovered link now r)"
  by (auto simp: recovered_def row_facts Let_def coalesces_def keeps_marker_def split: option.splits if_splits)

lemma move_ok: "move_step now r r' \<Longrightarrow> row_ok r \<Longrightarrow> row_ok r'"
proof (induction rule: move_step.induct)
  case (recovers r now link)
  then show ?case by (intro recovered_ok)
next
  case (defers r now delay err)
  then show ?case using unmarked [OF defers.prems] by (simp add: row_facts)
next
  case (fails r err now)
  then show ?case using unmarked [OF fails.prems] by (simp add: row_facts)
qed (auto simp: row_facts due_def outside_window_def)

lemma drop_ok: "drop_step now r r' \<Longrightarrow> row_ok r \<Longrightarrow> row_ok r'"
proof (induction rule: drop_step.induct)
  case (deferred_out r now delay err)
  then show ?case using unmarked [OF deferred_out.prems] by (simp add: row_facts)
next
  case (failed_out r err now)
  then show ?case using unmarked [OF failed_out.prems] by (simp add: row_facts)
qed (auto simp: row_facts)

lemma restart_ok: "restart_step now r r' \<Longrightarrow> row_ok r \<Longrightarrow> row_ok r'"
  by (induction rule: restart_step.induct) (auto simp: row_facts)

lemma move_terminal_same: "move_step now r r' \<Longrightarrow> ob_terminal_at r' \<noteq> None \<Longrightarrow> ob_terminal_at r \<noteq> None"
  by (induction rule: move_step.induct) (auto simp: row_parts row_kinds recovered_def Let_def)

lemma restart_terminal: "restart_step now r r' \<Longrightarrow> ob_terminal_at r' = None"
  by (induction rule: restart_step.induct) (auto simp: row_parts row_kinds)

interpretation sound: lasting_row_invariant row_law base for base
proof
  show "row_law now D (queued_row i destination payload now tenant eventType job w)"
    for i now D destination payload tenant eventType job w
    by (simp add: row_law_def queued_row_def row_facts)
qed (auto simp: row_law_def move_ok drop_ok restart_ok step_ids restart_terminal dest: move_terminal_same)

lemma empty_keeps: "rows_keep Q 1 c empty_outbox"
  by (simp add: rows_keep_def empty_outbox_def)

lemma reached: "outbox_run t empty_outbox c ox \<Longrightarrow> rows_keep row_law 1 c ox"
  by (rule sound.outbox_run_keeps [OF _ empty_keeps])

section \<open>Samples\<close>

text \<open>A job with one planned change window, and deliveries whose sends fail.\<close>

definition sample_env :: outbox_env where
  "sample_env = \<lparr>oe_windows = [\<lparr>cw_id = ''w'', cw_job = ''j'', cw_start = 100, cw_end = 200, cw_closed = None\<rparr>],
     oe_tenant_of = (\<lambda>j. if j = ''j'' then Some ''t'' else None), oe_active = (\<lambda>_. True), oe_purging = (\<lambda>_ _. False),
     oe_job_purged = (\<lambda>_. False), oe_decodes = (\<lambda>_. True)\<rparr>"

definition sample_claim :: "int \<Rightarrow> outbox \<Rightarrow> outbox" where
  "sample_claim now ox = snd (claimDueDeliveries sample_env now 10 ''u'' [] [] ox)"

definition sample_queued :: "string \<Rightarrow> outbox" where
  "sample_queued eventType = snd (QueueEvent sample_env 0 ''d'' (Some ''t'') eventType ''j'' ''p'' empty_outbox)"

lemma queued_run: "outbox_run 0 empty_outbox 0 (sample_queued t)"
  unfolding sample_queued_def by (rule outbox_run.goes_on [OF outbox_run.here _ deliver [OF queue]]) simp

lemma sample_run: "outbox_run 0 empty_outbox 1 (sample_claim 1 (sample_queued t))"
  unfolding sample_claim_def by (rule outbox_run.goes_on [OF queued_run _ deliver [OF claims]]) simp_all

section \<open>The rows are sound\<close>

text \<open>
  C35: Whatever the workers, the administrators and the windows do, in any order, from the empty outbox:
  the identifiers stay distinct; the attempts and deferrals of a delivery stay within their budgets, and
  below them while it is pending; it is never both sent and dropped, and no claim is left on a delivery
  that has ended; one that is marked for its window has a send under way; and one is dropped only after
  fifteen failed attempts, eight deferrals, or with a payload that cannot be read, and then a terminal
  event records it.
\<close>

theorem outbox_rows_are_sound:
  assumes "outbox_run t empty_outbox c ox"
  shows "distinct (map ob_id (ox_rows ox)) \<and> (\<forall>r \<in> set (ox_rows ox).
    ob_attempts r \<in> {0..15} \<and> ob_deferrals r \<in> {0..8} \<and>
    (undelivered r \<longrightarrow> ob_attempts r < 15 \<and> ob_deferrals r < 8) \<and>
    (ob_sent_at r = None \<or> ob_terminal_at r = None) \<and>
    (\<not> live r \<longrightarrow> ob_claim_token r = []) \<and>
    (live r \<longrightarrow> ob_coalesce_after r \<longrightarrow> ob_started r \<noteq> None) \<and>
    (ob_terminal_at r \<noteq> None \<longrightarrow>
      (ob_attempts r = 15 \<or> ob_deferrals r = 8 \<or> ob_last_error r = ''payload_invalid'') \<and>
      (\<exists>d \<in> set (ox_dropped ox). dr_id d = ob_id r)))"
proof -
  have "row_ok r \<and> (ob_terminal_at r \<noteq> None \<longrightarrow> (\<exists>d \<in> set (ox_dropped ox). dr_id d = ob_id r))" if "r \<in> set (ox_rows ox)" for r
    using reached [OF assms] that unfolding rows_keep_def row_law_def recorded_def image_iff by metis
  moreover have "distinct (map ob_id (ox_rows ox))" using reached [OF assms] by (simp add: rows_keep_def)
  ultimately show ?thesis by (simp add: row_ok_def limits)
qed

theorem outbox_rows_are_sound_witness:
  "distinct (map ob_id (ox_rows (sample_claim 1 (sample_queued ''changes-detected'')))) \<and>
   map ob_claim_token (ox_rows (sample_claim 1 (sample_queued ''changes-detected''))) = [''u'']"
proof -
  have "map ob_claim_token (ox_rows (sample_claim 1 (sample_queued ''changes-detected''))) = [''u'']" by code_simp
  then show ?thesis using outbox_rows_are_sound [OF sample_run] by blast
qed

section \<open>How long a failing alert is kept\<close>

text \<open>The waiting times after the first failed attempts.\<close>

fun waited :: "nat \<Rightarrow> int" where
  "waited 0 = 0"
| "waited (Suc n) = waited n + deliveryRetryDelay (int n + 1)"

lemma waited_all: "waited 14 = 4622 * minute"
  by code_simp

lemma retry_doubling_nonneg: "0 \<le> d \<Longrightarrow> 0 \<le> retry_doubling n d"
  by (induction n d rule: retry_doubling.induct) (auto simp: deliveryMaxDelay_def minute_def)

lemma deliveryRetryDelay_nonneg: "0 \<le> deliveryRetryDelay n"
  using retry_doubling_nonneg [of deliveryInitialDelay] by (auto simp: deliveryRetryDelay_def deliveryInitialDelay_def minute_def)

lemma failure_delay_retry: "deliveryRetryDelay n \<le> failure_delay n err"
  by (simp add: failure_delay_def Let_def)

definition row_time :: "int \<Rightarrow> int \<Rightarrow> int \<Rightarrow> int set \<Rightarrow> delivery \<Rightarrow> bool" where
  "row_time i t c D r \<longleftrightarrow> (ob_id r = i \<longrightarrow>
     0 \<le> ob_attempts r \<and>
     (undelivered r \<longrightarrow> t + waited (nat (ob_attempts r)) \<le> c \<or>
       t + waited (nat (ob_attempts r)) \<le> ob_next_at r \<and> ob_claim_token r = [] \<and> ob_last_error r \<noteq> ''destination_locked'') \<and>
     (1 \<le> ob_attempts r \<longrightarrow> t + waited (nat (ob_attempts r - 1)) \<le> c))"

lemma move_time: "move_step now r r' \<Longrightarrow> row_time i t now D r \<Longrightarrow> row_time i t now D r'"
proof (induction rule: move_step.induct)
  case (fails r err now)
  have w: "waited (nat (ob_attempts r + 1)) = waited (nat (ob_attempts r)) + deliveryRetryDelay (ob_attempts r + 1)" if "0 \<le> ob_attempts r"
    using that by (simp add: nat_add_distrib)
  then show ?case using fails failure_delay_retry [of "ob_attempts r + 1" err]
    by (auto simp: row_time_def row_parts row_kinds deliveryErrorCode_def split: delivery_error.split)
qed (auto simp: row_time_def row_parts row_kinds due_def recovered_def Let_def)

lemma waited_mono: "waited n \<le> waited (Suc n)"
  by (simp add: deliveryRetryDelay_nonneg)

lemma drop_time: "drop_step now r r' \<Longrightarrow> row_time i t now D r \<Longrightarrow> row_time i t now D r'"
proof (induction rule: drop_step.induct)
  case (failed_out r err now)
  then show ?case by (auto simp: row_time_def row_parts row_kinds)
qed (auto simp: row_time_def row_parts row_kinds)

interpretation timed: row_invariant "row_time i t" "i + 1" for i t
proof
  show "row_time i t now D (queued_row j destination payload now tenant eventType job w)" if "i + 1 \<le> j"
    for i t j now D destination payload tenant eventType job w
    using that by (simp add: row_time_def queued_row_def)
  show "row_time i t now D r" if "row_time i t c D r" "c \<le> now" for i t c D r now
    using that by (auto simp: row_time_def)
  show "row_time i t now D r'" if "move_step now r r'" "row_time i t now D r" for i t now r r' D
    using that by (rule move_time)
  show "row_time i t now (insert (ob_id r) D) r'" if "drop_step now r r'" "row_time i t now D r" for i t now r r' D
    using drop_time [OF that] by (simp add: row_time_def)
qed (simp add: row_time_def)

text \<open>A delivery whose sends all fail, as soon as they may.\<close>

definition sample_round :: "int \<Rightarrow> outbox \<Rightarrow> outbox" where
  "sample_round now ox = snd (DeliveryResultClaim sample_env now 1 ''u'' (Some ErrDeliveryProvider) (sample_claim now ox))"

definition sample_dropped :: outbox where
  "sample_dropped = fold (sample_round \<circ> waited) [0..<15] (sample_queued ''scan-failed'')"

lemma round_run:
  assumes "delivery_run t ox c ox'" "c \<le> now"
  shows "delivery_run t ox now (sample_round now ox')"
proof -
  have "delivery_run t ox now (sample_claim now ox')"
    unfolding sample_claim_def by (rule delivery_run.goes_on [OF assms claims]) simp
  then show ?thesis unfolding sample_round_def by (rule delivery_run.goes_on [OF _ order_refl result]) simp
qed

lemma rounds_run: "delivery_run t ox (waited m) ox' \<Longrightarrow> delivery_run t ox (waited (m + n)) (fold (sample_round \<circ> waited) [Suc m..<Suc (m + n)] ox')"
proof (induction n)
  case (Suc n)
  then show ?case using round_run [OF Suc.IH [OF Suc.prems] waited_mono] by simp
qed simp

lemma dropped_run: "delivery_run 0 (sample_queued ''scan-failed'') (4622 * minute) sample_dropped"
proof -
  have "delivery_run 0 (sample_queued ''scan-failed'') (waited 0) (sample_round (waited 0) (sample_queued ''scan-failed''))"
    by (rule round_run [OF delivery_run.here]) simp
  from rounds_run [OF this, of 14] have "delivery_run 0 (sample_queued ''scan-failed'') (waited 14)
      (fold (sample_round \<circ> waited) [1..<15] (sample_round (waited 0) (sample_queued ''scan-failed'')))"
    by simp
  moreover have "[0..<15] = (0::nat) # [1..<15]" by (simp add: upt_rec)
  ultimately show ?thesis unfolding sample_dropped_def waited_all by simp
qed

lemma dropped_row: "map (\<lambda>r. (ob_id r, ob_attempts r, ob_deferrals r, ob_last_error r, ob_terminal_at r)) (ox_rows sample_dropped) =
  [(1, 15, 0, ''delivery_failed'', Some (4622 * minute))]"
  by code_simp

text \<open>
  C36: A delivery whose sends all fail is kept for a little over three days: after it was queued at a
  time, however often the workers try and whatever happens to it but a new start by an administrator,
  its attempt of number n+1 is not recorded before the waiting times of the first n failures have passed.
  When it is dropped after its fifteen attempts, 4622 minutes have passed.
\<close>

theorem failing_delivery_is_kept:
  assumes "outbox_run t empty_outbox q ox"
    and "QueueEvent env q destination tenant eventType job payload ox = (Inr (), ox0)"
    and "\<forall>r \<in> set (ox_rows ox). ob_destination r = destination \<longrightarrow> ob_payload r \<noteq> payload"
    and "delivery_run q ox0 c ox'"
    and "r \<in> set (ox_rows ox')" and "ob_id r = ox_next_id ox"
  shows "(ob_attempts r \<ge> 1 \<longrightarrow> q + waited (nat (ob_attempts r - 1)) \<le> c) \<and>
    (ob_terminal_at r \<noteq> None \<and> ob_deferrals r \<noteq> 8 \<and> ob_last_error r \<noteq> ''payload_invalid'' \<longrightarrow> q + 4622 * minute \<le> c)"
proof -
  define w where "w = (if changeWindowEventType eventType \<and> job \<noteq> [] then windowForQueuedChange env job (the (oe_tenant_of env job)) q else [])"
  have kept: "rows_keep row_law 1 q ox" by (rule reached [OF assms(1)])
  have ox0: "ox0 = ensureDeliveryHealth destination (ox\<lparr>ox_rows := ox_rows ox @ [queued_row (ox_next_id ox) destination payload q tenant eventType job w],
      ox_next_id := ox_next_id ox + 1\<rparr>)"
    using assms(2,3) by (auto simp: QueueEvent_def Let_def w_def split: if_splits)
  have "rows_keep (row_time (ox_next_id ox) q) (ox_next_id ox + 1) q ox0"
    using kept unfolding ox0 by (auto simp: rows_keep_def row_time_def queued_row_def recorded_def)
  then have "row_time (ox_next_id ox) q c (recorded ox') r"
    using timed.delivery_run_keeps [OF assms(4)] assms(5) by (auto simp: rows_keep_def)
  then have time: "ob_attempts r \<ge> 1 \<longrightarrow> q + waited (nat (ob_attempts r - 1)) \<le> c"
    using assms(6) by (simp add: row_time_def)
  have "rows_keep row_law 1 q ox0"
    using sound.queue_keeps [OF kept, of env destination tenant eventType job payload] assms(2) by simp
  then have "row_law c (recorded ox') r"
    using sound.delivery_run_keeps [OF assms(4)] assms(5) by (auto simp: rows_keep_def)
  then show ?thesis using time waited_all by (auto simp: row_law_def row_ok_def limits)
qed

theorem failing_delivery_is_kept_witness:
  "\<exists>r. ox_rows sample_dropped = [r] \<and> ob_terminal_at r = Some (4622 * minute) \<and> ob_attempts r = 15 \<and>
    0 + waited (nat (ob_attempts r - 1)) \<le> 4622 * minute"
proof -
  obtain r where rows: "ox_rows sample_dropped = [r]" and r: "ob_id r = 1" "ob_attempts r = 15" "ob_terminal_at r = Some (4622 * minute)"
    using dropped_row by auto
  have "QueueEvent sample_env 0 ''d'' (Some ''t'') ''scan-failed'' ''j'' ''p'' empty_outbox = (Inr (), sample_queued ''scan-failed'')"
    by (simp add: sample_queued_def QueueEvent_def changeWindowEventType_def sample_env_def empty_outbox_def)
  from failing_delivery_is_kept [OF outbox_run.here this _ dropped_run, of r] show ?thesis
    using rows r by (simp add: empty_outbox_def)
qed

section \<open>The last gate before a send\<close>

text \<open>Whether a planned change window is open for a job of a tenant.\<close>

definition open_for :: "outbox_env \<Rightarrow> string \<Rightarrow> string \<Rightarrow> int \<Rightarrow> change_window \<Rightarrow> bool" where
  "open_for env job tenant now q \<longleftrightarrow>
     cw_job q = job \<and> window_of_tenant env tenant q \<and> cw_closed q = None \<and> cw_start q \<le> now \<and> now < cw_end q"

lemma first_window_None: "first_window qs = None \<longleftrightarrow> qs = []"
proof -
  have "sort_key (\<lambda>q. (cw_start q, cw_id q)) qs = [] \<longleftrightarrow> qs = []"
    by (metis length_0_conv length_sort)
  then show ?thesis by (auto simp: first_window_def split: list.split)
qed

lemma first_window_Some: "first_window qs = Some q \<Longrightarrow> q \<in> set qs"
  by (auto simp: first_window_def split: list.splits dest: arg_cong [where f = set])

lemma no_active_window: "active_window env job tenant now = None \<longleftrightarrow> (\<forall>q \<in> set (oe_windows env). \<not> open_for env job tenant now q)"
  by (auto simp: active_window_def first_window_None filter_empty_conv open_for_def)

lemma queued_for_no_window:
  assumes "windowForQueuedChange env job tenant now = []" "\<forall>q \<in> set (oe_windows env). cw_id q \<noteq> []"
  shows "\<forall>q \<in> set (oe_windows env). \<not> open_for env job tenant now q"
proof -
  define qs where "qs = filter (\<lambda>q. window_of_tenant env tenant q \<and> cw_job q = job \<and> cw_closed q = None \<and> cw_end q > now) (oe_windows env)"
  have "first_window qs = None"
  proof (cases "first_window qs")
    case (Some q)
    then have "q \<in> set qs" by (rule first_window_Some)
    then show ?thesis using assms Some unfolding windowForQueuedChange_def qs_def [symmetric] by (auto simp: qs_def split: if_splits)
  qed simp
  then show ?thesis by (auto simp: first_window_None qs_def filter_empty_conv open_for_def)
qed

lemma linked_windowD: "linked_window env w tenant = Some q \<Longrightarrow> q \<in> set (oe_windows env) \<and> cw_id q = w \<and> window_of_tenant env tenant q"
  by (auto simp: linked_window_def find_Some_iff)

text \<open>
  C37: The gate \<open>BeginDeliveryAttempt\<close> lets a worker send a change alert of a job only if no planned
  change window of the job and its tenant is open, whatever window the row was linked to before.
\<close>

theorem no_change_alert_in_an_open_window:
  assumes "BeginDeliveryAttempt env now i token ox = (None, ox')"
    and "claimed_row i token ox = Some r"
    and "changeWindowEventType (ob_event_type r)" and "ob_event_job r \<noteq> []"
    and "distinct (map cw_id (oe_windows env))" and "\<forall>q \<in> set (oe_windows env). cw_id q \<noteq> []"
  shows "\<forall>q \<in> set (oe_windows env). \<not> open_for env (ob_event_job r) (tenant_text r) now q"
proof -
  define w where "w = (if ob_window r = [] \<and> ob_event_job r \<noteq> [] then windowForQueuedChange env (ob_event_job r) (tenant_text r) now else ob_window r)"
  have gate: "window_gate env now i (ob_event_job r) (tenant_text r) w ox = (None, ox')"
    using assms(1-3) by (auto simp: BeginDeliveryAttempt_def Let_def coalesce_held_def w_def split: if_splits)
  show ?thesis
  proof (cases "w = []")
    case True
    then have "windowForQueuedChange env (ob_event_job r) (tenant_text r) now = []"
      using assms(4) by (auto simp: w_def split: if_splits)
    then show ?thesis by (rule queued_for_no_window [OF _ assms(6)])
  next
    case False
    then obtain q where q: "linked_window env w (tenant_text r) = Some q"
      using gate by (cases "linked_window env w (tenant_text r)") (auto simp: window_gate_def)
    have link: "q \<in> set (oe_windows env)" "cw_id q = w" using linked_windowD [OF q] by blast+
    note passed = gate [unfolded window_gate_def hold_in_window_def coalesce_held_def Let_def] False q
    have shut: "cw_closed q = None" "now < cw_start q \<or> cw_end q \<le> now"
      using passed by (auto simp: ChangeWindowSummaryDestinationGrace_def minute_def split: if_splits)
    show ?thesis
    proof (cases "active_window env (ob_event_job r) (tenant_text r) now")
      case None
      then show ?thesis by (simp add: no_active_window)
    next
      case (Some a)
      then have a: "a \<in> set (oe_windows env)" "cw_start a \<le> now" "now < cw_end a"
        using first_window_Some by (fastforce simp: active_window_def)+
      then have "a \<noteq> q" using shut by auto
      then have "cw_id a \<noteq> w" using assms(5) link a(1) by (auto simp: distinct_map inj_on_def)
      then show ?thesis using passed shut Some by auto
    qed
  qed
qed

theorem no_change_alert_in_an_open_window_witness:
  "fst (BeginDeliveryAttempt sample_env 1 1 ''u'' (sample_claim 1 (sample_queued ''changes-detected''))) = None \<and>
   filter (open_for sample_env ''j'' ''t'' 1) (oe_windows sample_env) = []"
proof -
  define ox where "ox = sample_claim 1 (sample_queued ''changes-detected'')"
  have run: "fst (BeginDeliveryAttempt sample_env 1 1 ''u'' ox) = None \<and>
      map_option (\<lambda>r. (ob_event_type r, ob_event_job r, tenant_text r, ob_window r)) (claimed_row 1 ''u'' ox) = Some (''changes-detected'', ''j'', ''t'', ''w'')"
    unfolding ox_def by code_simp
  then obtain r where r: "claimed_row 1 ''u'' ox = Some r" "ob_event_type r = ''changes-detected''" "ob_event_job r = ''j''" "tenant_text r = ''t''"
    by auto
  have "BeginDeliveryAttempt sample_env 1 1 ''u'' ox = (None, snd (BeginDeliveryAttempt sample_env 1 1 ''u'' ox))"
    using run by (metis prod.collapse)
  from no_change_alert_in_an_open_window [OF this r(1)] show ?thesis
    using run r(2-4) by (simp add: changeWindowEventType_def sample_env_def ox_def filter_empty_conv)
qed

section \<open>A restart\<close>

definition outcome :: "outbox_env \<Rightarrow> int \<Rightarrow> delivery \<Rightarrow> delivery" where
  "outcome env now r = (case recoverStartedDelivery env now r of Inl _ \<Rightarrow> r | Inr r' \<Rightarrow> r')"

lemma outcome_id [simp]: "ob_id (outcome env now r) = ob_id r"
  by (simp add: outcome_def recoverStartedDelivery_def recovered_def Let_def unclaim_def split: option.split)

text \<open>A row whose claim is recovered keeps its mark only in a window that is open.\<close>

lemma outcome_marker:
  assumes "recoverStartedDelivery env now r = Inr (outcome env now r)" "ob_started (outcome env now r) \<noteq> None"
  shows "changeWindowEventType (ob_event_type r) \<and> ob_window (outcome env now r) = ob_window r \<and>
    (\<exists>q \<in> set (oe_windows env). cw_id q = ob_window r \<and> cw_closed q = None \<and> cw_start q \<le> now \<and> now < cw_end q)"
proof -
  define link where "link = (if ob_window r = [] then None else linked_window env (ob_window r) (tenant_text r))"
  have "outcome env now r = recovered link now r"
    using assms(1) by (auto simp: link_def recoverStartedDelivery_def split: if_splits option.splits)
  then have "keeps_marker link now r" "ob_window (outcome env now r) = ob_window r"
    using assms(2) by (auto simp: recovered_def Let_def unclaim_def split: if_splits)
  then show ?thesis using linked_windowD by (fastforce simp: link_def keeps_marker_def split: option.splits if_splits)
qed

lemma recover_all_rows:
  assumes "recover_all env now rs ox = Inr ox'" "distinct (map ob_id (ox_rows ox))" "distinct (map ob_id rs)" "set rs \<subseteq> set (ox_rows ox)"
  shows "ox_rows ox' = map (\<lambda>r. if r \<in> set rs then outcome env now r else r) (ox_rows ox) \<and>
    (\<forall>r \<in> set rs. recoverStartedDelivery env now r = Inr (outcome env now r))"
  using assms
proof (induction rs arbitrary: ox)
  case (Cons r rs)
  then have r: "recoverStartedDelivery env now r = Inr (outcome env now r)"
    and rest: "recover_all env now rs (update_id (ob_id r) (\<lambda>_. outcome env now r) ox) = Inr ox'"
    by (auto simp: outcome_def split: sum.splits)
  define ox1 where "ox1 = update_id (ob_id r) (\<lambda>_. outcome env now r) ox"
  have same: "s = r" if "s \<in> set (ox_rows ox)" "ob_id s = ob_id r" for s
    using that Cons.prems by (auto simp: distinct_map inj_on_def)
  have rows1: "ox_rows ox1 = map (\<lambda>s. if s = r then outcome env now r else s) (ox_rows ox)"
    using same by (auto simp: ox1_def update_id_def update_rows_def)
  have ids: "map ob_id (ox_rows ox1) = map ob_id (ox_rows ox)" unfolding rows1 by simp
  have new: "ob_id r \<notin> ob_id ` set rs" using Cons.prems(3) by simp
  have apart: "s \<noteq> r" "outcome env now r \<noteq> s" if "s \<in> set rs" for s
    using new that outcome_id [of env now r] by (metis image_eqI)+
  have "set rs \<subseteq> set (ox_rows ox1)"
  proof
    fix s assume "s \<in> set rs"
    then have "s \<in> set (ox_rows ox)" "s \<noteq> r" using Cons.prems(4) apart(1) by auto
    then show "s \<in> set (ox_rows ox1)" unfolding rows1 by force
  qed
  then have "ox_rows ox' = map (\<lambda>r. if r \<in> set rs then outcome env now r else r) (ox_rows ox1) \<and>
    (\<forall>r \<in> set rs. recoverStartedDelivery env now r = Inr (outcome env now r))"
    using Cons.IH [of ox1] rest Cons.prems(2,3) by (simp add: ids ox1_def [symmetric])
  moreover have "outcome env now r \<notin> set rs" using apart(2) by blast
  ultimately show ?case using r apart(1) by (auto simp: rows1)
qed simp

lemma startup_rows:
  assumes "ReleaseDeliveryClaims env now ox = (Inr n, ox')" "distinct (map ob_id (ox_rows ox))" "r' \<in> set (ox_rows ox')"
  obtains r where "r \<in> set (ox_rows ox)" "ob_sent_at r' = None \<longrightarrow> ob_claim_token r' = []"
    "\<not> begun r \<and> r' \<in> {r, unclaim r} \<or> begun r \<and> recoverStartedDelivery env now r = Inr (outcome env now r) \<and> r' \<in> {outcome env now r, unclaim (outcome env now r)}"
proof -
  define rs where "rs = sort_key ob_id (filter begun (ox_rows ox))"
  from assms(1) obtain ox1 where all: "recover_all env now rs ox = Inr ox1"
    and ox': "ox' = update_rows (\<lambda>r. ob_sent_at r = None \<and> ob_claim_token r \<noteq> []) unclaim ox1"
    by (auto simp: ReleaseDeliveryClaims_def rs_def split: sum.splits)
  have "distinct (map ob_id rs)" using assms(2) by (simp add: rs_def distinct_map distinct_filter inj_on_def)
  then have rows: "ox_rows ox1 = map (\<lambda>r. if begun r then outcome env now r else r) (ox_rows ox)"
    and ok: "\<forall>r \<in> set (ox_rows ox). begun r \<longrightarrow> recoverStartedDelivery env now r = Inr (outcome env now r)"
    using recover_all_rows [OF all assms(2)] by (auto simp: rs_def)
  from assms(3) obtain s where s: "s \<in> set (ox_rows ox1)" "r' = (if ob_sent_at s = None \<and> ob_claim_token s \<noteq> [] then unclaim s else s)"
    by (auto simp: ox' update_rows_def)
  from s(1) obtain r where r: "r \<in> set (ox_rows ox)" "s = (if begun r then outcome env now r else r)" by (auto simp: rows)
  show ?thesis
    by (rule that [OF r(1)]) (use s(2) r ok in \<open>auto simp: unclaim_def\<close>)
qed

text \<open>
  C38: When the daemon starts, no delivery stays stuck with a worker that is gone: after
  \<open>ReleaseDeliveryClaims\<close>, a delivery that is still to be sent is either a change alert whose send was
  under way and whose window is open, or it can be claimed as soon as its time has come, its tenant is
  active and no open window holds it.
\<close>

theorem restart_leaves_no_delivery_stuck:
  assumes "outbox_run t empty_outbox c ox" and "c \<le> now"
    and "ReleaseDeliveryClaims env now ox = (Inr n, ox')"
    and "r' \<in> set (ox_rows ox')" and "live r'"
  shows "(changeWindowEventType (ob_event_type r') \<and>
      (\<exists>q \<in> set (oe_windows env). cw_id q = ob_window r' \<and> cw_closed q = None \<and> cw_start q \<le> now \<and> now < cw_end q)) \<or>
    (\<forall>env' later. ob_next_at r' \<le> later \<and> sendable env' r' \<and>
      (\<forall>q \<in> set (oe_windows env'). cw_id q = ob_window r' \<and> cw_closed q = None \<longrightarrow>
        later < cw_start q \<or> cw_end q + ChangeWindowSummaryDestinationGrace \<le> later) \<longrightarrow>
      due env' later [] r')"
proof (cases "ob_started r' = None")
  case True
  have kept: "rows_keep row_law 1 now ox" using sound.keep_later [OF reached [OF assms(1)] assms(2)] .
  have "row_law now (recorded ox') r'"
    using sound.startup_keeps [OF kept, of env] assms(3,4) by (auto simp: rows_keep_def)
  moreover obtain r where "ob_sent_at r' = None \<longrightarrow> ob_claim_token r' = []"
    using startup_rows [OF assms(3) _ assms(4)] kept by (auto simp: rows_keep_def)
  ultimately have "ob_claim_token r' = []" "ob_attempts r' < deliveryMaxAttempts" "undelivered r'" "\<not> ob_coalesce_after r'" "ob_coalesced r' = None"
    using True assms(5) by (auto simp: row_law_def row_ok_def row_kinds)
  then have "due env' later [] r'" if "ob_next_at r' \<le> later" "sendable env' r'"
    "\<forall>q \<in> set (oe_windows env'). cw_id q = ob_window r' \<and> cw_closed q = None \<longrightarrow>
        later < cw_start q \<or> cw_end q + ChangeWindowSummaryDestinationGrace \<le> later" for env' later
    using True that by (fastforce simp: due_def free_claim_def outside_window_def)
  then show ?thesis by blast
next
  case False
  have "distinct (map ob_id (ox_rows ox))" using reached [OF assms(1)] by (simp add: rows_keep_def)
  then obtain r where "\<not> begun r \<and> r' \<in> {r, unclaim r} \<or>
      begun r \<and> recoverStartedDelivery env now r = Inr (outcome env now r) \<and> r' \<in> {outcome env now r, unclaim (outcome env now r)}"
    using startup_rows [OF assms(3) _ assms(4)] by metis
  moreover have "begun r" if "r' \<in> {r, unclaim r}" using that False assms(5) by (auto simp: row_kinds unclaim_def)
  ultimately have r: "recoverStartedDelivery env now r = Inr (outcome env now r)" "r' \<in> {outcome env now r, unclaim (outcome env now r)}"
    by blast+
  then have "ob_started (outcome env now r) \<noteq> None" using False by (auto simp: unclaim_def)
  moreover have "ob_event_type (outcome env now r) = ob_event_type r"
    by (simp add: outcome_def recoverStartedDelivery_def recovered_def Let_def unclaim_def split: option.split)
  ultimately show ?thesis using outcome_marker [OF r(1)] r(2) by (auto simp: unclaim_def)
qed

theorem restart_leaves_no_delivery_stuck_witness:
  "\<exists>r. ox_rows (snd (ReleaseDeliveryClaims sample_env 2 (sample_claim 1 (sample_queued ''scan-failed'')))) = [r] \<and> due sample_env 7 [] r"
proof -
  define ox where "ox = sample_claim 1 (sample_queued ''scan-failed'')"
  have run: "fst (ReleaseDeliveryClaims sample_env 2 ox) = Inr 1 \<and>
    map (\<lambda>r. (ob_next_at r, live r, sendable sample_env r, ob_event_type r, ob_window r)) (ox_rows (snd (ReleaseDeliveryClaims sample_env 2 ox))) =
      [(0, True, True, ''scan-failed'', [])]"
    unfolding ox_def by code_simp
  then obtain r where r: "ox_rows (snd (ReleaseDeliveryClaims sample_env 2 ox)) = [r]" "ob_next_at r = 0" "live r"
      "sendable sample_env r" "ob_event_type r = ''scan-failed''" "ob_window r = []" by auto
  have released: "ReleaseDeliveryClaims sample_env 2 ox = (Inr 1, snd (ReleaseDeliveryClaims sample_env 2 ox))"
    using run by (metis prod.collapse)
  have "\<not> changeWindowEventType (ob_event_type r)" by (simp add: r changeWindowEventType_def)
  moreover have "\<forall>q \<in> set (oe_windows sample_env). cw_id q \<noteq> ob_window r" by (simp add: r sample_env_def)
  ultimately have "due sample_env 7 [] r"
    using restart_leaves_no_delivery_stuck [OF sample_run, of 2 sample_env "''scan-failed''" 1 "snd (ReleaseDeliveryClaims sample_env 2 ox)" r]
      released r(1-4) by (simp add: ox_def)
  then show ?thesis using r(1) by (auto simp: ox_def)
qed

end
