(* ===== verification/OutboxContract.thy ===== *)
theory OutboxContract
  imports Outbox
begin

text \<open>
  \<open>internal/store/outbox_transitions.go\<close>: the table of the named transitions of an outbox row, with what
  each does to every column, its validation, and the statements that are built against it. Messages of
  errors are constructors; a loop over a Go map is a loop over the association list.
\<close>

section \<open>The table\<close>

definition outboxTransitionColumns :: "string list" where
  "outboxTransitionColumns =
     [''id'', ''destination'', ''payload_json'', ''attempts'', ''next_at'', ''sent_at'', ''last_error'', ''claim_token'', ''claim_until'',
      ''deferrals'', ''terminal_at'', ''tenant_id'', ''event_type'', ''event_job_id'', ''change_window_id'', ''attempt_started_at'',
      ''coalesce_after_attempt'', ''coalesced_at'']"

type_synonym disposition = string

abbreviation outboxPreserve :: disposition where "outboxPreserve \<equiv> ''preserve''"
abbreviation outboxSet :: disposition where "outboxSet \<equiv> ''set''"
abbreviation outboxReset :: disposition where "outboxReset \<equiv> ''reset''"
abbreviation outboxConditional :: disposition where "outboxConditional \<equiv> ''conditional''"

record transition_contract =
  tc_columns :: "(string, disposition) gomap"
  tc_errors :: "string list"

record 'a column_change =
  cc_column :: string
  cc_disposition :: disposition
  cc_expression :: string
  cc_args :: "'a list"

definition outboxIdentityPreservedColumns :: "string list" where
  "outboxIdentityPreservedColumns = [''id'', ''payload_json'', ''tenant_id'', ''event_type'', ''event_job_id'']"

text \<open>\<open>add\<close>: a column that has a disposition already is an error, which keeps the column's name.\<close>

definition classify :: "disposition \<Rightarrow> string \<Rightarrow> transition_contract \<Rightarrow> transition_contract" where
  "classify d name c =
     (if mhas (tc_columns c) name then c\<lparr>tc_errors := tc_errors c @ [name]\<rparr> else c\<lparr>tc_columns := mput name d (tc_columns c)\<rparr>)"

definition transitionContract :: "string list \<Rightarrow> string list \<Rightarrow> string list \<Rightarrow> string list \<Rightarrow> transition_contract" where
  "transitionContract set0 reset conditional preserve =
     fold (classify outboxConditional) conditional
       (fold (classify outboxReset) reset
         (fold (classify outboxSet) set0
           (fold (classify outboxPreserve) preserve
             (fold (classify outboxPreserve) outboxIdentityPreservedColumns \<lparr>tc_columns = [], tc_errors = []\<rparr>))))"

definition transitionContractPreservingSentAt :: "string list \<Rightarrow> string list \<Rightarrow> string list \<Rightarrow> string list \<Rightarrow> transition_contract" where
  "transitionContractPreservingSentAt set0 reset conditional preserve = transitionContract set0 reset conditional (preserve @ [''sent_at''])"

definition outboxTransitionContracts :: "(string, transition_contract) gomap" where
  "outboxTransitionContracts = [
    (''claim_due'', transitionContractPreservingSentAt
      [''claim_token'', ''claim_until'']
      []
      []
      [''destination'', ''attempts'', ''next_at'', ''last_error'', ''deferrals'', ''terminal_at'', ''change_window_id'', ''attempt_started_at'', ''coalesce_after_attempt'', ''coalesced_at'']),
    (''begin_attempt'', transitionContractPreservingSentAt
      [''attempt_started_at'']
      []
      []
      [''destination'', ''attempts'', ''next_at'', ''last_error'', ''claim_token'', ''claim_until'', ''deferrals'', ''terminal_at'', ''change_window_id'', ''coalesce_after_attempt'', ''coalesced_at'']),
    (''hold_in_window'', transitionContractPreservingSentAt
      [''change_window_id'', ''next_at'']
      [''last_error'', ''claim_token'', ''claim_until'']
      []
      [''destination'', ''attempts'', ''deferrals'', ''terminal_at'', ''attempt_started_at'', ''coalesce_after_attempt'', ''coalesced_at'']),
    (''release_claim'', transitionContractPreservingSentAt
      [''next_at'']
      [''claim_token'', ''claim_until'', ''attempt_started_at'']
      []
      [''destination'', ''attempts'', ''last_error'', ''deferrals'', ''terminal_at'', ''change_window_id'', ''coalesce_after_attempt'', ''coalesced_at'']),
    (''release_held_claim'', transitionContractPreservingSentAt
      []
      [''last_error'', ''claim_token'', ''claim_until'']
      []
      [''destination'', ''attempts'', ''next_at'', ''deferrals'', ''terminal_at'', ''change_window_id'', ''attempt_started_at'', ''coalesce_after_attempt'', ''coalesced_at'']),
    (''coalesce_held_change'', transitionContractPreservingSentAt
      []
      [''last_error'', ''claim_token'', ''claim_until'']
      [''coalesced_at'']
      [''destination'', ''attempts'', ''next_at'', ''deferrals'', ''terminal_at'', ''change_window_id'', ''attempt_started_at'', ''coalesce_after_attempt'']),
    (''recover_startup_attempt'', transitionContractPreservingSentAt
      []
      [''claim_token'', ''claim_until'']
      [''attempt_started_at'', ''coalesced_at'', ''last_error'', ''coalesce_after_attempt'']
      [''destination'', ''attempts'', ''next_at'', ''deferrals'', ''terminal_at'', ''change_window_id'']),
    (''recover_expired_attempt'', transitionContractPreservingSentAt
      []
      [''claim_token'', ''claim_until'']
      [''attempt_started_at'', ''coalesced_at'', ''last_error'', ''coalesce_after_attempt'']
      [''destination'', ''attempts'', ''next_at'', ''deferrals'', ''terminal_at'', ''change_window_id'']),
    (''release_startup_claims'', transitionContractPreservingSentAt
      []
      [''claim_token'', ''claim_until'']
      []
      [''destination'', ''attempts'', ''next_at'', ''last_error'', ''deferrals'', ''terminal_at'', ''change_window_id'', ''attempt_started_at'', ''coalesce_after_attempt'', ''coalesced_at'']),
    (''redeliver_terminal'', transitionContractPreservingSentAt
      [''destination'', ''next_at'']
      [''attempts'', ''last_error'', ''claim_token'', ''claim_until'', ''deferrals'', ''terminal_at'', ''change_window_id'', ''attempt_started_at'', ''coalesce_after_attempt'']
      []
      [''coalesced_at'']),
    (''assign_pending_window'', transitionContractPreservingSentAt
      [''change_window_id'']
      []
      []
      [''destination'', ''attempts'', ''next_at'', ''last_error'', ''claim_token'', ''claim_until'', ''deferrals'', ''terminal_at'', ''attempt_started_at'', ''coalesce_after_attempt'', ''coalesced_at'']),
    (''close_pending_window_row'', transitionContractPreservingSentAt
      [''coalesced_at'']
      [''last_error'', ''claim_token'', ''claim_until'']
      []
      [''destination'', ''attempts'', ''next_at'', ''deferrals'', ''terminal_at'', ''change_window_id'', ''attempt_started_at'', ''coalesce_after_attempt'']),
    (''close_in_flight_window_row'', transitionContractPreservingSentAt
      [''coalesce_after_attempt'']
      []
      []
      [''destination'', ''attempts'', ''next_at'', ''last_error'', ''claim_token'', ''claim_until'', ''deferrals'', ''terminal_at'', ''change_window_id'', ''attempt_started_at'', ''coalesced_at'']),
    (''close_orphaned_window_row'', transitionContractPreservingSentAt
      [''coalesced_at'']
      [''attempt_started_at'', ''coalesce_after_attempt'', ''last_error'']
      []
      [''destination'', ''attempts'', ''next_at'', ''claim_token'', ''claim_until'', ''deferrals'', ''terminal_at'', ''change_window_id'']),
    (''cancel_pending_window_row'', transitionContractPreservingSentAt
      []
      []
      [''change_window_id'']
      [''destination'', ''attempts'', ''next_at'', ''last_error'', ''claim_token'', ''claim_until'', ''deferrals'', ''terminal_at'', ''coalesced_at'', ''attempt_started_at'', ''coalesce_after_attempt'']),
    (''release_alerts_without_summary_notification'', transitionContractPreservingSentAt
      []
      []
      [''change_window_id'', ''claim_token'', ''claim_until'']
      [''destination'', ''attempts'', ''next_at'', ''last_error'', ''deferrals'', ''terminal_at'', ''attempt_started_at'', ''coalesce_after_attempt'', ''coalesced_at'']),
    (''rename_destination'', transitionContractPreservingSentAt
      [''destination'']
      []
      []
      [''attempts'', ''next_at'', ''last_error'', ''claim_token'', ''claim_until'', ''deferrals'', ''terminal_at'', ''change_window_id'', ''attempt_started_at'', ''coalesce_after_attempt'', ''coalesced_at'']),
    (''age_locked_delivery'', transitionContractPreservingSentAt
      [''deferrals'', ''next_at'', ''last_error'', ''terminal_at'']
      [''claim_token'', ''claim_until'']
      []
      [''destination'', ''attempts'', ''coalesce_after_attempt'', ''change_window_id'', ''attempt_started_at'', ''coalesced_at'']),
    (''wake_locked_delivery'', transitionContractPreservingSentAt
      [''next_at'']
      []
      []
      [''destination'', ''attempts'', ''last_error'', ''claim_token'', ''claim_until'', ''deferrals'', ''terminal_at'', ''change_window_id'', ''attempt_started_at'', ''coalesce_after_attempt'', ''coalesced_at'']),
    (''invalid_payload_terminal'', transitionContractPreservingSentAt
      [''terminal_at'', ''last_error'']
      [''claim_token'', ''claim_until'']
      []
      [''destination'', ''attempts'', ''next_at'', ''deferrals'', ''change_window_id'', ''attempt_started_at'', ''coalesce_after_attempt'', ''coalesced_at'']),
    (''complete_sent_delivery'', transitionContract
      [''sent_at'']
      [''last_error'', ''claim_token'', ''claim_until'', ''attempt_started_at'']
      []
      [''destination'', ''attempts'', ''next_at'', ''deferrals'', ''terminal_at'', ''change_window_id'', ''coalesce_after_attempt'', ''coalesced_at'']),
    (''complete_sent_after_coalesce'', transitionContract
      [''sent_at'']
      [''last_error'', ''claim_token'', ''claim_until'', ''attempt_started_at'', ''coalesce_after_attempt'']
      []
      [''destination'', ''attempts'', ''next_at'', ''deferrals'', ''terminal_at'', ''change_window_id'', ''coalesced_at'']),
    (''coalesce_completed_attempt'', transitionContractPreservingSentAt
      [''coalesced_at'']
      [''last_error'', ''claim_token'', ''claim_until'', ''attempt_started_at'', ''coalesce_after_attempt'']
      []
      [''destination'', ''attempts'', ''next_at'', ''deferrals'', ''terminal_at'', ''change_window_id'']),
    (''defer_indeterminate_delivery'', transitionContractPreservingSentAt
      [''deferrals'', ''next_at'', ''last_error'', ''terminal_at'']
      [''claim_token'', ''claim_until'', ''attempt_started_at'']
      []
      [''destination'', ''attempts'', ''change_window_id'', ''coalesce_after_attempt'', ''coalesced_at'']),
    (''record_send_failure'', transitionContractPreservingSentAt
      [''attempts'', ''next_at'', ''last_error'', ''terminal_at'']
      [''claim_token'', ''claim_until'', ''attempt_started_at'']
      []
      [''destination'', ''deferrals'', ''change_window_id'', ''coalesce_after_attempt'', ''coalesced_at'']),
    (''coalesce_deferred_attempt'', transitionContractPreservingSentAt
      [''coalesced_at'']
      [''last_error'', ''claim_token'', ''claim_until'', ''attempt_started_at'', ''coalesce_after_attempt'']
      []
      [''destination'', ''attempts'', ''next_at'', ''deferrals'', ''terminal_at'', ''change_window_id'']),
    (''keep_pending_after_credential_rotation'', transitionContractPreservingSentAt
      [''destination'', ''next_at'']
      [''attempts'', ''deferrals'', ''last_error'', ''claim_token'', ''claim_until'', ''attempt_started_at'']
      []
      [''terminal_at'', ''change_window_id'', ''coalesce_after_attempt'', ''coalesced_at'']),
    (''mark_in_flight_for_coalescing'', transitionContractPreservingSentAt
      [''coalesce_after_attempt'']
      []
      []
      [''destination'', ''attempts'', ''next_at'', ''last_error'', ''claim_token'', ''claim_until'', ''deferrals'', ''terminal_at'', ''change_window_id'', ''attempt_started_at'', ''coalesced_at'']),
    (''move_terminal_delivery_selector'', transitionContractPreservingSentAt
      [''destination'']
      []
      []
      [''attempts'', ''next_at'', ''last_error'', ''claim_token'', ''claim_until'', ''deferrals'', ''terminal_at'', ''change_window_id'', ''attempt_started_at'', ''coalesce_after_attempt'', ''coalesced_at'']),
    (''merge_imported_delivery_state'', transitionContractPreservingSentAt
      [''attempts'', ''deferrals'', ''next_at'']
      []
      []
      [''destination'', ''last_error'', ''claim_token'', ''claim_until'', ''terminal_at'', ''change_window_id'', ''attempt_started_at'', ''coalesce_after_attempt'', ''coalesced_at'']),
    (''move_imported_delivery_selector'', transitionContractPreservingSentAt
      [''destination'']
      []
      []
      [''attempts'', ''next_at'', ''last_error'', ''claim_token'', ''claim_until'', ''deferrals'', ''terminal_at'', ''change_window_id'', ''attempt_started_at'', ''coalesce_after_attempt'', ''coalesced_at''])]"

section \<open>Validation\<close>

datatype contract_error =
    MissingColumn string
  | ColumnWithoutClassification string
  | NoTransitions
  | InvalidClassification string
  | NotClassified string string
  | InvalidDisposition string string
  | ClassifiesUnknown string string
  | UnknownTransition string
  | NoPredicate string
  | NoAssignments string
  | AssignsTwice string string
  | CannotAssign string string
  | EmptyExpression string string
  | NotAssigned string string

text \<open>The first error of a list of checks.\<close>

fun first_error :: "('a \<Rightarrow> contract_error option) \<Rightarrow> 'a list \<Rightarrow> contract_error option" where
  "first_error f [] = None"
| "first_error f (x # xs) = (case f x of None \<Rightarrow> first_error f xs | Some e \<Rightarrow> Some e)"

definition validate_contract :: "string list \<Rightarrow> string \<times> transition_contract \<Rightarrow> contract_error option" where
  "validate_contract columns = (\<lambda>(name, contract).
     if tc_errors contract \<noteq> [] then Some (InvalidClassification name)
     else case first_error (\<lambda>column. case mget (tc_columns contract) column of
             None \<Rightarrow> Some (NotClassified name column)
           | Some d \<Rightarrow> if d \<in> set [outboxPreserve, outboxSet, outboxReset, outboxConditional] then None else Some (InvalidDisposition name column)) columns of
         Some e \<Rightarrow> Some e
       | None \<Rightarrow> first_error (\<lambda>column. if column \<in> set columns then None else Some (ClassifiesUnknown name column)) (mkeys (tc_columns contract)))"

definition validateOutboxTransitionContracts :: "string list \<Rightarrow> (string, transition_contract) gomap \<Rightarrow> contract_error option" where
  "validateOutboxTransitionContracts columns contracts =
     (if contracts = [] then Some NoTransitions else first_error (validate_contract columns) contracts)"

definition outboxTransitionContractError :: "string list \<Rightarrow> contract_error option" where
  "outboxTransitionContractError actualColumns =
     (case first_error (\<lambda>column. if column \<in> set actualColumns then None else Some (MissingColumn column)) outboxTransitionColumns of
        Some e \<Rightarrow> Some e
      | None \<Rightarrow>
          (case filter (\<lambda>column. column \<notin> set outboxTransitionColumns) actualColumns of
             column # _ \<Rightarrow> Some (ColumnWithoutClassification column)
           | [] \<Rightarrow> validateOutboxTransitionContracts outboxTransitionColumns outboxTransitionContracts))"

section \<open>Statements\<close>

fun check_changes :: "string \<Rightarrow> transition_contract \<Rightarrow> string list \<Rightarrow> 'a column_change list \<Rightarrow> contract_error + string list" where
  "check_changes name contract seen [] = Inr seen"
| "check_changes name contract seen (change # changes) =
     (if cc_column change \<in> set seen then Inl (AssignsTwice name (cc_column change))
      else if mget (tc_columns contract) (cc_column change) \<noteq> Some (cc_disposition change) \<or> cc_disposition change = outboxPreserve
      then Inl (CannotAssign name (cc_column change))
      else if trimSpace (cc_expression change) = [] then Inl (EmptyExpression name (cc_column change))
      else check_changes name contract (cc_column change # seen) changes)"

definition validateOutboxTransitionChanges :: "string \<Rightarrow> transition_contract \<Rightarrow> 'a column_change list \<Rightarrow> contract_error option" where
  "validateOutboxTransitionChanges name contract changes =
     (case check_changes name contract [] changes of
        Inl e \<Rightarrow> Some e
      | Inr seen \<Rightarrow> first_error (\<lambda>(column, d). if d = outboxPreserve \<or> column \<in> set seen then None else Some (NotAssigned name column)) (tc_columns contract))"

definition buildOutboxTransitionStatement ::
  "string \<Rightarrow> string \<Rightarrow> 'a list \<Rightarrow> 'a column_change list \<Rightarrow> contract_error + string \<times> 'a list" where
  "buildOutboxTransitionStatement name predicate whereArgs changes =
     (case mget outboxTransitionContracts name of
        None \<Rightarrow> Inl (UnknownTransition name)
      | Some contract \<Rightarrow>
          if trimSpace predicate = [] then Inl (NoPredicate name)
          else if changes = [] then Inl (NoAssignments name)
          else case validateOutboxTransitionChanges name contract changes of
              Some e \<Rightarrow> Inl e
            | None \<Rightarrow>
                Inr (''UPDATE outbox SET '' @ joinWith '','' (map (\<lambda>c. cc_column c @ ''='' @ cc_expression c) changes) @ '' WHERE '' @ predicate,
                  concat (map cc_args changes) @ whereArgs))"

section \<open>What is accepted\<close>

text \<open>The columns that a transition does not preserve.\<close>

definition assigned_columns :: "transition_contract \<Rightarrow> (string \<times> disposition) list" where
  "assigned_columns contract = filter (\<lambda>(_, d). d \<noteq> outboxPreserve) (tc_columns contract)"

lemma first_error_None: "first_error f xs = None \<longleftrightarrow> (\<forall>x \<in> set xs. f x = None)"
  by (induction xs) (auto split: option.split)

lemma table_is_valid: "outboxTransitionContractError outboxTransitionColumns = None"
  by code_simp

lemma table_contract:
  assumes "mget outboxTransitionContracts name = Some contract"
  shows "validate_contract outboxTransitionColumns (name, contract) = None"
proof -
  have "first_error (validate_contract outboxTransitionColumns) outboxTransitionContracts = None"
    using table_is_valid by (auto simp: outboxTransitionContractError_def validateOutboxTransitionContracts_def split: option.splits list.splits if_splits)
  then show ?thesis using mget_SomeD [OF assms] by (simp add: first_error_None)
qed

lemma classify_wf: "wf_map (tc_columns c) \<Longrightarrow> wf_map (tc_columns (classify d name c))"
  by (simp add: classify_def)

lemma classify_all_wf: "wf_map (tc_columns c) \<Longrightarrow> wf_map (tc_columns (fold (classify d) names c))"
  by (induction names arbitrary: c) (auto simp: classify_wf)

lemma transitionContract_wf: "wf_map (tc_columns (transitionContract a b c d))"
  unfolding transitionContract_def by (intro classify_all_wf) simp

lemma table_wf: "mget outboxTransitionContracts name = Some contract \<Longrightarrow> wf_map (tc_columns contract)"
  unfolding outboxTransitionContracts_def by (auto simp: transitionContractPreservingSentAt_def transitionContract_wf split: if_splits)

lemma check_changes_accepts:
  "(\<exists>seen'. check_changes name contract seen changes = Inr seen') \<longleftrightarrow>
   distinct (map cc_column changes) \<and> set (map cc_column changes) \<inter> set seen = {} \<and>
   (\<forall>c \<in> set changes. mget (tc_columns contract) (cc_column c) = Some (cc_disposition c) \<and> cc_disposition c \<noteq> outboxPreserve \<and> trimSpace (cc_expression c) \<noteq> [])"
  by (induction name contract seen changes rule: check_changes.induct) auto

lemma check_changes_seen: "check_changes name contract seen changes = Inr seen' \<Longrightarrow> set seen' = set (map cc_column changes) \<union> set seen"
  by (induction name contract seen changes rule: check_changes.induct) (auto split: if_splits)

lemma exact_pairs:
  assumes "\<And>k d d'. (k, d) \<in> set C \<Longrightarrow> (k, d') \<in> set C \<Longrightarrow> d = d'"
  shows "((\<forall>c \<in> X. (f c, g c) \<in> set C \<and> g c \<noteq> p) \<and> (\<forall>(k, d) \<in> set C. d = p \<or> k \<in> f ` X)) \<longleftrightarrow>
    (\<lambda>c. (f c, g c)) ` X = set (filter (\<lambda>(_, d). d \<noteq> p) C)"
    (is "?all \<longleftrightarrow> ?set = ?rest")
proof
  assume all: ?all
  have "x \<in> ?set" if x: "x \<in> ?rest" for x
  proof -
    obtain k d where kd: "x = (k, d)" "(k, d) \<in> set C" "d \<noteq> p" using x by auto
    then obtain c where "c \<in> X" "k = f c" using all by blast
    then show ?thesis using all assms kd by blast
  qed
  then show "?set = ?rest" using all by auto
next
  assume eq: "?set = ?rest"
  have "(f c, g c) \<in> set C \<and> g c \<noteq> p" if "c \<in> X" for c
    using arg_cong [OF eq, of "\<lambda>S. (f c, g c) \<in> S"] that by auto
  moreover have "d = p \<or> k \<in> f ` X" if "(k, d) \<in> set C" for k d
    using arg_cong [OF eq, of "\<lambda>S. (k, d) \<in> S"] that by auto
  ultimately show ?all by blast
qed

text \<open>
  C40: The table of transitions is valid, and \<open>buildOutboxTransitionStatement\<close> accepts exactly the lists
  of changes that do what the table says: of a named transition, under a condition, with one expression
  for each column that the transition does not preserve, of the disposition that the table gives it, and
  with no other column.
\<close>

theorem built_statements_do_what_the_table_says:
  fixes changes :: "'a column_change list"
  shows "outboxTransitionContractError outboxTransitionColumns = None \<and>
    ((\<exists>statement. buildOutboxTransitionStatement name predicate whereArgs changes = Inr statement) \<longleftrightarrow>
     (\<exists>contract. mget outboxTransitionContracts name = Some contract \<and> trimSpace predicate \<noteq> [] \<and> changes \<noteq> [] \<and>
       distinct (map cc_column changes) \<and> (\<forall>c \<in> set changes. trimSpace (cc_expression c) \<noteq> []) \<and>
       set (map (\<lambda>c. (cc_column c, cc_disposition c)) changes) = set (assigned_columns contract)))"
proof -
  have accepts: "validateOutboxTransitionChanges name contract changes = None \<longleftrightarrow>
      distinct (map cc_column changes) \<and> (\<forall>c \<in> set changes. trimSpace (cc_expression c) \<noteq> []) \<and>
      set (map (\<lambda>c. (cc_column c, cc_disposition c)) changes) = set (assigned_columns contract)"
    (is "_ \<longleftrightarrow> ?exact") if "mget outboxTransitionContracts name = Some contract" for contract
  proof -
    have get: "mget (tc_columns contract) k = Some d \<longleftrightarrow> (k, d) \<in> set (tc_columns contract)" for k d
      by (rule mget_eq_Some_mem [OF table_wf [OF that]])
    have one: "d = d'" if "(k, d) \<in> set (tc_columns contract)" "(k, d') \<in> set (tc_columns contract)" for k d d'
      using that get [of k d] get [of k d'] by simp
    have "validateOutboxTransitionChanges name contract changes = None \<longleftrightarrow>
      (\<exists>seen. check_changes name contract [] changes = Inr seen) \<and>
      (\<forall>(k, d) \<in> set (tc_columns contract). d = outboxPreserve \<or> k \<in> set (map cc_column changes))"
      using check_changes_seen [of name contract "[]" changes]
      by (auto simp: validateOutboxTransitionChanges_def first_error_None split: sum.splits if_splits)
    also have "\<dots> \<longleftrightarrow> ?exact"
    proof -
      have "((\<forall>c \<in> set changes. (cc_column c, cc_disposition c) \<in> set (tc_columns contract) \<and> cc_disposition c \<noteq> outboxPreserve) \<and>
          (\<forall>(k, d) \<in> set (tc_columns contract). d = outboxPreserve \<or> k \<in> cc_column ` set changes)) \<longleftrightarrow>
        (\<lambda>c. (cc_column c, cc_disposition c)) ` set changes = set (assigned_columns contract)"
        unfolding assigned_columns_def by (rule exact_pairs) (rule one)
      then show ?thesis unfolding check_changes_accepts get set_map list.set(1) Int_empty_right ball_conj_distrib by argo
    qed
    finally show ?thesis .
  qed
  show ?thesis using accepts table_is_valid
    by (auto simp: buildOutboxTransitionStatement_def split: option.splits)
qed

text \<open>The changes that \<open>BeginDeliveryAttempt\<close> makes.\<close>

theorem built_statements_do_what_the_table_says_witness:
  "\<exists>statement. buildOutboxTransitionStatement ''begin_attempt'' ''id=?'' [1 :: int]
     [\<lparr>cc_column = ''attempt_started_at'', cc_disposition = outboxSet, cc_expression = ''?'', cc_args = [7]\<rparr>] = Inr statement"
proof -
  have run: "map_option assigned_columns (mget outboxTransitionContracts ''begin_attempt'') = Some [(''attempt_started_at'', outboxSet)] \<and>
      trimSpace ''id=?'' \<noteq> [] \<and> trimSpace ''?'' \<noteq> []"
    by code_simp
  then show ?thesis
    using built_statements_do_what_the_table_says [of "''begin_attempt''" "''id=?''" "[1 :: int]"
      "[\<lparr>cc_column = ''attempt_started_at'', cc_disposition = outboxSet, cc_expression = ''?'', cc_args = [7]\<rparr>]"] by auto
qed

end
