(* ===== verification/OutboxTable.thy ===== *)
theory OutboxTable
  imports OutboxLife OutboxContract
begin

text \<open>
  The table of transitions read as relations between a row before and after: each column does what the table
  says of it, and a column that is set gets what its meaning allows. Each change that an operation of the
  outbox makes to a row is the transition that the code names there.
\<close>

section \<open>Rows and columns\<close>

text \<open>
  A transition that may drop a delivery does so when the budget that it uses is spent: that of the
  attempts, or that of the deferrals. One that uses neither drops it always.
\<close>

definition dropped_by :: "delivery \<Rightarrow> delivery \<Rightarrow> bool" where
  "dropped_by r r' \<longleftrightarrow>
     (if ob_attempts r' \<noteq> ob_attempts r then ob_attempts r' \<ge> deliveryMaxAttempts
      else ob_deferrals r' = ob_deferrals r \<or> ob_deferrals r' \<ge> deliveryMaxDeferrals)"

text \<open>
  Each column of a row: whether two rows agree on it, whether it is cleared, and whether it may become what it is when
  a transition sets it, at a time, and when a transition sets it under a condition. A counter goes up
  by one; a delivery is not put off into the past; a claim has a token and ends after its lease; the
  moments are the present one. The columns that say what a delivery is are never set. The destination and the window of a delivery are
  identifiers of other tables.
\<close>

definition row_columns :: "int \<Rightarrow> (string \<times> (delivery \<Rightarrow> delivery \<Rightarrow> bool) \<times> (delivery \<Rightarrow> bool) \<times>
    (delivery \<Rightarrow> delivery \<Rightarrow> bool) \<times> (delivery \<Rightarrow> delivery \<Rightarrow> bool)) list" where
  "row_columns now =
     [(''id'', (\<lambda>r r'. ob_id r' = ob_id r), (\<lambda>_. False), (\<lambda>_ _. False), (\<lambda>_ _. False)),
      (''destination'', (\<lambda>r r'. ob_destination r' = ob_destination r), (\<lambda>r'. ob_destination r' = []), (\<lambda>_ _. True), (\<lambda>_ _. False)),
      (''payload_json'', (\<lambda>r r'. ob_payload r' = ob_payload r), (\<lambda>_. False), (\<lambda>_ _. False), (\<lambda>_ _. False)),
      (''attempts'', (\<lambda>r r'. ob_attempts r' = ob_attempts r), (\<lambda>r'. ob_attempts r' = 0),
        (\<lambda>r r'. ob_attempts r' = ob_attempts r + 1), (\<lambda>_ _. False)),
      (''next_at'', (\<lambda>r r'. ob_next_at r' = ob_next_at r), (\<lambda>r'. ob_next_at r' = 0), (\<lambda>r r'. ob_next_at r' \<ge> now), (\<lambda>_ _. False)),
      (''sent_at'', (\<lambda>r r'. ob_sent_at r' = ob_sent_at r), (\<lambda>r'. ob_sent_at r' = None),
        (\<lambda>r r'. ob_sent_at r = None \<and> ob_sent_at r' = Some now), (\<lambda>_ _. False)),
      (''last_error'', (\<lambda>r r'. ob_last_error r' = ob_last_error r), (\<lambda>r'. ob_last_error r' = []),
        (\<lambda>r r'. ob_last_error r' \<noteq> []), (\<lambda>r r'. ob_last_error r' \<in> {ob_last_error r, []})),
      (''claim_token'', (\<lambda>r r'. ob_claim_token r' = ob_claim_token r), (\<lambda>r'. ob_claim_token r' = []),
        (\<lambda>r r'. ob_claim_token r' \<noteq> []), (\<lambda>r r'. ob_claim_token r' \<in> {ob_claim_token r, []})),
      (''claim_until'', (\<lambda>r r'. ob_claim_until r' = ob_claim_until r), (\<lambda>r'. ob_claim_until r' = None),
        (\<lambda>r r'. ob_claim_until r' = Some (now + deliveryClaimLease)), (\<lambda>r r'. ob_claim_until r' \<in> {ob_claim_until r, None})),
      (''deferrals'', (\<lambda>r r'. ob_deferrals r' = ob_deferrals r), (\<lambda>r'. ob_deferrals r' = 0),
        (\<lambda>r r'. ob_deferrals r' = ob_deferrals r + 1), (\<lambda>_ _. False)),
      (''terminal_at'', (\<lambda>r r'. ob_terminal_at r' = ob_terminal_at r), (\<lambda>r'. ob_terminal_at r' = None),
        (\<lambda>r r'. ob_terminal_at r = None \<and> ob_terminal_at r' = (if dropped_by r r' then Some now else None)), (\<lambda>_ _. False)),
      (''tenant_id'', (\<lambda>r r'. ob_tenant r' = ob_tenant r), (\<lambda>_. False), (\<lambda>_ _. False), (\<lambda>_ _. False)),
      (''event_type'', (\<lambda>r r'. ob_event_type r' = ob_event_type r), (\<lambda>_. False), (\<lambda>_ _. False), (\<lambda>_ _. False)),
      (''event_job_id'', (\<lambda>r r'. ob_event_job r' = ob_event_job r), (\<lambda>_. False), (\<lambda>_ _. False), (\<lambda>_ _. False)),
      (''change_window_id'', (\<lambda>r r'. ob_window r' = ob_window r), (\<lambda>r'. ob_window r' = []), (\<lambda>_ _. True), (\<lambda>_ _. True)),
      (''attempt_started_at'', (\<lambda>r r'. ob_started r' = ob_started r), (\<lambda>r'. ob_started r' = None),
        (\<lambda>r r'. ob_started r' = Some now), (\<lambda>r r'. ob_started r' \<in> {ob_started r, None})),
      (''coalesce_after_attempt'', (\<lambda>r r'. ob_coalesce_after r' = ob_coalesce_after r), (\<lambda>r'. \<not> ob_coalesce_after r'),
        (\<lambda>r r'. ob_coalesce_after r'), (\<lambda>r r'. ob_coalesce_after r' \<longrightarrow> ob_coalesce_after r)),
      (''coalesced_at'', (\<lambda>r r'. ob_coalesced r' = ob_coalesced r), (\<lambda>r'. ob_coalesced r' = None),
        (\<lambda>r r'. ob_coalesced r' = Some now), (\<lambda>r r'. ob_coalesced r' = ob_coalesced r \<or> ob_coalesced r = None \<and> ob_coalesced r' = Some now))]"

lemma row_columns_complete: "map fst (row_columns now) = outboxTransitionColumns"
  by (simp add: row_columns_def outboxTransitionColumns_def)

text \<open>A named transition of the table, at a time: every column does what the table says of it.\<close>

definition obeys :: "int \<Rightarrow> (string \<times> disposition) list \<Rightarrow> delivery \<Rightarrow> delivery \<Rightarrow> bool" where
  "obeys now dispositions r r' \<longleftrightarrow> list_all (\<lambda>(column, same, cleared, assigned, conditional).
     case map_of dispositions column of
       None \<Rightarrow> same r r'
     | Some d \<Rightarrow> if d = outboxSet then assigned r r' else if d = outboxReset then cleared r' else conditional r r') (row_columns now)"

definition transition :: "string \<Rightarrow> int \<Rightarrow> delivery \<Rightarrow> delivery \<Rightarrow> bool" where
  "transition name now r r' \<longleftrightarrow>
     (case mget outboxTransitionContracts name of None \<Rightarrow> False | Some contract \<Rightarrow> obeys now (assigned_columns contract) r r')"

text \<open>What the table assigns: the columns that each transition does not preserve.\<close>

definition assignments :: "(string, (string \<times> disposition) list) gomap" where
  "assignments = [
    (''claim_due'', [(''claim_token'', outboxSet), (''claim_until'', outboxSet)]),
    (''begin_attempt'', [(''attempt_started_at'', outboxSet)]),
    (''hold_in_window'', [(''change_window_id'', outboxSet), (''next_at'', outboxSet), (''last_error'', outboxReset), (''claim_token'', outboxReset), (''claim_until'', outboxReset)]),
    (''release_claim'', [(''next_at'', outboxSet), (''claim_token'', outboxReset), (''claim_until'', outboxReset), (''attempt_started_at'', outboxReset)]),
    (''release_held_claim'', [(''last_error'', outboxReset), (''claim_token'', outboxReset), (''claim_until'', outboxReset)]),
    (''coalesce_held_change'', [(''last_error'', outboxReset), (''claim_token'', outboxReset), (''claim_until'', outboxReset), (''coalesced_at'', outboxConditional)]),
    (''recover_startup_attempt'', [(''claim_token'', outboxReset), (''claim_until'', outboxReset), (''attempt_started_at'', outboxConditional), (''coalesced_at'', outboxConditional), (''last_error'', outboxConditional), (''coalesce_after_attempt'', outboxConditional)]),
    (''recover_expired_attempt'', [(''claim_token'', outboxReset), (''claim_until'', outboxReset), (''attempt_started_at'', outboxConditional), (''coalesced_at'', outboxConditional), (''last_error'', outboxConditional), (''coalesce_after_attempt'', outboxConditional)]),
    (''release_startup_claims'', [(''claim_token'', outboxReset), (''claim_until'', outboxReset)]),
    (''redeliver_terminal'', [(''destination'', outboxSet), (''next_at'', outboxSet), (''attempts'', outboxReset), (''last_error'', outboxReset), (''claim_token'', outboxReset), (''claim_until'', outboxReset), (''deferrals'', outboxReset), (''terminal_at'', outboxReset), (''change_window_id'', outboxReset), (''attempt_started_at'', outboxReset), (''coalesce_after_attempt'', outboxReset)]),
    (''assign_pending_window'', [(''change_window_id'', outboxSet)]),
    (''close_pending_window_row'', [(''coalesced_at'', outboxSet), (''last_error'', outboxReset), (''claim_token'', outboxReset), (''claim_until'', outboxReset)]),
    (''close_in_flight_window_row'', [(''coalesce_after_attempt'', outboxSet)]),
    (''close_orphaned_window_row'', [(''coalesced_at'', outboxSet), (''attempt_started_at'', outboxReset), (''coalesce_after_attempt'', outboxReset), (''last_error'', outboxReset)]),
    (''cancel_pending_window_row'', [(''change_window_id'', outboxConditional)]),
    (''release_alerts_without_summary_notification'', [(''change_window_id'', outboxConditional), (''claim_token'', outboxConditional), (''claim_until'', outboxConditional)]),
    (''rename_destination'', [(''destination'', outboxSet)]),
    (''age_locked_delivery'', [(''deferrals'', outboxSet), (''next_at'', outboxSet), (''last_error'', outboxSet), (''terminal_at'', outboxSet), (''claim_token'', outboxReset), (''claim_until'', outboxReset)]),
    (''wake_locked_delivery'', [(''next_at'', outboxSet)]),
    (''invalid_payload_terminal'', [(''terminal_at'', outboxSet), (''last_error'', outboxSet), (''claim_token'', outboxReset), (''claim_until'', outboxReset)]),
    (''complete_sent_delivery'', [(''sent_at'', outboxSet), (''last_error'', outboxReset), (''claim_token'', outboxReset), (''claim_until'', outboxReset), (''attempt_started_at'', outboxReset)]),
    (''complete_sent_after_coalesce'', [(''sent_at'', outboxSet), (''last_error'', outboxReset), (''claim_token'', outboxReset), (''claim_until'', outboxReset), (''attempt_started_at'', outboxReset), (''coalesce_after_attempt'', outboxReset)]),
    (''coalesce_completed_attempt'', [(''coalesced_at'', outboxSet), (''last_error'', outboxReset), (''claim_token'', outboxReset), (''claim_until'', outboxReset), (''attempt_started_at'', outboxReset), (''coalesce_after_attempt'', outboxReset)]),
    (''defer_indeterminate_delivery'', [(''deferrals'', outboxSet), (''next_at'', outboxSet), (''last_error'', outboxSet), (''terminal_at'', outboxSet), (''claim_token'', outboxReset), (''claim_until'', outboxReset), (''attempt_started_at'', outboxReset)]),
    (''record_send_failure'', [(''attempts'', outboxSet), (''next_at'', outboxSet), (''last_error'', outboxSet), (''terminal_at'', outboxSet), (''claim_token'', outboxReset), (''claim_until'', outboxReset), (''attempt_started_at'', outboxReset)]),
    (''coalesce_deferred_attempt'', [(''coalesced_at'', outboxSet), (''last_error'', outboxReset), (''claim_token'', outboxReset), (''claim_until'', outboxReset), (''attempt_started_at'', outboxReset), (''coalesce_after_attempt'', outboxReset)]),
    (''keep_pending_after_credential_rotation'', [(''destination'', outboxSet), (''next_at'', outboxSet), (''attempts'', outboxReset), (''deferrals'', outboxReset), (''last_error'', outboxReset), (''claim_token'', outboxReset), (''claim_until'', outboxReset), (''attempt_started_at'', outboxReset)]),
    (''mark_in_flight_for_coalescing'', [(''coalesce_after_attempt'', outboxSet)]),
    (''move_terminal_delivery_selector'', [(''destination'', outboxSet)]),
    (''merge_imported_delivery_state'', [(''attempts'', outboxSet), (''deferrals'', outboxSet), (''next_at'', outboxSet)]),
    (''move_imported_delivery_selector'', [(''destination'', outboxSet)])]"

lemma table_assigns: "map (\<lambda>(name, contract). (name, assigned_columns contract)) outboxTransitionContracts = assignments"
  by code_simp

lemma mget_map: "mget (map (\<lambda>(k, v). (k, f v)) m) k = map_option f (mget m k)"
  by (simp add: mget_def map_of_map)

lemma transition_iff:
  "transition name now r r' \<longleftrightarrow> (case mget assignments name of None \<Rightarrow> False | Some cs \<Rightarrow> obeys now cs r r')"
  unfolding table_assigns [symmetric] mget_map by (simp add: transition_def split: option.split)

lemmas by_table = transition_iff obeys_def assignments_def mget_Cons row_columns_def

section \<open>Each change of a row\<close>

lemma error_code_some [simp]: "deliveryErrorCode (Some err) \<noteq> []"
  by (cases err) (simp_all add: deliveryErrorCode_def)

lemma claim_names:
  "owner \<noteq> [] \<Longrightarrow> transition ''claim_due'' now r (lease now owner r)"
  "transition ''begin_attempt'' now r (r\<lparr>ob_started := Some now\<rparr>)"
  "now \<le> t \<Longrightarrow> transition ''hold_in_window'' now r (unclaim (r\<lparr>ob_window := w, ob_next_at := t, ob_last_error := []\<rparr>))"
  "now \<le> t \<Longrightarrow> transition ''release_claim'' now r (unclaim (r\<lparr>ob_next_at := t, ob_started := None\<rparr>))"
  "transition ''release_held_claim'' now r (unclaim (r\<lparr>ob_last_error := []\<rparr>))"
  "transition ''coalesce_held_change'' now r
    (unclaim (r\<lparr>ob_coalesced := (if ob_coalesced r = None then Some now else ob_coalesced r), ob_last_error := []\<rparr>))"
  "transition ''recover_startup_attempt'' now r (recovered link now r)"
  "transition ''recover_expired_attempt'' now r (recovered link now r)"
  "transition ''release_startup_claims'' now r (unclaim r)"
  by (simp_all add: by_table row_parts recovered_def Let_def)

lemma window_names:
  "transition ''assign_pending_window'' now r (r\<lparr>ob_window := w\<rparr>)"
  "transition ''cancel_pending_window_row'' now r (r\<lparr>ob_window := w\<rparr>)"
  "transition ''close_pending_window_row'' now r (unclaim (r\<lparr>ob_coalesced := Some now, ob_last_error := []\<rparr>))"
  "transition ''close_in_flight_window_row'' now r (r\<lparr>ob_coalesce_after := True\<rparr>)"
  "transition ''mark_in_flight_for_coalescing'' now r (r\<lparr>ob_coalesce_after := True\<rparr>)"
  "transition ''close_orphaned_window_row'' now r (r\<lparr>ob_coalesced := Some now, ob_started := None, ob_coalesce_after := False, ob_last_error := []\<rparr>)"
  "transition ''release_alerts_without_summary_notification'' now r ((if b then unclaim r else r)\<lparr>ob_window := w\<rparr>)"
  "transition ''rename_destination'' now r (r\<lparr>ob_destination := key\<rparr>)"
  "transition ''move_terminal_delivery_selector'' now r (r\<lparr>ob_destination := key\<rparr>)"
  by (simp_all add: by_table row_parts)

lemma result_names:
  "ob_terminal_at r = None \<Longrightarrow>
    transition ''age_locked_delivery'' now r (locked_row now (ob_deferrals r + 1) (ob_deferrals r + 1 \<ge> deliveryMaxDeferrals) r)"
  "transition ''wake_locked_delivery'' now r (r\<lparr>ob_next_at := now\<rparr>)"
  "ob_terminal_at r = None \<Longrightarrow>
    transition ''invalid_payload_terminal'' now r (unclaim (r\<lparr>ob_terminal_at := Some now, ob_last_error := ''payload_invalid''\<rparr>))"
  "ob_sent_at r = None \<Longrightarrow> transition ''complete_sent_delivery'' now r ((end_claim r)\<lparr>ob_sent_at := Some now, ob_last_error := []\<rparr>)"
  "ob_sent_at r = None \<Longrightarrow>
    transition ''complete_sent_after_coalesce'' now r ((end_claim r)\<lparr>ob_sent_at := Some now, ob_last_error := [], ob_coalesce_after := False\<rparr>)"
  "transition ''coalesce_completed_attempt'' now r (coalesce_claim now r)"
  "transition ''coalesce_deferred_attempt'' now r (coalesce_claim now r)"
  "ob_terminal_at r = None \<Longrightarrow> 0 \<le> delay \<Longrightarrow>
    transition ''defer_indeterminate_delivery'' now r (defer_row now delay err (ob_deferrals r + 1 \<ge> deliveryMaxDeferrals) r)"
  "ob_terminal_at r = None \<Longrightarrow> 0 \<le> delay \<Longrightarrow>
    transition ''record_send_failure'' now r (fail_row now delay err (ob_attempts r + 1 \<ge> deliveryMaxAttempts) r)"
  by (simp_all add: by_table row_parts dropped_by_def deliveryLockedDelay_def minute_def)

lemma restart_names:
  "transition ''keep_pending_after_credential_rotation'' now r
    ((end_claim r)\<lparr>ob_destination := key, ob_attempts := 0, ob_deferrals := 0, ob_next_at := now, ob_last_error := []\<rparr>)"
  "transition ''redeliver_terminal'' now r
    ((end_claim r)\<lparr>ob_destination := key, ob_attempts := 0, ob_deferrals := 0, ob_terminal_at := None, ob_next_at := now,
      ob_last_error := [], ob_window := [], ob_coalesce_after := False\<rparr>)"
  by (simp_all add: by_table row_parts)

text \<open>No transition of the table assigns what a delivery is: its event, its tenant and its job.\<close>

lemma identity_kept: "list_all (\<lambda>(_, cs). list_all (\<lambda>column. map_of cs column = None) outboxIdentityPreservedColumns) assignments"
  by code_simp

definition same_event :: "delivery \<Rightarrow> delivery \<Rightarrow> bool" where
  "same_event r r' \<longleftrightarrow> ob_id r' = ob_id r \<and> ob_payload r' = ob_payload r \<and> ob_tenant r' = ob_tenant r \<and>
     ob_event_type r' = ob_event_type r \<and> ob_event_job r' = ob_event_job r"

lemma transition_same_event:
  assumes "transition name now r r'"
  shows "same_event r r'"
proof -
  obtain cs where cs: "mget assignments name = Some cs" "obeys now cs r r'"
    using assms by (auto simp: transition_iff split: option.splits)
  have "map_of cs column = None" if "column \<in> set outboxIdentityPreservedColumns" for column
    using identity_kept mget_SomeD [OF cs(1)] that by (fastforce simp: list_all_iff)
  then show ?thesis using cs(2) by (simp add: obeys_def row_columns_def outboxIdentityPreservedColumns_def same_event_def)
qed

end
