(* ===== verification/OutboxRefine.thy ===== *)
theory OutboxRefine
  imports OutboxTable
begin

text \<open>
  The operations of the outbox against the table of transitions. Each operation has the stages of
  transitions that its code applies one after the other, and changes each row by at most one
  transition of each stage.
\<close>

section \<open>Stages of an operation\<close>

text \<open>
  A stage is one statement of the code, or one of several of which the code runs one: a row is left
  alone or makes one of the named transitions.
\<close>

definition stage :: "string list \<Rightarrow> int \<Rightarrow> delivery \<Rightarrow> delivery \<Rightarrow> bool" where
  "stage names now r r' \<longleftrightarrow> r' = r \<or> (\<exists>name \<in> set names. transition name now r r')"

fun path :: "string list list \<Rightarrow> int \<Rightarrow> delivery \<Rightarrow> delivery \<Rightarrow> bool" where
  "path [] now r r' = (r' = r)"
| "path (names # stages) now r r' = (\<exists>s. stage names now r s \<and> path stages now s r')"

lemma stage_refl [simp]: "stage names now r r"
  by (simp add: stage_def)

lemma stageI: "transition name now r r' \<Longrightarrow> name \<in> set names \<Longrightarrow> stage names now r r'"
  by (auto simp: stage_def)

lemma path_same_event: "path stages now r r' \<Longrightarrow> same_event r r'"
  by (induction stages now r r' rule: path.induct) (fastforce simp: stage_def same_event_def dest!: transition_same_event)+

text \<open>Two lists of rows, of which those with an identifier of a set are related and the others agree.\<close>

definition moved :: "int set \<Rightarrow> (delivery \<Rightarrow> delivery \<Rightarrow> bool) \<Rightarrow> outbox \<Rightarrow> outbox \<Rightarrow> bool" where
  "moved S R ox ox' \<longleftrightarrow> list_all2 (\<lambda>r r'. ob_id r' = ob_id r \<and> (if ob_id r \<in> S then R r r' else r' = r)) (ox_rows ox) (ox_rows ox')"

abbreviation each_row :: "(delivery \<Rightarrow> delivery \<Rightarrow> bool) \<Rightarrow> outbox \<Rightarrow> outbox \<Rightarrow> bool" where
  "each_row \<equiv> moved UNIV"

lemma moved_ids: "moved S R ox ox' \<Longrightarrow> map ob_id (ox_rows ox') = map ob_id (ox_rows ox)"
  by (auto simp: moved_def list_all2_conv_all_nth list_eq_iff_nth_eq)

lemma moved_rows [simp]: "moved S R ox (insertTerminalDeliveryEvent i e why ox') = moved S R ox ox'"
  "moved S R ox (recordDeliveryFailure d e t now ox') = moved S R ox ox'" "moved S R ox (recordDeliverySuccess d now ox') = moved S R ox ox'"
  by (simp_all add: moved_def)

lemma moved_refl: "(\<And>r. R r r) \<Longrightarrow> moved S R ox ox"
  by (simp add: moved_def list_all2_same)

lemma moved_mono: "moved S R ox ox' \<Longrightarrow> (\<And>r. R r r) \<Longrightarrow> each_row R ox ox'"
  unfolding moved_def by (erule list_all2_mono) (auto split: if_splits)

lemma moved_trans:
  assumes "moved S R ox ox1" "moved T R ox1 ox2" "S \<inter> T = {}"
  shows "moved (S \<union> T) R ox ox2"
  unfolding moved_def
  by (rule list_all2_trans [OF _ assms(1,2) [unfolded moved_def]]) (use assms(3) in \<open>auto split: if_splits\<close>)

text \<open>A loop that handles each of some rows once.\<close>

lemma moved_fold:
  assumes "\<And>x ox. distinct (map ob_id (ox_rows ox)) \<Longrightarrow> x \<in> set xs \<Longrightarrow> moved {key x} R ox (f x ox)"
    and "\<And>r. R r r" "distinct (map key xs)" "distinct (map ob_id (ox_rows ox))"
  shows "moved (key ` set xs) R ox (fold f xs ox)"
  using assms(1,3,4)
proof (induction xs arbitrary: ox)
  case Nil
  show ?case using assms(2) by (simp add: moved_refl)
next
  case (Cons x xs)
  have one: "moved {key x} R ox (f x ox)" using Cons.prems by simp
  have "moved (key ` set xs) R (f x ox) (fold f xs (f x ox))"
    by (rule Cons.IH) (use Cons.prems moved_ids [OF one] in simp_all)
  then show ?case using moved_trans [OF one] Cons.prems(2) by auto
qed

text \<open>Updates of rows.\<close>

lemma rows_moved:
  assumes "\<And>r. r \<in> set (ox_rows ox) \<Longrightarrow> P r \<Longrightarrow> R r (f r) \<and> ob_id (f r) = ob_id r" "\<And>r. R r r"
  shows "each_row R ox (update_rows P f ox)"
  unfolding moved_def update_rows_def using assms by (auto simp: list_all2_conv_all_nth)

lemma row_moved:
  assumes "distinct (map ob_id (ox_rows ox))" "r \<in> set (ox_rows ox)" "ob_id r = i" "R r (f r)" "ob_id (f r) = ob_id r"
  shows "moved {i} R ox (update_id i f ox)"
proof -
  have "s = r" if "s \<in> set (ox_rows ox)" "ob_id s = i" for s using assms(1-3) that by (auto simp: distinct_map inj_on_def)
  then show ?thesis unfolding moved_def update_id_def update_rows_def using assms(3-5)
    by (auto simp: list_all2_conv_all_nth split: if_splits) (metis nth_mem)+
qed

lemma rows_staged:
  assumes "\<And>r. r \<in> set (ox_rows ox) \<Longrightarrow> P r \<Longrightarrow> \<exists>name \<in> set names. transition name now r (f r)"
  shows "each_row (stage names now) ox (update_rows P f ox)"
  by (rule rows_moved) (use assms in \<open>fastforce simp: stage_def same_event_def dest: transition_same_event\<close>)+

lemma row_staged:
  assumes "distinct (map ob_id (ox_rows ox))" "r \<in> set (ox_rows ox)" "ob_id r = i" "name \<in> set names" "transition name now r (f r)"
  shows "moved {i} (stage names now) ox (update_id i f ox)"
  using row_moved [OF assms(1-3)] stageI [OF assms(5,4)] transition_same_event [OF assms(5)] by (simp add: same_event_def)

text \<open>The rows after an operation that were there before it.\<close>

definition changed_by :: "(delivery \<Rightarrow> delivery \<Rightarrow> bool) \<Rightarrow> outbox \<Rightarrow> outbox \<Rightarrow> bool" where
  "changed_by R ox ox' \<longleftrightarrow> (\<forall>r' \<in> set (ox_rows ox'). ob_id r' < ox_next_id ox \<longrightarrow> (\<exists>r \<in> set (ox_rows ox). ob_id r = ob_id r' \<and> R r r'))"

lemma each_rowD: "each_row R ox ox' \<Longrightarrow> r' \<in> set (ox_rows ox') \<Longrightarrow> \<exists>r \<in> set (ox_rows ox). ob_id r = ob_id r' \<and> R r r'"
  by (fastforce simp: moved_def list_all2_conv_all_nth in_set_conv_nth)

lemma one_stage: "each_row (stage names now) ox ox' \<Longrightarrow> changed_by (path [names] now) ox ox'"
  by (auto simp: changed_by_def dest: each_rowD)

lemma more_stages:
  assumes "each_row (stage names now) ox ox1" "ox_next_id ox1 = ox_next_id ox" "changed_by (path stages now) ox1 ox2"
  shows "changed_by (path (names # stages) now) ox ox2"
  using each_rowD [OF assms(1)] assms(2,3) by (fastforce simp: changed_by_def)

section \<open>The stages of each operation\<close>

lemma claimed_rowE:
  assumes "claimed_row i token ox = Some r"
  shows "r \<in> set (ox_rows ox) \<and> ob_id r = i \<and> ob_sent_at r = None \<and> ob_terminal_at r = None"
  using assms by (auto simp: claimed_row_def find_Some_iff undelivered_def)

lemma claimed_moved:
  assumes "distinct (map ob_id (ox_rows ox))" "claimed_row i token ox = Some r"
    and "transition name now r (f r)" "name \<in> set names"
  shows "each_row (stage names now) ox (update_id i f ox)"
  using row_staged [where f = f, OF assms(1) _ _ assms(4,3), of i] claimed_rowE [OF assms(2)] by (auto intro: moved_mono)

text \<open>A claim, and the drop of a payload that cannot be read.\<close>

lemma invalid_moved:
  assumes "distinct (map ob_id (ox_rows ox))"
  shows "moved {i} (stage [''invalid_payload_terminal''] now) ox (snd (failInvalidDeliveryPayload now i token ox))"
proof (cases "token = [] \<or> claimed_row i token ox = None")
  case True
  then show ?thesis by (auto simp: failInvalidDeliveryPayload_def moved_refl)
next
  case False
  then obtain r where r: "claimed_row i token ox = Some r" "token \<noteq> []" by auto
  note row = claimed_rowE [OF r(1)]
  have "moved {i} (stage [''invalid_payload_terminal''] now) ox
      (update_id i (\<lambda>r. unclaim (r\<lparr>ob_terminal_at := Some now, ob_last_error := ''payload_invalid''\<rparr>)) ox)"
    by (rule row_staged [OF assms]) (use row in \<open>auto intro: result_names(3)\<close>)
  then show ?thesis using r by (simp add: failInvalidDeliveryPayload_def)
qed

lemma claim_stages:
  assumes "distinct (map ob_id (ox_rows ox))" "uuid \<noteq> []"
  shows "changed_by (path [[''claim_due''], [''invalid_payload_terminal'']] now) ox (snd (claimDueDeliveries env now limit uuid owner0 excluded ox))"
proof (cases "limit < 1")
  case True
  have "path [[''claim_due''], [''invalid_payload_terminal'']] now r r" for r
    using stage_refl by (simp only: path.simps) blast
  then show ?thesis using True by (auto simp: claimDueDeliveries_def changed_by_def)
next
  case False
  define owner where "owner = (if owner0 = [] then uuid else owner0)"
  define ids where "ids = first_ids (nat limit) (due env now excluded) ox"
  define leased where "leased = update_rows (\<lambda>r. ob_id r \<in> set ids) (lease now owner) ox"
  define bad where "bad = filter (\<lambda>r. \<not> oe_decodes env (ob_payload r)) (filter (\<lambda>r. ob_id r \<in> set ids) (ox_rows leased))"
  have "owner \<noteq> []" using assms(2) by (simp add: owner_def)
  then have first: "each_row (stage [''claim_due''] now) ox leased"
    unfolding leased_def by (intro rows_staged) (simp add: claim_names(1))
  have ids: "distinct (map ob_id (ox_rows leased))" using moved_ids [OF first] assms(1) by simp
  have "distinct (map ob_id bad)" unfolding bad_def by (intro distinct_map_filter ids)
  then have "moved (ob_id ` set bad) (stage [''invalid_payload_terminal''] now) leased
      (fold (\<lambda>r ox. snd (failInvalidDeliveryPayload now (ob_id r) owner ox)) bad leased)"
    by (intro moved_fold ids) (auto intro: invalid_moved)
  then have "changed_by (path [[''invalid_payload_terminal'']] now) leased
      (fold (\<lambda>r ox. snd (failInvalidDeliveryPayload now (ob_id r) owner ox)) bad leased)"
    by (intro one_stage) (rule moved_mono, auto)
  then have "changed_by (path [[''claim_due''], [''invalid_payload_terminal'']] now) ox
      (fold (\<lambda>r ox. snd (failInvalidDeliveryPayload now (ob_id r) owner ox)) bad leased)"
    by (rule more_stages [OF first, rotated]) (simp add: leased_def)
  then show ?thesis using False by (simp add: claimDueDeliveries_def Let_def owner_def ids_def leased_def bad_def)
qed

text \<open>Destinations that are locked.\<close>

lemma age_row_moved:
  assumes "distinct (map ob_id (ox_rows ox))"
  shows "moved {i} (stage [''age_locked_delivery''] now) ox (age_row now i ox)"
proof (cases "find (\<lambda>r. ob_id r = i \<and> undelivered r \<and> ob_attempts r < deliveryMaxAttempts \<and> free_claim now r) (ox_rows ox)")
  case (Some r)
  then have r: "r \<in> set (ox_rows ox)" "ob_id r = i" "ob_terminal_at r = None" by (auto simp: find_Some_iff undelivered_def)
  have "moved {i} (stage [''age_locked_delivery''] now) ox
      (update_id i (locked_row now (ob_deferrals r + 1) (ob_deferrals r + 1 \<ge> deliveryMaxDeferrals)) ox)"
    by (rule row_staged [OF assms r(1,2)]) (use result_names(1) [OF r(3)] in auto)
  then show ?thesis using Some by (cases "ob_deferrals r + 1 \<ge> deliveryMaxDeferrals") (simp_all add: age_row_def Let_def)
qed (simp add: age_row_def moved_refl)

lemma age_stages:
  assumes "distinct (map ob_id (ox_rows ox))"
  shows "changed_by (path [[''age_locked_delivery'']] now) ox (AgeLockedDeliveries env now destinations ox)"
proof -
  have "distinct (map id (first_ids n P ox))" for n P using assms by (simp add: first_ids_def distinct_map_filter)
  then show ?thesis unfolding AgeLockedDeliveries_def
    by (intro one_stage moved_mono [OF moved_fold [OF _ stage_refl _ assms, where key = id]]) (auto intro: age_row_moved)
qed

text \<open>Recovery.\<close>

lemma outcome_moved:
  assumes "recoverStartedDelivery env now r = Inr (outcome env now r)" "name \<in> {''recover_startup_attempt'', ''recover_expired_attempt''}"
  shows "transition name now r (outcome env now r)"
proof -
  define link where "link = (if ob_window r = [] then None else linked_window env (ob_window r) (tenant_text r))"
  have "outcome env now r = recovered link now r"
    using assms(1) by (auto simp: link_def recoverStartedDelivery_def split: if_splits option.splits)
  then show ?thesis using assms(2) claim_names(7,8) by auto
qed

lemma recover_moved:
  assumes "recover_all env now rs ox = Inr ox'" "distinct (map ob_id (ox_rows ox))" "distinct (map ob_id rs)" "set rs \<subseteq> set (ox_rows ox)"
    and "name \<in> {''recover_startup_attempt'', ''recover_expired_attempt''}"
  shows "each_row (stage [name] now) ox ox'"
proof -
  note rows = recover_all_rows [OF assms(1-4)]
  have "stage [name] now r (if r \<in> set rs then outcome env now r else r)" for r
    using rows outcome_moved [OF _ assms(5)] by (simp add: stage_def)
  then show ?thesis using rows by (auto simp: moved_def list_all2_conv_all_nth)
qed

lemma recover_all_next: "recover_all env now rs ox = Inr ox' \<Longrightarrow> ox_next_id ox' = ox_next_id ox"
  by (induction rs arbitrary: ox) (auto split: sum.splits)

lemma startup_stages:
  assumes "distinct (map ob_id (ox_rows ox))"
  shows "changed_by (path [[''recover_startup_attempt''], [''release_startup_claims'']] now) ox (snd (ReleaseDeliveryClaims env now ox))"
proof (cases "recover_all env now (sort_key ob_id (filter begun (ox_rows ox))) ox")
  case (Inl e)
  have "path [[''recover_startup_attempt''], [''release_startup_claims'']] now r r" for r
    using stage_refl by (simp only: path.simps) blast
  then show ?thesis using Inl by (auto simp: ReleaseDeliveryClaims_def changed_by_def)
next
  case (Inr ox1)
  have "distinct (map ob_id (sort_key ob_id (filter begun (ox_rows ox))))"
    using assms by (simp add: distinct_map distinct_filter inj_on_def)
  then have first: "each_row (stage [''recover_startup_attempt''] now) ox ox1"
    by (intro recover_moved [OF Inr assms]) auto
  have "each_row (stage [''release_startup_claims''] now) ox1 (update_rows (\<lambda>r. ob_sent_at r = None \<and> ob_claim_token r \<noteq> []) unclaim ox1)"
    by (rule rows_staged) (simp add: claim_names(9))
  then show ?thesis using more_stages [OF first recover_all_next [OF Inr] one_stage] Inr by (simp add: ReleaseDeliveryClaims_def)
qed

lemma expired_stages:
  assumes "distinct (map ob_id (ox_rows ox))"
  shows "changed_by (path [[''recover_expired_attempt'']] now) ox (snd (RecoverExpiredDeliveryClaims env now ox))"
proof (cases "recover_all env now (expiredDeliveryClaims now ox) ox")
  case (Inl e)
  then show ?thesis by (auto simp: RecoverExpiredDeliveryClaims_def changed_by_def)
next
  case (Inr ox1)
  have "distinct (map ob_id (expiredDeliveryClaims now ox))"
    using assms by (simp add: expiredDeliveryClaims_def distinct_map distinct_filter inj_on_def take_map [symmetric])
  moreover have "set (expiredDeliveryClaims now ox) \<subseteq> set (ox_rows ox)" by (auto simp: expiredDeliveryClaims_def dest!: in_set_takeD)
  ultimately show ?thesis using recover_moved [OF Inr assms] Inr by (auto intro!: one_stage simp: RecoverExpiredDeliveryClaims_def)
qed

text \<open>The worker's operations on the row that it claims.\<close>

lemma release_stages:
  assumes "distinct (map ob_id (ox_rows ox))"
  shows "changed_by (path [[''release_claim'']] now) ox (snd (ReleaseDeliveryClaim now i token delay ox))"
proof (cases "token = [] \<or> claimed_row i token ox = None")
  case True
  then show ?thesis by (auto simp: ReleaseDeliveryClaim_def changed_by_def)
next
  case False
  then obtain r where r: "claimed_row i token ox = Some r" "token \<noteq> []" by auto
  have "each_row (stage [''release_claim''] now) ox (update_id i (\<lambda>r. unclaim (r\<lparr>ob_next_at := now + max 0 delay, ob_started := None\<rparr>)) ox)"
    by (rule claimed_moved [OF assms r(1)], rule claim_names(4)) simp_all
  then show ?thesis using r one_stage by (auto simp: ReleaseDeliveryClaim_def)
qed

definition gate_names :: "string list" where
  "gate_names = [''release_held_claim'', ''coalesce_held_change'', ''hold_in_window'', ''begin_attempt'']"

definition result_transitions :: "string list" where
  "result_transitions = [''complete_sent_delivery'', ''complete_sent_after_coalesce'', ''coalesce_completed_attempt'',
     ''defer_indeterminate_delivery'', ''record_send_failure'']"

lemma gate_moved:
  assumes "distinct (map ob_id (ox_rows ox))" "claimed_row i token ox = Some r"
  shows "each_row (stage gate_names now) ox (update_id i (\<lambda>r. unclaim (r\<lparr>ob_last_error := []\<rparr>)) ox)"
    "now \<le> cw_end q + ChangeWindowSummaryDestinationGrace \<Longrightarrow> each_row (stage gate_names now) ox (snd (hold_in_window i q ox))"
    "each_row (stage gate_names now) ox (snd (coalesce_held now i ox))"
    "each_row (stage gate_names now) ox (snd (begin_attempt now i ox))"
proof -
  note move = claimed_moved [OF assms, where names = gate_names]
  show "each_row (stage gate_names now) ox (update_id i (\<lambda>r. unclaim (r\<lparr>ob_last_error := []\<rparr>)) ox)"
    by (rule move, rule claim_names(5), simp add: gate_names_def)
  show "each_row (stage gate_names now) ox (snd (hold_in_window i q ox))" if "now \<le> cw_end q + ChangeWindowSummaryDestinationGrace"
    unfolding hold_in_window_def snd_conv by (rule move, rule claim_names(3) [OF that], simp add: gate_names_def)
  show "each_row (stage gate_names now) ox (snd (coalesce_held now i ox))"
    unfolding coalesce_held_def snd_conv by (rule move, rule claim_names(6), simp add: gate_names_def)
  show "each_row (stage gate_names now) ox (snd (begin_attempt now i ox))"
    unfolding begin_attempt_def snd_conv by (rule move, rule claim_names(2), simp add: gate_names_def)
qed

lemma active_window_end: "active_window env job tenant now = Some q \<Longrightarrow> now \<le> cw_end q + ChangeWindowSummaryDestinationGrace"
  using first_window_Some by (fastforce simp: active_window_def ChangeWindowSummaryDestinationGrace_def minute_def)

lemma begin_stages:
  assumes "distinct (map ob_id (ox_rows ox))"
  shows "changed_by (path [gate_names] now) ox (snd (BeginDeliveryAttempt env now i token ox))"
proof (rule one_stage, cases "token = [] \<or> claimed_row i token ox = None")
  case True
  then show "each_row (stage gate_names now) ox (snd (BeginDeliveryAttempt env now i token ox))"
    by (auto simp: BeginDeliveryAttempt_def moved_refl)
next
  case False
  then obtain r where r: "claimed_row i token ox = Some r" "token \<noteq> []" by auto
  note moves = gate_moved [OF assms r(1)]
  have "each_row (stage gate_names now) ox (snd (window_gate env now i job tenant w ox))" for job tenant w
    by (auto simp: window_gate_def Let_def moved_refl moves(4,3) active_window_end intro!: moves(2) split: option.split)
  then show "each_row (stage gate_names now) ox (snd (BeginDeliveryAttempt env now i token ox))"
    using r by (simp add: BeginDeliveryAttempt_def Let_def moves moved_refl)
qed

lemma defer_moved:
  assumes "distinct (map ob_id (ox_rows ox))" "claimed_row i token ox = Some r" "0 \<le> delay" "''defer_indeterminate_delivery'' \<in> set names"
  shows "each_row (stage names now) ox (defer_claim now r err delay reason ox)"
proof -
  note row = claimed_rowE [OF assms(2)]
  have "each_row (stage names now) ox (update_id (ob_id r) (defer_row now delay err (ob_deferrals r + 1 \<ge> deliveryMaxDeferrals)) ox)"
    by (rule moved_mono [OF row_staged [OF assms(1) _ refl assms(4) result_names(8)] stage_refl]) (use row assms(3) in auto)
  then show ?thesis by (cases "ob_deferrals r + 1 \<ge> deliveryMaxDeferrals") (simp_all add: defer_claim_def Let_def)
qed

lemma failure_delay_nonneg: "0 \<le> failure_delay n err"
  using deliveryRetryDelay_nonneg [of n] failure_delay_retry [of n err] by linarith

lemma fail_moved:
  assumes "distinct (map ob_id (ox_rows ox))" "claimed_row i token ox = Some r" "''record_send_failure'' \<in> set names"
  shows "each_row (stage names now) ox (fail_claim now r err ox)"
proof -
  note row = claimed_rowE [OF assms(2)]
  have "each_row (stage names now) ox
      (update_id (ob_id r) (fail_row now (failure_delay (ob_attempts r + 1) err) err (ob_attempts r + 1 \<ge> deliveryMaxAttempts)) ox)"
    by (rule moved_mono [OF row_staged [OF assms(1) _ refl assms(3) result_names(9)] stage_refl]) (use row failure_delay_nonneg in auto)
  then show ?thesis by (cases "ob_attempts r + 1 \<ge> deliveryMaxAttempts") (simp_all add: fail_claim_def Let_def)
qed

lemma result_stages:
  assumes "distinct (map ob_id (ox_rows ox))"
  shows "changed_by (path [result_transitions] now) ox (snd (DeliveryResultClaim env now i token sendErr ox))"
proof (rule one_stage, cases "token = [] \<or> claimed_row i token ox = None")
  case True
  then show "each_row (stage result_transitions now) ox (snd (DeliveryResultClaim env now i token sendErr ox))"
    by (auto simp: DeliveryResultClaim_def moved_refl)
next
  case False
  then obtain r where r: "claimed_row i token ox = Some r" "token \<noteq> []" by auto
  have sent: "ob_sent_at r = None" using claimed_rowE [OF r(1)] by blast
  note move = claimed_moved [OF assms r(1), where names = result_transitions]
  have moves: "each_row (stage result_transitions now) ox (update_id i (\<lambda>r. (end_claim r)\<lparr>ob_sent_at := Some now, ob_last_error := []\<rparr>) ox)"
    "each_row (stage result_transitions now) ox
      (update_id i (\<lambda>r. (end_claim r)\<lparr>ob_sent_at := Some now, ob_last_error := [], ob_coalesce_after := False\<rparr>) ox)"
    "each_row (stage result_transitions now) ox (update_id i (coalesce_claim now) ox)"
    by (rule move, rule result_names(4) [OF sent] result_names(5) [OF sent] result_names(6), simp add: result_transitions_def)+
  have "0 \<le> deliveryInitialDelay" by (simp add: deliveryInitialDelay_def minute_def)
  then have "each_row (stage result_transitions now) ox (defer_claim now r err deliveryInitialDelay reason ox)"
    "each_row (stage result_transitions now) ox (fail_claim now r err ox)" for err reason
    by (intro defer_moved [OF assms r(1)] fail_moved [OF assms r(1)]; simp add: result_transitions_def)+
  then show "each_row (stage result_transitions now) ox (snd (DeliveryResultClaim env now i token sendErr ox))"
    using r moves by (cases sendErr) (simp_all add: DeliveryResultClaim_def moved_refl)
qed

lemma put_off_stages:
  assumes "distinct (map ob_id (ox_rows ox))"
  shows "changed_by (path [[''coalesce_deferred_attempt'', ''defer_indeterminate_delivery'']] now) ox
    (snd (DeferDeliveryWithError now i token reason delay ox))"
proof (rule one_stage, cases "token = [] \<or> claimed_row i token ox = None")
  let ?names = "[''coalesce_deferred_attempt'', ''defer_indeterminate_delivery'']"
  case True
  then show "each_row (stage ?names now) ox (snd (DeferDeliveryWithError now i token reason delay ox))"
    by (auto simp: DeferDeliveryWithError_def moved_refl)
next
  let ?names = "[''coalesce_deferred_attempt'', ''defer_indeterminate_delivery'']"
  case False
  then obtain r where r: "claimed_row i token ox = Some r" "token \<noteq> []" by auto
  have "each_row (stage ?names now) ox (update_id i (coalesce_claim now) ox)"
    by (rule claimed_moved [OF assms r(1)], rule result_names(7), simp)
  moreover have "each_row (stage ?names now) ox (defer_claim now r reason (max minute delay) ''deferral limit'' ox)"
    by (rule defer_moved [OF assms r(1)]) (simp_all add: minute_def)
  ultimately show "each_row (stage ?names now) ox (snd (DeferDeliveryWithError now i token reason delay ox))"
    using r by (simp add: DeferDeliveryWithError_def)
qed

text \<open>The updates of the windows and of the administrators.\<close>

lemma updates_stages:
  "changed_by (path [[''wake_locked_delivery'']] now) ox (WakeLockedDeliveries now destinations ox)"
  "changed_by (path [[''assign_pending_window'']] now) ox (assign_window env job tenant start w ox)"
  "changed_by (path [[''cancel_pending_window_row'']] now) ox (cancel_window env now w tenant ox)"
  "changed_by (path [[''mark_in_flight_for_coalescing'']] now) ox (mark_in_flight owned ox)"
  "changed_by (path [[''move_terminal_delivery_selector'']] now) ox (move_terminal owned newKey ox)"
  "changed_by (path [[''rename_destination'']] now) ox (rename_destination owned newKey ox)"
  "changed_by (path [[''keep_pending_after_credential_rotation'']] now) ox (keep_pending env now owned newKey ox)"
  unfolding WakeLockedDeliveries_def assign_window_def cancel_window_def mark_in_flight_def move_terminal_def rename_destination_def keep_pending_def
  by (rule one_stage, rule rows_staged, simp add: result_names(2) window_names restart_names(1))+

lemma close_stages:
  "changed_by (path [[''close_orphaned_window_row''], [''release_alerts_without_summary_notification''], [''close_pending_window_row''],
     [''close_in_flight_window_row'']] now) ox (close_window_rows env now w tenant unavailable ox)"
proof -
  have each: "each_row (stage [''close_orphaned_window_row''] now) ox (close_orphans now w tenant ox)"
    "each_row (stage [''release_alerts_without_summary_notification''] now) ox (release_alerts env now w tenant ox)"
    "each_row (stage [''close_pending_window_row''] now) ox (close_pending now w tenant ox)"
    "each_row (stage [''close_in_flight_window_row''] now) ox (close_in_flight w tenant ox)" for ox
    unfolding close_orphans_def release_alerts_def close_pending_def close_in_flight_def
    by (rule rows_staged, simp add: window_names)+
  have id_same: "ox_next_id (close_orphans now w tenant ox) = ox_next_id ox" "ox_next_id (release_alerts env now w tenant ox) = ox_next_id ox"
    "ox_next_id (close_pending now w tenant ox) = ox_next_id ox" for ox
    by (simp_all add: close_orphans_def release_alerts_def close_pending_def)
  define orphans where "orphans = close_orphans now w tenant ox"
  define released where "released = (if unavailable then release_alerts env now w tenant orphans else orphans)"
  have second: "each_row (stage [''release_alerts_without_summary_notification''] now) orphans released"
    using each(2) by (simp add: released_def moved_refl)
  have ids: "ox_next_id orphans = ox_next_id ox" "ox_next_id released = ox_next_id orphans"
    by (simp_all add: orphans_def released_def id_same)
  show ?thesis unfolding close_window_rows_def Let_def orphans_def [symmetric] released_def [symmetric]
    by (rule more_stages [OF each(1) [of ox, folded orphans_def] ids(1)], rule more_stages [OF second ids(2)],
      rule more_stages [OF each(3) id_same(3)], rule one_stage, rule each(4))
qed

lemma redeliver_stages: "changed_by (path [[''redeliver_terminal'']] now) ox (redeliver now chosen destinationID key ox)"
proof (rule one_stage)
  have "each_row (stage [''redeliver_terminal''] now) ox (update_rows (redeliverable chosen)
      (\<lambda>r. (end_claim r)\<lparr>ob_destination := key, ob_attempts := 0, ob_deferrals := 0, ob_terminal_at := None, ob_next_at := now,
        ob_last_error := [], ob_window := [], ob_coalesce_after := False\<rparr>) ox)"
    by (rule rows_staged) (simp add: restart_names(2))
  then show "each_row (stage [''redeliver_terminal''] now) ox (redeliver now chosen destinationID key ox)"
    by (auto simp: redeliver_def Let_def moved_def list_all2_same split: option.split)
qed

lemma no_stages:
  "changed_by (path [] now) ox (snd (QueueEvent env now destination tenant eventType job payload ox))"
  "changed_by (path [] now) ox (discard_pending owned ox)"
  by (auto simp: QueueEvent_def Let_def changed_by_def discard_pending_def queued_row_def)

section \<open>Every operation\<close>

text \<open>
  The operations of the outbox with the stages of transitions that their code names. Queueing adds a row and a
  discarded destination deletes rows; neither is a transition.
\<close>

inductive issues :: "string list list \<Rightarrow> int \<Rightarrow> outbox \<Rightarrow> outbox \<Rightarrow> bool" where
  queues: "issues [] now ox (snd (QueueEvent env now destination tenant eventType job payload ox))"
| claims_due: "uuid \<noteq> [] \<Longrightarrow> issues [[''claim_due''], [''invalid_payload_terminal'']] now ox
    (snd (claimDueDeliveries env now limit uuid owner excluded ox))"
| ages_locked: "issues [[''age_locked_delivery'']] now ox (AgeLockedDeliveries env now destinations ox)"
| wakes_locked: "issues [[''wake_locked_delivery'']] now ox (WakeLockedDeliveries now destinations ox)"
| starts_up: "issues [[''recover_startup_attempt''], [''release_startup_claims'']] now ox (snd (ReleaseDeliveryClaims env now ox))"
| recovers_expired: "issues [[''recover_expired_attempt'']] now ox (snd (RecoverExpiredDeliveryClaims env now ox))"
| releases: "\<forall>r \<in> set (ox_rows ox). ob_id r = i \<longrightarrow> ob_started r = None \<Longrightarrow>
    issues [[''release_claim'']] now ox (snd (ReleaseDeliveryClaim now i token delay ox))"
| gates: "issues [gate_names] now ox (snd (BeginDeliveryAttempt env now i token ox))"
| records: "sendErr \<noteq> Some ErrDeliveryDestinationLocked \<Longrightarrow>
    issues [result_transitions] now ox (snd (DeliveryResultClaim env now i token sendErr ox))"
| puts_off: "issues [[''coalesce_deferred_attempt'', ''defer_indeterminate_delivery'']] now ox
    (snd (DeferDeliveryWithError now i token reason delay ox))"
| assigns: "issues [[''assign_pending_window'']] now ox (assign_window env job tenant start w ox)"
| cancels: "issues [[''cancel_pending_window_row'']] now ox (cancel_window env now w tenant ox)"
| closes_window: "issues [[''close_orphaned_window_row''], [''release_alerts_without_summary_notification''], [''close_pending_window_row''],
    [''close_in_flight_window_row'']] now ox (close_window_rows env now w tenant unavailable ox)"
| marks_in_flight: "issues [[''mark_in_flight_for_coalescing'']] now ox (mark_in_flight owned ox)"
| moves_terminal: "issues [[''move_terminal_delivery_selector'']] now ox (move_terminal owned newKey ox)"
| discards: "issues [] now ox (discard_pending owned ox)"
| renames_destination: "issues [[''rename_destination'']] now ox (rename_destination owned newKey ox)"
| keeps_pending: "issues [[''keep_pending_after_credential_rotation'']] now ox (keep_pending env now owned newKey ox)"
| redelivers_terminal: "issues [[''redeliver_terminal'']] now ox (redeliver now chosen destinationID key ox)"

text \<open>These are all the steps of the outbox.\<close>

lemma steps_issue: "outbox_step now ox ox' \<Longrightarrow> \<exists>stages. issues stages now ox ox'"
  by (auto elim!: outbox_step.cases delivery_step.cases intro: issues.intros)

lemma issues_step: "issues stages now ox ox' \<Longrightarrow> outbox_step now ox ox'"
  by (induction rule: issues.induct) (auto intro: outbox_step.intros delivery_step.intros)

lemma issues_stages: "issues stages now ox ox' \<Longrightarrow> distinct (map ob_id (ox_rows ox)) \<Longrightarrow> changed_by (path stages now) ox ox'"
  by (induction rule: issues.induct)
    (simp_all only: not_False_eq_True no_stages claim_stages age_stages updates_stages startup_stages expired_stages release_stages begin_stages
      result_stages put_off_stages close_stages redeliver_stages)

text \<open>The transitions that do not preserve a column.\<close>

definition assigning :: "string \<Rightarrow> string list" where
  "assigning column = map fst (filter (\<lambda>(_, cs). map_of cs column \<noteq> None) assignments)"

lemma assigning_columns:
  "assigning ''attempts'' = [''redeliver_terminal'', ''record_send_failure'', ''keep_pending_after_credential_rotation'', ''merge_imported_delivery_state'']"
  "assigning ''sent_at'' = [''complete_sent_delivery'', ''complete_sent_after_coalesce'']"
  by code_simp+

lemma transition_keeps:
  assumes "transition name now r r'"
  shows "name \<notin> set (assigning ''attempts'') \<Longrightarrow> ob_attempts r' = ob_attempts r"
    "name \<notin> set (assigning ''sent_at'') \<Longrightarrow> ob_sent_at r' = ob_sent_at r"
proof -
  obtain cs where cs: "mget assignments name = Some cs" "obeys now cs r r'"
    using assms by (auto simp: transition_iff split: option.splits)
  have "map_of cs column = None" if "name \<notin> set (assigning column)" for column
    using that mget_SomeD [OF cs(1)] by (force simp: assigning_def)
  then show "name \<notin> set (assigning ''attempts'') \<Longrightarrow> ob_attempts r' = ob_attempts r"
    "name \<notin> set (assigning ''sent_at'') \<Longrightarrow> ob_sent_at r' = ob_sent_at r"
    using cs(2) by (simp_all add: obeys_def row_columns_def)
qed

lemma stage_keeps:
  "stage names now r r' \<Longrightarrow> set names \<inter> set (assigning ''attempts'') = {} \<Longrightarrow> ob_attempts r' = ob_attempts r"
  "stage names now r r' \<Longrightarrow> set names \<inter> set (assigning ''sent_at'') = {} \<Longrightarrow> ob_sent_at r' = ob_sent_at r"
  using transition_keeps by (fastforce simp: stage_def)+

lemma path_keeps:
  "path stages now r r' \<Longrightarrow> set (concat stages) \<inter> set (assigning ''attempts'') = {} \<Longrightarrow> ob_attempts r' = ob_attempts r"
  "path stages now r r' \<Longrightarrow> set (concat stages) \<inter> set (assigning ''sent_at'') = {} \<Longrightarrow> ob_sent_at r' = ob_sent_at r"
  by (induction stages arbitrary: r) (force simp: Int_Un_distrib2 dest: stage_keeps)+

lemma counted_attempt:
  "transition ''record_send_failure'' now r r' \<Longrightarrow> ob_attempts r' = ob_attempts r + 1"
  "transition ''keep_pending_after_credential_rotation'' now r r' \<Longrightarrow> ob_attempts r' = 0"
  "transition ''redeliver_terminal'' now r r' \<Longrightarrow> ob_attempts r' = 0"
  "transition ''complete_sent_delivery'' now r r' \<Longrightarrow> ob_sent_at r = None \<and> ob_sent_at r' = Some now"
  "transition ''complete_sent_after_coalesce'' now r r' \<Longrightarrow> ob_sent_at r = None \<and> ob_sent_at r' = Some now"
  by (simp_all add: by_table)

lemma issued_attempts:
  assumes "issues stages now ox ox'" "path stages now r r'" "ob_attempts r' \<noteq> ob_attempts r"
  shows "(stages = [result_transitions] \<and> ob_attempts r' = ob_attempts r + 1) \<or>
    (stages \<in> {[[''keep_pending_after_credential_rotation'']], [[''redeliver_terminal'']]} \<and> ob_attempts r' = 0)"
proof -
  have "set (concat stages) \<inter> set (assigning ''attempts'') \<noteq> {}" using path_keeps(1) [OF assms(2)] assms(3) by blast
  with assms(1) have "stages = [result_transitions] \<or>
      stages \<in> {[[''keep_pending_after_credential_rotation'']], [[''redeliver_terminal'']]}"
    by (cases rule: issues.cases) (auto simp: assigning_columns gate_names_def)
  moreover have "ob_attempts r' = ob_attempts r + 1" if "transition name now r r'" "name \<in> set result_transitions" for name
  proof (cases "name = ''record_send_failure''")
    case False
    then have "name \<notin> set (assigning ''attempts'')" using that(2) by (auto simp: result_transitions_def assigning_columns)
    then show ?thesis using transition_keeps(1) [OF that(1)] assms(3) by simp
  qed (use that counted_attempt(1) in simp)
  moreover have "\<exists>name \<in> set names. transition name now r r'" if "stages = [names]" for names
    using assms(2,3) that by (auto simp: stage_def)
  ultimately show ?thesis using counted_attempt(2,3) by fastforce
qed

lemma issued_sent:
  assumes "issues stages now ox ox'" "path stages now r r'" "ob_sent_at r' \<noteq> ob_sent_at r"
  shows "stages = [result_transitions] \<and> ob_sent_at r = None \<and> ob_sent_at r' = Some now"
proof -
  have "set (concat stages) \<inter> set (assigning ''sent_at'') \<noteq> {}" using path_keeps(2) [OF assms(2)] assms(3) by blast
  with assms(1) have res: "stages = [result_transitions]"
    by (cases rule: issues.cases) (auto simp: assigning_columns gate_names_def)
  then obtain name where name: "transition name now r r'" using assms(2,3) by (auto simp: stage_def)
  then have "name \<in> set (assigning ''sent_at'')" using transition_keeps(2) assms(3) by blast
  then show ?thesis using res name counted_attempt(4,5) by (auto simp: assigning_columns)
qed

text \<open>
  C39: Every operation on the outbox implements the table of transitions. In every reachable outbox, an
  operation changes each row that was there by at most one transition of each statement that its code
  runs, of the names that the code gives it, and by nothing else: the columns that the table preserves
  stay, those that it resets are cleared, and those that it sets or may change get what their meaning
  allows. In particular only the record of a result ever sends a delivery or counts an attempt, and
  only one; no other operation changes the number of attempts but those of an administrator, which
  clear it; and no operation ever changes the event of a delivery, its tenant, its type or its job.
\<close>

theorem rows_change_only_by_named_transitions:
  assumes "outbox_run 0 empty_outbox t ox" and "issues stages now ox ox'"
    and "r' \<in> set (ox_rows ox')" and "ob_id r' < ox_next_id ox"
  shows "\<exists>r \<in> set (ox_rows ox). path stages now r r' \<and> same_event r r' \<and>
    (ob_attempts r' = ob_attempts r \<or> (stages = [result_transitions] \<and> ob_attempts r' = ob_attempts r + 1) \<or>
      (stages \<in> {[[''keep_pending_after_credential_rotation'']], [[''redeliver_terminal'']]} \<and> ob_attempts r' = 0)) \<and>
    (ob_sent_at r' = ob_sent_at r \<or> (stages = [result_transitions] \<and> ob_sent_at r = None \<and> ob_sent_at r' = Some now))"
proof -
  have "distinct (map ob_id (ox_rows ox))" using reached [OF assms(1)] by (simp add: rows_keep_def)
  then obtain r where r: "r \<in> set (ox_rows ox)" "path stages now r r'"
    using issues_stages [OF assms(2)] assms(3,4) by (auto simp: changed_by_def)
  then show ?thesis using path_same_event [OF r(2)] issued_attempts [OF assms(2) r(2)] issued_sent [OF assms(2) r(2)] by blast
qed

text \<open>A claim, and the record of a send that fails.\<close>

theorem rows_change_only_by_named_transitions_witness:
  "\<exists>r \<in> set (ox_rows (sample_claim 1 (sample_queued ''scan-failed''))). \<exists>r' \<in> set (ox_rows (sample_round 1 (sample_queued ''scan-failed''))).
     ob_attempts r = 0 \<and> ob_attempts r' = 1 \<and> path [result_transitions] 1 r r' \<and> same_event r r'"
proof -
  define ox where "ox = sample_claim 1 (sample_queued ''scan-failed'')"
  define ox' where "ox' = sample_round 1 (sample_queued ''scan-failed'')"
  have step: "issues [result_transitions] 1 ox ox'"
    unfolding ox_def ox'_def sample_round_def by (rule records) simp
  have "map ob_attempts (ox_rows ox) = [0] \<and> ox_next_id ox = 2 \<and> map (\<lambda>r. (ob_id r, ob_attempts r)) (ox_rows ox') = [(1, 1)]"
    unfolding ox_def ox'_def by code_simp
  then obtain r r' where rows: "ox_rows ox = [r]" "ob_attempts r = 0" "ox_rows ox' = [r']" "ob_id r' = 1" "ob_attempts r' = 1" "ox_next_id ox = 2"
    by auto
  then show ?thesis
    using rows_change_only_by_named_transitions [OF sample_run [of "''scan-failed''", folded ox_def] step, of r']
    by (simp add: ox_def [symmetric] ox'_def [symmetric])
qed

end
