(* ===== verification/Spec2Isabelle.thy ===== *)
theory Spec2Isabelle
  imports Findings Slots Permissions AddrSpace DiffFacts Observe BaselineFacts TotalLoss ScopeMerge BudgetFacts PlanSplit CycleLife MergeFacts MergeCoverage AttemptRun
    OutboxRefine
begin

text \<open>
  EdgeWatch scans the hosts of its jobs at intervals, compares each scan with the baseline of the
  job, tracks the differences as findings until they are confirmed or have recovered, and sends alerts.
  This development models the parts of the Go program that decide what is scanned, what a scan means,
  and which alert is sent, and proves what makes them correct.

  \<^bold>\<open>The program and its parts.\<close> A trigger of a job (\<open>internal/app/managed_run.go\<close>) takes a slot of the pool
  (\<open>slots.go\<close>) and runs attempts at a scan cycle (\<open>resumable.go\<close>). The plan of the cycle comes from
  \<open>internal/scanner/plan.go\<close>, within the budgets of \<open>internal/config\<close> and \<open>internal/app/tenant_capacity.go\<close>;
  the cycle with its units and checkpoints is kept by \<open>internal/store/cycle.go\<close>. The checkpoints are
  merged into one snapshot (\<open>MergeWorkSnapshots\<close>), and \<open>internal/engine\<close> compares it with the baseline,
  learns from it and changes the findings of the job. The events it gives are queued in the outbox of
  \<open>internal/store/delivery.go\<close>, which workers drain.

  \<^bold>\<open>Theories and code.\<close>
  \<^item> \<open>Prelude\<close>: Go maps as association lists with the locale \<open>keyed_loop\<close> (a loop over a map acts on each
    key by itself), the functions of \<open>strings\<close>, \<open>strconv\<close> and \<open>sort\<close> that the code calls. \<open>Folds\<close> has the
    locales \<open>keyed_fold\<close> and \<open>keyed_merge\<close> for loops that build a map and for merges of sorted lists.
    \<open>GoNet\<close> and \<open>AddrText\<close>: addresses and networks of \<open>net\<close> and \<open>net/netip\<close>, their text and its round trip.
  \<^item> \<open>Model\<close>: \<open>internal/model/model.go\<close>, the records of snapshots, changes, incidents and job state.
  \<^item> \<open>Findings\<close>: \<open>applyObservedChanges\<close> of \<open>internal/engine/observation.go\<close> with its loops over the pending,
    open and suppressed findings, and its refinement of a specification of one finding.
  \<^item> \<open>Coverage\<close>, \<open>Diff\<close>, \<open>DiffFacts\<close>, \<open>Observe\<close>: which addresses and protocols a scan covered, the comparison of
    two snapshots, and the findings a scan may retire or must keep (\<open>engine.go\<close>, \<open>observation.go\<close>).
  \<^item> \<open>Baseline\<close>, \<open>BaselineFacts\<close>, \<open>Samples\<close>, \<open>ScopeMerge\<close>: how a baseline is learned and merged after a change of
    scope. \<open>Engine\<close>, \<open>EngineFacts\<close>, \<open>TotalLoss\<close>: the transitions of a job's state by a successful, an
    incomplete or a failed scan, the guard against a scan that lost everything, and reachable states.
  \<^item> \<open>Ports\<close>, \<open>Budget\<close>, \<open>BudgetFacts\<close>, \<open>TargetFacts\<close>: port expressions, targets, estimates and budgets of
    \<open>internal/config/config.go\<close>. \<open>AddrSpace\<close>: \<open>internal/addrspace/addrspace.go\<close>.
  \<^item> \<open>Plan\<close>, \<open>PlanFacts\<close>, \<open>PlanUnits\<close>, \<open>PlanScan\<close>, \<open>PlanSplit\<close>, \<open>ResolveFacts\<close>: \<open>internal/scanner/plan.go\<close> with the
    resolution of targets in \<open>nmap.go\<close>; units, the scan they make up, and their halves.
  \<^item> \<open>Cycle\<close>, \<open>CycleEnrich\<close>, \<open>CycleFacts\<close>, \<open>CycleLife\<close>: the transactions of \<open>cycle.go\<close> as functions on a cycle, a
    step relation over them and reachable cycles.
  \<^item> \<open>ScanText\<close>, \<open>Merge\<close>, \<open>MergeFacts\<close>, \<open>MergeCoverage\<close>: texts of scanners and the merge of checkpoints
    (\<open>plan.go\<close>, \<open>nmap.go\<close>, \<open>naabu.go\<close>).
  \<^item> \<open>Attempt\<close>, \<open>AttemptFacts\<close>, \<open>AttemptLoop\<close>, \<open>AttemptRun\<close>: \<open>runResumableAttempt\<close> over the cycles of a job.
  \<^item> \<open>Slots\<close>: the slot pool, one step for each operation under its lock. \<open>Permissions\<close>:
    \<open>internal/auth/permissions.go\<close>.
  \<^item> \<open>Outbox\<close>: the operations on the outbox in \<open>delivery.go\<close>, \<open>planned_change_window.go\<close>,
    \<open>notification_delivery.go\<close> and \<open>notification.go\<close>. \<open>OutboxContract\<close>: the table of transitions in
    \<open>outbox_transitions.go\<close>. \<open>OutboxFacts\<close> has what the operations do to one row and the locale
    \<open>row_invariant\<close>, which proves for any law of rows that every operation keeps it; \<open>OutboxLife\<close>
    interprets it with the soundness of a row and with the time it has waited. \<open>OutboxTable\<close> reads the
    table as relations between rows, and \<open>OutboxRefine\<close> refines each operation to the stages of transitions
    that its code names.

  \<^bold>\<open>What the lemmas show.\<close> A type invariant of the job state over all scans; the number of reports that confirm
  a finding and of absences that recover it; which absences count, and that missing coverage is none;
  that budgets decide on the true amount of work; that a plan probes only what it may, and halving a unit
  ends; that a completed cycle scanned every address and port of its plan once, whatever was split, retried or
  interrupted, and a successful attempt reports exactly the merge of its checkpoints; that slots are counted
  exactly, given out fairly and never left idle; that an alert is dropped only for a used-up budget,
  that of its attempts not before 4622 minutes have passed, or for an unreadable payload, is never stuck after a restart and
  never sent in an open window, and that every operation on the outbox does to a row what the table of transitions says.

  \<^bold>\<open>How the code is modelled.\<close> Values and stores are passed explicitly; an operation of the store returns an
  error or the new state. Errors are constructors, their texts are left out. A Go map is an association list,
  a set a list, and a proof about a map does not use its order; an update of a slice element is a list update
  with the bounds that the code checks. \<open>int64\<close> is an integer with the wrap-around written out where the code
  can reach it, the \<open>uint64\<close> counters of the slot pool count modulo \<open>2 ^ 64\<close>, addresses are words. A time
  is an integer and comes as an argument, as does every fresh identifier. \<open>sort.Slice\<close> is a stable sort by the
  key of its comparison. Lower case and white space are those of ASCII, but for \<open>ScanText\<close>, which also trims
  the white space of Unicode. SHA-256, JSON text, name resolution and the outcome of a scanner are parameters.
  Sums that SQLite computes are integers. A failing database and a cancelled context end an operation without
  a change, and are not values of the model.

  \<^bold>\<open>Termination and fuel.\<close> Loops are structural recursion or have a termination proof by a measure: halving a
  unit by its size, dispatching by the free slots, covering a range by the addresses left, the enrichment of a
  cycle by the units that are not expanded yet. The
  turns of an attempt come as a list of what the scanner returns; an attempt with too few of them stops, which
  is a result of its own (\<open>Stopped\<close>), and \<open>undisturbed_attempt_finishes\<close> gives the number of turns that is enough.

  \<^bold>\<open>Not modelled.\<close> The web server and its handlers, sign-in and sessions, the command line, the sandbox and the
  supervision of scanner processes, the reading of scanner output, the notification worker and providers,
  RDAP, the update check, migrations, backups and retention: they are input and output, operating system calls,
  or SQL without a decision of their own. The forecast of scan slots (\<open>scan_slot_demand.go\<close>) and the inbox of
  incidents are reports on modelled state. \<open>Pack\<close> of \<open>addrspace.go\<close> is left out. The frontend is not Go.
\<close>

end
